(* ===== verification/Prelude.thy ===== *)
theory Prelude
  imports Main "HOL-Library.Word" "HOL-Library.Sublist"
begin

text \<open>
  The shared ground of the development: octets and C strings, the return codes of the
  POSIX library, the string and memory comparison functions of the C library, and the
  generic list lemmas the components use.

  An octet (\<open>uint8_t\<close>, \<open>char\<close>) is a HOL \<^typ>\<open>char\<close>, so that the casts between
  \<open>uint8_t *\<close> and \<open>char *\<close> in the code are identities here. A \<open>char *\<close> that the code
  treats as a nul-terminated string is the HOL \<^typ>\<open>string\<close> in front of the nul; a buffer
  that holds arbitrary octets is an octet list whose C-string reading is \<open>cstr\<close>.
\<close>

named_theorems cmp_simps \<open>facts on the comparison functions of the C library\<close>
named_theorems cstr_simps \<open>facts on nul-terminated readings of buffers\<close>

type_synonym octet = char
type_synonym octets = "char list"

abbreviation NUL :: char where "NUL \<equiv> CHR 0x00"

section \<open>Return codes\<close>

abbreviation (input) ENOENT :: int where "ENOENT \<equiv> 2"
abbreviation (input) EIO :: int where "EIO \<equiv> 5"
abbreviation (input) ENOEXEC :: int where "ENOEXEC \<equiv> 8"
abbreviation (input) ENOMEM :: int where "ENOMEM \<equiv> 12"
abbreviation (input) EEXIST :: int where "EEXIST \<equiv> 17"
abbreviation (input) ENODEV :: int where "ENODEV \<equiv> 19"
abbreviation (input) EINVAL :: int where "EINVAL \<equiv> 22"
abbreviation (input) ENOSPC :: int where "ENOSPC \<equiv> 28"
abbreviation (input) ENOTSUP :: int where "ENOTSUP \<equiv> 95"
abbreviation (input) ENOTCONN :: int where "ENOTCONN \<equiv> 107"
abbreviation (input) ENOKEY :: int where "ENOKEY \<equiv> 126"

section \<open>Octets and C strings\<close>

definition octet_val :: "octet \<Rightarrow> nat" where
  "octet_val c = of_char c"

definition schar_val :: "octet \<Rightarrow> int" where
  \<comment> \<open>the value of a \<open>char\<close> read as a signed integer\<close>
  "schar_val c = (if octet_val c < 128 then int (octet_val c) else int (octet_val c) - 256)"

definition cstr :: "octets \<Rightarrow> string" where
  \<comment> \<open>what a C string function sees of a buffer\<close>
  "cstr bs = takeWhile (\<lambda>c. c \<noteq> NUL) bs"

definition cstring_ok :: "string \<Rightarrow> bool" where
  "cstring_ok s \<longleftrightarrow> NUL \<notin> set s"

fun memcmp :: "octets \<Rightarrow> octets \<Rightarrow> int" where
  "memcmp (a # as) (b # bs) =
     (if octet_val a < octet_val b then -1
      else if octet_val b < octet_val a then 1
      else memcmp as bs)"
| "memcmp _ _ = 0"

fun strcmp :: "string \<Rightarrow> string \<Rightarrow> int" where
  "strcmp [] [] = 0"
| "strcmp [] (b # bs) = -1"
| "strcmp (a # as) [] = 1"
| "strcmp (a # as) (b # bs) =
     (if octet_val a < octet_val b then -1
      else if octet_val b < octet_val a then 1
      else strcmp as bs)"

definition strncmp :: "string \<Rightarrow> string \<Rightarrow> nat \<Rightarrow> int" where
  "strncmp a b n = strcmp (take n a) (take n b)"

definition strlcpy :: "nat \<Rightarrow> string \<Rightarrow> string" where
  \<comment> \<open>the string a buffer of \<open>n > 0\<close> octets holds after a truncating copy\<close>
  "strlcpy n s = take (n - 1) s"

fun show_dec :: "nat \<Rightarrow> string" where
  \<comment> \<open>the decimal conversion of printf\<close>
  "show_dec n = (if n < 10 then [char_of (48 + n)] else show_dec (n div 10) @ [char_of (48 + n mod 10)])"

declare show_dec.simps [simp del]

text \<open>The outcome of code that may leave the defined behaviour of C (an access outside of a
  buffer, a failed assertion, a second deallocation).\<close>

datatype 'a exec = Fault | Ret 'a

section \<open>Lemmas on octets and C strings\<close>

lemma octet_val_inj [cmp_simps]: "octet_val a = octet_val b \<longleftrightarrow> a = b"
  by (simp add: octet_val_def)

lemma octet_val_less [simp]: "octet_val c < 256"
  by (simp add: octet_val_def)

lemma octet_val_NUL [simp]: "octet_val c = 0 \<longleftrightarrow> c = NUL"
proof -
  have "octet_val NUL = 0" by (simp add: octet_val_def)
  then show ?thesis using octet_val_inj by metis
qed

lemma octet_antisym:
  "\<not> octet_val a < octet_val b \<Longrightarrow> \<not> octet_val b < octet_val a \<Longrightarrow> a = b"
  using octet_val_inj by (metis linorder_neqE_nat)

lemma cstr_id [cstr_simps]: "cstring_ok s \<Longrightarrow> cstr s = s"
  by (auto simp: cstring_ok_def cstr_def takeWhile_eq_all_conv)

lemma cstr_append_NUL [cstr_simps]: "cstring_ok s \<Longrightarrow> cstr (s @ NUL # r) = s"
  by (auto simp: cstring_ok_def cstr_def takeWhile_tail)

lemma cstring_ok_cstr [simp]: "cstring_ok (cstr bs)"
  by (auto simp: cstring_ok_def cstr_def dest: set_takeWhileD)

lemma cstring_ok_append [simp]: "cstring_ok (a @ b) \<longleftrightarrow> cstring_ok a \<and> cstring_ok b"
  by (auto simp: cstring_ok_def)

lemma cstring_ok_Cons [simp]: "cstring_ok (c # b) \<longleftrightarrow> c \<noteq> NUL \<and> cstring_ok b"
  by (auto simp: cstring_ok_def)

lemma cstring_ok_Nil [simp]: "cstring_ok []"
  by (simp add: cstring_ok_def)

lemma cstring_ok_take: "cstring_ok s \<Longrightarrow> cstring_ok (take n s)"
  by (auto simp: cstring_ok_def dest: in_set_takeD)

lemma memcmp_refl [simp]: "memcmp a a = 0"
  by (induction a) auto

lemma memcmp_eq_0 [cmp_simps]: "length a = length b \<Longrightarrow> memcmp a b = 0 \<longleftrightarrow> a = b"
proof (induction a b rule: memcmp.induct)
  case (1 a as b bs)
  then show ?case by (auto dest: octet_antisym)
qed auto

lemma memcmp_swap: "memcmp b a = - memcmp a b"
  by (induction a b rule: memcmp.induct) auto

lemma memcmp_range: "memcmp a b \<in> {-1, 0, 1}"
  by (induction a b rule: memcmp.induct) auto

lemma strcmp_eq_0 [cmp_simps]: "strcmp a b = 0 \<longleftrightarrow> a = b"
proof (induction a b rule: strcmp.induct)
  case (4 a as b bs)
  then show ?case by (auto dest: octet_antisym)
qed auto

lemma strcmp_refl [simp]: "strcmp a a = 0"
  by (simp add: cmp_simps)

lemma strcmp_swap: "strcmp b a = - strcmp a b"
  by (induction a b rule: strcmp.induct) auto

lemma strcmp_trans: "strcmp a b < 0 \<Longrightarrow> strcmp b c < 0 \<Longrightarrow> strcmp a c < 0"
proof (induction a b arbitrary: c rule: strcmp.induct)
  case (2 b bs)
  then show ?case by (cases c) auto
next
  case (4 a as b bs)
  from "4.prems"(2) obtain d ds where c: "c = d # ds" by (cases c) auto
  have ab: "octet_val a < octet_val b \<or> octet_val a = octet_val b \<and> strcmp as bs < 0"
    using "4.prems"(1) by (simp split: if_splits)
  have bd: "octet_val b < octet_val d \<or> octet_val b = octet_val d \<and> strcmp bs ds < 0"
    using "4.prems"(2) by (simp add: c split: if_splits)
  have "octet_val a < octet_val d \<or> octet_val a = octet_val d \<and> strcmp as ds < 0"
    using ab bd "4.IH" [of ds] by linarith
  then show ?case by (auto simp: c)
qed auto

lemma strcmp_range: "strcmp a b \<in> {-1, 0, 1}"
  by (induction a b rule: strcmp.induct) auto

lemma strcmp_lexord:
  "strcmp a b = (if a = b then 0
     else if (map octet_val a, map octet_val b) \<in> lexord {(x, y). x < y} then -1 else 1)"
proof (induction a b rule: strcmp.induct)
  case (4 a as b bs)
  then show ?case by (auto dest: octet_antisym)
qed auto

lemma strncmp_eq_0 [cmp_simps]:
  "length a \<le> n \<Longrightarrow> length b \<le> n \<Longrightarrow> strncmp a b n = 0 \<longleftrightarrow> a = b"
  by (simp add: strncmp_def cmp_simps)

lemma strncmp_prefix [cmp_simps]: "strncmp s p (length p) = 0 \<longleftrightarrow> prefix p s"
  by (auto simp: strncmp_def strcmp_eq_0 prefix_def) (metis append_take_drop_id)

lemma strlcpy_id [simp]: "length s < n \<Longrightarrow> strlcpy n s = s"
  by (simp add: strlcpy_def)

section \<open>Generic list lemmas\<close>

lemma find_append:
  "List.find P (xs @ ys) = (case List.find P xs of None \<Rightarrow> List.find P ys | Some x \<Rightarrow> Some x)"
  by (induction xs) auto

lemma find_SomeD: "List.find P xs = Some x \<Longrightarrow> x \<in> set xs \<and> P x"
  by (induction xs) (auto split: if_splits)

lemma find_filter_None:
  "(\<And>x. P x \<Longrightarrow> Q x) \<Longrightarrow> List.find P (filter (\<lambda>x. \<not> Q x) xs) = None"
  by (auto simp: find_None_iff)

lemma find_filter_keep:
  "(\<And>x. x \<in> set xs \<Longrightarrow> P x \<Longrightarrow> Q x) \<Longrightarrow> List.find P (filter Q xs) = List.find P xs"
  by (induction xs) auto

lemma find_replace:
  "h \<noteq> k \<Longrightarrow> List.find (\<lambda>x. f x = h) (map (\<lambda>x. if f x = k then r else x) xs) = List.find (\<lambda>x. f x = h) xs"
  if "f r = k"
  using that by (induction xs) auto

lemma find_replace_same:
  "f r = k \<Longrightarrow> List.find (\<lambda>x. f x = k) (map (\<lambda>x. if f x = k then r else x) xs) =
     (if List.find (\<lambda>x. f x = k) xs = None then None else Some r)"
  by (induction xs) auto

lemma distinct_map_filter_sub: "distinct (map f xs) \<Longrightarrow> distinct (map f (filter P xs))"
  by (induction xs) auto

lemma take_append_exact: "length a = n \<Longrightarrow> take n (a @ b) = a"
  by simp

lemma drop_append_exact: "length a = n \<Longrightarrow> drop n (a @ b) = b"
  by simp

section \<open>Three-way comparison\<close>

text \<open>
  The contract of a C comparison function on the objects that satisfy \<open>ok\<close>: it orders
  them totally by a key. Its clients search lists of such objects with
  \<open>cmp x a = 0\<close> and rely on finding the entry with the same key.
\<close>

locale three_way_cmp =
  fixes cmp :: "'a \<Rightarrow> 'a \<Rightarrow> int"
    and key :: "'a \<Rightarrow> 'k"
    and ok :: "'a \<Rightarrow> bool"
  assumes cmp_zero: "ok a \<Longrightarrow> ok b \<Longrightarrow> cmp a b = 0 \<longleftrightarrow> key a = key b"
    and cmp_swap: "ok a \<Longrightarrow> ok b \<Longrightarrow> cmp b a = - cmp a b"
    and cmp_trans: "ok a \<Longrightarrow> ok b \<Longrightarrow> ok c \<Longrightarrow> cmp a b < 0 \<Longrightarrow> cmp b c < 0 \<Longrightarrow> cmp a c < 0"
begin

lemma cmp_self: "ok a \<Longrightarrow> cmp a a = 0"
  by (simp add: cmp_zero)

lemma cmp_total: "ok a \<Longrightarrow> ok b \<Longrightarrow> cmp a b < 0 \<or> key a = key b \<or> cmp b a < 0"
  using cmp_zero [of a b] cmp_swap [of a b] by fastforce

lemma find_by_key:
  "list_all ok xs \<Longrightarrow> ok a \<Longrightarrow>
     List.find (\<lambda>x. cmp x a = 0) xs = List.find (\<lambda>x. key x = key a) xs"
  by (induction xs) (auto simp: cmp_zero)

lemma find_None_fresh:
  assumes "list_all ok xs" and "ok a" and "List.find (\<lambda>x. cmp x a = 0) xs = None"
    and "distinct (map key xs)"
  shows "distinct (map key (xs @ [a]))"
  using assms by (auto simp: find_None_iff cmp_zero list_all_iff)

end

end
