(* ===== verification/Osmo_Core.thy ===== *)
theory Osmo_Core
  imports Prelude
begin

text \<open>
  The functions of libosmocore and libosmogsm that the code calls and that are not part of
  the repository. They are parameters of the model: a definition that calls one of them
  takes the record \<open>osmo_core\<close> that holds them. What the code relies on is stated by the
  predicates \<open>lib_cmp_ok\<close>, \<open>lib_hex_ok\<close>, \<open>lib_strings_ok\<close>, \<open>lib_endian_ok\<close>, \<open>lib_strbuf_ok\<close> and \<open>lib_text_ok\<close>,
  which a theorem names where it needs them. \<open>ref_core\<close> is one record that satisfies all
  of them, used to show that the hypotheses of the theorems can hold.

  The intrusive lists of libosmocore (\<open>llist_head\<close>) are HOL lists: \<open>llist_add\<close> puts an
  entry in front, \<open>llist_add_tail\<close> at the end, \<open>llist_del\<close> takes it out, the
  \<open>for_each\<close> loops visit the entries in order. Memory allocation succeeds (the code
  asserts it almost everywhere).
\<close>

record osmo_sockaddr_str =
  sa_af :: nat
  sa_ip :: string
  sa_port :: "16 word"

definition sockaddr_zero :: osmo_sockaddr_str where
  "sockaddr_zero = \<lparr>sa_af = 0, sa_ip = [], sa_port = 0\<rparr>"

abbreviation (input) AF_INET :: nat where "AF_INET \<equiv> 2"
abbreviation (input) AF_INET6 :: nat where "AF_INET6 \<equiv> 10"

record osmo_strbuf =
  sb_size :: nat
  sb_out :: string
  sb_chars_needed :: nat

type_synonym value_string = "(int \<times> string) list"

record osmo_core =
  osmo_cmp :: "int \<Rightarrow> int \<Rightarrow> int"
  osmo_escape_str :: "octets \<Rightarrow> string"
  osmo_imsi_str_valid :: "string \<Rightarrow> bool"
  osmo_msisdn_str_valid :: "string \<Rightarrow> bool"
  osmo_imei_str_valid :: "string \<Rightarrow> bool \<Rightarrow> bool"
  osmo_is_hexstr :: "string \<Rightarrow> nat \<Rightarrow> nat \<Rightarrow> bool \<Rightarrow> bool"
  osmo_hexparse :: "string \<Rightarrow> octets"
  get_string_value :: "value_string \<Rightarrow> string \<Rightarrow> int"
  get_value_string :: "value_string \<Rightarrow> int \<Rightarrow> string"
  strbuf_printf :: "osmo_strbuf \<Rightarrow> string \<Rightarrow> osmo_strbuf"
  strbuf_append :: "osmo_strbuf \<Rightarrow> (nat \<Rightarrow> string \<times> nat) \<Rightarrow> osmo_strbuf"
  osmo_sockaddr_str_fmt :: "osmo_sockaddr_str \<Rightarrow> string"
  osmo_store16be :: "16 word \<Rightarrow> octets"
  osmo_load16be :: "octets \<Rightarrow> 16 word"
  osmo_store32be :: "32 word \<Rightarrow> octets"
  osmo_load32be :: "octets \<Rightarrow> 32 word"
  osmo_strnchr :: "octets \<Rightarrow> char \<Rightarrow> nat option"
  osmo_print_n :: "nat \<Rightarrow> octets \<Rightarrow> string"
  osmo_sockaddr_str_is_set :: "osmo_sockaddr_str \<Rightarrow> bool"
  osmo_sockaddr_str_is_nonzero :: "osmo_sockaddr_str \<Rightarrow> bool"
  osmo_sockaddr_str_cmp :: "osmo_sockaddr_str \<Rightarrow> osmo_sockaddr_str \<Rightarrow> int"
  osmo_sockaddr_str_to_in_addr :: "osmo_sockaddr_str \<Rightarrow> octets option"
  osmo_sockaddr_str_to_in6_addr :: "osmo_sockaddr_str \<Rightarrow> octets option"
  osmo_sockaddr_str_from_32 :: "octets \<Rightarrow> 16 word \<Rightarrow> osmo_sockaddr_str"
  osmo_sockaddr_str_from_in6_addr :: "octets \<Rightarrow> 16 word \<Rightarrow> osmo_sockaddr_str"
  osmo_sockaddr_str_from_str :: "string \<Rightarrow> 16 word \<Rightarrow> osmo_sockaddr_str \<times> int"

section \<open>What the code relies on\<close>

definition is_digit :: "char \<Rightarrow> bool" where
  "is_digit c \<longleftrightarrow> 48 \<le> octet_val c \<and> octet_val c \<le> 57"

definition lower :: "char \<Rightarrow> char" where
  "lower c = (if 65 \<le> octet_val c \<and> octet_val c \<le> 90 then char_of (octet_val c + 32) else c)"

definition lib_strings_ok :: "osmo_core \<Rightarrow> bool" where
  \<comment> \<open>IMSI: 6 to 15 digits; MSISDN: 1 to 15 digits; \<open>value_string\<close> tables are searched
    front to back, without regard to case\<close>
  "lib_strings_ok L \<longleftrightarrow>
     (\<forall>s. osmo_imsi_str_valid L s \<longrightarrow> list_all is_digit s \<and> 6 \<le> length s \<and> length s \<le> 15) \<and>
     (\<forall>s. osmo_msisdn_str_valid L s \<longrightarrow> list_all is_digit s \<and> 1 \<le> length s \<and> length s \<le> 15) \<and>
     (\<forall>v s vs t. get_string_value L ((v, s) # vs) t =
        (if map lower s = map lower t then v else get_string_value L vs t)) \<and>
     (\<forall>t. get_string_value L [] t = - EINVAL) \<and>
     (\<forall>v s vs w. get_value_string L ((v, s) # vs) w =
        (if v = w then s else get_value_string L vs w))"

definition lib_endian_ok :: "osmo_core \<Rightarrow> bool" where
  \<comment> \<open>a stored integer is as long as its type and is loaded back unchanged\<close>
  "lib_endian_ok L \<longleftrightarrow>
     (\<forall>w. length (osmo_store16be L w) = 2) \<and>
     (\<forall>w r. osmo_load16be L (osmo_store16be L w @ r) = w) \<and>
     (\<forall>w. length (osmo_store32be L w) = 4) \<and>
     (\<forall>w r. osmo_load32be L (osmo_store32be L w @ r) = w)"

definition lib_strbuf_ok :: "osmo_core \<Rightarrow> bool" where
  \<comment> \<open>text that fits, with its nul, is appended, also by a function that prints into the
    rest of the buffer; the wanted length is always counted\<close>
  "lib_strbuf_ok L \<longleftrightarrow>
     (\<forall>sb s. sb_chars_needed (strbuf_printf L sb s) = sb_chars_needed sb + length s \<and>
             sb_size (strbuf_printf L sb s) = sb_size sb) \<and>
     (\<forall>sb s. length (sb_out sb) + length s < sb_size sb \<longrightarrow>
             sb_out (strbuf_printf L sb s) = sb_out sb @ s) \<and>
     (\<forall>sb f s. f (sb_size sb - length (sb_out sb)) = (s, length s) \<longrightarrow>
             length (sb_out sb) + length s < sb_size sb \<longrightarrow>
             strbuf_append L sb f =
               sb\<lparr>sb_out := sb_out sb @ s, sb_chars_needed := sb_chars_needed sb + length s\<rparr>)"

definition lib_hex_ok :: "osmo_core \<Rightarrow> bool" where
  \<comment> \<open>a hex string has a length within the bounds\<close>
  "lib_hex_ok L \<longleftrightarrow> (\<forall>s a b e. osmo_is_hexstr L s a b e \<longrightarrow> a \<le> length s \<and> length s \<le> b)"

definition lib_cmp_ok :: "osmo_core \<Rightarrow> bool" where
  \<comment> \<open>the macro that compares two integers\<close>
  "lib_cmp_ok L \<longleftrightarrow> (\<forall>a b. osmo_cmp L a b = (if a < b then -1 else if b < a then 1 else 0))"

definition lib_text_ok :: "osmo_core \<Rightarrow> bool" where
  \<comment> \<open>\<open>osmo_strnchr\<close> finds the first occurrence in front of a nul; \<open>osmo_print_n\<close> copies
    a string that fits\<close>
  "lib_text_ok L \<longleftrightarrow>
     (\<forall>k c r. cstring_ok k \<longrightarrow> c \<notin> set k \<longrightarrow> c \<noteq> NUL \<longrightarrow>
        osmo_strnchr L (k @ c # r) c = Some (length k)) \<and>
     (\<forall>n s. cstring_ok s \<longrightarrow> length s < n \<longrightarrow> osmo_print_n L n s = s)"

lemmas lib_strings_okD = lib_strings_ok_def [THEN iffD1]
lemmas lib_endian_okD = lib_endian_ok_def [THEN iffD1]
lemmas lib_strbuf_okD = lib_strbuf_ok_def [THEN iffD1]
lemmas lib_text_okD = lib_text_ok_def [THEN iffD1]

lemma lib_value_tables:
  assumes "lib_strings_ok L"
  shows "get_string_value L ((v, s) # vs) t =
      (if map lower s = map lower t then v else get_string_value L vs t)"
    and "get_string_value L [] t = - EINVAL"
    and "get_value_string L ((v, s) # vs) w = (if v = w then s else get_value_string L vs w)"
  using assms unfolding lib_strings_ok_def by blast+

lemma strbuf_printf_ok:
  assumes "lib_strbuf_ok L" and "length (sb_out sb) + length s < sb_size sb"
  shows "strbuf_printf L sb s =
    sb\<lparr>sb_out := sb_out sb @ s, sb_chars_needed := sb_chars_needed sb + length s\<rparr>"
  using assms by (intro osmo_strbuf.equality) (simp_all add: lib_strbuf_ok_def)

lemma strbuf_append_ok:
  assumes "lib_strbuf_ok L" and "f (sb_size sb - length (sb_out sb)) = (s, length s)"
    and "length (sb_out sb) + length s < sb_size sb"
  shows "strbuf_append L sb f =
    sb\<lparr>sb_out := sb_out sb @ s, sb_chars_needed := sb_chars_needed sb + length s\<rparr>"
  using assms by (simp add: lib_strbuf_ok_def)

lemma digit_not_NUL: "is_digit c \<Longrightarrow> c \<noteq> NUL"
  by (auto simp: is_digit_def octet_val_def)

lemma digit_not_dot: "is_digit c \<Longrightarrow> c \<noteq> CHR ''.''"
  by (auto simp: is_digit_def octet_val_def)

lemma digits_cstring_ok: "list_all is_digit s \<Longrightarrow> cstring_ok s"
  by (auto simp: list_all_iff cstring_ok_def dest: digit_not_NUL)

lemma digits_no_dot: "list_all is_digit s \<Longrightarrow> CHR ''.'' \<notin> set s"
  by (auto simp: list_all_iff dest: digit_not_dot)

section \<open>A record that satisfies the hypotheses\<close>

fun ref_string_value :: "value_string \<Rightarrow> string \<Rightarrow> int" where
  "ref_string_value [] t = - EINVAL"
| "ref_string_value ((v, s) # vs) t =
     (if map lower s = map lower t then v else ref_string_value vs t)"

fun ref_value_string :: "value_string \<Rightarrow> int \<Rightarrow> string" where
  "ref_value_string [] w = ''unknown''"
| "ref_value_string ((v, s) # vs) w = (if v = w then s else ref_value_string vs w)"

definition ref_strbuf_printf :: "osmo_strbuf \<Rightarrow> string \<Rightarrow> osmo_strbuf" where
  "ref_strbuf_printf sb s =
     sb\<lparr>sb_out := sb_out sb @ take (sb_size sb - 1 - length (sb_out sb)) s,
        sb_chars_needed := sb_chars_needed sb + length s\<rparr>"

fun ref_index :: "octets \<Rightarrow> char \<Rightarrow> nat option" where
  "ref_index [] c = None"
| "ref_index (x # xs) c =
     (if x = c then Some 0 else if x = NUL then None else map_option Suc (ref_index xs c))"

definition ref_store :: "nat \<Rightarrow> nat \<Rightarrow> octets" where
  "ref_store k n = map (\<lambda>i. char_of (n div 256 ^ (k - 1 - i))) [0..<k]"

fun ref_load :: "nat \<Rightarrow> nat \<Rightarrow> octets \<Rightarrow> nat" where
  "ref_load 0 acc bs = acc"
| "ref_load (Suc k) acc [] = acc"
| "ref_load (Suc k) acc (b # bs) = ref_load k (acc * 256 + octet_val b) bs"

definition ref_strbuf_append :: "osmo_strbuf \<Rightarrow> (nat \<Rightarrow> string \<times> nat) \<Rightarrow> osmo_strbuf" where
  "ref_strbuf_append sb f =
     (case f (sb_size sb - length (sb_out sb)) of
        (s, n) \<Rightarrow> sb\<lparr>sb_out := sb_out sb @ s, sb_chars_needed := sb_chars_needed sb + n\<rparr>)"

definition ref_core :: osmo_core where
  "ref_core = \<lparr>
     osmo_cmp = (\<lambda>a b. if a < b then -1 else if b < a then 1 else 0),
     osmo_escape_str = id,
     osmo_imsi_str_valid = (\<lambda>s. list_all is_digit s \<and> 6 \<le> length s \<and> length s \<le> 15),
     osmo_msisdn_str_valid = (\<lambda>s. list_all is_digit s \<and> 1 \<le> length s \<and> length s \<le> 15),
     osmo_imei_str_valid = (\<lambda>s _. list_all is_digit s \<and> length s = 14),
     osmo_is_hexstr = (\<lambda>s a b _. a \<le> length s \<and> length s \<le> b),
     osmo_hexparse = (\<lambda>s. take (length s div 2) s),
     get_string_value = ref_string_value,
     get_value_string = ref_value_string,
     strbuf_printf = ref_strbuf_printf,
     strbuf_append = ref_strbuf_append,
     osmo_sockaddr_str_fmt = sa_ip,
     osmo_store16be = (\<lambda>w. ref_store 2 (unat w)),
     osmo_load16be = (\<lambda>bs. of_nat (ref_load 2 0 bs)),
     osmo_store32be = (\<lambda>w. ref_store 4 (unat w)),
     osmo_load32be = (\<lambda>bs. of_nat (ref_load 4 0 bs)),
     osmo_strnchr = ref_index,
     osmo_print_n = (\<lambda>n s. take (n - 1) (cstr s)),
     osmo_sockaddr_str_is_set = (\<lambda>a. sa_ip a \<noteq> []),
     osmo_sockaddr_str_is_nonzero = (\<lambda>a. sa_ip a \<noteq> [] \<and> sa_port a \<noteq> 0),
     osmo_sockaddr_str_cmp = (\<lambda>a b. if a = b then 0 else 1),
     osmo_sockaddr_str_to_in_addr =
       (\<lambda>a. if sa_af a = AF_INET \<and> length (sa_ip a) = 4 then Some (sa_ip a) else None),
     osmo_sockaddr_str_to_in6_addr =
       (\<lambda>a. if sa_af a = AF_INET6 \<and> length (sa_ip a) = 16 then Some (sa_ip a) else None),
     osmo_sockaddr_str_from_32 = (\<lambda>bs p. \<lparr>sa_af = AF_INET, sa_ip = bs, sa_port = p\<rparr>),
     osmo_sockaddr_str_from_in6_addr = (\<lambda>bs p. \<lparr>sa_af = AF_INET6, sa_ip = bs, sa_port = p\<rparr>),
     osmo_sockaddr_str_from_str =
       (\<lambda>s p. (\<lparr>sa_af = AF_INET, sa_ip = s, sa_port = p\<rparr>, 0))\<rparr>"

lemma ref_strings_ok: "lib_strings_ok ref_core"
  by (simp add: lib_strings_ok_def ref_core_def)

lemma ref_strbuf_ok: "lib_strbuf_ok ref_core"
  by (simp add: lib_strbuf_ok_def ref_core_def ref_strbuf_printf_def ref_strbuf_append_def)

lemma ref_hex_ok: "lib_hex_ok ref_core"
  by (simp add: lib_hex_ok_def ref_core_def)

lemma ref_cmp_ok: "lib_cmp_ok ref_core"
  by (simp add: lib_cmp_ok_def ref_core_def)

lemma ref_index_first:
  "cstring_ok k \<Longrightarrow> c \<notin> set k \<Longrightarrow> c \<noteq> NUL \<Longrightarrow> ref_index (k @ c # r) c = Some (length k)"
  by (induction k) (auto simp: cstring_ok_def)

lemma ref_text_ok: "lib_text_ok ref_core"
  by (simp add: lib_text_ok_def ref_core_def ref_index_first cstr_id)

lemma length_ref_store: "length (ref_store k n) = k"
  by (simp add: ref_store_def)

lemma ref_store2: "ref_store 2 n = [char_of (n div 256), char_of n]"
  by (simp add: ref_store_def upt_rec)

lemma ref_store4:
  "ref_store 4 n = [char_of (n div 16777216), char_of (n div 65536), char_of (n div 256), char_of n]"
  by (simp add: ref_store_def upt_rec)

lemma octet_val_char_of [simp]: "octet_val (char_of (n::nat)) = n mod 256"
  by (simp add: octet_val_def)

lemma ref_load_2: "ref_load 2 0 (a # b # r) = octet_val a * 256 + octet_val b"
  unfolding numeral_2_eq_2 by (simp only: ref_load.simps mult_zero_left add_0)

lemma four_Suc: "4 = Suc (Suc (Suc (Suc 0)))"
  by simp

lemma ref_load_4:
  "ref_load 4 0 (a # b # c # d # r) =
     ((octet_val a * 256 + octet_val b) * 256 + octet_val c) * 256 + octet_val d"
  unfolding four_Suc by (simp only: ref_load.simps mult_zero_left add_0)

lemma ref_load2: "(n::nat) < 65536 \<Longrightarrow> ref_load 2 0 (ref_store 2 n @ r) = n"
  by (simp add: ref_store2 ref_load_2)

lemma ref_load4: "(n::nat) < 4294967296 \<Longrightarrow> ref_load 4 0 (ref_store 4 n @ r) = n"
proof -
  assume n: "n < 4294967296"
  have d: "n div 65536 = n div 256 div 256" "n div 16777216 = n div 256 div 256 div 256"
    by (simp_all add: div_mult2_eq [symmetric])
  have top: "n div 256 div 256 div 256 mod 256 = n div 256 div 256 div 256"
    using n by (simp add: div_mult2_eq [symmetric] less_mult_imp_div_less)
  have "((n div 256 div 256 div 256 * 256 + n div 256 div 256 mod 256) * 256 + n div 256 mod 256)
          * 256 + n mod 256 = n"
    by simp
  then show ?thesis
    by (simp only: ref_store4 append.simps ref_load_4 octet_val_char_of d top)
qed

lemma unat16_less: "unat (w :: 16 word) < 65536"
  using unsigned_less [of w] by simp

lemma unat32_less: "unat (w :: 32 word) < 4294967296"
  using unsigned_less [of w] by simp

lemma ref_endian_ok: "lib_endian_ok ref_core"
  by (simp add: lib_endian_ok_def ref_core_def length_ref_store ref_load2 [OF unat16_less]
      ref_load4 [OF unat32_less])

lemmas ref_core_ok = ref_hex_ok ref_cmp_ok ref_strings_ok ref_strbuf_ok ref_text_ok ref_endian_ok

section \<open>Decimal numbers\<close>

fun dec_val :: "string \<Rightarrow> nat \<Rightarrow> nat" where
  "dec_val [] acc = acc"
| "dec_val (c # cs) acc = dec_val cs (acc * 10 + (octet_val c - 48))"

lemma dec_val_append: "dec_val (a @ b) acc = dec_val b (dec_val a acc)"
  by (induction a arbitrary: acc) auto

lemma digit_char: "n < 10 \<Longrightarrow> is_digit (char_of (48 + n)) \<and> octet_val (char_of (48 + n)) - 48 = n"
  by (simp add: is_digit_def)

lemma show_dec_val: "dec_val (show_dec n) 0 = n"
proof (induction n rule: show_dec.induct)
  case (1 n)
  show ?case
  proof (cases "n < 10")
    case True
    then show ?thesis using digit_char [of n] by (subst show_dec.simps) simp
  next
    case False
    then show ?thesis
      using 1 digit_char [of "n mod 10"] by (subst show_dec.simps) (simp add: dec_val_append)
  qed
qed

end
