(* ===== verification/Cni_Peer_Id.thy ===== *)
theory Cni_Peer_Id
  imports Osmo_Core
begin

text \<open>
  Names of core network peers: \<open>src/gsupclient/cni_peer_id.c\<close>. An IPA name is a buffer
  of 128 octets with a length; a peer id is a tagged IPA name. A pointer argument that may
  be NULL is an option; the test \<open>a == b\<close> on pointers is the boolean \<open>same\<close>. The result of
  expanding a printf format is the string argument of the \<open>set_str\<close> functions.
\<close>

section \<open>Data and operations\<close>

record osmo_ipa_name =
  ipa_len :: nat
  ipa_val :: octets

definition IPA_NAME_SIZE :: nat where
  "IPA_NAME_SIZE = 128"

definition ipa_name_empty :: osmo_ipa_name where
  \<comment> \<open>the zero initialiser\<close>
  "ipa_name_empty = \<lparr>ipa_len = 0, ipa_val = replicate IPA_NAME_SIZE NUL\<rparr>"

definition osmo_ipa_name_is_empty :: "osmo_ipa_name option \<Rightarrow> bool" where
  "osmo_ipa_name_is_empty n = (case n of None \<Rightarrow> True | Some n \<Rightarrow> ipa_len n = 0)"

definition osmo_ipa_name_set :: "osmo_ipa_name \<Rightarrow> octets option \<Rightarrow> osmo_ipa_name \<times> int" where
  "osmo_ipa_name_set n v = (case v of
     None \<Rightarrow> (ipa_name_empty, 0)
   | Some val \<Rightarrow>
       if length val = 0 then (ipa_name_empty, 0)
       else if length val > IPA_NAME_SIZE then (n, - ENOSPC)
       else (n\<lparr>ipa_len := length val,
               ipa_val := val @ drop (length val) (ipa_val n)\<rparr>, 0))"

definition osmo_ipa_name_set_str :: "osmo_ipa_name \<Rightarrow> string option \<Rightarrow> osmo_ipa_name \<times> int" where
  "osmo_ipa_name_set_str n str = (case str of
     None \<Rightarrow> osmo_ipa_name_set n None
   | Some s \<Rightarrow>
       let written = take (IPA_NAME_SIZE - 1) (cstr s) @ [NUL];
           val = written @ drop (length written) (ipa_val n)
       in (n\<lparr>ipa_val := val, ipa_len := length (cstr val) + 1\<rparr>, 0))"

definition osmo_ipa_name_cmp ::
  "bool \<Rightarrow> osmo_ipa_name option \<Rightarrow> osmo_ipa_name option \<Rightarrow> int" where
  "osmo_ipa_name_cmp same a b =
     (if same then 0
      else case (a, b) of
        (None, None) \<Rightarrow> 0
      | (None, Some _) \<Rightarrow> -1
      | (Some _, None) \<Rightarrow> 1
      | (Some a, Some b) \<Rightarrow>
          if ipa_len a = 0 \<and> ipa_len b = 0 then 0
          else if ipa_len a = 0 then -1
          else if ipa_len b = 0 then 1
          else if ipa_len a = ipa_len b then
            memcmp (take (ipa_len a) (ipa_val a)) (take (ipa_len a) (ipa_val b))
          else if ipa_len a < ipa_len b then
            (let cmp = memcmp (take (ipa_len a) (ipa_val a)) (take (ipa_len a) (ipa_val b))
             in if cmp = 0 then -1 else cmp)
          else
            (let cmp = memcmp (take (ipa_len b) (ipa_val a)) (take (ipa_len b) (ipa_val b))
             in if cmp = 0 then 1 else cmp))"

definition osmo_ipa_name_to_str :: "osmo_core \<Rightarrow> osmo_ipa_name \<Rightarrow> string" where
  "osmo_ipa_name_to_str L n =
     (let len = ipa_len n
      in if len = 0 then []
         else let len' = (if ipa_val n ! (len - 1) = NUL then len - 1 else len)
              in osmo_escape_str L (take len' (ipa_val n)))"

datatype osmo_cni_peer_id_type =
  OSMO_CNI_PEER_ID_EMPTY | OSMO_CNI_PEER_ID_IPA_NAME | OSMO_CNI_PEER_ID_OTHER nat

fun peer_id_type_val :: "osmo_cni_peer_id_type \<Rightarrow> nat" where
  "peer_id_type_val OSMO_CNI_PEER_ID_EMPTY = 0"
| "peer_id_type_val OSMO_CNI_PEER_ID_IPA_NAME = 1"
| "peer_id_type_val (OSMO_CNI_PEER_ID_OTHER n) = n + 2"

record osmo_cni_peer_id =
  peer_type :: osmo_cni_peer_id_type
  peer_ipa_name :: osmo_ipa_name

definition cni_peer_id_zero :: osmo_cni_peer_id where
  "cni_peer_id_zero = \<lparr>peer_type = OSMO_CNI_PEER_ID_EMPTY, peer_ipa_name = ipa_name_empty\<rparr>"

definition osmo_cni_peer_id_is_empty :: "osmo_cni_peer_id option \<Rightarrow> bool" where
  "osmo_cni_peer_id_is_empty p = (case p of
     None \<Rightarrow> True
   | Some p \<Rightarrow> (case peer_type p of
       OSMO_CNI_PEER_ID_EMPTY \<Rightarrow> True
     | OSMO_CNI_PEER_ID_IPA_NAME \<Rightarrow> osmo_ipa_name_is_empty (Some (peer_ipa_name p))
     | _ \<Rightarrow> False))"

definition osmo_cni_peer_id_set ::
  "osmo_cni_peer_id \<Rightarrow> osmo_cni_peer_id_type \<Rightarrow> octets option \<Rightarrow> osmo_cni_peer_id \<times> int" where
  "osmo_cni_peer_id_set p ty v =
     (let p = p\<lparr>peer_type := ty\<rparr>
      in case ty of
           OSMO_CNI_PEER_ID_IPA_NAME \<Rightarrow>
             (case osmo_ipa_name_set (peer_ipa_name p) v of
                (n, rc) \<Rightarrow> (p\<lparr>peer_ipa_name := n\<rparr>, rc))
         | _ \<Rightarrow> (p, - EINVAL))"

definition osmo_cni_peer_id_set_str ::
  "osmo_cni_peer_id_type \<Rightarrow> string option \<Rightarrow> osmo_cni_peer_id \<times> int" where
  "osmo_cni_peer_id_set_str ty str =
     (case ty of
        OSMO_CNI_PEER_ID_IPA_NAME \<Rightarrow>
          (case osmo_ipa_name_set_str ipa_name_empty str of
             (n, rc) \<Rightarrow> (\<lparr>peer_type = OSMO_CNI_PEER_ID_IPA_NAME, peer_ipa_name = n\<rparr>, rc))
      | _ \<Rightarrow> (cni_peer_id_zero, - EINVAL))"

definition osmo_cni_peer_id_cmp ::
  "osmo_core \<Rightarrow> bool \<Rightarrow> osmo_cni_peer_id option \<Rightarrow> osmo_cni_peer_id option \<Rightarrow> int" where
  "osmo_cni_peer_id_cmp L same a b =
     (if same then 0
      else case (a, b) of
        (None, None) \<Rightarrow> 0
      | (None, Some _) \<Rightarrow> -1
      | (Some _, None) \<Rightarrow> 1
      | (Some a, Some b) \<Rightarrow>
          if peer_type a \<noteq> peer_type b then
            osmo_cmp L (int (peer_id_type_val (peer_type a))) (int (peer_id_type_val (peer_type b)))
          else (case peer_type a of
            OSMO_CNI_PEER_ID_IPA_NAME \<Rightarrow>
              osmo_ipa_name_cmp False (Some (peer_ipa_name a)) (Some (peer_ipa_name b))
          | _ \<Rightarrow> - EINVAL))"

section \<open>Well-formed names and what they hold\<close>

definition ipa_wf :: "osmo_ipa_name \<Rightarrow> bool" where
  "ipa_wf n \<longleftrightarrow> length (ipa_val n) = IPA_NAME_SIZE \<and> ipa_len n \<le> IPA_NAME_SIZE"

definition ipa_bytes :: "osmo_ipa_name \<Rightarrow> octets" where
  "ipa_bytes n = take (ipa_len n) (ipa_val n)"

abbreviation ipa_cmp :: "osmo_ipa_name \<Rightarrow> osmo_ipa_name \<Rightarrow> int" where
  "ipa_cmp a b \<equiv> osmo_ipa_name_cmp False (Some a) (Some b)"

lemma ipa_wf_empty [simp]: "ipa_wf ipa_name_empty"
  by (simp add: ipa_wf_def ipa_name_empty_def)

lemma ipa_bytes_empty [simp]: "ipa_bytes ipa_name_empty = []"
  by (simp add: ipa_bytes_def ipa_name_empty_def)

lemma length_ipa_bytes: "ipa_wf n \<Longrightarrow> length (ipa_bytes n) = ipa_len n"
  by (simp add: ipa_wf_def ipa_bytes_def)

lemma ipa_len_empty_iff: "ipa_wf n \<Longrightarrow> ipa_len n = 0 \<longleftrightarrow> ipa_bytes n = []"
  by (metis length_ipa_bytes length_0_conv)

lemma ipa_is_empty_iff [simp]:
  "ipa_wf n \<Longrightarrow> osmo_ipa_name_is_empty (Some n) \<longleftrightarrow> ipa_bytes n = []"
  by (simp add: osmo_ipa_name_is_empty_def ipa_len_empty_iff)

lemma ipa_set_wf: "ipa_wf n \<Longrightarrow> ipa_wf (fst (osmo_ipa_name_set n v))"
  by (auto simp: osmo_ipa_name_set_def ipa_wf_def ipa_name_empty_def split: option.splits)

lemma ipa_set_bytes:
  "length v \<le> IPA_NAME_SIZE \<Longrightarrow>
     snd (osmo_ipa_name_set n (Some v)) = 0 \<and> ipa_bytes (fst (osmo_ipa_name_set n (Some v))) = v"
  by (auto simp: osmo_ipa_name_set_def ipa_bytes_def ipa_name_empty_def)

lemma ipa_set_too_long:
  "length v > IPA_NAME_SIZE \<Longrightarrow> osmo_ipa_name_set n (Some v) = (n, - ENOSPC)"
  by (auto simp: osmo_ipa_name_set_def IPA_NAME_SIZE_def)

lemma ipa_set_str_wf: "ipa_wf n \<Longrightarrow> ipa_wf (fst (osmo_ipa_name_set_str n s))"
  by (auto simp: osmo_ipa_name_set_str_def ipa_wf_def Let_def IPA_NAME_SIZE_def
      cstr_append_NUL cstring_ok_take ipa_set_wf [unfolded ipa_wf_def IPA_NAME_SIZE_def]
      split: option.splits)

lemma ipa_set_str_bytes:
  "ipa_bytes (fst (osmo_ipa_name_set_str n (Some s))) = take (IPA_NAME_SIZE - 1) (cstr s) @ [NUL]"
  by (simp add: osmo_ipa_name_set_str_def ipa_bytes_def Let_def cstr_append_NUL cstring_ok_take
      min_def)

lemma memcmp_take_strcmp:
  "length a < length b \<Longrightarrow>
     strcmp a b = (let c = memcmp a (take (length a) b) in if c = 0 then -1 else c)"
  by (induction a b rule: strcmp.induct) (auto simp: Let_def)

lemma memcmp_strcmp: "length a = length b \<Longrightarrow> strcmp a b = memcmp a b"
  by (induction a b rule: strcmp.induct) auto

lemma ipa_cmp_strcmp:
  assumes a: "ipa_wf a" and b: "ipa_wf b"
  shows "ipa_cmp a b = strcmp (ipa_bytes a) (ipa_bytes b)"
proof -
  have la: "length (ipa_bytes a) = ipa_len a" and lb: "length (ipa_bytes b) = ipa_len b"
    using a b by (simp_all add: length_ipa_bytes)
  consider (eq) "ipa_len a = ipa_len b" | (lt) "ipa_len a < ipa_len b"
    | (gt) "ipa_len b < ipa_len a" by linarith
  then show ?thesis
  proof cases
    case eq
    then have "strcmp (ipa_bytes a) (ipa_bytes b) = memcmp (ipa_bytes a) (ipa_bytes b)"
      using la lb by (intro memcmp_strcmp) simp
    with eq show ?thesis
      by (auto simp: osmo_ipa_name_cmp_def ipa_bytes_def)
  next
    case lt
    then show ?thesis
      using memcmp_take_strcmp [of "ipa_bytes a" "ipa_bytes b"] la lb
      by (auto simp: osmo_ipa_name_cmp_def ipa_bytes_def min_def Let_def)
  next
    case gt
    then have "strcmp (ipa_bytes a) (ipa_bytes b) =
        (let c = memcmp (take (ipa_len b) (ipa_bytes a)) (ipa_bytes b) in if c = 0 then 1 else c)"
      using memcmp_take_strcmp [of "ipa_bytes b" "ipa_bytes a"] la lb
        strcmp_swap [of "ipa_bytes a" "ipa_bytes b"]
        memcmp_swap [of "ipa_bytes b" "take (ipa_len b) (ipa_bytes a)"]
      by (auto simp: Let_def)
    with gt show ?thesis
      by (auto simp: osmo_ipa_name_cmp_def ipa_bytes_def min_def Let_def)
  qed
qed

interpretation ipa: three_way_cmp ipa_cmp ipa_bytes ipa_wf
proof unfold_locales
  fix a b c
  show "ipa_wf a \<Longrightarrow> ipa_wf b \<Longrightarrow> ipa_cmp a b = 0 \<longleftrightarrow> ipa_bytes a = ipa_bytes b"
    by (simp add: ipa_cmp_strcmp cmp_simps)
  show "ipa_wf a \<Longrightarrow> ipa_wf b \<Longrightarrow> ipa_cmp b a = - ipa_cmp a b"
    by (metis ipa_cmp_strcmp strcmp_swap)
  show "ipa_wf a \<Longrightarrow> ipa_wf b \<Longrightarrow> ipa_wf c \<Longrightarrow> ipa_cmp a b < 0 \<Longrightarrow> ipa_cmp b c < 0 \<Longrightarrow>
      ipa_cmp a c < 0"
    by (metis ipa_cmp_strcmp strcmp_trans)
qed

section \<open>Properties\<close>

text \<open>
  C33. Comparing two IPA names orders them by the octets they hold: the result is 0 exactly
  when the octets are equal, negative when the first name is lexicographically smaller (a
  proper prefix is smaller), positive otherwise. The optimised three-case comparison of the
  code is the lexicographic order of the library.
\<close>
theorem osmo_ipa_name_cmp_lexicographic:
  assumes "ipa_wf a" and "ipa_wf b"
  shows "osmo_ipa_name_cmp False (Some a) (Some b) =
    (if ipa_bytes a = ipa_bytes b then 0
     else if (map octet_val (ipa_bytes a), map octet_val (ipa_bytes b)) \<in> lexord {(x, y). x < y}
     then -1 else 1)"
  using assms by (simp add: ipa_cmp_strcmp strcmp_lexord)

theorem osmo_ipa_name_cmp_lexicographic_witness:
  "osmo_ipa_name_cmp False
     (Some (fst (osmo_ipa_name_set_str ipa_name_empty (Some ''MSC''))))
     (Some (fst (osmo_ipa_name_set_str ipa_name_empty (Some ''MSC-2'')))) = -1"
  using osmo_ipa_name_cmp_lexicographic [OF ipa_set_str_wf [OF ipa_wf_empty] ipa_set_str_wf [OF ipa_wf_empty],
      of "Some ''MSC''" "Some ''MSC-2''"]
  by (simp add: ipa_set_str_bytes IPA_NAME_SIZE_def cstr_def octet_val_def)

end
