(* ===== verification/Gsup_Types.thy ===== *)
theory Gsup_Types
  imports Cni_Peer_Id
begin

text \<open>
  GSUP messages, requests and the state of the GSUP server, as the structures of
  \<open>gsup_req.h\<close>, \<open>gsup_server.h\<close> and \<open>gsup_router.h\<close> have them. The message structure itself
  belongs to libosmogsm; the record has the fields the code reads or writes. A pointer with a
  length (\<open>source_name\<close>, \<open>imei_enc\<close>, \<dots>) is an optional octet list. The functions of
  libosmogsm on messages are the parameters in \<open>gsup_lib\<close>.

  A connection is identified by \<open>conn_id\<close>, which stands for the pointer. The field
  \<open>trace\<close> of the server state is the log of what leaves the program: messages handed to a
  connection and requests that are deallocated.
\<close>

section \<open>Messages\<close>

datatype gsup_msgt =
    OSMO_GSUP_MSGT_UNSET
  | OSMO_GSUP_MSGT_UPDATE_LOCATION_REQUEST
  | OSMO_GSUP_MSGT_UPDATE_LOCATION_ERROR
  | OSMO_GSUP_MSGT_UPDATE_LOCATION_RESULT
  | OSMO_GSUP_MSGT_SEND_AUTH_INFO_REQUEST
  | OSMO_GSUP_MSGT_SEND_AUTH_INFO_RESULT
  | OSMO_GSUP_MSGT_PURGE_MS_REQUEST
  | OSMO_GSUP_MSGT_PURGE_MS_RESULT
  | OSMO_GSUP_MSGT_INSERT_DATA_REQUEST
  | OSMO_GSUP_MSGT_INSERT_DATA_ERROR
  | OSMO_GSUP_MSGT_INSERT_DATA_RESULT
  | OSMO_GSUP_MSGT_DELETE_DATA_REQUEST
  | OSMO_GSUP_MSGT_DELETE_DATA_ERROR
  | OSMO_GSUP_MSGT_DELETE_DATA_RESULT
  | OSMO_GSUP_MSGT_LOCATION_CANCEL_ERROR
  | OSMO_GSUP_MSGT_LOCATION_CANCEL_RESULT
  | OSMO_GSUP_MSGT_PROC_SS_REQUEST
  | OSMO_GSUP_MSGT_PROC_SS_ERROR
  | OSMO_GSUP_MSGT_PROC_SS_RESULT
  | OSMO_GSUP_MSGT_CHECK_IMEI_REQUEST
  | OSMO_GSUP_MSGT_CHECK_IMEI_RESULT
  | OSMO_GSUP_MSGT_ROUTING_ERROR
  | OSMO_GSUP_MSGT_OTHER nat

datatype gsup_cn_domain =
    OSMO_GSUP_CN_DOMAIN_UNSET
  | OSMO_GSUP_CN_DOMAIN_PS
  | OSMO_GSUP_CN_DOMAIN_CS
  | OSMO_GSUP_CN_DOMAIN_OTHER nat

datatype gsup_session_state =
    OSMO_GSUP_SESSION_STATE_NONE
  | OSMO_GSUP_SESSION_STATE_BEGIN
  | OSMO_GSUP_SESSION_STATE_CONTINUE
  | OSMO_GSUP_SESSION_STATE_END
  | OSMO_GSUP_SESSION_STATE_OTHER nat

datatype gmm_cause =
    CAUSE_UNSET
  | GMM_CAUSE_IMSI_UNKNOWN
  | GMM_CAUSE_PLMN_NOTALLOWED
  | GMM_CAUSE_GPRS_NOTALLOWED
  | GMM_CAUSE_MSC_TEMP_NOTREACH
  | GMM_CAUSE_NET_FAIL
  | GMM_CAUSE_INV_MAND_INFO
  | GMM_CAUSE_MSGT_INCOMP_P_STATE
  | GMM_CAUSE_PROTO_ERR_UNSPEC
  | GSM_CAUSE_NET_FAIL
  | CAUSE_OTHER nat

record osmo_auth_vector =
  av_rand :: octets
  av_autn :: octets
  av_ck :: octets
  av_ik :: octets
  av_res :: octets
  av_kc :: octets
  av_sres :: octets
  av_auth_types :: "32 word"

record osmo_gsup_pdp_info =
  pdp_apn_enc :: octets
  pdp_have_info :: bool
  pdp_context_id :: nat

record osmo_gsup_message =
  message_type :: gsup_msgt
  g_imsi :: string
  g_cause :: gmm_cause
  message_class :: nat
  g_source_name :: "octets option"
  g_destination_name :: "octets option"
  session_id :: "32 word"
  session_state :: gsup_session_state
  sm_rp_mr :: "octet option"
  g_cn_domain :: gsup_cn_domain
  msisdn_enc :: "octets option"
  pdp_infos :: "osmo_gsup_pdp_info list"
  num_auth_vectors :: nat
  auth_vectors :: "osmo_auth_vector list"
  g_rand :: "octets option"
  g_auts :: "octets option"
  current_rat_eutran_sgs :: bool
  imei_enc :: "octets option"
  imei_result_ack :: bool
  ss_info :: "octets option"

definition gsup_zero :: osmo_gsup_message where
  \<comment> \<open>the zero initialiser\<close>
  "gsup_zero = \<lparr>
     message_type = OSMO_GSUP_MSGT_UNSET, g_imsi = [], g_cause = CAUSE_UNSET, message_class = 0,
     g_source_name = None, g_destination_name = None, session_id = 0,
     session_state = OSMO_GSUP_SESSION_STATE_NONE, sm_rp_mr = None,
     g_cn_domain = OSMO_GSUP_CN_DOMAIN_UNSET, msisdn_enc = None, pdp_infos = [],
     num_auth_vectors = 0, auth_vectors = [], g_rand = None, g_auts = None,
     current_rat_eutran_sgs = False, imei_enc = None, imei_result_ack = False, ss_info = None\<rparr>"

definition name_len :: "octets option \<Rightarrow> nat" where
  \<comment> \<open>the length that goes with a name pointer\<close>
  "name_len n = (case n of None \<Rightarrow> 0 | Some v \<Rightarrow> length v)"

record gsup_lib =
  osmo_gsup_encode :: "osmo_gsup_message \<Rightarrow> octets option"
  osmo_gsup_decode :: "octets \<Rightarrow> osmo_gsup_message option"
  msgt_is_request :: "gsup_msgt \<Rightarrow> bool"
  msgt_is_error :: "gsup_msgt \<Rightarrow> bool"
  to_msgt_error :: "gsup_msgt \<Rightarrow> gsup_msgt"
  to_msgt_result :: "gsup_msgt \<Rightarrow> gsup_msgt"
  apn_maxlen :: nat
  osmo_apn_from_str :: "nat \<Rightarrow> string \<Rightarrow> octets option"
  gsm48_encode_bcd_number :: "nat \<Rightarrow> string \<Rightarrow> octets option"
  gsm48_decode_bcd_number2 :: "nat \<Rightarrow> octets \<Rightarrow> int \<times> string"

section \<open>Requests, connections and the server\<close>

record osmo_gsup_req =
  req_gsup :: osmo_gsup_message
  req_source_name :: osmo_cni_peer_id
  req_via_proxy :: osmo_cni_peer_id
  req_nr :: nat
  req_send_response_cb :: bool
  req_msg :: octets

record gsup_route =
  route_addr :: octets
  route_conn :: nat

type_synonym tlv_parsed = "nat \<Rightarrow> octets option"

record osmo_gsup_conn =
  conn_id :: nat
  conn_ccm :: tlv_parsed
  auc_3g_ind :: nat
  supports_cs :: bool
  supports_ps :: bool
  peer_name :: osmo_ipa_name

datatype event =
    EvTx nat octets
  | EvReqFree nat

record osmo_gsup_server =
  clients :: "osmo_gsup_conn list"
  routes :: "gsup_route list"
  next_req_nr :: nat
  trace :: "event list"

definition emit :: "event \<Rightarrow> osmo_gsup_server \<Rightarrow> osmo_gsup_server" where
  "emit e gs = gs\<lparr>trace := trace gs @ [e]\<rparr>"

named_theorems emit_simps \<open>the fields of a server state after an event\<close>

lemma emit_sel [simp, emit_simps]:
  "clients (emit e gs) = clients gs" "routes (emit e gs) = routes gs"
  "next_req_nr (emit e gs) = next_req_nr gs" "trace (emit e gs) = trace gs @ [e]"
  by (simp_all add: emit_def)

section \<open>An instance of the message functions\<close>

text \<open>A small codec that keeps the message type and the IMSI, for evaluating the model on
  concrete messages.\<close>

definition ref_types :: "gsup_msgt list" where
  "ref_types = [OSMO_GSUP_MSGT_UPDATE_LOCATION_REQUEST, OSMO_GSUP_MSGT_UPDATE_LOCATION_ERROR,
     OSMO_GSUP_MSGT_UPDATE_LOCATION_RESULT, OSMO_GSUP_MSGT_SEND_AUTH_INFO_REQUEST,
     OSMO_GSUP_MSGT_SEND_AUTH_INFO_RESULT, OSMO_GSUP_MSGT_PURGE_MS_REQUEST,
     OSMO_GSUP_MSGT_PURGE_MS_RESULT, OSMO_GSUP_MSGT_INSERT_DATA_REQUEST,
     OSMO_GSUP_MSGT_INSERT_DATA_RESULT, OSMO_GSUP_MSGT_ROUTING_ERROR]"

definition ref_requests :: "gsup_msgt list" where
  "ref_requests = [OSMO_GSUP_MSGT_UPDATE_LOCATION_REQUEST, OSMO_GSUP_MSGT_SEND_AUTH_INFO_REQUEST,
     OSMO_GSUP_MSGT_PURGE_MS_REQUEST, OSMO_GSUP_MSGT_INSERT_DATA_REQUEST,
     OSMO_GSUP_MSGT_DELETE_DATA_REQUEST, OSMO_GSUP_MSGT_PROC_SS_REQUEST,
     OSMO_GSUP_MSGT_CHECK_IMEI_REQUEST]"

fun ref_error :: "gsup_msgt \<Rightarrow> gsup_msgt" where
  "ref_error OSMO_GSUP_MSGT_UPDATE_LOCATION_REQUEST = OSMO_GSUP_MSGT_UPDATE_LOCATION_ERROR"
| "ref_error OSMO_GSUP_MSGT_INSERT_DATA_REQUEST = OSMO_GSUP_MSGT_INSERT_DATA_ERROR"
| "ref_error OSMO_GSUP_MSGT_PROC_SS_REQUEST = OSMO_GSUP_MSGT_PROC_SS_ERROR"
| "ref_error t = OSMO_GSUP_MSGT_ROUTING_ERROR"

fun ref_result :: "gsup_msgt \<Rightarrow> gsup_msgt" where
  "ref_result OSMO_GSUP_MSGT_UPDATE_LOCATION_REQUEST = OSMO_GSUP_MSGT_UPDATE_LOCATION_RESULT"
| "ref_result OSMO_GSUP_MSGT_SEND_AUTH_INFO_REQUEST = OSMO_GSUP_MSGT_SEND_AUTH_INFO_RESULT"
| "ref_result OSMO_GSUP_MSGT_PURGE_MS_REQUEST = OSMO_GSUP_MSGT_PURGE_MS_RESULT"
| "ref_result OSMO_GSUP_MSGT_INSERT_DATA_REQUEST = OSMO_GSUP_MSGT_INSERT_DATA_RESULT"
| "ref_result OSMO_GSUP_MSGT_CHECK_IMEI_REQUEST = OSMO_GSUP_MSGT_CHECK_IMEI_RESULT"
| "ref_result t = t"

definition ref_decode :: "octets \<Rightarrow> osmo_gsup_message option" where
  "ref_decode bs = (case bs of
     [] \<Rightarrow> None
   | t # imsi \<Rightarrow>
       if octet_val t < length ref_types
       then Some (gsup_zero\<lparr>message_type := ref_types ! octet_val t, g_imsi := imsi\<rparr>) else None)"

definition ref_encode :: "osmo_gsup_message \<Rightarrow> octets option" where
  "ref_encode m = Some (char_of (length (takeWhile (\<lambda>t. t \<noteq> message_type m) ref_types)) # g_imsi m)"

definition ref_gsup :: gsup_lib where
  "ref_gsup = \<lparr>osmo_gsup_encode = ref_encode, osmo_gsup_decode = ref_decode,
     msgt_is_request = (\<lambda>t. t \<in> set ref_requests), msgt_is_error = (\<lambda>t. t \<in> ref_error ` set ref_requests),
     to_msgt_error = ref_error, to_msgt_result = ref_result, apn_maxlen = 100,
     osmo_apn_from_str = (\<lambda>n s. if length s < n then Some (char_of (length s) # s) else None),
     gsm48_encode_bcd_number = (\<lambda>n s. if length s < n then Some (char_of (length s) # s) else None),
     gsm48_decode_bcd_number2 = (\<lambda>n bs. (0, take (n - 1) (tl bs)))\<rparr>"

end
