(* ===== verification/Gsup_Router.thy ===== *)
theory Gsup_Router
  imports Gsup_Types
begin

text \<open>
  The routing table of the GSUP server and sending by address: \<open>src/gsup_router.c\<close>,
  \<open>src/gsup_send.c\<close> and \<open>osmo_gsup_conn_send\<close> of \<open>src/gsup_server.c\<close>. The locale
  \<open>routing\<close> is the contract of a routing table; the table of the code is its
  interpretation \<open>rt\<close>.
\<close>

section \<open>The routing table\<close>

definition gsup_route_find :: "osmo_gsup_server \<Rightarrow> octets \<Rightarrow> nat option" where
  "gsup_route_find gs addr =
     map_option route_conn
       (List.find (\<lambda>gr. length (route_addr gr) = length addr \<and> memcmp (route_addr gr) addr = 0)
          (routes gs))"

definition gsup_route_find_by_ipa_name :: "osmo_gsup_server \<Rightarrow> osmo_ipa_name \<Rightarrow> nat option" where
  "gsup_route_find_by_ipa_name gs n = gsup_route_find gs (take (ipa_len n) (ipa_val n))"

definition gsup_route_find_by_conn :: "osmo_gsup_server \<Rightarrow> nat \<Rightarrow> gsup_route option" where
  "gsup_route_find_by_conn gs conn = List.find (\<lambda>gr. route_conn gr = conn) (routes gs)"

definition gsup_route_add :: "nat \<Rightarrow> octets \<Rightarrow> osmo_gsup_server \<Rightarrow> osmo_gsup_server \<times> int" where
  "gsup_route_add conn addr gs =
     (case gsup_route_find gs addr of
        Some exists_on_conn \<Rightarrow> if exists_on_conn \<noteq> conn then (gs, - EEXIST) else (gs, 0)
      | None \<Rightarrow>
          (gs\<lparr>routes := routes gs @ [\<lparr>route_addr = addr, route_conn = conn\<rparr>]\<rparr>, 0))"

definition gsup_route_add_ipa_name ::
  "nat \<Rightarrow> osmo_ipa_name \<Rightarrow> osmo_gsup_server \<Rightarrow> osmo_gsup_server \<times> int" where
  "gsup_route_add_ipa_name conn n gs = gsup_route_add conn (take (ipa_len n) (ipa_val n)) gs"

definition gsup_route_del_conn :: "nat \<Rightarrow> osmo_gsup_server \<Rightarrow> osmo_gsup_server \<times> nat" where
  "gsup_route_del_conn conn gs =
     (gs\<lparr>routes := filter (\<lambda>gr. route_conn gr \<noteq> conn) (routes gs)\<rparr>,
      length (filter (\<lambda>gr. route_conn gr = conn) (routes gs)))"

section \<open>Sending by address\<close>

definition osmo_gsup_conn_send ::
  "nat option \<Rightarrow> octets \<Rightarrow> osmo_gsup_server \<Rightarrow> osmo_gsup_server \<times> int" where
  "osmo_gsup_conn_send conn msg gs =
     (case conn of
        None \<Rightarrow> (gs, - ENOTCONN)
      | Some c \<Rightarrow> (emit (EvTx c msg) gs, 0))"

definition osmo_gsup_addr_send ::
  "octets \<Rightarrow> octets \<Rightarrow> osmo_gsup_server \<Rightarrow> osmo_gsup_server \<times> int" where
  "osmo_gsup_addr_send addr msg gs =
     (case gsup_route_find gs addr of
        None \<Rightarrow> (gs, - ENODEV)
      | Some conn \<Rightarrow> osmo_gsup_conn_send (Some conn) msg gs)"

definition osmo_gsup_send_to_ipa_name ::
  "osmo_ipa_name \<Rightarrow> octets \<Rightarrow> osmo_gsup_server \<Rightarrow> (osmo_gsup_server \<times> int) option" where
  \<comment> \<open>None: the octet in front of an empty name is read\<close>
  "osmo_gsup_send_to_ipa_name n msg gs =
     (if ipa_len n = 0 then None
      else if ipa_val n ! (ipa_len n - 1) \<noteq> NUL then
        (if ipa_len n \<ge> IPA_NAME_SIZE then Some (gs, - EINVAL)
         else
           let n2 = n\<lparr>ipa_val := (ipa_val n)[ipa_len n := NUL], ipa_len := ipa_len n + 1\<rparr>
           in Some (osmo_gsup_addr_send (take (ipa_len n2) (ipa_val n2)) msg gs))
      else Some (osmo_gsup_addr_send (take (ipa_len n) (ipa_val n)) msg gs))"

definition osmo_gsup_enc_send_to_ipa_name ::
  "gsup_lib \<Rightarrow> osmo_ipa_name \<Rightarrow> osmo_gsup_message \<Rightarrow> osmo_gsup_server
     \<Rightarrow> (osmo_gsup_server \<times> int) option" where
  "osmo_gsup_enc_send_to_ipa_name G n gsup gs =
     (case osmo_gsup_encode G gsup of
        None \<Rightarrow> Some (gs, - EINVAL)
      | Some msg \<Rightarrow> osmo_gsup_send_to_ipa_name n msg gs)"

section \<open>The contract of a routing table\<close>

locale routing =
  fixes find :: "'s \<Rightarrow> 'a \<Rightarrow> 'c option"
    and add :: "'c \<Rightarrow> 'a \<Rightarrow> 's \<Rightarrow> 's \<times> int"
    and del_conn :: "'c \<Rightarrow> 's \<Rightarrow> 's \<times> nat"
    and inv :: "'s \<Rightarrow> bool"
  assumes find_add:
      "find (fst (add c a s)) = (if find s a = None then (find s)(a \<mapsto> c) else find s)"
    and add_ok: "snd (add c a s) = 0 \<longleftrightarrow> find s a = None \<or> find s a = Some c"
    and find_del: "inv s \<Longrightarrow>
      find (fst (del_conn c s)) a = (if find s a = Some c then None else find s a)"
    and inv_add: "inv s \<Longrightarrow> inv (fst (add c a s))"
    and inv_del: "inv s \<Longrightarrow> inv (fst (del_conn c s))"
begin

lemma add_found: "snd (add c a s) = 0 \<Longrightarrow> find (fst (add c a s)) a = Some c"
  by (auto simp: add_ok find_add)

lemma add_keeps: "find s b = Some d \<Longrightarrow> find (fst (add c a s)) b = Some d"
  by (auto simp: find_add)

lemma add_rejected: "snd (add c a s) \<noteq> 0 \<Longrightarrow> \<exists>d. d \<noteq> c \<and> find s a = Some d"
  by (auto simp: add_ok)

lemma del_not_found: "inv s \<Longrightarrow> find (fst (del_conn c s)) a \<noteq> Some c"
  by (simp add: find_del)

end

lemma memcmp_key [simp]: "(length a = length b \<and> memcmp a b = 0) = (a = b)"
  by (metis memcmp_eq_0)

lemma gsup_route_find_key:
  "gsup_route_find gs addr =
     map_option route_conn (List.find (\<lambda>gr. route_addr gr = addr) (routes gs))"
  by (simp add: gsup_route_find_def)

definition routes_distinct :: "osmo_gsup_server \<Rightarrow> bool" where
  \<comment> \<open>at most one route per address\<close>
  "routes_distinct gs \<longleftrightarrow> distinct (map route_addr (routes gs))"

lemma gsup_route_find_None:
  "gsup_route_find gs a = None \<longleftrightarrow> a \<notin> route_addr ` set (routes gs)"
  by (auto simp: gsup_route_find_key find_None_iff)

lemma route_find_add:
  "gsup_route_find (fst (gsup_route_add c a gs)) =
     (if gsup_route_find gs a = None then (gsup_route_find gs)(a \<mapsto> c) else gsup_route_find gs)"
proof
  fix b
  show "gsup_route_find (fst (gsup_route_add c a gs)) b =
     (if gsup_route_find gs a = None then (gsup_route_find gs)(a \<mapsto> c) else gsup_route_find gs) b"
    by (auto simp: gsup_route_add_def gsup_route_find_key find_append split: option.splits)
qed

lemma find_filter_conn:
  "distinct (map route_addr rs) \<Longrightarrow>
     map_option route_conn (List.find (\<lambda>gr. route_addr gr = a)
       (filter (\<lambda>gr. route_conn gr \<noteq> c) rs)) =
     (let r = map_option route_conn (List.find (\<lambda>gr. route_addr gr = a) rs)
      in if r = Some c then None else r)"
proof (induction rs)
  case (Cons r rs)
  from Cons.prems have fresh: "route_addr r = a \<Longrightarrow>
      List.find (\<lambda>gr. route_addr gr = a) (filter (\<lambda>gr. route_conn gr \<noteq> c) rs) = None"
    by (auto simp: find_None_iff image_iff)
  from Cons fresh show ?case by (auto simp: Let_def)
qed simp

interpretation rt: routing gsup_route_find gsup_route_add gsup_route_del_conn routes_distinct
proof unfold_locales
  fix c a s
  show "gsup_route_find (fst (gsup_route_add c a s)) =
      (if gsup_route_find s a = None then (gsup_route_find s)(a \<mapsto> c) else gsup_route_find s)"
    by (rule route_find_add)
  show "snd (gsup_route_add c a s) = 0 \<longleftrightarrow>
      gsup_route_find s a = None \<or> gsup_route_find s a = Some c"
    by (auto simp: gsup_route_add_def split: option.splits)
  show "routes_distinct s \<Longrightarrow> gsup_route_find (fst (gsup_route_del_conn c s)) a =
      (if gsup_route_find s a = Some c then None else gsup_route_find s a)"
    using find_filter_conn [of "routes s" a c]
    unfolding gsup_route_del_conn_def gsup_route_find_key routes_distinct_def Let_def by simp
  show "routes_distinct s \<Longrightarrow> routes_distinct (fst (gsup_route_add c a s))"
    by (auto simp: gsup_route_add_def routes_distinct_def gsup_route_find_None
        split: option.splits)
  show "routes_distinct s \<Longrightarrow> routes_distinct (fst (gsup_route_del_conn c s))"
    by (auto simp: gsup_route_del_conn_def routes_distinct_def distinct_map_filter_sub)
qed

section \<open>Sending\<close>

lemma addr_send_cases:
  "osmo_gsup_addr_send addr msg gs =
     (case gsup_route_find gs addr of
        None \<Rightarrow> (gs, - ENODEV) | Some c \<Rightarrow> (emit (EvTx c msg) gs, 0))"
  by (simp add: osmo_gsup_addr_send_def osmo_gsup_conn_send_def split: option.splits)

lemma addr_send_sel [simp]:
  "routes (fst (osmo_gsup_addr_send a m gs)) = routes gs"
  "clients (fst (osmo_gsup_addr_send a m gs)) = clients gs"
  "next_req_nr (fst (osmo_gsup_addr_send a m gs)) = next_req_nr gs"
  by (simp_all add: addr_send_cases split: option.splits)

definition routable :: "octets \<Rightarrow> octets" where
  \<comment> \<open>the address a name is routed by: the name with exactly one nul added if it has none\<close>
  "routable bs = (if last bs = NUL then bs else bs @ [NUL])"

lemma ipa_last: "ipa_wf n \<Longrightarrow> ipa_len n \<noteq> 0 \<Longrightarrow> ipa_val n ! (ipa_len n - 1) = last (ipa_bytes n)"
proof -
  assume "ipa_wf n" "ipa_len n \<noteq> 0"
  then have "take (ipa_len n) (ipa_val n) \<noteq> []" "ipa_len n \<le> length (ipa_val n)"
    by (auto simp: ipa_wf_def IPA_NAME_SIZE_def)
  then show ?thesis by (simp add: ipa_bytes_def last_conv_nth min_def)
qed

lemma take_update_snoc: "k < length xs \<Longrightarrow> take (Suc k) (xs[k := x]) = take k xs @ [x]"
  by (simp add: take_Suc_conv_app_nth)

lemma send_to_ipa_name_routable:
  assumes "ipa_wf n" and "ipa_bytes n \<noteq> []" and "length (routable (ipa_bytes n)) \<le> IPA_NAME_SIZE"
  shows "osmo_gsup_send_to_ipa_name n msg gs =
    Some (osmo_gsup_addr_send (routable (ipa_bytes n)) msg gs)"
proof -
  have len: "ipa_len n \<noteq> 0" using assms by (simp add: ipa_len_empty_iff)
  have lb: "length (ipa_bytes n) = ipa_len n" using assms(1) by (rule length_ipa_bytes)
  show ?thesis
  proof (cases "last (ipa_bytes n) = NUL")
    case True
    then show ?thesis
      using len assms(1)
      by (simp add: osmo_gsup_send_to_ipa_name_def ipa_last [simplified] routable_def
          ipa_bytes_def [symmetric])
  next
    case False
    then have "ipa_len n < IPA_NAME_SIZE" using assms(3) lb by (simp add: routable_def)
    moreover have "length (ipa_val n) = IPA_NAME_SIZE" using assms(1) by (simp add: ipa_wf_def)
    ultimately show ?thesis
      using len False assms(1)
      by (simp add: osmo_gsup_send_to_ipa_name_def ipa_last [simplified] routable_def take_update_snoc)
        (simp add: ipa_bytes_def)
  qed
qed

section \<open>Properties\<close>

text \<open>
  C23. The routing table implements a partial map from addresses to connections: adding a
  route binds a new address and never redirects a bound one, an address bound to another
  connection is refused with EEXIST, and dropping a connection unbinds exactly its
  addresses. At most one route per address is kept throughout.
\<close>
theorem gsup_routes_refine_map:
  assumes "routes_distinct gs"
  shows "gsup_route_find (fst (gsup_route_add c a gs)) =
      (if gsup_route_find gs a = None then (gsup_route_find gs)(a \<mapsto> c) else gsup_route_find gs)
    \<and> snd (gsup_route_add c a gs) =
      (case gsup_route_find gs a of None \<Rightarrow> 0 | Some d \<Rightarrow> if d = c then 0 else - EEXIST)
    \<and> gsup_route_find (fst (gsup_route_del_conn c gs)) =
      (\<lambda>b. if gsup_route_find gs b = Some c then None else gsup_route_find gs b)
    \<and> routes_distinct (fst (gsup_route_add c a gs))
    \<and> routes_distinct (fst (gsup_route_del_conn c gs))"
  using assms rt.find_add rt.find_del rt.inv_add rt.inv_del
  by (auto simp: gsup_route_add_def fun_eq_iff split: option.splits)

definition gs_example :: osmo_gsup_server where
  "gs_example = \<lparr>clients = [], routes = [\<lparr>route_addr = ''MSC'' @ [NUL], route_conn = 1\<rparr>],
     next_req_nr = 1, trace = []\<rparr>"

theorem gsup_routes_refine_map_witness:
  "gsup_route_find (fst (gsup_route_add 2 (''HLR'' @ [NUL]) gs_example)) (''HLR'' @ [NUL]) = Some 2
   \<and> snd (gsup_route_add 2 (''MSC'' @ [NUL]) gs_example) = - EEXIST"
proof -
  have d: "routes_distinct gs_example" by (simp add: routes_distinct_def gs_example_def)
  show ?thesis
    using gsup_routes_refine_map [OF d, of 2 "''HLR'' @ [NUL]"]
      gsup_routes_refine_map [OF d, of 2 "''MSC'' @ [NUL]"]
    by (simp add: gsup_route_find_key gs_example_def)
qed

text \<open>
  A message sent to a non-empty IPA name that fits its buffer with a terminating nul goes
  out exactly on the connection routed for that name with its nul, whether or not the name
  was stored with one; nothing is sent and ENODEV is returned when there is no such route.
\<close>
theorem osmo_gsup_send_to_ipa_name_delivery:
  assumes "ipa_wf n" and "ipa_bytes n \<noteq> []" and "length (routable (ipa_bytes n)) \<le> IPA_NAME_SIZE"
  shows "osmo_gsup_send_to_ipa_name n msg gs =
    Some (case gsup_route_find gs (routable (ipa_bytes n)) of
            None \<Rightarrow> (gs, - ENODEV)
          | Some c \<Rightarrow> (gs\<lparr>trace := trace gs @ [EvTx c msg]\<rparr>, 0))"
  using send_to_ipa_name_routable [OF assms]
  by (simp add: addr_send_cases emit_def split: option.splits)

theorem osmo_gsup_send_to_ipa_name_delivery_witness:
  "\<exists>n. osmo_gsup_send_to_ipa_name n ''x'' gs_example =
     Some (gs_example\<lparr>trace := [EvTx 1 ''x'']\<rparr>, 0)"
proof -
  define n where "n = fst (osmo_ipa_name_set ipa_name_empty (Some ''MSC''))"
  have w: "ipa_wf n" unfolding n_def by (rule ipa_set_wf) simp
  have b: "ipa_bytes n = ''MSC''"
    unfolding n_def by (simp add: ipa_set_bytes [THEN conjunct2] IPA_NAME_SIZE_def)
  have r: "routable (ipa_bytes n) = ''MSC'' @ [NUL]" by (simp add: b routable_def)
  have "osmo_gsup_send_to_ipa_name n ''x'' gs_example =
      Some (gs_example\<lparr>trace := [EvTx 1 ''x'']\<rparr>, 0)"
    using osmo_gsup_send_to_ipa_name_delivery [OF w, of "''x''" gs_example, unfolded r]
    by (simp add: b IPA_NAME_SIZE_def gsup_route_find_key gs_example_def)
  then show ?thesis by blast
qed

end
