(* ===== verification/Gsup_Req.thy ===== *)
theory Gsup_Req
  imports Gsup_Router
begin

text \<open>
  GSUP requests: \<open>src/gsupclient/gsup_req.c\<close>. A request is created from a received
  message and lives until a final response (or \<open>osmo_gsup_req_free\<close>) deallocates it; the
  deallocation is the event \<open>EvReqFree\<close> with the number of the request. The number also
  stands for the identity of the request, so its wrap-around at \<open>2 ^ 32\<close> (it is used for
  logging only) is not modelled. The callback that transmits a response is the argument
  \<open>cb\<close>.
\<close>

section \<open>Operations\<close>

type_synonym send_cb =
  "osmo_gsup_req \<Rightarrow> osmo_gsup_message \<Rightarrow> osmo_gsup_server \<Rightarrow> osmo_gsup_server"

definition IMSI_BUF_SIZE :: nat where
  "IMSI_BUF_SIZE = 16"

definition osmo_gsup_req_free :: "osmo_gsup_req \<Rightarrow> osmo_gsup_server \<Rightarrow> osmo_gsup_server" where
  "osmo_gsup_req_free req gs = emit (EvReqFree (req_nr req)) gs"

definition osmo_gsup_make_response ::
  "gsup_lib \<Rightarrow> osmo_gsup_message \<Rightarrow> osmo_gsup_message \<Rightarrow> bool \<Rightarrow> bool
     \<Rightarrow> osmo_gsup_message \<times> int" where
  "osmo_gsup_make_response G reply rx error final_response =
     (let reply = (if message_type reply = OSMO_GSUP_MSGT_UNSET
                   then reply\<lparr>message_type := if error then to_msgt_error G (message_type rx)
                                              else to_msgt_result G (message_type rx)\<rparr>
                   else reply);
          reply = (if g_imsi reply = [] then reply\<lparr>g_imsi := strlcpy IMSI_BUF_SIZE (g_imsi rx)\<rparr>
                   else reply);
          reply = (if message_class reply = 0 then reply\<lparr>message_class := message_class rx\<rparr>
                   else reply);
          reply = (if name_len (g_destination_name reply) = 0
                   then reply\<lparr>g_destination_name := g_source_name rx\<rparr> else reply);
          reply = (if sm_rp_mr reply = None then reply\<lparr>sm_rp_mr := sm_rp_mr rx\<rparr> else reply);
          reply = (if session_id reply = 0 then reply\<lparr>session_id := session_id rx\<rparr> else reply);
          reply = (if session_state rx \<noteq> OSMO_GSUP_SESSION_STATE_NONE \<and>
                      session_state reply = OSMO_GSUP_SESSION_STATE_NONE
                   then reply\<lparr>session_state :=
                          if final_response \<or> session_state rx = OSMO_GSUP_SESSION_STATE_END
                          then OSMO_GSUP_SESSION_STATE_END
                          else OSMO_GSUP_SESSION_STATE_CONTINUE\<rparr>
                   else reply);
          rc = (if strcmp (g_imsi reply) (g_imsi rx) \<noteq> 0 then 1 else 0) +
               (if message_class reply \<noteq> message_class rx then 2 else 0) +
               (if sm_rp_mr rx \<noteq> None \<and> sm_rp_mr reply \<noteq> sm_rp_mr rx then 4 else 0) +
               (if session_id reply \<noteq> session_id rx then 8 else (0::int))
      in (reply, rc))"

definition osmo_gsup_req_respond ::
  "gsup_lib \<Rightarrow> send_cb \<Rightarrow> osmo_gsup_req \<Rightarrow> osmo_gsup_message \<Rightarrow> bool \<Rightarrow> bool
     \<Rightarrow> osmo_gsup_server \<Rightarrow> osmo_gsup_server \<times> int" where
  "osmo_gsup_req_respond G cb req response error final_response gs =
     (case osmo_gsup_make_response G response (req_gsup req) error final_response of
        (response, rc) \<Rightarrow>
          (case (if rc \<noteq> 0 then (gs, - EINVAL)
                 else if \<not> req_send_response_cb req then (gs, - EINVAL)
                 else (cb req response gs, rc)) of
             (gs, rc) \<Rightarrow> (if final_response then osmo_gsup_req_free req gs else gs, rc)))"

definition osmo_gsup_req_respond_msgt ::
  "gsup_lib \<Rightarrow> send_cb \<Rightarrow> osmo_gsup_req \<Rightarrow> gsup_msgt \<Rightarrow> bool
     \<Rightarrow> osmo_gsup_server \<Rightarrow> osmo_gsup_server \<times> int" where
  "osmo_gsup_req_respond_msgt G cb req ty final_response gs =
     osmo_gsup_req_respond G cb req (gsup_zero\<lparr>message_type := ty\<rparr>) (msgt_is_error G ty)
       final_response gs"

definition osmo_gsup_req_respond_err ::
  "gsup_lib \<Rightarrow> send_cb \<Rightarrow> osmo_gsup_req \<Rightarrow> gmm_cause \<Rightarrow> osmo_gsup_server \<Rightarrow> osmo_gsup_server" where
  "osmo_gsup_req_respond_err G cb req cause gs =
     (if \<not> msgt_is_request G (message_type (req_gsup req)) then osmo_gsup_req_free req gs
      else fst (osmo_gsup_req_respond G cb req (gsup_zero\<lparr>g_cause := cause\<rparr>) True True gs))"

definition osmo_gsup_req_new ::
  "osmo_core \<Rightarrow> gsup_lib \<Rightarrow> send_cb \<Rightarrow> osmo_cni_peer_id option \<Rightarrow> octets
     \<Rightarrow> osmo_gsup_server \<Rightarrow> osmo_gsup_server \<times> osmo_gsup_req option" where
  \<comment> \<open>\<open>msg\<close>: the L2 part of the message buffer, empty when it is missing; the code of this
    repository passes no list to add the request to\<close>
  "osmo_gsup_req_new L G cb from_peer msg gs =
     (case from_peer of
        None \<Rightarrow> (gs, None)
      | Some from_peer \<Rightarrow>
        if msg = [] then (gs, None)
        else
          let req = \<lparr>req_gsup = gsup_zero, req_source_name = from_peer,
                     req_via_proxy = cni_peer_id_zero, req_nr = next_req_nr gs,
                     req_send_response_cb = True, req_msg = msg\<rparr>;
              gs = gs\<lparr>next_req_nr := next_req_nr gs + 1\<rparr>
          in (case osmo_gsup_decode G msg of
                None \<Rightarrow> (osmo_gsup_req_free req gs, None)
              | Some gsup \<Rightarrow>
                  let req = req\<lparr>req_gsup := gsup\<rparr>;
                      (req, rc) =
                        (if name_len (g_source_name gsup) \<noteq> 0 then
                           (case osmo_cni_peer_id_set (req_source_name req)
                                   OSMO_CNI_PEER_ID_IPA_NAME (g_source_name gsup) of
                              (src, rc) \<Rightarrow>
                                let req = req\<lparr>req_source_name := src\<rparr>
                                in (if rc = 0 \<and> osmo_cni_peer_id_cmp L False (Some src) (Some from_peer) \<noteq> 0
                                    then req\<lparr>req_via_proxy := from_peer\<rparr> else req, rc))
                         else (req, 0))
                  in if rc \<noteq> 0 then
                       (fst (osmo_gsup_req_respond_msgt G cb req OSMO_GSUP_MSGT_ROUTING_ERROR True gs), None)
                     else if \<not> osmo_imsi_str_valid L (g_imsi gsup) then
                       (osmo_gsup_req_respond_err G cb req GMM_CAUSE_INV_MAND_INFO gs, None)
                     else (gs, Some req)))"

section \<open>The response to a request\<close>

definition gsup_wf :: "osmo_gsup_message \<Rightarrow> bool" where
  \<comment> \<open>the IMSI fits its buffer\<close>
  "gsup_wf m \<longleftrightarrow> length (g_imsi m) < IMSI_BUF_SIZE"

text \<open>A conditional update of one field is an update with a conditional value; with these
  equations the body of \<open>osmo_gsup_make_response\<close> is one record expression.\<close>

lemma cond_update:
  "(if b then m\<lparr>message_type := t\<rparr> else m) = m\<lparr>message_type := if b then t else message_type m\<rparr>"
  "(if b then m\<lparr>g_imsi := i\<rparr> else m) = m\<lparr>g_imsi := if b then i else g_imsi m\<rparr>"
  "(if b then m\<lparr>message_class := c\<rparr> else m) = m\<lparr>message_class := if b then c else message_class m\<rparr>"
  "(if b then m\<lparr>g_destination_name := d\<rparr> else m) =
     m\<lparr>g_destination_name := if b then d else g_destination_name m\<rparr>"
  "(if b then m\<lparr>sm_rp_mr := r\<rparr> else m) = m\<lparr>sm_rp_mr := if b then r else sm_rp_mr m\<rparr>"
  "(if b then m\<lparr>session_id := k\<rparr> else m) = m\<lparr>session_id := if b then k else session_id m\<rparr>"
  "(if b then m\<lparr>session_state := s\<rparr> else m) = m\<lparr>session_state := if b then s else session_state m\<rparr>"
  by simp_all

definition compatible :: "osmo_gsup_message \<Rightarrow> osmo_gsup_message \<Rightarrow> bool" where
  \<comment> \<open>what a partly filled reply may already contain\<close>
  "compatible reply rx \<longleftrightarrow>
     (g_imsi reply = [] \<or> g_imsi reply = g_imsi rx) \<and>
     (message_class reply = 0 \<or> message_class reply = message_class rx) \<and>
     (sm_rp_mr rx = None \<or> sm_rp_mr reply = None \<or> sm_rp_mr reply = sm_rp_mr rx) \<and>
     (session_id reply = 0 \<or> session_id reply = session_id rx)"

definition response_of ::
  "gsup_lib \<Rightarrow> osmo_gsup_message \<Rightarrow> osmo_gsup_message \<Rightarrow> bool \<Rightarrow> bool \<Rightarrow> osmo_gsup_message" where
  \<comment> \<open>the response to \<open>rx\<close>: what the reply leaves unset is taken from the request\<close>
  "response_of G reply rx error final = reply\<lparr>
     message_type := if message_type reply \<noteq> OSMO_GSUP_MSGT_UNSET then message_type reply
                     else if error then to_msgt_error G (message_type rx)
                     else to_msgt_result G (message_type rx),
     g_imsi := if g_imsi reply = [] then g_imsi rx else g_imsi reply,
     message_class := if message_class reply = 0 then message_class rx else message_class reply,
     g_destination_name := if name_len (g_destination_name reply) = 0 then g_source_name rx
                           else g_destination_name reply,
     sm_rp_mr := if sm_rp_mr reply = None then sm_rp_mr rx else sm_rp_mr reply,
     session_id := if session_id reply = 0 then session_id rx else session_id reply,
     session_state :=
       if session_state rx \<noteq> OSMO_GSUP_SESSION_STATE_NONE \<and>
          session_state reply = OSMO_GSUP_SESSION_STATE_NONE
       then if final \<or> session_state rx = OSMO_GSUP_SESSION_STATE_END
            then OSMO_GSUP_SESSION_STATE_END else OSMO_GSUP_SESSION_STATE_CONTINUE
       else session_state reply\<rparr>"

lemma make_response_msg:
  "gsup_wf rx \<Longrightarrow> fst (osmo_gsup_make_response G reply rx e f) = response_of G reply rx e f"
  by (simp only: osmo_gsup_make_response_def Let_def cond_update fst_conv)
    (simp add: response_of_def gsup_wf_def)

lemma flags_zero:
  "(if a then 1 else 0) + (if b then 2 else 0) + (if c then 4 else 0) + (if d then 8 else (0::int)) = 0
     \<longleftrightarrow> \<not> a \<and> \<not> b \<and> \<not> c \<and> \<not> d"
  by auto

lemma make_response_rc_fields:
  "snd (osmo_gsup_make_response G reply rx e f) = 0 \<longleftrightarrow>
     (let m = fst (osmo_gsup_make_response G reply rx e f)
      in g_imsi m = g_imsi rx \<and> message_class m = message_class rx \<and>
         (sm_rp_mr rx \<noteq> None \<longrightarrow> sm_rp_mr m = sm_rp_mr rx) \<and> session_id m = session_id rx)"
  unfolding osmo_gsup_make_response_def Let_def fst_conv snd_conv strcmp_eq_0 cond_update flags_zero
  by (simp only: not_not de_Morgan_conj imp_conv_disj)

lemma make_response_rc:
  "gsup_wf rx \<Longrightarrow> snd (osmo_gsup_make_response G reply rx e f) = 0 \<longleftrightarrow> compatible reply rx"
  unfolding make_response_rc_fields
  by (auto simp: Let_def make_response_msg response_of_def compatible_def)

lemma make_response_fresh:
  assumes "gsup_wf rx" and "g_imsi reply = []" and "message_class reply = 0"
    and "sm_rp_mr reply = None" and "session_id reply = 0"
  shows "snd (osmo_gsup_make_response G reply rx e f) = 0"
  using assms by (simp add: make_response_rc compatible_def)

section \<open>Deallocation\<close>

definition freed :: "nat \<Rightarrow> osmo_gsup_server \<Rightarrow> nat" where
  \<comment> \<open>how often the request has been deallocated\<close>
  "freed nr gs = count_list (trace gs) (EvReqFree nr)"

definition sent :: "osmo_gsup_server \<Rightarrow> (nat \<times> octets) list" where
  \<comment> \<open>what has been handed to the connections\<close>
  "sent gs = List.map_filter (\<lambda>e. case e of EvTx c m \<Rightarrow> Some (c, m) | _ \<Rightarrow> None) (trace gs)"

lemma freed_nr [simp]: "freed nr (gs\<lparr>next_req_nr := n\<rparr>) = freed nr gs"
  by (simp add: freed_def)

text \<open>What a transmitting callback must leave alone: it deallocates nothing.\<close>

locale response_sender =
  fixes cb :: send_cb
  assumes cb_freed: "freed nr (cb req m gs) = freed nr gs"
    and cb_routes: "routes (cb req m gs) = routes gs"
    and cb_clients: "clients (cb req m gs) = clients gs"
    and cb_nr: "next_req_nr (cb req m gs) = next_req_nr gs"
begin

lemma freed_free: "freed nr (osmo_gsup_req_free req gs) = freed nr gs + (if nr = req_nr req then 1 else 0)"
  by (simp add: freed_def osmo_gsup_req_free_def)

lemma respond_freed:
  "freed nr (fst (osmo_gsup_req_respond G cb req resp e final gs)) =
     freed nr gs + (if final \<and> nr = req_nr req then 1 else 0)"
  by (auto simp: osmo_gsup_req_respond_def freed_free cb_freed split: prod.splits)

lemma respond_msgt_freed:
  "freed nr (fst (osmo_gsup_req_respond_msgt G cb req ty final gs)) =
     freed nr gs + (if final \<and> nr = req_nr req then 1 else 0)"
  by (simp add: osmo_gsup_req_respond_msgt_def respond_freed)

lemma respond_err_freed:
  "freed nr (osmo_gsup_req_respond_err G cb req cause gs) =
     freed nr gs + (if nr = req_nr req then 1 else 0)"
  by (simp add: osmo_gsup_req_respond_err_def respond_freed freed_free)

lemma respond_fields:
  "routes (fst (osmo_gsup_req_respond G cb req resp e final gs)) = routes gs"
  "clients (fst (osmo_gsup_req_respond G cb req resp e final gs)) = clients gs"
  "next_req_nr (fst (osmo_gsup_req_respond G cb req resp e final gs)) = next_req_nr gs"
  by (simp_all add: osmo_gsup_req_respond_def osmo_gsup_req_free_def cb_routes cb_clients cb_nr
      split: prod.splits)

lemma respond_msgt_fields:
  "routes (fst (osmo_gsup_req_respond_msgt G cb req ty final gs)) = routes gs"
  "clients (fst (osmo_gsup_req_respond_msgt G cb req ty final gs)) = clients gs"
  "next_req_nr (fst (osmo_gsup_req_respond_msgt G cb req ty final gs)) = next_req_nr gs"
  by (simp_all add: osmo_gsup_req_respond_msgt_def respond_fields)

lemma respond_err_fields:
  "routes (osmo_gsup_req_respond_err G cb req cause gs) = routes gs"
  "clients (osmo_gsup_req_respond_err G cb req cause gs) = clients gs"
  "next_req_nr (osmo_gsup_req_respond_err G cb req cause gs) = next_req_nr gs"
  by (simp_all add: osmo_gsup_req_respond_err_def respond_fields osmo_gsup_req_free_def)

lemma req_new_freed:
  "osmo_gsup_req_new L G cb (Some p) msg gs = (gs', r) \<Longrightarrow> msg \<noteq> [] \<Longrightarrow>
     freed nr gs' = freed nr gs + (if r = None \<and> nr = next_req_nr gs then 1 else 0)"
  by (auto simp: osmo_gsup_req_new_def Let_def respond_msgt_freed respond_err_freed freed_free
      freed_nr
      split: option.splits prod.splits if_splits)

lemma req_new_fields:
  assumes "osmo_gsup_req_new L G cb p msg gs = (gs', r)"
  shows "routes gs' = routes gs" and "clients gs' = clients gs"
  using assms
  by (auto simp: osmo_gsup_req_new_def Let_def respond_msgt_fields respond_err_fields osmo_gsup_req_free_def
      split: option.splits prod.splits if_splits)

end

section \<open>Properties\<close>

text \<open>
  A response is completed exactly where the caller left fields unset, from the request it
  answers (\<open>response_of\<close>), and is accepted (return code 0) exactly when what the caller had
  preset is compatible with the request. An accepted response carries the IMSI, message
  class and session id of the request.
\<close>
theorem osmo_gsup_make_response_complete:
  assumes "gsup_wf rx"
  shows "fst (osmo_gsup_make_response G reply rx error final) = response_of G reply rx error final
    \<and> (snd (osmo_gsup_make_response G reply rx error final) = 0 \<longleftrightarrow> compatible reply rx)
    \<and> (compatible reply rx \<longrightarrow>
         g_imsi (fst (osmo_gsup_make_response G reply rx error final)) = g_imsi rx \<and>
         message_class (fst (osmo_gsup_make_response G reply rx error final)) = message_class rx \<and>
         session_id (fst (osmo_gsup_make_response G reply rx error final)) = session_id rx)"
  using assms make_response_rc_fields [of G reply rx error final]
  by (simp only: make_response_msg make_response_rc Let_def) blast

definition lu_example :: osmo_gsup_message where
  "lu_example = gsup_zero\<lparr>message_type := OSMO_GSUP_MSGT_UPDATE_LOCATION_REQUEST,
     g_imsi := ''262420000000001''\<rparr>"

theorem osmo_gsup_make_response_complete_witness:
  "fst (osmo_gsup_make_response ref_gsup gsup_zero lu_example False True) =
     lu_example\<lparr>message_type := OSMO_GSUP_MSGT_UPDATE_LOCATION_RESULT\<rparr> \<and>
   snd (osmo_gsup_make_response ref_gsup gsup_zero lu_example False True) = 0"
proof -
  have w: "gsup_wf lu_example" by (simp add: lu_example_def gsup_wf_def IMSI_BUF_SIZE_def)
  have c: "compatible gsup_zero lu_example" by (simp add: compatible_def gsup_zero_def)
  have r: "response_of ref_gsup gsup_zero lu_example False True =
      lu_example\<lparr>message_type := OSMO_GSUP_MSGT_UPDATE_LOCATION_RESULT\<rparr>"
    by (simp add: response_of_def lu_example_def gsup_zero_def ref_gsup_def name_len_def)
  show ?thesis
    using osmo_gsup_make_response_complete [OF w, of ref_gsup gsup_zero False True] c r by simp
qed

end
