(* ===== verification/Gsup_Server.thy ===== *)
theory Gsup_Server
  imports Gsup_Req "HOL-Library.Multiset"
begin

text \<open>
  The GSUP server: \<open>src/gsup_server.c\<close>. Connections are accepted, identify themselves in
  the IPA handshake (\<open>osmo_gsup_server_ccm_cb\<close>), send requests and are closed; each of
  these is an operation on the server state. \<open>server_step\<close> is the relation of all of them,
  with the invariant \<open>server_inv\<close>. The socket functions of libosmo-abis (creating and
  destroying a link, the CCM dialogue) are arguments or return codes of the operations.
  \<open>auc_3g_ind\<close> is a natural number: the list of clients is shorter than \<open>2 ^ 32\<close>.
\<close>

section \<open>Operations\<close>

definition gsup_server_send_req_response ::
  "gsup_lib \<Rightarrow> osmo_gsup_req \<Rightarrow> osmo_gsup_message \<Rightarrow> osmo_gsup_server \<Rightarrow> osmo_gsup_server" where
  "gsup_server_send_req_response G req response gs =
     (let routing = (if message_type response = OSMO_GSUP_MSGT_ROUTING_ERROR \<and>
                        \<not> osmo_cni_peer_id_is_empty (Some (req_via_proxy req))
                     then req_via_proxy req else req_source_name req);
          conn = (case peer_type routing of
                    OSMO_CNI_PEER_ID_IPA_NAME \<Rightarrow> gsup_route_find_by_ipa_name gs (peer_ipa_name routing)
                  | _ \<Rightarrow> None)
      in case conn of
           None \<Rightarrow> gs
         | Some c \<Rightarrow>
             (case osmo_gsup_encode G response of
                None \<Rightarrow> gs
              | Some msg \<Rightarrow> fst (osmo_gsup_conn_send (Some c) msg gs)))"

definition osmo_gsup_conn_rx ::
  "osmo_core \<Rightarrow> gsup_lib \<Rightarrow> osmo_gsup_conn \<Rightarrow> octets \<Rightarrow> osmo_gsup_server
     \<Rightarrow> osmo_gsup_server \<times> osmo_gsup_req option" where
  "osmo_gsup_conn_rx L G conn msg gs =
     (let cpi = \<lparr>peer_type = OSMO_CNI_PEER_ID_IPA_NAME, peer_ipa_name = peer_name conn\<rparr>;
          cb = gsup_server_send_req_response G
      in case osmo_gsup_req_new L G cb (Some cpi) msg gs of
           (gs, None) \<Rightarrow> (gs, None)
         | (gs, Some req) \<Rightarrow>
             if osmo_cni_peer_id_is_empty (Some (req_via_proxy req)) then (gs, Some req)
             else (case peer_type (req_via_proxy req) of
                     OSMO_CNI_PEER_ID_IPA_NAME \<Rightarrow>
                       (case gsup_route_add_ipa_name (conn_id conn)
                               (peer_ipa_name (req_source_name req)) gs of
                          (gs, rc) \<Rightarrow>
                            if rc \<noteq> 0 then
                              (fst (osmo_gsup_req_respond_msgt G cb req OSMO_GSUP_MSGT_ROUTING_ERROR
                                      True gs), None)
                            else (gs, Some req))
                   | _ \<Rightarrow> (fst (osmo_gsup_req_respond_msgt G cb req OSMO_GSUP_MSGT_ROUTING_ERROR
                                 True gs), None)))"

abbreviation (input) IPAC_PROTO_IPACCESS :: nat where "IPAC_PROTO_IPACCESS \<equiv> 0xfe"
abbreviation (input) IPAC_PROTO_OSMO :: nat where "IPAC_PROTO_OSMO \<equiv> 0xee"
abbreviation (input) IPAC_PROTO_EXT_GSUP :: nat where "IPAC_PROTO_EXT_GSUP \<equiv> 0x05"
abbreviation (input) IPAC_PROTO_EXT_OAP :: nat where "IPAC_PROTO_EXT_OAP \<equiv> 0x06"
abbreviation (input) IPAC_IDTAG_SERNR :: nat where "IPAC_IDTAG_SERNR \<equiv> 0"

definition osmo_gsup_server_read_cb ::
  "(octets \<Rightarrow> 's \<Rightarrow> 's \<times> int) \<Rightarrow> (octets \<Rightarrow> 's \<Rightarrow> 's) \<Rightarrow> nat \<Rightarrow> octets \<Rightarrow> 's \<Rightarrow> 's \<times> int" where
  \<comment> \<open>\<open>proto\<close>: the stream id of the IPA header; \<open>l2\<close>: the octets after the header;
    \<open>ipa_ccm\<close>: the IPA dialogue of libosmo-abis; \<open>read_cb\<close>: the callback of the server\<close>
  "osmo_gsup_server_read_cb ipa_ccm read_cb proto l2 s =
     (if proto = IPAC_PROTO_IPACCESS then
        (case ipa_ccm l2 s of (s, rc) \<Rightarrow> if rc < 0 then (s, -1) else (s, 0))
      else if proto \<noteq> IPAC_PROTO_OSMO then (s, -1)
      else (case l2 of
              [] \<Rightarrow> (s, -1)
            | he_proto # he_data \<Rightarrow>
                if octet_val he_proto = IPAC_PROTO_EXT_GSUP then (read_cb he_data s, 0)
                else if octet_val he_proto = IPAC_PROTO_EXT_OAP then (s, 0)
                else (s, -1)))"

definition tlvp_copy :: "tlv_parsed \<Rightarrow> tlv_parsed \<Rightarrow> tlv_parsed" where
  "tlvp_copy out inp = (\<lambda>i. case inp i of None \<Rightarrow> (case out i of None \<Rightarrow> out i | Some _ \<Rightarrow> None)
                                       | Some v \<Rightarrow> Some v)"

definition osmo_gsup_conn_ccm_get :: "osmo_gsup_conn \<Rightarrow> nat \<Rightarrow> octets option \<times> int" where
  "osmo_gsup_conn_ccm_get clnt tag = (case conn_ccm clnt tag of
     None \<Rightarrow> (None, - ENODEV) | Some v \<Rightarrow> (Some v, int (length v)))"

definition update_conn ::
  "nat \<Rightarrow> (osmo_gsup_conn \<Rightarrow> osmo_gsup_conn) \<Rightarrow> osmo_gsup_server \<Rightarrow> osmo_gsup_server" where
  \<comment> \<open>a write through the pointer to a connection\<close>
  "update_conn cid f gs = gs\<lparr>clients := map (\<lambda>c. if conn_id c = cid then f c else c) (clients gs)\<rparr>"

definition osmo_gsup_server_ccm_cb ::
  "osmo_gsup_conn \<Rightarrow> tlv_parsed \<Rightarrow> osmo_gsup_server \<Rightarrow> osmo_gsup_server \<times> int" where
  "osmo_gsup_server_ccm_cb clnt tlvp gs =
     (let clnt = clnt\<lparr>conn_ccm := tlvp_copy (conn_ccm clnt) tlvp\<rparr>
      in case osmo_gsup_conn_ccm_get clnt IPAC_IDTAG_SERNR of
           (addr, addr_len) \<Rightarrow>
             if addr_len \<le> 0 then (update_conn (conn_id clnt) (\<lambda>_. clnt) gs, - EINVAL)
             else
               let clnt = clnt\<lparr>peer_name := fst (osmo_ipa_name_set (peer_name clnt) addr)\<rparr>;
                   gs = update_conn (conn_id clnt) (\<lambda>_. clnt) gs
               in (fst (gsup_route_add_ipa_name (conn_id clnt) (peer_name clnt) gs), 0))"

definition osmo_gsup_conn_free :: "nat \<Rightarrow> osmo_gsup_server \<Rightarrow> osmo_gsup_server" where
  "osmo_gsup_conn_free cid gs =
     (let gs = fst (gsup_route_del_conn cid gs)
      in gs\<lparr>clients := filter (\<lambda>c. conn_id c \<noteq> cid) (clients gs)\<rparr>)"

definition osmo_gsup_server_closed_cb :: "nat \<Rightarrow> osmo_gsup_server \<Rightarrow> osmo_gsup_server \<times> int" where
  "osmo_gsup_server_closed_cb cid gs = (osmo_gsup_conn_free cid gs, 0)"

fun add_after :: "osmo_gsup_conn \<Rightarrow> osmo_gsup_conn list \<Rightarrow> osmo_gsup_conn \<Rightarrow> osmo_gsup_conn list" where
  \<comment> \<open>the loop that looks for a gap behind \<open>prev_conn\<close>\<close>
  "add_after prev [] conn = [conn\<lparr>auc_3g_ind := auc_3g_ind prev + 1\<rparr>]"
| "add_after prev (c # cs) conn =
     (if auc_3g_ind c > auc_3g_ind prev + 1
      then conn\<lparr>auc_3g_ind := auc_3g_ind prev + 1\<rparr> # c # cs
      else c # add_after c cs conn)"

definition osmo_gsup_server_add_conn ::
  "osmo_gsup_conn list \<Rightarrow> osmo_gsup_conn \<Rightarrow> osmo_gsup_conn list" where
  "osmo_gsup_server_add_conn cl conn = (case cl of
     [] \<Rightarrow> [conn\<lparr>auc_3g_ind := 0\<rparr>]
   | c # cs \<Rightarrow>
       if auc_3g_ind c > 0 then conn\<lparr>auc_3g_ind := 0\<rparr> # c # cs
       else c # add_after c cs conn)"

definition conn_zero :: "nat \<Rightarrow> osmo_gsup_conn" where
  \<comment> \<open>a zeroed allocation with a new identity\<close>
  "conn_zero cid = \<lparr>conn_id = cid, conn_ccm = (\<lambda>_. None), auc_3g_ind = 0, supports_cs = False,
     supports_ps = False, peer_name = ipa_name_empty\<rparr>"

definition osmo_gsup_server_accept_cb ::
  "(nat \<Rightarrow> osmo_gsup_server \<Rightarrow> osmo_gsup_server) \<Rightarrow> nat \<Rightarrow> int \<Rightarrow> osmo_gsup_server
     \<Rightarrow> osmo_gsup_server \<times> int" where
  \<comment> \<open>\<open>conn_destroy\<close>: \<open>ipa_server_conn_destroy\<close>; \<open>id_req_rc\<close>: the result of
    \<open>ipa_ccm_send_id_req\<close>\<close>
  "osmo_gsup_server_accept_cb conn_destroy cid id_req_rc gs =
     (let gs = gs\<lparr>clients := osmo_gsup_server_add_conn (clients gs) (conn_zero cid)\<rparr>
      in if id_req_rc < 0 then (conn_destroy cid gs, -1) else (gs, 0))"

definition osmo_gsup_server_create :: "bool \<Rightarrow> int \<Rightarrow> osmo_gsup_server option" where
  \<comment> \<open>\<open>link_ok\<close>, \<open>open_rc\<close>: the results of \<open>ipa_server_link_create\<close> and \<open>_open\<close>\<close>
  "osmo_gsup_server_create link_ok open_rc =
     (let gsups = \<lparr>clients = [], routes = [], next_req_nr = 1, trace = []\<rparr>
      in if \<not> link_ok then None else if open_rc < 0 then None else Some gsups)"

definition osmo_gsup_configure_wildcard_apn ::
  "gsup_lib \<Rightarrow> osmo_gsup_message \<Rightarrow> nat \<Rightarrow> osmo_gsup_message \<times> int" where
  "osmo_gsup_configure_wildcard_apn G gsup apn_buf_size =
     (case osmo_apn_from_str G apn_buf_size ''*'' of
        None \<Rightarrow> (gsup, - ENOMEM)
      | Some apn \<Rightarrow>
          (gsup\<lparr>pdp_infos := [\<lparr>pdp_apn_enc = apn, pdp_have_info = True, pdp_context_id = 1\<rparr>]\<rparr>, 0))"

abbreviation (input) OSMO_GSUP_MAX_CALLED_PARTY_BCD_LEN :: nat where
  "OSMO_GSUP_MAX_CALLED_PARTY_BCD_LEN \<equiv> 43"

definition osmo_gsup_create_insert_subscriber_data_msg ::
  "gsup_lib \<Rightarrow> string \<Rightarrow> string \<Rightarrow> nat \<Rightarrow> nat \<Rightarrow> gsup_cn_domain \<Rightarrow> (osmo_gsup_message \<times> int) option" where
  \<comment> \<open>None: the assertion on the size of the APN buffer fails\<close>
  "osmo_gsup_create_insert_subscriber_data_msg G imsi msisdn msisdn_enc_size apn_buf_size cn_domain =
     (let gsup = gsup_zero\<lparr>message_type := OSMO_GSUP_MSGT_INSERT_DATA_REQUEST,
                           g_imsi := strlcpy IMSI_BUF_SIZE imsi\<rparr>
      in if msisdn_enc_size < OSMO_GSUP_MAX_CALLED_PARTY_BCD_LEN then Some (gsup, - ENOSPC)
         else case gsm48_encode_bcd_number G msisdn_enc_size msisdn of
                None \<Rightarrow> Some (gsup, - ENOSPC)
              | Some enc \<Rightarrow>
                  let gsup = gsup\<lparr>msisdn_enc := Some enc, g_cn_domain := cn_domain\<rparr>
                  in if cn_domain = OSMO_GSUP_CN_DOMAIN_PS then
                       (if apn_buf_size < apn_maxlen G then None
                        else Some (fst (osmo_gsup_configure_wildcard_apn G gsup apn_buf_size), 0))
                     else Some (gsup, 0))"

definition osmo_gsup_forward_to_local_peer ::
  "gsup_lib \<Rightarrow> osmo_cni_peer_id \<Rightarrow> osmo_gsup_req \<Rightarrow> osmo_gsup_message option \<Rightarrow> osmo_gsup_server
     \<Rightarrow> (osmo_gsup_server \<times> int) option" where
  \<comment> \<open>None: an empty IPA name is read in front of its buffer\<close>
  "osmo_gsup_forward_to_local_peer G to_peer req modified_gsup gs =
     (let forward = (case modified_gsup of None \<Rightarrow> req_gsup req | Some m \<Rightarrow> m);
          cb = gsup_server_send_req_response G;
          routing_error = (\<lambda>rc gs. Some (fst (osmo_gsup_req_respond_msgt G cb req
                                    OSMO_GSUP_MSGT_ROUTING_ERROR True gs), rc))
      in if peer_type (req_source_name req) \<noteq> OSMO_CNI_PEER_ID_IPA_NAME then
           routing_error (- ENOTSUP) (osmo_gsup_req_respond_err G cb req GMM_CAUSE_NET_FAIL gs)
         else
           let src = peer_ipa_name (req_source_name req);
               forward = forward\<lparr>g_source_name := Some (take (ipa_len src) (ipa_val src))\<rparr>
           in if peer_type to_peer \<noteq> OSMO_CNI_PEER_ID_IPA_NAME then
                routing_error (- ENOTSUP) (osmo_gsup_req_respond_err G cb req GMM_CAUSE_NET_FAIL gs)
              else (case osmo_gsup_enc_send_to_ipa_name G (peer_ipa_name to_peer) forward gs of
                      None \<Rightarrow> None
                    | Some (gs, rc) \<Rightarrow>
                        if rc \<noteq> 0 then routing_error rc gs
                        else Some (osmo_gsup_req_free req gs, 0)))"

section \<open>Responding\<close>

lemma freed_emit_tx [simp]: "freed nr (emit (EvTx c m) gs) = freed nr gs"
  by (simp add: freed_def)

interpretation gsup_cb: response_sender "gsup_server_send_req_response G" for G
  by unfold_locales
    (auto simp: gsup_server_send_req_response_def Let_def osmo_gsup_conn_send_def
      split: option.splits osmo_cni_peer_id_type.splits)

lemma route_add_freed [simp]: "freed nr (fst (gsup_route_add_ipa_name c n gs)) = freed nr gs"
  by (simp add: gsup_route_add_ipa_name_def gsup_route_add_def freed_def split: option.splits)

lemma peer_id_set_ipa:
  "osmo_cni_peer_id_set p OSMO_CNI_PEER_ID_IPA_NAME v =
     (\<lparr>peer_type = OSMO_CNI_PEER_ID_IPA_NAME, peer_ipa_name = fst (osmo_ipa_name_set (peer_ipa_name p) v)\<rparr>,
      snd (osmo_ipa_name_set (peer_ipa_name p) v))"
  by (cases p) (simp add: osmo_cni_peer_id_set_def Let_def split: prod.splits)

definition ipa_peer :: "osmo_ipa_name \<Rightarrow> osmo_cni_peer_id" where
  "ipa_peer n = \<lparr>peer_type = OSMO_CNI_PEER_ID_IPA_NAME, peer_ipa_name = n\<rparr>"

lemma ipa_peer_sel [simp]:
  "peer_type (ipa_peer n) = OSMO_CNI_PEER_ID_IPA_NAME" "peer_ipa_name (ipa_peer n) = n"
  by (simp_all add: ipa_peer_def)

lemma ipa_peer_cmp: "osmo_cni_peer_id_cmp L False (Some (ipa_peer a)) (Some (ipa_peer b)) = ipa_cmp a b"
  by (simp add: osmo_cni_peer_id_cmp_def)

lemma ipa_peer_empty: "osmo_cni_peer_id_is_empty (Some (ipa_peer n)) = osmo_ipa_name_is_empty (Some n)"
  by (simp add: osmo_cni_peer_id_is_empty_def)

lemma peer_zero_empty: "osmo_cni_peer_id_is_empty (Some cni_peer_id_zero)"
  by (simp add: osmo_cni_peer_id_is_empty_def cni_peer_id_zero_def)

lemma req_new_SomeD:
  assumes "osmo_gsup_req_new L G cb (Some (ipa_peer from)) msg gs = (gs', Some req)"
  shows "gs' = gs\<lparr>next_req_nr := next_req_nr gs + 1\<rparr>" and "req_nr req = next_req_nr gs"
    and "req_msg req = msg" and "osmo_gsup_decode G msg = Some (req_gsup req)"
    and "osmo_imsi_str_valid L (g_imsi (req_gsup req))" and "req_send_response_cb req"
    and "name_len (g_source_name (req_gsup req)) = 0 \<and> req_source_name req = ipa_peer from \<and>
           req_via_proxy req = cni_peer_id_zero \<or>
         (let src = osmo_ipa_name_set from (g_source_name (req_gsup req))
          in name_len (g_source_name (req_gsup req)) \<noteq> 0 \<and> snd src = 0 \<and>
             req_source_name req = ipa_peer (fst src) \<and>
             req_via_proxy req = (if ipa_cmp (fst src) from = 0 then cni_peer_id_zero else ipa_peer from))"
  using assms
  by (auto simp: osmo_gsup_req_new_def Let_def peer_id_set_ipa ipa_peer_def [symmetric] ipa_peer_cmp
      split: if_splits option.splits)

lemma conn_rx_cases:
  "osmo_gsup_conn_rx L G conn msg gs =
     (case osmo_gsup_req_new L G (gsup_server_send_req_response G) (Some (ipa_peer (peer_name conn))) msg gs of
        (gs, None) \<Rightarrow> (gs, None)
      | (gs, Some req) \<Rightarrow>
          if osmo_cni_peer_id_is_empty (Some (req_via_proxy req)) then (gs, Some req)
          else (case gsup_route_add_ipa_name (conn_id conn) (peer_ipa_name (req_source_name req)) gs of
                  (gs, rc) \<Rightarrow>
                    if rc \<noteq> 0 then
                      (fst (osmo_gsup_req_respond_msgt G (gsup_server_send_req_response G) req
                              OSMO_GSUP_MSGT_ROUTING_ERROR True gs), None)
                    else (gs, Some req)))"
  unfolding osmo_gsup_conn_rx_def Let_def ipa_peer_def [symmetric]
  by (auto split: prod.splits option.splits osmo_cni_peer_id_type.splits
      dest!: req_new_SomeD(7) simp: Let_def cni_peer_id_zero_def osmo_cni_peer_id_is_empty_def
      split: if_splits)

lemma conn_rx_freed:
  assumes "osmo_gsup_conn_rx L G conn msg gs = (gs', r)" and "msg \<noteq> []"
  shows "freed nr gs' = freed nr gs + (if r = None \<and> nr = next_req_nr gs then 1 else 0)"
proof (cases "osmo_gsup_req_new L G (gsup_server_send_req_response G) (Some (ipa_peer (peer_name conn))) msg gs")
  case (Pair g1 r1)
  note f = gsup_cb.req_new_freed [OF Pair assms(2), of nr]
  show ?thesis
  proof (cases r1)
    case None
    with assms(1) f Pair show ?thesis by (simp add: conn_rx_cases)
  next
    case (Some req)
    note n = req_new_SomeD(2) [OF Pair [unfolded Some]]
    from assms(1) Pair Some n f show ?thesis
      by (auto simp: conn_rx_cases gsup_cb.respond_msgt_freed prod.case_eq_if split: if_splits)
  qed
qed

lemma conn_rx_SomeD:
  assumes "osmo_gsup_conn_rx L G conn msg gs = (gs', Some req)"
  shows "osmo_gsup_req_new L G (gsup_server_send_req_response G) (Some (ipa_peer (peer_name conn))) msg gs =
           (gs\<lparr>next_req_nr := next_req_nr gs + 1\<rparr>, Some req)"
    and "if osmo_cni_peer_id_is_empty (Some (req_via_proxy req))
         then gs' = gs\<lparr>next_req_nr := next_req_nr gs + 1\<rparr>
         else gsup_route_add_ipa_name (conn_id conn) (peer_ipa_name (req_source_name req))
                (gs\<lparr>next_req_nr := next_req_nr gs + 1\<rparr>) = (gs', 0)"
  using assms
  by (auto simp: conn_rx_cases split: if_splits prod.splits option.splits dest: req_new_SomeD(1))

lemma route_find_nr [simp]: "gsup_route_find (gs\<lparr>next_req_nr := n\<rparr>) = gsup_route_find gs"
  by (simp add: fun_eq_iff gsup_route_find_key)

lemma send_response_ipa:
  "gsup_server_send_req_response G req m gs =
     (let to = (if message_type m = OSMO_GSUP_MSGT_ROUTING_ERROR \<and>
                   \<not> osmo_cni_peer_id_is_empty (Some (req_via_proxy req))
                then req_via_proxy req else req_source_name req)
      in case (if peer_type to = OSMO_CNI_PEER_ID_IPA_NAME
               then gsup_route_find gs (ipa_bytes (peer_ipa_name to)) else None,
               osmo_gsup_encode G m) of
           (Some c, Some bs) \<Rightarrow> emit (EvTx c bs) gs
         | _ \<Rightarrow> gs)"
  by (auto simp: gsup_server_send_req_response_def Let_def osmo_gsup_conn_send_def
      gsup_route_find_by_ipa_name_def ipa_bytes_def
      split: option.splits osmo_cni_peer_id_type.splits)

lemma conn_rx_routes_back:
  assumes wf: "ipa_wf (peer_name conn)"
    and named: "ipa_bytes (peer_name conn) \<noteq> []"
    and peer: "gsup_route_find gs (ipa_bytes (peer_name conn)) = Some (conn_id conn)"
    and rx: "osmo_gsup_conn_rx L G conn msg gs = (gs', Some req)"
  shows "peer_type (req_source_name req) = OSMO_CNI_PEER_ID_IPA_NAME \<and>
     gsup_route_find gs' (ipa_bytes (peer_ipa_name (req_source_name req))) = Some (conn_id conn) \<and>
     (\<not> osmo_cni_peer_id_is_empty (Some (req_via_proxy req)) \<longrightarrow>
        req_via_proxy req = ipa_peer (peer_name conn) \<and>
        gsup_route_find gs' (ipa_bytes (peer_name conn)) = Some (conn_id conn))"
proof -
  let ?src = "osmo_ipa_name_set (peer_name conn) (g_source_name (req_gsup req))"
  note new = conn_rx_SomeD(1) [OF rx]
  note route = conn_rx_SomeD(2) [OF rx]
  from req_new_SomeD(7) [OF new] consider
    (direct) "req_source_name req = ipa_peer (peer_name conn)" "req_via_proxy req = cni_peer_id_zero"
    | (same) "req_source_name req = ipa_peer (fst ?src)" "ipa_cmp (fst ?src) (peer_name conn) = 0"
        "req_via_proxy req = cni_peer_id_zero"
    | (proxied) "req_source_name req = ipa_peer (fst ?src)" "req_via_proxy req = ipa_peer (peer_name conn)"
    by (auto simp: Let_def split: if_splits)
  then show ?thesis
  proof cases
    case direct
    then show ?thesis using route peer by (simp add: peer_zero_empty)
  next
    case same
    then have "ipa_bytes (fst ?src) = ipa_bytes (peer_name conn)"
      using ipa.cmp_zero [OF ipa_set_wf [OF wf] wf] by blast
    then show ?thesis using same route peer by (simp add: peer_zero_empty)
  next
    case proxied
    have "\<not> osmo_cni_peer_id_is_empty (Some (req_via_proxy req))"
      using proxied wf named by (simp add: ipa_peer_empty)
    then have added: "gsup_route_add (conn_id conn) (ipa_bytes (fst ?src))
          (gs\<lparr>next_req_nr := next_req_nr gs + 1\<rparr>) = (gs', 0)"
        using route proxied by (simp add: gsup_route_add_ipa_name_def ipa_bytes_def)
      have "gsup_route_find gs' (ipa_bytes (fst ?src)) = Some (conn_id conn)"
        using rt.add_found [of "conn_id conn" "ipa_bytes (fst ?src)"] added by (metis fst_conv snd_conv)
      moreover have "gsup_route_find gs' (ipa_bytes (peer_name conn)) = Some (conn_id conn)"
        using rt.add_keeps [of "gs\<lparr>next_req_nr := next_req_nr gs + 1\<rparr>"] peer added
        by (metis fst_conv route_find_nr)
      ultimately show ?thesis using proxied by simp
  qed
qed

lemma imsi_valid_wf: "lib_strings_ok L \<Longrightarrow> osmo_imsi_str_valid L (g_imsi m) \<Longrightarrow> gsup_wf m"
  by (auto simp: lib_strings_ok_def gsup_wf_def IMSI_BUF_SIZE_def)

lemma respond_cases:
  "gsup_wf (req_gsup req) \<Longrightarrow> compatible resp (req_gsup req) \<Longrightarrow> req_send_response_cb req \<Longrightarrow>
     osmo_gsup_req_respond G cb req resp e final gs =
       (let gs = cb req (response_of G resp (req_gsup req) e final) gs
        in (if final then osmo_gsup_req_free req gs else gs, 0))"
  using make_response_msg [of "req_gsup req" G resp e final] make_response_rc [of "req_gsup req" G resp e final]
  by (cases final) (simp_all add: osmo_gsup_req_respond_def Let_def prod.case_eq_if)

section \<open>The list of connections\<close>

abbreviation inds :: "osmo_gsup_conn list \<Rightarrow> nat list" where
  "inds cl \<equiv> map auc_3g_ind cl"

lemma sorted_consec:
  "sorted_wrt (<) (p # xs) \<Longrightarrow> x \<in> set xs \<Longrightarrow> p + 1 \<le> (x::nat)"
  by auto

definition insert_ind :: "nat list \<Rightarrow> nat \<Rightarrow> nat list \<Rightarrow> bool" where
  \<comment> \<open>\<open>js\<close> is \<open>is\<close> with the index \<open>k\<close> added, and stays sorted\<close>
  "insert_ind is k js \<longleftrightarrow> sorted_wrt (<) js \<and> set js = insert k (set is) \<and> k \<notin> set is"

lemma add_after_spec:
  assumes "sorted_wrt (<) (inds (p # cs))"
  shows "\<exists>k. insert_ind (inds (p # cs)) k (inds (p # add_after p cs conn)) \<and>
     (\<forall>i. auc_3g_ind p \<le> i \<and> i < k \<longrightarrow> i \<in> set (inds (p # cs))) \<and>
     mset (p # add_after p cs conn) = mset (conn\<lparr>auc_3g_ind := k\<rparr> # p # cs)"
  using assms
proof (induction p cs conn rule: add_after.induct)
  case (1 prev conn)
  show ?case
    by (rule exI [of _ "auc_3g_ind prev + 1"]) (auto simp: insert_ind_def)
next
  case (2 prev c cs conn)
  show ?case
  proof (cases "auc_3g_ind c > auc_3g_ind prev + 1")
    case True
    with "2.prems" show ?thesis
      by (intro exI [of _ "auc_3g_ind prev + 1"]) (auto simp: insert_ind_def)
  next
    case False
    with "2.prems" have c: "auc_3g_ind c = auc_3g_ind prev + 1" by auto
    from "2.IH" [OF False] "2.prems" obtain k where
      k: "insert_ind (inds (c # cs)) k (inds (c # add_after c cs conn))"
         "\<forall>i. auc_3g_ind c \<le> i \<and> i < k \<longrightarrow> i \<in> set (inds (c # cs))"
         "mset (c # add_after c cs conn) = mset (conn\<lparr>auc_3g_ind := k\<rparr> # c # cs)" by auto
    have "auc_3g_ind c < k" using k(1) by (auto simp: insert_ind_def)
    moreover have "\<forall>i. auc_3g_ind prev \<le> i \<and> i < k \<longrightarrow> i \<in> set (inds (prev # c # cs))"
      using k(2) c by (metis Suc_eq_plus1 Suc_leI le_neq_implies_less list.set_intros list.simps(9))
    ultimately show ?thesis using False c k(1,3) "2.prems"
      by (intro exI [of _ k]) (auto simp: insert_ind_def)
  qed
qed

lemma add_conn_spec:
  assumes "sorted_wrt (<) (inds cl)"
  shows "\<exists>k. insert_ind (inds cl) k (inds (osmo_gsup_server_add_conn cl conn)) \<and>
     (\<forall>i<k. i \<in> set (inds cl)) \<and>
     mset (osmo_gsup_server_add_conn cl conn) = mset (conn\<lparr>auc_3g_ind := k\<rparr> # cl)"
proof (cases cl)
  case Nil
  then show ?thesis by (auto simp: osmo_gsup_server_add_conn_def insert_ind_def)
next
  case (Cons c cs)
  show ?thesis
  proof (cases "auc_3g_ind c > 0")
    case True
    with Cons assms show ?thesis
      by (intro exI [of _ 0]) (auto simp: osmo_gsup_server_add_conn_def insert_ind_def)
  next
    case False
    with Cons assms add_after_spec [of c cs conn] show ?thesis
      by (auto simp: osmo_gsup_server_add_conn_def)
  qed
qed

section \<open>The server as a state machine\<close>

definition server_inv :: "osmo_gsup_server \<Rightarrow> bool" where
  "server_inv gs \<longleftrightarrow>
     routes_distinct gs \<and>
     sorted_wrt (<) (inds (clients gs)) \<and>
     distinct (map conn_id (clients gs)) \<and>
     list_all (\<lambda>c. ipa_wf (peer_name c)) (clients gs) \<and>
     route_conn ` set (routes gs) \<subseteq> conn_id ` set (clients gs)"

inductive server_step ::
  "osmo_core \<Rightarrow> gsup_lib \<Rightarrow> osmo_gsup_server \<Rightarrow> osmo_gsup_server \<Rightarrow> bool" for L G where
  step_accept: "cid \<notin> conn_id ` set (clients gs) \<Longrightarrow>
     server_step L G gs (fst (osmo_gsup_server_accept_cb osmo_gsup_conn_free cid rc gs))"
| step_ccm: "c \<in> set (clients gs) \<Longrightarrow>
     server_step L G gs (fst (osmo_gsup_server_ccm_cb c tlvp gs))"
| step_rx: "c \<in> set (clients gs) \<Longrightarrow>
     server_step L G gs (fst (osmo_gsup_conn_rx L G c msg gs))"
| step_respond:
    "server_step L G gs
       (fst (osmo_gsup_req_respond G (gsup_server_send_req_response G) req resp e final gs))"
| step_closed: "c \<in> set (clients gs) \<Longrightarrow>
     server_step L G gs (fst (osmo_gsup_server_closed_cb (conn_id c) gs))"

lemma server_inv_cong:
  "routes gs' = routes gs \<Longrightarrow> clients gs' = clients gs \<Longrightarrow> server_inv gs' = server_inv gs"
  by (simp add: server_inv_def routes_distinct_def)

lemma inv_route_add:
  assumes "server_inv gs" and "cid \<in> conn_id ` set (clients gs)"
  shows "server_inv (fst (gsup_route_add cid a gs))"
  using assms rt.inv_add [of gs cid a]
  by (auto simp: server_inv_def gsup_route_add_def split: option.splits)

lemma map_update_conn_id:
  "conn_id c = cid \<Longrightarrow> map conn_id (map (\<lambda>x. if conn_id x = cid then c else x) xs) = map conn_id xs"
  by (induction xs) auto

lemma map_update_conn_ind:
  "distinct (map conn_id xs) \<Longrightarrow> c \<in> set xs \<Longrightarrow> auc_3g_ind c' = auc_3g_ind c \<Longrightarrow>
     inds (map (\<lambda>x. if conn_id x = conn_id c then c' else x) xs) = inds xs"
  by (auto simp: distinct_map dest: inj_onD)

lemma update_conn_sel:
  "clients (update_conn cid f gs) = map (\<lambda>c. if conn_id c = cid then f c else c) (clients gs)"
  "routes (update_conn cid f gs) = routes gs"
  by (simp_all add: update_conn_def)

lemma inv_update_conn:
  assumes "server_inv gs" and "c \<in> set (clients gs)" and "conn_id c' = conn_id c"
    and "auc_3g_ind c' = auc_3g_ind c" and "ipa_wf (peer_name c')"
  shows "server_inv (update_conn (conn_id c) (\<lambda>_. c') gs)"
proof -
  let ?cl = "map (\<lambda>x. if conn_id x = conn_id c then c' else x) (clients gs)"
  have ids: "map conn_id ?cl = map conn_id (clients gs)"
    by (rule map_update_conn_id) (rule assms(3))
  have "conn_id ` set ?cl = conn_id ` set (clients gs)"
    using arg_cong [OF ids, of set] by (simp only: list.set_map)
  moreover have "inds ?cl = inds (clients gs)"
    using assms by (intro map_update_conn_ind) (simp_all add: server_inv_def)
  moreover have "list_all (\<lambda>c. ipa_wf (peer_name c)) ?cl"
    using assms by (auto simp: server_inv_def list_all_iff)
  ultimately show ?thesis
    using assms(1) ids by (simp only: server_inv_def update_conn_sel routes_distinct_def)
qed

lemma update_conn_ids:
  "conn_id c' = cid \<Longrightarrow> conn_id ` set (clients (update_conn cid (\<lambda>_. c') gs)) = conn_id ` set (clients gs)"
  using arg_cong [OF map_update_conn_id [of c' cid "clients gs"], of set]
  by (simp only: list.set_map update_conn_sel)

lemma inv_ccm:
  assumes "server_inv gs" and "c \<in> set (clients gs)"
  shows "server_inv (fst (osmo_gsup_server_ccm_cb c tlvp gs))"
proof -
  define c1 where "c1 = c\<lparr>conn_ccm := tlvp_copy (conn_ccm c) tlvp\<rparr>"
  define c2 where "c2 = c1\<lparr>peer_name := fst (osmo_ipa_name_set (peer_name c1)
      (fst (osmo_gsup_conn_ccm_get c1 IPAC_IDTAG_SERNR)))\<rparr>"
  have wf: "ipa_wf (peer_name c1)" using assms by (auto simp: server_inv_def list_all_iff c1_def)
  have "server_inv (update_conn (conn_id c) (\<lambda>_. c1) gs)"
    using assms wf by (intro inv_update_conn) (simp_all add: c1_def)
  moreover have "server_inv (update_conn (conn_id c) (\<lambda>_. c2) gs)"
    using assms wf by (intro inv_update_conn) (simp_all add: c1_def c2_def ipa_set_wf)
  then have "server_inv (fst (gsup_route_add (conn_id c) a (update_conn (conn_id c) (\<lambda>_. c2) gs)))" for a
    using assms(2) by (intro inv_route_add) (simp_all add: c1_def c2_def update_conn_ids)
  ultimately show ?thesis
    by (simp add: osmo_gsup_server_ccm_cb_def Let_def c1_def [symmetric] c2_def [symmetric]
        prod.case_eq_if gsup_route_add_ipa_name_def)
      (simp add: c1_def c2_def)
qed

lemma inv_free:
  assumes "server_inv gs"
  shows "server_inv (osmo_gsup_conn_free cid gs)"
proof -
  have "routes_distinct (osmo_gsup_conn_free cid gs)"
    using assms rt.inv_del [of gs cid]
    by (simp add: server_inv_def osmo_gsup_conn_free_def Let_def routes_distinct_def)
  then show ?thesis
    using assms
    by (auto simp: server_inv_def osmo_gsup_conn_free_def Let_def gsup_route_del_conn_def
        list_all_iff distinct_map_filter_sub sorted_wrt_filter sorted_wrt_map)
qed

lemma inv_accept_list:
  assumes "server_inv gs" and "cid \<notin> conn_id ` set (clients gs)"
  shows "server_inv (gs\<lparr>clients := osmo_gsup_server_add_conn (clients gs) (conn_zero cid)\<rparr>)"
proof -
  from assms(1) add_conn_spec [of "clients gs" "conn_zero cid"] obtain k where
    k: "insert_ind (inds (clients gs)) k (inds (osmo_gsup_server_add_conn (clients gs) (conn_zero cid)))"
       "mset (osmo_gsup_server_add_conn (clients gs) (conn_zero cid)) =
          mset ((conn_zero cid)\<lparr>auc_3g_ind := k\<rparr> # clients gs)"
    by (auto simp: server_inv_def)
  have "mset (map conn_id (osmo_gsup_server_add_conn (clients gs) (conn_zero cid))) =
      mset (map conn_id ((conn_zero cid)\<lparr>auc_3g_ind := k\<rparr> # clients gs))"
    using k(2) by (simp only: mset_map)
  then have "distinct (map conn_id (osmo_gsup_server_add_conn (clients gs) (conn_zero cid))) \<longleftrightarrow>
      distinct (map conn_id ((conn_zero cid)\<lparr>auc_3g_ind := k\<rparr> # clients gs))"
    by (rule mset_eq_imp_distinct_iff)
  with assms k(1) mset_eq_setD [OF k(2)] show ?thesis
    by (auto simp: server_inv_def insert_ind_def conn_zero_def list_all_iff routes_distinct_def)
qed

lemma inv_conn_rx:
  assumes "server_inv gs" and "c \<in> set (clients gs)"
  shows "server_inv (fst (osmo_gsup_conn_rx L G c msg gs))"
proof (cases "osmo_gsup_req_new L G (gsup_server_send_req_response G) (Some (ipa_peer (peer_name c))) msg gs")
  case (Pair g1 r1)
  have f: "routes g1 = routes gs" "clients g1 = clients gs"
    using gsup_cb.req_new_fields [OF Pair] by simp_all
  have g1: "server_inv g1" using assms(1) server_inv_cong [OF f] by simp
  then have add: "server_inv (fst (gsup_route_add (conn_id c) a g1))" for a
    using assms(2) f by (intro inv_route_add) auto
  have resp: "server_inv (fst (osmo_gsup_req_respond_msgt G (gsup_server_send_req_response G) q t b g)) =
      server_inv g" for q t b g
    by (rule server_inv_cong) (simp_all add: gsup_cb.respond_msgt_fields)
  show ?thesis
    using Pair g1 add by (auto simp: conn_rx_cases resp prod.case_eq_if gsup_route_add_ipa_name_def
        split: option.splits)
qed

lemma server_step_inv: "server_step L G gs gs' \<Longrightarrow> server_inv gs \<Longrightarrow> server_inv gs'"
proof (induction rule: server_step.induct)
  case (step_accept cid gs rc)
  then show ?case
    by (simp add: osmo_gsup_server_accept_cb_def Let_def inv_accept_list inv_free)
next
  case (step_respond gs req resp e final)
  then show ?case
    using server_inv_cong [OF gsup_cb.respond_fields(1,2)] by blast
next
  case (step_closed c gs)
  then show ?case by (simp add: osmo_gsup_server_closed_cb_def inv_free)
qed (simp_all add: inv_ccm inv_conn_rx)

section \<open>Properties\<close>

definition msc_name :: osmo_ipa_name where
  "msc_name = fst (osmo_ipa_name_set ipa_name_empty (Some (''MSC'' @ [NUL])))"

definition msc_conn :: osmo_gsup_conn where
  "msc_conn = (conn_zero 1)\<lparr>peer_name := msc_name\<rparr>"

definition lu_octets :: octets where
  \<comment> \<open>an Update Location Request in the small codec\<close>
  "lu_octets = CHR 0x00 # ''262420000000001''"

definition lu_req :: osmo_gsup_req where
  "lu_req = \<lparr>req_gsup = lu_example, req_source_name = ipa_peer msc_name,
     req_via_proxy = cni_peer_id_zero, req_nr = 1, req_send_response_cb = True, req_msg = lu_octets\<rparr>"

lemma msc_name_facts [simp]: "ipa_wf msc_name" "ipa_bytes msc_name = ''MSC'' @ [NUL]"
  by (simp_all add: msc_name_def ipa_set_wf ipa_set_bytes [THEN conjunct2] IPA_NAME_SIZE_def)

lemma lu_decode: "osmo_gsup_decode ref_gsup lu_octets = Some lu_example"
  by (simp add: ref_gsup_def ref_decode_def lu_octets_def ref_types_def lu_example_def octet_val_def)

lemma lu_rx: "osmo_gsup_conn_rx ref_core ref_gsup msc_conn lu_octets gs_example =
    (gs_example\<lparr>next_req_nr := 2\<rparr>, Some lu_req)"
  by (simp add: conn_rx_cases osmo_gsup_req_new_def lu_decode Let_def lu_req_def msc_conn_def
      lu_example_def name_len_def gsup_zero_def peer_zero_empty gs_example_def)
    (simp add: lu_octets_def ref_core_def is_digit_def octet_val_def)

text \<open>
  C24. Every message received on a connection becomes at most one request, under the next
  request number, and that request is accounted for: either it is handed to the caller and
  not yet deallocated, or it has been deallocated exactly once on the way (undecodable, not
  routable, invalid IMSI). No other request is touched, and a later final response, or an
  error response, deallocates the request that was handed out exactly once.
\<close>
theorem osmo_gsup_conn_rx_ownership:
  assumes "osmo_gsup_conn_rx L G conn msg gs = (gs1, r)" and "msg \<noteq> []"
  shows "(\<forall>nr. freed nr gs1 = freed nr gs + (if r = None \<and> nr = next_req_nr gs then 1 else 0)) \<and>
    (\<forall>req nr gs2 resp e cause. r = Some req \<longrightarrow>
       req_nr req = next_req_nr gs \<and>
       freed nr (fst (osmo_gsup_req_respond G (gsup_server_send_req_response G) req resp e True gs2)) =
         freed nr gs2 + (if nr = next_req_nr gs then 1 else 0) \<and>
       freed nr (fst (osmo_gsup_req_respond G (gsup_server_send_req_response G) req resp e False gs2)) =
         freed nr gs2 \<and>
       freed nr (osmo_gsup_req_respond_err G (gsup_server_send_req_response G) req cause gs2) =
         freed nr gs2 + (if nr = next_req_nr gs then 1 else 0))"
  using conn_rx_freed [OF assms]
    req_new_SomeD(2) [OF conn_rx_SomeD(1), of L G conn msg gs gs1] assms(1)
  by (auto simp: gsup_cb.respond_freed gsup_cb.respond_err_freed)

theorem osmo_gsup_conn_rx_ownership_witness:
  "freed 1 (gs_example\<lparr>next_req_nr := 2\<rparr>) = 0 \<and>
   freed 1 (fst (osmo_gsup_req_respond ref_gsup (gsup_server_send_req_response ref_gsup) lu_req gsup_zero
     False True (gs_example\<lparr>next_req_nr := 2\<rparr>))) = 1"
proof -
  have z: "freed 1 gs_example = 0" "next_req_nr gs_example = 1"
    by (simp_all add: freed_def gs_example_def)
  have ne: "lu_octets \<noteq> []" by (simp add: lu_octets_def)
  show ?thesis
    using osmo_gsup_conn_rx_ownership [OF lu_rx ne] z by simp
qed

text \<open>
  C5. The response to a request goes back on the connection the request came from, also when
  the request was forwarded by a proxy and names another source: let a peer that has been
  identified and routed send a message that yields a request; then, as long as the routes of
  that moment are still there, any response compatible with the request is encoded and sent
  on the peer's connection, and a final one deallocates the request right after.
\<close>
theorem response_returns_to_sender:
  assumes "lib_strings_ok L"
    and "ipa_wf (peer_name conn)" and "ipa_bytes (peer_name conn) \<noteq> []"
    and "gsup_route_find gs (ipa_bytes (peer_name conn)) = Some (conn_id conn)"
    and "osmo_gsup_conn_rx L G conn msg gs = (gs1, Some req)"
    and "gsup_route_find gs1 \<subseteq>\<^sub>m gsup_route_find gs2"
    and "compatible resp (req_gsup req)"
    and "osmo_gsup_encode G (response_of G resp (req_gsup req) e final) = Some bs"
  shows "osmo_gsup_req_respond G (gsup_server_send_req_response G) req resp e final gs2 =
    (gs2\<lparr>trace := trace gs2 @ EvTx (conn_id conn) bs # (if final then [EvReqFree (req_nr req)] else [])\<rparr>, 0)"
proof -
  note new = conn_rx_SomeD(1) [OF assms(5)]
  have wf: "gsup_wf (req_gsup req)"
    using assms(1) req_new_SomeD(5) [OF new] by (rule imsi_valid_wf)
  have keep: "gsup_route_find gs1 a = Some c \<Longrightarrow> gsup_route_find gs2 a = Some c" for a c
    using assms(6) by (metis domI map_le_def)
  note routed = conn_rx_routes_back [OF assms(2,3,4,5)]
  have "gsup_server_send_req_response G req (response_of G resp (req_gsup req) e final) gs2 =
      emit (EvTx (conn_id conn) bs) gs2"
    using routed keep assms(8) by (auto simp: send_response_ipa Let_def split: option.splits)
  then show ?thesis
    using respond_cases [OF wf assms(7) req_new_SomeD(6) [OF new], of G _ e final gs2]
    by (cases final) (simp_all add: Let_def osmo_gsup_req_free_def emit_def)
qed

theorem response_returns_to_sender_witness:
  "trace (fst (osmo_gsup_req_respond ref_gsup (gsup_server_send_req_response ref_gsup) lu_req gsup_zero
     False True (gs_example\<lparr>next_req_nr := 2\<rparr>))) =
   [EvTx 1 (CHR 0x02 # ''262420000000001''), EvReqFree 1]"
proof -
  have name: "ipa_wf (peer_name msc_conn)" "ipa_bytes (peer_name msc_conn) \<noteq> []"
    by (simp_all add: msc_conn_def)
  have route: "gsup_route_find gs_example (ipa_bytes (peer_name msc_conn)) = Some (conn_id msc_conn)"
    by (simp add: msc_conn_def conn_zero_def gsup_route_find_key gs_example_def)
  have compat: "compatible gsup_zero (req_gsup lu_req)" by (simp add: compatible_def gsup_zero_def)
  have enc: "osmo_gsup_encode ref_gsup (response_of ref_gsup gsup_zero (req_gsup lu_req) False True) =
      Some (CHR 0x02 # ''262420000000001'')"
    by code_simp
  show ?thesis
    using response_returns_to_sender [OF ref_strings_ok name route lu_rx map_le_refl compat enc]
    by (simp add: gs_example_def msc_conn_def conn_zero_def lu_req_def)
qed

text \<open>
  A new connection gets the smallest index not in use (the IND of UMTS AKA, TS 33.102),
  the list of clients stays strictly sorted by index, and the other connections are kept as
  they are.
\<close>
theorem osmo_gsup_server_add_conn_least:
  assumes "sorted_wrt (<) (map auc_3g_ind cl)"
  shows "sorted_wrt (<) (map auc_3g_ind (osmo_gsup_server_add_conn cl conn)) \<and>
    mset (osmo_gsup_server_add_conn cl conn) =
      add_mset (conn\<lparr>auc_3g_ind := (LEAST i. i \<notin> auc_3g_ind ` set cl)\<rparr>) (mset cl)"
proof -
  from add_conn_spec [OF assms, of conn] obtain k where
    k: "insert_ind (inds cl) k (inds (osmo_gsup_server_add_conn cl conn))" "\<forall>i<k. i \<in> set (inds cl)"
       "mset (osmo_gsup_server_add_conn cl conn) = mset (conn\<lparr>auc_3g_ind := k\<rparr> # cl)" by blast
  have "(LEAST i. i \<notin> auc_3g_ind ` set cl) = k"
    using k(1,2) by (intro Least_equality) (auto simp: insert_ind_def not_less [symmetric])
  with k show ?thesis by (simp add: insert_ind_def)
qed

theorem osmo_gsup_server_add_conn_least_witness:
  "map auc_3g_ind (osmo_gsup_server_add_conn
     [conn_zero 1, (conn_zero 2)\<lparr>auc_3g_ind := 1\<rparr>, (conn_zero 3)\<lparr>auc_3g_ind := 3\<rparr>] (conn_zero 4)) = [0, 1, 2, 3]
   \<and> sorted_wrt (<) (map auc_3g_ind (osmo_gsup_server_add_conn
     [conn_zero 1, (conn_zero 2)\<lparr>auc_3g_ind := 1\<rparr>, (conn_zero 3)\<lparr>auc_3g_ind := 3\<rparr>] (conn_zero 4)))"
  using osmo_gsup_server_add_conn_least
    [of "[conn_zero 1, (conn_zero 2)\<lparr>auc_3g_ind := 1\<rparr>, (conn_zero 3)\<lparr>auc_3g_ind := 3\<rparr>]" "conn_zero 4"]
  by (simp add: osmo_gsup_server_add_conn_def conn_zero_def)

text \<open>
  C22. Whatever order connections are accepted, identified, used, answered and closed in, the
  server never holds a route to a connection that has been freed, never two routes for one
  address, and never two connections with one index. The states are those reachable from a
  freshly created server.
\<close>
theorem gsup_server_no_dangling_routes:
  assumes "osmo_gsup_server_create link_ok open_rc = Some gs0" and "(server_step L G)\<^sup>*\<^sup>* gs0 gs"
  shows "route_conn ` set (routes gs) \<subseteq> conn_id ` set (clients gs) \<and>
    distinct (map route_addr (routes gs)) \<and> distinct (map auc_3g_ind (clients gs))"
proof -
  have "server_inv gs0"
    using assms(1) by (auto simp: osmo_gsup_server_create_def server_inv_def routes_distinct_def
        split: if_splits)
  with assms(2) have "server_inv gs"
    by (induction rule: rtranclp_induct) (auto intro: server_step_inv)
  then show ?thesis
    by (auto simp: server_inv_def routes_distinct_def strict_sorted_iff)
qed

theorem gsup_server_no_dangling_routes_witness:
  "\<exists>gs0 gs. osmo_gsup_server_create True 0 = Some gs0 \<and> (server_step ref_core ref_gsup)\<^sup>*\<^sup>* gs0 gs \<and>
     clients gs = [conn_zero 5] \<and> route_conn ` set (routes gs) \<subseteq> {5}"
proof -
  define gs0 where "gs0 = \<lparr>clients = [], routes = [], next_req_nr = 1, trace = []\<rparr>"
  define gs where "gs = fst (osmo_gsup_server_accept_cb osmo_gsup_conn_free 5 0 gs0)"
  have c: "osmo_gsup_server_create True 0 = Some gs0"
    by (simp add: osmo_gsup_server_create_def gs0_def)
  have "server_step ref_core ref_gsup gs0 gs"
    unfolding gs_def by (rule step_accept) (simp add: gs0_def)
  then have s: "(server_step ref_core ref_gsup)\<^sup>*\<^sup>* gs0 gs" by blast
  have "clients gs = [conn_zero 5]"
    by (simp add: gs_def gs0_def osmo_gsup_server_accept_cb_def osmo_gsup_server_add_conn_def conn_zero_def)
  then show ?thesis
    using c s gsup_server_no_dangling_routes [OF c s] by (auto simp: conn_zero_def)
qed

text \<open>
  Forwarding a request to a local peer concludes the request: it is deallocated exactly
  once when both its source and the destination are IPA names, whether the forwarding
  succeeds or is answered with a routing error. For any other kind of peer id the code sends
  an error response and then falls through to the routing error: the request is deallocated
  twice.
\<close>
theorem osmo_gsup_forward_to_local_peer_concludes:
  assumes "osmo_gsup_forward_to_local_peer G to_peer req modified gs = Some (gs', rc)"
  shows "freed nr gs' = freed nr gs +
    (if nr \<noteq> req_nr req then 0
     else if peer_type (req_source_name req) = OSMO_CNI_PEER_ID_IPA_NAME \<and>
             peer_type to_peer = OSMO_CNI_PEER_ID_IPA_NAME then 1 else 2)"
proof -
  have send: "osmo_gsup_enc_send_to_ipa_name G n m gs = Some (g, r) \<Longrightarrow> freed k g = freed k gs"
    for n m g r k
    by (auto simp: osmo_gsup_enc_send_to_ipa_name_def osmo_gsup_send_to_ipa_name_def Let_def
        addr_send_cases split: option.splits if_splits)
  show ?thesis
    using assms
    by (auto simp: osmo_gsup_forward_to_local_peer_def Let_def gsup_cb.respond_msgt_freed
        gsup_cb.respond_err_freed gsup_cb.freed_free split: if_splits option.splits)
      (erule send)+
qed

theorem osmo_gsup_forward_to_local_peer_concludes_witness:
  "\<exists>gs'. osmo_gsup_forward_to_local_peer ref_gsup (ipa_peer msc_name) lu_req None gs_example = Some (gs', 0) \<and>
     freed 1 gs' = 1"
proof -
  have bytes: "take (ipa_len msc_name) (ipa_val msc_name) = ''MSC'' @ [NUL]"
    using msc_name_facts(2) by (simp add: ipa_bytes_def)
  have enc: "osmo_gsup_encode ref_gsup m = Some (the (ref_encode m))" for m
    by (simp add: ref_gsup_def ref_encode_def)
  have send: "osmo_gsup_send_to_ipa_name msc_name m gs_example = Some (emit (EvTx 1 m) gs_example, 0)" for m
    using send_to_ipa_name_routable [of msc_name m gs_example]
    by (simp add: IPA_NAME_SIZE_def addr_send_cases gs_example_def gsup_route_find_key routable_def)
  obtain gs' where gs': "osmo_gsup_forward_to_local_peer ref_gsup (ipa_peer msc_name) lu_req None gs_example
      = Some (gs', 0)"
    by (simp add: osmo_gsup_forward_to_local_peer_def Let_def lu_req_def enc send
        osmo_gsup_enc_send_to_ipa_name_def)
  then show ?thesis
    using osmo_gsup_forward_to_local_peer_concludes [OF gs', of 1]
    by (simp add: lu_req_def freed_def gs_example_def)
qed

end
