(* ===== verification/Db.thy ===== *)
theory Db
  imports Cni_Peer_Id
begin

text \<open>
  The tables of the HLR database and the prepared statements: \<open>sql/hlr.sql\<close>, the statement
  texts in \<open>src/db.c\<close> and the structures of \<open>db.h\<close>. A table is the list of its rows in
  rowid order. Each statement is one definition that says which rows it selects or what it changes;
  a statement that would violate a constraint of the schema (unique IMSI, unique MSISDN,
  primary keys) fails and changes nothing. Failures of SQLite itself are the parameter
  \<open>sqlite_env\<close>: whether a parameter can be bound and whether a step fails, per statement. Dates are
  stored as text; the conversions of SQLite, \<open>strptime\<close> and \<open>mktime\<close> are parameters too.
\<close>

section \<open>Tables\<close>

record subscriber_row =
  row_id :: int
  row_imsi :: string
  row_msisdn :: "string option"
  row_imei :: "string option"
  row_vlr_number :: "string option"
  row_sgsn_number :: "string option"
  row_sgsn_address :: "string option"
  row_periodic_lu_tmr :: int
  row_periodic_rau_tau_tmr :: int
  row_nam_cs :: bool
  row_nam_ps :: bool
  row_lmsi :: int
  row_ms_purged_cs :: bool
  row_ms_purged_ps :: bool
  row_last_lu_seen :: "string option"
  row_last_lu_seen_ps :: "string option"
  row_vlr_via_proxy :: "string option"
  row_sgsn_via_proxy :: "string option"

record auc_2g_row =
  a2_subscriber_id :: int
  a2_algo_id :: nat
  a2_ki :: string

record auc_3g_row =
  a3_subscriber_id :: int
  a3_algo_id :: nat
  a3_k :: string
  a3_op :: "string option"
  a3_opc :: "string option"
  a3_sqn :: "64 word"
  a3_ind_bitlen :: nat

record hlr_db =
  tbl_subscriber :: "subscriber_row list"
  tbl_auc_2g :: "auc_2g_row list"
  tbl_auc_3g :: "auc_3g_row list"

definition msisdn_unique :: "subscriber_row list \<Rightarrow> bool" where
  "msisdn_unique t \<longleftrightarrow> (\<forall>r \<in> set t. \<forall>s \<in> set t.
     row_msisdn r \<noteq> None \<and> row_msisdn r = row_msisdn s \<longrightarrow> row_id r = row_id s)"

definition db_wf :: "hlr_db \<Rightarrow> bool" where
  \<comment> \<open>the constraints of the schema\<close>
  "db_wf db \<longleftrightarrow>
     distinct (map row_id (tbl_subscriber db)) \<and>
     distinct (map row_imsi (tbl_subscriber db)) \<and>
     msisdn_unique (tbl_subscriber db) \<and>
     distinct (map a2_subscriber_id (tbl_auc_2g db)) \<and>
     distinct (map a3_subscriber_id (tbl_auc_3g db))"

section \<open>Statements\<close>

datatype stmt_idx =
    DB_STMT_SEL_BY_IMSI | DB_STMT_SEL_BY_MSISDN | DB_STMT_SEL_BY_ID | DB_STMT_SEL_BY_IMEI
  | DB_STMT_UPD_VLR_BY_ID | DB_STMT_UPD_SGSN_BY_ID | DB_STMT_UPD_IMEI_BY_IMSI
  | DB_STMT_AUC_BY_IMSI | DB_STMT_AUC_UPD_SQN
  | DB_STMT_UPD_PURGE_CS_BY_IMSI | DB_STMT_UPD_PURGE_PS_BY_IMSI
  | DB_STMT_UPD_NAM_PS_BY_IMSI | DB_STMT_UPD_NAM_CS_BY_IMSI
  | DB_STMT_SUBSCR_CREATE | DB_STMT_DEL_BY_ID
  | DB_STMT_SET_MSISDN_BY_IMSI | DB_STMT_DELETE_MSISDN_BY_IMSI
  | DB_STMT_AUC_2G_INSERT | DB_STMT_AUC_2G_DELETE | DB_STMT_AUC_3G_INSERT | DB_STMT_AUC_3G_DELETE
  | DB_STMT_SET_LAST_LU_SEEN | DB_STMT_SET_LAST_LU_SEEN_PS
  | DB_STMT_EXISTS_BY_IMSI | DB_STMT_EXISTS_BY_MSISDN

abbreviation (input) SQLITE_CONSTRAINT :: int where "SQLITE_CONSTRAINT \<equiv> 19"

record sqlite_env =
  db_bind :: "stmt_idx \<Rightarrow> string \<Rightarrow> bool"
  step_error :: "stmt_idx \<Rightarrow> int option"
  clock_gettime :: "int + int"
  sql_datetime :: "int \<Rightarrow> string"
  strptime_mktime :: "string \<Rightarrow> int option"

text \<open>\<open>sqlite3_step\<close> on a statement that changes data: the error code, or the changed table and
  the number of changed rows (\<open>sqlite3_changes\<close>).\<close>

definition step_change ::
  "sqlite_env \<Rightarrow> stmt_idx \<Rightarrow> ('t \<Rightarrow> (int + 't \<times> nat)) \<Rightarrow> 't \<Rightarrow> int + 't \<times> nat" where
  "step_change E st f t = (case step_error E st of Some rc \<Rightarrow> Inl rc | None \<Rightarrow> f t)"

definition sql_update ::
  "('r \<Rightarrow> bool) \<Rightarrow> ('r \<Rightarrow> 'r) \<Rightarrow> 'r list \<Rightarrow> (int + 'r list \<times> nat)" where
  "sql_update P f t = Inr (map (\<lambda>r. if P r then f r else r) t, length (filter P t))"

definition sql_delete :: "('r \<Rightarrow> bool) \<Rightarrow> 'r list \<Rightarrow> (int + 'r list \<times> nat)" where
  "sql_delete P t = Inr (filter (\<lambda>r. \<not> P r) t, length (filter P t))"

definition sql_upd_vlr_by_id :: "string \<Rightarrow> string option \<Rightarrow> int \<Rightarrow> subscriber_row list \<Rightarrow> (int + subscriber_row list \<times> nat)" where
  "sql_upd_vlr_by_id number proxy sid =
     sql_update (\<lambda>r. row_id r = sid) (\<lambda>r. r\<lparr>row_vlr_number := Some number, row_vlr_via_proxy := proxy\<rparr>)"

definition sql_upd_sgsn_by_id :: "string \<Rightarrow> string option \<Rightarrow> int \<Rightarrow> subscriber_row list \<Rightarrow> (int + subscriber_row list \<times> nat)" where
  "sql_upd_sgsn_by_id number proxy sid =
     sql_update (\<lambda>r. row_id r = sid) (\<lambda>r. r\<lparr>row_sgsn_number := Some number, row_sgsn_via_proxy := proxy\<rparr>)"

definition sql_upd_imei_by_imsi :: "string option \<Rightarrow> string \<Rightarrow> subscriber_row list \<Rightarrow> (int + subscriber_row list \<times> nat)" where
  "sql_upd_imei_by_imsi imei imsi = sql_update (\<lambda>r. row_imsi r = imsi) (\<lambda>r. r\<lparr>row_imei := imei\<rparr>)"

definition sql_upd_purge_cs_by_imsi :: "bool \<Rightarrow> string \<Rightarrow> subscriber_row list \<Rightarrow> (int + subscriber_row list \<times> nat)" where
  "sql_upd_purge_cs_by_imsi val imsi = sql_update (\<lambda>r. row_imsi r = imsi) (\<lambda>r. r\<lparr>row_ms_purged_cs := val\<rparr>)"

definition sql_upd_purge_ps_by_imsi :: "bool \<Rightarrow> string \<Rightarrow> subscriber_row list \<Rightarrow> (int + subscriber_row list \<times> nat)" where
  "sql_upd_purge_ps_by_imsi val imsi = sql_update (\<lambda>r. row_imsi r = imsi) (\<lambda>r. r\<lparr>row_ms_purged_ps := val\<rparr>)"

definition sql_upd_nam_cs_by_imsi :: "bool \<Rightarrow> string \<Rightarrow> subscriber_row list \<Rightarrow> (int + subscriber_row list \<times> nat)" where
  "sql_upd_nam_cs_by_imsi val imsi = sql_update (\<lambda>r. row_imsi r = imsi) (\<lambda>r. r\<lparr>row_nam_cs := val\<rparr>)"

definition sql_upd_nam_ps_by_imsi :: "bool \<Rightarrow> string \<Rightarrow> subscriber_row list \<Rightarrow> (int + subscriber_row list \<times> nat)" where
  "sql_upd_nam_ps_by_imsi val imsi = sql_update (\<lambda>r. row_imsi r = imsi) (\<lambda>r. r\<lparr>row_nam_ps := val\<rparr>)"

definition sql_set_last_lu_seen :: "string \<Rightarrow> int \<Rightarrow> subscriber_row list \<Rightarrow> (int + subscriber_row list \<times> nat)" where
  "sql_set_last_lu_seen val sid = sql_update (\<lambda>r. row_id r = sid) (\<lambda>r. r\<lparr>row_last_lu_seen := Some val\<rparr>)"

definition sql_set_last_lu_seen_ps :: "string \<Rightarrow> int \<Rightarrow> subscriber_row list \<Rightarrow> (int + subscriber_row list \<times> nat)" where
  "sql_set_last_lu_seen_ps val sid = sql_update (\<lambda>r. row_id r = sid) (\<lambda>r. r\<lparr>row_last_lu_seen_ps := Some val\<rparr>)"

definition sql_set_msisdn_by_imsi :: "string \<Rightarrow> string \<Rightarrow> subscriber_row list \<Rightarrow> (int + subscriber_row list \<times> nat)" where
  \<comment> \<open>MSISDNs are unique\<close>
  "sql_set_msisdn_by_imsi msisdn imsi t =
     (if (\<exists>r \<in> set t. row_imsi r = imsi) \<and> (\<exists>r \<in> set t. row_imsi r \<noteq> imsi \<and> row_msisdn r = Some msisdn)
      then Inl SQLITE_CONSTRAINT
      else sql_update (\<lambda>r. row_imsi r = imsi) (\<lambda>r. r\<lparr>row_msisdn := Some msisdn\<rparr>) t)"

definition sql_delete_msisdn_by_imsi :: "string \<Rightarrow> subscriber_row list \<Rightarrow> (int + subscriber_row list \<times> nat)" where
  "sql_delete_msisdn_by_imsi imsi = sql_update (\<lambda>r. row_imsi r = imsi) (\<lambda>r. r\<lparr>row_msisdn := None\<rparr>)"

definition new_rowid :: "subscriber_row list \<Rightarrow> int" where
  \<comment> \<open>the id SQLite gives to a new row: one more than the largest in use\<close>
  "new_rowid t = foldr (\<lambda>r m. max (row_id r) m) t 0 + 1"

definition new_subscriber :: "int \<Rightarrow> string \<Rightarrow> bool \<Rightarrow> bool \<Rightarrow> subscriber_row" where
  \<comment> \<open>a row with the defaults of the schema\<close>
  "new_subscriber sid imsi nam_cs nam_ps = \<lparr>row_id = sid, row_imsi = imsi, row_msisdn = None, row_imei = None,
     row_vlr_number = None, row_sgsn_number = None, row_sgsn_address = None,
     row_periodic_lu_tmr = 0, row_periodic_rau_tau_tmr = 0, row_nam_cs = nam_cs, row_nam_ps = nam_ps,
     row_lmsi = 0, row_ms_purged_cs = False, row_ms_purged_ps = False, row_last_lu_seen = None,
     row_last_lu_seen_ps = None, row_vlr_via_proxy = None, row_sgsn_via_proxy = None\<rparr>"

definition sql_subscr_create :: "string \<Rightarrow> bool \<Rightarrow> bool \<Rightarrow> subscriber_row list \<Rightarrow> (int + subscriber_row list \<times> nat)" where
  "sql_subscr_create imsi nam_cs nam_ps t =
     (if \<exists>r \<in> set t. row_imsi r = imsi then Inl SQLITE_CONSTRAINT
      else Inr (t @ [new_subscriber (new_rowid t) imsi nam_cs nam_ps], 1))"

definition sql_del_by_id :: "int \<Rightarrow> subscriber_row list \<Rightarrow> (int + subscriber_row list \<times> nat)" where
  "sql_del_by_id sid = sql_delete (\<lambda>r. row_id r = sid)"

definition sql_auc_upd_sqn :: "64 word \<Rightarrow> int \<Rightarrow> auc_3g_row list \<Rightarrow> (int + auc_3g_row list \<times> nat)" where
  "sql_auc_upd_sqn sqn sid = sql_update (\<lambda>r. a3_subscriber_id r = sid) (\<lambda>r. r\<lparr>a3_sqn := sqn\<rparr>)"

definition sql_auc_2g_delete :: "int \<Rightarrow> auc_2g_row list \<Rightarrow> (int + auc_2g_row list \<times> nat)" where
  "sql_auc_2g_delete sid = sql_delete (\<lambda>r. a2_subscriber_id r = sid)"

definition sql_auc_3g_delete :: "int \<Rightarrow> auc_3g_row list \<Rightarrow> (int + auc_3g_row list \<times> nat)" where
  "sql_auc_3g_delete sid = sql_delete (\<lambda>r. a3_subscriber_id r = sid)"

definition sql_auc_2g_insert :: "auc_2g_row \<Rightarrow> auc_2g_row list \<Rightarrow> (int + auc_2g_row list \<times> nat)" where
  "sql_auc_2g_insert r t =
     (if a2_subscriber_id r \<in> a2_subscriber_id ` set t then Inl SQLITE_CONSTRAINT else Inr (t @ [r], 1))"

definition sql_auc_3g_insert :: "auc_3g_row \<Rightarrow> auc_3g_row list \<Rightarrow> (int + auc_3g_row list \<times> nat)" where
  "sql_auc_3g_insert r t =
     (if a3_subscriber_id r \<in> a3_subscriber_id ` set t then Inl SQLITE_CONSTRAINT else Inr (t @ [r], 1))"

definition sql_auc_by_imsi ::
  "string \<Rightarrow> hlr_db \<Rightarrow> (int \<times> auc_2g_row option \<times> auc_3g_row option) option" where
  \<comment> \<open>the first row of the join\<close>
  "sql_auc_by_imsi imsi db =
     map_option (\<lambda>r. (row_id r, List.find (\<lambda>a. a2_subscriber_id a = row_id r) (tbl_auc_2g db),
                      List.find (\<lambda>a. a3_subscriber_id a = row_id r) (tbl_auc_3g db)))
       (List.find (\<lambda>r. row_imsi r = imsi) (tbl_subscriber db))"

section \<open>Lemmas on statements\<close>

lemma map_update_key:
  "(\<And>r. k (f r) = k r) \<Longrightarrow> map k (map (\<lambda>r. if P r then f r else r) t) = map k t"
  by (induction t) auto

lemma msisdn_uniqueD:
  "msisdn_unique t \<Longrightarrow> r \<in> set t \<Longrightarrow> s \<in> set t \<Longrightarrow> row_msisdn r = Some m \<Longrightarrow> row_msisdn s = Some m \<Longrightarrow>
     row_id r = row_id s"
  unfolding msisdn_unique_def by (metis option.distinct(1))

lemma msisdn_uniqueI:
  "(\<And>r s m. r \<in> set t \<Longrightarrow> s \<in> set t \<Longrightarrow> row_msisdn r = Some m \<Longrightarrow> row_msisdn s = Some m \<Longrightarrow> row_id r = row_id s)
     \<Longrightarrow> msisdn_unique t"
  unfolding msisdn_unique_def by (metis not_None_eq)

lemma msisdn_unique_map:
  assumes "msisdn_unique t" and "\<And>r. row_id (g r) = row_id r" and "\<And>r. row_msisdn (g r) = row_msisdn r"
  shows "msisdn_unique (map g t)"
  using assms(1) unfolding msisdn_unique_def by (simp add: assms(2,3))

lemma msisdn_unique_subset: "msisdn_unique t \<Longrightarrow> set u \<subseteq> set t \<Longrightarrow> msisdn_unique u"
  unfolding msisdn_unique_def by blast

lemma msisdn_unique_snoc: "msisdn_unique t \<Longrightarrow> row_msisdn r = None \<Longrightarrow> msisdn_unique (t @ [r])"
  by (rule msisdn_uniqueI) (auto dest: msisdn_uniqueD)

lemma new_rowid_fresh: "r \<in> set t \<Longrightarrow> row_id r < new_rowid t"
  by (induction t) (auto simp: new_rowid_def less_max_iff_disj)

lemma update_count:
  assumes "distinct (map k t)" and "\<And>r. P r \<longleftrightarrow> k r = v"
  shows "length (filter P t) = (if v \<in> k ` set t then 1 else 0)"
  using assms(1)
proof (induction t)
  case (Cons r t)
  then show ?case using assms(2) by (auto simp: filter_empty_conv)
qed simp

lemma find_map_same: "(\<And>r. P (g r) = P r) \<Longrightarrow> List.find P (map g t) = map_option g (List.find P t)"
  by (induction t) auto

definition env_ok :: "sqlite_env \<Rightarrow> bool" where
  \<comment> \<open>no failure of SQLite or the clock\<close>
  "env_ok E \<longleftrightarrow> (\<forall>s p. db_bind E s p) \<and> (\<forall>s. step_error E s = None) \<and> (\<exists>t. clock_gettime E = Inr t)"

lemma env_okD [simp]: "env_ok E \<Longrightarrow> db_bind E s p" "env_ok E \<Longrightarrow> step_error E s = None"
  by (auto simp: env_ok_def)

definition ref_env :: sqlite_env where
  "ref_env = \<lparr>db_bind = (\<lambda>_ _. True), step_error = (\<lambda>_. None), clock_gettime = Inr 1000,
     sql_datetime = (\<lambda>t. show_dec (nat t)), strptime_mktime = (\<lambda>s. Some (int (dec_val s 0)))\<rparr>"

lemma ref_env_ok: "env_ok ref_env"
  by (simp add: env_ok_def ref_env_def)

end
