(* ===== verification/Db_Hlr.thy ===== *)
theory Db_Hlr
  imports Db
begin

text \<open>
  Operations on subscribers in the database: \<open>src/db_hlr.c\<close>. Each function returns the
  database and its return code; a function that reads a subscriber returns it too. The type and
  algorithm of authentication data are the numbers of libosmocore's enumerations.
\<close>

section \<open>Data\<close>

record hlr_subscriber =
  sub_id :: int
  sub_imsi :: string
  sub_msisdn :: string
  sub_imei :: string
  sub_vlr_number :: string
  sub_sgsn_number :: string
  sub_sgsn_address :: string
  sub_periodic_lu_timer :: int
  sub_periodic_rau_tau_timer :: int
  sub_nam_cs :: bool
  sub_nam_ps :: bool
  sub_lmsi :: int
  sub_ms_purged_cs :: bool
  sub_ms_purged_ps :: bool
  sub_last_lu_seen :: int
  sub_last_lu_seen_ps :: int
  sub_vlr_via_proxy :: osmo_ipa_name
  sub_sgsn_via_proxy :: osmo_ipa_name

record sub_auth_data_str =
  s_type :: nat
  s_algo :: nat
  s_ki :: string
  s_k :: string
  s_opc :: string
  s_opc_is_op :: bool
  s_ind_bitlen :: nat

definition aud_str_none :: "nat \<Rightarrow> sub_auth_data_str" where
  "aud_str_none ty = \<lparr>s_type = ty, s_algo = 0, s_ki = [], s_k = [], s_opc = [], s_opc_is_op = False,
     s_ind_bitlen = 0\<rparr>"

abbreviation (input) OSMO_MILENAGE_IND_BITLEN_MAX :: nat where "OSMO_MILENAGE_IND_BITLEN_MAX \<equiv> 28"

definition changes_rc :: "nat \<Rightarrow> int" where
  \<comment> \<open>the check of the number of rows changed\<close>
  "changes_rc n = (if n = 0 then - ENOENT else if n \<noteq> 1 then - EIO else 0)"

definition subscriber_step ::
  "(int + subscriber_row list \<times> nat) \<Rightarrow> hlr_db \<Rightarrow> hlr_db \<times> int" where
  \<comment> \<open>how the functions below conclude a step on the table of subscribers\<close>
  "subscriber_step r db = (case r of
     Inl _ \<Rightarrow> (db, - EIO)
   | Inr (t, n) \<Rightarrow> (db\<lparr>tbl_subscriber := t\<rparr>, changes_rc n))"

section \<open>Creating and changing subscribers\<close>

definition db_subscr_create ::
  "osmo_core \<Rightarrow> sqlite_env \<Rightarrow> string \<Rightarrow> bool \<Rightarrow> bool \<Rightarrow> hlr_db \<Rightarrow> hlr_db \<times> int" where
  \<comment> \<open>\<open>nam_cs\<close>, \<open>nam_ps\<close>: the two flags\<close>
  "db_subscr_create L E imsi nam_cs nam_ps db =
     (if \<not> osmo_imsi_str_valid L imsi then (db, - EINVAL)
      else if \<not> db_bind E DB_STMT_SUBSCR_CREATE ''$imsi'' then (db, - EIO)
      else if \<not> db_bind E DB_STMT_SUBSCR_CREATE ''$nam_cs'' then (db, - EIO)
      else if \<not> db_bind E DB_STMT_SUBSCR_CREATE ''$nam_ps'' then (db, - EIO)
      else (case step_change E DB_STMT_SUBSCR_CREATE (sql_subscr_create imsi nam_cs nam_ps) (tbl_subscriber db) of
              Inl _ \<Rightarrow> (db, - EIO)
            | Inr (t, _) \<Rightarrow> (db\<lparr>tbl_subscriber := t\<rparr>, 0)))"

definition aud_valid :: "osmo_core \<Rightarrow> sub_auth_data_str \<Rightarrow> bool" where
  \<comment> \<open>the checks on the new data in front of any change\<close>
  "aud_valid L aud =
     (if s_type aud = 1 then
        s_algo aud \<in> {0, 1, 2, 3, 4} \<and> (s_algo aud = 0 \<or> osmo_is_hexstr L (s_ki aud) 32 32 True)
      else if s_type aud = 2 then
        s_algo aud \<in> {0, 5} \<and>
        (s_algo aud = 0 \<or> osmo_is_hexstr L (s_k aud) 32 32 True \<and> osmo_is_hexstr L (s_opc aud) 32 32 True \<and>
         s_ind_bitlen aud \<le> OSMO_MILENAGE_IND_BITLEN_MAX)
      else False)"

definition auc_delete :: "sqlite_env \<Rightarrow> int \<Rightarrow> nat \<Rightarrow> hlr_db \<Rightarrow> (hlr_db \<times> nat) option" where
  \<comment> \<open>the statement \<open>stmt_del\<close>; None: it fails\<close>
  "auc_delete E sid ty db =
     (if ty = 1 then
        (case step_change E DB_STMT_AUC_2G_DELETE (sql_auc_2g_delete sid) (tbl_auc_2g db) of
           Inl _ \<Rightarrow> None | Inr (t, n) \<Rightarrow> Some (db\<lparr>tbl_auc_2g := t\<rparr>, n))
      else
        (case step_change E DB_STMT_AUC_3G_DELETE (sql_auc_3g_delete sid) (tbl_auc_3g db) of
           Inl _ \<Rightarrow> None | Inr (t, n) \<Rightarrow> Some (db\<lparr>tbl_auc_3g := t\<rparr>, n)))"

definition auc_insert :: "sqlite_env \<Rightarrow> int \<Rightarrow> sub_auth_data_str \<Rightarrow> hlr_db \<Rightarrow> hlr_db \<times> int" where
  \<comment> \<open>binding and executing the statement \<open>stmt_ins\<close>\<close>
  "auc_insert E sid aud db =
     (if s_type aud = 1 then
        (if \<not> db_bind E DB_STMT_AUC_2G_INSERT ''$subscriber_id'' \<or>
            \<not> db_bind E DB_STMT_AUC_2G_INSERT ''$algo_id_2g'' \<or>
            \<not> db_bind E DB_STMT_AUC_2G_INSERT ''$ki'' then (db, - EIO)
         else (case step_change E DB_STMT_AUC_2G_INSERT
                      (sql_auc_2g_insert \<lparr>a2_subscriber_id = sid, a2_algo_id = s_algo aud, a2_ki = s_ki aud\<rparr>)
                      (tbl_auc_2g db) of
                 Inl _ \<Rightarrow> (db, - EIO) | Inr (t, _) \<Rightarrow> (db\<lparr>tbl_auc_2g := t\<rparr>, 0)))
      else
        (if \<not> db_bind E DB_STMT_AUC_3G_INSERT ''$subscriber_id'' \<or>
            \<not> db_bind E DB_STMT_AUC_3G_INSERT ''$algo_id_3g'' \<or>
            \<not> db_bind E DB_STMT_AUC_3G_INSERT ''$k'' \<or> \<not> db_bind E DB_STMT_AUC_3G_INSERT ''$op'' \<or>
            \<not> db_bind E DB_STMT_AUC_3G_INSERT ''$opc'' \<or>
            \<not> db_bind E DB_STMT_AUC_3G_INSERT ''$ind_bitlen'' then (db, - EIO)
         else (case step_change E DB_STMT_AUC_3G_INSERT
                      (sql_auc_3g_insert \<lparr>a3_subscriber_id = sid, a3_algo_id = s_algo aud, a3_k = s_k aud,
                         a3_op = (if s_opc_is_op aud then Some (s_opc aud) else None),
                         a3_opc = (if s_opc_is_op aud then None else Some (s_opc aud)),
                         a3_sqn = 0, a3_ind_bitlen = s_ind_bitlen aud\<rparr>)
                      (tbl_auc_3g db) of
                 Inl _ \<Rightarrow> (db, - EIO) | Inr (t, _) \<Rightarrow> (db\<lparr>tbl_auc_3g := t\<rparr>, 0))))"

definition db_subscr_update_aud_by_id ::
  "osmo_core \<Rightarrow> sqlite_env \<Rightarrow> int \<Rightarrow> sub_auth_data_str \<Rightarrow> hlr_db \<Rightarrow> hlr_db \<times> int" where
  "db_subscr_update_aud_by_id L E sid aud db =
     (if \<not> aud_valid L aud then (db, - EINVAL)
      else if \<not> db_bind E (if s_type aud = 1 then DB_STMT_AUC_2G_DELETE else DB_STMT_AUC_3G_DELETE)
                 ''$subscriber_id'' then (db, - EIO)
      else (case auc_delete E sid (s_type aud) db of
              None \<Rightarrow> (db, - EIO)
            | Some (db, n) \<Rightarrow>
                let ret = changes_rc n
                in if ret \<noteq> 0 \<and> ret \<noteq> - ENOENT then (db, ret)
                   else if s_algo aud = 0 then (db, ret)
                   else auc_insert E sid aud db))"

definition db_subscr_delete_by_id :: "osmo_core \<Rightarrow> sqlite_env \<Rightarrow> int \<Rightarrow> hlr_db \<Rightarrow> hlr_db \<times> int" where
  "db_subscr_delete_by_id L E sid db =
     (if \<not> db_bind E DB_STMT_DEL_BY_ID ''$subscriber_id'' then (db, - EIO)
      else (case step_change E DB_STMT_DEL_BY_ID (sql_del_by_id sid) (tbl_subscriber db) of
              Inl _ \<Rightarrow> (db, - EIO)
            | Inr (t, n) \<Rightarrow>
                let db = db\<lparr>tbl_subscriber := t\<rparr>; ret = changes_rc n
                in (case db_subscr_update_aud_by_id L E sid (aud_str_none 1) db of
                      (db, rc) \<Rightarrow>
                        let ret = (if ret = - ENOENT \<and> rc = 0 then 0 else ret)
                        in (case db_subscr_update_aud_by_id L E sid (aud_str_none 2) db of
                              (db, rc) \<Rightarrow> (db, if ret = - ENOENT \<and> rc = 0 then 0 else ret)))))"

definition db_subscr_update_msisdn_by_imsi ::
  "osmo_core \<Rightarrow> sqlite_env \<Rightarrow> string \<Rightarrow> string option \<Rightarrow> hlr_db \<Rightarrow> hlr_db \<times> int" where
  "db_subscr_update_msisdn_by_imsi L E imsi msisdn db =
     (case msisdn of
        Some m \<Rightarrow>
          if \<not> osmo_msisdn_str_valid L m then (db, - EINVAL)
          else if \<not> db_bind E DB_STMT_SET_MSISDN_BY_IMSI ''$imsi'' then (db, - EIO)
          else if \<not> db_bind E DB_STMT_SET_MSISDN_BY_IMSI ''$msisdn'' then (db, - EIO)
          else subscriber_step (step_change E DB_STMT_SET_MSISDN_BY_IMSI (sql_set_msisdn_by_imsi m imsi)
                 (tbl_subscriber db)) db
      | None \<Rightarrow>
          if \<not> db_bind E DB_STMT_DELETE_MSISDN_BY_IMSI ''$imsi'' then (db, - EIO)
          else subscriber_step (step_change E DB_STMT_DELETE_MSISDN_BY_IMSI (sql_delete_msisdn_by_imsi imsi)
                 (tbl_subscriber db)) db)"

definition db_subscr_update_imei_by_imsi ::
  "osmo_core \<Rightarrow> sqlite_env \<Rightarrow> string \<Rightarrow> string option \<Rightarrow> hlr_db \<Rightarrow> hlr_db \<times> int" where
  "db_subscr_update_imei_by_imsi L E imsi imei db =
     (if imei \<noteq> None \<and> \<not> osmo_imei_str_valid L (the imei) False then (db, - EINVAL)
      else if \<not> db_bind E DB_STMT_UPD_IMEI_BY_IMSI ''$imsi'' then (db, - EIO)
      else if imei \<noteq> None \<and> \<not> db_bind E DB_STMT_UPD_IMEI_BY_IMSI ''$imei'' then (db, - EIO)
      else subscriber_step (step_change E DB_STMT_UPD_IMEI_BY_IMSI (sql_upd_imei_by_imsi imei imsi)
             (tbl_subscriber db)) db)"

definition db_subscr_nam :: "sqlite_env \<Rightarrow> string \<Rightarrow> bool \<Rightarrow> bool \<Rightarrow> hlr_db \<Rightarrow> hlr_db \<times> int" where
  "db_subscr_nam E imsi nam_val is_ps db =
     (let st = (if is_ps then DB_STMT_UPD_NAM_PS_BY_IMSI else DB_STMT_UPD_NAM_CS_BY_IMSI)
      in if \<not> db_bind E st ''$imsi'' then (db, - EIO)
         else if \<not> db_bind E st ''$val'' then (db, - EIO)
         else subscriber_step (step_change E st
                (if is_ps then sql_upd_nam_ps_by_imsi nam_val imsi else sql_upd_nam_cs_by_imsi nam_val imsi)
                (tbl_subscriber db)) db)"

definition db_subscr_purge :: "sqlite_env \<Rightarrow> string \<Rightarrow> bool \<Rightarrow> bool \<Rightarrow> hlr_db \<Rightarrow> hlr_db \<times> int" where
  "db_subscr_purge E by_imsi purge_val is_ps db =
     (let st = (if is_ps then DB_STMT_UPD_PURGE_PS_BY_IMSI else DB_STMT_UPD_PURGE_CS_BY_IMSI)
      in if \<not> db_bind E st ''$imsi'' then (db, - EIO)
         else if \<not> db_bind E st ''$val'' then (db, - EIO)
         else subscriber_step (step_change E st
                (if is_ps then sql_upd_purge_ps_by_imsi purge_val by_imsi
                 else sql_upd_purge_cs_by_imsi purge_val by_imsi)
                (tbl_subscriber db)) db)"

definition db_subscr_lu ::
  "sqlite_env \<Rightarrow> int \<Rightarrow> osmo_ipa_name \<Rightarrow> bool \<Rightarrow> osmo_ipa_name option \<Rightarrow> hlr_db \<Rightarrow> hlr_db \<times> int" where
  "db_subscr_lu E sid vlr_name is_ps via_proxy db =
     (let st = (if is_ps then DB_STMT_UPD_SGSN_BY_ID else DB_STMT_UPD_VLR_BY_ID);
          number = cstr (ipa_val vlr_name);
          proxy = (case via_proxy of
                     Some p \<Rightarrow> if ipa_len p \<noteq> 0 then Some (cstr (ipa_val p)) else None
                   | None \<Rightarrow> None)
      in if \<not> db_bind E st ''$subscriber_id'' then (db, - EIO)
         else if \<not> db_bind E st ''$number'' then (db, - EIO)
         else if \<not> db_bind E st ''$proxy'' then (db, - EIO)
         else (case subscriber_step (step_change E st
                      (if is_ps then sql_upd_sgsn_by_id number proxy sid else sql_upd_vlr_by_id number proxy sid)
                      (tbl_subscriber db)) db of
                 (db, ret) \<Rightarrow>
                   if ret \<noteq> 0 then (db, ret)
                   else (case clock_gettime E of
                           Inl errno \<Rightarrow> (db, - errno)
                         | Inr now \<Rightarrow>
                             let st2 = (if is_ps then DB_STMT_SET_LAST_LU_SEEN_PS else DB_STMT_SET_LAST_LU_SEEN)
                             in if \<not> db_bind E st2 ''$subscriber_id'' then (db, - EIO)
                                else if \<not> db_bind E st2 ''$val'' then (db, - EIO)
                                else subscriber_step (step_change E st2
                                       (if is_ps then sql_set_last_lu_seen_ps (sql_datetime E now) sid
                                        else sql_set_last_lu_seen (sql_datetime E now) sid)
                                       (tbl_subscriber db)) db)))"

section \<open>Reading subscribers\<close>

definition parse_last_lu_seen :: "sqlite_env \<Rightarrow> string option \<Rightarrow> int" where
  \<comment> \<open>the destination is 0 before\<close>
  "parse_last_lu_seen E str = (case str of
     None \<Rightarrow> 0
   | Some s \<Rightarrow>
       if s = [] then 0
       else (case strptime_mktime E s of None \<Rightarrow> 0 | Some val \<Rightarrow> if val = -1 then 0 else val))"

definition copy_text :: "nat \<Rightarrow> string option \<Rightarrow> string" where
  \<comment> \<open>\<open>osmo_strlcpy\<close> from a column that may be NULL\<close>
  "copy_text n c = (case c of None \<Rightarrow> [] | Some s \<Rightarrow> strlcpy n s)"

definition row_to_subscriber :: "sqlite_env \<Rightarrow> subscriber_row \<Rightarrow> hlr_subscriber" where
  "row_to_subscriber E r = \<lparr>
     sub_id = row_id r, sub_imsi = strlcpy 16 (row_imsi r), sub_msisdn = copy_text 16 (row_msisdn r),
     sub_imei = copy_text 16 (row_imei r), sub_vlr_number = copy_text 32 (row_vlr_number r),
     sub_sgsn_number = copy_text 32 (row_sgsn_number r), sub_sgsn_address = copy_text 16 (row_sgsn_address r),
     sub_periodic_lu_timer = row_periodic_lu_tmr r,
     sub_periodic_rau_tau_timer = row_periodic_rau_tau_tmr r,
     sub_nam_cs = row_nam_cs r, sub_nam_ps = row_nam_ps r, sub_lmsi = row_lmsi r,
     sub_ms_purged_cs = row_ms_purged_cs r, sub_ms_purged_ps = row_ms_purged_ps r,
     sub_last_lu_seen = parse_last_lu_seen E (row_last_lu_seen r),
     sub_last_lu_seen_ps = parse_last_lu_seen E (row_last_lu_seen_ps r),
     sub_vlr_via_proxy = fst (osmo_ipa_name_set_str ipa_name_empty (row_vlr_via_proxy r)),
     sub_sgsn_via_proxy = fst (osmo_ipa_name_set_str ipa_name_empty (row_sgsn_via_proxy r))\<rparr>"

definition db_sel ::
  "sqlite_env \<Rightarrow> stmt_idx \<Rightarrow> (subscriber_row \<Rightarrow> bool) \<Rightarrow> hlr_db \<Rightarrow> int + hlr_subscriber" where
  "db_sel E st P db = (case step_error E st of
     Some _ \<Rightarrow> Inl (- EIO)
   | None \<Rightarrow> (case List.find P (tbl_subscriber db) of
                None \<Rightarrow> Inl (- ENOENT)
              | Some r \<Rightarrow> Inr (row_to_subscriber E r)))"

definition db_subscr_get_by_imsi :: "sqlite_env \<Rightarrow> string \<Rightarrow> hlr_db \<Rightarrow> int + hlr_subscriber" where
  "db_subscr_get_by_imsi E imsi db =
     (if \<not> db_bind E DB_STMT_SEL_BY_IMSI [] then Inl (- EIO)
      else db_sel E DB_STMT_SEL_BY_IMSI (\<lambda>r. row_imsi r = imsi) db)"

definition db_subscr_get_by_msisdn :: "sqlite_env \<Rightarrow> string \<Rightarrow> hlr_db \<Rightarrow> int + hlr_subscriber" where
  "db_subscr_get_by_msisdn E msisdn db =
     (if \<not> db_bind E DB_STMT_SEL_BY_MSISDN [] then Inl (- EIO)
      else db_sel E DB_STMT_SEL_BY_MSISDN (\<lambda>r. row_msisdn r = Some msisdn) db)"

definition db_subscr_get_by_id :: "sqlite_env \<Rightarrow> int \<Rightarrow> hlr_db \<Rightarrow> int + hlr_subscriber" where
  "db_subscr_get_by_id E sid db =
     (if \<not> db_bind E DB_STMT_SEL_BY_ID [] then Inl (- EIO)
      else db_sel E DB_STMT_SEL_BY_ID (\<lambda>r. row_id r = sid) db)"

definition db_subscr_get_by_imei :: "sqlite_env \<Rightarrow> string \<Rightarrow> hlr_db \<Rightarrow> int + hlr_subscriber" where
  "db_subscr_get_by_imei E imei db =
     (if \<not> db_bind E DB_STMT_SEL_BY_IMEI [] then Inl (- EIO)
      else db_sel E DB_STMT_SEL_BY_IMEI (\<lambda>r. row_imei r = Some imei) db)"

definition db_exists :: "sqlite_env \<Rightarrow> stmt_idx \<Rightarrow> (subscriber_row \<Rightarrow> bool) \<Rightarrow> hlr_db \<Rightarrow> int" where
  \<comment> \<open>the common body of the two functions below; an error code of SQLite is returned as it is\<close>
  "db_exists E st P db =
     (if \<not> db_bind E st [] then - EIO
      else case step_error E st of
             Some rc \<Rightarrow> rc
           | None \<Rightarrow> if (\<exists>r \<in> set (tbl_subscriber db). P r) then 0 else - ENOENT)"

definition db_subscr_exists_by_imsi :: "sqlite_env \<Rightarrow> string \<Rightarrow> hlr_db \<Rightarrow> int" where
  "db_subscr_exists_by_imsi E imsi = db_exists E DB_STMT_EXISTS_BY_IMSI (\<lambda>r. row_imsi r = imsi)"

definition db_subscr_exists_by_msisdn :: "sqlite_env \<Rightarrow> string \<Rightarrow> hlr_db \<Rightarrow> int" where
  "db_subscr_exists_by_msisdn E msisdn = db_exists E DB_STMT_EXISTS_BY_MSISDN (\<lambda>r. row_msisdn r = Some msisdn)"

section \<open>The constraints of the schema are kept\<close>

lemma step_change_InrD: "step_change E st f t = Inr x \<Longrightarrow> f t = Inr x"
  by (auto simp: step_change_def split: option.splits)

lemma wf_update:
  assumes "db_wf db" and "\<And>r. row_id (f r) = row_id r" and "\<And>r. row_imsi (f r) = row_imsi r"
    and "\<And>r. row_msisdn (f r) = row_msisdn r"
  shows "db_wf (fst (subscriber_step (step_change E st (sql_update P f) (tbl_subscriber db)) db))"
proof -
  let ?t = "map (\<lambda>r. if P r then f r else r) (tbl_subscriber db)"
  have "map row_id ?t = map row_id (tbl_subscriber db)" "map row_imsi ?t = map row_imsi (tbl_subscriber db)"
    using assms(2,3) by (simp_all only: map_update_key)
  moreover have "msisdn_unique ?t" using assms by (intro msisdn_unique_map) (simp_all add: db_wf_def)
  ultimately have "db_wf (db\<lparr>tbl_subscriber := ?t\<rparr>)"
    using assms(1) by (simp add: db_wf_def del: map_map)
  then show ?thesis
    using assms(1)
    by (simp add: subscriber_step_def sql_update_def step_change_def split: option.splits)
qed

lemma wf_nam: "db_wf db \<Longrightarrow> db_wf (fst (db_subscr_nam E imsi v ps db))"
  by (simp add: db_subscr_nam_def Let_def sql_upd_nam_ps_by_imsi_def sql_upd_nam_cs_by_imsi_def wf_update)

lemma wf_purge: "db_wf db \<Longrightarrow> db_wf (fst (db_subscr_purge E imsi v ps db))"
  by (simp add: db_subscr_purge_def Let_def sql_upd_purge_ps_by_imsi_def sql_upd_purge_cs_by_imsi_def wf_update)

lemma wf_imei: "db_wf db \<Longrightarrow> db_wf (fst (db_subscr_update_imei_by_imsi L E imsi imei db))"
  by (simp add: db_subscr_update_imei_by_imsi_def sql_upd_imei_by_imsi_def wf_update)

lemma wf_lu: "db_wf db \<Longrightarrow> db_wf (fst (db_subscr_lu E sid n ps p db))"
proof -
  assume wf: "db_wf db"
  have 1: "db_wf (fst (subscriber_step (step_change E st (sql_upd_sgsn_by_id a b sid) (tbl_subscriber db)) db))"
    "db_wf (fst (subscriber_step (step_change E st (sql_upd_vlr_by_id a b sid) (tbl_subscriber db)) db))" for st a b
    using wf by (simp_all add: sql_upd_sgsn_by_id_def sql_upd_vlr_by_id_def wf_update)
  have 2: "db_wf d \<Longrightarrow> db_wf (fst (subscriber_step (step_change E st (sql_set_last_lu_seen_ps a sid) (tbl_subscriber d)) d))"
    "db_wf d \<Longrightarrow> db_wf (fst (subscriber_step (step_change E st (sql_set_last_lu_seen a sid) (tbl_subscriber d)) d))" for st a d
    by (simp_all add: sql_set_last_lu_seen_ps_def sql_set_last_lu_seen_def wf_update)
  show ?thesis
    using wf 1 2 by (simp add: db_subscr_lu_def Let_def prod.case_eq_if split: sum.splits)
qed

lemma wf_set_msisdn:
  assumes "db_wf db" and "\<forall>m. v = Some m \<longrightarrow> (\<exists>r \<in> set (tbl_subscriber db). row_imsi r = imsi) \<longrightarrow>
    \<not> (\<exists>r \<in> set (tbl_subscriber db). row_imsi r \<noteq> imsi \<and> row_msisdn r = Some m)"
  shows "db_wf (db\<lparr>tbl_subscriber := map (\<lambda>r. if row_imsi r = imsi then r\<lparr>row_msisdn := v\<rparr> else r) (tbl_subscriber db)\<rparr>)"
proof -
  let ?g = "\<lambda>r. if row_imsi r = imsi then r\<lparr>row_msisdn := v\<rparr> else r"
  let ?t = "map ?g (tbl_subscriber db)"
  have keys: "map row_id ?t = map row_id (tbl_subscriber db)" "map row_imsi ?t = map row_imsi (tbl_subscriber db)"
    by (simp_all add: map_update_key)
  have same: "row_id r = row_id s"
    if "row_imsi r = row_imsi s" "r \<in> set (tbl_subscriber db)" "s \<in> set (tbl_subscriber db)" for r s
  proof -
    have "inj_on row_imsi (set (tbl_subscriber db))" using assms(1) by (simp add: db_wf_def distinct_map)
    with that have "r = s" by (simp add: inj_on_eq_iff)
    then show ?thesis by simp
  qed
  have old: "msisdn_unique (tbl_subscriber db)" using assms(1) by (simp add: db_wf_def)
  have all: "row_id (?g r) = row_id (?g s)"
    if rs: "r \<in> set (tbl_subscriber db)" "s \<in> set (tbl_subscriber db)"
      and m: "row_msisdn (?g r) = Some m" "row_msisdn (?g s) = Some m" for r s m
  proof -
    have ids: "row_id (?g r) = row_id r" "row_id (?g s) = row_id s" by simp_all
    consider "row_imsi r = imsi" "row_imsi s = imsi" | "row_imsi r \<noteq> imsi" "row_imsi s \<noteq> imsi"
      | "row_imsi r = imsi" "row_imsi s \<noteq> imsi" | "row_imsi r \<noteq> imsi" "row_imsi s = imsi" by blast
    then show ?thesis
    proof cases
      case 1
      then show ?thesis using same [OF _ rs] ids by simp
    next
      case 2
      then have "row_msisdn r = Some m" "row_msisdn s = Some m" using m by simp_all
      then show ?thesis using msisdn_uniqueD [OF old rs] ids by simp
    next
      case 3
      then have "v = Some m" "row_msisdn s = Some m" using m by simp_all
      then show ?thesis using 3 rs assms(2) by blast
    next
      case 4
      then have "v = Some m" "row_msisdn r = Some m" using m by simp_all
      then show ?thesis using 4 rs assms(2) by blast
    qed
  qed
  have "msisdn_unique ?t"
  proof (rule msisdn_uniqueI)
    fix x y m
    assume x: "x \<in> set ?t" "row_msisdn x = Some m" and y: "y \<in> set ?t" "row_msisdn y = Some m"
    obtain r where r: "x = ?g r" "r \<in> set (tbl_subscriber db)" using x(1) unfolding list.set_map by (rule imageE)
    obtain s where s: "y = ?g s" "s \<in> set (tbl_subscriber db)" using y(1) unfolding list.set_map by (rule imageE)
    show "row_id x = row_id y"
      unfolding r(1) s(1) by (rule all [OF r(2) s(2) x(2) [unfolded r(1)] y(2) [unfolded s(1)]])
  qed
  with keys assms(1) show ?thesis by (simp add: db_wf_def del: map_map)
qed

lemma wf_msisdn:
  assumes "db_wf db"
  shows "db_wf (fst (db_subscr_update_msisdn_by_imsi L E imsi m db))"
proof (cases m)
  case None
  then show ?thesis
    using assms wf_set_msisdn [OF assms, of None imsi]
    by (simp add: db_subscr_update_msisdn_by_imsi_def subscriber_step_def sql_delete_msisdn_by_imsi_def
        sql_update_def step_change_def split: option.splits)
next
  case (Some a)
  then show ?thesis
    using assms wf_set_msisdn [OF assms, of "Some a" imsi]
    by (simp add: db_subscr_update_msisdn_by_imsi_def subscriber_step_def sql_set_msisdn_by_imsi_def
        sql_update_def step_change_def split: option.splits)
qed

lemma wf_create:
  assumes "db_wf db"
  shows "db_wf (fst (db_subscr_create L E imsi cs ps db))"
proof -
  have "new_rowid (tbl_subscriber db) \<notin> row_id ` set (tbl_subscriber db)"
    using new_rowid_fresh [of _ "tbl_subscriber db"] by fastforce
  with assms show ?thesis
    by (simp add: db_subscr_create_def sql_subscr_create_def step_change_def db_wf_def msisdn_unique_snoc
        new_subscriber_def split: option.splits) auto
qed

lemma wf_delete_rows:
  assumes "db_wf db"
  shows "db_wf (db\<lparr>tbl_subscriber := filter P (tbl_subscriber db)\<rparr>)"
    and "db_wf (db\<lparr>tbl_auc_2g := filter Q2 (tbl_auc_2g db)\<rparr>)"
    and "db_wf (db\<lparr>tbl_auc_3g := filter Q3 (tbl_auc_3g db)\<rparr>)"
  using assms msisdn_unique_subset [of "tbl_subscriber db" "filter P (tbl_subscriber db)"]
  by (simp_all add: db_wf_def distinct_map_filter_sub)

lemma wf_update_aud:
  assumes "db_wf db"
  shows "db_wf (fst (db_subscr_update_aud_by_id L E sid aud db))"
proof -
  have ins: "db_wf d \<Longrightarrow> db_wf (fst (auc_insert E sid aud d))" for d
    by (auto simp: auc_insert_def step_change_def sql_auc_2g_insert_def sql_auc_3g_insert_def db_wf_def
        split: option.splits)
  have del: "auc_delete E sid ty db = Some (d, n) \<Longrightarrow> db_wf d" for ty d n
    using assms
    by (auto simp: auc_delete_def step_change_def sql_auc_2g_delete_def sql_auc_3g_delete_def sql_delete_def
        wf_delete_rows split: option.splits if_splits)
  show ?thesis
    using assms ins del by (auto simp: db_subscr_update_aud_by_id_def Let_def split: option.splits)
qed

lemma wf_delete:
  assumes "db_wf db"
  shows "db_wf (fst (db_subscr_delete_by_id L E sid db))"
proof -
  have "db_wf (fst (db_subscr_update_aud_by_id L E sid b
      (fst (db_subscr_update_aud_by_id L E sid a (db\<lparr>tbl_subscriber := filter P (tbl_subscriber db)\<rparr>)))))" for a b P
    using assms by (intro wf_update_aud) (rule wf_delete_rows)
  with assms show ?thesis
    by (simp add: db_subscr_delete_by_id_def Let_def prod.case_eq_if sql_del_by_id_def sql_delete_def step_change_def
        split: option.splits sum.splits)
qed

section \<open>The database as a map from IMSIs to subscribers\<close>

definition subscribers :: "hlr_db \<Rightarrow> string \<Rightarrow> subscriber_row option" where
  "subscribers db = (\<lambda>imsi. List.find (\<lambda>r. row_imsi r = imsi) (tbl_subscriber db))"

definition amend :: "string \<Rightarrow> (subscriber_row \<Rightarrow> subscriber_row) \<Rightarrow> (string \<Rightarrow> subscriber_row option)
    \<Rightarrow> string \<Rightarrow> subscriber_row option" where
  \<comment> \<open>change the subscriber with this IMSI, if there is one\<close>
  "amend imsi f m = (\<lambda>i. if i = imsi then map_option f (m i) else m i)"

lemma subscribers_None: "subscribers db imsi = None \<longleftrightarrow> imsi \<notin> row_imsi ` set (tbl_subscriber db)"
  by (auto simp: subscribers_def find_None_iff)

lemma subscribers_SomeD: "subscribers db imsi = Some r \<Longrightarrow> r \<in> set (tbl_subscriber db) \<and> row_imsi r = imsi"
  by (auto simp: subscribers_def dest: find_SomeD)

lemma subscribers_unique:
  "db_wf db \<Longrightarrow> r \<in> set (tbl_subscriber db) \<Longrightarrow> subscribers db (row_imsi r) = Some r"
proof -
  assume wf: "db_wf db" and r: "r \<in> set (tbl_subscriber db)"
  then obtain s where s: "subscribers db (row_imsi r) = Some s" using subscribers_None by fastforce
  have "inj_on row_imsi (set (tbl_subscriber db))" using wf by (simp add: db_wf_def distinct_map)
  then have "s = r" using subscribers_SomeD [OF s] r by (metis inj_onD)
  with s show ?thesis by simp
qed

lemma step_ok [simp]: "env_ok E \<Longrightarrow> step_change E st f t = f t"
  by (simp add: step_change_def)

lemma update_by_imsi:
  fixes st :: stmt_idx and imsi :: string
  assumes "db_wf db" and "env_ok E" and "\<And>r. row_imsi (f r) = row_imsi r"
  defines "u \<equiv> subscriber_step (step_change E st (sql_update (\<lambda>r. row_imsi r = imsi) f) (tbl_subscriber db)) db"
  shows "snd u = (if subscribers db imsi = None then - ENOENT else 0)"
    and "subscribers (fst u) = amend imsi f (subscribers db)"
proof -
  have "length (filter (\<lambda>r. row_imsi r = imsi) (tbl_subscriber db)) = (if subscribers db imsi = None then 0 else 1)"
    using update_count [of row_imsi "tbl_subscriber db" "\<lambda>r. row_imsi r = imsi" imsi] assms(1)
    by (simp add: subscribers_None db_wf_def)
  then show "snd u = (if subscribers db imsi = None then - ENOENT else 0)"
    using assms(2) by (simp add: u_def subscriber_step_def sql_update_def changes_rc_def)
  have "List.find (\<lambda>r. row_imsi r = i) (map (\<lambda>r. if row_imsi r = imsi then f r else r) t) =
      (if i = imsi then map_option f (List.find (\<lambda>r. row_imsi r = i) t)
       else List.find (\<lambda>r. row_imsi r = i) t)" for i t
    by (induction t) (auto simp: assms(3))
  then show "subscribers (fst u) = amend imsi f (subscribers db)"
    using assms(2) by (simp add: u_def fun_eq_iff subscribers_def subscriber_step_def sql_update_def amend_def)
qed

lemma update_by_id:
  fixes st :: stmt_idx and imsi :: string and r :: subscriber_row
  assumes "db_wf db" and "env_ok E" and "\<And>r. row_imsi (f r) = row_imsi r" and "subscribers db imsi = Some r"
  defines "u \<equiv> subscriber_step (step_change E st (sql_update (\<lambda>x. row_id x = row_id r) f) (tbl_subscriber db)) db"
  shows "snd u = 0" and "subscribers (fst u) = amend imsi f (subscribers db)"
proof -
  note r = subscribers_SomeD [OF assms(4)]
  have inj: "inj_on row_id (set (tbl_subscriber db))" "inj_on row_imsi (set (tbl_subscriber db))"
    using assms(1) by (simp_all add: db_wf_def distinct_map)
  have same: "x \<in> set (tbl_subscriber db) \<Longrightarrow> row_id x = row_id r \<longleftrightarrow> row_imsi x = imsi" for x
    using r inj by (metis inj_onD)
  have "map (\<lambda>x. if row_id x = row_id r then f x else x) (tbl_subscriber db) =
      map (\<lambda>x. if row_imsi x = imsi then f x else x) (tbl_subscriber db)"
    using same by (intro map_cong refl) simp
  moreover have "filter (\<lambda>x. row_id x = row_id r) (tbl_subscriber db) =
      filter (\<lambda>x. row_imsi x = imsi) (tbl_subscriber db)"
    using same by (intro filter_cong refl) simp
  ultimately have "u = subscriber_step (step_change E st (sql_update (\<lambda>r. row_imsi r = imsi) f) (tbl_subscriber db)) db"
    using assms(2) by (simp add: u_def sql_update_def del: map_eq_conv)
  then show "snd u = 0" "subscribers (fst u) = amend imsi f (subscribers db)"
    using update_by_imsi [OF assms(1-3), of st imsi] assms(4) by simp_all
qed

lemma get_by_imsi_ok:
  assumes "env_ok E"
  shows "db_subscr_get_by_imsi E imsi db =
    (case subscribers db imsi of None \<Rightarrow> Inl (- ENOENT) | Some r \<Rightarrow> Inr (row_to_subscriber E r))"
  using assms by (simp add: db_subscr_get_by_imsi_def db_sel_def subscribers_def)

lemma nam_spec:
  assumes "db_wf db" and "env_ok E"
  shows "subscribers (fst (db_subscr_nam E imsi val is_ps db)) =
      amend imsi (if is_ps then row_nam_ps_update (\<lambda>_. val) else row_nam_cs_update (\<lambda>_. val)) (subscribers db) \<and>
    snd (db_subscr_nam E imsi val is_ps db) = (if subscribers db imsi = None then - ENOENT else 0)"
  using assms(2) update_by_imsi [OF assms, of "row_nam_ps_update (\<lambda>_. val)"] update_by_imsi [OF assms, of "row_nam_cs_update (\<lambda>_. val)"]
  by (simp add: db_subscr_nam_def Let_def sql_upd_nam_ps_by_imsi_def sql_upd_nam_cs_by_imsi_def)

lemma imei_spec:
  assumes "db_wf db" and "env_ok E" and "osmo_imei_str_valid L imei False"
  shows "subscribers (fst (db_subscr_update_imei_by_imsi L E imsi (Some imei) db)) =
        amend imsi (row_imei_update (\<lambda>_. Some imei)) (subscribers db) \<and>
      snd (db_subscr_update_imei_by_imsi L E imsi (Some imei) db) =
        (if subscribers db imsi = None then - ENOENT else 0)"
  using assms(2,3) update_by_imsi [OF assms(1,2), of "row_imei_update (\<lambda>_. Some imei)"]
  by (simp add: db_subscr_update_imei_by_imsi_def sql_upd_imei_by_imsi_def)

lemma sel_sound:
  assumes "db_sel E st P db = Inr s"
  obtains r where "r \<in> set (tbl_subscriber db)" and "P r" and "s = row_to_subscriber E r" and "List.find P (tbl_subscriber db) = Some r"
  using assms by (auto simp: db_sel_def split: option.splits dest: find_SomeD)

definition imsis_ok :: "osmo_core \<Rightarrow> hlr_db \<Rightarrow> bool" where
  \<comment> \<open>every stored IMSI is one that \<open>db_subscr_create\<close> accepts\<close>
  "imsis_ok L db \<longleftrightarrow> list_all (\<lambda>r. osmo_imsi_str_valid L (row_imsi r)) (tbl_subscriber db)"

lemma create_spec:
  assumes "env_ok E" and "osmo_imsi_str_valid L imsi"
  shows "db_subscr_create L E imsi cs ps db =
    (if subscribers db imsi \<noteq> None then (db, - EIO)
     else (db\<lparr>tbl_subscriber := tbl_subscriber db @ [new_subscriber (new_rowid (tbl_subscriber db)) imsi cs ps]\<rparr>, 0))"
    and "subscribers db imsi = None \<Longrightarrow> subscribers (fst (db_subscr_create L E imsi cs ps db)) =
      (subscribers db)(imsi \<mapsto> new_subscriber (new_rowid (tbl_subscriber db)) imsi cs ps)"
proof -
  have iff: "(\<exists>r \<in> set (tbl_subscriber db). row_imsi r = imsi) \<longleftrightarrow> subscribers db imsi \<noteq> None"
    unfolding subscribers_None by blast
  show eq: "db_subscr_create L E imsi cs ps db =
      (if subscribers db imsi \<noteq> None then (db, - EIO)
       else (db\<lparr>tbl_subscriber := tbl_subscriber db @ [new_subscriber (new_rowid (tbl_subscriber db)) imsi cs ps]\<rparr>, 0))"
    using assms by (simp add: db_subscr_create_def sql_subscr_create_def iff)
  show "subscribers db imsi = None \<Longrightarrow> subscribers (fst (db_subscr_create L E imsi cs ps db)) =
      (subscribers db)(imsi \<mapsto> new_subscriber (new_rowid (tbl_subscriber db)) imsi cs ps)"
    unfolding eq by (auto simp: fun_eq_iff subscribers_def find_append new_subscriber_def split: option.splits)
qed

lemma create_invalid: "\<not> osmo_imsi_str_valid L imsi \<Longrightarrow> db_subscr_create L E imsi cs ps db = (db, - EINVAL)"
  by (simp add: db_subscr_create_def)

lemma delete_aud_none:
  assumes "db_wf db" and "env_ok E" and "ty = 1 \<or> ty = 2"
  shows "db_subscr_update_aud_by_id L E sid (aud_str_none ty) db =
    (if ty = 1 then db\<lparr>tbl_auc_2g := filter (\<lambda>a. a2_subscriber_id a \<noteq> sid) (tbl_auc_2g db)\<rparr>
     else db\<lparr>tbl_auc_3g := filter (\<lambda>a. a3_subscriber_id a \<noteq> sid) (tbl_auc_3g db)\<rparr>,
     if (if ty = 1 then sid \<in> a2_subscriber_id ` set (tbl_auc_2g db)
         else sid \<in> a3_subscriber_id ` set (tbl_auc_3g db)) then 0 else - ENOENT)"
proof -
  have c2: "length (filter (\<lambda>a. a2_subscriber_id a = sid) (tbl_auc_2g db)) =
      (if sid \<in> a2_subscriber_id ` set (tbl_auc_2g db) then 1 else 0)"
    using assms(1) by (intro update_count [of a2_subscriber_id]) (simp_all add: db_wf_def)
  have c3: "length (filter (\<lambda>a. a3_subscriber_id a = sid) (tbl_auc_3g db)) =
      (if sid \<in> a3_subscriber_id ` set (tbl_auc_3g db) then 1 else 0)"
    using assms(1) by (intro update_count [of a3_subscriber_id]) (simp_all add: db_wf_def)
  show ?thesis
    using assms(2,3) c2 c3
    by (auto simp: db_subscr_update_aud_by_id_def aud_valid_def aud_str_none_def auc_delete_def Let_def
        sql_auc_2g_delete_def sql_auc_3g_delete_def sql_delete_def changes_rc_def)
qed

section \<open>Properties\<close>

text \<open>
  No operation on the database, with any arguments and with any failures of SQLite or the
  clock, breaks the constraints of the schema: subscriber ids, IMSIs and MSISDNs stay unique and
  there is at most one row of 2G and one of 3G authentication data per subscriber.
\<close>
theorem db_constraints_preserved:
  assumes "db_wf db"
  shows "db_wf (fst (db_subscr_create L E imsi cs ps db)) \<and>
    db_wf (fst (db_subscr_delete_by_id L E sid db)) \<and>
    db_wf (fst (db_subscr_update_msisdn_by_imsi L E imsi msisdn db)) \<and>
    db_wf (fst (db_subscr_update_aud_by_id L E sid aud db)) \<and>
    db_wf (fst (db_subscr_update_imei_by_imsi L E imsi imei db)) \<and>
    db_wf (fst (db_subscr_nam E imsi val is_ps db)) \<and>
    db_wf (fst (db_subscr_purge E imsi val is_ps db)) \<and>
    db_wf (fst (db_subscr_lu E sid vlr_name is_ps via_proxy db))"
  using assms by (intro conjI wf_create wf_delete wf_msisdn wf_update_aud wf_imei wf_nam wf_purge wf_lu)

definition db_empty :: hlr_db where
  "db_empty = \<lparr>tbl_subscriber = [], tbl_auc_2g = [], tbl_auc_3g = []\<rparr>"

lemma db_empty_wf: "db_wf db_empty"
  by (simp add: db_wf_def db_empty_def msisdn_unique_def)

theorem db_constraints_preserved_witness:
  "db_wf (fst (db_subscr_create ref_core ref_env ''262420000000001'' True True db_empty))"
  using db_constraints_preserved [OF db_empty_wf, of ref_core ref_env "''262420000000001''" True True] by blast

text \<open>
  C12. As long as SQLite does not fail, the table of subscribers behaves as a map from IMSIs to
  subscribers: creating a subscriber adds an entry with the given access modes, and is refused for
  an IMSI that exists or is malformed; setting the access mode, the purge flag or a valid IMEI
  changes exactly that field of exactly that subscriber, and an unknown IMSI gives ENOENT and
  changes nothing.
\<close>
theorem db_subscribers_refine_map:
  assumes "db_wf db" and "env_ok E"
  shows "(if \<not> osmo_imsi_str_valid L imsi then db_subscr_create L E imsi cs ps db = (db, - EINVAL)
      else if subscribers db imsi \<noteq> None then db_subscr_create L E imsi cs ps db = (db, - EIO)
      else snd (db_subscr_create L E imsi cs ps db) = 0 \<and>
        subscribers (fst (db_subscr_create L E imsi cs ps db)) =
          (subscribers db)(imsi \<mapsto> new_subscriber (new_rowid (tbl_subscriber db)) imsi cs ps)) \<and>
    subscribers (fst (db_subscr_nam E imsi val is_ps db)) =
      amend imsi (if is_ps then row_nam_ps_update (\<lambda>_. val) else row_nam_cs_update (\<lambda>_. val)) (subscribers db) \<and>
    snd (db_subscr_nam E imsi val is_ps db) = (if subscribers db imsi = None then - ENOENT else 0) \<and>
    subscribers (fst (db_subscr_purge E imsi val is_ps db)) =
      amend imsi (if is_ps then row_ms_purged_ps_update (\<lambda>_. val) else row_ms_purged_cs_update (\<lambda>_. val))
        (subscribers db) \<and>
    snd (db_subscr_purge E imsi val is_ps db) = (if subscribers db imsi = None then - ENOENT else 0) \<and>
    (osmo_imei_str_valid L imei False \<longrightarrow>
      subscribers (fst (db_subscr_update_imei_by_imsi L E imsi (Some imei) db)) =
        amend imsi (row_imei_update (\<lambda>_. Some imei)) (subscribers db) \<and>
      snd (db_subscr_update_imei_by_imsi L E imsi (Some imei) db) =
        (if subscribers db imsi = None then - ENOENT else 0))"
proof -
  note u = update_by_imsi [OF assms]
  have create: "if \<not> osmo_imsi_str_valid L imsi then db_subscr_create L E imsi cs ps db = (db, - EINVAL)
      else if subscribers db imsi \<noteq> None then db_subscr_create L E imsi cs ps db = (db, - EIO)
      else snd (db_subscr_create L E imsi cs ps db) = 0 \<and>
        subscribers (fst (db_subscr_create L E imsi cs ps db)) =
          (subscribers db)(imsi \<mapsto> new_subscriber (new_rowid (tbl_subscriber db)) imsi cs ps)"
    using create_spec [OF assms(2), where L = L and imsi = imsi and cs = cs and ps = ps and db = db] create_invalid [of L imsi E cs ps db] by auto
  have purge: "subscribers (fst (db_subscr_purge E imsi val is_ps db)) =
      amend imsi (if is_ps then row_ms_purged_ps_update (\<lambda>_. val) else row_ms_purged_cs_update (\<lambda>_. val))
        (subscribers db) \<and>
    snd (db_subscr_purge E imsi val is_ps db) = (if subscribers db imsi = None then - ENOENT else 0)"
    using assms(2) u(1) [of "row_ms_purged_ps_update (\<lambda>_. val)"] u(2) [of "row_ms_purged_ps_update (\<lambda>_. val)"]
      u(1) [of "row_ms_purged_cs_update (\<lambda>_. val)"] u(2) [of "row_ms_purged_cs_update (\<lambda>_. val)"]
    by (simp add: db_subscr_purge_def Let_def sql_upd_purge_ps_by_imsi_def sql_upd_purge_cs_by_imsi_def)
  from create nam_spec [OF assms, of imsi val is_ps] purge imei_spec [OF assms, of L imei imsi] show ?thesis by blast
qed

theorem db_subscribers_refine_map_witness:
  "snd (db_subscr_create ref_core ref_env ''262420000000001'' True False db_empty) = 0"
proof -
  have v: "osmo_imsi_str_valid ref_core ''262420000000001''"
    by (simp add: ref_core_def is_digit_def octet_val_def)
  have n: "subscribers db_empty ''262420000000001'' = None" by (simp add: subscribers_def db_empty_def)
  show ?thesis
    using db_subscribers_refine_map [OF db_empty_wf ref_env_ok, of ref_core "''262420000000001''" True False] v n
    by simp
qed

lemma amend_amend: "amend imsi f (amend imsi g m) = amend imsi (f \<circ> g) m"
  by (auto simp: amend_def fun_eq_iff option.map_comp)

definition lu_row :: "sqlite_env \<Rightarrow> bool \<Rightarrow> string \<Rightarrow> string option \<Rightarrow> int \<Rightarrow> subscriber_row \<Rightarrow> subscriber_row" where
  \<comment> \<open>what a location update records\<close>
  "lu_row E is_ps number proxy now r =
     (if is_ps then r\<lparr>row_sgsn_number := Some number, row_sgsn_via_proxy := proxy,
                      row_last_lu_seen_ps := Some (sql_datetime E now)\<rparr>
      else r\<lparr>row_vlr_number := Some number, row_vlr_via_proxy := proxy,
             row_last_lu_seen := Some (sql_datetime E now)\<rparr>)"

definition proxy_text :: "osmo_ipa_name option \<Rightarrow> string option" where
  "proxy_text p = (case p of Some n \<Rightarrow> if ipa_len n \<noteq> 0 then Some (cstr (ipa_val n)) else None | None \<Rightarrow> None)"

lemma lu_spec:
  assumes "db_wf db" and "env_ok E" and "clock_gettime E = Inr now" and "subscribers db imsi = Some r"
  shows "snd (db_subscr_lu E (row_id r) n is_ps p db) = 0"
    and "subscribers (fst (db_subscr_lu E (row_id r) n is_ps p db)) =
      amend imsi (lu_row E is_ps (cstr (ipa_val n)) (proxy_text p) now) (subscribers db)"
proof -
  define f :: "subscriber_row \<Rightarrow> subscriber_row" where "f = (\<lambda>r. if is_ps then r\<lparr>row_sgsn_number := Some (cstr (ipa_val n)), row_sgsn_via_proxy := proxy_text p\<rparr>
    else r\<lparr>row_vlr_number := Some (cstr (ipa_val n)), row_vlr_via_proxy := proxy_text p\<rparr>)"
  define g :: "subscriber_row \<Rightarrow> subscriber_row" where "g = (\<lambda>r. if is_ps then r\<lparr>row_last_lu_seen_ps := Some (sql_datetime E now)\<rparr>
    else r\<lparr>row_last_lu_seen := Some (sql_datetime E now)\<rparr>)"
  let ?st = "if is_ps then DB_STMT_UPD_SGSN_BY_ID else DB_STMT_UPD_VLR_BY_ID"
  let ?st2 = "if is_ps then DB_STMT_SET_LAST_LU_SEEN_PS else DB_STMT_SET_LAST_LU_SEEN"
  let ?u = "\<lambda>st f db. subscriber_step (step_change E st (sql_update (\<lambda>x. row_id x = row_id r) f) (tbl_subscriber db)) db"
  let ?d = "fst (?u ?st f db)"
  have keep: "row_imsi (f x) = row_imsi x" "row_imsi (g x) = row_imsi x" "row_id (f x) = row_id x"
    "row_msisdn (f x) = row_msisdn x" for x by (simp_all add: f_def g_def)
  note u1 = update_by_id [OF assms(1,2) keep(1) assms(4), of ?st]
  have wf: "db_wf ?d" using assms(1) keep by (intro wf_update) simp_all
  have sub: "subscribers ?d imsi = Some (f r)" using u1(2) assms(4) by (simp add: amend_def)
  note u2 = update_by_id [OF wf assms(2) keep(2) sub, of ?st2]
  have "db_subscr_lu E (row_id r) n is_ps p db = ?u ?st2 g ?d"
  proof (cases is_ps)
    case True
    then have "db_subscr_lu E (row_id r) n is_ps p db = (case ?u ?st f db of (d, ret) \<Rightarrow> if ret \<noteq> 0 then (d, ret) else ?u ?st2 g d)"
      using assms(2,3) by (simp add: db_subscr_lu_def Let_def f_def g_def sql_upd_sgsn_by_id_def
          sql_set_last_lu_seen_ps_def proxy_text_def prod.case_eq_if)
    then show ?thesis using u1(1) by (simp add: prod.case_eq_if)
  next
    case False
    then have "db_subscr_lu E (row_id r) n is_ps p db = (case ?u ?st f db of (d, ret) \<Rightarrow> if ret \<noteq> 0 then (d, ret) else ?u ?st2 g d)"
      using assms(2,3) by (simp add: db_subscr_lu_def Let_def f_def g_def sql_upd_vlr_by_id_def
          sql_set_last_lu_seen_def proxy_text_def prod.case_eq_if)
    then show ?thesis using u1(1) by (simp add: prod.case_eq_if)
  qed
  moreover have "g \<circ> f = lu_row E is_ps (cstr (ipa_val n)) (proxy_text p) now"
    by (simp add: fun_eq_iff f_def g_def lu_row_def)
  ultimately show "snd (db_subscr_lu E (row_id r) n is_ps p db) = 0"
    "subscribers (fst (db_subscr_lu E (row_id r) n is_ps p db)) =
      amend imsi (lu_row E is_ps (cstr (ipa_val n)) (proxy_text p) now) (subscribers db)"
    using u1 u2 keep by (simp_all add: amend_amend)
qed

text \<open>
  C11. Recording a location update, in a database that satisfies the constraints of its schema, while SQLite does not fail and the clock can be
  read, succeeds. It stores the name of the VLR (circuit switched) or SGSN (packet switched), the proxy it came through (nothing when there is
  none or its name is empty) and the time in the columns of that domain, for exactly that subscriber: its columns of the other domain
  and every other subscriber are unchanged. Reading the subscriber by IMSI afterwards returns
  that name, up to the 31 characters the structure can hold.
\<close>
theorem db_subscr_lu_recorded:
  assumes "db_wf db" and "env_ok E" and "clock_gettime E = Inr now" and "subscribers db imsi = Some r"
  shows "snd (db_subscr_lu E (row_id r) vlr is_ps proxy db) = 0 \<and>
    subscribers (fst (db_subscr_lu E (row_id r) vlr is_ps proxy db)) =
      (subscribers db)(imsi \<mapsto> lu_row E is_ps (cstr (ipa_val vlr)) (proxy_text proxy) now r) \<and>
    (\<exists>s. db_subscr_get_by_imsi E imsi (fst (db_subscr_lu E (row_id r) vlr is_ps proxy db)) = Inr s \<and>
       (if is_ps then sub_sgsn_number s else sub_vlr_number s) = take 31 (cstr (ipa_val vlr)))"
proof -
  have "amend imsi f (subscribers db) = (subscribers db)(imsi \<mapsto> f r)" for f
    using assms(4) by (auto simp: amend_def fun_eq_iff)
  then have upd: "subscribers (fst (db_subscr_lu E (row_id r) vlr is_ps proxy db)) =
      (subscribers db)(imsi \<mapsto> lu_row E is_ps (cstr (ipa_val vlr)) (proxy_text proxy) now r)"
    using lu_spec(2) [OF assms, where n = vlr and is_ps = is_ps and p = proxy] by simp
  then show ?thesis
    using lu_spec(1) [OF assms, where n = vlr and is_ps = is_ps and p = proxy] assms(2)
    by (simp add: get_by_imsi_ok row_to_subscriber_def lu_row_def copy_text_def strlcpy_def)
qed

definition db_one :: hlr_db where
  \<comment> \<open>one subscriber with 2G and 3G keys\<close>
  "db_one = \<lparr>tbl_subscriber = [(new_subscriber 1 ''262420000000001'' True True)\<lparr>row_msisdn := Some ''1001''\<rparr>],
     tbl_auc_2g = [\<lparr>a2_subscriber_id = 1, a2_algo_id = 1, a2_ki = replicate 32 CHR ''1''\<rparr>],
     tbl_auc_3g = [\<lparr>a3_subscriber_id = 1, a3_algo_id = 5, a3_k = replicate 32 CHR ''2'', a3_op = None,
       a3_opc = Some (replicate 32 CHR ''3''), a3_sqn = 64, a3_ind_bitlen = 5\<rparr>]\<rparr>"

lemma db_one_facts:
  "db_wf db_one" "subscribers db_one ''262420000000001'' =
     Some ((new_subscriber 1 ''262420000000001'' True True)\<lparr>row_msisdn := Some ''1001''\<rparr>)"
  by (simp_all add: db_wf_def db_one_def msisdn_unique_def subscribers_def new_subscriber_def)

theorem db_subscr_lu_recorded_witness:
  "\<exists>s. db_subscr_get_by_imsi ref_env ''262420000000001''
     (fst (db_subscr_lu ref_env 1 \<lparr>ipa_len = 4, ipa_val = ''MSC'' @ [NUL]\<rparr> False None db_one)) = Inr s \<and>
     sub_vlr_number s = ''MSC''"
  using db_subscr_lu_recorded [OF db_one_facts(1) ref_env_ok _ db_one_facts(2), of 1000
      "\<lparr>ipa_len = 4, ipa_val = ''MSC'' @ [NUL]\<rparr>" False None]
  by (simp add: ref_env_def new_subscriber_def cstr_def)

text \<open>
  Deleting a subscriber removes its row and all of its authentication data and nothing else;
  the result is 0 when anything of it was there, and ENOENT when there was neither a
  subscriber nor authentication data with that id.
\<close>
theorem db_subscr_delete_complete:
  assumes "db_wf db" and "env_ok E"
  shows "fst (db_subscr_delete_by_id L E sid db) =
      \<lparr>tbl_subscriber = filter (\<lambda>r. row_id r \<noteq> sid) (tbl_subscriber db),
       tbl_auc_2g = filter (\<lambda>a. a2_subscriber_id a \<noteq> sid) (tbl_auc_2g db),
       tbl_auc_3g = filter (\<lambda>a. a3_subscriber_id a \<noteq> sid) (tbl_auc_3g db)\<rparr> \<and>
    snd (db_subscr_delete_by_id L E sid db) =
      (if sid \<in> row_id ` set (tbl_subscriber db) \<or> sid \<in> a2_subscriber_id ` set (tbl_auc_2g db) \<or>
          sid \<in> a3_subscriber_id ` set (tbl_auc_3g db) then 0 else - ENOENT)"
proof -
  let ?d1 = "db\<lparr>tbl_subscriber := filter (\<lambda>r. row_id r \<noteq> sid) (tbl_subscriber db)\<rparr>"
  let ?d2 = "?d1\<lparr>tbl_auc_2g := filter (\<lambda>a. a2_subscriber_id a \<noteq> sid) (tbl_auc_2g db)\<rparr>"
  have c: "length (filter (\<lambda>r. row_id r = sid) (tbl_subscriber db)) = (if sid \<in> row_id ` set (tbl_subscriber db) then 1 else 0)"
    using assms(1) by (intro update_count [of row_id]) (simp_all add: db_wf_def)
  have wf1: "db_wf ?d1" using assms(1) by (rule wf_delete_rows)
  have wf2: "db_wf ?d2" using wf_delete_rows(2) [OF wf1] by simp
  note a1 = delete_aud_none [OF wf1 assms(2), of 1 L sid] and a2 = delete_aud_none [OF wf2 assms(2), of 2 L sid]
  show ?thesis
    using assms(2) c a1 a2
    by (simp add: db_subscr_delete_by_id_def sql_del_by_id_def sql_delete_def Let_def changes_rc_def)
qed

theorem db_subscr_delete_complete_witness:
  "db_subscr_delete_by_id ref_core ref_env 1 db_one = (db_empty, 0)"
  using db_subscr_delete_complete [OF db_one_facts(1) ref_env_ok, of ref_core 1]
  by (intro prod_eqI) (simp_all add: db_one_def db_empty_def new_subscriber_def)

end
