(* ===== verification/Hlr_State.thy ===== *)
theory Hlr_State
  imports Gsup_Server Db_Hlr
begin

text \<open>
  The part of the HLR context that every handler of GSUP messages works on: the GSUP server and
  the database (\<open>struct hlr\<close> of \<open>hlr.h\<close>). The later components extend this record
  by their own state, so a handler is a function on any extension of it. The library of finite
  state machines of libosmocore is the parameter \<open>fsm_lib\<close>: whether an event is accepted for a
  mask of events, and whether a change of state is permitted by a mask of states.
\<close>

record hlr_core =
  gs :: osmo_gsup_server
  dbc :: hlr_db

record fsm_lib =
  osmo_fsm_event_accepted :: "nat \<Rightarrow> nat \<Rightarrow> bool"
  osmo_fsm_state_permitted :: "nat \<Rightarrow> nat \<Rightarrow> bool"

definition fsm_ok :: "fsm_lib \<Rightarrow> bool" where
  \<comment> \<open>a mask has one bit per event or state\<close>
  "fsm_ok F \<longleftrightarrow>
     (\<forall>m n. osmo_fsm_event_accepted F m n = bit m n) \<and> (\<forall>m n. osmo_fsm_state_permitted F m n = bit m n)"

definition ref_fsm :: fsm_lib where
  "ref_fsm = \<lparr>osmo_fsm_event_accepted = bit, osmo_fsm_state_permitted = bit\<rparr>"

lemma ref_fsm_ok: "fsm_ok ref_fsm"
  by (simp add: fsm_ok_def ref_fsm_def)

section \<open>Responding to requests\<close>

definition hlr_cb :: "gsup_lib \<Rightarrow> send_cb" where
  \<comment> \<open>the callback of every request received on the server\<close>
  "hlr_cb G = gsup_server_send_req_response G"

definition respond ::
  "gsup_lib \<Rightarrow> osmo_gsup_req \<Rightarrow> osmo_gsup_message \<Rightarrow> bool \<Rightarrow> bool \<Rightarrow> 'a hlr_core_scheme
     \<Rightarrow> 'a hlr_core_scheme \<times> int" where
  "respond G req m error final s =
     (case osmo_gsup_req_respond G (hlr_cb G) req m error final (gs s) of (g, rc) \<Rightarrow> (s\<lparr>gs := g\<rparr>, rc))"

definition respond_msgt ::
  "gsup_lib \<Rightarrow> osmo_gsup_req \<Rightarrow> gsup_msgt \<Rightarrow> bool \<Rightarrow> 'a hlr_core_scheme \<Rightarrow> 'a hlr_core_scheme" where
  "respond_msgt G req ty final s = s\<lparr>gs := fst (osmo_gsup_req_respond_msgt G (hlr_cb G) req ty final (gs s))\<rparr>"

definition respond_err ::
  "gsup_lib \<Rightarrow> osmo_gsup_req \<Rightarrow> gmm_cause \<Rightarrow> 'a hlr_core_scheme \<Rightarrow> 'a hlr_core_scheme" where
  "respond_err G req cause s = s\<lparr>gs := osmo_gsup_req_respond_err G (hlr_cb G) req cause (gs s)\<rparr>"

definition req_free :: "osmo_gsup_req \<Rightarrow> 'a hlr_core_scheme \<Rightarrow> 'a hlr_core_scheme" where
  "req_free req s = s\<lparr>gs := osmo_gsup_req_free req (gs s)\<rparr>"

lemmas respond_defs = respond_def respond_msgt_def respond_err_def req_free_def

interpretation hcb: response_sender "hlr_cb G" for G
  unfolding hlr_cb_def by (rule gsup_cb.response_sender_axioms)

named_theorems freed_simps \<open>how often a request is deallocated after each operation\<close>

lemma hlr_respond_freed [freed_simps]:
  "freed nr (gs (fst (respond G req m e final s))) = freed nr (gs s) + (if final \<and> nr = req_nr req then 1 else 0)"
  "freed nr (gs (respond_msgt G req ty final s)) = freed nr (gs s) + (if final \<and> nr = req_nr req then 1 else 0)"
  "freed nr (gs (respond_err G req cause s)) = freed nr (gs s) + (if nr = req_nr req then 1 else 0)"
  "freed nr (gs (req_free req s)) = freed nr (gs s) + (if nr = req_nr req then 1 else 0)"
  by (simp_all add: respond_defs hcb.respond_freed [simplified] hcb.respond_msgt_freed hcb.respond_err_freed
      hcb.freed_free prod.case_eq_if)

lemma respond_dbc [simp]:
  "dbc (fst (respond G req m e final s)) = dbc s" "dbc (respond_msgt G req ty final s) = dbc s"
  "dbc (respond_err G req cause s) = dbc s" "dbc (req_free req s) = dbc s"
  "hlr_core.more (fst (respond G req m e final s)) = hlr_core.more s"
  "hlr_core.more (respond_msgt G req ty final s) = hlr_core.more s"
  "hlr_core.more (respond_err G req cause s) = hlr_core.more s"
  "hlr_core.more (req_free req s) = hlr_core.more s"
  by (simp_all add: respond_defs prod.case_eq_if)

lemma respond_nr [simp]:
  "next_req_nr (gs (fst (respond G req m e final s))) = next_req_nr (gs s)"
  "next_req_nr (gs (respond_msgt G req ty final s)) = next_req_nr (gs s)"
  "next_req_nr (gs (respond_err G req cause s)) = next_req_nr (gs s)"
  "next_req_nr (gs (req_free req s)) = next_req_nr (gs s)"
  by (simp_all add: respond_defs hcb.respond_fields hcb.respond_msgt_fields hcb.respond_err_fields
      osmo_gsup_req_free_def prod.case_eq_if)

section \<open>Who owns a request\<close>

text \<open>
  A component that keeps requests beyond the handling of one message names the requests it holds by a
  function \<open>held\<close> on the state. A request is owned when it is held and not deallocated, or
  not held and deallocated exactly once. \<open>effect\<close> describes a step by the set of requests it
  deallocates and the set it starts to hold.
\<close>

definition owned :: "('a hlr_core_scheme \<Rightarrow> nat set) \<Rightarrow> nat \<Rightarrow> 'a hlr_core_scheme \<Rightarrow> bool" where
  "owned held nr s \<longleftrightarrow> freed nr (gs s) = (if nr \<in> held s then 0 else 1)"

definition effect ::
  "('a hlr_core_scheme \<Rightarrow> nat set) \<Rightarrow> nat set \<Rightarrow> nat set \<Rightarrow> 'a hlr_core_scheme \<Rightarrow> 'a hlr_core_scheme \<Rightarrow> bool" where
  "effect held A B s s' \<longleftrightarrow>
     (\<forall>nr. freed nr (gs s') = freed nr (gs s) + (if nr \<in> A then 1 else 0)) \<and> held s' = (held s \<union> B) - A \<and>
     next_req_nr (gs s') = next_req_nr (gs s)"

lemma effect_owned:
  assumes "effect held A B s s'" and "A \<subseteq> insert r (held s)" and "B \<subseteq> {r}"
  shows "owned held nr s \<Longrightarrow> nr \<noteq> r \<Longrightarrow> owned held nr s'"
    and "freed r (gs s) = 0 \<Longrightarrow> r \<in> A \<union> B \<Longrightarrow> owned held r s'"
  using assms by (auto simp: effect_def owned_def)

lemma owned_fresh: "owned held nr s \<Longrightarrow> r \<notin> held s \<Longrightarrow> freed r (gs s) = 0 \<Longrightarrow> nr \<noteq> r"
  by (auto simp: owned_def)

text \<open>The contract of such a component: its steps keep an invariant and leave no request unowned.\<close>

locale request_owner =
  fixes inv :: "'a hlr_core_scheme \<Rightarrow> bool"
    and held :: "'a hlr_core_scheme \<Rightarrow> nat set"
    and step :: "'a hlr_core_scheme \<Rightarrow> 'a hlr_core_scheme \<Rightarrow> bool"
  assumes step_inv: "inv s \<Longrightarrow> step s s' \<Longrightarrow> inv s'"
    and step_owned: "inv s \<Longrightarrow> step s s' \<Longrightarrow> owned held nr s \<Longrightarrow> owned held nr s'"
begin

lemma steps_inv: "step\<^sup>*\<^sup>* s s' \<Longrightarrow> inv s \<Longrightarrow> inv s'"
  by (induction rule: rtranclp_induct) (auto intro: step_inv)

lemma steps_owned: "step\<^sup>*\<^sup>* s s' \<Longrightarrow> inv s \<Longrightarrow> owned held nr s \<Longrightarrow> inv s' \<and> owned held nr s'"
  by (induction rule: rtranclp_induct) (auto intro: step_inv step_owned)

lemma never_freed_twice: "step\<^sup>*\<^sup>* s s' \<Longrightarrow> inv s \<Longrightarrow> owned held nr s \<Longrightarrow> freed nr (gs s') \<le> 1"
  using steps_owned [of s s' nr] by (auto simp: owned_def split: if_splits)

end

end
