(* ===== verification/Lu_Fsm.thy ===== *)
theory Lu_Fsm
  imports Hlr_State
begin

text \<open>
  The state machine of a location update: \<open>src/lu_fsm.c\<close>. A location update is identified by
  \<open>lu_id\<close>, which stands for the pointer: it is the number of the request that
  started it. \<open>g_all_lu\<close> is the list of the location updates in progress. Where the code would hit an
  assertion the functions return None.
\<close>

section \<open>Data\<close>

datatype lu_fsm_state =
    LU_ST_UNVALIDATED
  | LU_ST_WAIT_INSERT_DATA_RESULT
  | LU_ST_WAIT_LOCATION_CANCEL_RESULT

definition state_nr :: "lu_fsm_state \<Rightarrow> nat" where
  "state_nr st = (case st of LU_ST_UNVALIDATED \<Rightarrow> 0 | LU_ST_WAIT_INSERT_DATA_RESULT \<Rightarrow> 1
     | LU_ST_WAIT_LOCATION_CANCEL_RESULT \<Rightarrow> 2)"

abbreviation (input) LU_EV_RX_GSUP :: nat where "LU_EV_RX_GSUP \<equiv> 0"

definition lu_fsm_states :: "lu_fsm_state \<Rightarrow> nat \<times> nat" where
  \<comment> \<open>the masks of the events a state accepts and of the states it can change to\<close>
  "lu_fsm_states st = (case st of
     LU_ST_UNVALIDATED \<Rightarrow> (0, push_bit (state_nr LU_ST_WAIT_INSERT_DATA_RESULT) 1)
   | LU_ST_WAIT_INSERT_DATA_RESULT \<Rightarrow> (push_bit LU_EV_RX_GSUP 1, 0)
   | LU_ST_WAIT_LOCATION_CANCEL_RESULT \<Rightarrow> (0, 0))"

record lu =
  lu_id :: nat
  lu_state :: lu_fsm_state
  update_location_req :: "osmo_gsup_req option"
  lu_subscr :: "hlr_subscriber option"
  lu_is_ps :: bool
  lu_vlr_name :: osmo_cni_peer_id
  lu_via_proxy :: osmo_cni_peer_id

record lu_world = hlr_core +
  g_all_lu :: "lu list"

definition lu_store :: "lu \<Rightarrow> 'a lu_world_scheme \<Rightarrow> 'a lu_world_scheme" where
  \<comment> \<open>a write through the pointer to a location update\<close>
  "lu_store lu s = s\<lparr>g_all_lu := map (\<lambda>x. if lu_id x = lu_id lu then lu else x) (g_all_lu s)\<rparr>"

section \<open>Operations\<close>

definition lu_fsm_cleanup :: "gsup_lib \<Rightarrow> lu \<Rightarrow> 'a lu_world_scheme \<Rightarrow> 'a lu_world_scheme" where
  "lu_fsm_cleanup G lu s =
     (let s = (case update_location_req lu of None \<Rightarrow> s | Some req \<Rightarrow> respond_err G req GSM_CAUSE_NET_FAIL s)
      in s\<lparr>g_all_lu := filter (\<lambda>x. lu_id x \<noteq> lu_id lu) (g_all_lu s)\<rparr>)"

definition lu_success :: "gsup_lib \<Rightarrow> lu \<Rightarrow> 'a lu_world_scheme \<Rightarrow> 'a lu_world_scheme" where
  "lu_success G lu s =
     (let s = (case update_location_req lu of
                 None \<Rightarrow> s
               | Some req \<Rightarrow> respond_msgt G req OSMO_GSUP_MSGT_UPDATE_LOCATION_RESULT True s)
      in lu_fsm_cleanup G (lu\<lparr>update_location_req := None\<rparr>) s)"

definition lu_failure :: "gsup_lib \<Rightarrow> lu \<Rightarrow> gmm_cause \<Rightarrow> 'a lu_world_scheme \<Rightarrow> 'a lu_world_scheme" where
  "lu_failure G lu cause s =
     (let s = (case update_location_req lu of None \<Rightarrow> s | Some req \<Rightarrow> respond_err G req cause s)
      in lu_fsm_cleanup G (lu\<lparr>update_location_req := None\<rparr>) s)"

definition lu_fsm_wait_insert_data_result_onenter ::
  "gsup_lib \<Rightarrow> lu \<Rightarrow> 'a lu_world_scheme \<Rightarrow> 'a lu_world_scheme option" where
  \<comment> \<open>the state is entered after the subscriber has been read and before the request is concluded\<close>
  "lu_fsm_wait_insert_data_result_onenter G lu s =
     (case (lu_subscr lu, update_location_req lu) of
        (Some subscr, Some req) \<Rightarrow>
          (case osmo_gsup_create_insert_subscriber_data_msg G (sub_imsi subscr) (sub_msisdn subscr)
                  OSMO_GSUP_MAX_CALLED_PARTY_BCD_LEN (apn_maxlen G)
                  (if lu_is_ps lu then OSMO_GSUP_CN_DOMAIN_PS else OSMO_GSUP_CN_DOMAIN_CS) of
             None \<Rightarrow> None
           | Some (gsup, rc) \<Rightarrow>
               if rc \<noteq> 0 then Some (lu_failure G lu GMM_CAUSE_NET_FAIL s)
               else (case respond G req gsup False False s of
                       (s, rc) \<Rightarrow> if rc \<noteq> 0 then Some (lu_failure G lu GMM_CAUSE_NET_FAIL s) else Some s))
      | _ \<Rightarrow> None)"

definition lu_state_chg ::
  "fsm_lib \<Rightarrow> gsup_lib \<Rightarrow> lu \<Rightarrow> lu_fsm_state \<Rightarrow> 'a lu_world_scheme \<Rightarrow> 'a lu_world_scheme option" where
  "lu_state_chg F G lu st s =
     (if \<not> osmo_fsm_state_permitted F (snd (lu_fsm_states (lu_state lu))) (state_nr st) then Some s
      else
        let lu = lu\<lparr>lu_state := st\<rparr>; s = lu_store lu s
        in case st of
             LU_ST_WAIT_INSERT_DATA_RESULT \<Rightarrow> lu_fsm_wait_insert_data_result_onenter G lu s
           | _ \<Rightarrow> Some s)"

definition lu_start ::
  "fsm_lib \<Rightarrow> gsup_lib \<Rightarrow> sqlite_env \<Rightarrow> osmo_gsup_req \<Rightarrow> 'a lu_world_scheme \<Rightarrow> 'a lu_world_scheme option" where
  "lu_start F G E req s =
     (if message_type (req_gsup req) \<noteq> OSMO_GSUP_MSGT_UPDATE_LOCATION_REQUEST then None
      else
        let imsi = g_imsi (req_gsup req);
            lu = \<lparr>lu_id = req_nr req, lu_state = LU_ST_UNVALIDATED, update_location_req = Some req,
                  lu_subscr = None, lu_is_ps = (g_cn_domain (req_gsup req) \<noteq> OSMO_GSUP_CN_DOMAIN_CS),
                  lu_vlr_name = req_source_name req, lu_via_proxy = req_via_proxy req\<rparr>;
            s = s\<lparr>g_all_lu := lu # g_all_lu s\<rparr>
        in if osmo_cni_peer_id_is_empty (Some (lu_vlr_name lu)) then Some (lu_failure G lu GMM_CAUSE_NET_FAIL s)
           else (case db_subscr_get_by_imsi E imsi (dbc s) of
             Inl _ \<Rightarrow> Some (lu_failure G lu GMM_CAUSE_IMSI_UNKNOWN s)
           | Inr subscr \<Rightarrow>
             let lu = lu\<lparr>lu_subscr := Some subscr\<rparr>; s = lu_store lu s
             in if \<not> lu_is_ps lu \<and> \<not> sub_nam_cs subscr then Some (lu_failure G lu GMM_CAUSE_PLMN_NOTALLOWED s)
                else if lu_is_ps lu \<and> \<not> sub_nam_ps subscr then Some (lu_failure G lu GMM_CAUSE_GPRS_NOTALLOWED s)
                else if osmo_cni_peer_id_is_empty (Some (lu_vlr_name lu)) \<or>
                        peer_type (lu_vlr_name lu) \<noteq> OSMO_CNI_PEER_ID_IPA_NAME
                then Some (lu_failure G lu GMM_CAUSE_PROTO_ERR_UNSPEC s)
                else if \<not> osmo_cni_peer_id_is_empty (Some (lu_via_proxy lu)) \<and>
                        peer_type (lu_via_proxy lu) \<noteq> OSMO_CNI_PEER_ID_IPA_NAME
                then Some (lu_failure G lu GMM_CAUSE_PROTO_ERR_UNSPEC s)
                else (case db_subscr_lu E (sub_id subscr) (peer_ipa_name (lu_vlr_name lu)) (lu_is_ps lu)
                        (if osmo_cni_peer_id_is_empty (Some (lu_via_proxy lu)) then None
                         else Some (peer_ipa_name (lu_via_proxy lu))) (dbc s) of
                        (db, rc) \<Rightarrow>
                          let s = s\<lparr>dbc := db\<rparr>
                          in if rc \<noteq> 0 then Some (lu_failure G lu GMM_CAUSE_NET_FAIL s)
                             else lu_state_chg F G lu LU_ST_WAIT_INSERT_DATA_RESULT s)))"

definition lu_fsm_wait_insert_data_result ::
  "gsup_lib \<Rightarrow> lu \<Rightarrow> osmo_gsup_req \<Rightarrow> 'a lu_world_scheme \<Rightarrow> 'a lu_world_scheme" where
  \<comment> \<open>for the event \<open>LU_EV_RX_GSUP\<close>, the only one there is\<close>
  "lu_fsm_wait_insert_data_result G lu req s =
     (case message_type (req_gsup req) of
        OSMO_GSUP_MSGT_INSERT_DATA_RESULT \<Rightarrow> lu_success G lu (req_free req s)
      | OSMO_GSUP_MSGT_INSERT_DATA_ERROR \<Rightarrow> lu_failure G lu GMM_CAUSE_NET_FAIL s
      | _ \<Rightarrow> respond_err G req GMM_CAUSE_MSGT_INCOMP_P_STATE s)"

definition lu_fsm_dispatch ::
  "fsm_lib \<Rightarrow> gsup_lib \<Rightarrow> lu \<Rightarrow> osmo_gsup_req \<Rightarrow> 'a lu_world_scheme \<Rightarrow> 'a lu_world_scheme \<times> bool" where
  \<comment> \<open>\<open>osmo_fsm_inst_dispatch\<close> on the table of states; False: the event is not accepted\<close>
  "lu_fsm_dispatch F G lu req s =
     (if \<not> osmo_fsm_event_accepted F (fst (lu_fsm_states (lu_state lu))) LU_EV_RX_GSUP then (s, False)
      else (case lu_state lu of
              LU_ST_WAIT_INSERT_DATA_RESULT \<Rightarrow> (lu_fsm_wait_insert_data_result G lu req s, True)
            | _ \<Rightarrow> (s, True)))"

definition lu_rx_gsup ::
  "fsm_lib \<Rightarrow> gsup_lib \<Rightarrow> sqlite_env \<Rightarrow> osmo_gsup_req \<Rightarrow> 'a lu_world_scheme \<Rightarrow> 'a lu_world_scheme option" where
  "lu_rx_gsup F G E req s =
     (if message_type (req_gsup req) = OSMO_GSUP_MSGT_UPDATE_LOCATION_REQUEST then lu_start F G E req s
      else (case List.find (\<lambda>lu. (case lu_subscr lu of None \<Rightarrow> [] | Some sub \<Rightarrow> sub_imsi sub) = g_imsi (req_gsup req))
                   (g_all_lu s) of
              None \<Rightarrow> Some (respond_err G req GMM_CAUSE_MSGT_INCOMP_P_STATE s)
            | Some lu \<Rightarrow>
                (case lu_fsm_dispatch F G lu req s of
                   (s, accepted) \<Rightarrow>
                     Some (if accepted then s else respond_err G req GMM_CAUSE_MSGT_INCOMP_P_STATE s))))"

definition lu_fsm_timer_cb :: "gsup_lib \<Rightarrow> lu \<Rightarrow> 'a lu_world_scheme \<Rightarrow> 'a lu_world_scheme" where
  "lu_fsm_timer_cb G lu s = lu_failure G lu GSM_CAUSE_NET_FAIL s"

section \<open>Who owns a request\<close>

lemma respond_lu [simp]:
  "g_all_lu (fst (respond G req m e final s)) = g_all_lu s" "g_all_lu (respond_msgt G req ty final s) = g_all_lu s"
  "g_all_lu (respond_err G req cause s) = g_all_lu s" "g_all_lu (req_free req s) = g_all_lu s"
  "lu_world.more (fst (respond G req m e final s)) = lu_world.more s" "lu_world.more (respond_msgt G req ty final s) = lu_world.more s"
  "lu_world.more (respond_err G req cause s) = lu_world.more s" "lu_world.more (req_free req s) = lu_world.more s"
  by (simp_all add: respond_defs prod.case_eq_if)

lemma lu_end_facts [simp]:
  "g_all_lu (lu_failure G lu c s) = filter (\<lambda>x. lu_id x \<noteq> lu_id lu) (g_all_lu s)"
  "g_all_lu (lu_success G lu s) = filter (\<lambda>x. lu_id x \<noteq> lu_id lu) (g_all_lu s)"
  "dbc (lu_failure G lu c s) = dbc s" "dbc (lu_success G lu s) = dbc s"
  "lu_world.more (lu_failure G lu c s) = lu_world.more s" "lu_world.more (lu_success G lu s) = lu_world.more s"
  "next_req_nr (gs (lu_failure G lu c s)) = next_req_nr (gs s)" "next_req_nr (gs (lu_success G lu s)) = next_req_nr (gs s)"
  by (simp_all add: lu_failure_def lu_success_def lu_fsm_cleanup_def Let_def split: option.splits)

lemma lu_end_freed [freed_simps]:
  "update_location_req lu = Some req \<Longrightarrow>
     freed nr (gs (lu_failure G lu c s)) = freed nr (gs s) + (if nr = req_nr req then 1 else 0)"
  "update_location_req lu = Some req \<Longrightarrow>
     freed nr (gs (lu_success G lu s)) = freed nr (gs s) + (if nr = req_nr req then 1 else 0)"
  by (simp_all add: lu_failure_def lu_success_def lu_fsm_cleanup_def Let_def freed_simps)

definition lu_ok :: "lu \<Rightarrow> bool" where
  \<comment> \<open>a location update between two events waits for the VLR and holds its request\<close>
  "lu_ok lu \<longleftrightarrow> lu_state lu = LU_ST_WAIT_INSERT_DATA_RESULT \<and> lu_subscr lu \<noteq> None \<and>
     (\<exists>req. update_location_req lu = Some req \<and> req_nr req = lu_id lu)"

definition lu_inv :: "'a lu_world_scheme \<Rightarrow> bool" where
  "lu_inv s \<longleftrightarrow> distinct (map lu_id (g_all_lu s)) \<and> (\<forall>lu \<in> set (g_all_lu s). lu_ok lu)"

definition concluded :: "gsup_lib \<Rightarrow> osmo_gsup_req \<Rightarrow> 'a lu_world_scheme \<Rightarrow> 'a lu_world_scheme \<Rightarrow> bool" where
  \<comment> \<open>the last thing that happened is an error in answer to the request, which deallocated it\<close>
  "concluded G req s s' \<longleftrightarrow> (\<exists>cause g. gs s' = osmo_gsup_req_respond_err G (hlr_cb G) req cause g) \<and> next_req_nr (gs s') = next_req_nr (gs s) \<and> g_all_lu s' = g_all_lu s \<and> lu_world.more s' = lu_world.more s \<and>
     (\<forall>nr. freed nr (gs s') = freed nr (gs s) + (if nr = req_nr req then 1 else 0))"

definition pending :: "osmo_gsup_req \<Rightarrow> 'a lu_world_scheme \<Rightarrow> 'a lu_world_scheme \<Rightarrow> bool" where
  "pending req s s' \<longleftrightarrow> next_req_nr (gs s') = next_req_nr (gs s) \<and> lu_world.more s' = lu_world.more s \<and> (\<forall>nr. freed nr (gs s') = freed nr (gs s)) \<and>
     (\<exists>lu. g_all_lu s' = lu # g_all_lu s \<and> lu_ok lu \<and> update_location_req lu = Some req \<and> lu_id lu = req_nr req)"

definition started :: "lu \<Rightarrow> osmo_gsup_req \<Rightarrow> 'a lu_world_scheme \<Rightarrow> 'a lu_world_scheme \<Rightarrow> bool" where
  \<comment> \<open>the situation inside \<open>lu_start\<close>: the new entry is the first\<close>
  "started lu req s t \<longleftrightarrow> lu_id lu = req_nr req \<and> update_location_req lu = Some req \<and>
     g_all_lu t = lu # g_all_lu s \<and> next_req_nr (gs t) = next_req_nr (gs s) \<and> lu_world.more t = lu_world.more s \<and> (\<forall>nr. freed nr (gs t) = freed nr (gs s))"

lemma started_fails:
  "started lu req s t \<Longrightarrow> req_nr req \<notin> lu_id ` set (g_all_lu s) \<Longrightarrow> concluded G req s (lu_failure G lu c t)"
  by (auto simp: started_def concluded_def freed_simps filter_id_conv image_iff)
    (auto simp: lu_failure_def lu_fsm_cleanup_def respond_err_def Let_def)

lemma started_store:
  "started lu req s t \<Longrightarrow> req_nr req \<notin> lu_id ` set (g_all_lu s) \<Longrightarrow> lu_id lu' = req_nr req \<Longrightarrow>
     update_location_req lu' = Some req \<Longrightarrow> started lu' req s (lu_store lu' t)"
  by (auto simp: started_def lu_store_def image_iff intro!: map_idI)

lemma isd_never_aborts:
  "osmo_gsup_create_insert_subscriber_data_msg G imsi msisdn n (apn_maxlen G) cn \<noteq> None"
  by (simp add: osmo_gsup_create_insert_subscriber_data_msg_def Let_def split: option.splits)

lemma onenter_owns:
  assumes st: "started lu req s t" and fresh: "req_nr req \<notin> lu_id ` set (g_all_lu s)" and ok: "lu_ok lu"
  shows "\<exists>s'. lu_fsm_wait_insert_data_result_onenter G lu t = Some s' \<and> (concluded G req s s' \<or> pending req s s')"
proof -
  from ok st obtain subscr where f: "lu_subscr lu = Some subscr" "update_location_req lu = Some req"
    by (auto simp: lu_ok_def started_def)
  obtain m rc where c: "osmo_gsup_create_insert_subscriber_data_msg G (sub_imsi subscr) (sub_msisdn subscr)
      OSMO_GSUP_MAX_CALLED_PARTY_BCD_LEN (apn_maxlen G)
      (if lu_is_ps lu then OSMO_GSUP_CN_DOMAIN_PS else OSMO_GSUP_CN_DOMAIN_CS) = Some (m, rc)"
    using isd_never_aborts by (metis not_None_eq surj_pair)
  obtain t' rc' where r: "respond G req m False False t = (t', rc')" by (metis surj_pair)
  have st': "started lu req s t'"
    using st r hlr_respond_freed(1) [of _ G req m False False t] respond_nr(1) [of G req m False False t] respond_lu(1,5) [of G req m False False t]
    by (simp add: started_def)
  show ?thesis
    using started_fails [OF st fresh] started_fails [OF st' fresh] st' f c r ok
    by (auto simp: lu_fsm_wait_insert_data_result_onenter_def pending_def started_def)
qed

lemma lu_start_owns:
  assumes F: "fsm_ok F" and fresh: "req_nr req \<notin> lu_id ` set (g_all_lu s)"
    and ty: "message_type (req_gsup req) = OSMO_GSUP_MSGT_UPDATE_LOCATION_REQUEST"
  shows "\<exists>s'. lu_start F G E req s = Some s' \<and> (concluded G req s s' \<or> pending req s s')"
proof -
  define lu0 where "lu0 = \<lparr>lu_id = req_nr req, lu_state = LU_ST_UNVALIDATED, update_location_req = Some req,
    lu_subscr = None, lu_is_ps = (g_cn_domain (req_gsup req) \<noteq> OSMO_GSUP_CN_DOMAIN_CS),
    lu_vlr_name = req_source_name req, lu_via_proxy = req_via_proxy req\<rparr>"
  define t0 where "t0 = s\<lparr>g_all_lu := lu0 # g_all_lu s\<rparr>"
  have s0: "started lu0 req s t0" by (simp add: started_def lu0_def t0_def)
  note start = lu_start_def [of F G E req s, folded lu0_def, unfolded Let_def, folded lu0_def t0_def]
  show ?thesis
  proof (cases "osmo_cni_peer_id_is_empty (Some (lu_vlr_name lu0))")
    case True
    then show ?thesis using ty started_fails [OF s0 fresh] by (simp add: start)
  next
    case ne: False
    show ?thesis
    proof (cases "db_subscr_get_by_imsi E (g_imsi (req_gsup req)) (dbc t0)")
      case (Inl e)
      then show ?thesis using ty ne started_fails [OF s0 fresh] by (simp add: start)
    next
      case (Inr subscr)
      define lu1 where "lu1 = lu0\<lparr>lu_subscr := Some subscr\<rparr>"
      have s1: "started lu1 req s (lu_store lu1 t0)"
        using started_store [OF s0 fresh] by (simp add: lu1_def lu0_def)
      define vlr proxy where "vlr = peer_ipa_name (lu_vlr_name lu1)" and
        "proxy = (if osmo_cni_peer_id_is_empty (Some (lu_via_proxy lu1)) then None else Some (peer_ipa_name (lu_via_proxy lu1)))"
      obtain db rc where d: "db_subscr_lu E (sub_id subscr) vlr (lu_is_ps lu1) proxy (dbc (lu_store lu1 t0)) = (db, rc)"
        by (metis surj_pair)
      have s2: "started lu1 req s ((lu_store lu1 t0)\<lparr>dbc := db\<rparr>)" using s1 by (simp add: started_def)
      define lu2 where "lu2 = lu1\<lparr>lu_state := LU_ST_WAIT_INSERT_DATA_RESULT\<rparr>"
      have s3: "started lu2 req s (lu_store lu2 ((lu_store lu1 t0)\<lparr>dbc := db\<rparr>))"
        using started_store [OF s2 fresh] by (simp add: lu2_def lu1_def lu0_def)
      have ok2: "lu_ok lu2" by (simp add: lu_ok_def lu2_def lu1_def lu0_def)
      have chg: "lu_state_chg F G lu1 LU_ST_WAIT_INSERT_DATA_RESULT t =
          lu_fsm_wait_insert_data_result_onenter G lu2 (lu_store lu2 t)" for t
        using F by (simp add: lu_state_chg_def lu_fsm_states_def state_nr_def fsm_ok_def lu2_def lu1_def lu0_def bit_simps Let_def)
      show ?thesis
        using ty ne started_fails [OF s1 fresh] started_fails [OF s2 fresh] onenter_owns [OF s3 fresh ok2, of G]
        unfolding start Inr sum.case lu1_def [symmetric] vlr_def [symmetric] proxy_def [symmetric] d prod.case chg
        by simp
    qed
  qed
qed

definition ended :: "lu \<Rightarrow> (nat \<Rightarrow> bool) \<Rightarrow> 'a lu_world_scheme \<Rightarrow> 'a lu_world_scheme \<Rightarrow> bool" where
  \<comment> \<open>the location update is over and its request deallocated, and so are the requests in \<open>also_freed\<close>\<close>
  "ended lu also_freed s s' \<longleftrightarrow> lu \<in> set (g_all_lu s) \<and> g_all_lu s' = filter (\<lambda>x. lu_id x \<noteq> lu_id lu) (g_all_lu s) \<and>
     next_req_nr (gs s') = next_req_nr (gs s) \<and> lu_world.more s' = lu_world.more s \<and>
     (\<forall>nr. freed nr (gs s') = freed nr (gs s) + (if nr = lu_id lu then 1 else 0) + (if also_freed nr then 1 else 0))"

lemma lu_okD:
  assumes "lu_ok lu"
  shows "lu_state lu = LU_ST_WAIT_INSERT_DATA_RESULT" "\<exists>req. update_location_req lu = Some req \<and> req_nr req = lu_id lu"
  using assms by (auto simp: lu_ok_def)

lemma lu_ended:
  assumes "lu_ok lu" and "lu \<in> set (g_all_lu s)"
  shows "ended lu (\<lambda>_. False) s (lu_failure G lu c s)" and "ended lu (\<lambda>nr. nr = req_nr req) s (lu_success G lu (req_free req s))"
    and "ended lu (\<lambda>_. False) s (lu_fsm_timer_cb G lu s)"
  using lu_okD(2) [OF assms(1)] assms(2) by (auto simp: ended_def freed_simps lu_fsm_timer_cb_def)

lemma lu_rx_cases:
  assumes F: "fsm_ok F" and inv: "lu_inv s" and fresh: "req_nr req \<notin> lu_id ` set (g_all_lu s)"
  shows "\<exists>s'. lu_rx_gsup F G E req s = Some s' \<and>
    (concluded G req s s' \<or>
     (if message_type (req_gsup req) = OSMO_GSUP_MSGT_UPDATE_LOCATION_REQUEST then pending req s s'
      else \<exists>lu also_freed. ended lu also_freed s s' \<and> (\<forall>nr. also_freed nr \<longrightarrow> nr = req_nr req) \<and>
        (message_type (req_gsup req) \<noteq> OSMO_GSUP_MSGT_INSERT_DATA_ERROR \<longrightarrow> also_freed (req_nr req))))"
proof (cases "message_type (req_gsup req) = OSMO_GSUP_MSGT_UPDATE_LOCATION_REQUEST")
  case True
  then show ?thesis using lu_start_owns [OF F fresh True] by (simp add: lu_rx_gsup_def)
next
  case False
  let ?m = "\<lambda>lu. (case lu_subscr lu of None \<Rightarrow> [] | Some sub \<Rightarrow> sub_imsi sub) = g_imsi (req_gsup req)"
  have err: "concluded G req s (respond_err G req c s)" for c
    by (auto simp: concluded_def freed_simps) (auto simp: respond_err_def)
  show ?thesis
  proof (cases "List.find ?m (g_all_lu s)")
    case None
    then show ?thesis using False err by (simp add: lu_rx_gsup_def)
  next
    case (Some lu)
    then have mem: "lu \<in> set (g_all_lu s)" by (auto dest: find_SomeD)
    with inv have ok: "lu_ok lu" by (simp add: lu_inv_def)
    have d: "lu_fsm_dispatch F G lu req s = (lu_fsm_wait_insert_data_result G lu req s, True)"
      using F lu_okD(1) [OF ok] by (simp add: lu_fsm_dispatch_def lu_fsm_states_def fsm_ok_def bit_simps)
    have "concluded G req s (lu_fsm_wait_insert_data_result G lu req s) \<or>
      (\<exists>also_freed. ended lu also_freed s (lu_fsm_wait_insert_data_result G lu req s) \<and>
         (\<forall>nr. also_freed nr \<longrightarrow> nr = req_nr req) \<and>
         (message_type (req_gsup req) \<noteq> OSMO_GSUP_MSGT_INSERT_DATA_ERROR \<longrightarrow> also_freed (req_nr req)))"
      using lu_ended(1) [OF ok mem, of G GMM_CAUSE_NET_FAIL] lu_ended(2) [OF ok mem, of req G] err
      by (simp add: lu_fsm_wait_insert_data_result_def split: gsup_msgt.split) blast
    then show ?thesis using False Some d by (auto simp: lu_rx_gsup_def)
  qed
qed

inductive lu_step :: "fsm_lib \<Rightarrow> gsup_lib \<Rightarrow> 'a lu_world_scheme \<Rightarrow> 'a lu_world_scheme \<Rightarrow> bool" for F G where
  step_rx: "req_nr req \<notin> lu_id ` set (g_all_lu s) \<Longrightarrow> freed (req_nr req) (gs s) = 0 \<Longrightarrow>
    lu_rx_gsup F G E req s = Some s' \<Longrightarrow> lu_step F G s s'"
| step_timeout: "lu \<in> set (g_all_lu s) \<Longrightarrow> lu_step F G s (lu_fsm_timer_cb G lu s)"

abbreviation lu_held :: "'a lu_world_scheme \<Rightarrow> nat set" where
  \<comment> \<open>the requests held by location updates\<close>
  "lu_held s \<equiv> lu_id ` set (g_all_lu s)"

lemma ended_keeps:
  assumes "lu_inv s" and "ended lu also s s'" and "\<forall>nr. also nr \<longrightarrow> nr = r" and "r \<notin> lu_id ` set (g_all_lu s)"
  shows "lu_inv s'" and "owned lu_held nr s \<Longrightarrow> nr \<noteq> r \<Longrightarrow> owned lu_held nr s'"
  using assms by (auto simp: lu_inv_def ended_def owned_def distinct_map_filter)

lemma concluded_keeps:
  assumes "lu_inv s" and "concluded G req s s'"
  shows "lu_inv s'" and "owned lu_held nr s \<Longrightarrow> nr \<noteq> req_nr req \<Longrightarrow> owned lu_held nr s'"
    and "req_nr req \<notin> lu_id ` set (g_all_lu s) \<Longrightarrow> freed (req_nr req) (gs s) = 0 \<Longrightarrow> owned lu_held (req_nr req) s'"
  using assms by (simp_all add: concluded_def lu_inv_def owned_def)

lemma pending_keeps:
  assumes "lu_inv s" and "pending req s s'" and "req_nr req \<notin> lu_id ` set (g_all_lu s)"
  shows "lu_inv s'" and "owned lu_held nr s \<Longrightarrow> nr \<noteq> req_nr req \<Longrightarrow> owned lu_held nr s'"
    and "freed (req_nr req) (gs s) = 0 \<Longrightarrow> owned lu_held (req_nr req) s'"
proof -
  from assms(2) obtain lu where "g_all_lu s' = lu # g_all_lu s" "lu_ok lu" "lu_id lu = req_nr req"
    "\<forall>nr. freed nr (gs s') = freed nr (gs s)" by (auto simp: pending_def)
  with assms(1,3) show "lu_inv s'" and "owned lu_held nr s \<Longrightarrow> nr \<noteq> req_nr req \<Longrightarrow> owned lu_held nr s'"
    and "freed (req_nr req) (gs s) = 0 \<Longrightarrow> owned lu_held (req_nr req) s'"
    by (simp_all add: lu_inv_def owned_def)
qed

lemma rx_keeps:
  assumes "fsm_ok F" and "lu_inv s" and "req_nr req \<notin> lu_id ` set (g_all_lu s)" and "lu_rx_gsup F G E req s = Some s'"
  shows "lu_inv s'" and "owned lu_held nr s \<Longrightarrow> nr \<noteq> req_nr req \<Longrightarrow> owned lu_held nr s'"
    and "message_type (req_gsup req) = OSMO_GSUP_MSGT_UPDATE_LOCATION_REQUEST \<Longrightarrow> freed (req_nr req) (gs s) = 0 \<Longrightarrow>
      owned lu_held (req_nr req) s'"
proof -
  from lu_rx_cases [OF assms(1-3), of G E] assms(4)
  consider (c) "concluded G req s s'"
    | (p) "message_type (req_gsup req) = OSMO_GSUP_MSGT_UPDATE_LOCATION_REQUEST" "pending req s s'"
    | (e) lu also_freed where "message_type (req_gsup req) \<noteq> OSMO_GSUP_MSGT_UPDATE_LOCATION_REQUEST"
        "ended lu also_freed s s'" "\<forall>nr. also_freed nr \<longrightarrow> nr = req_nr req"
    by (auto split: if_splits)
  then have "lu_inv s' \<and> (owned lu_held nr s \<longrightarrow> nr \<noteq> req_nr req \<longrightarrow> owned lu_held nr s') \<and>
    (message_type (req_gsup req) = OSMO_GSUP_MSGT_UPDATE_LOCATION_REQUEST \<longrightarrow> freed (req_nr req) (gs s) = 0 \<longrightarrow>
      owned lu_held (req_nr req) s')" for nr
  proof cases
    case c
    then show ?thesis using concluded_keeps [OF assms(2) c] assms(3) by blast
  next
    case p
    then show ?thesis using pending_keeps [OF assms(2) p(2) assms(3)] by blast
  next
    case e
    then show ?thesis using ended_keeps [OF assms(2) e(2,3) assms(3)] by blast
  qed
  then show "lu_inv s'" and "owned lu_held nr s \<Longrightarrow> nr \<noteq> req_nr req \<Longrightarrow> owned lu_held nr s'"
    and "message_type (req_gsup req) = OSMO_GSUP_MSGT_UPDATE_LOCATION_REQUEST \<Longrightarrow> freed (req_nr req) (gs s) = 0 \<Longrightarrow>
      owned lu_held (req_nr req) s'"
    by blast+
qed

lemma rx_effect:
  assumes "fsm_ok F" and "lu_inv s" and "req_nr req \<notin> lu_held s"
  shows "\<exists>s' A B. lu_rx_gsup F G E req s = Some s' \<and> lu_inv s' \<and> lu_world.more s' = lu_world.more s \<and>
    effect lu_held A B s s' \<and> A \<subseteq> insert (req_nr req) (lu_held s) \<and> B \<subseteq> {req_nr req} \<and>
    (message_type (req_gsup req) \<noteq> OSMO_GSUP_MSGT_INSERT_DATA_ERROR \<longrightarrow> req_nr req \<in> A \<union> B)"
proof -
  let ?r = "req_nr req"
  from lu_rx_cases [OF assms, of G E] obtain s' where s': "lu_rx_gsup F G E req s = Some s'"
    and "concluded G req s s' \<or> pending req s s' \<or> (\<exists>lu also_freed. ended lu also_freed s s' \<and> (\<forall>nr. also_freed nr \<longrightarrow> nr = ?r) \<and>
      (message_type (req_gsup req) \<noteq> OSMO_GSUP_MSGT_INSERT_DATA_ERROR \<longrightarrow> also_freed ?r))" by (auto split: if_splits)
  then consider (c) "concluded G req s s'" | (p) "pending req s s'"
    | (e) lu also_freed where "ended lu also_freed s s'" "\<forall>nr. also_freed nr \<longrightarrow> nr = ?r"
        "message_type (req_gsup req) \<noteq> OSMO_GSUP_MSGT_INSERT_DATA_ERROR \<longrightarrow> also_freed ?r" by blast
  then have "\<exists>A B. lu_inv s' \<and> lu_world.more s' = lu_world.more s \<and> effect lu_held A B s s' \<and>
    A \<subseteq> insert ?r (lu_held s) \<and> B \<subseteq> {?r} \<and> (message_type (req_gsup req) \<noteq> OSMO_GSUP_MSGT_INSERT_DATA_ERROR \<longrightarrow> ?r \<in> A \<union> B)"
  proof cases
    case c
    then show ?thesis using concluded_keeps(1) [OF assms(2) c] assms(3)
      by (intro exI [of _ "{?r}"] exI [of _ "{}"]) (auto simp: concluded_def effect_def)
  next
    case p
    then show ?thesis using pending_keeps(1) [OF assms(2) p assms(3)]
      by (intro exI [of _ "{}"] exI [of _ "{?r}"]) (auto simp: pending_def effect_def)
  next
    case e
    have ne: "lu_id lu \<noteq> ?r" using e(1) assms(3) unfolding ended_def by (metis image_eqI)
    let ?A = "insert (lu_id lu) {nr. also_freed nr}"
    have lu: "lu \<in> set (g_all_lu s)" "g_all_lu s' = filter (\<lambda>x. lu_id x \<noteq> lu_id lu) (g_all_lu s)"
      "next_req_nr (gs s') = next_req_nr (gs s)" "lu_world.more s' = lu_world.more s"
      "freed nr (gs s') = freed nr (gs s) + (if nr = lu_id lu then 1 else 0) + (if also_freed nr then 1 else 0)" for nr
      using e(1) unfolding ended_def by blast+
    have "\<not> also_freed (lu_id lu)" using e(2) ne by blast
    then have "freed nr (gs s') = freed nr (gs s) + (if nr \<in> ?A then 1 else 0)" for nr using lu(5) [of nr] by auto
    moreover have "lu_held s' = lu_held s - ?A" using lu(2) e(2) assms(3) by auto
    ultimately have "effect lu_held ?A {} s s'" using lu(3) by (simp add: effect_def)
    moreover have "?A \<subseteq> insert ?r (lu_held s)" using e(2) lu(1) by blast
    ultimately show ?thesis using ended_keeps(1) [OF assms(2) e(1,2) assms(3)] e(3) lu(4) by blast
  qed
  with s' show ?thesis by blast
qed

lemma lu_step_keeps:
  assumes "lu_step F G s s'" and "fsm_ok F" and "lu_inv s"
  shows "lu_inv s'" and "owned lu_held nr s \<Longrightarrow> owned lu_held nr s'"
proof -
  from assms(1) have "lu_inv s' \<and> (owned lu_held nr s \<longrightarrow> owned lu_held nr s')"
  proof cases
    case (step_rx req E)
    then show ?thesis
      using rx_keeps [OF assms(2,3) step_rx(1,3)] owned_fresh [of lu_held nr s "req_nr req"] by blast
  next
    case (step_timeout lu)
    have ok: "lu_ok lu" using assms(3) step_timeout(2) by (simp add: lu_inv_def)
    show ?thesis using lu_ended(3) [OF ok step_timeout(2), of G] assms(3) step_timeout(1)
      by (auto simp: lu_inv_def ended_def owned_def distinct_map_filter)
  qed
  then show "lu_inv s'" and "owned lu_held nr s \<Longrightarrow> owned lu_held nr s'" by blast+
qed

interpretation lu_own: request_owner lu_inv lu_held "\<lambda>s s'. fsm_ok F \<and> lu_step F G s s'" for F G
  by unfold_locales (use lu_step_keeps in blast)+

lemma lu_ok_ends:
  assumes "lu_ok lu"
  shows "\<exists>r. update_location_req lu = Some r \<and> req_nr r = lu_id lu \<and>
    lu_fsm_timer_cb G lu s = (respond_err G r GSM_CAUSE_NET_FAIL s)\<lparr>g_all_lu := filter (\<lambda>x. lu_id x \<noteq> lu_id lu) (g_all_lu s)\<rparr> \<and>
    (\<forall>isr. message_type (req_gsup isr) = OSMO_GSUP_MSGT_INSERT_DATA_RESULT \<longrightarrow>
       lu_fsm_wait_insert_data_result G lu isr s =
         (respond_msgt G r OSMO_GSUP_MSGT_UPDATE_LOCATION_RESULT True (req_free isr s))\<lparr>g_all_lu := filter (\<lambda>x. lu_id x \<noteq> lu_id lu) (g_all_lu s)\<rparr>)"
  using assms
  by (auto simp: lu_ok_def lu_fsm_timer_cb_def lu_failure_def lu_success_def lu_fsm_cleanup_def lu_fsm_wait_insert_data_result_def Let_def)

text \<open>
  C9. Every Update Location Request is concluded exactly once. Receiving it never hits an assertion, and at the end of it the request
  is held by a location update or the last thing done was to answer it with an error. After
  it and any further messages and timeouts of location updates, it is either
  held by a location update in progress and not yet deallocated, or held by none and deallocated
  exactly once. While a location update holds it, the timer ends the location update by answering the request with
  the error of a network failure and does nothing else; an Insert Data Result ends it by answering with the successful result, after
  the deallocation of the Insert Data Result itself. Either way the request has then been deallocated once and is not held any more.
\<close>
theorem lu_request_concluded_once:
  assumes "fsm_ok F" and "lu_inv s" and "req_nr req \<notin> lu_id ` set (g_all_lu s)" and "freed (req_nr req) (gs s) = 0"
    and "message_type (req_gsup req) = OSMO_GSUP_MSGT_UPDATE_LOCATION_REQUEST"
  shows "\<exists>s1. lu_rx_gsup F G E req s = Some s1 \<and>
    (req_nr req \<in> lu_id ` set (g_all_lu s1) \<or> (\<exists>cause g. gs s1 = osmo_gsup_req_respond_err G (hlr_cb G) req cause g)) \<and>
    (\<forall>s2. (lu_step F G)\<^sup>*\<^sup>* s1 s2 \<longrightarrow>
       freed (req_nr req) (gs s2) = (if req_nr req \<in> lu_id ` set (g_all_lu s2) then 0 else 1) \<and>
       (\<forall>lu \<in> set (g_all_lu s2). lu_id lu = req_nr req \<longrightarrow>
          (\<exists>r. update_location_req lu = Some r \<and> req_nr r = req_nr req \<and>
            (let rest = filter (\<lambda>x. lu_id x \<noteq> lu_id lu) (g_all_lu s2); ended = (\<lambda>t. t\<lparr>g_all_lu := rest\<rparr>)
             in lu_fsm_timer_cb G lu s2 = ended (respond_err G r GSM_CAUSE_NET_FAIL s2) \<and>
                (\<forall>isr. message_type (req_gsup isr) = OSMO_GSUP_MSGT_INSERT_DATA_RESULT \<longrightarrow>
                   lu_fsm_wait_insert_data_result G lu isr s2 =
                     ended (respond_msgt G r OSMO_GSUP_MSGT_UPDATE_LOCATION_RESULT True (req_free isr s2))))) \<and>
          freed (req_nr req) (gs (lu_fsm_timer_cb G lu s2)) = 1 \<and>
          req_nr req \<notin> lu_id ` set (g_all_lu (lu_fsm_timer_cb G lu s2))))"
proof -
  from lu_rx_cases [OF assms(1-3)] obtain s1 where s1: "lu_rx_gsup F G E req s = Some s1" by blast
  note k = rx_keeps [OF assms(1-3) s1]
  have own: "owned lu_held (req_nr req) s1" by (rule k(3) [OF assms(5,4)])
  have here: "req_nr req \<in> lu_held s1 \<or> (\<exists>cause g. gs s1 = osmo_gsup_req_respond_err G (hlr_cb G) req cause g)"
    using lu_start_owns [OF assms(1,3,5), of G E] s1 assms(5) by (auto simp: lu_rx_gsup_def concluded_def pending_def)
  have later: "lu_inv s2 \<and> owned lu_held (req_nr req) s2" if "(lu_step F G)\<^sup>*\<^sup>* s1 s2" for s2
    using lu_own.steps_owned [of F G s1 s2 "req_nr req"] that assms(1) k(1) own by simp
  have "freed (req_nr req) (gs (lu_fsm_timer_cb G lu s2)) = 1 \<and>
      req_nr req \<notin> lu_id ` set (g_all_lu (lu_fsm_timer_cb G lu s2))"
    if "lu_inv s2" "owned lu_held (req_nr req) s2" "lu \<in> set (g_all_lu s2)" "lu_id lu = req_nr req" for s2 lu
  proof -
    have "lu_ok lu" using that by (simp add: lu_inv_def)
    with lu_ended(3) [OF this that(3), of G] that(2-4) show ?thesis
      by (auto simp: ended_def owned_def image_iff split: if_splits)
  qed
  moreover have "\<exists>r. update_location_req lu = Some r \<and> req_nr r = req_nr req \<and>
      lu_fsm_timer_cb G lu s2 = (respond_err G r GSM_CAUSE_NET_FAIL s2)\<lparr>g_all_lu := filter (\<lambda>x. lu_id x \<noteq> lu_id lu) (g_all_lu s2)\<rparr> \<and>
      (\<forall>isr. message_type (req_gsup isr) = OSMO_GSUP_MSGT_INSERT_DATA_RESULT \<longrightarrow>
         lu_fsm_wait_insert_data_result G lu isr s2 =
           (respond_msgt G r OSMO_GSUP_MSGT_UPDATE_LOCATION_RESULT True (req_free isr s2))\<lparr>g_all_lu :=
              filter (\<lambda>x. lu_id x \<noteq> lu_id lu) (g_all_lu s2)\<rparr>)"
    if "lu_inv s2" "lu \<in> set (g_all_lu s2)" "lu_id lu = req_nr req" for s2 lu
    using lu_ok_ends [of lu G s2] that by (auto simp: lu_inv_def)
  ultimately show ?thesis using later s1 here unfolding owned_def Let_def by blast
qed

definition hlr_one :: lu_world where
  "hlr_one = \<lparr>gs = gs_example\<lparr>next_req_nr := 2\<rparr>, dbc = db_one, g_all_lu = []\<rparr>"

lemma lu_req_sel [simp]:
  "req_nr lu_req = 1" "req_gsup lu_req = lu_example" "req_send_response_cb lu_req"
  "req_source_name lu_req = ipa_peer msc_name" "req_via_proxy lu_req = cni_peer_id_zero"
  "message_type lu_example = OSMO_GSUP_MSGT_UPDATE_LOCATION_REQUEST" "g_imsi lu_example = ''262420000000001''"
  "g_cn_domain lu_example = OSMO_GSUP_CN_DOMAIN_UNSET"
  by (simp_all add: lu_req_def lu_example_def gsup_zero_def)

lemma hlr_one_facts: "lu_inv hlr_one" "g_all_lu hlr_one = []" "freed nr (gs hlr_one) = 0" "dbc hlr_one = db_one"
  by (simp_all add: hlr_one_def lu_inv_def gs_example_def freed_def)

theorem lu_request_concluded_once_witness:
  "\<exists>s1. lu_rx_gsup ref_fsm ref_gsup ref_env lu_req hlr_one = Some s1 \<and>
     freed 1 (gs s1) = (if 1 \<in> lu_id ` set (g_all_lu s1) then 0 else 1)"
  using lu_request_concluded_once [OF ref_fsm_ok hlr_one_facts(1), of lu_req ref_gsup ref_env] hlr_one_facts(2,3)
  by (metis empty_iff image_empty list.set(1) lu_req_sel(1,2,6) rtranclp.rtrancl_refl)

section \<open>A successful location update\<close>

lemma isd_fields:
  assumes "osmo_gsup_create_insert_subscriber_data_msg G imsi msisdn n k cn = Some (m, rc)"
  shows "message_type m = OSMO_GSUP_MSGT_INSERT_DATA_REQUEST" "g_imsi m = strlcpy IMSI_BUF_SIZE imsi"
    "message_class m = 0" "sm_rp_mr m = None" "session_id m = 0"
  using assms
  by (auto simp: osmo_gsup_create_insert_subscriber_data_msg_def osmo_gsup_configure_wildcard_apn_def Let_def gsup_zero_def
      split: if_splits option.splits)

lemma isd_compatible:
  assumes "osmo_gsup_create_insert_subscriber_data_msg G imsi msisdn n k cn = Some (m, rc)"
    and "length imsi < 16" and "g_imsi rx = imsi"
  shows "compatible m rx"
  using isd_fields [OF assms(1)] assms(2,3) by (simp add: compatible_def IMSI_BUF_SIZE_def)

lemma respond_ok:
  "gsup_wf (req_gsup req) \<Longrightarrow> compatible resp (req_gsup req) \<Longrightarrow> req_send_response_cb req \<Longrightarrow>
     respond G req resp e final s =
       (s\<lparr>gs := (let g = hlr_cb G req (response_of G resp (req_gsup req) e final) (gs s)
               in if final then osmo_gsup_req_free req g else g)\<rparr>, 0)"
  by (simp add: respond_def respond_cases Let_def)

lemma respond_msgt_ok:
  assumes "gsup_wf (req_gsup req)" and "req_send_response_cb req"
  shows "respond_msgt G req ty True s = s\<lparr>gs := osmo_gsup_req_free req
    (hlr_cb G req (response_of G (gsup_zero\<lparr>message_type := ty\<rparr>) (req_gsup req) (msgt_is_error G ty) True) (gs s))\<rparr>"
proof -
  have "compatible (gsup_zero\<lparr>message_type := ty\<rparr>) (req_gsup req)" by (simp add: compatible_def gsup_zero_def)
  then show ?thesis
    using assms by (simp add: respond_msgt_def osmo_gsup_req_respond_msgt_def respond_cases Let_def)
qed

definition lu_waiting :: "osmo_gsup_req \<Rightarrow> hlr_subscriber \<Rightarrow> lu" where
  "lu_waiting req sub = \<lparr>lu_id = req_nr req, lu_state = LU_ST_WAIT_INSERT_DATA_RESULT, update_location_req = Some req,
     lu_subscr = Some sub, lu_is_ps = (g_cn_domain (req_gsup req) \<noteq> OSMO_GSUP_CN_DOMAIN_CS),
     lu_vlr_name = req_source_name req, lu_via_proxy = req_via_proxy req\<rparr>"

lemma lu_start_accepts:
  fixes s :: "'a lu_world_scheme"
  assumes F: "fsm_ok F" and E: "db_wf (dbc s)" "env_ok E" "clock_gettime E = Inr now"
    and r: "subscribers (dbc s) (g_imsi (req_gsup req)) = Some r"
    and req: "message_type (req_gsup req) = OSMO_GSUP_MSGT_UPDATE_LOCATION_REQUEST" "gsup_wf (req_gsup req)"
      "req_send_response_cb req" "req_source_name req = ipa_peer vlr" "ipa_len vlr \<noteq> 0"
      "osmo_cni_peer_id_is_empty (Some (req_via_proxy req))"
    and fresh: "req_nr req \<notin> lu_id ` set (g_all_lu s)"
    and nam: "if g_cn_domain (req_gsup req) = OSMO_GSUP_CN_DOMAIN_CS then row_nam_cs r else row_nam_ps r"
    and m: "osmo_gsup_create_insert_subscriber_data_msg G (g_imsi (req_gsup req)) (copy_text 16 (row_msisdn r))
      OSMO_GSUP_MAX_CALLED_PARTY_BCD_LEN (apn_maxlen G)
      (if g_cn_domain (req_gsup req) = OSMO_GSUP_CN_DOMAIN_CS then OSMO_GSUP_CN_DOMAIN_CS else OSMO_GSUP_CN_DOMAIN_PS) =
        Some (m, 0)"
  shows "lu_start F G E req s = Some (s\<lparr>
    gs := hlr_cb G req (response_of G m (req_gsup req) False False) (gs s),
    dbc := fst (db_subscr_lu E (row_id r) vlr (g_cn_domain (req_gsup req) \<noteq> OSMO_GSUP_CN_DOMAIN_CS) None (dbc s)),
    g_all_lu := lu_waiting req (row_to_subscriber E r) # g_all_lu s\<rparr>)"
proof -
  have len: "length (g_imsi (req_gsup req)) < 16" using req(2) by (simp add: gsup_wf_def IMSI_BUF_SIZE_def)
  have imsi: "row_imsi r = g_imsi (req_gsup req)" using r by (auto simp: subscribers_def dest: find_SomeD)
  have map: "map (\<lambda>x. if lu_id x = req_nr req then l else x) (g_all_lu s) = g_all_lu s" for l
    using fresh by (intro map_idI) (auto simp: image_iff)
  have vlr: "\<not> osmo_cni_peer_id_is_empty (Some (ipa_peer vlr))"
    using req(5) by (simp add: ipa_peer_empty osmo_ipa_name_is_empty_def)
  have sub: "sub_imsi (row_to_subscriber E r) = g_imsi (req_gsup req)" "sub_id (row_to_subscriber E r) = row_id r"
    "sub_msisdn (row_to_subscriber E r) = copy_text 16 (row_msisdn r)"
    "sub_nam_cs (row_to_subscriber E r) = row_nam_cs r" "sub_nam_ps (row_to_subscriber E r) = row_nam_ps r"
    using len imsi by (simp_all add: row_to_subscriber_def)
  note c = isd_compatible [OF m len refl]
  note d = lu_spec(1) [OF E r, where n = vlr and p = None]
  have perm: "osmo_fsm_state_permitted F (push_bit (Suc 0) 1) (Suc 0)" using F by (simp add: fsm_ok_def bit_simps)
  show ?thesis
    using req nam m perm vlr
    by (auto simp: lu_start_def Let_def get_by_imsi_ok [OF E(2)] r sub lu_store_def map d prod.case_eq_if
        lu_state_chg_def lu_fsm_states_def state_nr_def lu_fsm_wait_insert_data_result_onenter_def
        respond_ok [OF req(2) c req(3)] lu_waiting_def split: if_splits)
qed

text \<open>
  C4. A location update that may succeed does: for an Update Location Request of a subscriber that exists, may use
  the domain, and comes from a named VLR without a proxy, the VLR is recorded as the subscriber's in
  the database, an Insert Subscriber Data request with the MSISDN goes back to the VLR, and the request
  stays open; when the VLR answers with an Insert Data Result, exactly this request is answered with
  Update Location Result, both requests are deallocated, and the list of location updates is as before.
\<close>
theorem lu_update_location_completes:
  fixes s :: "'a lu_world_scheme"
  assumes "fsm_ok F" and "db_wf (dbc s)" and "env_ok E" and "clock_gettime E = Inr now"
    and "subscribers (dbc s) imsi = Some r"
    and "req_gsup req = rx" and "message_type rx = OSMO_GSUP_MSGT_UPDATE_LOCATION_REQUEST" and "gsup_wf rx" and "g_imsi rx = imsi"
    and "req_send_response_cb req" and "req_source_name req = ipa_peer vlr" and "ipa_len vlr \<noteq> 0"
    and "osmo_cni_peer_id_is_empty (Some (req_via_proxy req))"
    and "req_nr req \<notin> lu_id ` set (g_all_lu s)"
    and "is_ps = (g_cn_domain rx \<noteq> OSMO_GSUP_CN_DOMAIN_CS)" and "if is_ps then row_nam_ps r else row_nam_cs r"
    and "osmo_gsup_create_insert_subscriber_data_msg G imsi (copy_text 16 (row_msisdn r))
      OSMO_GSUP_MAX_CALLED_PARTY_BCD_LEN (apn_maxlen G)
      (if is_ps then OSMO_GSUP_CN_DOMAIN_PS else OSMO_GSUP_CN_DOMAIN_CS) = Some (m, 0)"
    and "message_type (req_gsup res) = OSMO_GSUP_MSGT_INSERT_DATA_RESULT" and "g_imsi (req_gsup res) = imsi"
  shows "\<exists>s1 s2. lu_rx_gsup F G E req s = Some s1 \<and>
    subscribers (dbc s1) = (subscribers (dbc s))(imsi \<mapsto> lu_row E is_ps (cstr (ipa_val vlr)) None now r) \<and>
    gs s1 = hlr_cb G req (response_of G m rx False False) (gs s) \<and>
    lu_rx_gsup F G E res s1 = Some s2 \<and> g_all_lu s2 = g_all_lu s \<and> dbc s2 = dbc s1 \<and>
    gs s2 = osmo_gsup_req_free req (hlr_cb G req
      (response_of G (gsup_zero\<lparr>message_type := OSMO_GSUP_MSGT_UPDATE_LOCATION_RESULT\<rparr>) rx
         (msgt_is_error G OSMO_GSUP_MSGT_UPDATE_LOCATION_RESULT) True) (osmo_gsup_req_free res (gs s1)))"
proof -
  let ?ps = "g_cn_domain rx \<noteq> OSMO_GSUP_CN_DOMAIN_CS" and ?sub = "row_to_subscriber E r"
  define s1 where "s1 = s\<lparr>gs := hlr_cb G req (response_of G m rx False False) (gs s),
    dbc := fst (db_subscr_lu E (row_id r) vlr ?ps None (dbc s)), g_all_lu := lu_waiting req ?sub # g_all_lu s\<rparr>"
  have 1: "lu_rx_gsup F G E req s = Some s1"
    using assms lu_start_accepts [where F = F and E = E and s = s and req = req and r = r and vlr = vlr and G = G and m = m and now = now]
    by (cases "g_cn_domain rx = OSMO_GSUP_CN_DOMAIN_CS") (simp_all add: lu_rx_gsup_def s1_def)
  have 2: "subscribers (dbc s1) = (subscribers (dbc s))(imsi \<mapsto> lu_row E is_ps (cstr (ipa_val vlr)) None now r)"
    using lu_spec(2) [OF assms(2-5), where n = vlr and is_ps = is_ps and p = None] assms(5,15)
    by (auto simp: s1_def amend_def proxy_text_def fun_eq_iff)
  have imsi: "sub_imsi ?sub = imsi"
    using assms(5,8,9) by (auto simp: row_to_subscriber_def subscribers_def gsup_wf_def IMSI_BUF_SIZE_def dest!: find_SomeD)
  define s2 where "s2 = lu_success G (lu_waiting req ?sub) (req_free res s1)"
  have acc: "lu_fsm_dispatch F G (lu_waiting req ?sub) res s1 = (s2, True)"
    using assms(1,18) by (simp add: lu_fsm_dispatch_def lu_fsm_states_def fsm_ok_def lu_waiting_def
        lu_fsm_wait_insert_data_result_def bit_simps s2_def)
  have 3: "lu_rx_gsup F G E res s1 = Some s2"
    using acc assms(18,19) imsi by (simp add: lu_rx_gsup_def s1_def lu_waiting_def)
  have 4: "g_all_lu s2 = g_all_lu s" "dbc s2 = dbc s1"
    using assms(14) by (auto simp: s2_def s1_def lu_waiting_def filter_id_conv image_iff)
  have 5: "gs s2 = osmo_gsup_req_free req (hlr_cb G req
      (response_of G (gsup_zero\<lparr>message_type := OSMO_GSUP_MSGT_UPDATE_LOCATION_RESULT\<rparr>) rx
         (msgt_is_error G OSMO_GSUP_MSGT_UPDATE_LOCATION_RESULT) True) (osmo_gsup_req_free res (gs s1)))"
    using assms(6,8,10)
    by (simp add: respond_msgt_ok s2_def lu_success_def lu_fsm_cleanup_def lu_waiting_def Let_def req_free_def)
  show ?thesis
    using 1 2 3 4 5 by (intro exI [of _ s1] exI [of _ s2]) (simp add: s1_def)
qed

definition isd_res :: osmo_gsup_req where
  "isd_res = lu_req\<lparr>req_nr := 2, req_gsup := lu_example\<lparr>message_type := OSMO_GSUP_MSGT_INSERT_DATA_RESULT\<rparr>\<rparr>"

theorem lu_update_location_completes_witness:
  "\<exists>s1 s2. lu_rx_gsup ref_fsm ref_gsup ref_env lu_req hlr_one = Some s1 \<and>
     lu_rx_gsup ref_fsm ref_gsup ref_env isd_res s1 = Some s2 \<and> g_all_lu s2 = []"
proof -
  let ?m = "fst (the (osmo_gsup_create_insert_subscriber_data_msg ref_gsup ''262420000000001'' ''1001''
    OSMO_GSUP_MAX_CALLED_PARTY_BCD_LEN (apn_maxlen ref_gsup) OSMO_GSUP_CN_DOMAIN_PS))"
  have "ipa_len msc_name \<noteq> 0" by (simp add: msc_name_def osmo_ipa_name_set_def IPA_NAME_SIZE_def ipa_name_empty_def)
  moreover have "osmo_gsup_create_insert_subscriber_data_msg ref_gsup ''262420000000001'' ''1001''
      OSMO_GSUP_MAX_CALLED_PARTY_BCD_LEN (apn_maxlen ref_gsup) OSMO_GSUP_CN_DOMAIN_PS = Some (?m, 0)"
    by (simp add: osmo_gsup_create_insert_subscriber_data_msg_def ref_gsup_def Let_def)
  moreover have "gsup_wf lu_example" by (simp add: gsup_wf_def IMSI_BUF_SIZE_def)
  ultimately show ?thesis
    using lu_update_location_completes [OF ref_fsm_ok, where s = hlr_one and E = ref_env and req = lu_req and res = isd_res
        and vlr = msc_name and G = ref_gsup and m = ?m and is_ps = True and now = 1000 and imsi = "''262420000000001''"
        and rx = lu_example and r = "(new_subscriber 1 ''262420000000001'' True True)\<lparr>row_msisdn := Some ''1001''\<rparr>"]
      hlr_one_facts db_one_facts ref_env_ok peer_zero_empty
    by (auto simp: isd_res_def new_subscriber_def copy_text_def ref_env_def)
qed

text \<open>
  The answer to a failed Insert Data Request is never deallocated: an Insert Data Error for a location
  update in progress ends that location update with an error to the VLR, but leaves the number of
  deallocations of the received message itself unchanged.
\<close>
theorem lu_insert_data_error_leaks:
  assumes "fsm_ok F" and "lu_inv s" and "lu \<in> set (g_all_lu s)"
    and "List.find (\<lambda>lu. (case lu_subscr lu of None \<Rightarrow> [] | Some sub \<Rightarrow> sub_imsi sub) = g_imsi (req_gsup req)) (g_all_lu s) = Some lu"
    and "message_type (req_gsup req) = OSMO_GSUP_MSGT_INSERT_DATA_ERROR" and "req_nr req \<notin> lu_id ` set (g_all_lu s)"
  shows "\<exists>s'. lu_rx_gsup F G E req s = Some s' \<and> freed (req_nr req) (gs s') = freed (req_nr req) (gs s) \<and>
    freed (lu_id lu) (gs s') = freed (lu_id lu) (gs s) + 1"
proof -
  have ok: "lu_ok lu" using assms(2,3) by (simp add: lu_inv_def)
  have "lu_fsm_dispatch F G lu req s = (lu_failure G lu GMM_CAUSE_NET_FAIL s, True)"
    using assms(1,5) lu_okD(1) [OF ok]
    by (simp add: lu_fsm_dispatch_def lu_fsm_states_def fsm_ok_def lu_fsm_wait_insert_data_result_def bit_simps)
  moreover have "req_nr req \<noteq> lu_id lu" using assms(3,6) by (auto simp: image_iff)
  ultimately show ?thesis
    using lu_ended(1) [OF ok assms(3), of G GMM_CAUSE_NET_FAIL] assms(4,5) by (simp add: lu_rx_gsup_def ended_def)
qed

definition hlr_waiting :: lu_world where
  "hlr_waiting = hlr_one\<lparr>g_all_lu := [lu_waiting lu_req (row_to_subscriber ref_env (hd (tbl_subscriber db_one)))]\<rparr>"

theorem lu_insert_data_error_leaks_witness:
  "\<exists>s'. lu_rx_gsup ref_fsm ref_gsup ref_env
      (isd_res\<lparr>req_gsup := lu_example\<lparr>message_type := OSMO_GSUP_MSGT_INSERT_DATA_ERROR\<rparr>\<rparr>) hlr_waiting = Some s' \<and>
    freed 2 (gs s') = 0"
proof -
  let ?lu = "lu_waiting lu_req (row_to_subscriber ref_env (hd (tbl_subscriber db_one)))"
  have w: "g_all_lu hlr_waiting = [?lu]" "freed 2 (gs hlr_waiting) = 0"
    using hlr_one_facts(3) by (simp_all add: hlr_waiting_def)
  have l: "lu_id ?lu = 1" "lu_ok ?lu" "(case lu_subscr ?lu of None \<Rightarrow> [] | Some sub \<Rightarrow> sub_imsi sub) = ''262420000000001''"
    by (simp_all add: lu_waiting_def lu_ok_def row_to_subscriber_def db_one_def new_subscriber_def)
  have i: "lu_inv hlr_waiting" using w(1) l(1,2) by (simp add: lu_inv_def)
  have q: "req_nr isd_res = 2" by (simp add: isd_res_def)
  show ?thesis
    using lu_insert_data_error_leaks [OF ref_fsm_ok i, of ?lu
        "isd_res\<lparr>req_gsup := lu_example\<lparr>message_type := OSMO_GSUP_MSGT_INSERT_DATA_ERROR\<rparr>\<rparr>" ref_gsup ref_env]
    by (auto simp: w l q)
qed

end
