(* ===== verification/Hlr_Ussd.thy ===== *)
theory Hlr_Ussd
  imports Lu_Fsm
begin

text \<open>
  Supplementary services and USSD: \<open>src/hlr_ussd.c\<close>. A session is identified by \<open>ss_id\<close>, which
  stands for the pointer: it is the number of the request that opened it. The union of a
  pointer to an external and a pointer to an internal USSD entity is \<open>use_ptr\<close>, which says what the
  pointer points to, whatever the flag \<open>is_external\<close> claims; using it as the other kind is a
  \<open>Fault\<close>, and so are a failed assertion and the use of a session after its deallocation.
  Configured entities are identified by their names. Removing an external entity deallocates it while
  routes and sessions keep the pointer: it becomes \<open>USE_FREED\<close> there, and reading the name of
  the entity through it is a \<open>Fault\<close>. Encoding and decoding of facility elements (libosmogsm) are the
  parameters in \<open>ss_lib\<close>.
\<close>

section \<open>Data\<close>

record hlr_euse =
  euse_name :: string

datatype hlr_iuse = IUSE_own_msisdn | IUSE_own_imsi

datatype use_ptr = USE_NULL | USE_EUSE hlr_euse | USE_IUSE hlr_iuse
  | USE_FREED \<comment> \<open>a pointer to an external entity that has been deallocated\<close>

record hlr_ussd_route =
  rt_prefix :: string
  rt_is_external :: bool
  rt_u :: use_ptr

datatype ss_opcode =
    GSM0480_OP_CODE_PROCESS_USS_DATA
  | GSM0480_OP_CODE_PROCESS_USS_REQ
  | GSM0480_OP_CODE_USS_REQUEST
  | GSM0480_OP_CODE_USS_NOTIFY
  | GSM0480_OP_CODE_OTHER nat

datatype ss_error =
    GSM0480_ERR_CODE_UNKNOWN_SUBSCRIBER
  | GSM0480_ERR_CODE_SS_NOT_AVAILABLE
  | GSM0480_ERR_CODE_FACILITY_NOT_SUPPORTED
  | GSM0480_ERR_CODE_SYSTEM_FAILURE

record ss_request =
  ss_opcode_of :: ss_opcode
  invoke_id :: octet
  ussd_text :: string

definition ss_request_zero :: ss_request where
  "ss_request_zero = \<lparr>ss_opcode_of = GSM0480_OP_CODE_OTHER 0, invoke_id = NUL, ussd_text = []\<rparr>"

record ss_lib =
  gsm0480_parse_facility_ie :: "octets \<Rightarrow> ss_request option"
  gsm0480_gen_return_error :: "octet \<Rightarrow> ss_error \<Rightarrow> octets option"
  gsm0480_gen_ussd_resp_7bit :: "octet \<Rightarrow> string \<Rightarrow> octets option"
  ussd_7bit_string_len :: nat

record ss_session =
  ss_id :: nat
  ss_imsi :: string
  ss_session_id :: "32 word"
  ss_timeout :: bool
  ss_is_external :: bool
  ss_u :: use_ptr
  ss_vlr_name :: osmo_ipa_name
  initial_req_from_ms :: "osmo_gsup_req option"
  initial_req_from_euse :: "osmo_gsup_req option"

record ussd_world = lu_world +
  euse_list :: "hlr_euse list"
  euse_default :: "hlr_euse option"
  ussd_routes :: "hlr_ussd_route list"
  ncss_guard_timeout :: int
  ss_sessions :: "ss_session list"

section \<open>Configuration\<close>

definition euse_find :: "string \<Rightarrow> 'a ussd_world_scheme \<Rightarrow> hlr_euse option" where
  "euse_find name s = List.find (\<lambda>e. euse_name e = name) (euse_list s)"

definition euse_alloc :: "string \<Rightarrow> 'a ussd_world_scheme \<Rightarrow> 'a ussd_world_scheme \<times> hlr_euse option" where
  "euse_alloc name s =
     (case euse_find name s of
        Some _ \<Rightarrow> (s, None)
      | None \<Rightarrow> (s\<lparr>euse_list := euse_list s @ [\<lparr>euse_name = name\<rparr>]\<rparr>, Some \<lparr>euse_name = name\<rparr>))"

definition freed_ptr :: "hlr_euse \<Rightarrow> use_ptr \<Rightarrow> use_ptr" where
  \<comment> \<open>what a pointer is once the entity has been deallocated\<close>
  "freed_ptr e u = (if u = USE_EUSE e then USE_FREED else u)"

definition euse_del :: "hlr_euse \<Rightarrow> 'a ussd_world_scheme \<Rightarrow> 'a ussd_world_scheme" where
  \<comment> \<open>\<open>llist_del\<close> and \<open>talloc_free\<close>: every pointer to the entity dangles from here on\<close>
  "euse_del e s = s\<lparr>euse_list := filter (\<lambda>x. euse_name x \<noteq> euse_name e) (euse_list s),
     ussd_routes := map (\<lambda>rt. rt\<lparr>rt_u := freed_ptr e (rt_u rt)\<rparr>) (ussd_routes s),
     ss_sessions := map (\<lambda>ss. ss\<lparr>ss_u := freed_ptr e (ss_u ss)\<rparr>) (ss_sessions s)\<rparr>"

definition ussd_route_find_prefix :: "string \<Rightarrow> 'a ussd_world_scheme \<Rightarrow> hlr_ussd_route option" where
  "ussd_route_find_prefix pfx s = List.find (\<lambda>rt. rt_prefix rt = pfx) (ussd_routes s)"

definition ussd_route_prefix_alloc_int ::
  "string \<Rightarrow> hlr_iuse \<Rightarrow> 'a ussd_world_scheme \<Rightarrow> 'a ussd_world_scheme \<times> hlr_ussd_route option" where
  "ussd_route_prefix_alloc_int pfx iuse s =
     (case ussd_route_find_prefix pfx s of
        Some _ \<Rightarrow> (s, None)
      | None \<Rightarrow>
          let rt = \<lparr>rt_prefix = pfx, rt_is_external = False, rt_u = USE_IUSE iuse\<rparr>
          in (s\<lparr>ussd_routes := ussd_routes s @ [rt]\<rparr>, Some rt))"

definition ussd_route_prefix_alloc_ext ::
  "string \<Rightarrow> hlr_euse \<Rightarrow> 'a ussd_world_scheme \<Rightarrow> 'a ussd_world_scheme \<times> hlr_ussd_route option" where
  "ussd_route_prefix_alloc_ext pfx euse s =
     (case ussd_route_find_prefix pfx s of
        Some _ \<Rightarrow> (s, None)
      | None \<Rightarrow>
          let rt = \<lparr>rt_prefix = pfx, rt_is_external = True, rt_u = USE_EUSE euse\<rparr>
          in (s\<lparr>ussd_routes := ussd_routes s @ [rt]\<rparr>, Some rt))"

definition ussd_route_del :: "hlr_ussd_route \<Rightarrow> 'a ussd_world_scheme \<Rightarrow> 'a ussd_world_scheme" where
  "ussd_route_del rt s = s\<lparr>ussd_routes := filter (\<lambda>x. rt_prefix x \<noteq> rt_prefix rt) (ussd_routes s)\<rparr>"

definition ussd_route_lookup_7bit :: "string \<Rightarrow> 'a ussd_world_scheme \<Rightarrow> hlr_ussd_route option" where
  \<comment> \<open>the log message reads the name of an external entity; its only caller goes on to read the same
    name in \<open>handle_ussd\<close>, where a deallocated entity is a \<open>Fault\<close>\<close>
  "ussd_route_lookup_7bit code s =
     List.find (\<lambda>rt. strncmp code (rt_prefix rt) (length (rt_prefix rt)) = 0) (ussd_routes s)"

definition iuse_find :: "string \<Rightarrow> hlr_iuse option" where
  "iuse_find name = map_of [(''own-msisdn'', IUSE_own_msisdn), (''own-imsi'', IUSE_own_imsi)] name"

section \<open>Sessions\<close>

definition ss_session_find :: "string \<Rightarrow> 32 word \<Rightarrow> 'a ussd_world_scheme \<Rightarrow> ss_session option" where
  "ss_session_find imsi sid s = List.find (\<lambda>ss. ss_imsi ss = imsi \<and> ss_session_id ss = sid) (ss_sessions s)"

definition ss_store :: "ss_session \<Rightarrow> 'a ussd_world_scheme \<Rightarrow> 'a ussd_world_scheme" where
  \<comment> \<open>a write through the pointer to a session\<close>
  "ss_store ss s = s\<lparr>ss_sessions := map (\<lambda>x. if ss_id x = ss_id ss then ss else x) (ss_sessions s)\<rparr>"

definition free_opt :: "osmo_gsup_req option \<Rightarrow> 'a ussd_world_scheme \<Rightarrow> 'a ussd_world_scheme" where
  "free_opt r s = (case r of None \<Rightarrow> s | Some req \<Rightarrow> req_free req s)"

definition ss_session_free :: "ss_session \<Rightarrow> 'a ussd_world_scheme \<Rightarrow> 'a ussd_world_scheme exec" where
  \<comment> \<open>Fault: the session has been deallocated before\<close>
  "ss_session_free ss s =
     (if ss_id ss \<notin> ss_id ` set (ss_sessions s) then Fault
      else
        let s = free_opt (initial_req_from_ms ss) s;
            s = free_opt (initial_req_from_euse ss) s
        in Ret (s\<lparr>ss_sessions := filter (\<lambda>x. ss_id x \<noteq> ss_id ss) (ss_sessions s)\<rparr>))"

definition ss_session_timeout :: "ss_session \<Rightarrow> 'a ussd_world_scheme \<Rightarrow> 'a ussd_world_scheme exec" where
  "ss_session_timeout ss s = ss_session_free ss s"

definition ss_session_alloc ::
  "nat \<Rightarrow> string \<Rightarrow> 32 word \<Rightarrow> 'a ussd_world_scheme \<Rightarrow> ('a ussd_world_scheme \<times> ss_session) exec" where
  \<comment> \<open>\<open>nr\<close>: the identity of the new session\<close>
  "ss_session_alloc nr imsi sid s =
     (if ss_session_find imsi sid s \<noteq> None then Fault
      else
        let ss = \<lparr>ss_id = nr, ss_imsi = strlcpy IMSI_BUF_SIZE imsi, ss_session_id = sid,
                  ss_timeout = (ncss_guard_timeout s > 0), ss_is_external = False, ss_u = USE_NULL,
                  ss_vlr_name = ipa_name_empty, initial_req_from_ms = None, initial_req_from_euse = None\<rparr>
        in Ret (s\<lparr>ss_sessions := ss_sessions s @ [ss]\<rparr>, ss))"

section \<open>Sending to the phone\<close>

definition ss_gsup_send_to_ms ::
  "gsup_lib \<Rightarrow> sqlite_env \<Rightarrow> ss_session \<Rightarrow> osmo_gsup_message \<Rightarrow> 'a ussd_world_scheme
     \<Rightarrow> ('a ussd_world_scheme \<times> int) exec" where
  "ss_gsup_send_to_ms G E ss gsup s =
     (case initial_req_from_ms ss of
        Some req \<Rightarrow> Ret (fst (respond G req gsup False False s), 0)
      | None \<Rightarrow>
        (case osmo_gsup_encode G gsup of
           None \<Rightarrow> Ret (s, - EINVAL)
         | Some msg \<Rightarrow>
             let send = (\<lambda>ss s.
                   if ipa_len (ss_vlr_name ss) \<le> 1 then Ret (s, - EINVAL)
                   else (case osmo_gsup_send_to_ipa_name (ss_vlr_name ss) msg (gs s) of
                           None \<Rightarrow> Fault
                         | Some (g, rc) \<Rightarrow> Ret (s\<lparr>gs := g\<rparr>, rc)))
             in if ipa_len (ss_vlr_name ss) = 0 then
                  (case db_subscr_get_by_imsi E (ss_imsi ss) (dbc s) of
                     Inl _ \<Rightarrow> Ret (s, - EINVAL)
                   | Inr subscr \<Rightarrow>
                       let ss = ss\<lparr>ss_vlr_name :=
                             fst (osmo_ipa_name_set_str (ss_vlr_name ss) (Some (sub_vlr_number subscr)))\<rparr>
                       in send ss (ss_store ss s))
                else send ss s))"

definition ss_tx_to_ms ::
  "gsup_lib \<Rightarrow> sqlite_env \<Rightarrow> ss_session \<Rightarrow> gsup_msgt \<Rightarrow> bool \<Rightarrow> octets option \<Rightarrow> 'a ussd_world_scheme
     \<Rightarrow> ('a ussd_world_scheme \<times> int) exec" where
  "ss_tx_to_ms G E ss ty final ss_msg s =
     ss_gsup_send_to_ms G E ss
       (gsup_zero\<lparr>message_type := ty, g_imsi := strlcpy IMSI_BUF_SIZE (ss_imsi ss),
          session_state := (if final then OSMO_GSUP_SESSION_STATE_END else OSMO_GSUP_SESSION_STATE_CONTINUE),
          session_id := ss_session_id ss, ss_info := ss_msg\<rparr>) s"

definition ss_tx_to_ms_error ::
  "ss_lib \<Rightarrow> gsup_lib \<Rightarrow> sqlite_env \<Rightarrow> ss_session \<Rightarrow> octet \<Rightarrow> ss_error \<Rightarrow> 'a ussd_world_scheme
     \<Rightarrow> ('a ussd_world_scheme \<times> int) exec" where
  "ss_tx_to_ms_error U G E ss inv_id error_code s =
     (case gsm0480_gen_return_error U inv_id error_code of
        None \<Rightarrow> Fault
      | Some msg \<Rightarrow> ss_tx_to_ms G E ss OSMO_GSUP_MSGT_PROC_SS_RESULT True (Some msg) s)"

definition ss_tx_to_ms_ussd_7bit ::
  "ss_lib \<Rightarrow> gsup_lib \<Rightarrow> sqlite_env \<Rightarrow> ss_session \<Rightarrow> bool \<Rightarrow> octet \<Rightarrow> string \<Rightarrow> 'a ussd_world_scheme
     \<Rightarrow> ('a ussd_world_scheme \<times> int) exec" where
  "ss_tx_to_ms_ussd_7bit U G E ss final inv_id str s =
     (case gsm0480_gen_ussd_resp_7bit U inv_id str of
        None \<Rightarrow> Fault
      | Some msg \<Rightarrow> ss_tx_to_ms G E ss OSMO_GSUP_MSGT_PROC_SS_RESULT final (Some msg) s)"

section \<open>Handlers\<close>

definition ignore_rc :: "('s \<times> int) exec \<Rightarrow> 's exec" where
  "ignore_rc r = (case r of Fault \<Rightarrow> Fault | Ret (s, _) \<Rightarrow> Ret s)"

definition handle_ussd_own_msisdn ::
  "ss_lib \<Rightarrow> gsup_lib \<Rightarrow> sqlite_env \<Rightarrow> ss_session \<Rightarrow> ss_request \<Rightarrow> 'a ussd_world_scheme \<Rightarrow> 'a ussd_world_scheme exec" where
  "handle_ussd_own_msisdn U G E ss req s =
     ignore_rc (case db_subscr_get_by_imsi E (ss_imsi ss) (dbc s) of
        Inr subscr \<Rightarrow>
          ss_tx_to_ms_ussd_7bit U G E ss True (invoke_id req)
            (strlcpy (ussd_7bit_string_len U + 1)
               (if sub_msisdn subscr = [] then ''You have no MSISDN!''
                else ''Your extension is '' @ sub_msisdn subscr)) s
      | Inl rc \<Rightarrow>
          ss_tx_to_ms_error U G E ss (invoke_id req)
            (if rc = - ENOENT then GSM0480_ERR_CODE_UNKNOWN_SUBSCRIBER else GSM0480_ERR_CODE_SYSTEM_FAILURE) s)"

definition handle_ussd_own_imsi ::
  "ss_lib \<Rightarrow> gsup_lib \<Rightarrow> sqlite_env \<Rightarrow> ss_session \<Rightarrow> ss_request \<Rightarrow> 'a ussd_world_scheme \<Rightarrow> 'a ussd_world_scheme exec" where
  "handle_ussd_own_imsi U G E ss req s =
     ignore_rc (ss_tx_to_ms_ussd_7bit U G E ss True (invoke_id req)
       (strlcpy (ussd_7bit_string_len U + 1) (''Your IMSI is '' @ ss_imsi ss)) s)"

definition hlr_iuses ::
  "hlr_iuse \<Rightarrow> ss_lib \<Rightarrow> gsup_lib \<Rightarrow> sqlite_env \<Rightarrow> ss_session \<Rightarrow> ss_request \<Rightarrow> 'a ussd_world_scheme \<Rightarrow> 'a ussd_world_scheme exec" where
  \<comment> \<open>the call through \<open>handle_ussd\<close>\<close>
  "hlr_iuses i = (case i of IUSE_own_msisdn \<Rightarrow> handle_ussd_own_msisdn | IUSE_own_imsi \<Rightarrow> handle_ussd_own_imsi)"

definition ss_op_is_ussd :: "ss_opcode \<Rightarrow> bool" where
  "ss_op_is_ussd opc = (case opc of GSM0480_OP_CODE_OTHER _ \<Rightarrow> False | _ \<Rightarrow> True)"

definition peer_name_is_euse :: "osmo_cni_peer_id \<Rightarrow> bool" where
  "peer_name_is_euse p =
     (if peer_type p \<noteq> OSMO_CNI_PEER_ID_IPA_NAME then False
      else if ipa_len (peer_ipa_name p) \<le> 5 then False
      else strncmp (cstr (ipa_val (peer_ipa_name p))) ''EUSE-'' 5 = 0)"

definition euse_by_name :: "osmo_cni_peer_id \<Rightarrow> 'a ussd_world_scheme \<Rightarrow> hlr_euse option" where
  "euse_by_name p s =
     (if \<not> peer_name_is_euse p then None else euse_find (drop 5 (cstr (ipa_val (peer_ipa_name p)))) s)"

definition handle_ss ::
  "ss_lib \<Rightarrow> gsup_lib \<Rightarrow> sqlite_env \<Rightarrow> ss_session \<Rightarrow> ss_request \<Rightarrow> 'a ussd_world_scheme \<Rightarrow> 'a ussd_world_scheme exec" where
  "handle_ss U G E ss req s =
     ignore_rc (ss_tx_to_ms_error U G E ss (invoke_id req) GSM0480_ERR_CODE_FACILITY_NOT_SUPPORTED s)"

definition handle_ussd ::
  "ss_lib \<Rightarrow> gsup_lib \<Rightarrow> sqlite_env \<Rightarrow> ss_session \<Rightarrow> bool \<Rightarrow> osmo_gsup_message \<Rightarrow> ss_request \<Rightarrow> 'a ussd_world_scheme
     \<Rightarrow> 'a ussd_world_scheme exec" where
  \<comment> \<open>a message that cannot be encoded is sent to the EUSE empty\<close>
  "handle_ussd U G E ss is_euse_originated gsup req s =
     (if ss_u ss = USE_NULL then
        ignore_rc (ss_tx_to_ms_error U G E ss (invoke_id req) GSM0480_ERR_CODE_SS_NOT_AVAILABLE s)
      else if is_euse_originated then ignore_rc (ss_gsup_send_to_ms G E ss gsup s)
      else if ss_is_external ss then
        (case ss_u ss of
           USE_EUSE e \<Rightarrow>
             let euse_name = fst (osmo_ipa_name_set_str ipa_name_empty (Some (''EUSE-'' @ euse_name e)))
             in (case gsup_route_find_by_ipa_name (gs s) euse_name of
                   None \<Rightarrow> ignore_rc (ss_tx_to_ms_error U G E ss (invoke_id req) GSM0480_ERR_CODE_SYSTEM_FAILURE s)
                 | Some conn \<Rightarrow>
                     Ret (s\<lparr>gs := fst (osmo_gsup_conn_send (Some conn)
                            (case osmo_gsup_encode G gsup of None \<Rightarrow> [] | Some msg \<Rightarrow> msg) (gs s))\<rparr>))
         | _ \<Rightarrow> Fault)
      else
        (case ss_u ss of
           USE_IUSE i \<Rightarrow>
             (case hlr_iuses i U G E ss req s of
                Fault \<Rightarrow> Fault
              | Ret s \<Rightarrow> ss_session_free ss s)
         | _ \<Rightarrow> Fault))"

definition dispatch_ss ::
  "ss_lib \<Rightarrow> gsup_lib \<Rightarrow> sqlite_env \<Rightarrow> ss_session \<Rightarrow> bool \<Rightarrow> osmo_gsup_message \<Rightarrow> ss_request \<Rightarrow> 'a ussd_world_scheme
     \<Rightarrow> 'a ussd_world_scheme exec" where
  \<comment> \<open>unstructured SS goes to the routing of USSD, everything else to \<open>handle_ss\<close>\<close>
  "dispatch_ss U G E ss is_euse_originated gsup req s =
     (if ss_op_is_ussd (ss_opcode_of req) then handle_ussd U G E ss is_euse_originated gsup req s
      else handle_ss U G E ss req s)"

definition ss_assign_use ::
  "bool \<Rightarrow> osmo_gsup_req \<Rightarrow> ss_request \<Rightarrow> ss_session \<Rightarrow> 'a ussd_world_scheme \<Rightarrow> ss_session" where
  \<comment> \<open>the entity responsible for a new session\<close>
  "ss_assign_use is_euse_originated gsup_req req ss s =
     (if is_euse_originated then
        ss\<lparr>ss_u := (case euse_by_name (req_source_name gsup_req) s of None \<Rightarrow> USE_NULL | Some e \<Rightarrow> USE_EUSE e)\<rparr>
      else (case ussd_route_lookup_7bit (ussd_text req) s of
              Some rt \<Rightarrow> ss\<lparr>ss_is_external := rt_is_external rt, ss_u := rt_u rt\<rparr>
            | None \<Rightarrow>
                (case euse_default s of
                   Some e \<Rightarrow> ss\<lparr>ss_is_external := True, ss_u := USE_EUSE e\<rparr>
                 | None \<Rightarrow> ss)))"

definition ss_begin ::
  "ss_lib \<Rightarrow> gsup_lib \<Rightarrow> sqlite_env \<Rightarrow> osmo_gsup_req \<Rightarrow> ss_request \<Rightarrow> 'a ussd_world_scheme \<Rightarrow> 'a ussd_world_scheme exec" where
  \<comment> \<open>session state BEGIN\<close>
  "ss_begin U G E gsup_req req s =
     (let gsup = req_gsup gsup_req; is_euse_originated = peer_name_is_euse (req_source_name gsup_req)
      in if ss_session_find (g_imsi gsup) (session_id gsup) s \<noteq> None then
           Ret (respond_err G gsup_req GMM_CAUSE_INV_MAND_INFO s)
         else (case ss_session_alloc (req_nr gsup_req) (g_imsi gsup) (session_id gsup) s of
           Fault \<Rightarrow> Fault
         | Ret (s, ss) \<Rightarrow>
             let ss = (if \<not> is_euse_originated
                       then ss\<lparr>initial_req_from_ms := Some gsup_req, ss_vlr_name := peer_ipa_name (req_source_name gsup_req)\<rparr>
                       else ss\<lparr>initial_req_from_euse := Some gsup_req\<rparr>);
                 ss = (if ss_op_is_ussd (ss_opcode_of req) then ss_assign_use is_euse_originated gsup_req req ss s else ss)
             in dispatch_ss U G E ss is_euse_originated gsup req (ss_store ss s)))"

definition rx_proc_ss_req ::
  "ss_lib \<Rightarrow> gsup_lib \<Rightarrow> sqlite_env \<Rightarrow> osmo_gsup_req \<Rightarrow> 'a ussd_world_scheme \<Rightarrow> 'a ussd_world_scheme exec" where
  "rx_proc_ss_req U G E gsup_req s =
     (let gsup = req_gsup gsup_req;
          is_euse_originated = peer_name_is_euse (req_source_name gsup_req);
          payload = name_len (ss_info gsup) \<noteq> 0;
          finish = (\<lambda>r. case r of Fault \<Rightarrow> Fault | Ret s \<Rightarrow> Ret (req_free gsup_req s))
      in if peer_type (req_source_name gsup_req) \<noteq> OSMO_CNI_PEER_ID_IPA_NAME then
           Ret (respond_err G gsup_req GMM_CAUSE_PROTO_ERR_UNSPEC s)
         else if \<not> payload \<and> session_state gsup \<noteq> OSMO_GSUP_SESSION_STATE_END then
           Ret (respond_err G gsup_req GMM_CAUSE_INV_MAND_INFO s)
         else (case (if payload then gsm0480_parse_facility_ie U (the (ss_info gsup)) else Some ss_request_zero) of
           None \<Rightarrow> Ret (respond_err G gsup_req GMM_CAUSE_INV_MAND_INFO s)
         | Some req \<Rightarrow>
           (case session_state gsup of
              OSMO_GSUP_SESSION_STATE_BEGIN \<Rightarrow> ss_begin U G E gsup_req req s
            | OSMO_GSUP_SESSION_STATE_CONTINUE \<Rightarrow>
                (case ss_session_find (g_imsi gsup) (session_id gsup) s of
                   None \<Rightarrow> Ret (respond_err G gsup_req GMM_CAUSE_INV_MAND_INFO s)
                 | Some ss \<Rightarrow>
                     let ss = ss\<lparr>ss_timeout := ss_timeout ss \<or> ncss_guard_timeout s > 0\<rparr>
                     in finish (dispatch_ss U G E ss is_euse_originated gsup req (ss_store ss s)))
            | OSMO_GSUP_SESSION_STATE_END \<Rightarrow>
                (case ss_session_find (g_imsi gsup) (session_id gsup) s of
                   None \<Rightarrow> Ret s
                 | Some ss \<Rightarrow>
                     finish (case (if payload then dispatch_ss U G E ss is_euse_originated gsup req s else Ret s) of
                             Fault \<Rightarrow> Fault
                           | Ret s \<Rightarrow> ss_session_free ss s))
            | _ \<Rightarrow> finish (Ret s))))"

definition rx_proc_ss_error :: "osmo_gsup_req \<Rightarrow> 'a ussd_world_scheme \<Rightarrow> 'a ussd_world_scheme" where
  \<comment> \<open>only a message in the log\<close>
  "rx_proc_ss_error req s = s"

section \<open>Invariant\<close>

definition ss_ok :: "ss_session \<Rightarrow> bool" where
  \<comment> \<open>a session between two messages holds the request that opened it and is never internal\<close>
  "ss_ok ss \<longleftrightarrow> (\<exists>req. req_nr req = ss_id ss \<and>
     (initial_req_from_ms ss = Some req \<and> initial_req_from_euse ss = None \<and>
        (ss_u ss = USE_NULL \<or> ss_is_external ss \<and> (ss_u ss = USE_FREED \<or> (\<exists>e. ss_u ss = USE_EUSE e))) \<or>
      initial_req_from_ms ss = None \<and> initial_req_from_euse ss = Some req \<and> \<not> ss_is_external ss \<and>
        (ss_u ss = USE_NULL \<or> ss_u ss = USE_FREED \<or> (\<exists>e. ss_u ss = USE_EUSE e))))"

definition route_ok :: "hlr_ussd_route \<Rightarrow> bool" where
  "route_ok rt \<longleftrightarrow> (if rt_is_external rt then rt_u rt = USE_FREED \<or> (\<exists>e. rt_u rt = USE_EUSE e) else \<exists>i. rt_u rt = USE_IUSE i)"

abbreviation ss_key :: "ss_session \<Rightarrow> string \<times> 32 word" where
  "ss_key ss \<equiv> (ss_imsi ss, ss_session_id ss)"

abbreviation ss_held :: "'a ussd_world_scheme \<Rightarrow> nat set" where
  "ss_held s \<equiv> ss_id ` set (ss_sessions s)"

definition ussd_inv :: "'a ussd_world_scheme \<Rightarrow> bool" where
  "ussd_inv s \<longleftrightarrow> distinct (map ss_id (ss_sessions s)) \<and> distinct (map ss_key (ss_sessions s)) \<and>
     (\<forall>ss \<in> set (ss_sessions s). ss_ok ss) \<and> (\<forall>rt \<in> set (ussd_routes s). route_ok rt)"

definition ss_lib_ok :: "ss_lib \<Rightarrow> bool" where
  \<comment> \<open>the encoders allocate their message\<close>
  "ss_lib_ok U \<longleftrightarrow> (\<forall>i e. gsm0480_gen_return_error U i e \<noteq> None) \<and> (\<forall>i t. gsm0480_gen_ussd_resp_7bit U i t \<noteq> None)"

section \<open>Sending changes no session\<close>

definition strip_vlr :: "ss_session \<Rightarrow> ss_session" where
  \<comment> \<open>a session without the cached VLR name and the timer\<close>
  "strip_vlr ss = ss\<lparr>ss_vlr_name := ipa_name_empty, ss_timeout := False\<rparr>"

lemma strip_vlr_sel [simp]:
  "ss_id (strip_vlr ss) = ss_id ss" "ss_imsi (strip_vlr ss) = ss_imsi ss" "ss_session_id (strip_vlr ss) = ss_session_id ss"
  "ss_u (strip_vlr ss) = ss_u ss" "ss_is_external (strip_vlr ss) = ss_is_external ss" "ss_ok (strip_vlr ss) = ss_ok ss"
  "strip_vlr (ss\<lparr>ss_vlr_name := n\<rparr>) = strip_vlr ss" "strip_vlr (ss\<lparr>ss_timeout := b\<rparr>) = strip_vlr ss"
  by (simp_all add: strip_vlr_def ss_ok_def)

definition quiet :: "'a ussd_world_scheme \<Rightarrow> 'a ussd_world_scheme \<Rightarrow> bool" where
  \<comment> \<open>nothing is deallocated and of the state only cached VLR names and timers change\<close>
  "quiet s s' \<longleftrightarrow> (\<forall>nr. freed nr (gs s') = freed nr (gs s)) \<and>
     map strip_vlr (ss_sessions s') = map strip_vlr (ss_sessions s) \<and> ussd_routes s' = ussd_routes s \<and>
     g_all_lu s' = g_all_lu s \<and> dbc s' = dbc s \<and> next_req_nr (gs s') = next_req_nr (gs s) \<and>
     ussd_world.more s' = ussd_world.more s"

definition stored :: "ss_session \<Rightarrow> 'a ussd_world_scheme \<Rightarrow> bool" where
  \<comment> \<open>the session is in the list, up to its cached VLR name and timer\<close>
  "stored ss s \<longleftrightarrow> ss_id ss \<in> ss_held s \<and> (\<forall>x \<in> set (ss_sessions s). ss_id x = ss_id ss \<longrightarrow> strip_vlr x = strip_vlr ss)"

lemma quiet_refl [simp]: "quiet s s"
  by (simp add: quiet_def)

lemma quiet_trans: "quiet s t \<Longrightarrow> quiet t u \<Longrightarrow> quiet s u"
  by (simp add: quiet_def)

lemma strip_map:
  assumes "map strip_vlr xs = map strip_vlr ys" and "\<And>x. f (strip_vlr x) = f x"
  shows "map f xs = map f ys"
proof -
  have "map f xs = map f (map strip_vlr xs)" using assms(2) by simp
  also have "\<dots> = map f ys" using assms by simp
  finally show ?thesis .
qed

lemma strip_facts:
  assumes "map strip_vlr xs = map strip_vlr ys"
  shows "map ss_id xs = map ss_id ys" and "map ss_key xs = map ss_key ys" and "ss_id ` set xs = ss_id ` set ys"
    and "(\<forall>x \<in> set xs. ss_ok x) = (\<forall>x \<in> set ys. ss_ok x)"
    and "map strip_vlr (filter (\<lambda>x. ss_id x \<noteq> i) xs) = map strip_vlr (filter (\<lambda>x. ss_id x \<noteq> i) ys)"
proof -
  have all: "(\<forall>x \<in> set zs. ss_ok x) \<longleftrightarrow> False \<notin> set (map ss_ok zs)" for zs by auto
  have filt: "map strip_vlr (filter (\<lambda>x. ss_id x \<noteq> i) zs) = filter (\<lambda>x. ss_id x \<noteq> i) (map strip_vlr zs)" for zs
    by (induction zs) simp_all
  show 1: "map ss_id xs = map ss_id ys" by (rule strip_map [OF assms]) simp
  show "map ss_key xs = map ss_key ys" by (rule strip_map [OF assms]) simp
  show "ss_id ` set xs = ss_id ` set ys" using arg_cong [OF 1, of set] by simp
  have "map ss_ok xs = map ss_ok ys" by (rule strip_map [OF assms]) simp
  then show "(\<forall>x \<in> set xs. ss_ok x) = (\<forall>x \<in> set ys. ss_ok x)" unfolding all by (rule arg_cong)
  show "map strip_vlr (filter (\<lambda>x. ss_id x \<noteq> i) xs) = map strip_vlr (filter (\<lambda>x. ss_id x \<noteq> i) ys)"
    unfolding filt assms ..
qed

definition sessions_ok :: "ss_session list \<Rightarrow> bool" where
  "sessions_ok xs \<longleftrightarrow> distinct (map ss_id xs) \<and> distinct (map ss_key xs) \<and> (\<forall>ss \<in> set xs. ss_ok ss)"

lemma sessions_ok_strip: "map strip_vlr xs = map strip_vlr ys \<Longrightarrow> sessions_ok xs = sessions_ok ys"
  using strip_facts [of xs ys] by (simp add: sessions_ok_def)

lemma ussd_inv_iff: "ussd_inv s \<longleftrightarrow> sessions_ok (ss_sessions s) \<and> (\<forall>rt \<in> set (ussd_routes s). route_ok rt)"
  by (auto simp: ussd_inv_def sessions_ok_def)

lemma quiet_held: "quiet s s' \<Longrightarrow> ss_held s' = ss_held s"
  using strip_facts(3) [of "ss_sessions s'" "ss_sessions s"] by (simp add: quiet_def)

lemma quiet_stored: "quiet s s' \<Longrightarrow> stored ss s \<Longrightarrow> stored ss s'"
proof -
  assume q: "quiet s s'" and st: "stored ss s"
  have e: "strip_vlr ` set (ss_sessions s') = strip_vlr ` set (ss_sessions s)"
    using q unfolding quiet_def by (metis list.set_map)
  have "strip_vlr x = strip_vlr ss" if "x \<in> set (ss_sessions s')" "ss_id x = ss_id ss" for x
  proof -
    from that(1) e obtain y where "y \<in> set (ss_sessions s)" "strip_vlr x = strip_vlr y" by (metis imageE imageI)
    with st that(2) show ?thesis unfolding stored_def by (metis strip_vlr_sel(1))
  qed
  with st quiet_held [OF q] show "stored ss s'" by (simp add: stored_def)
qed

lemma store_quiet:
  assumes "stored ss s"
  shows "quiet s (ss_store (ss\<lparr>ss_vlr_name := n\<rparr>) s)" and "quiet s (ss_store (ss\<lparr>ss_timeout := b\<rparr>) s)"
  using assms by (auto simp: quiet_def ss_store_def stored_def)

definition sends :: "('a ussd_world_scheme \<times> int) exec \<Rightarrow> 'a ussd_world_scheme \<Rightarrow> bool" where
  "sends r s \<longleftrightarrow> (\<exists>s' rc. r = Ret (s', rc) \<and> quiet s s')"

lemma gs_quiet: "(\<And>nr. freed nr g = freed nr (gs s)) \<Longrightarrow> next_req_nr g = next_req_nr (gs s) \<Longrightarrow> quiet s (s\<lparr>gs := g\<rparr>)"
  by (simp add: quiet_def)

lemma conn_send_freed: "freed nr (fst (osmo_gsup_conn_send c m g)) = freed nr g"
  by (simp add: osmo_gsup_conn_send_def split: option.splits)

lemma addr_send_freed: "freed nr (fst (osmo_gsup_addr_send a m g)) = freed nr g"
  by (simp add: osmo_gsup_addr_send_def conn_send_freed split: option.splits)

lemma conn_send_nr [simp]: "next_req_nr (fst (osmo_gsup_conn_send c m g)) = next_req_nr g"
  by (simp add: osmo_gsup_conn_send_def split: option.splits)

lemma send_to_name_freed:
  assumes "osmo_gsup_send_to_ipa_name n m g = Some (g', rc)"
  shows "freed nr g' = freed nr g" and "next_req_nr g' = next_req_nr g"
proof -
  obtain a where "osmo_gsup_addr_send a m g = (g', rc) \<or> g' = g"
    using assms by (auto simp: osmo_gsup_send_to_ipa_name_def Let_def split: if_splits)
  then show "freed nr g' = freed nr g" and "next_req_nr g' = next_req_nr g"
    by (metis fst_conv addr_send_freed, metis fst_conv addr_send_sel(3))
qed

lemma send_to_name_ok: "ipa_len n \<noteq> 0 \<Longrightarrow> \<exists>g' rc. osmo_gsup_send_to_ipa_name n m g = Some (g', rc)"
  by (simp add: osmo_gsup_send_to_ipa_name_def Let_def)

lemma send_to_vlr:
  assumes "quiet s0 s"
  shows "sends (if ipa_len n \<le> 1 then Ret (s, - EINVAL)
    else (case osmo_gsup_send_to_ipa_name n msg (gs s) of None \<Rightarrow> Fault | Some (g, rc) \<Rightarrow> Ret (s\<lparr>gs := g\<rparr>, rc))) s0"
proof (cases "ipa_len n \<le> 1")
  case False
  then obtain g rc where "osmo_gsup_send_to_ipa_name n msg (gs s) = Some (g, rc)" using send_to_name_ok [of n] by force
  then show ?thesis
    using False gs_quiet [of g s] send_to_name_freed quiet_trans [OF assms] by (auto simp: sends_def)
qed (use assms in \<open>auto simp: sends_def\<close>)

lemma send_to_ms_quiet: "stored ss s \<Longrightarrow> sends (ss_gsup_send_to_ms G E ss m s) s"
proof (cases "initial_req_from_ms ss")
  case (Some req)
  have "quiet s (fst (respond G req m False False s))"
    unfolding respond_def prod.case_eq_if fst_conv by (rule gs_quiet) (simp_all add: hcb.respond_freed hcb.respond_fields)
  with Some show ?thesis by (simp add: ss_gsup_send_to_ms_def sends_def)
next
  case None
  assume st: "stored ss s"
  show ?thesis
  proof (cases "osmo_gsup_encode G m")
    case None
    then show ?thesis using \<open>initial_req_from_ms ss = None\<close> by (simp add: ss_gsup_send_to_ms_def sends_def)
  next
    case (Some msg)
    show ?thesis
    proof (cases "ipa_len (ss_vlr_name ss) = 0")
      case True
      show ?thesis
      proof (cases "db_subscr_get_by_imsi E (ss_imsi ss) (dbc s)")
        case (Inl e)
        then show ?thesis
          using True \<open>initial_req_from_ms ss = None\<close> Some by (simp add: ss_gsup_send_to_ms_def sends_def)
      next
        case (Inr subscr)
        define n where "n = fst (osmo_ipa_name_set_str (ss_vlr_name ss) (Some (sub_vlr_number subscr)))"
        have "sends (if ipa_len n \<le> 1 then Ret (ss_store (ss\<lparr>ss_vlr_name := n\<rparr>) s, - EINVAL)
            else (case osmo_gsup_send_to_ipa_name n msg (gs (ss_store (ss\<lparr>ss_vlr_name := n\<rparr>) s)) of
              None \<Rightarrow> Fault | Some (g, rc) \<Rightarrow> Ret ((ss_store (ss\<lparr>ss_vlr_name := n\<rparr>) s)\<lparr>gs := g\<rparr>, rc))) s"
          by (rule send_to_vlr [OF store_quiet(1) [OF st]])
        then show ?thesis
          unfolding ss_gsup_send_to_ms_def \<open>initial_req_from_ms ss = None\<close> Some Inr option.case sum.case Let_def
            n_def [symmetric]
          using True by (cases "ipa_len n \<le> 1") simp_all
      qed
    next
      case False
      then show ?thesis
        using \<open>initial_req_from_ms ss = None\<close> Some send_to_vlr [OF quiet_refl, of "ss_vlr_name ss" s msg]
        by (cases "ipa_len (ss_vlr_name ss) \<le> 1") (simp_all add: ss_gsup_send_to_ms_def Let_def)
    qed
  qed
qed

lemma tx_quiet:
  assumes "stored ss s" and "ss_lib_ok U"
  shows "sends (ss_tx_to_ms_error U G E ss i e s) s" and "sends (ss_tx_to_ms_ussd_7bit U G E ss f i t s) s"
proof -
  obtain m1 m2 where "gsm0480_gen_return_error U i e = Some m1" "gsm0480_gen_ussd_resp_7bit U i t = Some m2"
    using assms(2) unfolding ss_lib_ok_def by (metis not_None_eq)
  then show "sends (ss_tx_to_ms_error U G E ss i e s) s" and "sends (ss_tx_to_ms_ussd_7bit U G E ss f i t s) s"
    using send_to_ms_quiet [OF assms(1)]
    by (simp_all add: ss_tx_to_ms_error_def ss_tx_to_ms_ussd_7bit_def ss_tx_to_ms_def)
qed

definition quiet_exec :: "'a ussd_world_scheme exec \<Rightarrow> 'a ussd_world_scheme \<Rightarrow> bool" where
  "quiet_exec r s \<longleftrightarrow> (\<exists>s'. r = Ret s' \<and> quiet s s')"

lemma ignore_rc_quiet: "sends r s \<Longrightarrow> quiet_exec (ignore_rc r) s"
  by (auto simp: sends_def quiet_exec_def ignore_rc_def)

lemma iuse_quiet: "stored ss s \<Longrightarrow> ss_lib_ok U \<Longrightarrow> quiet_exec (hlr_iuses i U G E ss req s) s"
  using tx_quiet [of ss s U G E]
  by (auto simp: hlr_iuses_def handle_ussd_own_msisdn_def handle_ussd_own_imsi_def
      intro!: ignore_rc_quiet split: hlr_iuse.splits sum.splits)

definition mt_reply :: "ss_session \<Rightarrow> bool \<Rightarrow> ss_request \<Rightarrow> bool" where
  \<comment> \<open>an unstructured message of the phone on a session that an EUSE opened\<close>
  "mt_reply ss is_euse req \<longleftrightarrow> initial_req_from_euse ss \<noteq> None \<and> ss_u ss \<noteq> USE_NULL \<and> \<not> is_euse \<and>
     ss_op_is_ussd (ss_opcode_of req)"

definition dead_use :: "ss_session \<Rightarrow> bool \<Rightarrow> ss_request \<Rightarrow> bool" where
  \<comment> \<open>an unstructured message of the phone for an external entity that has been removed\<close>
  "dead_use ss is_euse req \<longleftrightarrow> ss_is_external ss \<and> ss_u ss = USE_FREED \<and> \<not> is_euse \<and> ss_op_is_ussd (ss_opcode_of req)"

definition use_fails :: "ss_session \<Rightarrow> bool \<Rightarrow> ss_request \<Rightarrow> bool" where
  "use_fails ss is_euse req \<longleftrightarrow> mt_reply ss is_euse req \<or> dead_use ss is_euse req"

lemmas use_fails_defs = use_fails_def mt_reply_def dead_use_def

lemma use_fails_timeout [simp]: "use_fails (ss\<lparr>ss_timeout := b\<rparr>) is_euse req = use_fails ss is_euse req"
  by (simp add: use_fails_defs)

lemma dispatch_quiet:
  assumes st: "stored ss s" and U: "ss_lib_ok U" and ok: "ss_ok ss" and mt: "\<not> use_fails ss is_euse req"
  shows "quiet_exec (dispatch_ss U G E ss is_euse m req s) s"
proof -
  note tx = tx_quiet [OF st U, THEN ignore_rc_quiet] and fwd = send_to_ms_quiet [OF st, THEN ignore_rc_quiet]
  have conn: "quiet_exec (Ret (s\<lparr>gs := fst (osmo_gsup_conn_send c msg (gs s))\<rparr>)) s" for c msg
    using gs_quiet [of "fst (osmo_gsup_conn_send c msg (gs s))" s] by (simp add: quiet_exec_def conn_send_freed)
  show ?thesis
  proof (cases "ss_op_is_ussd (ss_opcode_of req) \<and> ss_u ss \<noteq> USE_NULL \<and> \<not> is_euse")
    case True
    then obtain e where "ss_is_external ss" "ss_u ss = USE_EUSE e"
      using ok mt by (auto simp: ss_ok_def use_fails_defs)
    then show ?thesis
      using True tx(1) conn by (simp add: dispatch_ss_def handle_ussd_def Let_def split: option.splits)
  next
    case False
    then show ?thesis using tx(1) fwd by (auto simp: dispatch_ss_def handle_ussd_def handle_ss_def)
  qed
qed

lemma dispatch_use_faults:
  "ss_ok ss \<Longrightarrow> use_fails ss is_euse req \<Longrightarrow> dispatch_ss U G E ss is_euse m req s = Fault"
  by (auto simp: dispatch_ss_def handle_ussd_def use_fails_defs ss_ok_def)

section \<open>What a message does\<close>

definition ss_result ::
  "nat set \<Rightarrow> ss_session list \<Rightarrow> 'a ussd_world_scheme \<Rightarrow> 'a ussd_world_scheme \<Rightarrow> bool" where
  \<comment> \<open>the requests in \<open>A\<close> are deallocated and the sessions are \<open>xs\<close>, up to VLR names and timers\<close>
  "ss_result A xs s s' \<longleftrightarrow> (\<forall>nr. freed nr (gs s') = freed nr (gs s) + (if nr \<in> A then 1 else 0)) \<and>
     map strip_vlr (ss_sessions s') = map strip_vlr xs \<and> ussd_routes s' = ussd_routes s \<and>
     g_all_lu s' = g_all_lu s \<and> dbc s' = dbc s \<and> next_req_nr (gs s') = next_req_nr (gs s) \<and>
     ussd_world.more s' = ussd_world.more s"

lemma respond_ss [simp]:
  "ss_sessions (respond_err G req cause s) = ss_sessions s" "ss_sessions (req_free req s) = ss_sessions s"
  "ussd_routes (respond_err G req cause s) = ussd_routes s" "ussd_routes (req_free req s) = ussd_routes s"
  "ussd_world.more (respond_err G req cause s) = ussd_world.more s" "ussd_world.more (req_free req s) = ussd_world.more s"
  by (simp_all add: respond_defs)

lemma quiet_result: "quiet s s' \<longleftrightarrow> ss_result {} (ss_sessions s) s s'"
  by (simp add: quiet_def ss_result_def)

lemma result_free:
  "ss_result A xs s s' \<Longrightarrow> req_nr req \<notin> A \<Longrightarrow> ss_result (insert (req_nr req) A) xs s (req_free req s')"
  by (auto simp: ss_result_def freed_simps)

lemma result_err: "ss_result {req_nr req} (ss_sessions s) s (respond_err G req c s)"
  by (simp add: ss_result_def freed_simps)

definition holds :: "ss_session \<Rightarrow> osmo_gsup_req \<Rightarrow> bool" where
  "holds ss req \<longleftrightarrow> req_nr req = ss_id ss \<and>
     (initial_req_from_ms ss = Some req \<and> initial_req_from_euse ss = None \<or>
      initial_req_from_ms ss = None \<and> initial_req_from_euse ss = Some req)"

lemma ss_ok_holds: "ss_ok ss \<Longrightarrow> \<exists>req. holds ss req"
  by (auto simp: ss_ok_def holds_def)

lemma result_end_session:
  assumes "ss_result A xs s t" and "ss_id ss \<in> ss_id ` set xs" and "holds ss req" and "ss_id ss \<notin> A"
  shows "\<exists>t'. ss_session_free ss t = Ret t' \<and> ss_result (insert (ss_id ss) A) (filter (\<lambda>x. ss_id x \<noteq> ss_id ss) xs) s t'"
proof -
  have e: "map strip_vlr (ss_sessions t) = map strip_vlr xs" using assms(1) by (simp add: ss_result_def)
  have "ss_id ss \<in> ss_held t" using assms(2) strip_facts(3) [OF e] by simp
  then show ?thesis
    using assms(1,3,4) strip_facts(5) [OF e, of "ss_id ss"]
    by (auto simp: ss_session_free_def Let_def free_opt_def holds_def ss_result_def freed_simps)
qed

lemma result_quiet: "ss_result A xs s t \<Longrightarrow> quiet t u \<Longrightarrow> ss_result A xs s u"
  by (simp add: ss_result_def quiet_def)

definition ss_opened :: "osmo_gsup_req \<Rightarrow> 'a ussd_world_scheme \<Rightarrow> ss_session" where
  \<comment> \<open>the new session of a BEGIN, before an entity is assigned\<close>
  "ss_opened q s =
     (let ss = \<lparr>ss_id = req_nr q, ss_imsi = strlcpy IMSI_BUF_SIZE (g_imsi (req_gsup q)), ss_session_id = session_id (req_gsup q),
                ss_timeout = (ncss_guard_timeout s > 0), ss_is_external = False, ss_u = USE_NULL,
                ss_vlr_name = ipa_name_empty, initial_req_from_ms = None, initial_req_from_euse = None\<rparr>
      in if \<not> peer_name_is_euse (req_source_name q)
         then ss\<lparr>initial_req_from_ms := Some q, ss_vlr_name := peer_ipa_name (req_source_name q)\<rparr>
         else ss\<lparr>initial_req_from_euse := Some q\<rparr>)"

definition ss_new :: "osmo_gsup_req \<Rightarrow> ss_request \<Rightarrow> 'a ussd_world_scheme \<Rightarrow> ss_session" where
  "ss_new q req s = (if ss_op_is_ussd (ss_opcode_of req)
     then ss_assign_use (peer_name_is_euse (req_source_name q)) q req (ss_opened q s) s else ss_opened q s)"

lemma assign_use_sel [simp]:
  "ss_id (ss_assign_use b q req ss s) = ss_id ss" "ss_imsi (ss_assign_use b q req ss s) = ss_imsi ss"
  "ss_session_id (ss_assign_use b q req ss s) = ss_session_id ss"
  "initial_req_from_ms (ss_assign_use b q req ss s) = initial_req_from_ms ss"
  "initial_req_from_euse (ss_assign_use b q req ss s) = initial_req_from_euse ss"
  by (simp_all add: ss_assign_use_def split: option.splits)

lemma ss_new_facts:
  "ss_id (ss_new q req s) = req_nr q" "holds (ss_new q req s) q"
  "ss_key (ss_new q req s) = (strlcpy IMSI_BUF_SIZE (g_imsi (req_gsup q)), session_id (req_gsup q))"
  "\<not> mt_reply (ss_new q req s) (peer_name_is_euse (req_source_name q)) req"
  by (simp_all add: ss_new_def ss_opened_def holds_def mt_reply_def Let_def)

lemma ss_new_use:
  assumes "\<forall>rt \<in> set (ussd_routes s). route_ok rt"
  shows "ss_ok (ss_new q req s) \<or> ss_op_is_ussd (ss_opcode_of req) \<and> \<not> peer_name_is_euse (req_source_name q) \<and>
    \<not> ss_is_external (ss_new q req s) \<and> (\<exists>i. ss_u (ss_new q req s) = USE_IUSE i)"
proof -
  have rt: "route_ok r" if "ussd_route_lookup_7bit c s = Some r" for c r
    using assms that by (auto simp: ussd_route_lookup_7bit_def dest!: find_SomeD)
  show ?thesis
    by (cases "ussd_route_lookup_7bit (ussd_text req) s")
      (auto simp: ss_new_def ss_opened_def ss_ok_def ss_assign_use_def Let_def route_ok_def dest!: rt split: option.splits if_splits)
qed

lemma begin_unfold:
  assumes "ss_session_find (g_imsi (req_gsup q)) (session_id (req_gsup q)) s = None" and "req_nr q \<notin> ss_held s"
  shows "ss_begin U G E q req s = dispatch_ss U G E (ss_new q req s) (peer_name_is_euse (req_source_name q)) (req_gsup q) req
    (s\<lparr>ss_sessions := ss_sessions s @ [ss_new q req s]\<rparr>)"
proof -
  have keep: "map (\<lambda>x. if ss_id x = req_nr q then l else x) (ss_sessions s) = ss_sessions s" for l
    using assms(2) by (intro map_idI) (auto simp: image_iff)
  have use: "ss_assign_use b q req ss (s\<lparr>ss_sessions := xs\<rparr>) = ss_assign_use b q req ss s" for b ss xs
    by (simp add: ss_assign_use_def euse_by_name_def euse_find_def ussd_route_lookup_7bit_def split: option.splits)
  show ?thesis
    using assms(1) by (simp add: ss_begin_def ss_session_alloc_def Let_def ss_store_def keep use ss_new_def ss_opened_def)
qed

definition begin_fails :: "osmo_gsup_req \<Rightarrow> ss_request \<Rightarrow> 'a ussd_world_scheme \<Rightarrow> bool" where
  \<comment> \<open>a new session of a phone is routed to an external entity that has been removed\<close>
  "begin_fails q req s \<longleftrightarrow> \<not> peer_name_is_euse (req_source_name q) \<and> ss_op_is_ussd (ss_opcode_of req) \<and>
     ss_session_find (g_imsi (req_gsup q)) (session_id (req_gsup q)) s = None \<and>
     (\<exists>rt. ussd_route_lookup_7bit (ussd_text req) s = Some rt \<and> rt_u rt = USE_FREED)"

lemma begin_fails_new:
  assumes "\<forall>rt \<in> set (ussd_routes s). route_ok rt"
    and "ss_session_find (g_imsi (req_gsup q)) (session_id (req_gsup q)) s = None"
  shows "begin_fails q req s \<longleftrightarrow> use_fails (ss_new q req s) (peer_name_is_euse (req_source_name q)) req"
proof -
  have rt: "route_ok r" if "ussd_route_lookup_7bit c s = Some r" for c r
    using assms(1) that by (auto simp: ussd_route_lookup_7bit_def dest!: find_SomeD)
  show ?thesis
    using assms(2) rt [of "ussd_text req"]
    by (auto simp: begin_fails_def use_fails_defs ss_new_def ss_opened_def ss_assign_use_def Let_def route_ok_def
        split: option.splits if_splits)
qed

lemma begin_result:
  assumes inv: "ussd_inv s" and U: "ss_lib_ok U" and fresh: "req_nr q \<notin> ss_held s" and live: "\<not> begin_fails q req s"
  shows "\<exists>s'. ss_begin U G E q req s = Ret s' \<and>
    (ss_result {req_nr q} (ss_sessions s) s s' \<or>
     ss_session_find (g_imsi (req_gsup q)) (session_id (req_gsup q)) s = None \<and> ss_ok (ss_new q req s) \<and>
       ss_result {} (ss_sessions s @ [ss_new q req s]) s s')"
proof (cases "ss_session_find (g_imsi (req_gsup q)) (session_id (req_gsup q)) s")
  case (Some ss)
  then show ?thesis using result_err by (simp add: ss_begin_def Let_def)
next
  case None
  let ?ss = "ss_new q req s" and ?euse = "peer_name_is_euse (req_source_name q)"
  define t where "t = s\<lparr>ss_sessions := ss_sessions s @ [?ss]\<rparr>"
  have t: "ss_result {} (ss_sessions s @ [?ss]) s t" by (simp add: ss_result_def t_def)
  have st: "stored ?ss t" using fresh by (auto simp: stored_def t_def ss_new_facts(1) image_iff)
  note opened = begin_unfold [OF None fresh, of U G E req, folded t_def]
  show ?thesis
  proof (cases "ss_ok ?ss")
    case True
    have "\<not> use_fails ?ss ?euse req" using begin_fails_new [OF _ None, of req] inv live by (simp add: ussd_inv_iff)
    from dispatch_quiet [OF st U True this, where G = G and E = E and m = "req_gsup q"]
    show ?thesis using None True result_quiet [OF t] by (auto simp: opened quiet_exec_def)
  next
    case False
    with ss_new_use [of s q req] inv obtain i where i: "ss_op_is_ussd (ss_opcode_of req)" "\<not> ?euse"
      "\<not> ss_is_external ?ss" "ss_u ?ss = USE_IUSE i" by (auto simp: ussd_inv_iff)
    obtain u where u: "hlr_iuses i U G E ?ss req t = Ret u" "quiet t u"
      using iuse_quiet [OF st U, of i G E req] by (auto simp: quiet_exec_def)
    from result_end_session [OF result_quiet [OF t u(2)] _ ss_new_facts(2) [of q req s]] obtain u' where
      f: "ss_session_free ?ss u = Ret u'" and
      r: "ss_result {ss_id ?ss} (filter (\<lambda>x. ss_id x \<noteq> ss_id ?ss) (ss_sessions s @ [?ss])) s u'" by auto
    have "filter (\<lambda>x. ss_id x \<noteq> ss_id ?ss) (ss_sessions s @ [?ss]) = ss_sessions s"
      using fresh by (auto simp: ss_new_facts(1) filter_id_conv image_iff)
    with r f i u(1) show ?thesis by (simp add: opened dispatch_ss_def handle_ussd_def ss_new_facts(1))
  qed
qed

definition ss_end_unknown :: "osmo_gsup_req \<Rightarrow> 'a ussd_world_scheme \<Rightarrow> bool" where
  \<comment> \<open>an END for a session that does not exist\<close>
  "ss_end_unknown q s \<longleftrightarrow> session_state (req_gsup q) = OSMO_GSUP_SESSION_STATE_END \<and>
     ss_session_find (g_imsi (req_gsup q)) (session_id (req_gsup q)) s = None"

definition ss_mt_reply :: "ss_lib \<Rightarrow> osmo_gsup_req \<Rightarrow> 'a ussd_world_scheme \<Rightarrow> bool" where
  \<comment> \<open>the phone answers on a session that an EUSE opened\<close>
  "ss_mt_reply U q s \<longleftrightarrow>
     peer_type (req_source_name q) = OSMO_CNI_PEER_ID_IPA_NAME \<and>
     session_state (req_gsup q) \<in> {OSMO_GSUP_SESSION_STATE_CONTINUE, OSMO_GSUP_SESSION_STATE_END} \<and>
     (\<exists>ss req. ss_session_find (g_imsi (req_gsup q)) (session_id (req_gsup q)) s = Some ss \<and>
        name_len (ss_info (req_gsup q)) \<noteq> 0 \<and> gsm0480_parse_facility_ie U (the (ss_info (req_gsup q))) = Some req \<and>
        mt_reply ss (peer_name_is_euse (req_source_name q)) req)"

definition ss_dead_use :: "ss_lib \<Rightarrow> osmo_gsup_req \<Rightarrow> 'a ussd_world_scheme \<Rightarrow> bool" where
  \<comment> \<open>a phone uses an external entity that has been removed: a new session is routed to it, or an open
    session belongs to it\<close>
  "ss_dead_use U q s \<longleftrightarrow>
     peer_type (req_source_name q) = OSMO_CNI_PEER_ID_IPA_NAME \<and> name_len (ss_info (req_gsup q)) \<noteq> 0 \<and>
     (\<exists>req. gsm0480_parse_facility_ie U (the (ss_info (req_gsup q))) = Some req \<and>
        (session_state (req_gsup q) = OSMO_GSUP_SESSION_STATE_BEGIN \<and> begin_fails q req s \<or>
         session_state (req_gsup q) \<in> {OSMO_GSUP_SESSION_STATE_CONTINUE, OSMO_GSUP_SESSION_STATE_END} \<and>
           (\<exists>ss. ss_session_find (g_imsi (req_gsup q)) (session_id (req_gsup q)) s = Some ss \<and>
              dead_use ss (peer_name_is_euse (req_source_name q)) req)))"

definition ss_fails :: "ss_lib \<Rightarrow> osmo_gsup_req \<Rightarrow> 'a ussd_world_scheme \<Rightarrow> bool" where
  "ss_fails U q s \<longleftrightarrow> ss_mt_reply U q s \<or> ss_dead_use U q s"

lemma ss_fails_iff:
  "ss_fails U q s \<longleftrightarrow> peer_type (req_source_name q) = OSMO_CNI_PEER_ID_IPA_NAME \<and> name_len (ss_info (req_gsup q)) \<noteq> 0 \<and>
     (\<exists>req. gsm0480_parse_facility_ie U (the (ss_info (req_gsup q))) = Some req \<and>
        (session_state (req_gsup q) = OSMO_GSUP_SESSION_STATE_BEGIN \<and> begin_fails q req s \<or>
         session_state (req_gsup q) \<in> {OSMO_GSUP_SESSION_STATE_CONTINUE, OSMO_GSUP_SESSION_STATE_END} \<and>
           (\<exists>ss. ss_session_find (g_imsi (req_gsup q)) (session_id (req_gsup q)) s = Some ss \<and>
              use_fails ss (peer_name_is_euse (req_source_name q)) req)))"
  unfolding ss_fails_def ss_mt_reply_def ss_dead_use_def use_fails_def by blast

lemma find_none_key:
  "ss_session_find imsi sid s = None \<Longrightarrow> (imsi, sid) \<notin> ss_key ` set (ss_sessions s)"
  by (auto simp: ss_session_find_def find_None_iff)

definition ss_outcome :: "osmo_gsup_req \<Rightarrow> 'a ussd_world_scheme \<Rightarrow> 'a ussd_world_scheme \<Rightarrow> bool" where
  \<comment> \<open>the request is deallocated; or a new session holds it; or it ends a session, whose request
    is deallocated with it\<close>
  "ss_outcome q s s' \<longleftrightarrow>
     ss_result {req_nr q} (ss_sessions s) s s' \<or>
     (\<exists>ss. ss_ok ss \<and> ss_id ss = req_nr q \<and> ss_key ss \<notin> ss_key ` set (ss_sessions s) \<and>
        ss_result {} (ss_sessions s @ [ss]) s s') \<or>
     (\<exists>ss \<in> set (ss_sessions s).
        ss_result {req_nr q, ss_id ss} (filter (\<lambda>x. ss_id x \<noteq> ss_id ss) (ss_sessions s)) s s')"

lemma found_stored:
  assumes "ussd_inv s" and "ss_session_find imsi sid s = Some ss"
  shows "ss \<in> set (ss_sessions s)" and "ss_ok ss" and "stored ss s"
proof -
  show m: "ss \<in> set (ss_sessions s)" using assms(2) by (auto simp: ss_session_find_def dest: find_SomeD)
  then show "ss_ok ss" using assms(1) by (simp add: ussd_inv_def)
  have "x = ss" if "x \<in> set (ss_sessions s)" "ss_id x = ss_id ss" for x
    using assms(1) m that by (auto simp: ussd_inv_def distinct_map dest: inj_onD)
  with m show "stored ss s" by (auto simp: stored_def)
qed

lemma stored_timeout: "stored ss s \<Longrightarrow> stored (ss\<lparr>ss_timeout := b\<rparr>) s"
  by (simp add: stored_def)

lemma continue_result:
  assumes inv: "ussd_inv s" and U: "ss_lib_ok U" and ss: "ss_session_find imsi sid s = Some ss"
    and mt: "\<not> use_fails ss is_euse req"
  shows "quiet_exec (dispatch_ss U G E (ss\<lparr>ss_timeout := b\<rparr>) is_euse m req (ss_store (ss\<lparr>ss_timeout := b\<rparr>) s)) s"
proof -
  note f = found_stored [OF inv ss]
  have st: "stored (ss\<lparr>ss_timeout := b\<rparr>) (ss_store (ss\<lparr>ss_timeout := b\<rparr>) s)"
    using quiet_stored [OF store_quiet(2) [OF f(3)] stored_timeout [OF f(3)]] .
  have ok: "ss_ok (ss\<lparr>ss_timeout := b\<rparr>)" "\<not> use_fails (ss\<lparr>ss_timeout := b\<rparr>) is_euse req"
    using f(2) mt by (simp_all add: ss_ok_def)
  show ?thesis
    using dispatch_quiet [OF st U ok, of G E m] quiet_trans [OF store_quiet(2) [OF f(3)]] by (auto simp: quiet_exec_def)
qed

lemma end_result:
  assumes inv: "ussd_inv s" and U: "ss_lib_ok U" and ss: "ss_session_find imsi sid s = Some ss"
    and mt: "payload \<longrightarrow> \<not> use_fails ss is_euse req" and fresh: "req_nr q \<notin> ss_held s"
  shows "\<exists>s'. (case (if payload then dispatch_ss U G E ss is_euse m req s else Ret s) of
      Fault \<Rightarrow> Fault | Ret s \<Rightarrow> ss_session_free ss s) = Ret s' \<and>
    ss_result {req_nr q, ss_id ss} (filter (\<lambda>x. ss_id x \<noteq> ss_id ss) (ss_sessions s)) s (req_free q s')"
proof -
  note f = found_stored [OF inv ss]
  obtain t where t: "(if payload then dispatch_ss U G E ss is_euse m req s else Ret s) = Ret t" "quiet s t"
    using dispatch_quiet [OF f(3) U f(2), of is_euse req G E m] mt by (cases payload) (auto simp: quiet_exec_def)
  obtain r where r: "holds ss r" using ss_ok_holds [OF f(2)] by blast
  have "ss_id ss \<in> ss_held s" "req_nr q \<noteq> ss_id ss" using f(1) fresh by auto
  with result_end_session [OF t(2) [unfolded quiet_result] _ r] t(1) show ?thesis
    by (auto dest: result_free)
qed

lemma rx_outcome:
  assumes inv: "ussd_inv s" and U: "ss_lib_ok U" and fresh: "req_nr q \<notin> ss_held s" and wf: "gsup_wf (req_gsup q)"
    and mt: "\<not> ss_fails U q s" and known: "\<not> ss_end_unknown q s"
  shows "\<exists>s'. rx_proc_ss_req U G E q s = Ret s' \<and> ss_outcome q s s'"
proof -
  let ?m = "req_gsup q" and ?e = "peer_name_is_euse (req_source_name q)"
  let ?find = "ss_session_find (g_imsi ?m) (session_id ?m) s" and ?pay = "name_len (ss_info ?m) \<noteq> 0"
  have err: "ss_outcome q s (respond_err G q c s)" for c using result_err [of q s G c] by (simp add: ss_outcome_def)
  have fin: "ss_outcome q s (req_free q t)" if "quiet s t" for t
    using result_free [of "{}" _ s t q] that by (simp add: quiet_result ss_outcome_def)
  show ?thesis
  proof (cases "peer_type (req_source_name q) \<noteq> OSMO_CNI_PEER_ID_IPA_NAME \<or>
      (\<not> ?pay \<and> session_state ?m \<noteq> OSMO_GSUP_SESSION_STATE_END) \<or>
      (if ?pay then gsm0480_parse_facility_ie U (the (ss_info ?m)) else Some ss_request_zero) = None")
    case True
    then show ?thesis using err by (auto simp: rx_proc_ss_req_def Let_def)
  next
    case False
    then obtain req where p: "(if ?pay then gsm0480_parse_facility_ie U (the (ss_info ?m)) else Some ss_request_zero) = Some req"
      by auto
    have pt: "peer_type (req_source_name q) = OSMO_CNI_PEER_ID_IPA_NAME"
      and py: "session_state ?m \<noteq> OSMO_GSUP_SESSION_STATE_END \<longrightarrow> ?pay" using False by auto
    have nmt: "?pay \<longrightarrow> \<not> use_fails ss ?e req"
      if "?find = Some ss" "session_state ?m \<in> {OSMO_GSUP_SESSION_STATE_CONTINUE, OSMO_GSUP_SESSION_STATE_END}" for ss
      using mt p pt that by (auto simp: ss_fails_iff)
    note rx = rx_proc_ss_req_def [of U G E q s, unfolded Let_def p option.case]
    show ?thesis
    proof (cases "session_state ?m")
      case OSMO_GSUP_SESSION_STATE_BEGIN
      have live: "\<not> begin_fails q req s" using mt p pt py OSMO_GSUP_SESSION_STATE_BEGIN by (auto simp: ss_fails_iff)
      have "ss_key (ss_new q req s) = (g_imsi ?m, session_id ?m)" using wf ss_new_facts(3) [of q req s] by (simp add: gsup_wf_def)
      then have "?find = None \<longrightarrow> ss_key (ss_new q req s) \<notin> ss_key ` set (ss_sessions s)"
        using find_none_key [of "g_imsi ?m" "session_id ?m" s] by simp
      then have new: "ss_outcome q s s'" if "?find = None" "ss_ok (ss_new q req s)"
          "ss_result {} (ss_sessions s @ [ss_new q req s]) s s'" for s'
        using that ss_new_facts(1) [of q req s] unfolding ss_outcome_def
        by (intro disjI2 disjI1 exI [of _ "ss_new q req s"]) simp
      have "ss_outcome q s s'" if "ss_result {req_nr q} (ss_sessions s) s s'" for s'
        using that by (simp add: ss_outcome_def)
      with new show ?thesis
        using begin_result [OF inv U fresh live, of G E] pt py OSMO_GSUP_SESSION_STATE_BEGIN by (auto simp: rx)
    next
      case OSMO_GSUP_SESSION_STATE_CONTINUE
      show ?thesis
      proof (cases ?find)
        case None
        then show ?thesis using OSMO_GSUP_SESSION_STATE_CONTINUE pt py err by (auto simp: rx)
      next
        case (Some ss)
        then show ?thesis
          using continue_result [OF inv U Some, of ?e req G E "ss_timeout ss \<or> ncss_guard_timeout s > 0" ?m]
            nmt [OF Some] OSMO_GSUP_SESSION_STATE_CONTINUE pt py fin
          by (auto simp: rx quiet_exec_def)
      qed
    next
      case OSMO_GSUP_SESSION_STATE_END
      with known obtain ss where ss: "?find = Some ss" by (auto simp: ss_end_unknown_def)
      with end_result [OF inv U ss, of ?pay ?e req q G E ?m] nmt [OF ss] OSMO_GSUP_SESSION_STATE_END fresh
      obtain t where "(case (if ?pay then dispatch_ss U G E ss ?e ?m req s else Ret s) of
          Fault \<Rightarrow> Fault | Ret s \<Rightarrow> ss_session_free ss s) = Ret t"
        "ss_result {req_nr q, ss_id ss} (filter (\<lambda>x. ss_id x \<noteq> ss_id ss) (ss_sessions s)) s (req_free q t)" by auto
      then show ?thesis
        using OSMO_GSUP_SESSION_STATE_END pt ss found_stored(1) [OF inv ss] by (auto simp: rx ss_outcome_def)
    qed (use pt py fin [OF quiet_refl] in \<open>simp_all add: rx\<close>)
  qed
qed

lemma begin_fails_faults:
  assumes "ussd_inv s" and "req_nr q \<notin> ss_held s" and "begin_fails q req s"
  shows "ss_begin U G E q req s = Fault"
proof -
  have none: "ss_session_find (g_imsi (req_gsup q)) (session_id (req_gsup q)) s = None" using assms(3) by (simp add: begin_fails_def)
  have rts: "\<forall>rt \<in> set (ussd_routes s). route_ok rt" using assms(1) by (simp add: ussd_inv_iff)
  have f: "use_fails (ss_new q req s) (peer_name_is_euse (req_source_name q)) req"
    using begin_fails_new [OF rts none, of req] assms(3) by blast
  then have "\<not> (\<exists>i. ss_u (ss_new q req s) = USE_IUSE i)"
    using ss_new_facts(4) [of q req s] by (auto simp: use_fails_def dead_use_def)
  then have "ss_ok (ss_new q req s)" using ss_new_use [OF rts, of q req] by blast
  then show ?thesis using begin_unfold [OF none assms(2), of U G E req] dispatch_use_faults [OF _ f] by simp
qed

lemma ss_fails_faults:
  fixes s :: "'a ussd_world_scheme"
  assumes inv: "ussd_inv s" and fresh: "req_nr q \<notin> ss_held s" and "ss_fails U q s"
  shows "rx_proc_ss_req U G E q s = Fault"
proof -
  let ?m = "req_gsup q" and ?e = "peer_name_is_euse (req_source_name q)"
  from assms(3) obtain req where p: "peer_type (req_source_name q) = OSMO_CNI_PEER_ID_IPA_NAME" "name_len (ss_info ?m) \<noteq> 0"
      "gsm0480_parse_facility_ie U (the (ss_info ?m)) = Some req"
    and c: "session_state ?m = OSMO_GSUP_SESSION_STATE_BEGIN \<and> begin_fails q req s \<or>
      session_state ?m \<in> {OSMO_GSUP_SESSION_STATE_CONTINUE, OSMO_GSUP_SESSION_STATE_END} \<and>
        (\<exists>ss. ss_session_find (g_imsi ?m) (session_id ?m) s = Some ss \<and> use_fails ss ?e req)"
    unfolding ss_fails_iff by blast
  from c show ?thesis
  proof
    assume "session_state ?m = OSMO_GSUP_SESSION_STATE_BEGIN \<and> begin_fails q req s"
    then show ?thesis using p begin_fails_faults [OF inv fresh] by (simp add: rx_proc_ss_req_def Let_def)
  next
    assume "session_state ?m \<in> {OSMO_GSUP_SESSION_STATE_CONTINUE, OSMO_GSUP_SESSION_STATE_END} \<and>
      (\<exists>ss. ss_session_find (g_imsi ?m) (session_id ?m) s = Some ss \<and> use_fails ss ?e req)"
    then obtain ss where st: "session_state ?m \<in> {OSMO_GSUP_SESSION_STATE_CONTINUE, OSMO_GSUP_SESSION_STATE_END}"
      and ss: "ss_session_find (g_imsi ?m) (session_id ?m) s = Some ss" and f: "use_fails ss ?e req" by blast
    have ok: "ss_ok ss" "ss_ok (ss\<lparr>ss_timeout := b\<rparr>)" for b
      using found_stored(2) [OF inv ss] by (simp_all add: ss_ok_def)
    have "dispatch_ss U G E ss ?e m req t = Fault" "dispatch_ss U G E (ss\<lparr>ss_timeout := b\<rparr>) ?e m req t = Fault"
      for m b and t :: "'a ussd_world_scheme"
      using dispatch_use_faults [OF ok(1) f] dispatch_use_faults [OF ok(2), where is_euse = ?e and req = req] f by simp_all
    then show ?thesis using st ss p by (auto simp: rx_proc_ss_req_def Let_def)
  qed
qed

lemma end_unknown_result:
  assumes "ss_end_unknown q s"
  shows "rx_proc_ss_req U G E q s = Ret s \<or> (\<exists>c. rx_proc_ss_req U G E q s = Ret (respond_err G q c s))"
  using assms by (auto simp: ss_end_unknown_def rx_proc_ss_req_def Let_def split: option.splits)

lemma result_effect:
  assumes "ss_result A xs s s'" and "ss_id ` set xs = (ss_held s \<union> B) - A"
  shows "effect ss_held A B s s'"
  using assms strip_facts(3) [of "ss_sessions s'" xs] by (auto simp: ss_result_def effect_def)

lemma result_inv:
  assumes "ss_result A xs s s'" and "sessions_ok xs" and "ussd_inv s"
  shows "ussd_inv s'"
  using assms sessions_ok_strip [of "ss_sessions s'" xs] by (auto simp: ss_result_def ussd_inv_iff)

lemma sessions_ok_filter: "sessions_ok xs \<Longrightarrow> sessions_ok (filter P xs)"
  by (auto simp: sessions_ok_def distinct_map_filter)

lemma outcome_keeps:
  assumes "ussd_inv s" and "req_nr q \<notin> ss_held s" and "ss_outcome q s s'"
  shows "ussd_inv s'" and "\<exists>A B. effect ss_held A B s s' \<and> A \<subseteq> insert (req_nr q) (ss_held s) \<and> B \<subseteq> {req_nr q} \<and> req_nr q \<in> A \<union> B"
proof -
  have ok: "sessions_ok (ss_sessions s)" using assms(1) by (simp add: ussd_inv_iff)
  from assms(3) consider (a) "ss_result {req_nr q} (ss_sessions s) s s'"
    | (b) ss where "ss_ok ss" "ss_id ss = req_nr q" "ss_key ss \<notin> ss_key ` set (ss_sessions s)"
        "ss_result {} (ss_sessions s @ [ss]) s s'"
    | (c) ss where "ss \<in> set (ss_sessions s)"
        "ss_result {req_nr q, ss_id ss} (filter (\<lambda>x. ss_id x \<noteq> ss_id ss) (ss_sessions s)) s s'"
    unfolding ss_outcome_def by blast
  then have "ussd_inv s' \<and> (\<exists>A B. effect ss_held A B s s' \<and> A \<subseteq> insert (req_nr q) (ss_held s) \<and> B \<subseteq> {req_nr q} \<and> req_nr q \<in> A \<union> B)"
  proof cases
    case a
    have "effect ss_held {req_nr q} {} s s'" using result_effect [OF a, of "{}"] assms(2) by simp
    then show ?thesis using result_inv [OF a ok assms(1)] by blast
  next
    case b
    have "sessions_ok (ss_sessions s @ [ss])" using ok b(1-3) assms(2) by (auto simp: sessions_ok_def image_iff)
    moreover have "effect ss_held {} {req_nr q} s s'" using result_effect [OF b(4), of "{req_nr q}"] b(2) by simp
    ultimately show ?thesis using result_inv [OF b(4) _ assms(1)] by blast
  next
    case c
    have "effect ss_held {req_nr q, ss_id ss} {} s s'" using assms(2) by (intro result_effect [OF c(2)]) auto
    then show ?thesis using result_inv [OF c(2) sessions_ok_filter [OF ok] assms(1)] c(1) by blast
  qed
  then show "ussd_inv s'" and "\<exists>A B. effect ss_held A B s s' \<and> A \<subseteq> insert (req_nr q) (ss_held s) \<and> B \<subseteq> {req_nr q} \<and> req_nr q \<in> A \<union> B"
    by blast+
qed

lemma rx_ss_keeps:
  assumes "ussd_inv s" and "ss_lib_ok U" and "req_nr q \<notin> ss_held s" and "gsup_wf (req_gsup q)"
    and "rx_proc_ss_req U G E q s = Ret s'"
  shows "ussd_inv s'" and "owned ss_held nr s \<Longrightarrow> nr \<noteq> req_nr q \<Longrightarrow> owned ss_held nr s'"
    and "freed (req_nr q) (gs s) = 0 \<Longrightarrow> \<not> ss_end_unknown q s \<Longrightarrow> owned ss_held (req_nr q) s'"
proof -
  have mt: "\<not> ss_fails U q s" using ss_fails_faults [OF assms(1,3)] assms(5) by auto
  have err: "ss_outcome q s (respond_err G q c s)" for c using result_err [of q s G c] by (simp add: ss_outcome_def)
  have "ss_end_unknown q s \<and> s' = s \<or> ss_outcome q s s'"
    using rx_outcome [OF assms(1-4) mt, of G E] end_unknown_result [of q s U G E] err assms(5) by (cases "ss_end_unknown q s") auto
  then have "ussd_inv s' \<and> (owned ss_held nr s \<longrightarrow> nr \<noteq> req_nr q \<longrightarrow> owned ss_held nr s') \<and>
    (freed (req_nr q) (gs s) = 0 \<longrightarrow> \<not> ss_end_unknown q s \<longrightarrow> owned ss_held (req_nr q) s')" for nr
  proof
    assume o: "ss_outcome q s s'"
    obtain A B where e: "effect ss_held A B s s'" "A \<subseteq> insert (req_nr q) (ss_held s)" "B \<subseteq> {req_nr q}" "req_nr q \<in> A \<union> B"
      using outcome_keeps(2) [OF assms(1,3) o] by blast
    show ?thesis using outcome_keeps(1) [OF assms(1,3) o] effect_owned [OF e(1-3)] e(4) by blast
  qed (use assms(1) in blast)
  then show "ussd_inv s'" and "owned ss_held nr s \<Longrightarrow> nr \<noteq> req_nr q \<Longrightarrow> owned ss_held nr s'"
    and "freed (req_nr q) (gs s) = 0 \<Longrightarrow> \<not> ss_end_unknown q s \<Longrightarrow> owned ss_held (req_nr q) s'"
    by blast+
qed

lemma timeout_keeps:
  assumes "ussd_inv s" and "ss \<in> set (ss_sessions s)"
  shows "\<exists>s'. ss_session_timeout ss s = Ret s' \<and> ussd_inv s' \<and> effect ss_held {ss_id ss} {} s s'"
proof -
  have "ss_ok ss" using assms by (simp add: ussd_inv_def)
  then obtain r where r: "holds ss r" using ss_ok_holds by blast
  have "ss_id ss \<in> ss_held s" using assms(2) by simp
  with result_end_session [OF quiet_refl [unfolded quiet_result] _ r, of s] obtain s' where
    s': "ss_session_free ss s = Ret s'" "ss_result {ss_id ss} (filter (\<lambda>x. ss_id x \<noteq> ss_id ss) (ss_sessions s)) s s'" by auto
  have "sessions_ok (ss_sessions s)" using assms(1) by (simp add: ussd_inv_iff)
  then have "ussd_inv s'" using result_inv [OF s'(2) sessions_ok_filter assms(1)] by blast
  moreover have "effect ss_held {ss_id ss} {} s s'" by (rule result_effect [OF s'(2)]) auto
  ultimately show ?thesis using s'(1) by (simp add: ss_session_timeout_def)
qed

lemma euse_del_keeps:
  "ss_held (euse_del e s) = ss_held s" "gs (euse_del e s) = gs s" "dbc (euse_del e s) = dbc s" "g_all_lu (euse_del e s) = g_all_lu s"
  "ussd_world.more (euse_del e s) = ussd_world.more s" "ussd_inv s \<Longrightarrow> ussd_inv (euse_del e s)"
  "effect ss_held {} {} s (euse_del e s)"
proof -
  show h: "ss_held (euse_del e s) = ss_held s" "gs (euse_del e s) = gs s" "dbc (euse_del e s) = dbc s" "g_all_lu (euse_del e s) = g_all_lu s"
    "ussd_world.more (euse_del e s) = ussd_world.more s" by (simp_all add: euse_del_def image_image)
  show "effect ss_held {} {} s (euse_del e s)" using h(1,2) by (simp add: effect_def)
  have "ss_ok (ss\<lparr>ss_u := freed_ptr e (ss_u ss)\<rparr>)" if "ss_ok ss" for ss using that by (auto simp: ss_ok_def freed_ptr_def)
  moreover have "route_ok (rt\<lparr>rt_u := freed_ptr e (rt_u rt)\<rparr>)" if "route_ok rt" for rt
    using that by (auto simp: route_ok_def freed_ptr_def split: if_splits)
  ultimately show "ussd_inv (euse_del e s)" if "ussd_inv s" using that by (simp add: ussd_inv_def euse_del_def o_def)
qed

inductive ussd_step :: "ss_lib \<Rightarrow> gsup_lib \<Rightarrow> 'a ussd_world_scheme \<Rightarrow> 'a ussd_world_scheme \<Rightarrow> bool" for U G where
  step_ss: "req_nr q \<notin> ss_held s \<Longrightarrow> freed (req_nr q) (gs s) = 0 \<Longrightarrow> gsup_wf (req_gsup q) \<Longrightarrow>
    rx_proc_ss_req U G E q s = Ret s' \<Longrightarrow> ussd_step U G s s'"
| step_ss_timeout: "ss \<in> set (ss_sessions s) \<Longrightarrow> ss_session_timeout ss s = Ret s' \<Longrightarrow> ussd_step U G s s'"
| step_euse_del: "ussd_step U G s (euse_del e s)"

lemma ussd_step_keeps:
  assumes "ussd_step U G s s'" and "ss_lib_ok U" and "ussd_inv s"
  shows "ussd_inv s'" and "owned ss_held nr s \<Longrightarrow> owned ss_held nr s'"
proof -
  from assms(1) have "ussd_inv s' \<and> (owned ss_held nr s \<longrightarrow> owned ss_held nr s')"
  proof cases
    case (step_ss q E)
    then show ?thesis
      using rx_ss_keeps [OF assms(3,2) step_ss(1,3,4)] owned_fresh [of ss_held nr s "req_nr q"] by blast
  next
    case (step_ss_timeout ss)
    with timeout_keeps [OF assms(3) step_ss_timeout(1)] show ?thesis
      by (auto simp: effect_def owned_def)
  next
    case (step_euse_del e)
    then show ?thesis using euse_del_keeps [where e = e and s = s] assms(3) by (simp add: owned_def)
  qed
  then show "ussd_inv s'" and "owned ss_held nr s \<Longrightarrow> owned ss_held nr s'" by blast+
qed

interpretation ss_own: request_owner ussd_inv ss_held "\<lambda>s s'. ss_lib_ok U \<and> ussd_step U G s s'" for U G
  by unfold_locales (use ussd_step_keeps in blast)+

text \<open>
  C10. The request of a message that \<open>rx_proc_ss_req\<close> handles is deallocated exactly once or kept by its session:
  when the handler does not fail and the message is no END for a session that does not exist (which is dropped
  without deallocation), the handler returns, and after any further such messages, session timeouts and removals of external
  entities the request is either held by a session and not deallocated, or held by none and has been deallocated once;
  no two sessions have the same IMSI and session id. The two cases in which the handler fails are those of
  \<open>ussd_faults_exactly\<close>. The request is a fresh one, its message as the decoder leaves it, and the facility encoders
  allocate their messages. Messages for \<open>rx_proc_ss_error\<close>, which deallocates nothing, are not meant.
\<close>
theorem ussd_request_concluded_once:
  assumes "ss_lib_ok U" and "ussd_inv s" and "req_nr q \<notin> ss_held s" and "freed (req_nr q) (gs s) = 0"
    and "gsup_wf (req_gsup q)" and "\<not> ss_fails U q s" and "\<not> ss_end_unknown q s"
  shows "\<exists>s1. rx_proc_ss_req U G E q s = Ret s1 \<and>
    (\<forall>s2. (ussd_step U G)\<^sup>*\<^sup>* s1 s2 \<longrightarrow>
       freed (req_nr q) (gs s2) = (if req_nr q \<in> ss_held s2 then 0 else 1) \<and>
       distinct (map ss_key (ss_sessions s2)))"
proof -
  from rx_outcome [OF assms(2,1,3,5-7), of G E] obtain s1 where s1: "rx_proc_ss_req U G E q s = Ret s1" by blast
  note k = rx_ss_keeps [OF assms(2,1,3,5) s1]
  have "ussd_inv s2 \<and> owned ss_held (req_nr q) s2" if "(ussd_step U G)\<^sup>*\<^sup>* s1 s2" for s2
    using ss_own.steps_owned [of U G s1 s2 "req_nr q"] that assms(1) k(1) k(3) [OF assms(4,7)] by simp
  with s1 show ?thesis unfolding owned_def ussd_inv_def by blast
qed

definition ref_ss :: ss_lib where
  \<comment> \<open>a facility element is an invoke id followed by the USSD text\<close>
  "ref_ss = \<lparr>gsm0480_parse_facility_ie = (\<lambda>bs. case bs of [] \<Rightarrow> None
        | i # t \<Rightarrow> Some \<lparr>ss_opcode_of = GSM0480_OP_CODE_PROCESS_USS_REQ, invoke_id = i, ussd_text = t\<rparr>),
     gsm0480_gen_return_error = (\<lambda>i e. Some [i]), gsm0480_gen_ussd_resp_7bit = (\<lambda>i t. Some (i # t)),
     ussd_7bit_string_len = 182\<rparr>"

lemma ref_ss_ok: "ss_lib_ok ref_ss"
  by (simp add: ss_lib_ok_def ref_ss_def)

definition ussd_one :: ussd_world where
  "ussd_one = \<lparr>gs = gs_example\<lparr>next_req_nr := 2\<rparr>, dbc = db_one, g_all_lu = [],
     euse_list = [\<lparr>euse_name = ''foo''\<rparr>], euse_default = Some \<lparr>euse_name = ''foo''\<rparr>,
     ussd_routes = [\<lparr>rt_prefix = ''*#100#'', rt_is_external = False, rt_u = USE_IUSE IUSE_own_msisdn\<rparr>],
     ncss_guard_timeout = 30, ss_sessions = []\<rparr>"

definition ussd_msg :: "gsup_session_state \<Rightarrow> string \<Rightarrow> osmo_gsup_message" where
  "ussd_msg st code = gsup_zero\<lparr>message_type := OSMO_GSUP_MSGT_PROC_SS_REQUEST, g_imsi := ''262420000000001'',
     session_id := 7, session_state := st, ss_info := Some (CHR ''1'' # code)\<rparr>"

definition ussd_req :: "gsup_session_state \<Rightarrow> string \<Rightarrow> osmo_gsup_req" where
  "ussd_req st code = lu_req\<lparr>req_gsup := ussd_msg st code\<rparr>"

lemma ussd_one_facts:
  "ussd_inv ussd_one" "ss_sessions ussd_one = []" "freed nr (gs ussd_one) = 0" "dbc ussd_one = db_one"
  by (simp_all add: ussd_one_def ussd_inv_def route_ok_def gs_example_def freed_def)

lemma ussd_req_facts:
  "req_nr (ussd_req st code) = 1" "req_gsup (ussd_req st code) = ussd_msg st code" "gsup_wf (ussd_msg st code)"
  "session_state (ussd_msg st code) = st" "g_imsi (ussd_msg st code) = ''262420000000001''"
  "req_source_name (ussd_req st code) = ipa_peer msc_name" "req_send_response_cb (ussd_req st code)"
  "ss_info (ussd_msg st code) = Some (CHR ''1'' # code)" "session_id (ussd_msg st code) = 7"
  "message_class (ussd_msg st code) = 0" "sm_rp_mr (ussd_msg st code) = None"
  by (simp_all add: ussd_req_def ussd_msg_def gsup_zero_def gsup_wf_def IMSI_BUF_SIZE_def)

theorem ussd_request_concluded_once_witness:
  "\<exists>s1. rx_proc_ss_req ref_ss ref_gsup ref_env (ussd_req OSMO_GSUP_SESSION_STATE_BEGIN ''*#200#'') ussd_one = Ret s1 \<and>
     freed 1 (gs s1) = (if 1 \<in> ss_held s1 then 0 else 1)"
proof -
  let ?q = "ussd_req OSMO_GSUP_SESSION_STATE_BEGIN ''*#200#''"
  have n: "\<not> ss_fails ref_ss ?q ussd_one" "\<not> ss_end_unknown ?q ussd_one"
    by (auto simp: ss_fails_iff begin_fails_def ss_end_unknown_def ussd_req_facts ussd_route_lookup_7bit_def ussd_one_def split: if_splits)
  have h: "req_nr ?q \<notin> ss_held ussd_one" "freed (req_nr ?q) (gs ussd_one) = 0" "gsup_wf (req_gsup ?q)"
    by (simp_all add: ussd_one_facts ussd_req_facts)
  from ussd_request_concluded_once [OF ref_ss_ok ussd_one_facts(1) h n, of ref_gsup ref_env]
  obtain s1 where "rx_proc_ss_req ref_ss ref_gsup ref_env ?q ussd_one = Ret s1"
    "freed (req_nr ?q) (gs s1) = (if req_nr ?q \<in> ss_held s1 then 0 else 1)" by blast
  then show ?thesis unfolding ussd_req_facts by blast
qed

text \<open>
  C34. The handler \<open>rx_proc_ss_req\<close> fails exactly in two cases, both with an unstructured message of a phone. One is a message on a
  session that a known external entity opened: such a session is not marked external, so that the pointer to the external entity
  is called as if it were an internal one. The other is the use of an external entity that the operator has removed: a
  BEGIN routed to it, or a message on one of its open sessions, reads the name of the deallocated entity. In every other
  case the handler returns. The facility encoders allocate their messages, and the message is as the decoder leaves it.
\<close>
theorem ussd_faults_exactly:
  assumes "ss_lib_ok U" and "ussd_inv s" and "req_nr q \<notin> ss_held s" and "gsup_wf (req_gsup q)"
  shows "rx_proc_ss_req U G E q s = Fault \<longleftrightarrow> ss_mt_reply U q s \<or> ss_dead_use U q s"
  unfolding ss_fails_def [symmetric]
proof
  assume f: "rx_proc_ss_req U G E q s = Fault"
  show "ss_fails U q s"
  proof (rule ccontr)
    assume mt: "\<not> ss_fails U q s"
    then show False
      using f rx_outcome [OF assms(2,1,3,4) mt, of G E] end_unknown_result [of q s U G E] by (cases "ss_end_unknown q s") auto
  qed
qed (rule ss_fails_faults [OF assms(2,3)])

definition euse_session :: ss_session where
  "euse_session = \<lparr>ss_id = 5, ss_imsi = ''262420000000001'', ss_session_id = 7, ss_timeout = True, ss_is_external = False,
     ss_u = USE_EUSE \<lparr>euse_name = ''foo''\<rparr>, ss_vlr_name = ipa_name_empty, initial_req_from_ms = None,
     initial_req_from_euse = Some (lu_req\<lparr>req_nr := 5\<rparr>)\<rparr>"

lemma msc_not_euse: "\<not> peer_name_is_euse (ipa_peer msc_name)"
  by (simp add: peer_name_is_euse_def msc_name_def osmo_ipa_name_set_def IPA_NAME_SIZE_def ipa_name_empty_def)

theorem ussd_faults_exactly_witness:
  "rx_proc_ss_req ref_ss ref_gsup ref_env (ussd_req OSMO_GSUP_SESSION_STATE_CONTINUE ''1'')
     (ussd_one\<lparr>ss_sessions := [euse_session]\<rparr>) = Fault \<and>
   rx_proc_ss_req ref_ss ref_gsup ref_env (ussd_req OSMO_GSUP_SESSION_STATE_BEGIN ''*#200#'')
     (euse_del \<lparr>euse_name = ''foo''\<rparr> (ussd_one\<lparr>ussd_routes := [\<lparr>rt_prefix = ''*#200#'', rt_is_external = True,
        rt_u = USE_EUSE \<lparr>euse_name = ''foo''\<rparr>\<rparr>]\<rparr>)) = Fault"
proof (rule conjI)
  let ?s = "ussd_one\<lparr>ss_sessions := [euse_session]\<rparr>" and ?q = "ussd_req OSMO_GSUP_SESSION_STATE_CONTINUE ''1''"
  have i: "ussd_inv ?s" using ussd_one_facts(1) by (simp add: ussd_inv_def ss_ok_def euse_session_def)
  have f: "req_nr ?q \<notin> ss_held ?s" "gsup_wf (req_gsup ?q)" by (simp_all add: euse_session_def ussd_req_facts)
  have m: "ss_mt_reply ref_ss ?q ?s"
    by (simp add: ss_mt_reply_def ussd_req_facts ss_session_find_def euse_session_def mt_reply_def name_len_def ref_ss_def
        msc_not_euse ss_op_is_ussd_def)
  show "rx_proc_ss_req ref_ss ref_gsup ref_env ?q ?s = Fault" using ussd_faults_exactly [OF ref_ss_ok i f] m by blast
next
  let ?t = "ussd_one\<lparr>ussd_routes := [\<lparr>rt_prefix = ''*#200#'', rt_is_external = True, rt_u = USE_EUSE \<lparr>euse_name = ''foo''\<rparr>\<rparr>]\<rparr>"
  let ?s = "euse_del \<lparr>euse_name = ''foo''\<rparr> ?t" and ?q = "ussd_req OSMO_GSUP_SESSION_STATE_BEGIN ''*#200#''"
  have "ussd_inv ?t" by (simp add: ussd_inv_def route_ok_def ussd_one_def)
  then have i: "ussd_inv ?s" by (rule euse_del_keeps(6))
  have none: "ss_sessions ?s = []" by (simp add: euse_del_def ussd_one_def)
  have f: "req_nr ?q \<notin> ss_held ?s" "gsup_wf (req_gsup ?q)" by (simp_all add: none ussd_req_facts)
  have rt: "ussd_route_lookup_7bit ''*#200#'' ?s = Some \<lparr>rt_prefix = ''*#200#'', rt_is_external = True, rt_u = USE_FREED\<rparr>"
    by (simp add: euse_del_def freed_ptr_def ussd_route_lookup_7bit_def strncmp_def strcmp_eq_0)
  have "ss_dead_use ref_ss ?q ?s"
    by (simp add: ss_dead_use_def begin_fails_def ussd_req_facts ss_session_find_def none name_len_def ref_ss_def msc_not_euse
        ss_op_is_ussd_def rt)
  then show "rx_proc_ss_req ref_ss ref_gsup ref_env ?q ?s = Fault" using ussd_faults_exactly [OF ref_ss_ok i f] by blast
qed

text \<open>
  A phone that asks for its own number gets it: a BEGIN with a code routed to \<open>own-msisdn\<close> is answered with the
  words \<open>Your extension is\<close> and the subscriber's number, as the final message of the session; the request is
  deallocated and no session remains.
\<close>
theorem ussd_own_msisdn_answered:
  assumes "env_ok E" and "subscribers (dbc s) imsi = Some r" and "row_msisdn r = Some num" and "num \<noteq> []" and "length num < 16"
    and "req_gsup q = m" and "gsup_wf m" and "g_imsi m = imsi" and "session_state m = OSMO_GSUP_SESSION_STATE_BEGIN"
    and "ss_info m = Some info" and "info \<noteq> []" and "gsm0480_parse_facility_ie U info = Some req"
    and "ss_op_is_ussd (ss_opcode_of req)" and "req_send_response_cb q"
    and "peer_type (req_source_name q) = OSMO_CNI_PEER_ID_IPA_NAME" and "\<not> peer_name_is_euse (req_source_name q)"
    and "ussd_route_lookup_7bit (ussd_text req) s = Some rt" and "rt_u rt = USE_IUSE IUSE_own_msisdn" and "\<not> rt_is_external rt"
    and "ss_session_find imsi (session_id m) s = None" and "req_nr q \<notin> ss_held s" and "33 \<le> ussd_7bit_string_len U"
    and "gsm0480_gen_ussd_resp_7bit U (invoke_id req) (''Your extension is '' @ num) = Some msg"
  shows "rx_proc_ss_req U G E q s = Ret (s\<lparr>gs := osmo_gsup_req_free q (hlr_cb G q
    (response_of G (gsup_zero\<lparr>message_type := OSMO_GSUP_MSGT_PROC_SS_RESULT, g_imsi := imsi,
       session_state := OSMO_GSUP_SESSION_STATE_END, session_id := session_id m, ss_info := Some msg\<rparr>) m False False) (gs s))\<rparr>)"
proof -
  let ?t = "s\<lparr>ss_sessions := ss_sessions s @ [ss_new q req s]\<rparr>"
  have len: "length imsi < 16" using assms(7,8) by (simp add: gsup_wf_def IMSI_BUF_SIZE_def)
  have new: "ss_u (ss_new q req s) = USE_IUSE IUSE_own_msisdn" "\<not> ss_is_external (ss_new q req s)"
    "initial_req_from_ms (ss_new q req s) = Some q" "ss_imsi (ss_new q req s) = imsi"
    "ss_session_id (ss_new q req s) = session_id m" "initial_req_from_euse (ss_new q req s) = None"
    using assms(6-8,13,16-19) len
    by (simp_all add: ss_new_def ss_opened_def ss_assign_use_def Let_def IMSI_BUF_SIZE_def)
  have sub: "db_subscr_get_by_imsi E imsi (dbc s) = Inr (row_to_subscriber E r)"
    using assms(1,2) by (simp add: get_by_imsi_ok)
  have num: "sub_msisdn (row_to_subscriber E r) = num"
    using assms(3,5) by (simp add: row_to_subscriber_def copy_text_def)
  define a where "a = gsup_zero\<lparr>message_type := OSMO_GSUP_MSGT_PROC_SS_RESULT, g_imsi := imsi,
       session_state := OSMO_GSUP_SESSION_STATE_END, session_id := session_id m, ss_info := Some msg\<rparr>"
  have c: "compatible a (req_gsup q)" using assms(6,8) by (simp add: compatible_def a_def gsup_zero_def)
  have fits: "strlcpy (ussd_7bit_string_len U + 1) (''Your extension is '' @ num) = ''Your extension is '' @ num"
    using assms(5,22) by (intro strlcpy_id) simp
  have tx: "hlr_iuses IUSE_own_msisdn U G E (ss_new q req s) req ?t =
      Ret (?t\<lparr>gs := hlr_cb G q (response_of G a m False False) (gs s)\<rparr>)"
    using new sub num fits assms(4,6,7,14,23) c len respond_ok [of q a G False False ?t]
    by (simp add: hlr_iuses_def handle_ussd_own_msisdn_def ss_tx_to_ms_ussd_7bit_def ss_tx_to_ms_def ss_gsup_send_to_ms_def
        ignore_rc_def a_def IMSI_BUF_SIZE_def Let_def)
  have filt: "filter (\<lambda>x. ss_id x \<noteq> req_nr q) (ss_sessions s) = ss_sessions s"
    using assms(21) by (auto simp: filter_id_conv image_iff)
  have closed: "ss_session_free (ss_new q req s) (?t\<lparr>gs := g\<rparr>) = Ret (s\<lparr>gs := osmo_gsup_req_free q g\<rparr>)" for g
    using new filt by (simp add: ss_session_free_def free_opt_def req_free_def ss_new_facts(1) Let_def)
  have "ss_begin U G E q req s = Ret (s\<lparr>gs := osmo_gsup_req_free q (hlr_cb G q (response_of G a m False False) (gs s))\<rparr>)"
    using begin_unfold [of q s U G E req] assms(6,8,13,16,20,21) new(1,2) tx closed
    by (simp add: dispatch_ss_def handle_ussd_def)
  then show ?thesis
    using assms(6,9-12,15) by (simp add: rx_proc_ss_req_def Let_def name_len_def a_def)
qed

theorem ussd_own_msisdn_answered_witness:
  "\<exists>g. rx_proc_ss_req ref_ss ref_gsup ref_env (ussd_req OSMO_GSUP_SESSION_STATE_BEGIN ''*#100#'') ussd_one = Ret (ussd_one\<lparr>gs := g\<rparr>)"
proof -
  let ?q = "ussd_req OSMO_GSUP_SESSION_STATE_BEGIN ''*#100#''"
  let ?rt = "\<lparr>rt_prefix = ''*#100#'', rt_is_external = False, rt_u = USE_IUSE IUSE_own_msisdn\<rparr>"
  have l: "ussd_route_lookup_7bit ''*#100#'' ussd_one = Some ?rt"
    by (simp add: ussd_route_lookup_7bit_def ussd_one_def strncmp_def strcmp_eq_0)
  show ?thesis
    using ussd_own_msisdn_answered [OF ref_env_ok, where s = ussd_one and q = ?q and U = ref_ss and G = ref_gsup and rt = ?rt
        and m = "ussd_msg OSMO_GSUP_SESSION_STATE_BEGIN ''*#100#''" and imsi = "''262420000000001''" and num = "''1001''"
        and info = "CHR ''1'' # ''*#100#''" and msg = "CHR ''1'' # ''Your extension is 1001''"
        and req = "\<lparr>ss_opcode_of = GSM0480_OP_CODE_PROCESS_USS_REQ, invoke_id = CHR ''1'', ussd_text = ''*#100#''\<rparr>"
        and r = "(new_subscriber 1 ''262420000000001'' True True)\<lparr>row_msisdn := Some ''1001''\<rparr>"]
      l db_one_facts(2) ussd_one_facts(4)
    by (auto simp: ussd_req_facts ref_ss_def ss_op_is_ussd_def ss_session_find_def ussd_one_facts(2) msc_not_euse)
qed

end
