(* ===== verification/Gsup_Client.thy ===== *)
theory Gsup_Client
  imports Gsup_Server
begin

text \<open>
  The GSUP client that keeps a connection to a GSUP server: \<open>src/gsupclient/gsup_client.c\<close>. The record
  has one flag per timer that says whether it is scheduled; the queue of messages handed to the
  IPA link is \<open>gc_queue\<close>, and \<open>gc_opening\<close> says that \<open>ipa_client_conn_open\<close> has succeeded and the link
  has not yet been reported up or down. The IPA link of libosmo-abis appears as the results of its
  functions, the callback of the user as the value it returns (None: no callback), and the OAP client
  of libosmogsm as the parameter \<open>oap_lib\<close> on an opaque state.
\<close>

section \<open>Data\<close>

record oap_lib =
  osmo_oap_client_init :: "nat option \<Rightarrow> int \<times> nat"
  oap_is_initialized :: "nat \<Rightarrow> bool"
  osmo_oap_client_register :: "nat \<Rightarrow> int \<times> octets option \<times> nat"
  osmo_oap_client_handle :: "nat \<Rightarrow> octets \<Rightarrow> int \<times> octets option \<times> nat"

datatype ipa_frame =
    IpaccessFrame octets
  | OsmoFrame nat octets

record osmo_gsup_client =
  gc_oap_state :: nat
  gc_link :: bool
  gc_opening :: bool
  gc_ping_timer :: bool
  gc_connect_timer :: bool
  gc_is_connected :: bool
  gc_got_ipa_pong :: bool
  gc_queue :: "ipa_frame list"

abbreviation (input) EBADF :: int where "EBADF \<equiv> 9"
abbreviation (input) ENOTSOCK :: int where "ENOTSOCK \<equiv> 88"
abbreviation (input) EAFNOSUPPORT :: int where "EAFNOSUPPORT \<equiv> 97"

definition IPAC_MSGT_PING :: octet where "IPAC_MSGT_PING = CHR 0x00"
definition IPAC_MSGT_PONG :: octet where "IPAC_MSGT_PONG = CHR 0x01"

section \<open>Operations\<close>

definition gsup_client_send_ping :: "osmo_gsup_client \<Rightarrow> osmo_gsup_client" where
  "gsup_client_send_ping c = c\<lparr>gc_queue := gc_queue c @ [IpaccessFrame [IPAC_MSGT_PING]]\<rparr>"

definition fatal_rc :: "int \<Rightarrow> bool" where
  "fatal_rc rc \<longleftrightarrow> rc = - EBADF \<or> rc = - ENOTSOCK \<or> rc = - EAFNOSUPPORT \<or> rc = - EINVAL"

definition gsup_client_connect :: "int \<Rightarrow> osmo_gsup_client \<Rightarrow> osmo_gsup_client \<times> int" where
  \<comment> \<open>\<open>open_rc\<close>: the result of \<open>ipa_client_conn_open\<close>\<close>
  "gsup_client_connect open_rc c =
     (if gc_is_connected c then (c, 0)
      else
        let c = c\<lparr>gc_connect_timer := False, gc_ping_timer := False, gc_queue := []\<rparr>
        in if open_rc \<ge> 0 then (c\<lparr>gc_opening := True\<rparr>, 0)
           else if fatal_rc open_rc then (c, open_rc)
           else (c\<lparr>gc_connect_timer := True\<rparr>, 0))"

definition connect_timer_cb :: "bool option \<Rightarrow> int \<Rightarrow> osmo_gsup_client \<Rightarrow> osmo_gsup_client" where
  "connect_timer_cb up_down open_rc c =
     (let c = c\<lparr>gc_connect_timer := False\<rparr>
      in if gc_is_connected c then c
         else if up_down = Some False then c
         else fst (gsup_client_connect open_rc c))"

definition client_send :: "nat \<Rightarrow> octets \<Rightarrow> osmo_gsup_client \<Rightarrow> osmo_gsup_client" where
  "client_send proto_ext msg_tx c = c\<lparr>gc_queue := gc_queue c @ [OsmoFrame proto_ext msg_tx]\<rparr>"

definition gsup_client_oap_register :: "oap_lib \<Rightarrow> osmo_gsup_client \<Rightarrow> osmo_gsup_client" where
  "gsup_client_oap_register P c =
     (case osmo_oap_client_register P (gc_oap_state c) of
        (rc, msg_tx, st) \<Rightarrow>
          let c = c\<lparr>gc_oap_state := st\<rparr>
          in if rc < 0 then c
             else (case msg_tx of None \<Rightarrow> c | Some msg \<Rightarrow> client_send IPAC_PROTO_EXT_OAP msg c))"

definition start_test_procedure :: "osmo_gsup_client \<Rightarrow> osmo_gsup_client" where
  "start_test_procedure c = gsup_client_send_ping (c\<lparr>gc_got_ipa_pong := False, gc_ping_timer := True\<rparr>)"

definition gsup_client_updown_cb :: "oap_lib \<Rightarrow> bool option \<Rightarrow> bool \<Rightarrow> osmo_gsup_client \<Rightarrow> osmo_gsup_client" where
  "gsup_client_updown_cb P up_down up c =
     (let c = c\<lparr>gc_is_connected := up, gc_opening := False\<rparr>
      in if up then
           let c = start_test_procedure c;
               c = (if oap_is_initialized P (gc_oap_state c) then gsup_client_oap_register P c else c)
           in c\<lparr>gc_connect_timer := False\<rparr>
         else
           let c = c\<lparr>gc_ping_timer := False\<rparr>
           in if up_down = Some False then c else c\<lparr>gc_connect_timer := True\<rparr>)"

definition gsup_client_oap_handle :: "oap_lib \<Rightarrow> octets \<Rightarrow> osmo_gsup_client \<Rightarrow> osmo_gsup_client \<times> int" where
  "gsup_client_oap_handle P msg_rx c =
     (case osmo_oap_client_handle P (gc_oap_state c) msg_rx of
        (rc, msg_tx, st) \<Rightarrow>
          let c = c\<lparr>gc_oap_state := st\<rparr>
          in if rc < 0 then (c, rc)
             else (case msg_tx of None \<Rightarrow> (c, 0) | Some msg \<Rightarrow> (client_send IPAC_PROTO_EXT_OAP msg c, 0)))"

definition gsup_client_read_cb ::
  "oap_lib \<Rightarrow> int \<Rightarrow> nat \<Rightarrow> octets \<Rightarrow> osmo_gsup_client \<Rightarrow> osmo_gsup_client \<times> int \<times> octets option" where
  \<comment> \<open>\<open>ccm_rc\<close>: the result of \<open>ipaccess_bts_handle_ccm\<close>; \<open>proto\<close>, \<open>l2\<close>: the stream id of the IPA header and what
    follows it; the last component is the message given to \<open>read_cb\<close>\<close>
  "gsup_client_read_cb P ccm_rc proto l2 c =
     (if ccm_rc < 0 then (c\<lparr>gc_is_connected := False\<rparr>, -1, None)
      else if ccm_rc = 1 then
        (if l2 \<noteq> [] \<and> hd l2 = IPAC_MSGT_PONG then c\<lparr>gc_got_ipa_pong := True\<rparr> else c, 0, None)
      else if proto \<noteq> IPAC_PROTO_OSMO then (c, -1, None)
      else (case l2 of
              [] \<Rightarrow> (c, -1, None)
            | ext # msg \<Rightarrow>
                if octet_val ext = IPAC_PROTO_EXT_GSUP then (c, 0, Some msg)
                else if octet_val ext = IPAC_PROTO_EXT_OAP then
                  (case gsup_client_oap_handle P msg c of (c, rc) \<Rightarrow> (c, rc, None))
                else (c, -1, None)))"

definition ping_timer_cb :: "int \<Rightarrow> osmo_gsup_client \<Rightarrow> osmo_gsup_client" where
  "ping_timer_cb open_rc c =
     (let c = c\<lparr>gc_ping_timer := False\<rparr>
      in if gc_got_ipa_pong c then start_test_procedure c
         else fst (gsup_client_connect open_rc (c\<lparr>gc_is_connected := False\<rparr>)))"

definition osmo_gsup_client_create3 :: "oap_lib \<Rightarrow> nat option \<Rightarrow> bool \<Rightarrow> int \<Rightarrow> osmo_gsup_client option" where
  \<comment> \<open>\<open>link_ok\<close>: \<open>ipa_client_conn_create2\<close> has returned a link\<close>
  "osmo_gsup_client_create3 P oapc_config link_ok open_rc =
     (case osmo_oap_client_init P oapc_config of
        (rc, st) \<Rightarrow>
          if rc \<noteq> 0 then None
          else if \<not> link_ok then None
          else
            let c = \<lparr>gc_oap_state = st, gc_link = True, gc_opening = False, gc_ping_timer = False, gc_connect_timer = False,
                     gc_is_connected = False, gc_got_ipa_pong = False, gc_queue = []\<rparr>
            in (case gsup_client_connect open_rc c of
                  (c, rc) \<Rightarrow> if rc < 0 then None else Some c))"

definition osmo_gsup_client_destroy :: "osmo_gsup_client \<Rightarrow> osmo_gsup_client" where
  \<comment> \<open>the structure is deallocated afterwards\<close>
  "osmo_gsup_client_destroy c = c\<lparr>gc_connect_timer := False, gc_ping_timer := False, gc_link := False, gc_opening := False\<rparr>"

definition osmo_gsup_client_send :: "octets \<Rightarrow> osmo_gsup_client option \<Rightarrow> osmo_gsup_client option \<times> int" where
  "osmo_gsup_client_send msg c =
     (case c of
        None \<Rightarrow> (None, - ENOTCONN)
      | Some g \<Rightarrow> if \<not> gc_is_connected g then (c, - ENOTCONN) else (Some (client_send IPAC_PROTO_EXT_GSUP msg g), 0))"

definition osmo_gsup_client_enc_send ::
  "gsup_lib \<Rightarrow> osmo_gsup_message \<Rightarrow> osmo_gsup_client option \<Rightarrow> osmo_gsup_client option \<times> int" where
  "osmo_gsup_client_enc_send G gsup_msg c =
     (case osmo_gsup_encode G gsup_msg of
        None \<Rightarrow> (c, - EINVAL)
      | Some msg \<Rightarrow> osmo_gsup_client_send msg c)"

section \<open>The client never gives up by accident\<close>

definition client_alive :: "osmo_gsup_client \<Rightarrow> bool" where
  \<comment> \<open>something is under way that will bring the connection back: a connected client is supervised by the ping
    timer, one that is not connected has a timer running or a connection attempt\<close>
  "client_alive c \<longleftrightarrow> (gc_is_connected c \<longrightarrow> gc_ping_timer c) \<and> (gc_ping_timer c \<or> gc_connect_timer c \<or> gc_opening c)"

inductive client_step :: "oap_lib \<Rightarrow> osmo_gsup_client \<Rightarrow> osmo_gsup_client \<Rightarrow> bool" for P where
  step_connect_timer: "gc_connect_timer c \<Longrightarrow> up_down \<noteq> Some False \<Longrightarrow> \<not> fatal_rc open_rc \<Longrightarrow>
    client_step P c (connect_timer_cb up_down open_rc c)"
| step_ping_timer: "gc_ping_timer c \<Longrightarrow> \<not> fatal_rc open_rc \<Longrightarrow> client_step P c (ping_timer_cb open_rc c)"
| step_updown: "up_down \<noteq> Some False \<Longrightarrow> client_step P c (gsup_client_updown_cb P up_down up c)"
| step_read: "gc_is_connected c \<Longrightarrow> client_step P c (fst (gsup_client_read_cb P ccm_rc proto l2 c))"
| step_send: "osmo_gsup_client_send msg (Some c) = (Some c', rc) \<Longrightarrow> client_step P c c'"

lemma client_sel [simp]:
  "gc_is_connected (client_send e m c) = gc_is_connected c" "gc_ping_timer (client_send e m c) = gc_ping_timer c"
  "gc_connect_timer (client_send e m c) = gc_connect_timer c" "gc_opening (client_send e m c) = gc_opening c"
  by (simp_all add: client_send_def)

lemma oap_sel [simp]:
  "gc_is_connected (gsup_client_oap_register P c) = gc_is_connected c"
  "gc_ping_timer (gsup_client_oap_register P c) = gc_ping_timer c"
  "gc_is_connected (fst (gsup_client_oap_handle P m c)) = gc_is_connected c"
  "gc_ping_timer (fst (gsup_client_oap_handle P m c)) = gc_ping_timer c"
  "gc_connect_timer (fst (gsup_client_oap_handle P m c)) = gc_connect_timer c"
  "gc_opening (fst (gsup_client_oap_handle P m c)) = gc_opening c"
  by (simp_all add: gsup_client_oap_register_def gsup_client_oap_handle_def Let_def prod.case_eq_if split: option.splits)

lemma test_procedure_sel [simp]:
  "gc_ping_timer (start_test_procedure c)" "gc_is_connected (start_test_procedure c) = gc_is_connected c"
  "\<not> gc_got_ipa_pong (start_test_procedure c)"
  by (simp_all add: start_test_procedure_def gsup_client_send_ping_def)

lemma connect_alive:
  "\<not> gc_is_connected c \<Longrightarrow> \<not> fatal_rc rc \<Longrightarrow> client_alive (fst (gsup_client_connect rc c))"
  by (simp add: gsup_client_connect_def client_alive_def Let_def)

lemma read_alive: "client_alive c \<Longrightarrow> client_alive (fst (gsup_client_read_cb P ccm_rc proto l2 c))"
  by (auto simp: gsup_client_read_cb_def client_alive_def prod.case_eq_if split: list.splits)

lemma client_step_alive: "client_step P c c' \<Longrightarrow> client_alive c \<Longrightarrow> client_alive c'"
proof (induction rule: client_step.induct)
  case (step_connect_timer c up_down open_rc)
  then show ?case
    using connect_alive [of "c\<lparr>gc_connect_timer := False\<rparr>" open_rc]
    by (auto simp: connect_timer_cb_def Let_def client_alive_def)
next
  case (step_ping_timer c open_rc)
  then show ?case
    using connect_alive [of "c\<lparr>gc_ping_timer := False, gc_is_connected := False\<rparr>" open_rc]
    by (auto simp: ping_timer_cb_def Let_def client_alive_def)
next
  case (step_updown up_down c up)
  then show ?case by (simp add: gsup_client_updown_cb_def Let_def client_alive_def)
next
  case (step_read c ccm_rc proto l2)
  then show ?case by (simp add: read_alive)
next
  case (step_send msg c c' rc)
  then show ?case by (auto simp: osmo_gsup_client_send_def client_alive_def split: if_splits)
qed

text \<open>
  C35. A GSUP client always has something under way to restore its connection: whatever happens on the link
  after a successful creation, a connected client is supervised by the ping timer and a client that is not
  connected has a timer running or a connection attempt in progress, as long as opening the
  socket does not fail for good and the user does not ask to stop.
\<close>
theorem gsup_client_never_stuck:
  assumes "osmo_gsup_client_create3 P cfg link_ok open_rc = Some c" and "(client_step P)\<^sup>*\<^sup>* c c'"
  shows "(gc_is_connected c' \<longrightarrow> gc_ping_timer c') \<and> (gc_ping_timer c' \<or> gc_connect_timer c' \<or> gc_opening c')"
proof -
  have "client_alive c"
    using assms(1) connect_alive
    by (auto simp: osmo_gsup_client_create3_def gsup_client_connect_def client_alive_def fatal_rc_def Let_def
        split: prod.splits if_splits)
  with assms(2) have "client_alive c'" by (induction rule: rtranclp_induct) (auto intro: client_step_alive)
  then show ?thesis by (simp add: client_alive_def)
qed

definition ref_oap :: oap_lib where
  "ref_oap = \<lparr>osmo_oap_client_init = (\<lambda>_. (0, 0)), oap_is_initialized = (\<lambda>_. False),
     osmo_oap_client_register = (\<lambda>st. (-1, None, st)), osmo_oap_client_handle = (\<lambda>st m. (-1, None, st))\<rparr>"

definition client_new :: osmo_gsup_client where
  "client_new = \<lparr>gc_oap_state = 0, gc_link = True, gc_opening = True, gc_ping_timer = False, gc_connect_timer = False,
     gc_is_connected = False, gc_got_ipa_pong = False, gc_queue = []\<rparr>"

theorem gsup_client_never_stuck_witness:
  "gc_ping_timer (gsup_client_updown_cb ref_oap None True client_new) \<or>
   gc_connect_timer (gsup_client_updown_cb ref_oap None True client_new) \<or>
   gc_opening (gsup_client_updown_cb ref_oap None True client_new)"
proof -
  have "osmo_gsup_client_create3 ref_oap None True 0 = Some client_new"
    by (simp add: osmo_gsup_client_create3_def ref_oap_def gsup_client_connect_def client_new_def Let_def)
  moreover have "(client_step ref_oap)\<^sup>*\<^sup>* client_new (gsup_client_updown_cb ref_oap None True client_new)"
    by (intro r_into_rtranclp step_updown) simp
  ultimately show ?thesis using gsup_client_never_stuck by blast
qed

end
