(* ===== verification/Proxy.thy ===== *)
theory Proxy
  imports Hlr_Ussd Gsup_Client
begin

text \<open>
  The proxy for subscribers of other sites: \<open>src/proxy.c\<close>, the links to the remote HLRs it uses,
  \<open>src/remote_hlr.c\<close>, and the time stamps of \<open>src/timestamp.c\<close>. The two files call each
  other, so they share a theory: the only callback that waits for a link is
  \<open>proxy_remote_hlr_connect_result_cb\<close>, represented by the constructor of \<open>remote_hlr_pending_up\<close>.

  A remote HLR is identified by \<open>rh_id\<close>, which stands for the pointer; a proxy entry by its IMSI.
  \<open>clock\<close> is the time of day in seconds; \<open>utc_shift\<close> is what \<open>mktime (gmtime_r t)\<close> differs from \<open>t\<close>, the
  offset of the standard time of the zone (\<open>gmtime_r\<close> clears the daylight saving flag). The results of opening a connection
  (libosmo-abis) are the argument \<open>net\<close>: whether a link was created, and the result of opening it.
\<close>

section \<open>Data\<close>

type_synonym timestamp_t = int

record proxy_subscr_domain_state =
  ds_vlr_name :: osmo_ipa_name
  last_lu :: timestamp_t
  vlr_name_preliminary :: osmo_ipa_name
  vlr_via_proxy :: osmo_ipa_name

record proxy_subscr =
  pr_imsi :: string
  pr_msisdn :: string
  remote_hlr_addr :: osmo_sockaddr_str
  pr_cs :: proxy_subscr_domain_state
  pr_ps :: proxy_subscr_domain_state

record proxy_subscr_listentry =
  last_update :: timestamp_t
  e_data :: proxy_subscr

record proxy_pending_gsup_req =
  p_req :: osmo_gsup_req
  received_at :: timestamp_t

record proxy =
  subscr_list :: "proxy_subscr_listentry list"
  pending_gsup_reqs :: "proxy_pending_gsup_req list"
  fresh_time :: "32 word"
  gc_period :: "32 word"
  gc_timer :: "32 word option"

datatype remote_hlr_pending_up = PROXY_REMOTE_HLR_CONNECT_RESULT_CB

record remote_hlr =
  rh_id :: nat
  rh_addr :: osmo_sockaddr_str
  rh_gsupc :: "osmo_gsup_client option"
  pending_up_callbacks :: "remote_hlr_pending_up list"

record dgsm_world = ussd_world +
  proxy :: proxy
  remote_hlrs :: "remote_hlr list"
  next_rh_id :: nat
  clock :: int
  utc_shift :: int
  gsup_gateway_proxy :: osmo_sockaddr_str
  client_result_timeout_milliseconds :: nat

type_synonym net = "osmo_sockaddr_str \<Rightarrow> bool \<times> int"

definition domain_state_zero :: proxy_subscr_domain_state where
  "domain_state_zero = \<lparr>ds_vlr_name = ipa_name_empty, last_lu = 0, vlr_name_preliminary = ipa_name_empty,
     vlr_via_proxy = ipa_name_empty\<rparr>"

definition proxy_subscr_zero :: proxy_subscr where
  "proxy_subscr_zero = \<lparr>pr_imsi = [], pr_msisdn = [], remote_hlr_addr = sockaddr_zero,
     pr_cs = domain_state_zero, pr_ps = domain_state_zero\<rparr>"

section \<open>Time stamps\<close>

definition timestamp_update :: "'a dgsm_world_scheme \<Rightarrow> timestamp_t" where
  "timestamp_update s = clock s + utc_shift s"

definition timestamp_age :: "timestamp_t \<Rightarrow> 'a dgsm_world_scheme \<Rightarrow> bool \<times> 32 word" where
  "timestamp_age timestamp s =
     (let age64 = timestamp_update s - timestamp
      in if age64 < 0 \<or> age64 > 2 ^ 32 - 1 then (False, - 1) else (True, of_int age64))"

section \<open>Links to remote HLRs\<close>

definition rh_find :: "nat \<Rightarrow> 'a dgsm_world_scheme \<Rightarrow> remote_hlr option" where
  \<comment> \<open>following the pointer\<close>
  "rh_find i s = List.find (\<lambda>rh. rh_id rh = i) (remote_hlrs s)"

definition rh_store :: "remote_hlr \<Rightarrow> 'a dgsm_world_scheme \<Rightarrow> 'a dgsm_world_scheme" where
  "rh_store rh s = s\<lparr>remote_hlrs := map (\<lambda>x. if rh_id x = rh_id rh then rh else x) (remote_hlrs s)\<rparr>"

definition remote_hlr_is_up :: "nat option \<Rightarrow> 'a dgsm_world_scheme \<Rightarrow> bool" where
  "remote_hlr_is_up i s =
     (case i of None \<Rightarrow> False
      | Some i \<Rightarrow> (case rh_find i s of None \<Rightarrow> False
                  | Some rh \<Rightarrow> (case rh_gsupc rh of None \<Rightarrow> False | Some c \<Rightarrow> gc_is_connected c)))"

definition rh_client_send ::
  "nat \<Rightarrow> (osmo_gsup_client option \<Rightarrow> osmo_gsup_client option \<times> int) \<Rightarrow> 'a dgsm_world_scheme \<Rightarrow> 'a dgsm_world_scheme \<times> int" where
  \<comment> \<open>a function of the GSUP client called on the client of a remote HLR\<close>
  "rh_client_send i f s =
     (case rh_find i s of
        None \<Rightarrow> (s, - ENOTCONN)
      | Some rh \<Rightarrow> (case f (rh_gsupc rh) of (c, rc) \<Rightarrow> (rh_store (rh\<lparr>rh_gsupc := c\<rparr>) s, rc)))"

definition remote_hlr_msgb_send :: "nat \<Rightarrow> octets \<Rightarrow> 'a dgsm_world_scheme \<Rightarrow> 'a dgsm_world_scheme \<times> int" where
  "remote_hlr_msgb_send i msg s = rh_client_send i (osmo_gsup_client_send msg) s"

definition remote_hlr_gsup_forward_to_remote_hlr ::
  "gsup_lib \<Rightarrow> nat \<Rightarrow> osmo_gsup_req \<Rightarrow> osmo_gsup_message option \<Rightarrow> 'a dgsm_world_scheme \<Rightarrow> 'a dgsm_world_scheme" where
  "remote_hlr_gsup_forward_to_remote_hlr G i req modified_gsup s =
     (let forward = (case modified_gsup of Some m \<Rightarrow> m | None \<Rightarrow> req_gsup req)
      in if peer_type (req_source_name req) \<noteq> OSMO_CNI_PEER_ID_IPA_NAME then respond_err G req GMM_CAUSE_NET_FAIL s
         else
           let n = peer_ipa_name (req_source_name req);
               forward = forward\<lparr>g_source_name := Some (take (ipa_len n) (ipa_val n))\<rparr>
           in (case osmo_gsup_encode G forward of
                 None \<Rightarrow> respond_err G req GMM_CAUSE_NET_FAIL s
               | Some msg \<Rightarrow> req_free req (fst (remote_hlr_msgb_send i msg s))))"

definition remote_hlr_destroy :: "nat \<Rightarrow> 'a dgsm_world_scheme \<Rightarrow> 'a dgsm_world_scheme" where
  "remote_hlr_destroy i s = s\<lparr>remote_hlrs := filter (\<lambda>rh. rh_id rh \<noteq> i) (remote_hlrs s)\<rparr>"

section \<open>Deferred requests\<close>

definition proxy_deferred_gsup_req_add :: "osmo_gsup_req \<Rightarrow> 'a dgsm_world_scheme \<Rightarrow> 'a dgsm_world_scheme" where
  "proxy_deferred_gsup_req_add req s =
     s\<lparr>proxy := (proxy s)\<lparr>pending_gsup_reqs := pending_gsup_reqs (proxy s) @ [\<lparr>p_req = req, received_at = timestamp_update s\<rparr>]\<rparr>\<rparr>"

definition proxy_pending_req_remote_hlr_connect_result ::
  "gsup_lib \<Rightarrow> osmo_gsup_req \<Rightarrow> nat option \<Rightarrow> 'a dgsm_world_scheme \<Rightarrow> 'a dgsm_world_scheme" where
  "proxy_pending_req_remote_hlr_connect_result G req remote_hlr s =
     (case remote_hlr of
        None \<Rightarrow> respond_err G req GMM_CAUSE_IMSI_UNKNOWN s
      | Some i \<Rightarrow>
          if \<not> remote_hlr_is_up remote_hlr s then respond_err G req GMM_CAUSE_IMSI_UNKNOWN s
          else remote_hlr_gsup_forward_to_remote_hlr G i req None s)"

definition proxy_deferred_gsup_req_waiting :: "string \<Rightarrow> 'a dgsm_world_scheme \<Rightarrow> bool" where
  "proxy_deferred_gsup_req_waiting imsi s =
     list_ex (\<lambda>p. strcmp (g_imsi (req_gsup (p_req p))) imsi = 0) (pending_gsup_reqs (proxy s))"

definition proxy_deferred_gsup_req_pop ::
  "gsup_lib \<Rightarrow> string \<Rightarrow> nat option \<Rightarrow> 'a dgsm_world_scheme \<Rightarrow> 'a dgsm_world_scheme" where
  "proxy_deferred_gsup_req_pop G imsi remote_hlr s =
     fold (\<lambda>p s.
        if strcmp (g_imsi (req_gsup (p_req p))) imsi \<noteq> 0 then s
        else
          let s = proxy_pending_req_remote_hlr_connect_result G (p_req p) remote_hlr s
          in s\<lparr>proxy := (proxy s)\<lparr>pending_gsup_reqs := remove1 p (pending_gsup_reqs (proxy s))\<rparr>\<rparr>)
       (pending_gsup_reqs (proxy s)) s"

section \<open>Proxy entries\<close>

definition proxy_subscr_matches_imsi :: "proxy_subscr option \<Rightarrow> string option \<Rightarrow> bool" where
  "proxy_subscr_matches_imsi p imsi =
     (case (p, imsi) of (Some p, Some imsi) \<Rightarrow> strcmp (pr_imsi p) imsi = 0 | _ \<Rightarrow> False)"

definition proxy_subscr_matches_msisdn :: "proxy_subscr option \<Rightarrow> string option \<Rightarrow> bool" where
  "proxy_subscr_matches_msisdn p msisdn =
     (case (p, msisdn) of (Some p, Some msisdn) \<Rightarrow> strcmp (pr_msisdn p) msisdn = 0 | _ \<Rightarrow> False)"

definition proxy_get_by_imsi :: "string \<Rightarrow> 'a dgsm_world_scheme \<Rightarrow> proxy_subscr_listentry option" where
  "proxy_get_by_imsi imsi s =
     List.find (\<lambda>e. proxy_subscr_matches_imsi (Some (e_data e)) (Some imsi)) (subscr_list (proxy s))"

definition proxy_get_by_msisdn :: "string \<Rightarrow> 'a dgsm_world_scheme \<Rightarrow> proxy_subscr_listentry option" where
  "proxy_get_by_msisdn msisdn s =
     List.find (\<lambda>e. proxy_subscr_matches_msisdn (Some (e_data e)) (Some msisdn)) (subscr_list (proxy s))"

definition proxy_subscr_get_by_imsi :: "string \<Rightarrow> 'a dgsm_world_scheme \<Rightarrow> int + proxy_subscr" where
  "proxy_subscr_get_by_imsi imsi s =
     (case proxy_get_by_imsi imsi s of None \<Rightarrow> Inl (- ENOENT) | Some e \<Rightarrow> Inr (e_data e))"

definition proxy_subscr_get_by_msisdn :: "string \<Rightarrow> 'a dgsm_world_scheme \<Rightarrow> int + proxy_subscr" where
  "proxy_subscr_get_by_msisdn msisdn s =
     (case proxy_get_by_msisdn msisdn s of None \<Rightarrow> Inl (- ENOENT) | Some e \<Rightarrow> Inr (e_data e))"

definition set_subscr_list :: "proxy_subscr_listentry list \<Rightarrow> 'a dgsm_world_scheme \<Rightarrow> 'a dgsm_world_scheme" where
  "set_subscr_list es s = s\<lparr>proxy := (proxy s)\<lparr>subscr_list := es\<rparr>\<rparr>"

definition proxy_subscr_create_or_update :: "proxy_subscr \<Rightarrow> 'a dgsm_world_scheme \<Rightarrow> 'a dgsm_world_scheme \<times> int" where
  "proxy_subscr_create_or_update p s =
     (let e = \<lparr>last_update = timestamp_update s, e_data = p\<rparr>; es = subscr_list (proxy s)
      in (case proxy_get_by_imsi (pr_imsi p) s of
            None \<Rightarrow> (set_subscr_list (e # es) s, 0)
          | Some old \<Rightarrow> (set_subscr_list (map (\<lambda>x. if pr_imsi (e_data x) = pr_imsi (e_data old) then e else x) es) s, 0)))"

definition proxy_subscr_del0 :: "proxy_subscr_listentry \<Rightarrow> 'a dgsm_world_scheme \<Rightarrow> 'a dgsm_world_scheme \<times> int" where
  "proxy_subscr_del0 e s =
     (set_subscr_list (filter (\<lambda>x. pr_imsi (e_data x) \<noteq> pr_imsi (e_data e)) (subscr_list (proxy s))) s, 0)"

definition proxy_subscr_del :: "gsup_lib \<Rightarrow> string \<Rightarrow> 'a dgsm_world_scheme \<Rightarrow> 'a dgsm_world_scheme \<times> int" where
  "proxy_subscr_del G imsi s =
     (let s = proxy_deferred_gsup_req_pop G imsi None s
      in (case proxy_get_by_imsi imsi s of None \<Rightarrow> (s, - ENOENT) | Some e \<Rightarrow> proxy_subscr_del0 e s))"

definition proxy_cleanup :: "'a dgsm_world_scheme \<Rightarrow> 'a dgsm_world_scheme" where
  "proxy_cleanup s =
     (let s = fold (\<lambda>e s. case timestamp_age (last_update e) s of
                       (valid, age) \<Rightarrow> if valid \<and> age \<le> fresh_time (proxy s) then s else fst (proxy_subscr_del0 e s))
                (subscr_list (proxy s)) s
      in if gc_period (proxy s) \<noteq> 0 then s\<lparr>proxy := (proxy s)\<lparr>gc_timer := Some (gc_period (proxy s))\<rparr>\<rparr> else s)"

definition proxy_set_gc_period :: "32 word \<Rightarrow> 'a dgsm_world_scheme \<Rightarrow> 'a dgsm_world_scheme" where
  "proxy_set_gc_period n s = proxy_cleanup (s\<lparr>proxy := (proxy s)\<lparr>gc_period := n\<rparr>\<rparr>)"

definition proxy_init :: "'a dgsm_world_scheme \<Rightarrow> 'a dgsm_world_scheme" where
  "proxy_init s =
     (let s = s\<lparr>proxy := \<lparr>subscr_list = [], pending_gsup_reqs = [], fresh_time = 60 * 60, gc_period = 60, gc_timer = None\<rparr>\<rparr>
      in proxy_set_gc_period (gc_period (proxy s)) s)"

section \<open>Messages through the proxy\<close>

definition proxy_acknowledge_gsup_to_remote_hlr ::
  "proxy_subscr \<Rightarrow> osmo_gsup_req \<Rightarrow> 'a dgsm_world_scheme \<Rightarrow> 'a dgsm_world_scheme \<times> int" where
  "proxy_acknowledge_gsup_to_remote_hlr p req s =
     (if peer_type (req_source_name req) \<noteq> OSMO_CNI_PEER_ID_IPA_NAME then (s, - ENOTSUP)
      else if message_type (req_gsup req) = OSMO_GSUP_MSGT_UPDATE_LOCATION_REQUEST then
        let name = peer_ipa_name (req_source_name req);
            p' = (case g_cn_domain (req_gsup req) of
                    OSMO_GSUP_CN_DOMAIN_CS \<Rightarrow> p\<lparr>pr_cs := (pr_cs p)\<lparr>vlr_name_preliminary := name\<rparr>\<rparr>
                  | OSMO_GSUP_CN_DOMAIN_PS \<Rightarrow> p\<lparr>pr_ps := (pr_ps p)\<lparr>vlr_name_preliminary := name\<rparr>\<rparr>
                  | _ \<Rightarrow> p);
            cs = osmo_ipa_name_cmp False (Some (vlr_name_preliminary (pr_cs p'))) (Some (vlr_name_preliminary (pr_cs p))) \<noteq> 0;
            ps = osmo_ipa_name_cmp False (Some (vlr_name_preliminary (pr_ps p'))) (Some (vlr_name_preliminary (pr_ps p))) \<noteq> 0
        in if \<not> (cs \<or> ps) then (s, 0) else (fst (proxy_subscr_create_or_update p' s), 0)
      else (s, 0))"

definition MSISDN_BUF_SIZE :: nat where "MSISDN_BUF_SIZE = 16"

definition proxy_acknowledge_gsup_from_remote_hlr ::
  "osmo_core \<Rightarrow> gsup_lib \<Rightarrow> proxy_subscr \<Rightarrow> osmo_gsup_message \<Rightarrow> osmo_ipa_name \<Rightarrow> osmo_ipa_name \<Rightarrow> 'a dgsm_world_scheme
     \<Rightarrow> 'a dgsm_world_scheme \<times> gmm_cause option" where
  "proxy_acknowledge_gsup_from_remote_hlr L G p gsup destination via_peer s =
     (let via_proxy = (if osmo_ipa_name_cmp False (Some via_peer) (Some destination) \<noteq> 0 then via_peer else ipa_name_empty)
      in (case message_type gsup of
            OSMO_GSUP_MSGT_INSERT_DATA_REQUEST \<Rightarrow>
              (case msisdn_enc gsup of
                 None \<Rightarrow> (s, None)
               | Some enc \<Rightarrow>
                   if enc = [] then (s, None)
                   else (case gsm48_decode_bcd_number2 G MSISDN_BUF_SIZE enc of
                      (rc, msisdn) \<Rightarrow>
                        if rc \<noteq> 0 then (s, None)
                        else if \<not> osmo_msisdn_str_valid L msisdn then (s, None)
                        else if strcmp (pr_msisdn p) msisdn = 0 then (s, None)
                        else (fst (proxy_subscr_create_or_update (p\<lparr>pr_msisdn := msisdn\<rparr>) s), None)))
          | OSMO_GSUP_MSGT_UPDATE_LOCATION_RESULT \<Rightarrow>
              let cs = osmo_ipa_name_cmp False (Some destination) (Some (vlr_name_preliminary (pr_cs p))) = 0;
                  ps = osmo_ipa_name_cmp False (Some destination) (Some (vlr_name_preliminary (pr_ps p))) = 0;
                  attached = (\<lambda>d. d\<lparr>last_lu := timestamp_update s, vlr_name_preliminary := ipa_name_empty,
                                   ds_vlr_name := destination, vlr_via_proxy := via_proxy\<rparr>);
                  p' = (if cs then p\<lparr>pr_cs := attached (pr_cs p)\<rparr> else p);
                  p' = (if ps then p'\<lparr>pr_ps := attached (pr_ps p)\<rparr> else p')
              in if \<not> (cs \<or> ps) then (s, Some GMM_CAUSE_PROTO_ERR_UNSPEC)
                 else (fst (proxy_subscr_create_or_update p' s), None)
          | _ \<Rightarrow> (s, None)))"

definition proxy_remote_hlr_connect_result_cb ::
  "osmo_core \<Rightarrow> gsup_lib \<Rightarrow> osmo_sockaddr_str \<Rightarrow> nat option \<Rightarrow> 'a dgsm_world_scheme \<Rightarrow> 'a dgsm_world_scheme" where
  "proxy_remote_hlr_connect_result_cb L G addr remote_hlr s =
     fold (\<lambda>e s. if osmo_sockaddr_str_cmp L addr (remote_hlr_addr (e_data e)) = 0
                 then proxy_deferred_gsup_req_pop G (pr_imsi (e_data e)) remote_hlr s else s)
       (subscr_list (proxy s)) s"

definition remote_hlr_up_down ::
  "osmo_core \<Rightarrow> gsup_lib \<Rightarrow> nat \<Rightarrow> bool \<Rightarrow> 'a dgsm_world_scheme \<Rightarrow> 'a dgsm_world_scheme \<times> bool" where
  "remote_hlr_up_down L G i up s =
     (if \<not> up then (remote_hlr_destroy i s, False)
      else (case rh_find i s of
              None \<Rightarrow> (s, True)
            | Some rh \<Rightarrow>
                (fold (\<lambda>p s.
                    let s = (case p of PROXY_REMOTE_HLR_CONNECT_RESULT_CB \<Rightarrow>
                               proxy_remote_hlr_connect_result_cb L G (rh_addr rh) (Some i) s)
                    in (case rh_find i s of None \<Rightarrow> s
                        | Some rh \<Rightarrow> rh_store (rh\<lparr>pending_up_callbacks := tl (pending_up_callbacks rh)\<rparr>) s))
                   (pending_up_callbacks rh) s, True)))"

definition remote_hlr_get_or_connect ::
  "osmo_core \<Rightarrow> gsup_lib \<Rightarrow> oap_lib \<Rightarrow> net \<Rightarrow> osmo_sockaddr_str \<Rightarrow> bool \<Rightarrow> remote_hlr_pending_up option \<Rightarrow> 'a dgsm_world_scheme
     \<Rightarrow> 'a dgsm_world_scheme \<times> nat option" where
  "remote_hlr_get_or_connect L G P net addr connect cb s =
     (let call = (\<lambda>rh s. case cb of None \<Rightarrow> s
                    | Some PROXY_REMOTE_HLR_CONNECT_RESULT_CB \<Rightarrow> proxy_remote_hlr_connect_result_cb L G addr rh s);
          add_result_cb = (\<lambda>i s.
            (case cb of
               None \<Rightarrow> s
             | Some c \<Rightarrow>
                 if remote_hlr_is_up (Some i) s then call (Some i) s
                 else (case rh_find i s of None \<Rightarrow> s
                       | Some rh \<Rightarrow> rh_store (rh\<lparr>pending_up_callbacks := pending_up_callbacks rh @ [c]\<rparr>) s),
             Some i))
      in (case List.find (\<lambda>rh. osmo_sockaddr_str_cmp L (rh_addr rh) addr = 0) (remote_hlrs s) of
            Some rh \<Rightarrow> add_result_cb (rh_id rh) s
          | None \<Rightarrow>
              if \<not> connect then (call None s, None)
              else (case osmo_gsup_client_create3 P None (fst (net addr)) (snd (net addr)) of
                      None \<Rightarrow> (call None s, None)
                    | Some gsupc \<Rightarrow>
                        let rh = \<lparr>rh_id = next_rh_id s, rh_addr = addr, rh_gsupc = Some gsupc, pending_up_callbacks = []\<rparr>
                        in add_result_cb (rh_id rh)
                             (s\<lparr>remote_hlrs := rh # remote_hlrs s, next_rh_id := next_rh_id s + 1\<rparr>))))"

definition proxy_subscr_remote_hlr_resolved ::
  "osmo_core \<Rightarrow> gsup_lib \<Rightarrow> oap_lib \<Rightarrow> net \<Rightarrow> proxy_subscr \<Rightarrow> osmo_sockaddr_str \<Rightarrow> 'a dgsm_world_scheme \<Rightarrow> 'a dgsm_world_scheme" where
  "proxy_subscr_remote_hlr_resolved L G P net p addr s =
     (if osmo_sockaddr_str_is_nonzero L (remote_hlr_addr p) \<and> osmo_sockaddr_str_cmp L addr (remote_hlr_addr p) = 0 then s
      else
        let p = p\<lparr>remote_hlr_addr := addr\<rparr>
        in (case proxy_subscr_create_or_update p s of
              (s, rc) \<Rightarrow>
                if rc \<noteq> 0 then fst (proxy_subscr_del G (pr_imsi p) s)
                else if proxy_deferred_gsup_req_waiting (pr_imsi p) s
                then fst (remote_hlr_get_or_connect L G P net (remote_hlr_addr p) True (Some PROXY_REMOTE_HLR_CONNECT_RESULT_CB) s)
                else s))"

definition proxy_subscr_forward_to_remote_hlr ::
  "osmo_core \<Rightarrow> gsup_lib \<Rightarrow> oap_lib \<Rightarrow> net \<Rightarrow> proxy_subscr \<Rightarrow> osmo_gsup_req \<Rightarrow> 'a dgsm_world_scheme
     \<Rightarrow> 'a dgsm_world_scheme \<times> int" where
  "proxy_subscr_forward_to_remote_hlr L G P net p req s =
     (case proxy_acknowledge_gsup_to_remote_hlr p req s of
        (s, rc) \<Rightarrow>
          if rc \<noteq> 0 then (respond_err G req GMM_CAUSE_PROTO_ERR_UNSPEC s, rc)
          else if \<not> osmo_sockaddr_str_is_nonzero L (remote_hlr_addr p) then (proxy_deferred_gsup_req_add req s, 0)
          else (case remote_hlr_get_or_connect L G P net (remote_hlr_addr p) False None s of
                  (s, rh) \<Rightarrow>
                    if rh \<noteq> None \<and> remote_hlr_is_up rh s
                    then (proxy_pending_req_remote_hlr_connect_result G req rh s, 0)
                    else
                      let s = proxy_deferred_gsup_req_add req s
                      in (fst (remote_hlr_get_or_connect L G P net (remote_hlr_addr p) True
                                 (Some PROXY_REMOTE_HLR_CONNECT_RESULT_CB) s), 0)))"

definition conn_peer_name :: "nat \<Rightarrow> osmo_gsup_server \<Rightarrow> osmo_ipa_name" where
  "conn_peer_name cid g =
     (case List.find (\<lambda>c. conn_id c = cid) (clients g) of None \<Rightarrow> ipa_name_empty | Some c \<Rightarrow> peer_name c)"

definition proxy_subscr_forward_to_vlr ::
  "osmo_core \<Rightarrow> gsup_lib \<Rightarrow> proxy_subscr \<Rightarrow> osmo_gsup_message \<Rightarrow> 'a dgsm_world_scheme
     \<Rightarrow> 'a dgsm_world_scheme \<times> (gmm_cause + int)" where
  \<comment> \<open>a cause is a positive return value; otherwise the result of \<open>osmo_gsup_conn_send\<close>\<close>
  "proxy_subscr_forward_to_vlr L G p gsup s =
     (case osmo_ipa_name_set ipa_name_empty (g_destination_name gsup) of
        (destination, rc) \<Rightarrow>
          if rc \<noteq> 0 then (s, Inl GMM_CAUSE_INV_MAND_INFO)
          else (case gsup_route_find_by_ipa_name (gs s) destination of
                  None \<Rightarrow> (s, Inl GMM_CAUSE_MSC_TEMP_NOTREACH)
                | Some vlr_conn \<Rightarrow>
                    (case proxy_acknowledge_gsup_from_remote_hlr L G p gsup destination (conn_peer_name vlr_conn (gs s)) s of
                       (s, Some _) \<Rightarrow> (s, Inl GMM_CAUSE_PROTO_ERR_UNSPEC)
                     | (s, None) \<Rightarrow>
                         (case osmo_gsup_encode G gsup of
                            None \<Rightarrow> (s, Inl GMM_CAUSE_INV_MAND_INFO)
                          | Some msg \<Rightarrow>
                              (case osmo_gsup_conn_send (Some vlr_conn) msg (gs s) of (g, rc) \<Rightarrow> (s\<lparr>gs := g\<rparr>, Inr rc))))))"

definition remote_hlr_err_reply ::
  "gsup_lib \<Rightarrow> nat \<Rightarrow> osmo_gsup_message \<Rightarrow> gmm_cause \<Rightarrow> 'a dgsm_world_scheme \<Rightarrow> 'a dgsm_world_scheme" where
  "remote_hlr_err_reply G i gsup_orig cause s =
     (if \<not> msgt_is_request G (message_type gsup_orig) then s
      else
        let reply = gsup_zero\<lparr>g_cause := cause, message_type := to_msgt_error G (message_type gsup_orig),
              message_class := message_class gsup_orig, sm_rp_mr := sm_rp_mr gsup_orig,
              g_imsi := strlcpy IMSI_BUF_SIZE (g_imsi gsup_orig)\<rparr>;
            reply = (if session_state gsup_orig \<noteq> OSMO_GSUP_SESSION_STATE_NONE
                     then reply\<lparr>session_state := OSMO_GSUP_SESSION_STATE_END, session_id := session_id gsup_orig\<rparr> else reply)
        in fst (rh_client_send i (osmo_gsup_client_enc_send G reply) s))"

definition remote_hlr_rx ::
  "osmo_core \<Rightarrow> gsup_lib \<Rightarrow> nat \<Rightarrow> octets \<Rightarrow> 'a dgsm_world_scheme \<Rightarrow> 'a dgsm_world_scheme \<times> gmm_cause option" where
  \<comment> \<open>\<open>i\<close>: the remote HLR the message came from; the result names the cause of a failure, None after
    success and when the message could not be decoded\<close>
  "remote_hlr_rx L G i msg s =
     (case osmo_gsup_decode G msg of
        None \<Rightarrow> (s, None)
      | Some gsup \<Rightarrow>
          if \<not> osmo_imsi_str_valid L (g_imsi gsup)
          then (remote_hlr_err_reply G i gsup GMM_CAUSE_INV_MAND_INFO s, Some GMM_CAUSE_INV_MAND_INFO)
          else (case proxy_subscr_get_by_imsi (g_imsi gsup) s of
                  Inl _ \<Rightarrow> (remote_hlr_err_reply G i gsup GMM_CAUSE_NET_FAIL s, Some GMM_CAUSE_NET_FAIL)
                | Inr p \<Rightarrow>
                    (case proxy_subscr_forward_to_vlr L G p gsup s of
                       (s, rc) \<Rightarrow>
                         if rc \<noteq> Inr 0
                         then (remote_hlr_err_reply G i gsup GMM_CAUSE_NET_FAIL s, Some GMM_CAUSE_NET_FAIL)
                         else (s, None))))"

definition remote_hlr_link :: "osmo_core \<Rightarrow> gsup_lib \<Rightarrow> oap_lib \<Rightarrow> nat \<Rightarrow> bool \<Rightarrow> 'a dgsm_world_scheme \<Rightarrow> 'a dgsm_world_scheme" where
  \<comment> \<open>the GSUP client reports its link up or down, with \<open>remote_hlr_up_down\<close> as its callback\<close>
  "remote_hlr_link L G P i up s =
     (case rh_find i s of
        None \<Rightarrow> s
      | Some rh \<Rightarrow>
          let s = rh_store (rh\<lparr>rh_gsupc := map_option (gsup_client_updown_cb P (Some up) up) (rh_gsupc rh)\<rparr>) s
          in fst (remote_hlr_up_down L G i up s))"

section \<open>What the operations leave alone\<close>

definition proxy_frame :: "'a dgsm_world_scheme \<Rightarrow> 'a dgsm_world_scheme \<Rightarrow> bool" where
  \<comment> \<open>the state of the other components\<close>
  "proxy_frame s t \<longleftrightarrow> next_req_nr (gs t) = next_req_nr (gs s) \<and> dbc t = dbc s \<and> g_all_lu t = g_all_lu s \<and> ss_sessions t = ss_sessions s \<and> ussd_routes t = ussd_routes s"

lemma frame_refl [simp]: "proxy_frame s s"
  by (simp add: proxy_frame_def)

lemma frame_trans: "proxy_frame s t \<Longrightarrow> proxy_frame t u \<Longrightarrow> proxy_frame s u"
  by (simp add: proxy_frame_def)

lemma respond_proxy_sel [simp]:
  "proxy (respond_err G req c s) = proxy s" "proxy (req_free req s) = proxy s"
  "remote_hlrs (respond_err G req c s) = remote_hlrs s" "remote_hlrs (req_free req s) = remote_hlrs s"
  "next_rh_id (respond_err G req c s) = next_rh_id s" "next_rh_id (req_free req s) = next_rh_id s"
  by (simp_all add: respond_defs)

lemma respond_frame [simp]: "proxy_frame s (respond_err G req c s)" "proxy_frame s (req_free req s)"
  by (simp_all add: proxy_frame_def)

lemma rh_store_sel [simp]:
  "gs (rh_store rh s) = gs s" "proxy (rh_store rh s) = proxy s" "next_rh_id (rh_store rh s) = next_rh_id s"
  "proxy_frame s (rh_store rh s)"
  by (simp_all add: rh_store_def proxy_frame_def)

lemma rh_client_send_sel [simp]:
  "gs (fst (rh_client_send i f s)) = gs s" "proxy (fst (rh_client_send i f s)) = proxy s"
  "next_rh_id (fst (rh_client_send i f s)) = next_rh_id s" "proxy_frame s (fst (rh_client_send i f s))"
  by (auto simp: rh_client_send_def prod.case_eq_if split: option.splits)

lemma req_free_frame: "proxy_frame s t \<Longrightarrow> proxy_frame s (req_free req t)"
  by (simp add: proxy_frame_def)

lemma forward_facts:
  "proxy (remote_hlr_gsup_forward_to_remote_hlr G i req m s) = proxy s"
  "proxy_frame s (remote_hlr_gsup_forward_to_remote_hlr G i req m s)"
  "freed nr (gs (remote_hlr_gsup_forward_to_remote_hlr G i req m s)) = freed nr (gs s) + (if nr = req_nr req then 1 else 0)"
  by (auto simp: remote_hlr_gsup_forward_to_remote_hlr_def remote_hlr_msgb_send_def Let_def freed_simps
      intro!: req_free_frame split: option.splits)

lemma connect_result_facts [simp]:
  "proxy (proxy_pending_req_remote_hlr_connect_result G req rh s) = proxy s"
  "proxy_frame s (proxy_pending_req_remote_hlr_connect_result G req rh s)"
  "freed nr (gs (proxy_pending_req_remote_hlr_connect_result G req rh s)) = freed nr (gs s) + (if nr = req_nr req then 1 else 0)"
  by (auto simp: proxy_pending_req_remote_hlr_connect_result_def forward_facts freed_simps split: option.splits)

lemma frame_proxy [simp]: "proxy_frame s (t\<lparr>proxy := p\<rparr>) = proxy_frame s t"
  by (simp add: proxy_frame_def)

section \<open>Invariant and ownership of deferred requests\<close>

abbreviation p_nr :: "proxy_pending_gsup_req \<Rightarrow> nat" where
  "p_nr p \<equiv> req_nr (p_req p)"

abbreviation p_imsi :: "proxy_pending_gsup_req \<Rightarrow> string" where
  "p_imsi p \<equiv> g_imsi (req_gsup (p_req p))"

abbreviation pend :: "'a dgsm_world_scheme \<Rightarrow> proxy_pending_gsup_req list" where
  "pend s \<equiv> pending_gsup_reqs (proxy s)"

abbreviation proxy_held :: "'a dgsm_world_scheme \<Rightarrow> nat set" where
  \<comment> \<open>the requests the proxy has deferred\<close>
  "proxy_held s \<equiv> p_nr ` set (pend s)"

definition proxy_inv :: "'a dgsm_world_scheme \<Rightarrow> bool" where
  "proxy_inv s \<longleftrightarrow> distinct (map p_nr (pend s)) \<and> distinct (map (pr_imsi \<circ> e_data) (subscr_list (proxy s)))"

definition pop_step :: "gsup_lib \<Rightarrow> string \<Rightarrow> nat option \<Rightarrow> proxy_pending_gsup_req \<Rightarrow> 'a dgsm_world_scheme \<Rightarrow> 'a dgsm_world_scheme" where
  \<comment> \<open>the body of the loop\<close>
  "pop_step G imsi rh p s =
     (if p_imsi p \<noteq> imsi then s
      else let s = proxy_pending_req_remote_hlr_connect_result G (p_req p) rh s
           in s\<lparr>proxy := (proxy s)\<lparr>pending_gsup_reqs := remove1 p (pending_gsup_reqs (proxy s))\<rparr>\<rparr>)"

lemma pop_fold: "proxy_deferred_gsup_req_pop G imsi rh s = fold (pop_step G imsi rh) (pend s) s"
  unfolding proxy_deferred_gsup_req_pop_def pop_step_def by (simp add: cmp_simps cong: fold_cong)

lemma remove1_distinct: "distinct xs \<Longrightarrow> remove1 x xs = filter (\<lambda>y. y \<noteq> x) xs"
  by (simp add: distinct_remove1_removeAll removeAll_filter_not_eq eq_commute)

lemma pop_steps:
  "distinct (pend s) \<Longrightarrow>
     proxy (fold (pop_step G imsi rh) ps s) =
       (proxy s)\<lparr>pending_gsup_reqs := filter (\<lambda>p. \<not> (p_imsi p = imsi \<and> p \<in> set ps)) (pend s)\<rparr> \<and>
     proxy_frame s (fold (pop_step G imsi rh) ps s) \<and>
     freed nr (gs (fold (pop_step G imsi rh) ps s)) =
       freed nr (gs s) + length (filter (\<lambda>p. p_imsi p = imsi \<and> p_nr p = nr) ps)"
proof (induction ps arbitrary: s)
  case (Cons p ps)
  define t where "t = pop_step G imsi rh p s"
  have t: "proxy t = (proxy s)\<lparr>pending_gsup_reqs := if p_imsi p = imsi then filter (\<lambda>q. q \<noteq> p) (pend s) else pend s\<rparr>"
    "proxy_frame s t" "freed nr (gs t) = freed nr (gs s) + (if p_imsi p = imsi \<and> p_nr p = nr then 1 else 0)"
    using Cons.prems by (auto simp: t_def pop_step_def Let_def remove1_distinct)
  have "distinct (pend t)" using Cons.prems t(1) by simp
  from Cons.IH [OF this] t show ?case
    by (auto simp: t_def [symmetric] intro: frame_trans intro!: filter_cong proxy.equality)
qed simp

definition popped :: "string set \<Rightarrow> 'a dgsm_world_scheme \<Rightarrow> 'a dgsm_world_scheme \<Rightarrow> bool" where
  \<comment> \<open>the deferred requests of the subscribers in the set were concluded, nothing else happened to requests\<close>
  "popped I s t \<longleftrightarrow> proxy t = (proxy s)\<lparr>pending_gsup_reqs := filter (\<lambda>p. p_imsi p \<notin> I) (pend s)\<rparr> \<and> proxy_frame s t \<and>
     (\<forall>nr. freed nr (gs t) = freed nr (gs s) + (if nr \<in> p_nr ` {p \<in> set (pend s). p_imsi p \<in> I} then 1 else 0))"

lemma popped_empty: "popped {} s t \<longleftrightarrow> proxy t = proxy s \<and> proxy_frame s t \<and> (\<forall>nr. freed nr (gs t) = freed nr (gs s))"
  by (simp add: popped_def)

lemma popped_refl [simp]: "popped {} s s"
  by (simp add: popped_empty)

lemma popped_inv: "popped I s t \<Longrightarrow> proxy_inv s \<Longrightarrow> proxy_inv t"
  by (simp add: popped_def proxy_inv_def distinct_map_filter)

lemma popped_trans:
  assumes "popped I s t" and "popped J t u" and "distinct (map p_nr (pend s))"
  shows "popped (I \<union> J) s u"
proof -
  have inj: "inj_on p_nr (set (pend s))" using assms(3) by (simp add: distinct_map)
  have pend: "pend t = filter (\<lambda>p. p_imsi p \<notin> I) (pend s)" using assms(1) by (simp add: popped_def)
  have "freed nr (gs u) = freed nr (gs s) + (if nr \<in> p_nr ` {p \<in> set (pend s). p_imsi p \<in> I \<union> J} then 1 else 0)" for nr
    using assms(1,2) inj pend by (auto simp: popped_def inj_on_def image_iff)
  moreover have "proxy u = (proxy s)\<lparr>pending_gsup_reqs := filter (\<lambda>p. p_imsi p \<notin> I \<union> J) (pend s)\<rparr>"
    using assms(1,2) by (simp add: popped_def conj_commute)
  ultimately show ?thesis using assms(1,2) by (auto simp: popped_def intro: frame_trans)
qed

lemma pop_popped:
  assumes "distinct (map p_nr (pend s))"
  shows "popped {imsi} s (proxy_deferred_gsup_req_pop G imsi rh s)"
proof -
  have d: "distinct (pend s)" using assms by (simp add: distinct_map)
  have "length (filter (\<lambda>p. p_imsi p = imsi \<and> p_nr p = nr) ps) =
      (if nr \<in> p_nr ` {p \<in> set ps. p_imsi p = imsi} then 1 else 0)" if "distinct (map p_nr ps)" for ps nr
    using that by (induction ps) (auto simp: filter_empty_conv image_iff)
  with pop_steps [OF d, of G imsi rh "pend s", folded pop_fold] assms show ?thesis
    by (auto simp: popped_def intro!: filter_cong proxy.equality)
qed

definition subscr_at :: "osmo_core \<Rightarrow> osmo_sockaddr_str \<Rightarrow> 'a dgsm_world_scheme \<Rightarrow> string set" where
  \<comment> \<open>the subscribers whose home is the HLR with this address\<close>
  "subscr_at L addr s =
     (pr_imsi \<circ> e_data) ` {e \<in> set (subscr_list (proxy s)). osmo_sockaddr_str_cmp L addr (remote_hlr_addr (e_data e)) = 0}"

lemma connect_result_cb_popped:
  assumes "distinct (map p_nr (pend s))"
  shows "popped (subscr_at L addr s) s (proxy_remote_hlr_connect_result_cb L G addr rh s)"
proof -
  define f :: "proxy_subscr_listentry \<Rightarrow> 'a dgsm_world_scheme \<Rightarrow> 'a dgsm_world_scheme"
    where "f = (\<lambda>e s. if osmo_sockaddr_str_cmp L addr (remote_hlr_addr (e_data e)) = 0
                 then proxy_deferred_gsup_req_pop G (pr_imsi (e_data e)) rh s else s)"
  have "popped ((pr_imsi \<circ> e_data) ` {e \<in> set es. osmo_sockaddr_str_cmp L addr (remote_hlr_addr (e_data e)) = 0}) s (fold f es s)"
    if "distinct (map p_nr (pend s))" for es s using that
  proof (induction es arbitrary: s)
    case (Cons e es)
    define I where "I = (if osmo_sockaddr_str_cmp L addr (remote_hlr_addr (e_data e)) = 0 then {pr_imsi (e_data e)} else {})"
    have p: "popped I s (f e s)" using pop_popped [OF Cons.prems] by (simp add: f_def I_def)
    then have "distinct (map p_nr (pend (f e s)))" using Cons.prems by (simp add: popped_def distinct_map_filter)
    have "(pr_imsi \<circ> e_data) ` {x \<in> set (e # es). osmo_sockaddr_str_cmp L addr (remote_hlr_addr (e_data x)) = 0} =
      I \<union> (pr_imsi \<circ> e_data) ` {x \<in> set es. osmo_sockaddr_str_cmp L addr (remote_hlr_addr (e_data x)) = 0}"
      by (auto simp: I_def)
    with popped_trans [OF p Cons.IH [OF \<open>distinct (map p_nr (pend (f e s)))\<close>] Cons.prems] show ?case by simp
  qed simp
  then show ?thesis using assms by (simp add: proxy_remote_hlr_connect_result_cb_def subscr_at_def f_def)
qed

lemma rh_update_popped [simp]:
  "popped {} s (rh_store rh s)" "popped {} s (s\<lparr>remote_hlrs := rs\<rparr>)" "popped {} s (s\<lparr>remote_hlrs := rs, next_rh_id := n\<rparr>)"
  by (simp_all add: popped_empty proxy_frame_def rh_store_def)

lemma popped_after: "popped {} s t \<Longrightarrow> popped I t u \<Longrightarrow> distinct (map p_nr (pend s)) \<Longrightarrow> popped I s u"
  using popped_trans [of "{}" s t I u] by simp

lemma get_or_connect_popped:
  assumes d: "distinct (map p_nr (pend s))"
  shows "\<exists>I \<subseteq> subscr_at L addr s. popped I s (fst (remote_hlr_get_or_connect L G P net addr connect cb s))"
proof -
  define call :: "nat option \<Rightarrow> 'a dgsm_world_scheme \<Rightarrow> 'a dgsm_world_scheme" where "call = (\<lambda>rh s. case cb of None \<Rightarrow> s
      | Some PROXY_REMOTE_HLR_CONNECT_RESULT_CB \<Rightarrow> proxy_remote_hlr_connect_result_cb L G addr rh s)"
  define s1 where "s1 = (\<lambda>rh. s\<lparr>remote_hlrs := rh # remote_hlrs s, next_rh_id := next_rh_id s + 1\<rparr>)"
  have s1: "popped {} s (s1 rh)" "subscr_at L addr (s1 rh) = subscr_at L addr s" "distinct (map p_nr (pend (s1 rh)))" for rh
    using d by (simp_all add: s1_def subscr_at_def)
  have call: "\<exists>I \<subseteq> subscr_at L addr t. popped I t (call rh t)" if "distinct (map p_nr (pend t))" for rh t
    using connect_result_cb_popped [OF that, of L addr G rh]
    by (cases cb) (auto simp: call_def split: remote_hlr_pending_up.split)
  define add :: "nat \<Rightarrow> 'a dgsm_world_scheme \<Rightarrow> 'a dgsm_world_scheme" where "add = (\<lambda>i s. (case cb of
       None \<Rightarrow> s
     | Some c \<Rightarrow>
         if remote_hlr_is_up (Some i) s then call (Some i) s
         else (case rh_find i s of None \<Rightarrow> s
               | Some rh \<Rightarrow> rh_store (rh\<lparr>pending_up_callbacks := pending_up_callbacks rh @ [c]\<rparr>) s)))"
  have add: "\<exists>I \<subseteq> subscr_at L addr t. popped I t (add i t)" if "distinct (map p_nr (pend t))" for i t
    using call [OF that, of "Some i"] popped_refl [of t] rh_update_popped(1) [of t]
    by (auto simp: add_def simp del: popped_refl rh_update_popped split: option.splits)
  have "fst (remote_hlr_get_or_connect L G P net addr connect cb s) =
    (case List.find (\<lambda>rh. osmo_sockaddr_str_cmp L (rh_addr rh) addr = 0) (remote_hlrs s) of
       Some rh \<Rightarrow> add (rh_id rh) s
     | None \<Rightarrow>
         if \<not> connect then call None s
         else (case osmo_gsup_client_create3 P None (fst (net addr)) (snd (net addr)) of
                 None \<Rightarrow> call None s
               | Some gsupc \<Rightarrow> add (next_rh_id s)
                   (s1 \<lparr>rh_id = next_rh_id s, rh_addr = addr, rh_gsupc = Some gsupc, pending_up_callbacks = []\<rparr>)))"
    by (simp add: remote_hlr_get_or_connect_def Let_def call_def add_def s1_def split: option.split remote_hlr_pending_up.split)
  then show ?thesis
    using call [OF d, of None] add [OF d] add [OF s1(3)] s1(1,2) popped_after [OF s1(1) _ d]
    by (auto split: option.splits) metis
qed

section \<open>What a step does to requests\<close>

definition proxy_quiet :: "'a dgsm_world_scheme \<Rightarrow> 'a dgsm_world_scheme \<Rightarrow> bool" where
  \<comment> \<open>some deferred requests were concluded, and none added\<close>
  "proxy_quiet s t \<longleftrightarrow> proxy_frame s t \<and> proxy_inv t \<and> (\<exists>A \<subseteq> proxy_held s. effect proxy_held A {} s t)"

definition proxy_took :: "nat \<Rightarrow> 'a dgsm_world_scheme \<Rightarrow> 'a dgsm_world_scheme \<Rightarrow> bool" where
  \<comment> \<open>the same, and the request was concluded or deferred\<close>
  "proxy_took r s t \<longleftrightarrow> proxy_frame s t \<and> proxy_inv t \<and>
     (\<exists>A B. A \<subseteq> insert r (proxy_held s) \<and> B \<subseteq> {r} \<and> r \<in> A \<union> B \<and> effect proxy_held A B s t)"

lemma effect_trans:
  assumes "effect held A B s t" and "effect held A' B' t u" and "A \<inter> A' = {}" and "A \<inter> B' = {}"
  shows "effect held (A \<union> A') (B \<union> B') s u"
proof -
  have "freed nr (gs u) = freed nr (gs s) + (if nr \<in> A \<union> A' then 1 else 0)" for nr
    using assms(1-3) by (auto simp: effect_def)
  moreover have "held u = (held s \<union> (B \<union> B')) - (A \<union> A')" "next_req_nr (gs u) = next_req_nr (gs s)"
    using assms by (auto simp: effect_def)
  ultimately show ?thesis by (simp add: effect_def)
qed

lemma pq_trans:
  assumes "proxy_quiet s t" and "proxy_quiet t u"
  shows "proxy_quiet s u"
proof -
  obtain A A' where A: "A \<subseteq> proxy_held s" "effect proxy_held A {} s t" and A': "A' \<subseteq> proxy_held t" "effect proxy_held A' {} t u"
    using assms by (auto simp: proxy_quiet_def)
  have "A \<inter> A' = {}" "A \<union> A' \<subseteq> proxy_held s" using A A' by (auto simp: effect_def)
  with effect_trans [OF A(2) A'(2)] have "A \<union> A' \<subseteq> proxy_held s \<and> effect proxy_held (A \<union> A') {} s u" by simp
  then show ?thesis using assms frame_trans [of s t u] unfolding proxy_quiet_def by blast
qed

lemma took_pq:
  assumes "proxy_took r s t" and "proxy_quiet t u"
  shows "proxy_took r s u"
proof -
  obtain A B A' where A: "A \<subseteq> insert r (proxy_held s)" "B \<subseteq> {r}" "r \<in> A \<union> B" "effect proxy_held A B s t"
    and A': "A' \<subseteq> proxy_held t" "effect proxy_held A' {} t u"
    using assms unfolding proxy_took_def proxy_quiet_def by blast
  have "A \<inter> A' = {}" "A \<union> A' \<subseteq> insert r (proxy_held s)" using A A' by (auto simp: effect_def)
  with effect_trans [OF A(4) A'(2)] have "A \<union> A' \<subseteq> insert r (proxy_held s) \<and> B \<subseteq> {r} \<and> r \<in> (A \<union> A') \<union> B \<and>
      effect proxy_held (A \<union> A') B s u" using A by auto
  then show ?thesis using assms frame_trans [of s t u] unfolding proxy_took_def proxy_quiet_def by blast
qed

lemma pq_took:
  assumes "proxy_quiet s t" and "proxy_took r t u" and r: "r \<notin> proxy_held s"
  shows "proxy_took r s u"
proof -
  obtain A A' B' where A: "A \<subseteq> proxy_held s" "effect proxy_held A {} s t"
    and A': "A' \<subseteq> insert r (proxy_held t)" "B' \<subseteq> {r}" "r \<in> A' \<union> B'" "effect proxy_held A' B' t u"
    using assms unfolding proxy_took_def proxy_quiet_def by blast
  have "A \<inter> A' = {}" "A \<inter> B' = {}" "A \<union> A' \<subseteq> insert r (proxy_held s)" using A A' r by (auto simp: effect_def)
  with effect_trans [OF A(2) A'(4)] have "A \<union> A' \<subseteq> insert r (proxy_held s) \<and> B' \<subseteq> {r} \<and> r \<in> (A \<union> A') \<union> B' \<and>
      effect proxy_held (A \<union> A') B' s u" using A' by auto
  then show ?thesis using assms frame_trans [of s t u] unfolding proxy_took_def proxy_quiet_def by blast
qed

lemma pq_refl [simp]: "proxy_inv s \<Longrightarrow> proxy_quiet s s"
  by (auto simp: proxy_quiet_def effect_def)

lemma pq_inv: "proxy_quiet s t \<Longrightarrow> proxy_inv t" and pq_frame: "proxy_quiet s t \<Longrightarrow> proxy_frame s t"
  and took_inv: "proxy_took r s t \<Longrightarrow> proxy_inv t" and took_frame: "proxy_took r s t \<Longrightarrow> proxy_frame s t"
  by (simp_all add: proxy_quiet_def proxy_took_def)

lemma pq_held: "proxy_quiet s t \<Longrightarrow> proxy_held t \<subseteq> proxy_held s"
  by (auto simp: proxy_quiet_def effect_def)

lemma popped_quiet:
  assumes "proxy_inv s" and "popped I s t"
  shows "proxy_quiet s t"
proof -
  have inj: "inj_on p_nr (set (pend s))" using assms(1) by (simp add: proxy_inv_def distinct_map)
  let ?A = "p_nr ` {p \<in> set (pend s). p_imsi p \<in> I}"
  have "effect proxy_held ?A {} s t" using assms(2) inj by (auto simp: popped_def effect_def inj_on_def proxy_frame_def)
  moreover have "?A \<subseteq> proxy_held s" by blast
  moreover have "proxy_frame s t" using assms(2) by (simp add: popped_def)
  ultimately show ?thesis using popped_inv [OF assms(2,1)] unfolding proxy_quiet_def by blast
qed

lemma pend_quiet:
  "pend t = pend s \<Longrightarrow> proxy_frame s t \<Longrightarrow> (\<And>nr. freed nr (gs t) = freed nr (gs s)) \<Longrightarrow> proxy_inv t \<Longrightarrow> proxy_quiet s t"
  by (auto simp: proxy_quiet_def effect_def proxy_frame_def)

lemma pend_took:
  "pend t = pend s \<Longrightarrow> proxy_frame s t \<Longrightarrow> (\<And>nr. freed nr (gs t) = freed nr (gs s) + (if nr = r then 1 else 0))
     \<Longrightarrow> r \<notin> proxy_held s \<Longrightarrow> proxy_inv t \<Longrightarrow> proxy_took r s t"
  unfolding proxy_took_def effect_def by (intro conjI exI [of _ "{r}"] exI [of _ "{}"]) (auto simp: proxy_frame_def)

lemma err_took: "proxy_inv s \<Longrightarrow> req_nr req \<notin> proxy_held s \<Longrightarrow> proxy_took (req_nr req) s (respond_err G req c s)"
  by (rule pend_took) (simp_all add: freed_simps proxy_inv_def)

lemma connect_result_took:
  "proxy_inv s \<Longrightarrow> req_nr req \<notin> proxy_held s \<Longrightarrow>
     proxy_took (req_nr req) s (proxy_pending_req_remote_hlr_connect_result G req rh s)"
  by (rule pend_took) (simp_all add: proxy_inv_def)

lemma defer_took:
  "proxy_inv s \<Longrightarrow> req_nr req \<notin> proxy_held s \<Longrightarrow> proxy_took (req_nr req) s (proxy_deferred_gsup_req_add req s)"
  unfolding proxy_took_def effect_def proxy_deferred_gsup_req_add_def
  by (intro conjI exI [of _ "{}"] exI [of _ "{req_nr req}"]) (auto simp: proxy_inv_def)

lemma find_imsi: "proxy_get_by_imsi imsi s = List.find (\<lambda>e. pr_imsi (e_data e) = imsi) (subscr_list (proxy s))"
  by (simp add: proxy_get_by_imsi_def proxy_subscr_matches_imsi_def cmp_simps)

lemma set_list_quiet:
  "proxy_inv s \<Longrightarrow> distinct (map (pr_imsi \<circ> e_data) es) \<Longrightarrow> proxy_quiet s (set_subscr_list es s)"
  by (rule pend_quiet) (simp_all add: set_subscr_list_def proxy_inv_def)

lemma create_or_update_quiet: "proxy_inv s \<Longrightarrow> proxy_quiet s (fst (proxy_subscr_create_or_update p s))"
proof -
  assume inv: "proxy_inv s"
  have d: "distinct (map (pr_imsi \<circ> e_data) (subscr_list (proxy s)))" using inv by (simp add: proxy_inv_def)
  show ?thesis
  proof (cases "proxy_get_by_imsi (pr_imsi p) s")
    case None
    then have "pr_imsi p \<notin> (pr_imsi \<circ> e_data) ` set (subscr_list (proxy s))" by (auto simp: find_imsi find_None_iff)
    with None d inv show ?thesis by (auto simp: proxy_subscr_create_or_update_def Let_def intro!: set_list_quiet)
  next
    case (Some e)
    then have e: "pr_imsi (e_data e) = pr_imsi p" by (auto simp: find_imsi dest: find_SomeD)
    have "map (pr_imsi \<circ> e_data) (map (\<lambda>x. if pr_imsi (e_data x) = pr_imsi p then \<lparr>last_update = n, e_data = p\<rparr> else x) es) =
        map (pr_imsi \<circ> e_data) es" for es n
      by (induction es) auto
    with d have "distinct (map (pr_imsi \<circ> e_data)
        (map (\<lambda>x. if pr_imsi (e_data x) = pr_imsi p then \<lparr>last_update = timestamp_update s, e_data = p\<rparr> else x) (subscr_list (proxy s))))"
      by (simp only:)
    from set_list_quiet [OF inv this] show ?thesis using Some e by (simp add: proxy_subscr_create_or_update_def Let_def)
  qed
qed

lemma del0_quiet: "proxy_inv s \<Longrightarrow> proxy_quiet s (fst (proxy_subscr_del0 e s))"
  unfolding proxy_subscr_del0_def fst_conv
  by (rule set_list_quiet) (auto simp: proxy_inv_def distinct_map_filter)

lemma pop_quiet: "proxy_inv s \<Longrightarrow> proxy_quiet s (proxy_deferred_gsup_req_pop G imsi rh s)"
  by (rule popped_quiet, assumption, rule pop_popped) (simp add: proxy_inv_def)

lemma connect_cb_quiet: "proxy_inv s \<Longrightarrow> proxy_quiet s (proxy_remote_hlr_connect_result_cb L G addr rh s)"
  by (rule popped_quiet, assumption, rule connect_result_cb_popped) (simp add: proxy_inv_def)

lemma get_or_connect_quiet: "proxy_inv s \<Longrightarrow> proxy_quiet s (fst (remote_hlr_get_or_connect L G P net addr connect cb s))"
  using get_or_connect_popped [of s L addr G P net connect cb] popped_quiet [of s] by (auto simp: proxy_inv_def)

lemma del_quiet: "proxy_inv s \<Longrightarrow> proxy_quiet s (fst (proxy_subscr_del G imsi s))"
proof -
  assume inv: "proxy_inv s"
  note q = pop_quiet [OF inv, of G imsi None]
  show ?thesis using q pq_trans [OF q del0_quiet [OF pq_inv [OF q]]]
    by (simp add: proxy_subscr_del_def Let_def split: option.split)
qed

lemma resolved_quiet: "proxy_inv s \<Longrightarrow> proxy_quiet s (proxy_subscr_remote_hlr_resolved L G P net p addr s)"
proof -
  assume inv: "proxy_inv s"
  define q where "q = p\<lparr>remote_hlr_addr := addr\<rparr>"
  obtain t rc where t: "proxy_subscr_create_or_update q s = (t, rc)" by fastforce
  have qt: "proxy_quiet s t" using create_or_update_quiet [OF inv, of q] t by simp
  note inv' = pq_inv [OF qt]
  show ?thesis
    using qt pq_trans [OF qt del_quiet [OF inv']] pq_trans [OF qt get_or_connect_quiet [OF inv']] inv t
    by (simp add: proxy_subscr_remote_hlr_resolved_def Let_def q_def)
qed

lemma acknowledge_to_quiet: "proxy_inv s \<Longrightarrow> proxy_quiet s (fst (proxy_acknowledge_gsup_to_remote_hlr p req s))"
  using create_or_update_quiet by (auto simp: proxy_acknowledge_gsup_to_remote_hlr_def Let_def)

lemma forward_took:
  assumes inv: "proxy_inv s" and fresh: "req_nr req \<notin> proxy_held s"
  shows "proxy_took (req_nr req) s (fst (proxy_subscr_forward_to_remote_hlr L G P net p req s))"
proof -
  obtain t rc where t: "proxy_acknowledge_gsup_to_remote_hlr p req s = (t, rc)" by fastforce
  have q: "proxy_quiet s t" using acknowledge_to_quiet [OF inv, of p req] t by simp
  then have i: "proxy_inv t" and f: "req_nr req \<notin> proxy_held t" using pq_inv pq_held fresh by blast+
  obtain u rh where u: "remote_hlr_get_or_connect L G P net (remote_hlr_addr p) False None t = (u, rh)" by fastforce
  have q2: "proxy_quiet t u" using get_or_connect_quiet [OF i] u by (metis fst_conv)
  then have i2: "proxy_inv u" and f2: "req_nr req \<notin> proxy_held u" using pq_inv pq_held f by blast+
  note d = defer_took [OF i2 f2]
  note a = took_pq [OF d get_or_connect_quiet [OF took_inv [OF d]]] connect_result_took [OF i2 f2]
  show ?thesis
    using pq_took [OF q err_took [OF i f] fresh] pq_took [OF q defer_took [OF i f] fresh]
      pq_took [OF pq_trans [OF q q2] a(1) fresh] pq_took [OF pq_trans [OF q q2] a(2) fresh]
    by (simp add: proxy_subscr_forward_to_remote_hlr_def t u Let_def)
qed

lemma fold_quiet:
  assumes "\<And>x s. proxy_inv s \<Longrightarrow> proxy_quiet s (f x s)"
  shows "proxy_inv s \<Longrightarrow> proxy_quiet s (fold f xs s)"
proof (induction xs arbitrary: s)
  case (Cons x xs)
  then show ?case using assms [OF Cons.prems, of x] pq_trans [of s "f x s"] pq_inv by force
qed simp

lemma gc_quiet [simp]: "proxy_inv s \<Longrightarrow> proxy_quiet s (s\<lparr>proxy := (proxy s)\<lparr>gc_timer := x\<rparr>\<rparr>)"
  by (rule pend_quiet) (simp_all add: proxy_inv_def)

lemma cleanup_quiet: "proxy_inv s \<Longrightarrow> proxy_quiet s (proxy_cleanup s)"
proof -
  assume inv: "proxy_inv s"
  let ?f = "\<lambda>e s. case timestamp_age (last_update e) s of
    (valid, age) \<Rightarrow> if valid \<and> age \<le> fresh_time (proxy s) then s else fst (proxy_subscr_del0 e s)"
  have q: "proxy_quiet s (fold ?f (subscr_list (proxy s)) s)"
    by (rule fold_quiet [OF _ inv]) (auto simp: del0_quiet split: prod.splits)
  show ?thesis using q pq_trans [OF q gc_quiet [OF pq_inv [OF q]]] by (simp add: proxy_cleanup_def Let_def)
qed

lemma rh_store_quiet [simp]: "proxy_inv s \<Longrightarrow> proxy_quiet s (rh_store rh s)"
  by (rule popped_quiet, assumption, rule rh_update_popped)

lemma destroy_quiet [simp]: "proxy_inv s \<Longrightarrow> proxy_quiet s (remote_hlr_destroy i s)"
  unfolding remote_hlr_destroy_def by (rule popped_quiet, assumption, rule rh_update_popped)

lemma link_quiet: "proxy_inv s \<Longrightarrow> proxy_quiet s (remote_hlr_link L G P i up s)"
proof -
  have ud: "proxy_quiet t (fst (remote_hlr_up_down L G i up t))" if inv: "proxy_inv t" for t :: "'a dgsm_world_scheme"
  proof (cases "rh_find i t")
    case (Some rh)
    have "proxy_quiet t (fold (\<lambda>p s. let s = (case p of PROXY_REMOTE_HLR_CONNECT_RESULT_CB \<Rightarrow>
         proxy_remote_hlr_connect_result_cb L G (rh_addr rh) (Some i) s)
       in (case rh_find i s of None \<Rightarrow> s
           | Some rh \<Rightarrow> rh_store (rh\<lparr>pending_up_callbacks := tl (pending_up_callbacks rh)\<rparr>) s)) (pending_up_callbacks rh) t)"
      by (rule fold_quiet [OF _ inv])
        (auto simp: Let_def connect_cb_quiet split: remote_hlr_pending_up.split option.split
          intro: pq_trans [OF connect_cb_quiet rh_store_quiet [OF pq_inv [OF connect_cb_quiet]]])
    then show ?thesis using Some inv by (auto simp: remote_hlr_up_down_def)
  qed (use inv in \<open>auto simp: remote_hlr_up_down_def\<close>)
  assume inv: "proxy_inv s"
  show ?thesis
    using inv pq_trans [OF rh_store_quiet [OF inv] ud [OF pq_inv [OF rh_store_quiet [OF inv]]]]
    by (simp add: remote_hlr_link_def Let_def split: option.split)
qed

lemma client_send_quiet [simp]: "proxy_inv s \<Longrightarrow> proxy_quiet s (fst (rh_client_send i f s))"
  by (auto simp: rh_client_send_def prod.case_eq_if split: option.splits)

lemma err_reply_quiet: "proxy_inv s \<Longrightarrow> proxy_quiet s (remote_hlr_err_reply G i m c s)"
  by (simp add: remote_hlr_err_reply_def Let_def)

lemma acknowledge_from_quiet:
  "proxy_inv s \<Longrightarrow> proxy_quiet s (fst (proxy_acknowledge_gsup_from_remote_hlr L G p m dst via s))"
  using create_or_update_quiet [of s]
  by (simp add: proxy_acknowledge_gsup_from_remote_hlr_def Let_def prod.case_eq_if split: gsup_msgt.split option.split)

lemma gs_pq: "proxy_inv s \<Longrightarrow> (\<And>nr. freed nr g = freed nr (gs s)) \<Longrightarrow> next_req_nr g = next_req_nr (gs s) \<Longrightarrow> proxy_quiet s (s\<lparr>gs := g\<rparr>)"
  by (rule pend_quiet) (simp_all add: proxy_frame_def proxy_inv_def)

lemma forward_to_vlr_quiet: "proxy_inv s \<Longrightarrow> proxy_quiet s (fst (proxy_subscr_forward_to_vlr L G p m s))"
proof -
  assume inv: "proxy_inv s"
  obtain dst rc where d: "osmo_ipa_name_set ipa_name_empty (g_destination_name m) = (dst, rc)" by fastforce
  show ?thesis
  proof (cases "rc \<noteq> 0 \<or> gsup_route_find_by_ipa_name (gs s) dst = None")
    case True
    then show ?thesis using inv d by (auto simp: proxy_subscr_forward_to_vlr_def)
  next
    case False
    then obtain c where c: "gsup_route_find_by_ipa_name (gs s) dst = Some c" by auto
    obtain t r where t: "proxy_acknowledge_gsup_from_remote_hlr L G p m dst (conn_peer_name c (gs s)) s = (t, r)" by fastforce
    have q: "proxy_quiet s t" using acknowledge_from_quiet [OF inv] t by (metis fst_conv)
    have "proxy_quiet s (t\<lparr>gs := fst (osmo_gsup_conn_send (Some c) msg (gs t))\<rparr>)" for msg
      by (rule pq_trans [OF q gs_pq [OF pq_inv [OF q]]]) (simp_all add: conn_send_freed)
    then show ?thesis using q d c t False
      by (simp add: proxy_subscr_forward_to_vlr_def prod.case_eq_if split: option.split)
  qed
qed

lemma rx_quiet: "proxy_inv s \<Longrightarrow> proxy_quiet s (fst (remote_hlr_rx L G i msg s))"
proof -
  assume inv: "proxy_inv s"
  note q = forward_to_vlr_quiet [OF inv]
  show ?thesis
    using inv q err_reply_quiet [OF inv] pq_trans [OF q err_reply_quiet [OF pq_inv [OF q]]]
    by (simp add: remote_hlr_rx_def prod.case_eq_if split: option.split sum.split)
qed

inductive proxy_step :: "osmo_core \<Rightarrow> gsup_lib \<Rightarrow> oap_lib \<Rightarrow> 'a dgsm_world_scheme \<Rightarrow> 'a dgsm_world_scheme \<Rightarrow> bool" for L G P where
  step_forward: "req_nr req \<notin> proxy_held s \<Longrightarrow> freed (req_nr req) (gs s) = 0 \<Longrightarrow>
    proxy_step L G P s (fst (proxy_subscr_forward_to_remote_hlr L G P net p req s))"
| step_update: "proxy_step L G P s (fst (proxy_subscr_create_or_update p s))"
| step_resolved: "proxy_step L G P s (proxy_subscr_remote_hlr_resolved L G P net p addr s)"
| step_del: "proxy_step L G P s (fst (proxy_subscr_del G imsi s))"
| step_cleanup: "proxy_step L G P s (proxy_cleanup s)"
| step_link: "proxy_step L G P s (remote_hlr_link L G P i up s)"
| step_rx: "proxy_step L G P s (fst (remote_hlr_rx L G i msg s))"
| step_time: "proxy_step L G P s (s\<lparr>clock := n\<rparr>)"

lemma quiet_owned:
  assumes "proxy_quiet s t" and "owned proxy_held nr s"
  shows "owned proxy_held nr t"
proof -
  obtain A where "A \<subseteq> proxy_held s" "effect proxy_held A {} s t" using assms(1) by (auto simp: proxy_quiet_def)
  then show ?thesis using assms(2) by (auto simp: owned_def effect_def)
qed

lemma took_owned:
  assumes "proxy_took r s t"
  shows "nr \<noteq> r \<Longrightarrow> owned proxy_held nr s \<Longrightarrow> owned proxy_held nr t" and "freed r (gs s) = 0 \<Longrightarrow> owned proxy_held r t"
proof -
  obtain A B where e: "A \<subseteq> insert r (proxy_held s)" "B \<subseteq> {r}" "r \<in> A \<union> B" "effect proxy_held A B s t"
    using assms unfolding proxy_took_def by blast
  show "nr \<noteq> r \<Longrightarrow> owned proxy_held nr s \<Longrightarrow> owned proxy_held nr t" using effect_owned(1) [OF e(4,1,2)] .
  show "freed r (gs s) = 0 \<Longrightarrow> owned proxy_held r t" using effect_owned(2) [OF e(4,1,2) _ e(3)] .
qed

lemma proxy_step_cases:
  assumes "proxy_step L G P s s'" and "proxy_inv s"
  obtains r where "proxy_took r s s'" "r \<notin> proxy_held s" "freed r (gs s) = 0" | "proxy_quiet s s'"
  using assms(1)
proof cases
  case (step_forward req net p)
  then show thesis using that(1) [of "req_nr req"] forward_took [OF assms(2) step_forward(2)] by simp
next
  case (step_time n)
  have "proxy_quiet s s'" unfolding step_time using assms(2)
    by (intro pend_quiet) (simp_all add: proxy_inv_def proxy_frame_def)
  then show thesis by (rule that(2))
qed (use assms(2) in \<open>auto intro!: that(2) simp: create_or_update_quiet resolved_quiet del_quiet cleanup_quiet link_quiet rx_quiet\<close>)

lemma proxy_step_keeps:
  assumes "proxy_step L G P s s'" and "proxy_inv s"
  shows "proxy_inv s' \<and> (owned proxy_held nr s \<longrightarrow> owned proxy_held nr s')"
proof (cases rule: proxy_step_cases [OF assms])
  case (1 r)
  then show ?thesis using took_inv took_owned(1) [of r s s' nr] owned_fresh [of proxy_held nr s r] by blast
next
  case 2
  then show ?thesis using pq_inv quiet_owned by blast
qed

interpretation proxy_own: request_owner proxy_inv proxy_held "proxy_step L G P" for L G P
  by unfold_locales (use proxy_step_keeps in blast)+

text \<open>
  C7. A request handed to the proxy is never lost track of and never deallocated twice: whatever
  happens afterwards (other requests, lookup results, links going up and down, messages from remote
  HLRs, entries timing out), the request is either in the queue of deferred requests and not
  deallocated, or it is not in the queue and has been deallocated exactly once; and no request is in the queue twice. The request is a
  fresh one, not yet queued or deallocated, and the proxy's state is consistent.
\<close>
theorem proxied_request_concluded_once:
  assumes "proxy_inv s" and "req_nr req \<notin> proxy_held s" and "freed (req_nr req) (gs s) = 0"
    and "(proxy_step L G P)\<^sup>*\<^sup>* (fst (proxy_subscr_forward_to_remote_hlr L G P net p req s)) s'"
  shows "freed (req_nr req) (gs s') = (if req_nr req \<in> proxy_held s' then 0 else 1) \<and> distinct (map p_nr (pend s'))"
proof -
  note t = forward_took [OF assms(1,2), of L G P net p]
  have "proxy_inv s' \<and> owned proxy_held (req_nr req) s'"
    using proxy_own.steps_owned [OF assms(4) took_inv [OF t] took_owned(2) [OF t assms(3)]] .
  then show ?thesis by (simp add: owned_def proxy_inv_def)
qed

definition dgsm_one :: dgsm_world where
  "dgsm_one = \<lparr>gs = gs_example\<lparr>next_req_nr := 2\<rparr>, dbc = db_one, g_all_lu = [],
     euse_list = [], euse_default = None, ussd_routes = [], ncss_guard_timeout = 30, ss_sessions = [],
     proxy = \<lparr>subscr_list = [], pending_gsup_reqs = [], fresh_time = 3600, gc_period = 60, gc_timer = None\<rparr>,
     remote_hlrs = [], next_rh_id = 0, clock = 1000, utc_shift = 0, gsup_gateway_proxy = sockaddr_zero,
     client_result_timeout_milliseconds = 2000\<rparr>"

lemma dgsm_one_facts: "proxy_inv dgsm_one" "pend dgsm_one = []" "freed nr (gs dgsm_one) = 0"
  by (simp_all add: dgsm_one_def proxy_inv_def gs_example_def freed_def)

theorem proxied_request_concluded_once_witness:
  "\<exists>s'. s' = fst (proxy_subscr_forward_to_remote_hlr ref_core ref_gsup ref_oap (\<lambda>_. (True, 0)) proxy_subscr_zero lu_req dgsm_one) \<and>
     freed 1 (gs s') = (if 1 \<in> proxy_held s' then 0 else 1)"
  using proxied_request_concluded_once [OF dgsm_one_facts(1) _ _ rtranclp.rtrancl_refl, of lu_req] dgsm_one_facts(2,3) by simp

section \<open>A link to a home HLR comes up\<close>

lemma rh_find_store:
  "rh_find i (rh_store rh s) = (if i = rh_id rh \<and> rh_find i s \<noteq> None then Some rh else rh_find i s)"
  by (cases "i = rh_id rh") (auto simp: rh_find_def rh_store_def find_replace find_replace_same)

lemma rh_findD: "rh_find i s = Some rh \<Longrightarrow> rh_id rh = i"
  by (auto simp: rh_find_def dest: find_SomeD)

definition forwarded :: "gsup_lib \<Rightarrow> osmo_gsup_req \<Rightarrow> octets option" where
  \<comment> \<open>the message as it is forwarded: with the name of the sender as source name\<close>
  "forwarded G req =
     (if peer_type (req_source_name req) \<noteq> OSMO_CNI_PEER_ID_IPA_NAME then None
      else osmo_gsup_encode G ((req_gsup req)\<lparr>g_source_name := Some (ipa_bytes (peer_ipa_name (req_source_name req)))\<rparr>))"

definition frames :: "gsup_lib \<Rightarrow> proxy_pending_gsup_req list \<Rightarrow> ipa_frame list" where
  "frames G ps = map (\<lambda>p. OsmoFrame IPAC_PROTO_EXT_GSUP (the (forwarded G (p_req p)))) ps"

definition link_queue :: "nat \<Rightarrow> ipa_frame list \<Rightarrow> 'a dgsm_world_scheme \<Rightarrow> bool" where
  \<comment> \<open>the remote HLR is up, with this queue of messages\<close>
  "link_queue i q s \<longleftrightarrow> (\<exists>rh c. rh_find i s = Some rh \<and> rh_gsupc rh = Some c \<and> gc_is_connected c \<and> gc_queue c = q)"

lemma link_up: "link_queue i q s \<Longrightarrow> remote_hlr_is_up (Some i) s"
  by (auto simp: link_queue_def remote_hlr_is_up_def)

lemma connect_result_queue:
  assumes "link_queue i q s" and "forwarded G req = Some msg"
  shows "link_queue i (q @ [OsmoFrame IPAC_PROTO_EXT_GSUP msg]) (proxy_pending_req_remote_hlr_connect_result G req (Some i) s)"
proof -
  have e: "osmo_gsup_encode G ((req_gsup req)\<lparr>g_source_name := Some (take (ipa_len (peer_ipa_name (req_source_name req)))
      (ipa_val (peer_ipa_name (req_source_name req))))\<rparr>) = Some msg"
    and t: "peer_type (req_source_name req) = OSMO_CNI_PEER_ID_IPA_NAME"
    using assms(2) by (auto simp: forwarded_def ipa_bytes_def split: if_splits)
  obtain rh c where rh: "rh_find i s = Some rh" "rh_gsupc rh = Some c" "gc_is_connected c" "gc_queue c = q"
    using assms(1) by (auto simp: link_queue_def)
  have free: "rh_find i (req_free req t) = rh_find i t" for t :: "'a dgsm_world_scheme" by (simp add: rh_find_def)
  show ?thesis
    using e t link_up [OF assms(1)] rh rh_findD [OF rh(1)]
    by (simp add: proxy_pending_req_remote_hlr_connect_result_def remote_hlr_gsup_forward_to_remote_hlr_def
        remote_hlr_msgb_send_def rh_client_send_def link_queue_def osmo_gsup_client_send_def client_send_def free rh_find_store)
qed

lemma rh_find_proxy [simp]: "rh_find i (s\<lparr>proxy := p\<rparr>) = rh_find i s"
  by (simp add: rh_find_def)

lemma link_queue_proxy [simp]: "link_queue i q (s\<lparr>proxy := p\<rparr>) = link_queue i q s"
  by (simp add: link_queue_def)

lemma pop_steps_queue:
  "link_queue i q s \<Longrightarrow> \<forall>p \<in> set ps. p_imsi p = imsi \<longrightarrow> forwarded G (p_req p) \<noteq> None \<Longrightarrow>
     link_queue i (q @ frames G (filter (\<lambda>p. p_imsi p = imsi) ps)) (fold (pop_step G imsi (Some i)) ps s)"
proof (induction ps arbitrary: q s)
  case (Cons p ps)
  show ?case
  proof (cases "p_imsi p = imsi")
    case True
    then obtain msg where msg: "forwarded G (p_req p) = Some msg" using Cons.prems(2) by auto
    from Cons.IH [of "q @ [OsmoFrame IPAC_PROTO_EXT_GSUP msg]" "pop_step G imsi (Some i) p s"] show ?thesis
      using connect_result_queue [OF Cons.prems(1) msg] Cons.prems(2) True msg
      by (simp add: pop_step_def Let_def frames_def)
  next
    case False
    then show ?thesis using Cons by (simp add: pop_step_def)
  qed
qed (simp add: frames_def)

lemma pop_none: "imsi \<notin> p_imsi ` set (pend s) \<Longrightarrow> proxy_deferred_gsup_req_pop G imsi rh s = s"
proof -
  have "imsi \<notin> p_imsi ` set ps \<Longrightarrow> fold (pop_step G imsi rh) ps s = s" for ps
    by (induction ps) (auto simp: pop_step_def)
  then show "imsi \<notin> p_imsi ` set (pend s) \<Longrightarrow> ?thesis" by (simp add: pop_fold)
qed

lemma connect_result_cb_none:
  assumes "subscr_at L addr s \<inter> p_imsi ` set (pend s) = {}"
  shows "proxy_remote_hlr_connect_result_cb L G addr rh s = s"
proof -
  define f :: "proxy_subscr_listentry \<Rightarrow> 'a dgsm_world_scheme \<Rightarrow> 'a dgsm_world_scheme"
    where "f = (\<lambda>e s. if osmo_sockaddr_str_cmp L addr (remote_hlr_addr (e_data e)) = 0
                 then proxy_deferred_gsup_req_pop G (pr_imsi (e_data e)) rh s else s)"
  have "f e s = s" if "e \<in> set (subscr_list (proxy s))" for e
    using that assms pop_none [of "pr_imsi (e_data e)" s G rh] by (force simp: f_def subscr_at_def)
  then have "fold f es s = s" if "set es \<subseteq> set (subscr_list (proxy s))" for es
    using that by (induction es) auto
  then show ?thesis by (simp add: proxy_remote_hlr_connect_result_cb_def f_def)
qed

definition deferred_at :: "osmo_core \<Rightarrow> osmo_sockaddr_str \<Rightarrow> 'a dgsm_world_scheme \<Rightarrow> proxy_pending_gsup_req list" where
  \<comment> \<open>the deferred requests of the subscribers at this HLR, subscriber by subscriber, each in the order of arrival\<close>
  "deferred_at L addr s = concat (map (\<lambda>e. filter (\<lambda>p. p_imsi p = pr_imsi (e_data e)) (pend s))
     (filter (\<lambda>e. osmo_sockaddr_str_cmp L addr (remote_hlr_addr (e_data e)) = 0) (subscr_list (proxy s))))"

lemma connect_result_cb_queue:
  assumes inv: "proxy_inv s" and q: "link_queue i q s"
    and ok: "\<forall>p \<in> set (deferred_at L addr s). forwarded G (p_req p) \<noteq> None"
  shows "link_queue i (q @ frames G (deferred_at L addr s)) (proxy_remote_hlr_connect_result_cb L G addr (Some i) s)"
proof -
  define at :: "proxy_subscr_listentry \<Rightarrow> bool" where "at = (\<lambda>e. osmo_sockaddr_str_cmp L addr (remote_hlr_addr (e_data e)) = 0)"
  define f :: "proxy_subscr_listentry \<Rightarrow> 'a dgsm_world_scheme \<Rightarrow> 'a dgsm_world_scheme"
    where "f = (\<lambda>e s. if at e then proxy_deferred_gsup_req_pop G (pr_imsi (e_data e)) (Some i) s else s)"
  define mine :: "'a dgsm_world_scheme \<Rightarrow> proxy_subscr_listentry \<Rightarrow> proxy_pending_gsup_req list"
    where "mine = (\<lambda>s e. filter (\<lambda>p. p_imsi p = pr_imsi (e_data e)) (pend s))"
  have "link_queue i (q @ frames G (concat (map (mine s) (filter at es)))) (fold f es s)"
    if "distinct (map p_nr (pend s))" "distinct (map (pr_imsi \<circ> e_data) es)" "link_queue i q s"
      "\<forall>e \<in> set es. at e \<longrightarrow> (\<forall>p \<in> set (mine s e). forwarded G (p_req p) \<noteq> None)" for es q s
    using that
  proof (induction es arbitrary: q s)
    case (Cons e es)
    show ?case
    proof (cases "at e")
      case False
      then show ?thesis using Cons by (simp add: f_def)
    next
      case True
      define t where "t = proxy_deferred_gsup_req_pop G (pr_imsi (e_data e)) (Some i) s"
      have pend: "pend t = filter (\<lambda>p. p_imsi p \<noteq> pr_imsi (e_data e)) (pend s)"
        using pop_popped [OF Cons.prems(1), of "pr_imsi (e_data e)" G "Some i"] by (simp add: t_def popped_def)
      have same: "mine t x = mine s x" if "x \<in> set es" for x
        using that Cons.prems(2) pend by (force simp: mine_def intro: filter_cong)
      then have map: "map (mine t) (filter at es) = map (mine s) (filter at es)" by simp
      have "link_queue i (q @ frames G (mine s e)) t"
        unfolding t_def pop_fold mine_def using Cons.prems(3,4) True by (intro pop_steps_queue) (auto simp: mine_def)
      from Cons.IH [OF _ _ this] show ?thesis
        using Cons.prems pend same map True by (auto simp: f_def t_def [symmetric] frames_def distinct_map_filter)
    qed
  qed (simp add: frames_def)
  from this [of s "subscr_list (proxy s)" q] show ?thesis
    using inv q ok by (auto simp: proxy_inv_def proxy_remote_hlr_connect_result_cb_def deferred_at_def f_def at_def mine_def)
qed

definition run_cb :: "osmo_core \<Rightarrow> gsup_lib \<Rightarrow> osmo_sockaddr_str \<Rightarrow> nat \<Rightarrow> remote_hlr_pending_up \<Rightarrow> 'a dgsm_world_scheme \<Rightarrow> 'a dgsm_world_scheme" where
  \<comment> \<open>the body of the loop in \<open>remote_hlr_up_down\<close>\<close>
  "run_cb L G addr i p s =
     (let s = (case p of PROXY_REMOTE_HLR_CONNECT_RESULT_CB \<Rightarrow> proxy_remote_hlr_connect_result_cb L G addr (Some i) s)
      in (case rh_find i s of None \<Rightarrow> s
          | Some rh \<Rightarrow> rh_store (rh\<lparr>pending_up_callbacks := tl (pending_up_callbacks rh)\<rparr>) s))"

lemma up_down_up:
  "rh_find i s = Some rh \<Longrightarrow>
     remote_hlr_up_down L G i True s = (fold (run_cb L G (rh_addr rh) i) (pending_up_callbacks rh) s, True)"
  unfolding remote_hlr_up_down_def run_cb_def by simp

lemma link_queue_tl:
  "link_queue i q s \<Longrightarrow> link_queue i q
     (case rh_find i s of None \<Rightarrow> s | Some rh \<Rightarrow> rh_store (rh\<lparr>pending_up_callbacks := tl (pending_up_callbacks rh)\<rparr>) s)"
  by (auto simp: link_queue_def rh_find_store dest: rh_findD)

lemma run_cb_proxy: "proxy (run_cb L G addr i p s) = proxy (proxy_remote_hlr_connect_result_cb L G addr (Some i) s)"
  by (cases p) (auto simp: run_cb_def Let_def split: option.split)

lemma run_cb_rest:
  "link_queue i q s \<Longrightarrow> subscr_at L addr s \<inter> p_imsi ` set (pend s) = {} \<Longrightarrow>
     link_queue i q (fold (run_cb L G addr i) cbs s) \<and> proxy (fold (run_cb L G addr i) cbs s) = proxy s"
proof (induction cbs arbitrary: s)
  case (Cons cb cbs)
  have n: "proxy_remote_hlr_connect_result_cb L G addr (Some i) s = s"
    using connect_result_cb_none [OF Cons.prems(2)] .
  have "link_queue i q (run_cb L G addr i cb s)"
    using link_queue_tl [OF Cons.prems(1)] n by (cases cb) (simp add: run_cb_def)
  then show ?case using Cons.IH [of "run_cb L G addr i cb s"] Cons.prems(2) run_cb_proxy [of L G addr i cb s] n
    by (simp add: subscr_at_def)
qed simp

text \<open>
  C8. When the link to a remote HLR for which the proxy waits comes up, every deferred request of the
  subscribers whose home it is leaves the queue and is handed to the link, with the name of the VLR it came
  from as source name, and for each subscriber in the order in which the requests arrived; the requests of
  all other subscribers stay deferred.
\<close>
theorem deferred_requests_forwarded_in_order:
  assumes "proxy_inv s" and "rh_find i s = Some rh" and "rh_gsupc rh = Some c" and "pending_up_callbacks rh \<noteq> []"
    and "\<forall>p \<in> set (deferred_at L (rh_addr rh) s). forwarded G (p_req p) \<noteq> None"
  shows "\<exists>rh' c'. rh_find i (remote_hlr_link L G P i True s) = Some rh' \<and> rh_gsupc rh' = Some c' \<and>
     gc_queue c' = gc_queue (gsup_client_updown_cb P (Some True) True c) @ frames G (deferred_at L (rh_addr rh) s) \<and>
     pend (remote_hlr_link L G P i True s) = filter (\<lambda>p. p_imsi p \<notin> subscr_at L (rh_addr rh) s) (pend s)"
proof -
  define c1 where "c1 = gsup_client_updown_cb P (Some True) True c"
  define rh1 where "rh1 = rh\<lparr>rh_gsupc := Some c1\<rparr>"
  define s1 where "s1 = rh_store rh1 s"
  have id: "rh_id rh1 = i" using rh_findD [OF assms(2)] by (simp add: rh1_def)
  have f1: "rh_find i s1 = Some rh1" using assms(2) id by (simp add: s1_def rh_find_store)
  have con: "gc_is_connected c1" by (simp add: c1_def gsup_client_updown_cb_def start_test_procedure_def gsup_client_send_ping_def Let_def)
  have q1: "link_queue i (gc_queue c1) s1" using f1 con by (auto simp: link_queue_def rh1_def)
  have p1: "proxy s1 = proxy s" by (simp add: s1_def)
  have d1: "deferred_at L (rh_addr rh) s1 = deferred_at L (rh_addr rh) s" "subscr_at L (rh_addr rh) s1 = subscr_at L (rh_addr rh) s"
    "proxy_inv s1" using assms(1) by (simp_all add: deferred_at_def subscr_at_def p1 proxy_inv_def)
  obtain cb cbs where cbs: "pending_up_callbacks rh = cb # cbs" using assms(4) by (cases "pending_up_callbacks rh") auto
  define s2 where "s2 = run_cb L G (rh_addr rh) i cb s1"
  have "link_queue i (gc_queue c1 @ frames G (deferred_at L (rh_addr rh) s1))
      (proxy_remote_hlr_connect_result_cb L G (rh_addr rh) (Some i) s1)"
    by (rule connect_result_cb_queue [OF d1(3) q1]) (use assms(5) d1(1) in simp)
  then have q2: "link_queue i (gc_queue c1 @ frames G (deferred_at L (rh_addr rh) s)) s2"
    using link_queue_tl d1(1) by (cases cb) (auto simp: s2_def run_cb_def Let_def)
  have "popped (subscr_at L (rh_addr rh) s1) s1 (proxy_remote_hlr_connect_result_cb L G (rh_addr rh) (Some i) s1)"
    using d1(3) by (intro connect_result_cb_popped) (simp add: proxy_inv_def)
  then have p2: "proxy s2 = (proxy s)\<lparr>pending_gsup_reqs := filter (\<lambda>p. p_imsi p \<notin> subscr_at L (rh_addr rh) s) (pend s)\<rparr>"
    unfolding s2_def run_cb_proxy by (simp add: popped_def p1 d1(2))
  then have "subscr_at L (rh_addr rh) s2 = subscr_at L (rh_addr rh) s" by (simp add: subscr_at_def)
  then have "subscr_at L (rh_addr rh) s2 \<inter> p_imsi ` set (pend s2) = {}" using p2 by auto
  note r = run_cb_rest [OF q2 this, of G cbs]
  have "remote_hlr_link L G P i True s = fold (run_cb L G (rh_addr rh) i) cbs s2"
    using assms(2,3) up_down_up [OF f1, of L G] cbs
    by (simp add: remote_hlr_link_def c1_def [symmetric] rh1_def [symmetric] s1_def [symmetric] s2_def)
      (simp add: rh1_def s2_def)
  then show ?thesis using r p2 by (auto simp: link_queue_def c1_def)
qed

definition home_addr :: osmo_sockaddr_str where
  "home_addr = \<lparr>sa_af = AF_INET, sa_ip = ''1.2.3.4'', sa_port = 4222\<rparr>"

definition dgsm_wait :: dgsm_world where
  \<comment> \<open>one deferred request that waits for the link to the home HLR of its subscriber\<close>
  "dgsm_wait = dgsm_one\<lparr>
     proxy := (proxy dgsm_one)\<lparr>
       subscr_list := [\<lparr>last_update = 1000, e_data = proxy_subscr_zero\<lparr>pr_imsi := ''262420000000001'', remote_hlr_addr := home_addr\<rparr>\<rparr>],
       pending_gsup_reqs := [\<lparr>p_req = lu_req, received_at = 1000\<rparr>]\<rparr>,
     remote_hlrs := [\<lparr>rh_id = 0, rh_addr = home_addr, rh_gsupc = Some client_new,
       pending_up_callbacks = [PROXY_REMOTE_HLR_CONNECT_RESULT_CB]\<rparr>], next_rh_id := 1\<rparr>"

lemma dgsm_wait_facts:
  "proxy_inv dgsm_wait" "rh_find 0 dgsm_wait = Some (hd (remote_hlrs dgsm_wait))" "pend dgsm_wait = [\<lparr>p_req = lu_req, received_at = 1000\<rparr>]"
  "rh_gsupc (hd (remote_hlrs dgsm_wait)) = Some client_new" "pending_up_callbacks (hd (remote_hlrs dgsm_wait)) \<noteq> []"
  "rh_addr (hd (remote_hlrs dgsm_wait)) = home_addr"
  by (simp_all add: dgsm_wait_def proxy_inv_def rh_find_def)

lemma dgsm_wait_at:
  "subscr_at ref_core home_addr dgsm_wait = {''262420000000001''}"
  "deferred_at ref_core home_addr dgsm_wait = [\<lparr>p_req = lu_req, received_at = 1000\<rparr>]"
proof -
  have c: "osmo_sockaddr_str_cmp ref_core a a = 0" for a by (simp add: ref_core_def)
  let ?e = "\<lparr>last_update = 1000, e_data = proxy_subscr_zero\<lparr>pr_imsi := ''262420000000001'', remote_hlr_addr := home_addr\<rparr>\<rparr>"
  have l: "subscr_list (proxy dgsm_wait) = [?e]" by (simp add: dgsm_wait_def)
  have "{e \<in> set (subscr_list (proxy dgsm_wait)). osmo_sockaddr_str_cmp ref_core home_addr (remote_hlr_addr (e_data e)) = 0} = {?e}"
    using c unfolding l by auto
  then show "subscr_at ref_core home_addr dgsm_wait = {''262420000000001''}" by (simp add: subscr_at_def)
  show "deferred_at ref_core home_addr dgsm_wait = [\<lparr>p_req = lu_req, received_at = 1000\<rparr>]"
    unfolding deferred_at_def l dgsm_wait_facts(3) by (simp add: c)
qed

theorem deferred_requests_forwarded_in_order_witness:
  "pend dgsm_wait \<noteq> [] \<and> pend (remote_hlr_link ref_core ref_gsup ref_oap 0 True dgsm_wait) = []"
proof -
  have "forwarded ref_gsup lu_req \<noteq> None" by (simp add: forwarded_def ipa_peer_def ref_gsup_def ref_encode_def)
  then show ?thesis
    using deferred_requests_forwarded_in_order [OF dgsm_wait_facts(1,2,4,5), of ref_core ref_gsup ref_oap]
    by (auto simp: dgsm_wait_facts dgsm_wait_at)
qed

section \<open>Stale entries\<close>

lemma age_fresh:
  "(case timestamp_age t s of (valid, age) \<Rightarrow> valid \<and> age \<le> n) \<longleftrightarrow>
     0 \<le> timestamp_update s - t \<and> timestamp_update s - t \<le> uint n"
proof -
  define d where "d = timestamp_update s - t"
  have n: "uint n < 2 ^ 32" using uint_lt2p [of n] by simp
  have "uint (of_int d :: 32 word) = d" if "0 \<le> d" "d < 2 ^ 32"
    using that by (simp add: unsigned_of_int take_bit_int_eq_self)
  then show ?thesis using n unfolding timestamp_age_def Let_def d_def [symmetric] by (auto simp: word_le_def)
qed

definition fresh_entry :: "'a dgsm_world_scheme \<Rightarrow> proxy_subscr_listentry \<Rightarrow> bool" where
  "fresh_entry s e \<longleftrightarrow>
     0 \<le> timestamp_update s - last_update e \<and> timestamp_update s - last_update e \<le> uint (fresh_time (proxy s))"

lemma cleanup_fold:
  assumes "distinct (map (pr_imsi \<circ> e_data) (xs @ es))" and "subscr_list (proxy s) = xs @ es"
  shows "fold (\<lambda>e s. case timestamp_age (last_update e) s of
       (valid, age) \<Rightarrow> if valid \<and> age \<le> fresh_time (proxy s) then s else fst (proxy_subscr_del0 e s)) es s =
     set_subscr_list (xs @ filter (fresh_entry s) es) s"
  using assms
proof (induction es arbitrary: xs s)
  case Nil
  then show ?case by (simp add: set_subscr_list_def)
next
  case (Cons e es)
  define t where "t = (case timestamp_age (last_update e) s of
       (valid, age) \<Rightarrow> if valid \<and> age \<le> fresh_time (proxy s) then s else fst (proxy_subscr_del0 e s))"
  define ys where "ys = (if fresh_entry s e then xs @ [e] else xs)"
  have f: "filter (\<lambda>x. pr_imsi (e_data x) \<noteq> pr_imsi (e_data e)) (xs @ e # es) = xs @ es"
  proof -
    have "pr_imsi (e_data e) \<notin> (pr_imsi \<circ> e_data) ` set (xs @ es)" using Cons.prems(1) by auto
    then have "\<forall>x \<in> set (xs @ es). pr_imsi (e_data x) \<noteq> pr_imsi (e_data e)" by (metis comp_apply image_eqI)
    then have "filter (\<lambda>x. pr_imsi (e_data x) \<noteq> pr_imsi (e_data e)) (xs @ es) = xs @ es" by (rule filter_True)
    then show ?thesis by simp
  qed
  have t: "t = set_subscr_list (ys @ es) s"
    using age_fresh [where t = "last_update e" and s = s and n = "fresh_time (proxy s)"] Cons.prems(2) f
    by (auto simp: t_def ys_def fresh_entry_def proxy_subscr_del0_def set_subscr_list_def prod.case_eq_if)
  have same: "fresh_entry t = fresh_entry s"
    by (rule ext) (simp add: t fresh_entry_def set_subscr_list_def timestamp_update_def)
  have "fold (\<lambda>e s. case timestamp_age (last_update e) s of
       (valid, age) \<Rightarrow> if valid \<and> age \<le> fresh_time (proxy s) then s else fst (proxy_subscr_del0 e s)) es t =
     set_subscr_list (ys @ filter (fresh_entry t) es) t"
    by (rule Cons.IH) (use Cons.prems(1) in \<open>auto simp: ys_def t set_subscr_list_def\<close>)
  then show ?case by (simp add: t_def [symmetric] same) (simp add: t set_subscr_list_def ys_def)
qed

text \<open>
  C36. The garbage collection of the proxy keeps exactly the entries whose last update is neither in the
  future nor further back than the time for which entries stay fresh, in their order, whatever the
  32 bit ages are; it does not touch deferred requests, and it schedules itself again unless it
  is switched off.
\<close>
theorem proxy_cleanup_exact:
  assumes "proxy_inv s"
  shows "subscr_list (proxy (proxy_cleanup s)) =
      filter (\<lambda>e. 0 \<le> clock s + utc_shift s - last_update e \<and> clock s + utc_shift s - last_update e \<le> uint (fresh_time (proxy s)))
        (subscr_list (proxy s)) \<and>
    pend (proxy_cleanup s) = pend s \<and> gs (proxy_cleanup s) = gs s \<and>
    gc_timer (proxy (proxy_cleanup s)) = (if gc_period (proxy s) \<noteq> 0 then Some (gc_period (proxy s)) else gc_timer (proxy s))"
proof -
  have d: "distinct (map (pr_imsi \<circ> e_data) ([] @ subscr_list (proxy s)))" using assms by (simp add: proxy_inv_def)
  have "fresh_entry s = (\<lambda>e. 0 \<le> clock s + utc_shift s - last_update e \<and>
      clock s + utc_shift s - last_update e \<le> uint (fresh_time (proxy s)))"
    by (simp add: fresh_entry_def timestamp_update_def fun_eq_iff)
  then show ?thesis
    unfolding proxy_cleanup_def Let_def cleanup_fold [OF d append_Nil [symmetric]]
    by (simp add: set_subscr_list_def)
qed

theorem proxy_cleanup_exact_witness:
  "subscr_list (proxy (proxy_cleanup (dgsm_wait\<lparr>clock := 5000\<rparr>))) = [] \<and>
   subscr_list (proxy (proxy_cleanup (dgsm_wait\<lparr>clock := 4600\<rparr>))) = subscr_list (proxy dgsm_wait)"
proof -
  have "proxy_inv (dgsm_wait\<lparr>clock := n\<rparr>)" for n using dgsm_wait_facts(1) by (simp add: proxy_inv_def)
  then show ?thesis
    using proxy_cleanup_exact [of "dgsm_wait\<lparr>clock := 5000\<rparr>"] proxy_cleanup_exact [of "dgsm_wait\<lparr>clock := 4600\<rparr>"]
    by (simp add: dgsm_wait_def dgsm_one_def)
qed

end
