(* ===== verification/Mslookup.thy ===== *)
theory Mslookup
  imports Osmo_Core
begin

text \<open>
  Queries for subscribers and their textual form: \<open>src/mslookup/mslookup.c\<close> and
  \<open>include/osmocom/mslookup/mslookup.h\<close>. The union of the IMSI and the MSISDN buffer (both
  of 15 digits and a nul) is the one field \<open>id_digits\<close>; the type of an id is the integer
  that \<open>get_string_value\<close> returns. A position in a string is an index; the loop that looks
  for the dot in front of the id walks the index down.
\<close>

section \<open>Data\<close>

abbreviation (input) OSMO_MSLOOKUP_ID_NONE :: int where "OSMO_MSLOOKUP_ID_NONE \<equiv> 0"
abbreviation (input) OSMO_MSLOOKUP_ID_IMSI :: int where "OSMO_MSLOOKUP_ID_IMSI \<equiv> 1"
abbreviation (input) OSMO_MSLOOKUP_ID_MSISDN :: int where "OSMO_MSLOOKUP_ID_MSISDN \<equiv> 2"

record osmo_mslookup_id =
  id_type :: int
  id_digits :: string

datatype osmo_mslookup_result_code =
  OSMO_MSLOOKUP_RC_NONE | OSMO_MSLOOKUP_RC_RESULT | OSMO_MSLOOKUP_RC_NOT_FOUND

fun result_code_val :: "osmo_mslookup_result_code \<Rightarrow> int" where
  "result_code_val OSMO_MSLOOKUP_RC_NONE = 0"
| "result_code_val OSMO_MSLOOKUP_RC_RESULT = 1"
| "result_code_val OSMO_MSLOOKUP_RC_NOT_FOUND = 2"

record osmo_mslookup_query =
  service :: string
  ms_id :: osmo_mslookup_id

record osmo_mslookup_result =
  ms_rc :: osmo_mslookup_result_code
  host_v4 :: osmo_sockaddr_str
  host_v6 :: osmo_sockaddr_str
  age :: "32 word"
  ms_last :: bool

abbreviation (input) OSMO_MSLOOKUP_SERVICE_MAXLEN :: nat where "OSMO_MSLOOKUP_SERVICE_MAXLEN \<equiv> 64"
abbreviation (input) ID_BUF_SIZE :: nat where "ID_BUF_SIZE \<equiv> 16"

definition query_zero :: osmo_mslookup_query where
  "query_zero = \<lparr>service = [], ms_id = \<lparr>id_type = OSMO_MSLOOKUP_ID_NONE, id_digits = []\<rparr>\<rparr>"

definition result_zero :: osmo_mslookup_result where
  "result_zero = \<lparr>ms_rc = OSMO_MSLOOKUP_RC_NONE, host_v4 = sockaddr_zero, host_v6 = sockaddr_zero,
     age = 0, ms_last = False\<rparr>"

definition osmo_mslookup_id_type_names :: value_string where
  "osmo_mslookup_id_type_names =
     [(OSMO_MSLOOKUP_ID_NONE, ''none''), (OSMO_MSLOOKUP_ID_IMSI, ''imsi''),
      (OSMO_MSLOOKUP_ID_MSISDN, ''msisdn'')]"

definition osmo_mslookup_result_code_names :: value_string where
  "osmo_mslookup_result_code_names = [(0, ''none''), (1, ''result''), (2, ''not-found'')]"

section \<open>Operations\<close>

definition osmo_mslookup_id_cmp ::
  "osmo_core \<Rightarrow> bool \<Rightarrow> osmo_mslookup_id option \<Rightarrow> osmo_mslookup_id option \<Rightarrow> int" where
  "osmo_mslookup_id_cmp L same a b =
     (if same then 0
      else case (a, b) of
        (None, None) \<Rightarrow> 0
      | (None, Some _) \<Rightarrow> -1
      | (Some _, None) \<Rightarrow> 1
      | (Some a, Some b) \<Rightarrow>
          (let cmp = osmo_cmp L (id_type a) (id_type b)
           in if cmp \<noteq> 0 then cmp
              else if id_type a = OSMO_MSLOOKUP_ID_IMSI then
                strncmp (id_digits a) (id_digits b) ID_BUF_SIZE
              else if id_type a = OSMO_MSLOOKUP_ID_MSISDN then
                strncmp (id_digits a) (id_digits b) ID_BUF_SIZE
              else 0))"

definition osmo_mslookup_id_valid :: "osmo_core \<Rightarrow> osmo_mslookup_id \<Rightarrow> bool" where
  "osmo_mslookup_id_valid L i =
     (if id_type i = OSMO_MSLOOKUP_ID_IMSI then osmo_imsi_str_valid L (id_digits i)
      else if id_type i = OSMO_MSLOOKUP_ID_MSISDN then osmo_msisdn_str_valid L (id_digits i)
      else False)"

definition osmo_mslookup_service_valid :: "string \<Rightarrow> bool" where
  "osmo_mslookup_service_valid s \<longleftrightarrow> length s > 0"

definition osmo_mslookup_id_type_name :: "osmo_core \<Rightarrow> int \<Rightarrow> string" where
  "osmo_mslookup_id_type_name L v = get_value_string L osmo_mslookup_id_type_names v"

definition osmo_mslookup_result_code_name :: "osmo_core \<Rightarrow> osmo_mslookup_result_code \<Rightarrow> string" where
  "osmo_mslookup_result_code_name L v =
     get_value_string L osmo_mslookup_result_code_names (result_code_val v)"

definition strbuf_new :: "nat \<Rightarrow> osmo_strbuf" where
  "strbuf_new buflen = \<lparr>sb_size = buflen, sb_out = [], sb_chars_needed = 0\<rparr>"

definition osmo_mslookup_id_name_buf :: "osmo_core \<Rightarrow> nat \<Rightarrow> osmo_mslookup_id \<Rightarrow> string \<times> nat" where
  \<comment> \<open>the text in the buffer and the number of characters wanted\<close>
  "osmo_mslookup_id_name_buf L buflen i =
     (let sb = strbuf_new buflen;
          sb = (if id_type i = OSMO_MSLOOKUP_ID_IMSI then strbuf_printf L sb (id_digits i)
                else if id_type i = OSMO_MSLOOKUP_ID_MSISDN then strbuf_printf L sb (id_digits i)
                else strbuf_printf L sb ''?'');
          sb = strbuf_printf L sb (CHR ''.'' # osmo_mslookup_id_type_name L (id_type i))
      in (sb_out sb, sb_chars_needed sb))"

definition osmo_mslookup_result_to_str_buf ::
  "osmo_core \<Rightarrow> nat \<Rightarrow> osmo_mslookup_query option \<Rightarrow> osmo_mslookup_result option \<Rightarrow> string \<times> nat" where
  "osmo_mslookup_result_to_str_buf L buflen query result =
     (let sb = strbuf_new buflen;
          sb = (case query of
                  None \<Rightarrow> sb
                | Some q \<Rightarrow>
                    strbuf_append L (strbuf_printf L sb (service q @ ''.''))
                      (\<lambda>n. osmo_mslookup_id_name_buf L n (ms_id q)));
          result = (case result of
                      Some r \<Rightarrow> if ms_rc r = OSMO_MSLOOKUP_RC_NONE then None else Some r
                    | None \<Rightarrow> None);
          sb = (case result of
                  None \<Rightarrow> sb
                | Some r \<Rightarrow>
                    let sb = (if ms_rc r \<noteq> OSMO_MSLOOKUP_RC_RESULT then
                                strbuf_printf L sb ('' '' @ osmo_mslookup_result_code_name L (ms_rc r))
                              else
                                let sb = (if sa_ip (host_v4 r) \<noteq> [] then
                                            strbuf_printf L sb ('' -> ipv4: '' @ osmo_sockaddr_str_fmt L (host_v4 r))
                                          else sb);
                                    sb = (if sa_ip (host_v6 r) \<noteq> [] then
                                            strbuf_printf L sb ('' -> ipv6: '' @ osmo_sockaddr_str_fmt L (host_v6 r))
                                          else sb)
                                in strbuf_printf L sb ('' (age='' @ show_dec (unat (age r)) @ '')''))
                    in strbuf_printf L sb ('' '' @ (if ms_last r then ''(last)'' else ''(not-last)'')))
      in (sb_out sb, sb_chars_needed sb))"

fun strrchr :: "string \<Rightarrow> char \<Rightarrow> nat option" where
  \<comment> \<open>of the C library: the index of the last occurrence\<close>
  "strrchr [] c = None"
| "strrchr (x # xs) c =
     (case strrchr xs c of Some i \<Rightarrow> Some (Suc i) | None \<Rightarrow> if x = c then Some 0 else None)"

fun scan_dot :: "string \<Rightarrow> nat \<Rightarrow> nat" where
  \<comment> \<open>the loop that moves \<open>second_last_dot\<close> down to a dot or the start of the string\<close>
  "scan_dot domain 0 = 0"
| "scan_dot domain (Suc i) = (if domain ! Suc i \<noteq> CHR ''.'' then scan_dot domain i else Suc i)"

definition token :: "string \<Rightarrow> nat \<Rightarrow> string \<Rightarrow> nat \<Rightarrow> nat \<Rightarrow> string \<times> int" where
  "token dest dest_size s start end' =
     (if start \<ge> end' then (dest, -10)
      else if end' - start \<ge> dest_size then (dest, -11)
      else (take (end' - start) (drop start s), 0))"

definition osmo_mslookup_query_init_from_domain_str ::
  "osmo_core \<Rightarrow> string option \<Rightarrow> osmo_mslookup_query \<times> int" where
  "osmo_mslookup_query_init_from_domain_str L domain =
     (let q = query_zero
      in case domain of
           None \<Rightarrow> (q, -1)
         | Some domain \<Rightarrow>
           (case strrchr domain CHR ''.'' of
              None \<Rightarrow> (q, -2)
            | Some last_dot \<Rightarrow>
                if last_dot = 0 then (q, -3)
                else
                  let second_last_dot = scan_dot domain (last_dot - 1)
                  in if second_last_dot = 0 \<or> domain ! second_last_dot \<noteq> CHR ''.'' then (q, -3)
                     else
                       let id_ty = drop (last_dot + 1) domain
                       in if id_ty = [] then (q, -4)
                          else
                            let q = q\<lparr>ms_id := (ms_id q)\<lparr>id_type :=
                                       get_string_value L osmo_mslookup_id_type_names id_ty\<rparr>\<rparr>;
                                id' = second_last_dot + 1;
                                service_token =
                                  (\<lambda>q. case token (service q) (OSMO_MSLOOKUP_SERVICE_MAXLEN + 1) domain 0
                                               second_last_dot of
                                         (srv, rc) \<Rightarrow> (q\<lparr>service := srv\<rparr>, rc))
                            in if id_type (ms_id q) = OSMO_MSLOOKUP_ID_IMSI then
                                 (case token (id_digits (ms_id q)) ID_BUF_SIZE domain id' last_dot of
                                    (d, rc) \<Rightarrow>
                                      let q = q\<lparr>ms_id := (ms_id q)\<lparr>id_digits := d\<rparr>\<rparr>
                                      in if rc \<noteq> 0 then (q, rc)
                                         else if \<not> osmo_imsi_str_valid L d then (q, -5)
                                         else service_token q)
                               else if id_type (ms_id q) = OSMO_MSLOOKUP_ID_MSISDN then
                                 (case token (id_digits (ms_id q)) ID_BUF_SIZE domain id' last_dot of
                                    (d, rc) \<Rightarrow>
                                      let q = q\<lparr>ms_id := (ms_id q)\<lparr>id_digits := d\<rparr>\<rparr>
                                      in if rc \<noteq> 0 then (q, rc)
                                         else if \<not> osmo_msisdn_str_valid L d then (q, -6)
                                         else service_token q)
                               else (q, -7)))"

section \<open>Printing\<close>

lemma strbuf_new_sel [simp]:
  "sb_size (strbuf_new n) = n" "sb_out (strbuf_new n) = []" "sb_chars_needed (strbuf_new n) = 0"
  by (simp_all add: strbuf_new_def)

definition id_name :: "osmo_core \<Rightarrow> osmo_mslookup_id \<Rightarrow> string" where
  "id_name L i = id_digits i @ CHR ''.'' # osmo_mslookup_id_type_name L (id_type i)"

lemma id_valid_type:
  "osmo_mslookup_id_valid L i \<Longrightarrow> id_type i = OSMO_MSLOOKUP_ID_IMSI \<or> id_type i = OSMO_MSLOOKUP_ID_MSISDN"
  by (auto simp: osmo_mslookup_id_valid_def split: if_splits)

lemma id_valid_digits:
  "lib_strings_ok L \<Longrightarrow> osmo_mslookup_id_valid L i \<Longrightarrow>
     list_all is_digit (id_digits i) \<and> 1 \<le> length (id_digits i) \<and> length (id_digits i) \<le> 15"
  by (force simp: osmo_mslookup_id_valid_def lib_strings_ok_def split: if_splits)

lemma id_name_buf_ok:
  assumes "lib_strbuf_ok L" and "osmo_mslookup_id_valid L i" and "length (id_name L i) < n"
  shows "osmo_mslookup_id_name_buf L n i = (id_name L i, length (id_name L i))"
  using id_valid_type [OF assms(2)] assms(1,3)
  by (auto simp: osmo_mslookup_id_name_buf_def Let_def strbuf_printf_ok id_name_def)

lemma query_to_str_ok:
  assumes "lib_strbuf_ok L" and "osmo_mslookup_id_valid L (ms_id q)"
    and "length (service q @ ''.'' @ id_name L (ms_id q)) < n"
  shows "osmo_mslookup_result_to_str_buf L n (Some q) None =
    (service q @ ''.'' @ id_name L (ms_id q), length (service q @ ''.'' @ id_name L (ms_id q)))"
proof -
  have "strbuf_append L (strbuf_printf L (strbuf_new n) (service q @ ''.''))
      (\<lambda>n. osmo_mslookup_id_name_buf L n (ms_id q)) =
      \<lparr>sb_size = n, sb_out = service q @ ''.'' @ id_name L (ms_id q),
       sb_chars_needed = length (service q @ ''.'' @ id_name L (ms_id q))\<rparr>"
    using assms strbuf_append_ok [OF assms(1) id_name_buf_ok [OF assms(1,2)]]
    by (simp add: strbuf_printf_ok strbuf_new_def)
  then show ?thesis
    by (simp add: osmo_mslookup_result_to_str_buf_def Let_def)
qed

section \<open>Parsing\<close>

lemma strrchr_last: "c \<notin> set b \<Longrightarrow> strrchr (a @ c # b) c = Some (length a)"
proof (induction a)
  case Nil
  have "c \<notin> set b \<Longrightarrow> strrchr b c = None" by (induction b) auto
  with Nil show ?case by simp
qed auto

lemma strrchr_None: "strrchr s c = None \<longleftrightarrow> c \<notin> set s"
  by (induction s) (auto split: option.splits)

lemma strrchr_SomeD:
  "strrchr s c = Some i \<Longrightarrow> s = take i s @ c # drop (Suc i) s \<and> c \<notin> set (drop (Suc i) s) \<and> i < length s"
proof (induction s arbitrary: i)
  case (Cons x xs)
  then show ?case
    by (auto simp: strrchr_None split: option.splits if_splits)
qed simp

lemma scan_dot_spec:
  "scan_dot s i \<le> i \<and> (\<forall>k. scan_dot s i < k \<and> k \<le> i \<longrightarrow> s ! k \<noteq> CHR ''.'') \<and>
     (scan_dot s i = 0 \<or> s ! scan_dot s i = CHR ''.'')"
  by (induction s i rule: scan_dot.induct) (auto simp: le_Suc_eq)

lemma scan_dot_eq:
  assumes "s ! j = CHR ''.''" and "j \<le> i" and "\<forall>k. j < k \<and> k \<le> i \<longrightarrow> s ! k \<noteq> CHR ''.''"
  shows "scan_dot s i = j"
proof -
  from scan_dot_spec [of s i] have "\<not> j < scan_dot s i" using assms by (metis not_less0)
  moreover from scan_dot_spec [of s i] have "\<not> scan_dot s i < j" using assms by blast
  ultimately show ?thesis by linarith
qed

lemma scan_dot_split:
  assumes "CHR ''.'' \<notin> set d"
  shows "scan_dot (srv @ CHR ''.'' # d @ rest) (length srv + length d) = length srv"
proof (rule scan_dot_eq)
  show "\<forall>k. length srv < k \<and> k \<le> length srv + length d \<longrightarrow>
      (srv @ CHR ''.'' # d @ rest) ! k \<noteq> CHR ''.''"
  proof (intro allI impI)
    fix k assume k: "length srv < k \<and> k \<le> length srv + length d"
    then obtain m where m: "k = length srv + Suc m" "m < length d"
      by (metis Suc_le_eq add_le_cancel_left less_imp_Suc_add add_Suc_right)
    then have "(srv @ CHR ''.'' # d @ rest) ! k = d ! m" by (simp add: nth_append)
    with m assms show "(srv @ CHR ''.'' # d @ rest) ! k \<noteq> CHR ''.''" by (metis nth_mem)
  qed
qed (simp_all add: nth_append)

lemma parse_split:
  assumes "srv \<noteq> []" and "CHR ''.'' \<notin> set d" and "CHR ''.'' \<notin> set ty" and "ty \<noteq> []"
    and "id_type i = get_string_value L osmo_mslookup_id_type_names ty" and "id_digits i = d"
    and "osmo_mslookup_id_valid L i" and "0 < length d" and "length d < ID_BUF_SIZE"
    and "length srv \<le> OSMO_MSLOOKUP_SERVICE_MAXLEN"
  shows "osmo_mslookup_query_init_from_domain_str L (Some (srv @ ''.'' @ d @ ''.'' @ ty)) =
    (\<lparr>service = srv, ms_id = i\<rparr>, 0)"
proof -
  let ?dom = "srv @ CHR ''.'' # d @ CHR ''.'' # ty"
  have last: "strrchr ?dom CHR ''.'' = Some (length srv + Suc (length d))"
    using strrchr_last [OF assms(3), of "srv @ CHR ''.'' # d"] by simp
  have second: "scan_dot ?dom (length srv + length d) = length srv"
    by (rule scan_dot_split) (rule assms(2))
  from id_valid_type [OF assms(7)] show ?thesis
    using last second assms
    by (cases i) (auto simp: osmo_mslookup_query_init_from_domain_str_def Let_def token_def query_zero_def
        osmo_mslookup_id_valid_def nth_append)
qed

lemma type_name_value:
  assumes "lib_strings_ok L" and "osmo_mslookup_id_valid L i"
  shows "get_string_value L osmo_mslookup_id_type_names (osmo_mslookup_id_type_name L (id_type i)) = id_type i"
    and "CHR ''.'' \<notin> set (osmo_mslookup_id_type_name L (id_type i))"
    and "osmo_mslookup_id_type_name L (id_type i) \<noteq> []"
  using id_valid_type [OF assms(2)]
  by (auto simp: lib_value_tables [OF assms(1)] osmo_mslookup_id_type_names_def
      osmo_mslookup_id_type_name_def lower_def octet_val_def)

lemma parse_printed:
  assumes "lib_strings_ok L" and "osmo_mslookup_id_valid L (ms_id q)"
    and "osmo_mslookup_service_valid (service q)" and "length (service q) \<le> OSMO_MSLOOKUP_SERVICE_MAXLEN"
  shows "osmo_mslookup_query_init_from_domain_str L (Some (service q @ ''.'' @ id_name L (ms_id q))) = (q, 0)"
proof -
  note digits = id_valid_digits [OF assms(1,2)]
  have dot: "CHR ''.'' \<notin> set (id_digits (ms_id q))" using digits digits_no_dot by blast
  have "osmo_mslookup_query_init_from_domain_str L (Some (service q @ ''.'' @ id_digits (ms_id q) @ ''.''
      @ osmo_mslookup_id_type_name L (id_type (ms_id q)))) = (\<lparr>service = service q, ms_id = ms_id q\<rparr>, 0)"
    using assms(2-4) digits dot type_name_value [OF assms(1,2)]
    by (intro parse_split) (auto simp: osmo_mslookup_service_valid_def)
  then show ?thesis by (simp add: id_name_def)
qed

lemma string_value_name:
  assumes "lib_strings_ok L"
    and "get_string_value L osmo_mslookup_id_type_names ty \<in> {OSMO_MSLOOKUP_ID_IMSI, OSMO_MSLOOKUP_ID_MSISDN}"
  shows "map lower ty =
    map lower (osmo_mslookup_id_type_name L (get_string_value L osmo_mslookup_id_type_names ty))"
  using assms(2)
  by (auto simp: lib_value_tables [OF assms(1)] osmo_mslookup_id_type_names_def
      osmo_mslookup_id_type_name_def split: if_splits)

lemma token_0D: "token dest n s a b = (t, 0) \<Longrightarrow> a < b \<and> t = take (b - a) (drop a s) \<and> b - a < n"
  by (auto simp: token_def split: if_splits)

lemma parse_0D:
  assumes "osmo_mslookup_query_init_from_domain_str L (Some domain) = (q, 0)"
  shows "\<exists>i j. strrchr domain CHR ''.'' = Some i \<and> j = scan_dot domain (i - 1) \<and> 0 < j \<and> j < i \<and>
     domain ! j = CHR ''.'' \<and>
     id_type (ms_id q) = get_string_value L osmo_mslookup_id_type_names (drop (i + 1) domain) \<and>
     id_digits (ms_id q) = take (i - (j + 1)) (drop (j + 1) domain) \<and>
     service q = take j domain \<and> j \<le> OSMO_MSLOOKUP_SERVICE_MAXLEN \<and> osmo_mslookup_id_valid L (ms_id q)"
  using assms
  by (auto simp: osmo_mslookup_query_init_from_domain_str_def Let_def osmo_mslookup_id_valid_def
      split: option.splits if_splits prod.splits dest!: token_0D)

section \<open>Properties\<close>

text \<open>
  C32. Printing a valid query and parsing the text gives the query back: for a service name of
  1 to 64 octets (dots allowed) and a valid IMSI or MSISDN, the domain string written into a
  large enough buffer is accepted and yields the same service, id type and digits.
\<close>
theorem mslookup_domain_roundtrip:
  assumes "lib_strings_ok L" and "lib_strbuf_ok L"
    and "osmo_mslookup_id_valid L (ms_id q)" and "osmo_mslookup_service_valid (service q)"
    and "length (service q) \<le> OSMO_MSLOOKUP_SERVICE_MAXLEN"
    and "length (service q @ ''.'' @ id_name L (ms_id q)) < n"
  shows "osmo_mslookup_query_init_from_domain_str L
    (Some (fst (osmo_mslookup_result_to_str_buf L n (Some q) None))) = (q, 0)"
  using parse_printed [OF assms(1,3-5)] query_to_str_ok [OF assms(2,3,6)] by simp

definition query_example :: osmo_mslookup_query where
  "query_example = \<lparr>service = ''sip.voice'', ms_id = \<lparr>id_type = OSMO_MSLOOKUP_ID_MSISDN, id_digits = ''1234''\<rparr>\<rparr>"

lemma query_example_valid: "osmo_mslookup_id_valid ref_core (ms_id query_example)"
  by (simp add: query_example_def osmo_mslookup_id_valid_def ref_core_def is_digit_def octet_val_def)

theorem mslookup_domain_roundtrip_witness:
  "osmo_mslookup_query_init_from_domain_str ref_core
    (Some (fst (osmo_mslookup_result_to_str_buf ref_core 100 (Some query_example) None))) = (query_example, 0)"
  using mslookup_domain_roundtrip [OF ref_strings_ok ref_strbuf_ok query_example_valid, of 100]
  by (simp add: query_example_def osmo_mslookup_service_valid_def id_name_def osmo_mslookup_id_type_name_def
      osmo_mslookup_id_type_names_def ref_core_def)

text \<open>
  The parser accepts only domain strings of valid queries: when it returns 0, the id is a
  valid IMSI or MSISDN, the service name has 1 to 64 octets, and the string is the service,
  the digits and the type name of the result, separated by dots; the type name is read without
  regard to case. With an accepted string nothing is therefore lost or invented.
\<close>
theorem mslookup_domain_parse_sound:
  assumes "lib_strings_ok L" and "osmo_mslookup_query_init_from_domain_str L (Some domain) = (q, 0)"
  shows "osmo_mslookup_id_valid L (ms_id q) \<and> service q \<noteq> [] \<and>
    length (service q) \<le> OSMO_MSLOOKUP_SERVICE_MAXLEN \<and>
    (\<exists>ty. domain = service q @ ''.'' @ id_digits (ms_id q) @ ''.'' @ ty \<and>
          map lower ty = map lower (osmo_mslookup_id_type_name L (id_type (ms_id q))))"
proof -
  from parse_0D [OF assms(2)] obtain i j where
    i: "strrchr domain CHR ''.'' = Some i" and j: "0 < j" "j < i" "domain ! j = CHR ''.''"
    and ty: "id_type (ms_id q) = get_string_value L osmo_mslookup_id_type_names (drop (i + 1) domain)"
    and d: "id_digits (ms_id q) = take (i - (j + 1)) (drop (j + 1) domain)"
    and srv: "service q = take j domain" "j \<le> OSMO_MSLOOKUP_SERVICE_MAXLEN"
    and valid: "osmo_mslookup_id_valid L (ms_id q)" by blast
  from strrchr_SomeD [OF i] have il: "i < length domain" and last: "domain = take i domain @ CHR ''.'' # drop (Suc i) domain"
    by auto
  have "take i domain = take j domain @ CHR ''.'' # take (i - (j + 1)) (drop (j + 1) domain)"
    using j il by (metis Suc_eq_plus1 add_diff_inverse_nat append_assoc append_Cons append_Nil
        take_Suc_conv_app_nth take_add order.strict_trans not_less_eq)
  with last d srv have "domain = service q @ ''.'' @ id_digits (ms_id q) @ ''.'' @ drop (i + 1) domain"
    by (metis Suc_eq_plus1 append.assoc append_Cons append_Nil)
  moreover have "map lower (drop (i + 1) domain) = map lower (osmo_mslookup_id_type_name L (id_type (ms_id q)))"
    using string_value_name [OF assms(1)] id_valid_type [OF valid] ty by auto
  moreover have "service q \<noteq> []" "length (service q) \<le> OSMO_MSLOOKUP_SERVICE_MAXLEN"
    using srv j il by auto
  ultimately show ?thesis using valid by blast
qed

theorem mslookup_domain_parse_sound_witness:
  "\<exists>q. osmo_mslookup_query_init_from_domain_str ref_core (Some ''hlr.262420000000001.imsi'') = (q, 0) \<and>
     osmo_mslookup_id_valid ref_core (ms_id q)"
proof -
  define q where "q = \<lparr>service = ''hlr'', ms_id = \<lparr>id_type = OSMO_MSLOOKUP_ID_IMSI, id_digits = ''262420000000001''\<rparr>\<rparr>"
  have ty: "get_string_value ref_core osmo_mslookup_id_type_names ''imsi'' = OSMO_MSLOOKUP_ID_IMSI"
    by (simp add: lib_value_tables [OF ref_strings_ok] osmo_mslookup_id_type_names_def lower_def octet_val_def)
  have valid: "osmo_mslookup_id_valid ref_core (ms_id q)"
    by (simp add: q_def osmo_mslookup_id_valid_def ref_core_def is_digit_def octet_val_def)
  have "osmo_mslookup_query_init_from_domain_str ref_core (Some ''hlr.262420000000001.imsi'') = (q, 0)"
    using parse_split [of "''hlr''" "''262420000000001''" "''imsi''" "ms_id q" ref_core] ty valid
    by (simp add: q_def)
  then show ?thesis using mslookup_domain_parse_sound [OF ref_strings_ok, of _ q] by blast
qed

end
