(* ===== verification/Mslookup_Client.thy ===== *)
theory Mslookup_Client
  imports Mslookup
begin

text \<open>
  The client side of mslookup: \<open>src/mslookup/mslookup_client.c\<close>. The state is a pair: the world of the caller,
  on which the lookup methods and the result callback act, and the client. A method is the functions
  its structure points to; the result callback is the argument \<open>cb\<close>, which may also act
  on the client (cancel a request). A request is identified by its handle; \<open>rq_timer\<close> is
  the timeout it is scheduled for in milliseconds. \<open>Fault\<close> is the use of a request after its
  deallocation.
\<close>

section \<open>Data\<close>

record osmo_mslookup_query_handling =
  min_wait_milliseconds :: nat
  result_timeout_milliseconds :: nat

record osmo_mslookup_client_request =
  rq_handle :: "32 word"
  rq_query :: osmo_mslookup_query
  rq_handling :: osmo_mslookup_query_handling
  rq_timer :: "nat option"
  waiting_min_delay :: bool
  rq_result :: osmo_mslookup_result

record 'w osmo_mslookup_client_method =
  m_id :: nat
  m_request :: "osmo_mslookup_query \<Rightarrow> 32 word \<Rightarrow> 'w \<Rightarrow> 'w"
  m_request_cleanup :: "(32 word \<Rightarrow> 'w \<Rightarrow> 'w) option"
  m_destruct :: "('w \<Rightarrow> 'w) option"

record 'w osmo_mslookup_client =
  lookup_methods :: "'w osmo_mslookup_client_method list"
  requests :: "osmo_mslookup_client_request list"
  next_request_handle :: "32 word"

type_synonym 'w lookup_state = "'w \<times> 'w osmo_mslookup_client"
type_synonym 'w result_cb = "32 word \<Rightarrow> osmo_mslookup_query \<Rightarrow> osmo_mslookup_result \<Rightarrow> 'w lookup_state \<Rightarrow> 'w lookup_state"

section \<open>Operations\<close>

definition get_request :: "'w osmo_mslookup_client \<Rightarrow> 32 word \<Rightarrow> osmo_mslookup_client_request option" where
  "get_request client h =
     (if h = 0 then None else List.find (\<lambda>r. rq_handle r = h) (requests client))"

definition osmo_mslookup_client_new :: "'w osmo_mslookup_client" where
  "osmo_mslookup_client_new = \<lparr>lookup_methods = [], requests = [], next_request_handle = 0\<rparr>"

definition osmo_mslookup_client_active :: "'w osmo_mslookup_client option \<Rightarrow> bool" where
  "osmo_mslookup_client_active client = (case client of None \<Rightarrow> False | Some c \<Rightarrow> lookup_methods c \<noteq> [])"

definition osmo_mslookup_client_method_del0 :: "'w osmo_mslookup_client_method \<Rightarrow> 'w lookup_state \<Rightarrow> 'w lookup_state" where
  "osmo_mslookup_client_method_del0 m s = (case s of (w, c) \<Rightarrow>
     (case m_destruct m of None \<Rightarrow> w | Some f \<Rightarrow> f w,
      c\<lparr>lookup_methods := filter (\<lambda>x. m_id x \<noteq> m_id m) (lookup_methods c)\<rparr>))"

definition osmo_mslookup_client_free :: "'w lookup_state \<Rightarrow> 'w" where
  "osmo_mslookup_client_free s = fst (fold osmo_mslookup_client_method_del0 (lookup_methods (snd s)) s)"

definition osmo_mslookup_client_method_add ::
  "'w osmo_mslookup_client_method \<Rightarrow> 'w osmo_mslookup_client \<Rightarrow> 'w osmo_mslookup_client" where
  "osmo_mslookup_client_method_add m c = c\<lparr>lookup_methods := lookup_methods c @ [m]\<rparr>"

definition osmo_mslookup_client_method_del ::
  "'w osmo_mslookup_client_method \<Rightarrow> 'w lookup_state \<Rightarrow> 'w lookup_state \<times> bool" where
  "osmo_mslookup_client_method_del m s =
     (if m_id m \<in> m_id ` set (lookup_methods (snd s)) then (osmo_mslookup_client_method_del0 m s, True) else (s, False))"

definition osmo_mslookup_client_request_cleanup ::
  "osmo_mslookup_client_request \<Rightarrow> 'w lookup_state \<Rightarrow> 'w lookup_state" where
  "osmo_mslookup_client_request_cleanup r s = (case s of (w, c) \<Rightarrow>
     (fold (\<lambda>m w. case m_request_cleanup m of None \<Rightarrow> w | Some f \<Rightarrow> f (rq_handle r) w) (lookup_methods c) w,
      c\<lparr>requests := filter (\<lambda>x. rq_handle x \<noteq> rq_handle r) (requests c)\<rparr>))"

definition osmo_mslookup_client_request_cancel :: "32 word \<Rightarrow> 'w lookup_state \<Rightarrow> 'w lookup_state" where
  "osmo_mslookup_client_request_cancel h s =
     (case get_request (snd s) h of None \<Rightarrow> s | Some r \<Rightarrow> osmo_mslookup_client_request_cleanup r s)"

definition rq_store :: "osmo_mslookup_client_request \<Rightarrow> 'w lookup_state \<Rightarrow> 'w lookup_state" where
  \<comment> \<open>a write through the pointer to a request\<close>
  "rq_store r s = (fst s, (snd s)\<lparr>requests := map (\<lambda>x. if rq_handle x = rq_handle r then r else x) (requests (snd s))\<rparr>)"

definition osmo_mslookup_request_send_result ::
  "'w result_cb \<Rightarrow> osmo_mslookup_client_request \<Rightarrow> bool \<Rightarrow> 'w lookup_state \<Rightarrow> 'w lookup_state" where
  "osmo_mslookup_request_send_result cb r fin s =
     (let r = r\<lparr>rq_result := (rq_result r)\<lparr>ms_last := fin\<rparr>\<rparr>;
          s = cb (rq_handle r) (rq_query r) (rq_result r) (rq_store r s)
      in if fin then osmo_mslookup_client_request_cancel (rq_handle r) s else s)"

definition osmo_mslookup_client_rx_result ::
  "'w result_cb \<Rightarrow> 32 word \<Rightarrow> osmo_mslookup_result \<Rightarrow> 'w lookup_state \<Rightarrow> 'w lookup_state" where
  "osmo_mslookup_client_rx_result cb h result s =
     (case get_request (snd s) h of
        None \<Rightarrow> s
      | Some req \<Rightarrow>
          if ms_rc result \<noteq> OSMO_MSLOOKUP_RC_RESULT then s
          else if ms_rc (rq_result req) = OSMO_MSLOOKUP_RC_RESULT \<and> age result \<ge> age (rq_result req) then s
          else
            let req = req\<lparr>rq_result := result\<rparr>
            in if age (rq_result req) = 0 then osmo_mslookup_request_send_result cb req True s
               else if waiting_min_delay req then rq_store req s
               else osmo_mslookup_request_send_result cb req False s)"

definition set_timer :: "osmo_mslookup_client_request \<Rightarrow> nat \<Rightarrow> osmo_mslookup_client_request" where
  "set_timer r milliseconds = r\<lparr>rq_timer := Some milliseconds\<rparr>"

definition timeout_cb :: "'w result_cb \<Rightarrow> osmo_mslookup_client_request \<Rightarrow> 'w lookup_state \<Rightarrow> 'w lookup_state exec" where
  "timeout_cb cb r s =
     (let min_wait = min_wait_milliseconds (rq_handling r); overall = result_timeout_milliseconds (rq_handling r)
      in if waiting_min_delay r then
           let r = r\<lparr>waiting_min_delay := False\<rparr>
           in if overall \<le> min_wait then
                let r = (if ms_rc (rq_result r) \<noteq> OSMO_MSLOOKUP_RC_RESULT
                         then r\<lparr>rq_result := (rq_result r)\<lparr>ms_rc := OSMO_MSLOOKUP_RC_NOT_FOUND\<rparr>\<rparr> else r)
                in Ret (osmo_mslookup_request_send_result cb r True s)
              else
                let s = rq_store r s;
                    s = (if ms_rc (rq_result r) = OSMO_MSLOOKUP_RC_RESULT
                         then osmo_mslookup_request_send_result cb r False s else s)
                in (case get_request (snd s) (rq_handle r) of
                      None \<Rightarrow> Fault
                    | Some r \<Rightarrow> Ret (rq_store (set_timer r (overall - min_wait)) s))
         else
           let r = r\<lparr>rq_result := (rq_result r)\<lparr>ms_rc :=
                 if ms_rc (rq_result r) = OSMO_MSLOOKUP_RC_RESULT then OSMO_MSLOOKUP_RC_NONE
                 else OSMO_MSLOOKUP_RC_NOT_FOUND\<rparr>\<rparr>
           in Ret (osmo_mslookup_request_send_result cb r True s))"

definition osmo_mslookup_client_request ::
  "osmo_core \<Rightarrow> 'w result_cb \<Rightarrow> osmo_mslookup_query \<Rightarrow> osmo_mslookup_query_handling \<Rightarrow> 'w lookup_state
     \<Rightarrow> 'w lookup_state \<times> 32 word" where
  "osmo_mslookup_client_request L cb query handling s =
     (if \<not> osmo_mslookup_service_valid (service query) \<or> \<not> osmo_mslookup_id_valid L (ms_id query) then (s, 0)
      else
        let c = snd s;
            h = (if next_request_handle c = 0 then next_request_handle c + 1 else next_request_handle c);
            c = c\<lparr>next_request_handle := h + 1\<rparr>;
            overall = (if result_timeout_milliseconds handling = 0 then min_wait_milliseconds handling
                       else result_timeout_milliseconds handling);
            handling = handling\<lparr>result_timeout_milliseconds := if overall = 0 then 1000 else overall\<rparr>;
            s = (fst s, c);
            s = (case List.find (\<lambda>x. rq_handle x = h) (requests c) of
                   None \<Rightarrow> s
                 | Some other \<Rightarrow> osmo_mslookup_request_send_result cb other True s);
            r = \<lparr>rq_handle = h, rq_query = query, rq_handling = handling, rq_timer = None,
                 waiting_min_delay = False, rq_result = result_zero\<rparr>;
            r = (if min_wait_milliseconds handling \<noteq> 0
                 then set_timer (r\<lparr>waiting_min_delay := True\<rparr>) (min_wait_milliseconds handling)
                 else set_timer r (result_timeout_milliseconds handling));
            c = (snd s)\<lparr>requests := requests (snd s) @ [r]\<rparr>
        in ((fold (\<lambda>m w. m_request m query h w) (lookup_methods c) (fst s), c), h))"

text \<open>What can happen to a client: a caller starts or cancels a request, a method reports a
  result, the timer of a request expires.\<close>

datatype lookup_event =
    Start osmo_mslookup_query osmo_mslookup_query_handling
  | Cancel "32 word"
  | Rx_Result "32 word" osmo_mslookup_result
  | Expire "32 word"

definition lookup_step :: "osmo_core \<Rightarrow> 'w result_cb \<Rightarrow> lookup_event \<Rightarrow> 'w lookup_state \<Rightarrow> 'w lookup_state exec" where
  "lookup_step L cb e s = (case e of
      Start q handling \<Rightarrow> Ret (fst (osmo_mslookup_client_request L cb q handling s))
    | Cancel h \<Rightarrow> Ret (osmo_mslookup_client_request_cancel h s)
    | Rx_Result h result \<Rightarrow> Ret (osmo_mslookup_client_rx_result cb h result s)
    | Expire h \<Rightarrow> (case get_request (snd s) h of None \<Rightarrow> Ret s | Some r \<Rightarrow> timeout_cb cb r s))"

fun lookup_run :: "osmo_core \<Rightarrow> 'w result_cb \<Rightarrow> lookup_event list \<Rightarrow> 'w lookup_state \<Rightarrow> 'w lookup_state exec" where
  "lookup_run L cb [] s = Ret s"
| "lookup_run L cb (e # es) s = (case lookup_step L cb e s of Fault \<Rightarrow> Fault | Ret s' \<Rightarrow> lookup_run L cb es s')"

section \<open>The invariant of the client\<close>

definition rq_ok :: "osmo_mslookup_client_request \<Rightarrow> bool" where
  "rq_ok r \<longleftrightarrow> rq_handle r \<noteq> 0 \<and> rq_timer r \<noteq> None \<and> 0 < result_timeout_milliseconds (rq_handling r)"

definition client_inv :: "'w osmo_mslookup_client \<Rightarrow> bool" where
  \<comment> \<open>handles identify requests, zero is no handle, every request has a running timer\<close>
  "client_inv c \<longleftrightarrow> distinct (map rq_handle (requests c)) \<and> list_all rq_ok (requests c)"

lemma get_requestD: "get_request c h = Some r \<Longrightarrow> r \<in> set (requests c) \<and> rq_handle r = h \<and> h \<noteq> 0"
  by (auto simp: get_request_def dest: find_SomeD split: if_splits)

lemma get_request_None: "h \<noteq> 0 \<Longrightarrow> get_request c h = None \<longleftrightarrow> h \<notin> rq_handle ` set (requests c)"
  by (auto simp: get_request_def find_None_iff)

lemma client_inv_filter: "client_inv c \<Longrightarrow> client_inv (c\<lparr>requests := filter P (requests c)\<rparr>)"
  by (auto simp: client_inv_def distinct_map_filter_sub list_all_iff)

lemma rq_store_handles: "map rq_handle (requests (snd (rq_store r s))) = map rq_handle (requests (snd s))"
  by (auto simp: rq_store_def)

lemma rq_store_inv: "client_inv (snd s) \<Longrightarrow> rq_ok r \<Longrightarrow> client_inv (snd (rq_store r s))"
  unfolding client_inv_def rq_store_handles by (auto simp: list_all_iff rq_store_def)

lemma rq_ok_update [simp]:
  "rq_ok (r\<lparr>rq_result := x\<rparr>) = rq_ok r" "rq_ok (r\<lparr>waiting_min_delay := b\<rparr>) = rq_ok r"
  "rq_ok r \<Longrightarrow> rq_ok (set_timer r n)"
  by (simp_all add: rq_ok_def set_timer_def)

lemma get_request_ok: "client_inv c \<Longrightarrow> get_request c h = Some r \<Longrightarrow> rq_ok r"
  by (auto simp: client_inv_def list_all_iff dest: get_requestD)

lemma cleanup_requests:
  "requests (snd (osmo_mslookup_client_request_cleanup r s)) = filter (\<lambda>x. rq_handle x \<noteq> rq_handle r) (requests (snd s))"
  by (simp add: osmo_mslookup_client_request_cleanup_def prod.case_eq_if)

lemma cancel_requests:
  "h \<noteq> 0 \<Longrightarrow> requests (snd (osmo_mslookup_client_request_cancel h s)) = filter (\<lambda>x. rq_handle x \<noteq> h) (requests (snd s))"
proof (cases "get_request (snd s) h")
  case None
  moreover assume "h \<noteq> 0"
  ultimately have "h \<notin> rq_handle ` set (requests (snd s))" by (simp add: get_request_None)
  then have "filter (\<lambda>x. rq_handle x \<noteq> h) (requests (snd s)) = requests (snd s)"
    by (auto simp: filter_id_conv)
  then show ?thesis using None by (simp add: osmo_mslookup_client_request_cancel_def)
qed (auto simp: osmo_mslookup_client_request_cancel_def cleanup_requests dest!: get_requestD)

lemma cancel_inv: "client_inv (snd s) \<Longrightarrow> client_inv (snd (osmo_mslookup_client_request_cancel h s))"
proof (cases "h = 0")
  case False
  assume "client_inv (snd s)"
  then show ?thesis using cancel_requests [OF False, of s] client_inv_filter [of "snd s"]
    by (simp add: client_inv_def)
qed (simp add: osmo_mslookup_client_request_cancel_def get_request_def)

text \<open>
  The contract of a result callback: it does with its own world what it likes and may cancel
  requests of the client that calls it, but it does not change requests or add any.
\<close>

locale result_callback =
  fixes cb :: "'w result_cb"
  assumes cb_only_cancels: "\<exists>P. requests (snd (cb h q result s)) = filter P (requests (snd s))"
begin

lemma cb_inv: "client_inv (snd s) \<Longrightarrow> client_inv (snd (cb h q result s))"
  using cb_only_cancels [of h q result s] client_inv_filter [of "snd s"] by (auto simp: client_inv_def)

lemma send_result_inv:
  "client_inv (snd s) \<Longrightarrow> rq_ok r \<Longrightarrow> client_inv (snd (osmo_mslookup_request_send_result cb r fin s))"
  by (auto simp: osmo_mslookup_request_send_result_def Let_def intro!: cancel_inv cb_inv rq_store_inv)

lemma rx_result_inv: "client_inv (snd s) \<Longrightarrow> client_inv (snd (osmo_mslookup_client_rx_result cb h result s))"
  by (auto simp: osmo_mslookup_client_rx_result_def Let_def split: option.splits
      intro!: send_result_inv rq_store_inv dest: get_request_ok)

lemma timeout_inv:
  assumes inv: "client_inv (snd s)" and r: "get_request (snd s) h = Some r" and ret: "timeout_cb cb r s = Ret s'"
  shows "client_inv (snd s')"
proof -
  have ok: "rq_ok r" using get_request_ok [OF inv r] .
  show ?thesis
  proof (cases "waiting_min_delay r \<and> \<not> result_timeout_milliseconds (rq_handling r) \<le> min_wait_milliseconds (rq_handling r)")
    case True
    define s1 where "s1 = (if ms_rc (rq_result r) = OSMO_MSLOOKUP_RC_RESULT
      then osmo_mslookup_request_send_result cb (r\<lparr>waiting_min_delay := False\<rparr>) False (rq_store (r\<lparr>waiting_min_delay := False\<rparr>) s)
      else rq_store (r\<lparr>waiting_min_delay := False\<rparr>) s)"
    have i1: "client_inv (snd s1)"
      using inv ok by (auto simp: s1_def intro!: send_result_inv rq_store_inv)
    obtain r1 where r1: "get_request (snd s1) (rq_handle r) = Some r1"
      and s': "s' = rq_store (set_timer r1 (result_timeout_milliseconds (rq_handling r) - min_wait_milliseconds (rq_handling r))) s1"
      using ret True by (auto simp: timeout_cb_def Let_def s1_def split: option.splits if_splits)
    show ?thesis unfolding s' using i1 get_request_ok [OF i1 r1] by (intro rq_store_inv) auto
  next
    case False
    then show ?thesis using ret inv ok
      by (auto simp: timeout_cb_def Let_def split: if_splits intro!: send_result_inv)
  qed
qed

lemma request_shape:
  assumes inv: "client_inv (snd s)"
    and valid: "osmo_mslookup_service_valid (service q) \<and> osmo_mslookup_id_valid L (ms_id q)"
  obtains c r where "client_inv c" "rq_ok r" "rq_handle r \<notin> rq_handle ` set (requests c)"
    "snd (fst (osmo_mslookup_client_request L cb q handling s)) = c\<lparr>requests := requests c @ [r]\<rparr>"
    "snd (osmo_mslookup_client_request L cb q handling s) = rq_handle r"
proof -
  define h where "h = (if next_request_handle (snd s) = 0 then next_request_handle (snd s) + 1 else next_request_handle (snd s))"
  define c0 where "c0 = (snd s)\<lparr>next_request_handle := h + 1\<rparr>"
  define s1 where "s1 = (case List.find (\<lambda>x. rq_handle x = h) (requests c0) of
     None \<Rightarrow> (fst s, c0) | Some other \<Rightarrow> osmo_mslookup_request_send_result cb other True (fst s, c0))"
  have h: "h \<noteq> 0" by (simp add: h_def)
  have i0: "client_inv c0" using inv by (simp add: c0_def client_inv_def)
  have s1: "client_inv (snd s1) \<and> h \<notin> rq_handle ` set (requests (snd s1))"
  proof (cases "List.find (\<lambda>x. rq_handle x = h) (requests c0)")
    case None
    moreover have "h \<notin> rq_handle ` set (requests c0)" using None by (auto simp: find_None_iff)
    ultimately show ?thesis using i0 by (simp add: s1_def)
  next
    case (Some r)
    then have r: "r \<in> set (requests c0)" "rq_handle r = h" by (auto dest: find_SomeD)
    then have "client_inv (snd (osmo_mslookup_request_send_result cb r True (fst s, c0)))"
      using i0 by (intro send_result_inv) (auto simp: client_inv_def list_all_iff)
    then show ?thesis using Some r h
      by (auto simp: s1_def osmo_mslookup_request_send_result_def cancel_requests)
  qed
  show thesis
    by (rule that [of "snd s1"], use s1 valid in simp,
        unfold osmo_mslookup_client_request_def Let_def h_def [symmetric] c0_def [symmetric] s1_def [symmetric])
      (use s1 valid h in \<open>auto simp: set_timer_def rq_ok_def\<close>)
qed

lemma request_inv:
  assumes inv: "client_inv (snd s)"
  shows "client_inv (snd (fst (osmo_mslookup_client_request L cb q handling s)))"
proof (cases "osmo_mslookup_service_valid (service q) \<and> osmo_mslookup_id_valid L (ms_id q)")
  case True
  obtain c r where "client_inv c" "rq_ok r" "rq_handle r \<notin> rq_handle ` set (requests c)"
    "snd (fst (osmo_mslookup_client_request L cb q handling s)) = c\<lparr>requests := requests c @ [r]\<rparr>"
    by (rule request_shape [OF inv True])
  then show ?thesis by (simp add: client_inv_def)
qed (use inv in \<open>auto simp: osmo_mslookup_client_request_def\<close>)

lemma step_inv: "client_inv (snd s) \<Longrightarrow> lookup_step L cb e s = Ret s' \<Longrightarrow> client_inv (snd s')"
  by (auto simp: lookup_step_def request_inv cancel_inv rx_result_inv timeout_inv
      split: lookup_event.splits option.splits)

lemma run_inv: "client_inv (snd s) \<Longrightarrow> lookup_run L cb es s = Ret s' \<Longrightarrow> client_inv (snd s')"
  by (induction es arbitrary: s) (auto split: exec.splits dest: step_inv)

end

lemma get_request_zero [simp]: "get_request c 0 = None"
  by (simp add: get_request_def)

lemma get_request_store:
  "get_request (snd (rq_store r s)) h =
     (if h = rq_handle r \<and> get_request (snd s) h \<noteq> None then Some r else get_request (snd s) h)"
  by (cases "h = rq_handle r") (auto simp: rq_store_def get_request_def find_replace find_replace_same)

lemma get_request_cancel:
  "get_request (snd (osmo_mslookup_client_request_cancel k s)) h = (if h = k then None else get_request (snd s) h)"
proof (cases "k = 0")
  case True
  then show ?thesis by (simp add: osmo_mslookup_client_request_cancel_def)
next
  case False
  then have "get_request (snd (osmo_mslookup_client_request_cancel k s)) h =
      (if h = 0 then None else List.find (\<lambda>x. rq_handle x = h) (filter (\<lambda>x. rq_handle x \<noteq> k) (requests (snd s))))"
    by (simp add: get_request_def cancel_requests)
  then show ?thesis
    by (auto simp: get_request_def find_filter_keep find_None_iff)
qed

text \<open>A callback that never cancels: with it, no request is used after its deallocation.\<close>

locale passive_callback =
  fixes cb :: "'w result_cb"
  assumes cb_passive: "snd (cb h q result s) = snd s"
begin

lemma timeout_no_fault:
  assumes "get_request (snd s) h = Some r"
  shows "timeout_cb cb r s \<noteq> Fault"
proof -
  have h: "rq_handle r = h" "h \<noteq> 0" using get_requestD [OF assms] by auto
  let ?r = "r\<lparr>waiting_min_delay := False\<rparr>"
  have "get_request (snd (rq_store ?r s)) h \<noteq> None" using assms h by (simp add: get_request_store)
  moreover have "get_request (snd (osmo_mslookup_request_send_result cb ?r False (rq_store ?r s))) h \<noteq> None"
    using assms h by (simp add: osmo_mslookup_request_send_result_def cb_passive get_request_store)
  ultimately show ?thesis using h by (auto simp: timeout_cb_def Let_def split: option.splits)
qed

lemma run_no_fault: "\<exists>s'. lookup_run L cb es s = Ret s'"
proof (induction es arbitrary: s)
  case (Cons e es)
  have "lookup_step L cb e s \<noteq> Fault"
    using timeout_no_fault by (auto simp: lookup_step_def split: lookup_event.splits option.splits)
  then show ?case using Cons by (auto split: exec.split)
qed simp

end

sublocale passive_callback \<subseteq> result_callback cb
proof
  show "\<exists>P. requests (snd (cb h q result s)) = filter P (requests (snd s))" for h q result s
    by (rule exI [of _ "\<lambda>_. True"]) (simp add: cb_passive)
qed

section \<open>The results one request gets\<close>

definition results_of :: "32 word \<Rightarrow> (32 word \<times> osmo_mslookup_result) list \<Rightarrow> osmo_mslookup_result list" where
  "results_of h l = map snd (filter (\<lambda>x. fst x = h) l)"

lemma results_of_append [simp]:
  "results_of h (l @ [(k, r)]) = (if k = h then results_of h l @ [r] else results_of h l)"
  by (simp add: results_of_def)

definition records_results :: "('w \<Rightarrow> (32 word \<times> osmo_mslookup_result) list) \<Rightarrow> 'w result_cb \<Rightarrow> bool" where
  \<comment> \<open>a callback that leaves the client alone, in a world that tells which results it was given\<close>
  "records_results log cb \<longleftrightarrow>
     (\<forall>h q result s. snd (cb h q result s) = snd s \<and> log (fst (cb h q result s)) = log (fst s) @ [(h, result)])"

definition keeps_record :: "('w \<Rightarrow> (32 word \<times> osmo_mslookup_result) list) \<Rightarrow> 'w osmo_mslookup_client \<Rightarrow> bool" where
  "keeps_record log c \<longleftrightarrow> (\<forall>m \<in> set (lookup_methods c).
     (\<forall>q h w. log (m_request m q h w) = log w) \<and>
     (\<forall>f h w. m_request_cleanup m = Some f \<longrightarrow> log (f h w) = log w))"

lemma fold_keeps: "(\<And>x w. x \<in> set xs \<Longrightarrow> f (g x w) = f w) \<Longrightarrow> f (fold g xs w) = f w"
  by (induction xs arbitrary: w) auto

lemma cleanup_log:
  "keeps_record log (snd s) \<Longrightarrow> log (fst (osmo_mslookup_client_request_cleanup r s)) = log (fst s)"
  by (auto simp: osmo_mslookup_client_request_cleanup_def keeps_record_def prod.case_eq_if
      intro!: fold_keeps split: option.splits)

lemma cancel_log:
  "keeps_record log (snd s) \<Longrightarrow> log (fst (osmo_mslookup_client_request_cancel h s)) = log (fst s)"
  by (auto simp: osmo_mslookup_client_request_cancel_def cleanup_log split: option.splits)

lemma cancel_methods: "lookup_methods (snd (osmo_mslookup_client_request_cancel h s)) = lookup_methods (snd s)"
  by (auto simp: osmo_mslookup_client_request_cancel_def osmo_mslookup_client_request_cleanup_def
      prod.case_eq_if split: option.splits)

lemma store_log [simp]: "fst (rq_store r s) = fst s" "lookup_methods (snd (rq_store r s)) = lookup_methods (snd s)"
  by (simp_all add: rq_store_def)

lemma keeps_record_methods: "lookup_methods c = lookup_methods c' \<Longrightarrow> keeps_record log c = keeps_record log c'"
  by (simp add: keeps_record_def)

lemma send_result_effect:
  fixes r :: osmo_mslookup_client_request and fin :: bool
  assumes cb: "records_results log cb" and kr: "keeps_record log (snd s)"
  defines "s' \<equiv> osmo_mslookup_request_send_result cb r fin s"
  shows "log (fst s') = log (fst s) @ [(rq_handle r, (rq_result r)\<lparr>ms_last := fin\<rparr>)]"
    and "lookup_methods (snd s') = lookup_methods (snd s)"
    and "get_request (snd s') h =
      (if h \<noteq> rq_handle r then get_request (snd s) h
       else if fin \<or> get_request (snd s) h = None then None
       else Some (r\<lparr>rq_result := (rq_result r)\<lparr>ms_last := fin\<rparr>\<rparr>))"
proof -
  define r' where "r' = r\<lparr>rq_result := (rq_result r)\<lparr>ms_last := fin\<rparr>\<rparr>"
  define s1 where "s1 = cb (rq_handle r) (rq_query r) (rq_result r') (rq_store r' s)"
  have s1: "snd s1 = snd (rq_store r' s)" "log (fst s1) = log (fst s) @ [(rq_handle r, rq_result r')]"
    using cb unfolding s1_def records_results_def by (simp_all del: split_paired_All)
  then have "keeps_record log (snd s1)" using kr keeps_record_methods [of "snd s1" "snd s" log] by simp
  moreover have "s' = (if fin then osmo_mslookup_client_request_cancel (rq_handle r) s1 else s1)"
    by (simp add: s'_def osmo_mslookup_request_send_result_def Let_def r'_def s1_def)
  moreover have "rq_handle r' = rq_handle r" by (simp add: r'_def)
  ultimately show "log (fst s') = log (fst s) @ [(rq_handle r, (rq_result r)\<lparr>ms_last := fin\<rparr>)]"
    and "lookup_methods (snd s') = lookup_methods (snd s)"
    and "get_request (snd s') h =
      (if h \<noteq> rq_handle r then get_request (snd s) h
       else if fin \<or> get_request (snd s) h = None then None
       else Some (r\<lparr>rq_result := (rq_result r)\<lparr>ms_last := fin\<rparr>\<rparr>))"
    by (auto simp: s1 cancel_log cancel_methods get_request_cancel get_request_store r'_def)
qed

text \<open>What the results of one request look like as long as it is open, and after it ended.\<close>

definition results_open :: "osmo_mslookup_client_request \<Rightarrow> osmo_mslookup_result list \<Rightarrow> bool" where
  "results_open r rs \<longleftrightarrow>
     list_all (\<lambda>x. \<not> ms_last x \<and> ms_rc x = OSMO_MSLOOKUP_RC_RESULT) rs \<and>
     sorted_wrt (\<lambda>x y. age y < age x) rs \<and>
     (ms_rc (rq_result r) = OSMO_MSLOOKUP_RC_RESULT \<longrightarrow> list_all (\<lambda>x. age (rq_result r) \<le> age x) rs) \<and>
     (waiting_min_delay r \<or> ms_rc (rq_result r) \<noteq> OSMO_MSLOOKUP_RC_RESULT \<longrightarrow> rs = [])"

definition results_ended :: "osmo_mslookup_result list \<Rightarrow> bool" where
  "results_ended rs \<longleftrightarrow>
     (\<exists>xs l. rs = xs @ [l] \<and> ms_last l \<and> list_all (\<lambda>x. \<not> ms_last x \<and> ms_rc x = OSMO_MSLOOKUP_RC_RESULT) xs) \<and>
     sorted_wrt (\<lambda>x y. age y < age x) (filter (\<lambda>x. ms_rc x = OSMO_MSLOOKUP_RC_RESULT) rs)"

definition request_ok :: "('w \<Rightarrow> (32 word \<times> osmo_mslookup_result) list) \<Rightarrow> 32 word \<Rightarrow> 'w lookup_state \<Rightarrow> bool" where
  "request_ok log h s \<longleftrightarrow> keeps_record log (snd s) \<and>
     (case get_request (snd s) h of
        Some r \<Rightarrow> results_open r (results_of h (log (fst s)))
      | None \<Rightarrow> results_ended (results_of h (log (fst s))))"

lemma list_all_True: "list_all P xs \<Longrightarrow> filter P xs = xs"
  by (induction xs) auto

lemma results_open_end:
  assumes "results_open r rs" and "ms_last l"
    and "ms_rc l = OSMO_MSLOOKUP_RC_RESULT \<Longrightarrow> list_all (\<lambda>x. age l < age x) rs"
  shows "results_ended (rs @ [l])"
proof -
  have "filter (\<lambda>x. ms_rc x = OSMO_MSLOOKUP_RC_RESULT) rs = rs"
    using assms(1) by (auto simp: results_open_def list_all_iff intro!: filter_True)
  then show ?thesis using assms by (auto simp: results_open_def results_ended_def sorted_wrt_append list_all_iff)
qed

lemma store_request_ok:
  assumes "request_ok log h s"
    and "rq_handle r = h \<Longrightarrow> get_request (snd s) h \<noteq> None \<Longrightarrow> results_open r (results_of h (log (fst s)))"
  shows "request_ok log h (rq_store r s)"
  using assms keeps_record_methods [OF store_log(2), of log r s]
  by (cases "get_request (snd s) h") (auto simp: request_ok_def get_request_store)

lemma send_request_ok:
  assumes rec: "records_results log cb" and ok: "request_ok log h s"
    and r: "get_request (snd s) (rq_handle r) \<noteq> None"
    and fin: "rq_handle r = h \<Longrightarrow> fin \<Longrightarrow> results_ended (results_of h (log (fst s)) @ [(rq_result r)\<lparr>ms_last := True\<rparr>])"
    and cont: "rq_handle r = h \<Longrightarrow> \<not> fin \<Longrightarrow>
      results_open (r\<lparr>rq_result := (rq_result r)\<lparr>ms_last := False\<rparr>\<rparr>) (results_of h (log (fst s)) @ [(rq_result r)\<lparr>ms_last := False\<rparr>])"
  shows "request_ok log h (osmo_mslookup_request_send_result cb r fin s)"
proof -
  have kr: "keeps_record log (snd s)" using ok by (simp add: request_ok_def)
  note eff = send_result_effect [OF rec kr]
  show ?thesis
    using ok r fin cont keeps_record_methods [OF eff(2), of log r fin]
    by (cases "get_request (snd s) h"; cases fin) (auto simp: request_ok_def eff(1,3))
qed

lemma rx_result_cases:
  assumes "get_request (snd s) k = Some r"
  obtains "osmo_mslookup_client_rx_result cb k result s = s"
  | fin where "ms_rc result = OSMO_MSLOOKUP_RC_RESULT"
      "ms_rc (rq_result r) = OSMO_MSLOOKUP_RC_RESULT \<longrightarrow> age result < age (rq_result r)"
      "fin \<or> \<not> waiting_min_delay r"
      "osmo_mslookup_client_rx_result cb k result s = osmo_mslookup_request_send_result cb (r\<lparr>rq_result := result\<rparr>) fin s"
  | "ms_rc result = OSMO_MSLOOKUP_RC_RESULT" "waiting_min_delay r"
      "osmo_mslookup_client_rx_result cb k result s = rq_store (r\<lparr>rq_result := result\<rparr>) s"
proof -
  define req where "req = r\<lparr>rq_result := result\<rparr>"
  have rx: "osmo_mslookup_client_rx_result cb k result s =
    (if ms_rc result \<noteq> OSMO_MSLOOKUP_RC_RESULT then s
     else if ms_rc (rq_result r) = OSMO_MSLOOKUP_RC_RESULT \<and> age result \<ge> age (rq_result r) then s
     else if age result = 0 then osmo_mslookup_request_send_result cb req True s
     else if waiting_min_delay r then rq_store req s
     else osmo_mslookup_request_send_result cb req False s)"
    by (simp add: osmo_mslookup_client_rx_result_def assms Let_def req_def)
  consider "osmo_mslookup_client_rx_result cb k result s = s"
    | "ms_rc result = OSMO_MSLOOKUP_RC_RESULT" "ms_rc (rq_result r) = OSMO_MSLOOKUP_RC_RESULT \<longrightarrow> age result < age (rq_result r)"
      "age result = 0"
    | "ms_rc result = OSMO_MSLOOKUP_RC_RESULT" "ms_rc (rq_result r) = OSMO_MSLOOKUP_RC_RESULT \<longrightarrow> age result < age (rq_result r)"
      "age result \<noteq> 0" "waiting_min_delay r"
    | "ms_rc result = OSMO_MSLOOKUP_RC_RESULT" "ms_rc (rq_result r) = OSMO_MSLOOKUP_RC_RESULT \<longrightarrow> age result < age (rq_result r)"
      "age result \<noteq> 0" "\<not> waiting_min_delay r"
    using rx by (metis not_le)
  then show thesis
  proof cases
    case 2
    then have "osmo_mslookup_client_rx_result cb k result s = osmo_mslookup_request_send_result cb req True s"
      unfolding rx by auto
    then show thesis using that(2) [of True] 2 by (simp add: req_def)
  next
    case 3
    then have "osmo_mslookup_client_rx_result cb k result s = rq_store req s" unfolding rx by auto
    then show thesis using that(3) 3 by (simp add: req_def)
  next
    case 4
    then have "osmo_mslookup_client_rx_result cb k result s = osmo_mslookup_request_send_result cb req False s"
      unfolding rx by auto
    then show thesis using that(2) [of False] 4 by (simp add: req_def)
  qed (rule that(1))
qed

lemma results_open_snoc:
  assumes "results_open r rs" and "ms_rc result = OSMO_MSLOOKUP_RC_RESULT"
    and "ms_rc (rq_result r) = OSMO_MSLOOKUP_RC_RESULT \<longrightarrow> age result < age (rq_result r)"
  shows "list_all (\<lambda>x. age result < age x) rs"
  using assms by (force simp: results_open_def list_all_iff)

lemma rx_result_request_ok:
  assumes rec: "records_results log cb" and ok: "request_ok log h s"
  shows "request_ok log h (osmo_mslookup_client_rx_result cb k result s)"
proof (cases "get_request (snd s) k")
  case None
  then show ?thesis using ok by (simp add: osmo_mslookup_client_rx_result_def)
next
  case (Some r)
  have k: "rq_handle r = k" using get_requestD [OF Some] by simp
  have ro: "k = h \<Longrightarrow> results_open r (results_of h (log (fst s)))" using ok Some by (auto simp: request_ok_def)
  show ?thesis
  proof (rule rx_result_cases [OF Some, where cb = cb and result = result])
    fix fin
    assume a: "ms_rc result = OSMO_MSLOOKUP_RC_RESULT"
      "ms_rc (rq_result r) = OSMO_MSLOOKUP_RC_RESULT \<longrightarrow> age result < age (rq_result r)"
      and b: "fin \<or> \<not> waiting_min_delay r"
      and rx: "osmo_mslookup_client_rx_result cb k result s = osmo_mslookup_request_send_result cb (r\<lparr>rq_result := result\<rparr>) fin s"
    have lt: "k = h \<Longrightarrow> list_all (\<lambda>x. age result < age x) (results_of h (log (fst s)))"
      using results_open_snoc [OF ro a] .
    show ?thesis unfolding rx
    proof (rule send_request_ok [OF rec ok])
      assume "rq_handle (r\<lparr>rq_result := result\<rparr>) = h" "fin"
      then show "results_ended (results_of h (log (fst s)) @ [(rq_result (r\<lparr>rq_result := result\<rparr>))\<lparr>ms_last := True\<rparr>])"
        using lt ro k by (intro results_open_end [of r]) auto
    next
      assume "rq_handle (r\<lparr>rq_result := result\<rparr>) = h" "\<not> fin"
      then show "results_open (r\<lparr>rq_result := result, rq_result := (rq_result (r\<lparr>rq_result := result\<rparr>))\<lparr>ms_last := False\<rparr>\<rparr>)
          (results_of h (log (fst s)) @ [(rq_result (r\<lparr>rq_result := result\<rparr>))\<lparr>ms_last := False\<rparr>])"
        using lt ro k a b by (auto simp: results_open_def sorted_wrt_append list_all_iff)
    qed (use Some k in simp)
  next
    assume "ms_rc result = OSMO_MSLOOKUP_RC_RESULT" "waiting_min_delay r"
      and rx: "osmo_mslookup_client_rx_result cb k result s = rq_store (r\<lparr>rq_result := result\<rparr>) s"
    then show ?thesis unfolding rx using ok ro k
      by (intro store_request_ok) (auto simp: results_open_def)
  qed (use ok in simp)
qed

lemma timeout_request_ok:
  assumes rec: "records_results log cb" and ok: "request_ok log h s" and r: "get_request (snd s) k = Some r"
  obtains s' where "timeout_cb cb r s = Ret s'" and "request_ok log h s'"
    and "get_request (snd s') k = None \<or> waiting_min_delay r \<and> (\<exists>r'. get_request (snd s') k = Some r' \<and> \<not> waiting_min_delay r')"
proof -
  have k: "rq_handle r = k" using get_requestD [OF r] by simp
  have kr: "keeps_record log (snd s)" using ok by (simp add: request_ok_def)
  have ro: "k = h \<Longrightarrow> results_open r (results_of h (log (fst s)))" using ok r by (auto simp: request_ok_def)
  show thesis
  proof (cases "waiting_min_delay r \<and> \<not> result_timeout_milliseconds (rq_handling r) \<le> min_wait_milliseconds (rq_handling r)")
    case True
    define r1 where "r1 = r\<lparr>waiting_min_delay := False\<rparr>"
    define s0 where "s0 = rq_store r1 s"
    define s1 where "s1 = (if ms_rc (rq_result r1) = OSMO_MSLOOKUP_RC_RESULT
      then osmo_mslookup_request_send_result cb r1 False s0 else s0)"
    have none: "k = h \<Longrightarrow> results_of h (log (fst s)) = []" using ro True by (simp add: results_open_def)
    have ok0: "request_ok log h s0"
      unfolding s0_def using none by (intro store_request_ok [OF ok]) (auto simp: results_open_def r1_def k)
    have g0: "get_request (snd s0) k = Some r1" "fst s0 = fst s" by (simp_all add: s0_def get_request_store r1_def k r)
    then have "keeps_record log (snd s0)" using ok0 by (simp add: request_ok_def)
    note eff = send_result_effect [OF rec this]
    have ok1: "request_ok log h s1"
      unfolding s1_def using none g0 k
      by (auto intro!: send_request_ok [OF rec ok0] simp: ok0 results_open_def r1_def)
    obtain r2 where g1: "get_request (snd s1) k = Some r2" and w: "\<not> waiting_min_delay r2"
      using g0 k by (cases "ms_rc (rq_result r1) = OSMO_MSLOOKUP_RC_RESULT") (auto simp: s1_def eff r1_def)
    define r3 where "r3 = set_timer r2 (result_timeout_milliseconds (rq_handling r) - min_wait_milliseconds (rq_handling r))"
    have r3: "rq_handle r3 = k" "\<not> waiting_min_delay r3" "rq_result r3 = rq_result r2"
      using get_requestD [OF g1] w by (simp_all add: r3_def set_timer_def)
    have "timeout_cb cb r s = Ret (rq_store r3 s1)"
      using True g1 unfolding timeout_cb_def Let_def r1_def [symmetric] k s0_def [symmetric] s1_def [symmetric]
      by (simp add: r3_def) (simp add: r1_def k)
    moreover have "request_ok log h (rq_store r3 s1)"
      using ok1 g1 r3 w by (intro store_request_ok) (auto simp: request_ok_def results_open_def)
    moreover have "get_request (snd (rq_store r3 s1)) k = Some r3" using g1 r3 by (simp add: get_request_store)
    ultimately show thesis using that True r3 by blast
  next
    case False
    define r1 where "r1 = (let r0 = if waiting_min_delay r then r\<lparr>waiting_min_delay := False\<rparr> else r
      in if ms_rc (rq_result r) \<noteq> OSMO_MSLOOKUP_RC_RESULT
         then r0\<lparr>rq_result := (rq_result r)\<lparr>ms_rc := OSMO_MSLOOKUP_RC_NOT_FOUND\<rparr>\<rparr>
         else if waiting_min_delay r then r0
         else r0\<lparr>rq_result := (rq_result r)\<lparr>ms_rc := OSMO_MSLOOKUP_RC_NONE\<rparr>\<rparr>)"
    define s1 where "s1 = osmo_mslookup_request_send_result cb r1 True s"
    have r1: "rq_handle r1 = k" by (simp add: r1_def Let_def k)
    have "timeout_cb cb r s = Ret s1"
      using False by (auto simp: timeout_cb_def Let_def s1_def r1_def)
    moreover have "request_ok log h s1" unfolding s1_def
    proof (rule send_request_ok [OF rec ok])
      assume "rq_handle r1 = h" "True"
      then show "results_ended (results_of h (log (fst s)) @ [(rq_result r1)\<lparr>ms_last := True\<rparr>])"
        using ro r1 by (intro results_open_end [of r]) (auto simp: r1_def Let_def results_open_def split: if_splits)
    qed (use r r1 in auto)
    moreover have "get_request (snd s1) k = None"
      unfolding s1_def using send_result_effect(3) [OF rec kr, of r1 True k] by (simp add: r1)
    ultimately show thesis using that by blast
  qed
qed

definition open_event :: "lookup_event \<Rightarrow> bool" where
  "open_event e \<longleftrightarrow> (case e of Rx_Result _ _ \<Rightarrow> True | Expire _ \<Rightarrow> True | _ \<Rightarrow> False)"

lemma rx_result_get_request:
  assumes rec: "records_results log cb" and kr: "keeps_record log (snd s)"
    and r': "get_request (snd (osmo_mslookup_client_rx_result cb k result s)) h = Some r'"
  shows "\<exists>r. get_request (snd s) h = Some r \<and> waiting_min_delay r' = waiting_min_delay r"
proof (cases "get_request (snd s) k")
  case (Some r)
  then show ?thesis using r' get_requestD [OF Some]
    by (cases rule: rx_result_cases [OF Some, where cb = cb and result = result])
      (auto simp: send_result_effect [OF rec kr] get_request_store split: if_splits)
qed (use r' in \<open>simp add: osmo_mslookup_client_rx_result_def\<close>)

definition expiries_left :: "32 word \<Rightarrow> 'w osmo_mslookup_client \<Rightarrow> nat" where
  "expiries_left h c = (case get_request c h of None \<Rightarrow> 0 | Some r \<Rightarrow> if waiting_min_delay r then 2 else 1)"

lemma expiries_left_less:
  assumes "\<And>r'. get_request c' h = Some r' \<Longrightarrow> \<exists>r. get_request c h = Some r \<and> waiting_min_delay r' = waiting_min_delay r"
  shows "expiries_left h c' \<le> expiries_left h c"
  using assms by (cases "get_request c' h") (auto simp: expiries_left_def)

lemma timeout_get_other:
  assumes rec: "records_results log cb" and kr: "keeps_record log (snd s)"
    and r: "get_request (snd s) k = Some r" and ret: "timeout_cb cb r s = Ret s'" and h: "h \<noteq> k"
  shows "get_request (snd s') h = get_request (snd s) h"
proof -
  have k: "rq_handle r = k" using get_requestD [OF r] by simp
  have kr0: "keeps_record log (snd (rq_store (r\<lparr>waiting_min_delay := False\<rparr>) s))"
    using kr keeps_record_methods [OF store_log(2), of log] by simp
  note eff = send_result_effect(3) [OF rec kr] send_result_effect(3) [OF rec kr0]
  show ?thesis using ret h k
    by (auto simp: timeout_cb_def Let_def eff get_request_store set_timer_def split: if_splits option.splits
        dest!: get_requestD)
qed

lemma open_step:
  assumes rec: "records_results log cb" and ok: "request_ok log h s" and e: "open_event e"
  obtains s' where "lookup_step L cb e s = Ret s'" "request_ok log h s'"
    "expiries_left h (snd s') \<le> expiries_left h (snd s) - (if e = Expire h then 1 else 0)"
proof -
  have kr: "keeps_record log (snd s)" using ok by (simp add: request_ok_def)
  consider k result where "e = Rx_Result k result" | k where "e = Expire k"
    using e by (auto simp: open_event_def split: lookup_event.splits)
  then show thesis
  proof cases
    case 1
    have "expiries_left h (snd (osmo_mslookup_client_rx_result cb k result s)) \<le> expiries_left h (snd s)"
      by (rule expiries_left_less) (rule rx_result_get_request [OF rec kr])
    then show thesis using that rx_result_request_ok [OF rec ok] 1 by (simp add: lookup_step_def)
  next
    case (2 k)
    show thesis
    proof (cases "get_request (snd s) k")
      case None
      then show thesis using that ok 2 by (cases "k = h") (auto simp: lookup_step_def expiries_left_def)
    next
      case (Some r)
      obtain s' where s': "timeout_cb cb r s = Ret s'" "request_ok log h s'"
        "get_request (snd s') k = None \<or> waiting_min_delay r \<and> (\<exists>r'. get_request (snd s') k = Some r' \<and> \<not> waiting_min_delay r')"
        by (rule timeout_request_ok [OF rec ok Some])
      have "expiries_left h (snd s') \<le> expiries_left h (snd s) - (if e = Expire h then 1 else 0)"
        using s'(3) Some timeout_get_other [OF rec kr Some s'(1), of h] 2
        by (cases "h = k") (auto simp: expiries_left_def)
      then show thesis using that s' 2 Some by (simp add: lookup_step_def)
    qed
  qed
qed

lemma open_run:
  assumes rec: "records_results log cb"
  shows "request_ok log h s \<Longrightarrow> list_all open_event es \<Longrightarrow>
    \<exists>s'. lookup_run L cb es s = Ret s' \<and> request_ok log h s' \<and>
      expiries_left h (snd s') \<le> expiries_left h (snd s) - count_list es (Expire h)"
proof (induction es arbitrary: s)
  case (Cons e es)
  then have "open_event e" "list_all open_event es" by simp_all
  obtain s1 where s1: "lookup_step L cb e s = Ret s1" "request_ok log h s1"
    "expiries_left h (snd s1) \<le> expiries_left h (snd s) - (if e = Expire h then 1 else 0)"
    by (rule open_step [OF rec Cons.prems(1) \<open>open_event e\<close>])
  obtain s2 where "lookup_run L cb es s1 = Ret s2" "request_ok log h s2"
    "expiries_left h (snd s2) \<le> expiries_left h (snd s1) - count_list es (Expire h)"
    using Cons.IH [OF s1(2) \<open>list_all open_event es\<close>] by auto
  then show ?case using s1 by auto
qed simp

lemma start_request_ok:
  assumes kr: "keeps_record log (snd s)"
    and start: "osmo_mslookup_client_request L cb q handling s = (s', h)" and h: "h \<noteq> 0"
    and fresh: "h \<notin> rq_handle ` set (requests (snd s))" and none: "results_of h (log (fst s)) = []"
  shows "request_ok log h s' \<and> expiries_left h (snd s') \<le> 2"
proof -
  define k where "k = (if next_request_handle (snd s) = 0 then next_request_handle (snd s) + 1 else next_request_handle (snd s))"
  define c0 where "c0 = (snd s)\<lparr>next_request_handle := k + 1\<rparr>"
  have valid: "osmo_mslookup_service_valid (service q) \<and> osmo_mslookup_id_valid L (ms_id q)"
    using start h by (auto simp: osmo_mslookup_client_request_def split: if_splits)
  have k: "k = h" using start valid by (auto simp: osmo_mslookup_client_request_def Let_def k_def split: if_splits)
  have find: "List.find (\<lambda>x. rq_handle x = k) (requests c0) = None"
    using fresh by (auto simp: find_None_iff c0_def k)
  obtain r where r: "s' = (fold (\<lambda>m w. m_request m q h w) (lookup_methods c0) (fst s), c0\<lparr>requests := requests c0 @ [r]\<rparr>)"
      "rq_handle r = h" "rq_result r = result_zero"
  proof -
    show thesis
      using start valid unfolding osmo_mslookup_client_request_def Let_def k_def [symmetric] c0_def [symmetric] find
      by (auto intro!: that simp: set_timer_def k split: if_splits)
  qed
  have "log (fst s') = log (fst s)"
    unfolding r using kr by (auto simp: c0_def keeps_record_def intro!: fold_keeps)
  moreover have "get_request (snd s') h = Some r"
    using find h r(2) by (simp add: r(1) get_request_def find_append k)
  moreover have "keeps_record log (snd s')" using kr by (simp add: r(1) c0_def keeps_record_def)
  ultimately show ?thesis using none r(3)
    by (simp add: request_ok_def results_open_def expiries_left_def)
qed

text \<open>
  C26. The results a lookup delivers to a callback that leaves the client alone. Let a request be accepted with a new handle \<open>h\<close>. It is served under
  any sequence of results from the methods and timer expiries, for this or other requests, without
  touching deallocated memory. While it is open, its callback got only successful, non-final
  results. When it has ended, the last thing its callback got is the one result marked as final.
  The successful results that the callback got are each younger than the one before. Two
  expiries of its timer end it in any case. Callbacks that cancel requests are not meant (see \<open>cancel_in_callback_faults\<close>), and no request is
  started or cancelled by others meanwhile. A result that says only that nothing has been found yet, which the documentation promises after
  the minimum delay, is not among the results: the code sends none.
\<close>

theorem lookup_results_delivered:
  assumes "records_results log cb" and "keeps_record log (snd s0)"
    and "osmo_mslookup_client_request L cb q handling s0 = (s, h)" and "h \<noteq> 0"
    and "h \<notin> rq_handle ` set (requests (snd s0))" and "results_of h (log (fst s0)) = []"
    and "list_all open_event es"
  shows "\<exists>s' rs. lookup_run L cb es s = Ret s' \<and> rs = results_of h (log (fst s')) \<and>
     (get_request (snd s') h \<noteq> None \<longrightarrow> list_all (\<lambda>x. \<not> ms_last x \<and> ms_rc x = OSMO_MSLOOKUP_RC_RESULT) rs) \<and>
     (get_request (snd s') h = None \<longrightarrow>
        (\<exists>xs l. rs = xs @ [l] \<and> ms_last l \<and> list_all (\<lambda>x. \<not> ms_last x \<and> ms_rc x = OSMO_MSLOOKUP_RC_RESULT) xs)) \<and>
     sorted_wrt (\<lambda>x y. age y < age x) (filter (\<lambda>x. ms_rc x = OSMO_MSLOOKUP_RC_RESULT) rs) \<and>
     (2 \<le> count_list es (Expire h) \<longrightarrow> get_request (snd s') h = None)"
proof -
  have ok: "request_ok log h s" and two: "expiries_left h (snd s) \<le> 2"
    using start_request_ok [OF assms(2-6)] by simp_all
  obtain s' where run: "lookup_run L cb es s = Ret s'" and ok': "request_ok log h s'"
    and left: "expiries_left h (snd s') \<le> expiries_left h (snd s) - count_list es (Expire h)"
    using open_run [OF assms(1) ok assms(7)] by blast
  have "2 \<le> count_list es (Expire h) \<Longrightarrow> get_request (snd s') h = None"
    using two left by (auto simp: expiries_left_def split: option.splits if_splits)
  then show ?thesis using run ok'
    by (cases "get_request (snd s') h")
      (auto simp: request_ok_def results_open_def results_ended_def sorted_wrt_filter)
qed

lemma request_started:
  assumes "osmo_mslookup_client_request L cb q handling s0 = (s, h)" and "h \<noteq> 0" and "h \<notin> rq_handle ` set (requests (snd s0))"
    and "0 < min_wait_milliseconds handling" and "0 < result_timeout_milliseconds handling"
  shows "\<exists>r. get_request (snd s) h = Some r \<and> rq_handle r = h \<and> waiting_min_delay r \<and> rq_result r = result_zero \<and> rq_handling r = handling"
proof -
  define k where "k = (if next_request_handle (snd s0) = 0 then next_request_handle (snd s0) + 1 else next_request_handle (snd s0))"
  define c0 where "c0 = (snd s0)\<lparr>next_request_handle := k + 1\<rparr>"
  have valid: "osmo_mslookup_service_valid (service q) \<and> osmo_mslookup_id_valid L (ms_id q)"
    using assms(1,2) by (auto simp: osmo_mslookup_client_request_def split: if_splits)
  have k: "k = h" using assms(1) valid by (auto simp: osmo_mslookup_client_request_def Let_def k_def split: if_splits)
  have find: "List.find (\<lambda>x. rq_handle x = k) (requests c0) = None" using assms(3) by (auto simp: find_None_iff c0_def k)
  obtain r where "snd s = c0\<lparr>requests := requests c0 @ [r]\<rparr>" "rq_handle r = h" "waiting_min_delay r" "rq_result r = result_zero" "rq_handling r = handling"
  proof -
    show thesis
      using assms(1,4,5) valid unfolding osmo_mslookup_client_request_def Let_def k_def [symmetric] c0_def [symmetric] find
      by (auto intro!: that simp: set_timer_def k split: if_splits)
  qed
  then show ?thesis using find assms(2) by (intro exI [of _ r]) (simp add: get_request_def find_append k)
qed

text \<open>
  C25. A callback must not cancel its own request, although the documentation tells to do so in order to stop receiving results. Let a request be accepted
  with a minimum delay that is shorter than its timeout, and let its callback cancel the request it is called for. When a result that is not fresh
  arrives during the delay and the timer expires, the timer function goes on to use the request after its deallocation.
\<close>
theorem cancel_in_callback_faults:
  assumes "osmo_mslookup_client_request L cb q handling s0 = (s, h)" and "h \<noteq> 0" and "h \<notin> rq_handle ` set (requests (snd s0))"
    and "0 < min_wait_milliseconds handling" and "min_wait_milliseconds handling < result_timeout_milliseconds handling"
    and "ms_rc result = OSMO_MSLOOKUP_RC_RESULT" and "age result \<noteq> 0"
    and "cb = (\<lambda>h q result s. osmo_mslookup_client_request_cancel h s)"
  shows "lookup_run L cb [Rx_Result h result, Expire h] s = Fault"
proof -
  obtain r where r: "get_request (snd s) h = Some r" "rq_handle r = h" "waiting_min_delay r" "rq_result r = result_zero" "rq_handling r = handling"
    using request_started [OF assms(1-4)] assms(5) by auto
  let ?r = "r\<lparr>rq_result := result\<rparr>"
  have st: "get_request (snd (rq_store x t)) h = Some x" if "get_request (snd t) h \<noteq> None" "rq_handle x = h" for x and t :: "'a lookup_state"
  proof -
    have "List.find (\<lambda>y. rq_handle y = h) (map (\<lambda>y. if rq_handle y = h then x else y) ys) = Some x" if "h \<in> rq_handle ` set ys" for ys
      using that \<open>rq_handle x = h\<close> by (induction ys) auto
    moreover have "h \<in> rq_handle ` set (requests (snd t))" using that(1) by (simp add: get_request_None [OF assms(2)])
    ultimately show ?thesis using that(2) assms(2) by (simp add: get_request_def rq_store_def)
  qed
  have rx: "osmo_mslookup_client_rx_result cb h result s = rq_store ?r s"
    using r assms(6,7) by (simp add: osmo_mslookup_client_rx_result_def result_zero_def)
  have "get_request (snd (osmo_mslookup_client_request_cancel h t)) h = None" for t :: "'a lookup_state"
    using assms(2) by (auto simp: get_request_None cancel_requests)
  then have "timeout_cb cb ?r t = Fault" for t
    using r assms(5,6,8) by (simp add: timeout_cb_def osmo_mslookup_request_send_result_def Let_def)
  then show ?thesis using rx st [of s ?r] r(1,2) by (simp add: lookup_step_def)
qed

definition log_cb :: "((32 word \<times> osmo_mslookup_result) list) result_cb" where
  "log_cb h q result s = (fst s @ [(h, result)], snd s)"

definition demo_query :: osmo_mslookup_query where
  "demo_query = \<lparr>service = ''gsup.hlr'', ms_id = \<lparr>id_type = OSMO_MSLOOKUP_ID_IMSI, id_digits = ''123456''\<rparr>\<rparr>"

theorem lookup_results_delivered_witness:
  "\<exists>s' rs. lookup_run ref_core log_cb [Expire 1, Expire 1]
       (fst (osmo_mslookup_client_request ref_core log_cb demo_query
          \<lparr>min_wait_milliseconds = 1, result_timeout_milliseconds = 2\<rparr> ([], osmo_mslookup_client_new))) = Ret s' \<and>
     rs = results_of 1 (fst s') \<and> get_request (snd s') 1 = None \<and> (\<exists>xs l. rs = xs @ [l] \<and> ms_last l)"
proof -
  define hd where "hd = \<lparr>min_wait_milliseconds = 1, result_timeout_milliseconds = 2\<rparr>"
  define s0 :: "(32 word \<times> osmo_mslookup_result) list lookup_state" where "s0 = ([], osmo_mslookup_client_new)"
  have "snd (osmo_mslookup_client_request ref_core log_cb demo_query hd s0) = 1"
    by (simp add: osmo_mslookup_client_request_def demo_query_def s0_def osmo_mslookup_client_new_def hd_def Let_def
        osmo_mslookup_service_valid_def osmo_mslookup_id_valid_def ref_core_def is_digit_def octet_val_def)
  then have "osmo_mslookup_client_request ref_core log_cb demo_query hd s0 =
      (fst (osmo_mslookup_client_request ref_core log_cb demo_query hd s0), 1)"
    by (metis prod.collapse)
  moreover have "records_results (\<lambda>w. w) log_cb" by (simp add: records_results_def log_cb_def)
  ultimately show ?thesis
    using lookup_results_delivered [of "\<lambda>w. w" log_cb s0 ref_core demo_query hd _ 1 "[Expire 1, Expire 1]"]
    by (fastforce simp: s0_def hd_def osmo_mslookup_client_new_def keeps_record_def results_of_def open_event_def)
qed

theorem cancel_in_callback_faults_witness:
  "lookup_run ref_core (\<lambda>h q result s. osmo_mslookup_client_request_cancel h s)
     [Rx_Result 1 (result_zero\<lparr>ms_rc := OSMO_MSLOOKUP_RC_RESULT, age := 5\<rparr>), Expire 1]
     (fst (osmo_mslookup_client_request ref_core (\<lambda>h q result s. osmo_mslookup_client_request_cancel h s) demo_query
        \<lparr>min_wait_milliseconds = 1, result_timeout_milliseconds = 2\<rparr> ((), osmo_mslookup_client_new))) = Fault"
proof -
  let ?cb = "\<lambda>h q result s. osmo_mslookup_client_request_cancel h (s :: unit lookup_state)"
  let ?hd = "\<lparr>min_wait_milliseconds = 1, result_timeout_milliseconds = 2\<rparr> :: osmo_mslookup_query_handling"
  have "snd (osmo_mslookup_client_request ref_core ?cb demo_query ?hd ((), osmo_mslookup_client_new)) = 1"
    by (simp add: osmo_mslookup_client_request_def demo_query_def osmo_mslookup_client_new_def Let_def
        osmo_mslookup_service_valid_def osmo_mslookup_id_valid_def ref_core_def is_digit_def octet_val_def)
  then have "osmo_mslookup_client_request ref_core ?cb demo_query ?hd ((), osmo_mslookup_client_new) =
      (fst (osmo_mslookup_client_request ref_core ?cb demo_query ?hd ((), osmo_mslookup_client_new)), 1)" by (metis prod.collapse)
  from cancel_in_callback_faults [OF this] show ?thesis by (simp add: osmo_mslookup_client_new_def)
qed

end
