(* ===== verification/Dgsm.thy ===== *)
theory Dgsm
  imports Proxy Mslookup_Client
begin

text \<open>
  Distributed GSM: \<open>src/dgsm.c\<close>. A request for a subscriber the local database does not
  know goes to the proxy, and a lookup of the home HLR of the subscriber is started. The state is the pair of the
  state of the HLR and its lookup client; the callback of the lookup acts on both. The running mDNS method of the
  client is represented by the address and domain suffix it was started with.
\<close>

section \<open>Operations\<close>

definition OSMO_MSLOOKUP_SERVICE_HLR_GSUP :: string where
  "OSMO_MSLOOKUP_SERVICE_HLR_GSUP = ''gsup.hlr''"

definition resolve_hlr_result_cb ::
  "osmo_core \<Rightarrow> gsup_lib \<Rightarrow> oap_lib \<Rightarrow> net \<Rightarrow> 'a dgsm_world_scheme result_cb" where
  "resolve_hlr_result_cb L G P net request_handle query result s =
     (let w = fst s; imsi = id_digits (ms_id query)
      in if id_type (ms_id query) \<noteq> OSMO_MSLOOKUP_ID_IMSI then s
         else if ms_rc result \<noteq> OSMO_MSLOOKUP_RC_RESULT then (fst (proxy_subscr_del G imsi w), snd s)
         else if \<not> osmo_sockaddr_str_is_nonzero L (host_v4 result) \<and> \<not> osmo_sockaddr_str_is_nonzero L (host_v6 result)
         then (fst (proxy_subscr_del G imsi w), snd s)
         else
           let addr = (if osmo_sockaddr_str_is_nonzero L (host_v4 result) then host_v4 result else host_v6 result)
           in (case proxy_subscr_get_by_imsi imsi w of
                 Inl _ \<Rightarrow> s
               | Inr p \<Rightarrow> (proxy_subscr_remote_hlr_resolved L G P net p addr w, snd s)))"

definition dgsm_check_forward_gsup_msg ::
  "osmo_core \<Rightarrow> gsup_lib \<Rightarrow> oap_lib \<Rightarrow> sqlite_env \<Rightarrow> net \<Rightarrow> osmo_gsup_req \<Rightarrow> 'a dgsm_world_scheme lookup_state
     \<Rightarrow> ('a dgsm_world_scheme lookup_state \<times> bool) exec" where
  \<comment> \<open>the error path of a failed lookup request hands the IMSI stored in the request to \<open>proxy_subscr_del\<close>, which reads it after
    the request is deallocated\<close>
  "dgsm_check_forward_gsup_msg L G P E net req s =
     (let w = fst s; imsi = g_imsi (req_gsup req)
      in if db_subscr_exists_by_imsi E imsi (dbc w) = 0 then Ret (s, False)
         else (case proxy_subscr_get_by_imsi imsi w of
                 Inr p \<Rightarrow> Ret ((fst (proxy_subscr_forward_to_remote_hlr L G P net p req w), snd s), True)
               | Inl _ \<Rightarrow>
                   let p = proxy_subscr_zero\<lparr>pr_imsi := strlcpy IMSI_BUF_SIZE imsi\<rparr>
                   in (case proxy_subscr_create_or_update p w of
                         (w, rc) \<Rightarrow>
                           if rc \<noteq> 0 then Ret ((respond_err G req GMM_CAUSE_NET_FAIL w, snd s), True)
                           else if osmo_sockaddr_str_is_nonzero L (gsup_gateway_proxy w) then
                             let w = proxy_subscr_remote_hlr_resolved L G P net p (gsup_gateway_proxy w) w
                             in (case proxy_subscr_get_by_imsi imsi w of
                                   Inl _ \<Rightarrow> Ret ((respond_err G req GMM_CAUSE_NET_FAIL w, snd s), True)
                                 | Inr p \<Rightarrow> Ret ((fst (proxy_subscr_forward_to_remote_hlr L G P net p req w), snd s), True))
                           else if \<not> osmo_mslookup_client_active (Some (snd s)) then Ret ((w, snd s), False)
                           else (case proxy_subscr_forward_to_remote_hlr L G P net p req w of
                                   (w, rc) \<Rightarrow>
                                     if rc \<noteq> 0 then Ret ((w, snd s), True)
                                     else
                                       let query = \<lparr>service = OSMO_MSLOOKUP_SERVICE_HLR_GSUP,
                                             ms_id = \<lparr>id_type = OSMO_MSLOOKUP_ID_IMSI, id_digits = strlcpy ID_BUF_SIZE imsi\<rparr>\<rparr>;
                                           handling = \<lparr>min_wait_milliseconds = client_result_timeout_milliseconds w,
                                             result_timeout_milliseconds = 0\<rparr>
                                       in (case osmo_mslookup_client_request L (resolve_hlr_result_cb L G P net) query handling (w, snd s) of
                                             (s, request_handle) \<Rightarrow>
                                               if request_handle = 0 then Fault else Ret (s, True))))))"

section \<open>Configuration of the mDNS client\<close>

record mdns_client_cfg =
  allow_startup :: bool
  client_enable :: bool
  mdns_enable :: bool
  query_addr :: osmo_sockaddr_str
  domain_suffix :: string
  mdns_running :: "(osmo_sockaddr_str \<times> string) option"

definition dgsm_mdns_client_config_apply :: "osmo_core \<Rightarrow> bool \<Rightarrow> mdns_client_cfg \<Rightarrow> mdns_client_cfg" where
  \<comment> \<open>\<open>add_ok\<close>: \<open>osmo_mslookup_client_add_mdns\<close> returns a method\<close>
  "dgsm_mdns_client_config_apply L add_ok c =
     (let should_run = allow_startup c \<and> client_enable c \<and> mdns_enable c;
          should_stop = (case mdns_running c of
             None \<Rightarrow> False
           | Some (current_bind_addr, current_domain_suffix) \<Rightarrow>
               \<not> should_run \<or> osmo_sockaddr_str_cmp L (query_addr c) current_bind_addr \<noteq> 0 \<or>
               strcmp (domain_suffix c) current_domain_suffix \<noteq> 0);
          c = (if should_stop then c\<lparr>mdns_running := None\<rparr> else c)
      in if should_run \<and> mdns_running c = None
         then c\<lparr>mdns_running := if add_ok then Some (query_addr c, domain_suffix c) else None\<rparr> else c)"

definition dgsm_start :: "osmo_core \<Rightarrow> bool \<Rightarrow> mdns_client_cfg \<Rightarrow> mdns_client_cfg" where
  \<comment> \<open>the part on the mDNS client\<close>
  "dgsm_start L add_ok c = dgsm_mdns_client_config_apply L add_ok (c\<lparr>allow_startup := True\<rparr>)"

definition dgsm_stop :: "osmo_core \<Rightarrow> mdns_client_cfg \<Rightarrow> mdns_client_cfg" where
  "dgsm_stop L c = dgsm_mdns_client_config_apply L False (c\<lparr>allow_startup := False\<rparr>)"

section \<open>The lookup client of the HLR\<close>

lemma resolve_cb_snd [simp]: "snd (resolve_hlr_result_cb L G P net h q r s) = snd s"
  by (simp add: resolve_hlr_result_cb_def Let_def split: sum.split)

interpretation dgsm_cb: passive_callback "resolve_hlr_result_cb L G P net" for L G P net
  by unfold_locales simp

text \<open>
  The lookup client of the HLR stays well formed whatever happens to it: for every sequence of new
  requests, cancellations, results and timer expiries, whatever the handle counter wraps
  around to, no request is used after its deallocation, and the open
  requests have distinct handles, none of them zero, and each has its timer running.
\<close>
theorem hlr_lookup_client_sound:
  "\<exists>s. lookup_run L (resolve_hlr_result_cb L G P net) es (w, osmo_mslookup_client_new\<lparr>next_request_handle := h\<rparr>) = Ret s \<and>
     distinct (map rq_handle (requests (snd s))) \<and>
     list_all (\<lambda>r. rq_handle r \<noteq> 0 \<and> rq_timer r \<noteq> None) (requests (snd s))"
proof -
  obtain s where s: "lookup_run L (resolve_hlr_result_cb L G P net) es (w, osmo_mslookup_client_new\<lparr>next_request_handle := h\<rparr>) = Ret s"
    using dgsm_cb.run_no_fault by blast
  have "client_inv (snd s)"
    by (rule dgsm_cb.run_inv [OF _ s]) (simp add: client_inv_def osmo_mslookup_client_new_def)
  with s show ?thesis by (auto simp: client_inv_def rq_ok_def list_all_iff)
qed

section \<open>Requests for unknown subscribers\<close>

lemma resolve_cb_quiet: "proxy_inv (fst s) \<Longrightarrow> proxy_quiet (fst s) (fst (resolve_hlr_result_cb L G P net h q r s))"
  by (simp add: resolve_hlr_result_cb_def Let_def del_quiet resolved_quiet split: sum.split)

definition methods_quiet :: "'a dgsm_world_scheme osmo_mslookup_client \<Rightarrow> bool" where
  \<comment> \<open>the lookup methods of the client leave requests and proxy alone\<close>
  "methods_quiet c \<longleftrightarrow> (\<forall>m \<in> set (lookup_methods c).
     (\<forall>q h w. proxy_inv w \<longrightarrow> proxy_quiet w (m_request m q h w)) \<and>
     (\<forall>f h w. m_request_cleanup m = Some f \<longrightarrow> proxy_inv w \<longrightarrow> proxy_quiet w (f h w)))"

lemma fold_methods_quiet:
  assumes "\<And>m w. m \<in> set ms \<Longrightarrow> proxy_inv w \<Longrightarrow> proxy_quiet w (f m w)"
  shows "proxy_inv w \<Longrightarrow> proxy_quiet w (fold f ms w)"
  using assms
proof (induction ms arbitrary: w)
  case (Cons m ms)
  have q: "proxy_quiet w (f m w)" using Cons.prems by simp
  from Cons.IH [OF pq_inv [OF q]] Cons.prems(2) show ?case using pq_trans [OF q] by simp
qed simp

lemma cancel_quiet:
  "methods_quiet (snd s) \<Longrightarrow> proxy_inv (fst s) \<Longrightarrow> proxy_quiet (fst s) (fst (osmo_mslookup_client_request_cancel h s))"
  by (auto simp: osmo_mslookup_client_request_cancel_def osmo_mslookup_client_request_cleanup_def prod.case_eq_if
      methods_quiet_def split: option.splits intro!: fold_methods_quiet)

lemma send_result_quiet:
  assumes m: "methods_quiet (snd s)" and inv: "proxy_inv (fst s)"
  shows "proxy_quiet (fst s) (fst (osmo_mslookup_request_send_result (resolve_hlr_result_cb L G P net) r fin s))"
proof -
  define r' where "r' = r\<lparr>rq_result := (rq_result r)\<lparr>ms_last := fin\<rparr>\<rparr>"
  define s1 where "s1 = resolve_hlr_result_cb L G P net (rq_handle r') (rq_query r') (rq_result r') (rq_store r' s)"
  have q: "proxy_quiet (fst s) (fst s1)" unfolding s1_def
    using resolve_cb_quiet [of "rq_store r' s"] inv by simp
  have "methods_quiet (snd s1)" using m by (simp add: s1_def methods_quiet_def)
  with pq_trans [OF q cancel_quiet [OF this pq_inv [OF q]]] q show ?thesis
    by (simp add: osmo_mslookup_request_send_result_def Let_def r'_def [symmetric] s1_def [symmetric])
qed

lemma lookup_request_quiet:
  assumes m: "methods_quiet (snd s)" and inv: "proxy_inv (fst s)"
  shows "proxy_quiet (fst s) (fst (fst (osmo_mslookup_client_request L (resolve_hlr_result_cb L G P net) q handling s)))"
proof (cases "osmo_mslookup_service_valid (service q) \<and> osmo_mslookup_id_valid L (ms_id q)")
  case True
  let ?cb = "resolve_hlr_result_cb L G P net"
  define h where "h = (if next_request_handle (snd s) = 0 then next_request_handle (snd s) + 1 else next_request_handle (snd s))"
  define c0 where "c0 = (snd s)\<lparr>next_request_handle := h + 1\<rparr>"
  define s1 where "s1 = (case List.find (\<lambda>x. rq_handle x = h) (requests c0) of
     None \<Rightarrow> (fst s, c0) | Some other \<Rightarrow> osmo_mslookup_request_send_result ?cb other True (fst s, c0))"
  have m0: "methods_quiet (snd (fst s, c0))" using m by (simp add: c0_def methods_quiet_def)
  have sr: "lookup_methods (snd (osmo_mslookup_request_send_result ?cb r True (fst s, c0))) = lookup_methods c0" for r
    by (simp add: osmo_mslookup_request_send_result_def Let_def cancel_methods)
  have q1: "proxy_quiet (fst s) (fst s1)" and m1: "lookup_methods (snd s1) = lookup_methods c0"
    using send_result_quiet [OF m0] inv sr by (simp_all add: s1_def split: option.split)
  have "proxy_quiet (fst s1) (fold (\<lambda>m w. m_request m q h w) (lookup_methods c0) (fst s1))"
    using m pq_inv [OF q1] by (intro fold_methods_quiet) (auto simp: methods_quiet_def c0_def)
  from pq_trans [OF q1 this] show ?thesis
    using True unfolding osmo_mslookup_client_request_def Let_def h_def [symmetric] c0_def [symmetric] s1_def [symmetric]
    by (simp add: m1)
qed (use inv in \<open>auto simp: osmo_mslookup_client_request_def\<close>)

definition untouched :: "'a dgsm_world_scheme \<Rightarrow> 'a dgsm_world_scheme \<Rightarrow> bool" where
  \<comment> \<open>nothing happened to any request\<close>
  "untouched s t \<longleftrightarrow> proxy_frame s t \<and> proxy_inv t \<and> pend t = pend s \<and> dgsm_world.more t = dgsm_world.more s \<and>
     (\<forall>nr. freed nr (gs t) = freed nr (gs s))"

lemma create_untouched: "proxy_inv s \<Longrightarrow> untouched s (fst (proxy_subscr_create_or_update p s))"
  using create_or_update_quiet [of s p] pq_frame pq_inv
  by (auto simp: untouched_def proxy_subscr_create_or_update_def Let_def set_subscr_list_def split: option.splits)

lemma request_nonzero:
  "osmo_mslookup_service_valid (service q) \<Longrightarrow> osmo_mslookup_id_valid L (ms_id q) \<Longrightarrow>
     snd (osmo_mslookup_client_request L cb q handling s) \<noteq> 0"
  by (auto simp: osmo_mslookup_client_request_def Let_def)

lemma dgsm_check_outcome:
  assumes L: "lib_strings_ok L" and inv: "proxy_inv (fst s)" and m: "methods_quiet (snd s)"
    and fresh: "req_nr req \<notin> proxy_held (fst s)" and imsi: "osmo_imsi_str_valid L (g_imsi (req_gsup req))"
  shows "\<exists>s' handled. dgsm_check_forward_gsup_msg L G P E net req s = Ret (s', handled) \<and>
    (if handled then proxy_took (req_nr req) (fst s) (fst s') else untouched (fst s) (fst s'))"
proof -
  define w where "w = fst s"
  define p where "p = proxy_subscr_zero\<lparr>pr_imsi := strlcpy IMSI_BUF_SIZE (g_imsi (req_gsup req))\<rparr>"
  obtain w1 rc where w1: "proxy_subscr_create_or_update p w = (w1, rc)" by fastforce
  have q1: "proxy_quiet w w1" and u1: "untouched w w1"
    using create_or_update_quiet [of w p] create_untouched [of w p] inv w1 by (simp_all add: w_def)
  have i1: "proxy_inv w1" and f1: "req_nr req \<notin> proxy_held w1"
    using pq_inv [OF q1] pq_held [OF q1] fresh by (auto simp: w_def)
  define w2 where "w2 = proxy_subscr_remote_hlr_resolved L G P net p (gsup_gateway_proxy w1) w1"
  have q2: "proxy_quiet w1 w2" using resolved_quiet [OF i1] by (simp add: w2_def)
  have i2: "proxy_inv w2" and f2: "req_nr req \<notin> proxy_held w2" using pq_inv [OF q2] pq_held [OF q2] f1 by auto
  obtain w3 rc3 where w3: "proxy_subscr_forward_to_remote_hlr L G P net p req w1 = (w3, rc3)" by fastforce
  have t3: "proxy_took (req_nr req) w1 w3" using forward_took [OF i1 f1] w3 by (metis fst_conv)
  define q where "q = \<lparr>service = OSMO_MSLOOKUP_SERVICE_HLR_GSUP,
    ms_id = \<lparr>id_type = OSMO_MSLOOKUP_ID_IMSI, id_digits = strlcpy ID_BUF_SIZE (g_imsi (req_gsup req))\<rparr>\<rparr>"
  have len: "length (g_imsi (req_gsup req)) \<le> 15" using imsi L unfolding lib_strings_ok_def by blast
  have qv: "osmo_mslookup_service_valid (service q)" "osmo_mslookup_id_valid L (ms_id q)"
    using imsi len by (simp_all add: q_def osmo_mslookup_service_valid_def osmo_mslookup_id_valid_def OSMO_MSLOOKUP_SERVICE_HLR_GSUP_def)
  obtain s4 h where s4: "osmo_mslookup_client_request L (resolve_hlr_result_cb L G P net) q
      \<lparr>min_wait_milliseconds = client_result_timeout_milliseconds w3, result_timeout_milliseconds = 0\<rparr> (w3, snd s) = (s4, h)"
    by fastforce
  have h: "h \<noteq> 0" using request_nonzero [OF qv] s4 by (metis snd_conv)
  have q4: "proxy_quiet w3 (fst s4)"
    using lookup_request_quiet [of "(w3, snd s)"] m took_inv [OF t3] s4 by (metis fst_conv snd_conv)
  note t4 = pq_took [OF q1 took_pq [OF t3 q4]]
  have fr: "req_nr req \<notin> proxy_held w" using fresh by (simp add: w_def)
  note e = pq_took [OF q1 err_took [OF i1 f1] fr] pq_took [OF q1 t3 fr] t4 [OF fr]
    pq_took [OF pq_trans [OF q1 q2] err_took [OF i2 f2] fr] pq_took [OF pq_trans [OF q1 q2] forward_took [OF i2 f2] fr]
    forward_took [OF inv [folded w_def] fr]
  have u: "untouched w w" using inv by (simp add: untouched_def w_def)
  define ok where "ok = (\<lambda>x. \<exists>s' handled. x = Ret (s', handled) \<and>
    (if handled then proxy_took (req_nr req) w (fst s') else untouched w (fst (s' :: 'a dgsm_world_scheme lookup_state))))"
  have ok: "ok (Ret (s', True)) = proxy_took (req_nr req) w (fst s')" "ok (Ret (s', False)) = untouched w (fst s')" for s'
    by (cases s', auto simp: ok_def)+
  have "ok (dgsm_check_forward_gsup_msg L G P E net req s)"
    unfolding dgsm_check_forward_gsup_msg_def Let_def w_def [symmetric] p_def [symmetric] w1 prod.case w2_def [symmetric] w3
      q_def [symmetric] s4
    using e u u1 h by (simp add: ok w_def [symmetric] split: sum.split)
  then show ?thesis unfolding ok_def w_def .
qed

lemma mdns_client_runs_as_configured:
  assumes "\<And>a b. osmo_sockaddr_str_cmp L a b = 0 \<longleftrightarrow> a = b"
  shows "mdns_running (dgsm_mdns_client_config_apply L True c) =
    (if allow_startup c \<and> client_enable c \<and> mdns_enable c then Some (query_addr c, domain_suffix c) else None)"
  using assms by (auto simp: dgsm_mdns_client_config_apply_def Let_def cmp_simps split: option.splits)

end
