(* ===== verification/Mdns_Rfc.thy ===== *)
theory Mdns_Rfc
  imports Osmo_Core
begin

text \<open>
  The DNS wire format: \<open>src/mslookup/mdns_rfc.c\<close> and \<open>mdns_rfc.h\<close>. A message buffer is the
  list of its octets; encoding appends to it (the buffers are large enough for a name and
  its data). Decoding reads from a list \<open>mem\<close> of octets; an access outside of it, or outside
  of the local buffer of 256 octets, is \<open>Fault\<close>. A \<open>char\<close> is signed, as on x86: the length
  octet of a label is read by \<open>schar_val\<close>, and sizes are taken modulo \<open>2 ^ 64\<close> where the
  code computes in \<open>size_t\<close>.
\<close>

section \<open>Data\<close>

abbreviation (input) OSMO_MDNS_RFC_MAX_NAME_LEN :: nat where "OSMO_MDNS_RFC_MAX_NAME_LEN \<equiv> 255"
abbreviation (input) OSMO_MDNS_RFC_MAX_CHARACTER_STRING_LEN :: nat where
  "OSMO_MDNS_RFC_MAX_CHARACTER_STRING_LEN \<equiv> 256"
abbreviation (input) OSMO_MDNS_RFC_RECORD_TYPE_A :: "16 word" where "OSMO_MDNS_RFC_RECORD_TYPE_A \<equiv> 1"
abbreviation (input) OSMO_MDNS_RFC_RECORD_TYPE_TXT :: "16 word" where "OSMO_MDNS_RFC_RECORD_TYPE_TXT \<equiv> 16"
abbreviation (input) OSMO_MDNS_RFC_RECORD_TYPE_AAAA :: "16 word" where "OSMO_MDNS_RFC_RECORD_TYPE_AAAA \<equiv> 28"
abbreviation (input) OSMO_MDNS_RFC_RECORD_TYPE_ALL :: "16 word" where "OSMO_MDNS_RFC_RECORD_TYPE_ALL \<equiv> 255"
abbreviation (input) OSMO_MDNS_RFC_CLASS_IN :: "16 word" where "OSMO_MDNS_RFC_CLASS_IN \<equiv> 1"
abbreviation (input) OSMO_MDNS_RFC_CLASS_ALL :: "16 word" where "OSMO_MDNS_RFC_CLASS_ALL \<equiv> 255"

record osmo_mdns_rfc_header =
  hdr_id :: "16 word"
  hdr_rd :: bool
  hdr_tc :: bool
  hdr_aa :: bool
  hdr_opcode :: "4 word"
  hdr_qr :: bool
  hdr_rcode :: "4 word"
  hdr_z :: "3 word"
  hdr_ra :: bool
  hdr_qdcount :: "16 word"
  hdr_ancount :: "16 word"
  hdr_nscount :: "16 word"
  hdr_arcount :: "16 word"

definition header_zero :: osmo_mdns_rfc_header where
  "header_zero = \<lparr>hdr_id = 0, hdr_rd = False, hdr_tc = False, hdr_aa = False, hdr_opcode = 0,
     hdr_qr = False, hdr_rcode = 0, hdr_z = 0, hdr_ra = False, hdr_qdcount = 0, hdr_ancount = 0,
     hdr_nscount = 0, hdr_arcount = 0\<rparr>"

record osmo_mdns_rfc_question =
  qst_domain :: string
  qst_qtype :: "16 word"
  qst_qclass :: "16 word"

record osmo_mdns_rfc_record =
  rec_domain :: string
  rec_type :: "16 word"
  rec_class :: "16 word"
  rec_ttl :: "32 word"
  rec_rdlength :: "16 word"
  rec_rdata :: octets

section \<open>Names\<close>

fun strsep_dots :: "string \<Rightarrow> string list" where
  \<comment> \<open>the labels the calls of \<open>strsep\<close> with a dot yield one after the other\<close>
  "strsep_dots [] = [[]]"
| "strsep_dots (c # cs) =
     (if c = CHR ''.'' then [] # strsep_dots cs
      else (case strsep_dots cs of [] \<Rightarrow> [[c]] | l # ls \<Rightarrow> (c # l) # ls))"

fun qname_encode_labels :: "osmo_core \<Rightarrow> osmo_strbuf \<Rightarrow> string list \<Rightarrow> osmo_strbuf option" where
  "qname_encode_labels L sb [] = Some sb"
| "qname_encode_labels L sb (label # ls) =
     (if length label = 0 then None
      else qname_encode_labels L (strbuf_printf L sb (char_of (length label) # label)) ls)"

definition osmo_mdns_rfc_qname_encode :: "osmo_core \<Rightarrow> string \<Rightarrow> string option" where
  "osmo_mdns_rfc_qname_encode L domain =
     (if length domain > OSMO_MDNS_RFC_MAX_NAME_LEN then None
      else map_option sb_out
        (qname_encode_labels L
           \<lparr>sb_size = OSMO_MDNS_RFC_MAX_NAME_LEN + 2, sb_out = [], sb_chars_needed = 0\<rparr>
           (strsep_dots domain)))"

abbreviation (input) SIZE_MOD :: int where "SIZE_MOD \<equiv> 0x10000000000000000"

function qname_decode_loop ::
  "octets \<Rightarrow> int \<Rightarrow> nat \<Rightarrow> nat \<Rightarrow> string \<Rightarrow> string option exec" where
  \<comment> \<open>\<open>pos\<close>: offset of \<open>qname\<close> in \<open>mem\<close>; \<open>qname_end\<close>: offset of the end pointer; \<open>buf\<close>:
    the first \<open>i\<close> characters of the local buffer\<close>
  "qname_decode_loop mem qname_end qname_max_len pos buf =
     (if pos \<ge> length mem then Fault
      else if mem ! pos = NUL then
        (if length buf > OSMO_MDNS_RFC_MAX_NAME_LEN then Fault else Ret (Some (cstr buf)))
      else if length buf \<ge> qname_max_len then Ret None
      else
        let len = schar_val (mem ! pos);
            next_label = int pos + len + 1
        in if next_label \<ge> qname_end \<or>
              (int (length buf) + len) mod SIZE_MOD > int OSMO_MDNS_RFC_MAX_NAME_LEN then Ret None
           else if buf \<noteq> [] \<and> last buf = CHR ''.'' then Ret None
           else if len \<le> 0 \<or> pos + 1 + nat len > length mem then Fault
           else qname_decode_loop mem qname_end qname_max_len (pos + nat len + 1)
                  (buf @ (if buf \<noteq> [] then ''.'' else []) @ take (nat len) (drop (pos + 1) mem)))"
  by pat_completeness auto
termination
  by (relation "measure (\<lambda>(mem, _, _, pos, _). length mem - pos)") auto

declare qname_decode_loop.simps [simp del]

definition ptr_offset :: "nat \<Rightarrow> int" where
  \<comment> \<open>adding a \<open>size_t\<close> to a pointer moves it backwards when the value has wrapped\<close>
  "ptr_offset n = (if int n < SIZE_MOD div 2 then int n else int n - SIZE_MOD)"

definition osmo_mdns_rfc_qname_decode :: "octets \<Rightarrow> nat \<Rightarrow> string option exec" where
  "osmo_mdns_rfc_qname_decode mem qname_max_len =
     (if qname_max_len < 1 then Ret None
      else qname_decode_loop mem (ptr_offset qname_max_len) qname_max_len 0 [])"

section \<open>Sections of a message\<close>

definition flags1 :: "osmo_mdns_rfc_header \<Rightarrow> octet" where
  \<comment> \<open>the octet of the bit fields \<open>rd\<close>, \<open>tc\<close>, \<open>aa\<close>, \<open>opcode\<close>, \<open>qr\<close>\<close>
  "flags1 h = char_of (of_bool (hdr_rd h) + 2 * of_bool (hdr_tc h) + 4 * of_bool (hdr_aa h) +
     8 * unat (hdr_opcode h) + 128 * (of_bool (hdr_qr h) :: nat))"

definition flags2 :: "osmo_mdns_rfc_header \<Rightarrow> octet" where
  \<comment> \<open>the octet of the bit fields \<open>rcode\<close>, \<open>z\<close>, \<open>ra\<close>\<close>
  "flags2 h = char_of (unat (hdr_rcode h) + 16 * unat (hdr_z h) + 128 * (of_bool (hdr_ra h) :: nat))"

definition osmo_mdns_rfc_header_encode :: "osmo_core \<Rightarrow> octets \<Rightarrow> osmo_mdns_rfc_header \<Rightarrow> octets" where
  "osmo_mdns_rfc_header_encode L msg hdr =
     msg @ osmo_store16be L (hdr_id hdr) @ [flags1 hdr, flags2 hdr] @
     osmo_store16be L (hdr_qdcount hdr) @ osmo_store16be L (hdr_ancount hdr) @
     osmo_store16be L (hdr_nscount hdr) @ osmo_store16be L (hdr_arcount hdr)"

abbreviation (input) HEADER_LEN :: nat where "HEADER_LEN \<equiv> 12"

definition osmo_mdns_rfc_header_decode ::
  "osmo_core \<Rightarrow> octets \<Rightarrow> osmo_mdns_rfc_header \<Rightarrow> osmo_mdns_rfc_header \<times> int" where
  "osmo_mdns_rfc_header_decode L data hdr =
     (if length data \<noteq> HEADER_LEN then (hdr, - EINVAL)
      else
        let f1 = octet_val (data ! 2); f2 = octet_val (data ! 3)
        in (\<lparr>hdr_id = osmo_load16be L data,
             hdr_rd = odd f1, hdr_tc = odd (f1 div 2), hdr_aa = odd (f1 div 4),
             hdr_opcode = of_nat (f1 div 8), hdr_qr = odd (f1 div 128),
             hdr_rcode = of_nat f2, hdr_z = of_nat (f2 div 16), hdr_ra = odd (f2 div 128),
             hdr_qdcount = osmo_load16be L (drop 4 data),
             hdr_ancount = osmo_load16be L (drop 6 data),
             hdr_nscount = osmo_load16be L (drop 8 data),
             hdr_arcount = osmo_load16be L (drop 10 data)\<rparr>, 0))"

definition osmo_mdns_rfc_question_encode ::
  "osmo_core \<Rightarrow> octets \<Rightarrow> osmo_mdns_rfc_question \<Rightarrow> octets \<times> int" where
  "osmo_mdns_rfc_question_encode L msg qst =
     (case osmo_mdns_rfc_qname_encode L (qst_domain qst) of
        None \<Rightarrow> (msg, - EINVAL)
      | Some qname \<Rightarrow>
          (msg @ qname @ [NUL] @ osmo_store16be L (qst_qtype qst) @ osmo_store16be L (qst_qclass qst), 0))"

definition osmo_mdns_rfc_question_decode ::
  "osmo_core \<Rightarrow> octets \<Rightarrow> osmo_mdns_rfc_question option exec" where
  "osmo_mdns_rfc_question_decode L data =
     (if length data < 6 then Ret None
      else
        let qname_len = length data - 4
        in case osmo_mdns_rfc_qname_decode data qname_len of
             Fault \<Rightarrow> Fault
           | Ret None \<Rightarrow> Ret None
           | Ret (Some domain) \<Rightarrow>
               Ret (Some \<lparr>qst_domain = domain, qst_qtype = osmo_load16be L (drop qname_len data),
                          qst_qclass = osmo_load16be L (drop (qname_len + 2) data)\<rparr>))"

definition osmo_mdns_rfc_record_encode ::
  "osmo_core \<Rightarrow> octets \<Rightarrow> osmo_mdns_rfc_record \<Rightarrow> octets \<times> int" where
  "osmo_mdns_rfc_record_encode L msg r =
     (case osmo_mdns_rfc_qname_encode L (rec_domain r) of
        None \<Rightarrow> (msg, - EINVAL)
      | Some name \<Rightarrow>
          (msg @ name @ [NUL] @ osmo_store16be L (rec_type r) @ osmo_store16be L (rec_class r) @
           osmo_store32be L (rec_ttl r) @ osmo_store16be L (rec_rdlength r) @
           take (unat (rec_rdlength r)) (rec_rdata r), 0))"

definition size_sub :: "nat \<Rightarrow> nat \<Rightarrow> nat" where
  \<comment> \<open>subtraction in \<open>size_t\<close>\<close>
  "size_sub a b = nat ((int a - int b) mod SIZE_MOD)"

definition osmo_mdns_rfc_record_decode ::
  "osmo_core \<Rightarrow> octets \<Rightarrow> (osmo_mdns_rfc_record \<times> nat) option exec" where
  "osmo_mdns_rfc_record_decode L data =
     (case osmo_mdns_rfc_qname_decode data (size_sub (length data) 10) of
        Fault \<Rightarrow> Fault
      | Ret None \<Rightarrow> Ret None
      | Ret (Some domain) \<Rightarrow>
          let name_len = length domain + 2
          in if name_len + 10 > length data then Ret None
             else
               let rdlength = osmo_load16be L (drop (name_len + 8) data)
               in if name_len + 10 + unat rdlength > length data then Ret None
                  else Ret (Some (\<lparr>rec_domain = domain, rec_type = osmo_load16be L (drop name_len data),
                         rec_class = osmo_load16be L (drop (name_len + 2) data),
                         rec_ttl = osmo_load32be L (drop (name_len + 4) data),
                         rec_rdlength = rdlength,
                         rec_rdata = take (unat rdlength) (drop (name_len + 10) data)\<rparr>,
                       name_len + 10 + unat rdlength)))"

section \<open>Names: encoding and decoding\<close>

definition wire :: "string list \<Rightarrow> octets" where
  \<comment> \<open>the labels of a name with their length octets\<close>
  "wire ls = concat (map (\<lambda>l. char_of (length l) # l) ls)"

definition dotted :: "string list \<Rightarrow> string" where
  "dotted ls = concat (map (Cons CHR ''.'') ls)"

lemma wire_simps [simp]: "wire [] = []" "wire (l # ls) = char_of (length l) # l @ wire ls"
  by (simp_all add: wire_def)

lemma dotted_simps [simp]: "dotted [] = []" "dotted (l # ls) = CHR ''.'' # l @ dotted ls"
  by (simp_all add: dotted_def)

lemma strsep_dots_join: "\<exists>l ls. strsep_dots d = l # ls \<and> d = l @ dotted ls"
  by (induction d) (auto split: list.splits)

lemma strsep_dots_no_dot: "l \<in> set (strsep_dots d) \<Longrightarrow> CHR ''.'' \<notin> set l"
  by (induction d arbitrary: l) (auto split: list.splits if_splits)

lemma wire_dotted_length: "length (wire ls) = length (dotted ls)"
  by (induction ls) auto

lemma length_wire_strsep: "length (wire (strsep_dots d)) = Suc (length d)"
proof -
  obtain l ls where "strsep_dots d = l # ls" "d = l @ dotted ls" using strsep_dots_join by blast
  then show ?thesis by (simp add: wire_dotted_length)
qed

lemma qname_encode_labels_ok:
  assumes "lib_strbuf_ok L" and "[] \<notin> set ls" and "length (sb_out sb) + length (wire ls) < sb_size sb"
  shows "map_option sb_out (qname_encode_labels L sb ls) = Some (sb_out sb @ wire ls)"
  using assms(2,3)
proof (induction ls arbitrary: sb)
  case (Cons l ls)
  then have "length (sb_out sb) + length (char_of (length l) # l) < sb_size sb" by simp
  from strbuf_printf_ok [OF assms(1) this] Cons.IH [of "strbuf_printf L sb (char_of (length l) # l)"]
    Cons.prems show ?case by auto
qed simp

definition name_ok :: "string \<Rightarrow> bool" where
  \<comment> \<open>names that survive the wire: no empty label, no label longer than 127 octets\<close>
  "name_ok d \<longleftrightarrow> cstring_ok d \<and> length d \<le> OSMO_MDNS_RFC_MAX_NAME_LEN \<and>
     list_all (\<lambda>l. l \<noteq> [] \<and> length l \<le> 127) (strsep_dots d)"

lemma qname_encode_ok:
  assumes "lib_strbuf_ok L" and "length d \<le> OSMO_MDNS_RFC_MAX_NAME_LEN" and "[] \<notin> set (strsep_dots d)"
  shows "osmo_mdns_rfc_qname_encode L d = Some (wire (strsep_dots d))"
proof -
  let ?sb = "\<lparr>sb_size = OSMO_MDNS_RFC_MAX_NAME_LEN + 2, sb_out = [], sb_chars_needed = 0\<rparr> :: osmo_strbuf"
  from qname_encode_labels_ok [OF assms(1,3), of ?sb] show ?thesis
    using assms(2) by (simp add: osmo_mdns_rfc_qname_encode_def length_wire_strsep)
qed

lemma qname_encode_labels_None: "[] \<in> set ls \<Longrightarrow> qname_encode_labels L sb ls = None"
  by (induction ls arbitrary: sb) auto

lemma qname_encode_None:
  "length d > OSMO_MDNS_RFC_MAX_NAME_LEN \<or> [] \<in> set (strsep_dots d) \<Longrightarrow> osmo_mdns_rfc_qname_encode L d = None"
  by (auto simp: osmo_mdns_rfc_qname_encode_def qname_encode_labels_None)

lemma schar_val_small: "n \<le> 127 \<Longrightarrow> schar_val (char_of n) = int n"
  by (simp add: schar_val_def)

lemma qname_decode_step:
  assumes mem: "mem = pre @ char_of (length l) # l @ post" and l: "l \<noteq> []" "length l \<le> 127"
    and "length buf < qmax" and "length buf + length l \<le> OSMO_MDNS_RFC_MAX_NAME_LEN"
    and "int (length pre + length l + 1) < qend" and "buf \<noteq> [] \<longrightarrow> last buf \<noteq> CHR ''.''"
  shows "qname_decode_loop mem qend qmax (length pre) buf =
    qname_decode_loop mem qend qmax (length (pre @ char_of (length l) # l))
      (buf @ (if buf \<noteq> [] then ''.'' else []) @ l)"
proof -
  have c: "mem ! length pre = char_of (length l)" "drop (Suc (length pre)) mem = l @ post"
    by (simp_all add: mem)
  have nz: "char_of (length l) \<noteq> NUL"
    using l octet_val_NUL [of "char_of (length l)"] by simp
  have m: "(int (length buf) + int (length l)) mod SIZE_MOD = int (length buf) + int (length l)"
    using assms(5) by simp
  have "length pre < length mem" "length pre + 1 + length l \<le> length mem"
    by (simp_all add: mem)
  with c nz m assms show ?thesis
    by (subst qname_decode_loop.simps) (auto simp: Let_def schar_val_small add.commute add.left_commute)
qed

lemma last_not_dot: "CHR ''.'' \<notin> set l \<Longrightarrow> l \<noteq> [] \<Longrightarrow> last l \<noteq> CHR ''.''"
  by (metis last_in_set)

lemma qname_decode_labels:
  assumes "buf \<noteq> []" and "last buf \<noteq> CHR ''.''"
    and "list_all (\<lambda>l. l \<noteq> [] \<and> length l \<le> 127 \<and> CHR ''.'' \<notin> set l) ls"
    and "length (buf @ dotted ls) \<le> OSMO_MDNS_RFC_MAX_NAME_LEN" and "length (buf @ dotted ls) < qmax"
    and "int (length (pre @ wire ls)) < qend"
  shows "qname_decode_loop (pre @ wire ls @ NUL # rest) qend qmax (length pre) buf =
    Ret (Some (cstr (buf @ dotted ls)))"
  using assms
proof (induction ls arbitrary: pre buf)
  case Nil
  then show ?case by (subst qname_decode_loop.simps) simp
next
  case (Cons l ls)
  have "qname_decode_loop (pre @ wire (l # ls) @ NUL # rest) qend qmax (length pre) buf =
      qname_decode_loop (pre @ wire (l # ls) @ NUL # rest) qend qmax (length (pre @ char_of (length l) # l))
        (buf @ ''.'' @ l)"
    using Cons.prems qname_decode_step [of _ pre l "wire ls @ NUL # rest" buf qmax qend] by simp
  also have "\<dots> = Ret (Some (cstr ((buf @ ''.'' @ l) @ dotted ls)))"
    using Cons.IH [of "buf @ ''.'' @ l" "pre @ char_of (length l) # l"] Cons.prems last_not_dot
    by simp
  finally show ?case by simp
qed

lemma qname_decode_wire:
  assumes "name_ok d" and "length (wire (strsep_dots d)) < qmax" and "int qmax < SIZE_MOD div 2"
  shows "osmo_mdns_rfc_qname_decode (wire (strsep_dots d) @ NUL # rest) qmax = Ret (Some d)"
proof -
  obtain l ls where d: "strsep_dots d = l # ls" "d = l @ dotted ls" using strsep_dots_join by blast
  from assms(1) strsep_dots_no_dot [of _ d] have
    ok: "l \<noteq> []" "length l \<le> 127" "CHR ''.'' \<notin> set l"
      "list_all (\<lambda>l. l \<noteq> [] \<and> length l \<le> 127 \<and> CHR ''.'' \<notin> set l) ls"
    by (auto simp: name_ok_def d(1) list_all_iff)
  have len: "length d \<le> OSMO_MDNS_RFC_MAX_NAME_LEN" "cstring_ok d" using assms(1) by (simp_all add: name_ok_def)
  have q: "ptr_offset qmax = int qmax" using assms(3) by (simp add: ptr_offset_def)
  let ?mem = "wire (l # ls) @ NUL # rest"
  have w: "Suc (length l) + length (dotted ls) < qmax"
    using assms(2) d(1) by (simp add: wire_dotted_length)
  have "qname_decode_loop ?mem (int qmax) qmax (length []) [] =
      qname_decode_loop ?mem (int qmax) qmax (length ([] @ char_of (length l) # l))
        l"
    using qname_decode_step [of ?mem "[]" l "wire ls @ NUL # rest" "[]" qmax "int qmax"] ok(1,2) len(1) d(2) w
    by simp
  also have "\<dots> = Ret (Some (cstr (l @ dotted ls)))"
    using qname_decode_labels [of l ls qmax "char_of (length l) # l" "int qmax" rest] ok len(1) d(2) w
    by (simp add: wire_dotted_length last_not_dot)
  finally show ?thesis
    using q w len d by (simp add: osmo_mdns_rfc_qname_decode_def cstr_id)
qed

lemma schar_val_ascii: "octet_val c < 128 \<Longrightarrow> c \<noteq> NUL \<Longrightarrow> 0 < schar_val c"
  using octet_val_NUL [of c] by (cases "octet_val c") (simp_all add: schar_val_def)

lemma qname_decode_loop_safe:
  assumes "\<forall>c \<in> set mem. octet_val c < 128" and "qend \<le> int (length mem)" and "qend \<le> 257"
    and "int pos < qend" and "length buf \<le> pos - 1"
  shows "qname_decode_loop mem qend qmax pos buf \<noteq> Fault"
  using assms
proof (induction mem qend qmax pos buf rule: qname_decode_loop.induct)
  case (1 mem qend qmax pos buf)
  define len where "len = schar_val (mem ! pos)"
  let ?more = "buf @ (if buf \<noteq> [] then ''.'' else []) @ take (nat len) (drop (pos + 1) mem)"
  have pos: "pos < length mem" using "1.prems" by linarith
  then have ascii: "octet_val (mem ! pos) < 128" using "1.prems"(1) by simp
  show ?case
  proof (cases "mem ! pos = NUL \<or> length buf \<ge> qmax \<or> int pos + len + 1 \<ge> qend \<or>
      (int (length buf) + len) mod SIZE_MOD > int OSMO_MDNS_RFC_MAX_NAME_LEN \<or>
      buf \<noteq> [] \<and> last buf = CHR ''.''")
    case True
    have "length buf \<le> OSMO_MDNS_RFC_MAX_NAME_LEN" using "1.prems"(3-5) by linarith
    with True pos show ?thesis
      by (subst qname_decode_loop.simps) (auto simp: Let_def len_def)
  next
    case False
    with ascii have len: "0 < len" unfolding len_def by (intro schar_val_ascii) simp_all
    then have next_pos: "int (pos + nat len + 1) < qend" using False by linarith
    have "length ?more \<le> pos + nat len + 1 - 1" using "1.prems"(5) len pos by (cases buf) (auto simp: min_def)
    then have ih: "qname_decode_loop mem qend qmax (pos + nat len + 1) ?more \<noteq> Fault"
      using False len next_pos pos "1.prems" by (intro "1.IH" [folded len_def]) (auto simp: len_def)
    have "pos + 1 + nat len \<le> length mem" using next_pos "1.prems"(2) by linarith
    with False len pos ih show ?thesis
      by (subst qname_decode_loop.simps) (simp add: Let_def len_def [symmetric])
  qed
qed

section \<open>Sections: encoding and decoding\<close>

lemma endian_rules:
  assumes "lib_endian_ok L"
  shows "length (osmo_store16be L w) = 2" "osmo_load16be L (osmo_store16be L w @ r) = w"
    "osmo_load16be L (osmo_store16be L w) = w"
    "length (osmo_store32be L v) = 4" "osmo_load32be L (osmo_store32be L v @ r) = v"
  using assms spec [OF assms [unfolded lib_endian_ok_def, THEN conjunct2, THEN conjunct1], of w, THEN spec, of "[]"]
  by (auto simp: lib_endian_ok_def)

lemma drop_store:
  "length a = 2 \<Longrightarrow> drop (Suc (Suc n)) (a @ r) = drop n r"
  by simp

lemma unat4: "unat (w :: 4 word) < 16"
  using unsigned_less [of w] by simp

lemma unat3: "unat (w :: 3 word) < 8"
  using unsigned_less [of w] by simp

lemma digit_split:
  "(b::nat) < m \<Longrightarrow> (b + m * x) mod m = b" "(b::nat) < m \<Longrightarrow> (b + m * x) div m = x"
  by simp_all

lemma bits_sum:
  fixes b c d e k :: nat
  assumes "b < 2" "c < 2" "d < 2" "k < 16" "e < 2"
  defines "v \<equiv> b + 2 * c + 4 * d + 8 * k + 128 * e"
  shows "v < 256" "v mod 2 = b" "v div 2 mod 2 = c" "v div 4 mod 2 = d" "v div 8 mod 16 = k" "v div 128 mod 2 = e"
proof -
  have v: "v = b + 2 * (c + 2 * (d + 2 * (k + 16 * e)))" by (simp add: v_def)
  note s = digit_split [OF assms(1)] digit_split [OF assms(2)] digit_split [OF assms(3)] digit_split [OF assms(4)]
  have d2: "v div 2 = c + 2 * (d + 2 * (k + 16 * e))" by (simp only: v s)
  have d4: "v div 4 = d + 2 * (k + 16 * e)" using d2 s by (metis div_mult2_eq mult_2 numeral_Bit0)
  have d8: "v div 8 = k + 16 * e" using d4 s by (metis div_mult2_eq mult_2 numeral_Bit0 mult_2_right mult.commute)
  show "v < 256" using assms by linarith
  show "v mod 2 = b" by (simp only: v s)
  show "v div 2 mod 2 = c" by (simp only: d2 s)
  show "v div 4 mod 2 = d" by (simp only: d4 s)
  show "v div 8 mod 16 = k" by (simp only: d8 s)
  have "v div 128 = v div 8 div 16" by (simp add: div_mult2_eq [symmetric])
  then show "v div 128 mod 2 = e" using assms(5) by (simp only: d8 s mod_less)
qed

lemma of_nat_4: "n mod 16 = unat w \<Longrightarrow> of_nat n = (w :: 4 word)"
  by (rule unsigned_word_eqI [where 'a = nat]) (simp add: unsigned_of_nat take_bit_eq_mod)

lemma of_nat_3: "n mod 8 = unat w \<Longrightarrow> of_nat n = (w :: 3 word)"
  by (rule unsigned_word_eqI [where 'a = nat]) (simp add: unsigned_of_nat take_bit_eq_mod)

lemma odd_of_bool: "n mod 2 = of_bool b \<Longrightarrow> odd (n::nat) = b"
  by (cases b) auto

lemma flags1_split:
  "odd (octet_val (flags1 h)) = hdr_rd h" "odd (octet_val (flags1 h) div 2) = hdr_tc h"
  "odd (octet_val (flags1 h) div 4) = hdr_aa h" "of_nat (octet_val (flags1 h) div 8) = hdr_opcode h"
  "odd (octet_val (flags1 h) div 128) = hdr_qr h"
proof -
  let ?v = "of_bool (hdr_rd h) + 2 * of_bool (hdr_tc h) + 4 * of_bool (hdr_aa h) +
     8 * unat (hdr_opcode h) + 128 * (of_bool (hdr_qr h) :: nat)"
  note b = bits_sum [of "of_bool (hdr_rd h)" "of_bool (hdr_tc h)" "of_bool (hdr_aa h)"
      "unat (hdr_opcode h)" "of_bool (hdr_qr h)", OF _ _ _ unat4]
  have v: "octet_val (flags1 h) = ?v" using b(1) by (simp add: flags1_def)
  show "odd (octet_val (flags1 h)) = hdr_rd h" unfolding v by (rule odd_of_bool, rule b) simp_all
  show "odd (octet_val (flags1 h) div 2) = hdr_tc h" unfolding v by (rule odd_of_bool, rule b) simp_all
  show "odd (octet_val (flags1 h) div 4) = hdr_aa h" unfolding v by (rule odd_of_bool, rule b) simp_all
  show "of_nat (octet_val (flags1 h) div 8) = hdr_opcode h" unfolding v by (rule of_nat_4, rule b) simp_all
  show "odd (octet_val (flags1 h) div 128) = hdr_qr h" unfolding v by (rule odd_of_bool, rule b) simp_all
qed

lemma flags2_split:
  "of_nat (octet_val (flags2 h)) = hdr_rcode h" "of_nat (octet_val (flags2 h) div 16) = hdr_z h"
  "odd (octet_val (flags2 h) div 128) = hdr_ra h"
proof -
  let ?x = "unat (hdr_z h) + 8 * (of_bool (hdr_ra h) :: nat)"
  have v: "octet_val (flags2 h) = unat (hdr_rcode h) + 16 * ?x"
    using unat4 [of "hdr_rcode h"] unat3 [of "hdr_z h"] by (cases "hdr_ra h") (simp_all add: flags2_def)
  note d = digit_split [OF unat4 [of "hdr_rcode h"], of ?x] digit_split [OF unat3 [of "hdr_z h"], of "of_bool (hdr_ra h)"]
  show "of_nat (octet_val (flags2 h)) = hdr_rcode h" unfolding v by (rule of_nat_4) (rule d)
  show "of_nat (octet_val (flags2 h) div 16) = hdr_z h" unfolding v by (rule of_nat_3) (simp only: d)
  have "octet_val (flags2 h) div 128 = octet_val (flags2 h) div 16 div 8"
    by (simp add: div_mult2_eq [symmetric])
  then have "octet_val (flags2 h) div 128 = of_bool (hdr_ra h)" unfolding v by (simp only: d)
  then show "odd (octet_val (flags2 h) div 128) = hdr_ra h" by simp
qed

lemma header_roundtrip:
  assumes "lib_endian_ok L"
  shows "osmo_mdns_rfc_header_decode L (osmo_mdns_rfc_header_encode L [] h) h0 = (h, 0)"
proof -
  note e = endian_rules [OF assms]
  have two: "osmo_store16be L w = [osmo_store16be L w ! 0, osmo_store16be L w ! 1]" for w
    using e(1) [of w] by (cases "osmo_store16be L w") (auto simp: length_Suc_conv numeral_2_eq_2)
  have load: "osmo_load16be L (osmo_store16be L w ! 0 # osmo_store16be L w ! Suc 0 # r) = w" for w r
    using e(2) [of w r] two [of w] by (metis One_nat_def append_Cons append_Nil)
  show ?thesis
    unfolding osmo_mdns_rfc_header_encode_def
    by (subst (1 2 3 4 5) two) (simp add: osmo_mdns_rfc_header_decode_def Let_def load flags1_split flags2_split)
qed

lemma wire_ok:
  "lib_strbuf_ok L \<Longrightarrow> name_ok d \<Longrightarrow> osmo_mdns_rfc_qname_encode L d = Some (wire (strsep_dots d))"
  by (rule qname_encode_ok) (auto simp: name_ok_def list_all_iff)

lemma question_roundtrip:
  assumes "lib_strbuf_ok L" and "lib_endian_ok L" and "name_ok (qst_domain q)"
  shows "snd (osmo_mdns_rfc_question_encode L [] q) = 0"
    and "osmo_mdns_rfc_question_decode L (fst (osmo_mdns_rfc_question_encode L [] q)) = Ret (Some q)"
proof -
  let ?w = "wire (strsep_dots (qst_domain q))"
  let ?t = "osmo_store16be L (qst_qtype q)" and ?c = "osmo_store16be L (qst_qclass q)"
  note e = endian_rules [OF assms(2)]
  have enc: "osmo_mdns_rfc_question_encode L [] q = (?w @ NUL # ?t @ ?c, 0)"
    by (simp add: osmo_mdns_rfc_question_encode_def wire_ok [OF assms(1,3)])
  then show "snd (osmo_mdns_rfc_question_encode L [] q) = 0" by simp
  have len: "length ?w = Suc (length (qst_domain q))" by (rule length_wire_strsep)
  have small: "length (qst_domain q) \<le> 255" using assms(3) by (simp add: name_ok_def)
  have "osmo_mdns_rfc_qname_decode (?w @ NUL # ?t @ ?c) (Suc (length ?w)) = Ret (Some (qst_domain q))"
    using len small by (intro qname_decode_wire [OF assms(3)]) simp_all
  then show "osmo_mdns_rfc_question_decode L (fst (osmo_mdns_rfc_question_encode L [] q)) = Ret (Some q)"
    by (simp add: enc osmo_mdns_rfc_question_decode_def len e Let_def)
qed

lemma record_roundtrip:
  assumes "lib_strbuf_ok L" and "lib_endian_ok L" and "name_ok (rec_domain r)"
    and "length (rec_rdata r) = unat (rec_rdlength r)" and "length rest < 2 ^ 62"
  shows "snd (osmo_mdns_rfc_record_encode L [] r) = 0"
    and "osmo_mdns_rfc_record_decode L (fst (osmo_mdns_rfc_record_encode L [] r) @ rest) =
      Ret (Some (r, length (fst (osmo_mdns_rfc_record_encode L [] r))))"
proof -
  let ?w = "wire (strsep_dots (rec_domain r))"
  let ?tail = "osmo_store16be L (rec_type r) @ osmo_store16be L (rec_class r) @
    osmo_store32be L (rec_ttl r) @ osmo_store16be L (rec_rdlength r) @ rec_rdata r"
  note e = endian_rules [OF assms(2)]
  have enc: "osmo_mdns_rfc_record_encode L [] r = (?w @ NUL # ?tail, 0)"
    using assms(4) by (simp add: osmo_mdns_rfc_record_encode_def wire_ok [OF assms(1,3)])
  then show "snd (osmo_mdns_rfc_record_encode L [] r) = 0" by simp
  have len: "length ?w = Suc (length (rec_domain r))" by (rule length_wire_strsep)
  have small: "length (rec_domain r) \<le> 255" using assms(3) by (simp add: name_ok_def)
  have rd: "unat (rec_rdlength r) < 65536" by (rule unat16_less)
  define n where "n = length (rec_domain r) + 2 + unat (rec_rdlength r) + length rest"
  have n: "n < 2 ^ 63" using small rd assms(5) by (simp add: n_def)
  have total: "length (?w @ NUL # ?tail @ rest) = n + 10"
    by (simp add: len e assms(4) n_def)
  have max: "size_sub (n + 10) 10 = n" using n by (simp add: size_sub_def)
  have dec: "osmo_mdns_rfc_qname_decode (?w @ NUL # ?tail @ rest) n = Ret (Some (rec_domain r))"
  proof (rule qname_decode_wire [OF assms(3)])
    show "length ?w < n" using len by (simp add: n_def)
    show "int n < SIZE_MOD div 2" using n by simp
  qed
  have drops: "drop (length (rec_domain r) + 2 + k) (?w @ NUL # xs) = drop k xs" for k xs
    using len by simp
  have fields: "osmo_load16be L (drop (length (rec_domain r) + 2 + 8) (?w @ NUL # ?tail @ rest)) = rec_rdlength r"
    "osmo_load16be L (drop (length (rec_domain r) + 2) (?w @ NUL # ?tail @ rest)) = rec_type r"
    "osmo_load16be L (drop (length (rec_domain r) + 2 + 2) (?w @ NUL # ?tail @ rest)) = rec_class r"
    "osmo_load32be L (drop (length (rec_domain r) + 2 + 4) (?w @ NUL # ?tail @ rest)) = rec_ttl r"
    "take (unat (rec_rdlength r)) (drop (length (rec_domain r) + 2 + 10) (?w @ NUL # ?tail @ rest)) = rec_rdata r"
    by (simp_all only: drops drops [of 0, unfolded add_0_right]) (simp_all add: e assms(4))
  have le: "\<not> length (rec_domain r) + 2 + 10 > n + 10" "\<not> length (rec_domain r) + 2 + 10 + unat (rec_rdlength r) > n + 10"
    by (simp_all add: n_def)
  have "osmo_mdns_rfc_record_decode L (?w @ NUL # ?tail @ rest) =
      Ret (Some (r, length (rec_domain r) + 2 + 10 + unat (rec_rdlength r)))"
    unfolding osmo_mdns_rfc_record_decode_def total max dec exec.case option.case Let_def fields
      if_not_P [OF le(1)] if_not_P [OF le(2)] by simp
  then show "osmo_mdns_rfc_record_decode L (fst (osmo_mdns_rfc_record_encode L [] r) @ rest) =
      Ret (Some (r, length (fst (osmo_mdns_rfc_record_encode L [] r))))"
    by (simp add: enc len e assms(4))
qed

section \<open>Properties\<close>

text \<open>
  C30. Encoding a domain name succeeds exactly when the name has at most 255 octets and no
  empty label; the encoded name is one octet longer than the domain, and for labels of at most
  127 octets decoding it, whatever follows its terminating nul, gives the domain back.
\<close>
theorem mdns_qname_roundtrip:
  assumes "lib_strbuf_ok L"
  shows "(osmo_mdns_rfc_qname_encode L d \<noteq> None \<longleftrightarrow>
      length d \<le> OSMO_MDNS_RFC_MAX_NAME_LEN \<and> [] \<notin> set (strsep_dots d)) \<and>
    (name_ok d \<longrightarrow> (\<exists>q. osmo_mdns_rfc_qname_encode L d = Some q \<and> length q = length d + 1 \<and>
       (\<forall>rest n. length q < n \<longrightarrow> n < 2 ^ 62 \<longrightarrow>
          osmo_mdns_rfc_qname_decode (q @ NUL # rest) n = Ret (Some d))))"
proof -
  have "name_ok d \<Longrightarrow> length (wire (strsep_dots d)) < n \<Longrightarrow> n < 2 ^ 62 \<Longrightarrow>
      osmo_mdns_rfc_qname_decode (wire (strsep_dots d) @ NUL # rest) n = Ret (Some d)" for rest n
    by (rule qname_decode_wire) simp_all
  moreover have "osmo_mdns_rfc_qname_encode L d \<noteq> None \<longleftrightarrow>
      length d \<le> OSMO_MDNS_RFC_MAX_NAME_LEN \<and> [] \<notin> set (strsep_dots d)"
    using qname_encode_ok [OF assms, of d] qname_encode_None [of d L] by fastforce
  ultimately show ?thesis
    using wire_ok [OF assms] length_wire_strsep by auto
qed

theorem mdns_qname_roundtrip_witness:
  "osmo_mdns_rfc_qname_encode ref_core ''gsup.hlr'' \<noteq> None \<and>
   (\<exists>q. osmo_mdns_rfc_qname_encode ref_core ''gsup.hlr'' = Some q \<and>
        osmo_mdns_rfc_qname_decode (q @ NUL # ''rest'') 20 = Ret (Some ''gsup.hlr''))"
proof -
  have ok: "name_ok ''gsup.hlr''" by (simp add: name_ok_def)
  have "osmo_mdns_rfc_qname_encode ref_core ''gsup.hlr'' \<noteq> None"
    using mdns_qname_roundtrip [OF ref_strbuf_ok, of "''gsup.hlr''"] by simp
  moreover obtain q where q: "osmo_mdns_rfc_qname_encode ref_core ''gsup.hlr'' = Some q"
      "length q = length ''gsup.hlr'' + 1"
      "\<forall>rest n. length q < n \<longrightarrow> n < 2 ^ 62 \<longrightarrow>
          osmo_mdns_rfc_qname_decode (q @ NUL # rest) n = Ret (Some ''gsup.hlr'')"
    using mdns_qname_roundtrip [OF ref_strbuf_ok, of "''gsup.hlr''"] ok by blast
  moreover have "length q < 20" "20 < (2::nat) ^ 62" using q(2) by simp_all
  ultimately show ?thesis by blast
qed

text \<open>
  The three sections of a DNS message are decoded back as they were encoded: the header
  with all its bit fields, a question, and a resource record followed by any other octets, for
  which the decoder also reports the number of octets it used.
\<close>
theorem mdns_sections_roundtrip:
  assumes "lib_strbuf_ok L" and "lib_endian_ok L" and "name_ok (qst_domain qst)"
    and "name_ok (rec_domain r)" and "length (rec_rdata r) = unat (rec_rdlength r)"
    and "length rest < 2 ^ 62"
  shows "osmo_mdns_rfc_header_decode L (osmo_mdns_rfc_header_encode L [] hdr) hdr0 = (hdr, 0) \<and>
    osmo_mdns_rfc_question_decode L (fst (osmo_mdns_rfc_question_encode L [] qst)) = Ret (Some qst) \<and>
    osmo_mdns_rfc_record_decode L (fst (osmo_mdns_rfc_record_encode L [] r) @ rest) =
      Ret (Some (r, length (fst (osmo_mdns_rfc_record_encode L [] r))))"
  using header_roundtrip [OF assms(2)] question_roundtrip(2) [OF assms(1-3)]
    record_roundtrip(2) [OF assms(1,2,4-6)] by blast

definition record_example :: osmo_mdns_rfc_record where
  "record_example = \<lparr>rec_domain = ''gsup.hlr'', rec_type = OSMO_MDNS_RFC_RECORD_TYPE_A,
     rec_class = OSMO_MDNS_RFC_CLASS_IN, rec_ttl = 0, rec_rdlength = 4, rec_rdata = ''abcd''\<rparr>"

theorem mdns_sections_roundtrip_witness:
  "osmo_mdns_rfc_record_decode ref_core (fst (osmo_mdns_rfc_record_encode ref_core [] record_example) @ ''xyz'') =
     Ret (Some (record_example, length (fst (osmo_mdns_rfc_record_encode ref_core [] record_example))))"
proof -
  have n: "name_ok ''gsup.hlr''" by (simp add: name_ok_def)
  show ?thesis
    using mdns_sections_roundtrip [OF ref_strbuf_ok ref_endian_ok, of
        "\<lparr>qst_domain = ''gsup.hlr'', qst_qtype = 1, qst_qclass = 1\<rparr>" record_example "''xyz''"] n
    by (simp add: record_example_def)
qed

text \<open>
  C31. Decoding a name never leaves its buffers when every octet of the input is below 0x80 and
  at most 257 octets may be read: the result is a name or an error return, for any input of that
  kind, well-formed or not.
\<close>
theorem mdns_qname_decode_safe:
  assumes "\<forall>c \<in> set mem. octet_val c < 128" and "n \<le> length mem" and "n \<le> 257"
  shows "osmo_mdns_rfc_qname_decode mem n \<noteq> Fault"
  using assms qname_decode_loop_safe [of mem "int n" 0 "[]" n]
  by (auto simp: osmo_mdns_rfc_qname_decode_def ptr_offset_def)

theorem mdns_qname_decode_safe_witness:
  "osmo_mdns_rfc_qname_decode [CHR 0x05, CHR ''a'', CHR ''b''] 3 \<noteq> Fault"
  using mdns_qname_decode_safe [of "[CHR 0x05, CHR ''a'', CHR ''b'']" 3] by (simp add: octet_val_def)

text \<open>
  Outside of these bounds the decoder does leave its buffers. A question whose second
  label has the length octet 0xff makes the length negative, so that the sum with the octets
  read so far passes the size check and the copy gets a length of nearly 2 ^ 64; and a
  name of 256 characters, which passes the size check because the dot is added after it, writes
  the terminating nul behind the local buffer.
\<close>
theorem mdns_qname_decode_overruns:
  "osmo_mdns_rfc_question_decode L [CHR 0x01, CHR ''a'', CHR 0xff, NUL, NUL, NUL, NUL, NUL] = Fault \<and>
   osmo_mdns_rfc_qname_decode
     (wire [replicate 100 CHR ''a'', replicate 100 CHR ''b'', replicate 54 CHR ''c''] @ [NUL]) 258 = Fault"
proof -
  let ?q = "[CHR 0x01, CHR ''a'', CHR 0xff, NUL, NUL, NUL, NUL, NUL]"
  have "qname_decode_loop ?q 4 4 2 ''a'' = Fault"
    by (subst qname_decode_loop.simps) (simp add: Let_def schar_val_def octet_val_def)
  then have neg: "qname_decode_loop ?q 4 4 0 [] = Fault"
    by (subst qname_decode_loop.simps) (simp add: Let_def schar_val_def octet_val_def numeral_2_eq_2)
  define a b c where l: "a = replicate 100 CHR ''a''" "b = replicate 100 CHR ''b''" "c = replicate 54 CHR ''c''"
  have len: "length a = 100" "length b = 100" "length c = 54" by (simp_all add: l)
  have last: "last (a @ CHR ''.'' # b) \<noteq> CHR ''.''" "last a \<noteq> CHR ''.''" "a \<noteq> []" "b \<noteq> []" "c \<noteq> []"
    by (simp_all add: l)
  let ?m = "wire [a, b, c] @ [NUL]"
  have "qname_decode_loop ?m 258 258 0 [] = qname_decode_loop ?m 258 258 101 a"
    using qname_decode_step [of ?m "[]" a "wire [b, c] @ [NUL]" "[]" 258 258] len last by simp
  also have "\<dots> = qname_decode_loop ?m 258 258 202 (a @ CHR ''.'' # b)"
    using qname_decode_step [of ?m "wire [a]" b "wire [c] @ [NUL]" a 258 258] len last by simp
  also have "\<dots> = qname_decode_loop ?m 258 258 257 (a @ CHR ''.'' # b @ CHR ''.'' # c)"
    using qname_decode_step [of ?m "wire [a, b]" c "[NUL]" "a @ CHR ''.'' # b" 258 258] len last by simp
  also have "\<dots> = Fault"
  proof -
    have "?m ! 257 = NUL" "length ?m = 258" using len by (simp_all add: nth_append)
    then show ?thesis using len by (subst qname_decode_loop.simps) simp
  qed
  finally show ?thesis
    using neg by (simp add: osmo_mdns_rfc_question_decode_def osmo_mdns_rfc_qname_decode_def ptr_offset_def Let_def l
        four_Suc [symmetric])
qed

end
