(* ===== verification/Mdns_Msg.thy ===== *)
theory Mdns_Msg
  imports Mdns_Rfc
begin

text \<open>
  Request and answer messages of the multicast DNS lookup: \<open>src/mslookup/mdns_msg.c\<close>. An
  answer is a header and a list of resource records, all for one domain; TXT records hold a
  key and a value. The loop over the records of a received answer ends because every
  record that is decoded takes at least 12 octets.
\<close>

section \<open>Data and operations\<close>

record osmo_mdns_record =
  mr_type :: "16 word"
  mr_length :: "16 word"
  mr_data :: octets

record osmo_mdns_msg_request =
  mreq_id :: "16 word"
  mreq_domain :: string
  mreq_type :: "16 word"

record osmo_mdns_msg_answer =
  ans_id :: "16 word"
  ans_domain :: "string option"
  ans_records :: "osmo_mdns_record list"

definition osmo_mdns_msg_request_encode ::
  "osmo_core \<Rightarrow> octets \<Rightarrow> osmo_mdns_msg_request \<Rightarrow> octets \<times> int" where
  "osmo_mdns_msg_request_encode L msg req =
     (let hdr = header_zero\<lparr>hdr_id := mreq_id req, hdr_qdcount := 1\<rparr>;
          msg = osmo_mdns_rfc_header_encode L msg hdr;
          qst = \<lparr>qst_domain = mreq_domain req, qst_qtype = mreq_type req,
                 qst_qclass = OSMO_MDNS_RFC_CLASS_IN\<rparr>
      in case osmo_mdns_rfc_question_encode L msg qst of
           (msg, rc) \<Rightarrow> if rc \<noteq> 0 then (msg, - EINVAL) else (msg, 0))"

definition osmo_mdns_msg_request_decode ::
  "osmo_core \<Rightarrow> octets \<Rightarrow> osmo_mdns_msg_request option exec" where
  "osmo_mdns_msg_request_decode L data =
     (if length data < HEADER_LEN then Ret None
      else case osmo_mdns_rfc_header_decode L (take HEADER_LEN data) header_zero of
             (hdr, rc) \<Rightarrow>
               if rc \<noteq> 0 \<or> hdr_qr hdr then Ret None
               else (case osmo_mdns_rfc_question_decode L (drop HEADER_LEN data) of
                       Fault \<Rightarrow> Fault
                     | Ret None \<Rightarrow> Ret None
                     | Ret (Some qst) \<Rightarrow>
                         Ret (Some \<lparr>mreq_id = hdr_id hdr, mreq_domain = qst_domain qst,
                                    mreq_type = qst_qtype qst\<rparr>)))"

definition osmo_mdns_msg_answer_init :: osmo_mdns_msg_answer where
  "osmo_mdns_msg_answer_init = \<lparr>ans_id = 0, ans_domain = None, ans_records = []\<rparr>"

fun answer_encode_records ::
  "osmo_core \<Rightarrow> string \<Rightarrow> octets \<Rightarrow> osmo_mdns_record list \<Rightarrow> octets \<times> int" where
  "answer_encode_records L domain msg [] = (msg, 0)"
| "answer_encode_records L domain msg (ar # rs) =
     (case osmo_mdns_rfc_record_encode L msg
             \<lparr>rec_domain = domain, rec_type = mr_type ar, rec_class = OSMO_MDNS_RFC_CLASS_IN,
              rec_ttl = 0, rec_rdlength = mr_length ar, rec_rdata = mr_data ar\<rparr> of
        (msg, rc) \<Rightarrow> if rc \<noteq> 0 then (msg, - EINVAL) else answer_encode_records L domain msg rs)"

definition osmo_mdns_msg_answer_encode ::
  "osmo_core \<Rightarrow> octets \<Rightarrow> string \<Rightarrow> osmo_mdns_msg_answer \<Rightarrow> octets \<times> int" where
  \<comment> \<open>\<open>domain\<close>: the string \<open>ans_domain\<close> points to\<close>
  "osmo_mdns_msg_answer_encode L msg domain ans =
     (let hdr = header_zero\<lparr>hdr_id := ans_id ans, hdr_qr := True,
                            hdr_ancount := of_nat (length (ans_records ans))\<rparr>
      in answer_encode_records L domain (osmo_mdns_rfc_header_encode L msg hdr) (ans_records ans))"

lemma record_decode_len:
  "osmo_mdns_rfc_record_decode L data = Ret (Some (r, n)) \<Longrightarrow> 12 \<le> n \<and> n \<le> length data"
  by (auto simp: osmo_mdns_rfc_record_decode_def Let_def split: exec.splits option.splits if_splits)

function answer_decode_records ::
  "osmo_core \<Rightarrow> octets \<Rightarrow> string option \<Rightarrow> osmo_mdns_record list
     \<Rightarrow> (string option \<times> osmo_mdns_record list) option exec" where
  "answer_decode_records L data domain records =
     (if data = [] then Ret (Some (domain, records))
      else case osmo_mdns_rfc_record_decode L data of
             Fault \<Rightarrow> Fault
           | Ret None \<Rightarrow> Ret None
           | Ret (Some (r, record_len)) \<Rightarrow>
               if domain \<noteq> None \<and> strcmp (the domain) (rec_domain r) \<noteq> 0 then Ret None
               else answer_decode_records L (drop record_len data)
                      (if domain \<noteq> None then domain else Some (rec_domain r))
                      (records @ [\<lparr>mr_type = rec_type r, mr_length = rec_rdlength r,
                                   mr_data = rec_rdata r\<rparr>]))"
  by pat_completeness auto
termination
proof (relation "measure (\<lambda>(_, data, _, _). length data)", goal_cases)
  case (2 L data domain records x2 x2a r record_len)
  then show ?case using record_decode_len [of L data r record_len] by auto
qed simp

declare answer_decode_records.simps [simp del]

definition osmo_mdns_msg_answer_decode :: "osmo_core \<Rightarrow> octets \<Rightarrow> osmo_mdns_msg_answer option exec" where
  "osmo_mdns_msg_answer_decode L data =
     (if length data < HEADER_LEN then Ret None
      else case osmo_mdns_rfc_header_decode L (take HEADER_LEN data) header_zero of
             (hdr, rc) \<Rightarrow>
               if rc \<noteq> 0 \<or> \<not> hdr_qr hdr then Ret None
               else (case answer_decode_records L (drop HEADER_LEN data) None [] of
                       Fault \<Rightarrow> Fault
                     | Ret None \<Rightarrow> Ret None
                     | Ret (Some (domain, records)) \<Rightarrow>
                         if length records \<noteq> unat (hdr_ancount hdr) then Ret None
                         else Ret (Some \<lparr>ans_id = hdr_id hdr, ans_domain = domain,
                                         ans_records = records\<rparr>)))"

definition osmo_mdns_record_txt_encode :: "string \<Rightarrow> string \<Rightarrow> osmo_mdns_record option" where
  "osmo_mdns_record_txt_encode key val =
     (let len = length key + 1 + length val
      in if len > OSMO_MDNS_RFC_MAX_CHARACTER_STRING_LEN - 1 then None
         else Some \<lparr>mr_type = OSMO_MDNS_RFC_RECORD_TYPE_TXT, mr_length = of_nat (len + 1),
                    mr_data = char_of len # key @ CHR ''='' # val\<rparr>)"

definition osmo_mdns_record_txt_keyval_encode :: "string \<Rightarrow> string option \<Rightarrow> osmo_mdns_record option" where
  \<comment> \<open>\<open>val\<close>: the expanded format string\<close>
  "osmo_mdns_record_txt_keyval_encode key val =
     (case val of None \<Rightarrow> osmo_mdns_record_txt_encode key []
                | Some v \<Rightarrow> osmo_mdns_record_txt_encode key v)"

definition osmo_mdns_record_txt_keyval_decode ::
  "osmo_core \<Rightarrow> osmo_mdns_record \<Rightarrow> nat \<Rightarrow> nat \<Rightarrow> (string \<times> string) option exec" where
  \<comment> \<open>None is \<open>-EINVAL\<close>\<close>
  "osmo_mdns_record_txt_keyval_decode L rec key_size value_size =
     (if mr_type rec \<noteq> OSMO_MDNS_RFC_RECORD_TYPE_TXT then Ret None
      else case take (unat (mr_length rec)) (mr_data rec) of
             [] \<Rightarrow> Fault
           | c # key_value \<Rightarrow>
               if schar_val c \<noteq> int (unat (mr_length rec)) - 1 then Ret None
               else if key_value = [] then Ret None
               else (case osmo_strnchr L key_value CHR ''='' of
                       None \<Rightarrow> Ret None
                     | Some sep \<Rightarrow>
                         Ret (Some (osmo_print_n L key_size (take sep key_value),
                                    osmo_print_n L value_size (drop (sep + 1) key_value)))))"

section \<open>Encoding and decoding\<close>

lemma length_header:
  "lib_endian_ok L \<Longrightarrow> length (osmo_mdns_rfc_header_encode L msg h) = length msg + HEADER_LEN"
  by (simp add: osmo_mdns_rfc_header_encode_def endian_rules)

lemma header_encode_append:
  "osmo_mdns_rfc_header_encode L msg h = msg @ osmo_mdns_rfc_header_encode L [] h"
  by (simp add: osmo_mdns_rfc_header_encode_def)

lemma question_encode_append:
  "osmo_mdns_rfc_question_encode L msg q =
     (msg @ fst (osmo_mdns_rfc_question_encode L [] q), snd (osmo_mdns_rfc_question_encode L [] q))"
  by (simp add: osmo_mdns_rfc_question_encode_def split: option.splits)

lemma record_encode_append:
  "osmo_mdns_rfc_record_encode L msg r =
     (msg @ fst (osmo_mdns_rfc_record_encode L [] r), snd (osmo_mdns_rfc_record_encode L [] r))"
  by (simp add: osmo_mdns_rfc_record_encode_def split: option.splits)

lemma request_roundtrip:
  assumes "lib_strbuf_ok L" and "lib_endian_ok L" and "name_ok (mreq_domain req)"
  shows "\<exists>bs. osmo_mdns_msg_request_encode L [] req = (bs, 0) \<and>
    length bs = HEADER_LEN + length (mreq_domain req) + 6 \<and>
    osmo_mdns_msg_request_decode L bs = Ret (Some req)"
proof -
  let ?h = "header_zero\<lparr>hdr_id := mreq_id req, hdr_qdcount := 1\<rparr>"
  let ?q = "\<lparr>qst_domain = mreq_domain req, qst_qtype = mreq_type req, qst_qclass = OSMO_MDNS_RFC_CLASS_IN\<rparr>"
  let ?hb = "osmo_mdns_rfc_header_encode L [] ?h" and ?qb = "fst (osmo_mdns_rfc_question_encode L [] ?q)"
  have q: "name_ok (qst_domain ?q)" using assms(3) by simp
  note qr = question_roundtrip [OF assms(1,2) q]
  have len: "length ?hb = HEADER_LEN" using length_header [OF assms(2)] by simp
  have "length ?qb = length (mreq_domain req) + 6"
    using wire_ok [OF assms(1,3)] length_wire_strsep [of "mreq_domain req"]
    by (simp add: osmo_mdns_rfc_question_encode_def endian_rules [OF assms(2)])
  moreover have "osmo_mdns_msg_request_encode L [] req = (?hb @ ?qb, 0)"
    using qr(1) question_encode_append [of L ?hb ?q]
    by (simp add: osmo_mdns_msg_request_encode_def Let_def)
  moreover have "osmo_mdns_msg_request_decode L (?hb @ ?qb) = Ret (Some req)"
    using len qr(2) header_roundtrip [OF assms(2), of ?h header_zero]
    by (simp add: osmo_mdns_msg_request_decode_def header_zero_def)
  ultimately show ?thesis using len by (intro exI [of _ "?hb @ ?qb"]) simp
qed

definition record_ok :: "osmo_mdns_record \<Rightarrow> bool" where
  "record_ok r \<longleftrightarrow> length (mr_data r) = unat (mr_length r)"

definition rfc_record :: "string \<Rightarrow> osmo_mdns_record \<Rightarrow> osmo_mdns_rfc_record" where
  "rfc_record d r = \<lparr>rec_domain = d, rec_type = mr_type r, rec_class = OSMO_MDNS_RFC_CLASS_IN,
     rec_ttl = 0, rec_rdlength = mr_length r, rec_rdata = mr_data r\<rparr>"

definition records_bytes :: "osmo_core \<Rightarrow> string \<Rightarrow> osmo_mdns_record list \<Rightarrow> octets" where
  "records_bytes L d rs = concat (map (\<lambda>r. fst (osmo_mdns_rfc_record_encode L [] (rfc_record d r))) rs)"

lemma answer_encode_records_ok:
  assumes "lib_strbuf_ok L" and "name_ok d"
  shows "answer_encode_records L d msg rs = (msg @ records_bytes L d rs, 0)"
proof (induction rs arbitrary: msg)
  case (Cons r rs)
  have "snd (osmo_mdns_rfc_record_encode L [] (rfc_record d r)) = 0"
    by (simp add: osmo_mdns_rfc_record_encode_def rfc_record_def wire_ok [OF assms])
  with Cons record_encode_append [of L msg "rfc_record d r"] show ?case
    by (simp add: rfc_record_def [symmetric] records_bytes_def)
qed (simp add: records_bytes_def)

lemma record_bytes_length:
  assumes "lib_strbuf_ok L" and "lib_endian_ok L" and "name_ok d" and "record_ok r"
  shows "length (fst (osmo_mdns_rfc_record_encode L [] (rfc_record d r))) =
    length d + 12 + unat (mr_length r)"
  using assms(4) length_wire_strsep [of d]
  by (simp add: osmo_mdns_rfc_record_encode_def rfc_record_def wire_ok [OF assms(1,3)]
      endian_rules [OF assms(2)] record_ok_def)

lemma answer_decode_records_ok:
  assumes "lib_strbuf_ok L" and "lib_endian_ok L" and "name_ok d"
    and "list_all record_ok rs" and "length (records_bytes L d rs) < 2 ^ 62" and "dm = None \<or> dm = Some d"
  shows "answer_decode_records L (records_bytes L d rs) dm acc =
    Ret (Some (if rs = [] then dm else Some d, acc @ rs))"
  using assms(4-6)
proof (induction rs arbitrary: dm acc)
  case Nil
  then show ?case by (subst answer_decode_records.simps) (simp add: records_bytes_def)
next
  case (Cons r rs)
  let ?b = "fst (osmo_mdns_rfc_record_encode L [] (rfc_record d r))"
  have split: "records_bytes L d (r # rs) = ?b @ records_bytes L d rs" by (simp add: records_bytes_def)
  have small: "length (records_bytes L d rs) < 2 ^ 62" using Cons.prems(2) by (simp add: split)
  have ok: "record_ok r" "list_all record_ok rs" using Cons.prems(1) by simp_all
  have ne: "?b \<noteq> []" using record_bytes_length [OF assms(1-3) ok(1)] by auto
  have "osmo_mdns_rfc_record_decode L (?b @ records_bytes L d rs) = Ret (Some (rfc_record d r, length ?b))"
    using assms(3) ok(1) small
    by (intro record_roundtrip(2) [OF assms(1,2)]) (simp_all add: rfc_record_def record_ok_def)
  moreover have "rec_domain (rfc_record d r) = d"
    "\<lparr>mr_type = rec_type (rfc_record d r), mr_length = rec_rdlength (rfc_record d r),
      mr_data = rec_rdata (rfc_record d r)\<rparr> = r"
    by (simp_all add: rfc_record_def)
  ultimately show ?case
    using Cons.IH [OF ok(2) small, of "Some d" "acc @ [r]"] Cons.prems(3) ne
    by (subst answer_decode_records.simps) (auto simp: split)
qed

lemma answer_roundtrip:
  assumes "lib_strbuf_ok L" and "lib_endian_ok L" and "name_ok d"
    and "list_all record_ok rs" and "length (records_bytes L d rs) < 2 ^ 62" and "rs \<noteq> []"
    and "length rs < 2 ^ 16"
  shows "\<exists>bs. osmo_mdns_msg_answer_encode L [] d \<lparr>ans_id = i, ans_domain = Some d, ans_records = rs\<rparr> = (bs, 0) \<and>
    length bs = HEADER_LEN + length (records_bytes L d rs) \<and>
    osmo_mdns_msg_answer_decode L bs = Ret (Some \<lparr>ans_id = i, ans_domain = Some d, ans_records = rs\<rparr>)"
proof -
  let ?h = "header_zero\<lparr>hdr_id := i, hdr_qr := True, hdr_ancount := of_nat (length rs)\<rparr>"
  let ?hb = "osmo_mdns_rfc_header_encode L [] ?h" and ?rb = "records_bytes L d rs"
  have len: "length ?hb = HEADER_LEN" using length_header [OF assms(2)] by simp
  have "osmo_mdns_msg_answer_encode L [] d \<lparr>ans_id = i, ans_domain = Some d, ans_records = rs\<rparr> = (?hb @ ?rb, 0)"
    by (simp add: osmo_mdns_msg_answer_encode_def Let_def answer_encode_records_ok [OF assms(1,3)])
  moreover have "unat (of_nat (length rs) :: 16 word) = length rs"
    using assms(7) by (simp add: unsigned_of_nat take_bit_eq_mod)
  then have "osmo_mdns_msg_answer_decode L (?hb @ ?rb) =
      Ret (Some \<lparr>ans_id = i, ans_domain = Some d, ans_records = rs\<rparr>)"
    using len header_roundtrip [OF assms(2), of ?h header_zero] assms(6)
      answer_decode_records_ok [OF assms(1-5), of None "[]"]
    by (simp add: osmo_mdns_msg_answer_decode_def)
  ultimately show ?thesis using len by (intro exI [of _ "?hb @ ?rb"]) simp
qed

lemma txt_roundtrip:
  assumes "lib_text_ok L" and "cstring_ok k" and "cstring_ok v" and "CHR ''='' \<notin> set k"
    and "length k + 1 + length v \<le> 127" and "length k < ks" and "length v < vs"
  shows "\<exists>r. osmo_mdns_record_txt_encode k v = Some r \<and> record_ok r \<and>
    mr_type r = OSMO_MDNS_RFC_RECORD_TYPE_TXT \<and> unat (mr_length r) = length k + length v + 2 \<and>
    osmo_mdns_record_txt_keyval_decode L r ks vs = Ret (Some (k, v))"
proof -
  define n where "n = length k + 1 + length v"
  let ?r = "\<lparr>mr_type = OSMO_MDNS_RFC_RECORD_TYPE_TXT, mr_length = of_nat (n + 1),
      mr_data = char_of n # k @ CHR ''='' # v\<rparr>"
  have len: "unat (of_nat (n + 1) :: 16 word) = n + 1"
    using assms(5) by (simp only: unsigned_of_nat take_bit_eq_mod) (simp add: n_def)
  have sep: "osmo_strnchr L (k @ CHR ''='' # v) CHR ''='' = Some (length k)"
    using assms(1,2,4) by (simp add: lib_text_ok_def)
  have p: "osmo_print_n L ks k = k" "osmo_print_n L vs v = v"
    using assms by (simp_all add: lib_text_ok_def)
  have "osmo_mdns_record_txt_encode k v = Some ?r"
    using assms(5) by (simp add: osmo_mdns_record_txt_encode_def Let_def n_def)
  moreover have "osmo_mdns_record_txt_keyval_decode L ?r ks vs = Ret (Some (k, v))"
    using len sep p assms(5)
    by (simp add: osmo_mdns_record_txt_keyval_decode_def n_def schar_val_small [simplified])
  ultimately show ?thesis
    using len by (intro exI [of _ ?r]) (simp add: record_ok_def n_def)
qed

end
