(* ===== verification/Mdns.thy ===== *)
theory Mdns
  imports Mdns_Msg Mslookup
begin

text \<open>
  Queries and results as multicast DNS packets: \<open>src/mslookup/mdns.c\<close>. The domain of a packet
  is the textual query with the configured suffix. Packets are written into a message
  buffer of 1024 octets; more octets make \<open>msgb_put\<close> abort, which is \<open>Fault\<close>. A function
  that fails with \<open>-EINVAL\<close> or a NULL pointer gives None; what it has written to its out
  parameters by then is not used by the callers. The parsing of numbers follows \<open>strtoll\<close> of
  the C library.
\<close>

section \<open>Numbers\<close>

definition is_space :: "char \<Rightarrow> bool" where
  "is_space c \<longleftrightarrow> c = CHR '' '' \<or> 9 \<le> octet_val c \<and> octet_val c \<le> 13"

definition strtoll :: "string \<Rightarrow> int \<times> string \<times> bool" where
  \<comment> \<open>base 10: the value, the rest of the string, and whether the range was exceeded\<close>
  "strtoll s =
     (let t = dropWhile is_space s;
          neg = (t \<noteq> [] \<and> hd t = CHR ''-'');
          u = (if t \<noteq> [] \<and> (hd t = CHR ''-'' \<or> hd t = CHR ''+'') then tl t else t);
          ds = takeWhile is_digit u;
          v = (if neg then - int (dec_val ds 0) else int (dec_val ds 0))
      in if ds = [] then (0, s, False)
         else if v > 9223372036854775807 then (9223372036854775807, dropWhile is_digit u, True)
         else if v < - 9223372036854775808 then (- 9223372036854775808, dropWhile is_digit u, True)
         else (v, dropWhile is_digit u, False))"

definition decode_uint32_t :: "string \<Rightarrow> (32 word) option" where
  "decode_uint32_t str =
     (case strtoll str of
        (lld, endptr, erange) \<Rightarrow>
          if erange \<or> endptr \<noteq> [] then None
          else if lld < 0 \<or> lld > 4294967295 then None
          else Some (of_int lld))"

definition decode_port :: "string \<Rightarrow> (16 word) option" where
  "decode_port str =
     (case decode_uint32_t str of
        None \<Rightarrow> None
      | Some val \<Rightarrow> if unat val > 65535 then None else Some (ucast val))"

section \<open>Domains\<close>

definition domain_from_query :: "osmo_core \<Rightarrow> osmo_mslookup_query \<Rightarrow> string \<Rightarrow> string option" where
  "domain_from_query L query domain_suffix =
     (if id_type (ms_id query) = OSMO_MSLOOKUP_ID_IMSI \<or> id_type (ms_id query) = OSMO_MSLOOKUP_ID_MSISDN then
        Some (service query @ ''.'' @ id_digits (ms_id query) @ ''.'' @
              osmo_mslookup_id_type_name L (id_type (ms_id query)) @ ''.'' @ domain_suffix)
      else None)"

definition query_from_domain ::
  "osmo_core \<Rightarrow> string option \<Rightarrow> string \<Rightarrow> (osmo_mslookup_query \<times> int) exec" where
  \<comment> \<open>the length of a NULL string is read: Fault\<close>
  "query_from_domain L domain domain_suffix =
     (case domain of
        None \<Rightarrow> Fault
      | Some domain \<Rightarrow>
          let domain_len = int (length domain) - int (length domain_suffix) - 1
          in if domain_len \<le> 0 \<or> domain_len \<ge> int OSMO_MDNS_RFC_MAX_NAME_LEN then Ret (query_zero, - EINVAL)
             else if domain ! nat domain_len \<noteq> CHR ''.'' \<or>
                     strcmp (drop (nat domain_len + 1) domain) domain_suffix \<noteq> 0 then
               Ret (query_zero, - EINVAL)
             else Ret (osmo_mslookup_query_init_from_domain_str L (Some (take (nat domain_len) domain))))"

section \<open>Packets\<close>

abbreviation (input) MDNS_MSGB_SIZE :: nat where "MDNS_MSGB_SIZE \<equiv> 1024"

definition osmo_mdns_query_encode ::
  "osmo_core \<Rightarrow> 16 word \<Rightarrow> osmo_mslookup_query \<Rightarrow> string \<Rightarrow> octets option exec" where
  "osmo_mdns_query_encode L packet_id query domain_suffix =
     (case domain_from_query L query domain_suffix of
        None \<Rightarrow> Ret None
      | Some domain \<Rightarrow>
          (case osmo_mdns_msg_request_encode L []
                  \<lparr>mreq_id = packet_id, mreq_domain = domain, mreq_type = OSMO_MDNS_RFC_RECORD_TYPE_ALL\<rparr> of
             (msg, rc) \<Rightarrow>
               if length msg > MDNS_MSGB_SIZE then Fault
               else if rc \<noteq> 0 then Ret None else Ret (Some msg)))"

definition osmo_mdns_query_decode ::
  "osmo_core \<Rightarrow> octets \<Rightarrow> string \<Rightarrow> (osmo_mslookup_query \<times> 16 word) option exec" where
  "osmo_mdns_query_decode L data domain_suffix =
     (case osmo_mdns_msg_request_decode L data of
        Fault \<Rightarrow> Fault
      | Ret None \<Rightarrow> Ret None
      | Ret (Some req) \<Rightarrow>
          (case query_from_domain L (Some (mreq_domain req)) domain_suffix of
             Fault \<Rightarrow> Fault
           | Ret (query, rc) \<Rightarrow> if rc < 0 then Ret None else Ret (Some (query, mreq_id req))))"

definition sockaddr_str_from_mdns_record ::
  "osmo_core \<Rightarrow> osmo_mdns_record \<Rightarrow> osmo_sockaddr_str option" where
  "sockaddr_str_from_mdns_record L rec =
     (if mr_type rec = OSMO_MDNS_RFC_RECORD_TYPE_A then
        (if unat (mr_length rec) \<noteq> 4 then None else Some (osmo_sockaddr_str_from_32 L (mr_data rec) 0))
      else if mr_type rec = OSMO_MDNS_RFC_RECORD_TYPE_AAAA then
        (if unat (mr_length rec) \<noteq> 16 then None else Some (osmo_sockaddr_str_from_in6_addr L (mr_data rec) 0))
      else None)"

definition osmo_mdns_result_encode ::
  "osmo_core \<Rightarrow> 16 word \<Rightarrow> osmo_mslookup_query \<Rightarrow> osmo_mslookup_result \<Rightarrow> string \<Rightarrow> octets option exec" where
  "osmo_mdns_result_encode L packet_id query result domain_suffix =
     (case domain_from_query L query domain_suffix of
        None \<Rightarrow> Ret None
      | Some domain \<Rightarrow>
        (case osmo_mdns_record_txt_keyval_encode ''age'' (Some (show_dec (unat (age result)))) of
           None \<Rightarrow> Fault
         | Some rec_age \<Rightarrow>
           let v4 = (if osmo_sockaddr_str_is_set L (host_v4 result) then
                       (case osmo_sockaddr_str_to_in_addr L (host_v4 result) of
                          None \<Rightarrow> Ret None
                        | Some a \<Rightarrow>
                          (case osmo_mdns_record_txt_keyval_encode ''port''
                                  (Some (show_dec (unat (sa_port (host_v4 result))))) of
                             None \<Rightarrow> Fault
                           | Some port \<Rightarrow>
                               Ret (Some [\<lparr>mr_type = OSMO_MDNS_RFC_RECORD_TYPE_A, mr_length = 4, mr_data = a\<rparr>,
                                          port])))
                     else Ret (Some []));
               v6 = (if osmo_sockaddr_str_is_set L (host_v6 result) then
                       (case osmo_sockaddr_str_to_in6_addr L (host_v6 result) of
                          None \<Rightarrow> Ret None
                        | Some a \<Rightarrow>
                          (case osmo_mdns_record_txt_keyval_encode ''port''
                                  (Some (show_dec (unat (sa_port (host_v6 result))))) of
                             None \<Rightarrow> Fault
                           | Some port \<Rightarrow>
                               Ret (Some [\<lparr>mr_type = OSMO_MDNS_RFC_RECORD_TYPE_AAAA, mr_length = 16, mr_data = a\<rparr>,
                                          port])))
                     else Ret (Some []))
           in (case v4 of
                 Fault \<Rightarrow> Fault
               | Ret None \<Rightarrow> Ret None
               | Ret (Some recs4) \<Rightarrow>
                 (case v6 of
                    Fault \<Rightarrow> Fault
                  | Ret None \<Rightarrow> Ret None
                  | Ret (Some recs6) \<Rightarrow>
                    (case osmo_mdns_msg_answer_encode L [] domain
                            \<lparr>ans_id = packet_id, ans_domain = Some domain,
                             ans_records = rec_age # recs4 @ recs6\<rparr> of
                       (msg, rc) \<Rightarrow>
                         if length msg > MDNS_MSGB_SIZE then Fault
                         else if rc \<noteq> 0 then Ret None else Ret (Some msg))))))"

datatype expect_port = ExpectNone | ExpectV4 | ExpectV6

record answer_state =
  st_result :: osmo_mslookup_result
  found_age :: bool
  found_ip_v4 :: bool
  found_ip_v6 :: bool
  expect_port_for :: expect_port

definition result_from_record ::
  "osmo_core \<Rightarrow> osmo_mdns_record \<Rightarrow> answer_state \<Rightarrow> answer_state option exec" where
  \<comment> \<open>the body of the loop over the records\<close>
  "result_from_record L rec st =
     (if mr_type rec = OSMO_MDNS_RFC_RECORD_TYPE_A then
        (if expect_port_for st \<noteq> ExpectNone then Ret None
         else if found_ip_v4 st then Ret None
         else (case sockaddr_str_from_mdns_record L rec of
                 None \<Rightarrow> Ret None
               | Some a \<Rightarrow> Ret (Some (st\<lparr>found_ip_v4 := True, expect_port_for := ExpectV4,
                                        st_result := (st_result st)\<lparr>host_v4 := a\<rparr>\<rparr>))))
      else if mr_type rec = OSMO_MDNS_RFC_RECORD_TYPE_AAAA then
        (if expect_port_for st \<noteq> ExpectNone then Ret None
         else if found_ip_v6 st then Ret None
         else (case sockaddr_str_from_mdns_record L rec of
                 None \<Rightarrow> Ret None
               | Some a \<Rightarrow> Ret (Some (st\<lparr>found_ip_v6 := True, expect_port_for := ExpectV6,
                                        st_result := (st_result st)\<lparr>host_v6 := a\<rparr>\<rparr>))))
      else if mr_type rec = OSMO_MDNS_RFC_RECORD_TYPE_TXT then
        (case osmo_mdns_record_txt_keyval_decode L rec 64 64 of
           Fault \<Rightarrow> Fault
         | Ret None \<Rightarrow> Ret None
         | Ret (Some (txt_key, txt_value)) \<Rightarrow>
             if strcmp txt_key ''age'' = 0 then
               (if found_age st then Ret None
                else (case decode_uint32_t txt_value of
                        None \<Rightarrow> Ret None
                      | Some v \<Rightarrow> Ret (Some (st\<lparr>found_age := True, st_result := (st_result st)\<lparr>age := v\<rparr>\<rparr>))))
             else if strcmp txt_key ''port'' = 0 then
               (case expect_port_for st of
                  ExpectNone \<Rightarrow> Ret None
                | ExpectV4 \<Rightarrow>
                    (case decode_port txt_value of
                       None \<Rightarrow> Ret None
                     | Some p \<Rightarrow> Ret (Some (st\<lparr>expect_port_for := ExpectNone,
                         st_result := (st_result st)\<lparr>host_v4 := (host_v4 (st_result st))\<lparr>sa_port := p\<rparr>\<rparr>\<rparr>)))
                | ExpectV6 \<Rightarrow>
                    (case decode_port txt_value of
                       None \<Rightarrow> Ret None
                     | Some p \<Rightarrow> Ret (Some (st\<lparr>expect_port_for := ExpectNone,
                         st_result := (st_result st)\<lparr>host_v6 := (host_v6 (st_result st))\<lparr>sa_port := p\<rparr>\<rparr>\<rparr>))))
             else Ret None)
      else Ret None)"

fun result_from_records ::
  "osmo_core \<Rightarrow> osmo_mdns_record list \<Rightarrow> answer_state \<Rightarrow> answer_state option exec" where
  "result_from_records L [] st = Ret (Some st)"
| "result_from_records L (r # rs) st =
     (case result_from_record L r st of
        Fault \<Rightarrow> Fault
      | Ret None \<Rightarrow> Ret None
      | Ret (Some st) \<Rightarrow> result_from_records L rs st)"

definition osmo_mdns_result_from_answer ::
  "osmo_core \<Rightarrow> osmo_mdns_msg_answer \<Rightarrow> osmo_mslookup_result option exec" where
  "osmo_mdns_result_from_answer L ans =
     (case result_from_records L (ans_records ans)
             \<lparr>st_result = result_zero, found_age = False, found_ip_v4 = False, found_ip_v6 = False,
              expect_port_for = ExpectNone\<rparr> of
        Fault \<Rightarrow> Fault
      | Ret None \<Rightarrow> Ret None
      | Ret (Some st) \<Rightarrow>
          if \<not> found_age st \<or> \<not> (found_ip_v4 st \<or> found_ip_v6 st) \<or> expect_port_for st \<noteq> ExpectNone then Ret None
          else Ret (Some ((st_result st)\<lparr>ms_rc := OSMO_MSLOOKUP_RC_RESULT\<rparr>)))"

definition osmo_mdns_result_decode ::
  "osmo_core \<Rightarrow> octets \<Rightarrow> string
     \<Rightarrow> (16 word \<times> osmo_mslookup_query \<times> osmo_mslookup_result) option exec" where
  "osmo_mdns_result_decode L data domain_suffix =
     (case osmo_mdns_msg_answer_decode L data of
        Fault \<Rightarrow> Fault
      | Ret None \<Rightarrow> Ret None
      | Ret (Some ans) \<Rightarrow>
          (case query_from_domain L (ans_domain ans) domain_suffix of
             Fault \<Rightarrow> Fault
           | Ret (query, rc) \<Rightarrow>
               if rc < 0 then Ret None
               else (case osmo_mdns_result_from_answer L ans of
                       Fault \<Rightarrow> Fault
                     | Ret None \<Rightarrow> Ret None
                     | Ret (Some result) \<Rightarrow> Ret (Some (ans_id ans, query, result)))))"

section \<open>Numbers: printing and parsing\<close>

lemma show_dec_digits: "list_all is_digit (show_dec n)"
proof (induction n rule: show_dec.induct)
  case (1 n)
  then show ?case
    using digit_char [of n] digit_char [of "n mod 10"] by (subst show_dec.simps) auto
qed

lemma show_dec_nonempty: "show_dec n \<noteq> []"
  by (subst show_dec.simps) simp

lemma show_dec_length: "n < 10 ^ k \<Longrightarrow> 0 < k \<Longrightarrow> length (show_dec n) \<le> k"
proof (induction n arbitrary: k rule: show_dec.induct)
  case (1 n)
  show ?case
  proof (cases "n < 10")
    case True
    with 1 show ?thesis by (subst show_dec.simps) simp
  next
    case False
    with "1.prems" obtain j where k: "k = Suc j" "0 < j" by (cases k) (auto, metis gr0I power_0 mult_1_right)
    with "1.prems" have "n div 10 < 10 ^ j" by (simp add: div_less_iff_less_mult mult.commute)
    with False k "1.IH" [of j] show ?thesis by (subst show_dec.simps) simp
  qed
qed

lemma digit_no_space: "is_digit c \<Longrightarrow> \<not> is_space c \<and> c \<noteq> CHR ''-'' \<and> c \<noteq> CHR ''+''"
  by (auto simp: is_digit_def is_space_def octet_val_def)

lemma strtoll_digits:
  assumes "list_all is_digit s" and "s \<noteq> []" and "dec_val s 0 \<le> 9223372036854775807"
  shows "strtoll s = (int (dec_val s 0), [], False)"
proof -
  obtain c cs where s: "s = c # cs" using assms(2) by (cases s) auto
  have "dropWhile is_space s = s" "takeWhile is_digit s = s" "dropWhile is_digit s = []"
    using assms(1) digit_no_space [of c] s
    by (auto simp: list_all_iff takeWhile_eq_all_conv dropWhile_eq_Nil_conv)
  moreover have "hd s \<noteq> CHR ''-''" "hd s \<noteq> CHR ''+''" using assms(1) digit_no_space [of c] s by simp_all
  ultimately show ?thesis
    using assms(2,3) by (simp add: strtoll_def Let_def del: takeWhile_eq_all_conv dropWhile_eq_Nil_conv)
qed

lemma decode_show_uint32: "decode_uint32_t (show_dec (unat (v :: 32 word))) = Some v"
proof -
  have "unat v < 4294967296" by (rule unat32_less)
  then have "strtoll (show_dec (unat v)) = (int (unat v), [], False)"
    using strtoll_digits [OF show_dec_digits show_dec_nonempty, of "unat v"] by (simp add: show_dec_val)
  moreover have "int (unat v) < int 4294967296"
    using \<open>unat v < 4294967296\<close> by (simp only: of_nat_less_iff)
  ultimately show ?thesis by (simp add: decode_uint32_t_def)
qed

lemma decode_show_port: "decode_port (show_dec (unat (p :: 16 word))) = Some p"
proof -
  define v :: "32 word" where "v = ucast p"
  have p: "unat p < 65536" by (rule unat16_less)
  have v: "unat v = unat p" using p by (simp add: v_def unsigned_ucast_eq take_bit_nat_eq_self)
  have "decode_uint32_t (show_dec (unat p)) = Some v" using decode_show_uint32 [of v] v by simp
  moreover have "ucast v = p" by (rule bit_word_eqI) (simp add: v_def bit_simps)
  ultimately show ?thesis using p v by (simp add: decode_port_def)
qed

section \<open>Domains: printing and parsing\<close>

lemma domain_from_query_ok:
  assumes "osmo_mslookup_id_valid L (ms_id q)"
  shows "domain_from_query L q sfx = Some ((service q @ ''.'' @ id_name L (ms_id q)) @ ''.'' @ sfx)"
  using id_valid_type [OF assms] by (simp add: domain_from_query_def id_name_def)

lemma id_name_length:
  assumes "lib_strings_ok L" and "osmo_mslookup_id_valid L i"
  shows "length (id_name L i) \<le> 22"
  using id_valid_digits [OF assms] id_valid_type [OF assms(2)]
  by (auto simp: id_name_def osmo_mslookup_id_type_name_def osmo_mslookup_id_type_names_def
      lib_value_tables [OF assms(1)])

lemma query_from_domain_ok:
  assumes "lib_strings_ok L" and "osmo_mslookup_id_valid L (ms_id q)"
    and "osmo_mslookup_service_valid (service q)" and "length (service q) \<le> OSMO_MSLOOKUP_SERVICE_MAXLEN"
  shows "query_from_domain L (Some ((service q @ ''.'' @ id_name L (ms_id q)) @ ''.'' @ sfx)) sfx = Ret (q, 0)"
proof -
  let ?d = "service q @ ''.'' @ id_name L (ms_id q)"
  note parse = parse_printed [OF assms]
  have len: "0 < length ?d" "length ?d < OSMO_MDNS_RFC_MAX_NAME_LEN"
    using id_name_length [OF assms(1,2)] assms(4) by auto
  have n: "int (length (?d @ ''.'' @ sfx)) - int (length sfx) - 1 = int (length ?d)" by simp
  have at: "(?d @ ''.'' @ sfx) ! length ?d = CHR ''.''" "drop (length ?d + 1) (?d @ ''.'' @ sfx) = sfx"
    "take (length ?d) (?d @ ''.'' @ sfx) = ?d"
    by (simp_all only: nth_append_length append_Cons append_Nil) simp_all
  show ?thesis
    unfolding query_from_domain_def option.case Let_def n nat_int at parse
    using len by simp
qed

section \<open>Packets: encoding and decoding\<close>

definition query_domain :: "osmo_core \<Rightarrow> osmo_mslookup_query \<Rightarrow> string \<Rightarrow> string" where
  "query_domain L q sfx = (service q @ ''.'' @ id_name L (ms_id q)) @ ''.'' @ sfx"

definition query_ok :: "osmo_core \<Rightarrow> osmo_mslookup_query \<Rightarrow> string \<Rightarrow> bool" where
  \<comment> \<open>a query that fits its buffers and whose domain can be sent\<close>
  "query_ok L q sfx \<longleftrightarrow> osmo_mslookup_id_valid L (ms_id q) \<and> osmo_mslookup_service_valid (service q) \<and>
     length (service q) \<le> OSMO_MSLOOKUP_SERVICE_MAXLEN \<and> name_ok (query_domain L q sfx)"

lemma query_ok_domain:
  assumes "lib_strings_ok L" and "query_ok L q sfx"
  shows "domain_from_query L q sfx = Some (query_domain L q sfx)"
    and "query_from_domain L (Some (query_domain L q sfx)) sfx = Ret (q, 0)"
    and "name_ok (query_domain L q sfx)"
  using assms domain_from_query_ok query_from_domain_ok [OF assms(1)]
  by (simp_all add: query_ok_def query_domain_def)

definition port_record :: "16 word \<Rightarrow> osmo_mdns_record" where
  "port_record p = the (osmo_mdns_record_txt_encode ''port'' (show_dec (unat p)))"

definition age_record :: "32 word \<Rightarrow> osmo_mdns_record" where
  "age_record a = the (osmo_mdns_record_txt_encode ''age'' (show_dec (unat a)))"

lemma txt_number:
  assumes "lib_text_ok L" and "n < 10 ^ 10" and "cstring_ok k" and "CHR ''='' \<notin> set k" and "length k \<le> 10"
  shows "\<exists>r. osmo_mdns_record_txt_encode k (show_dec n) = Some r \<and> record_ok r \<and>
    mr_type r = OSMO_MDNS_RFC_RECORD_TYPE_TXT \<and> unat (mr_length r) = length k + length (show_dec n) + 2 \<and>
    osmo_mdns_record_txt_keyval_decode L r 64 64 = Ret (Some (k, show_dec n))"
  using assms show_dec_length [of n 10]
  by (intro txt_roundtrip) (simp_all add: digits_cstring_ok [OF show_dec_digits])

lemma port_record_facts:
  assumes "lib_text_ok L"
  shows "osmo_mdns_record_txt_keyval_encode ''port'' (Some (show_dec (unat p))) = Some (port_record p) \<and>
    record_ok (port_record p) \<and> mr_type (port_record p) = OSMO_MDNS_RFC_RECORD_TYPE_TXT \<and>
    unat (mr_length (port_record p)) \<le> 11 \<and>
    osmo_mdns_record_txt_keyval_decode L (port_record p) 64 64 = Ret (Some (''port'', show_dec (unat p)))"
proof -
  have p: "unat p < 65536" by (rule unat16_less)
  then have "length (show_dec (unat p)) \<le> 5" by (intro show_dec_length) simp_all
  moreover obtain r where "osmo_mdns_record_txt_encode ''port'' (show_dec (unat p)) = Some r" "record_ok r"
      "mr_type r = OSMO_MDNS_RFC_RECORD_TYPE_TXT" "unat (mr_length r) = length ''port'' + length (show_dec (unat p)) + 2"
      "osmo_mdns_record_txt_keyval_decode L r 64 64 = Ret (Some (''port'', show_dec (unat p)))"
    using txt_number [OF assms, of "unat p" "''port''"] p by auto
  ultimately show ?thesis by (simp add: port_record_def osmo_mdns_record_txt_keyval_encode_def)
qed

lemma age_record_facts:
  assumes "lib_text_ok L"
  shows "osmo_mdns_record_txt_keyval_encode ''age'' (Some (show_dec (unat a))) = Some (age_record a) \<and>
    record_ok (age_record a) \<and> mr_type (age_record a) = OSMO_MDNS_RFC_RECORD_TYPE_TXT \<and>
    unat (mr_length (age_record a)) \<le> 15 \<and>
    osmo_mdns_record_txt_keyval_decode L (age_record a) 64 64 = Ret (Some (''age'', show_dec (unat a)))"
proof -
  have a: "unat a < 4294967296" by (rule unat32_less)
  then have "length (show_dec (unat a)) \<le> 10" by (intro show_dec_length) simp_all
  moreover obtain r where "osmo_mdns_record_txt_encode ''age'' (show_dec (unat a)) = Some r" "record_ok r"
      "mr_type r = OSMO_MDNS_RFC_RECORD_TYPE_TXT" "unat (mr_length r) = length ''age'' + length (show_dec (unat a)) + 2"
      "osmo_mdns_record_txt_keyval_decode L r 64 64 = Ret (Some (''age'', show_dec (unat a)))"
    using txt_number [OF assms, of "unat a" "''age''"] a by auto
  ultimately show ?thesis by (simp add: age_record_def osmo_mdns_record_txt_keyval_encode_def)
qed

definition v4_ok :: "osmo_core \<Rightarrow> osmo_sockaddr_str \<Rightarrow> octets \<Rightarrow> bool" where
  \<comment> \<open>the address is absent, or is the canonical text of the octets \<open>bs\<close>\<close>
  "v4_ok L a bs \<longleftrightarrow> (if osmo_sockaddr_str_is_set L a then
     osmo_sockaddr_str_to_in_addr L a = Some bs \<and> length bs = 4 \<and>
     osmo_sockaddr_str_from_32 L bs 0 = a\<lparr>sa_port := 0\<rparr> else a = sockaddr_zero)"

definition v6_ok :: "osmo_core \<Rightarrow> osmo_sockaddr_str \<Rightarrow> octets \<Rightarrow> bool" where
  "v6_ok L a bs \<longleftrightarrow> (if osmo_sockaddr_str_is_set L a then
     osmo_sockaddr_str_to_in6_addr L a = Some bs \<and> length bs = 16 \<and>
     osmo_sockaddr_str_from_in6_addr L bs 0 = a\<lparr>sa_port := 0\<rparr> else a = sockaddr_zero)"

definition v4_records :: "osmo_core \<Rightarrow> osmo_sockaddr_str \<Rightarrow> octets \<Rightarrow> osmo_mdns_record list" where
  "v4_records L a bs = (if osmo_sockaddr_str_is_set L a
     then [\<lparr>mr_type = OSMO_MDNS_RFC_RECORD_TYPE_A, mr_length = 4, mr_data = bs\<rparr>, port_record (sa_port a)] else [])"

definition v6_records :: "osmo_core \<Rightarrow> osmo_sockaddr_str \<Rightarrow> octets \<Rightarrow> osmo_mdns_record list" where
  "v6_records L a bs = (if osmo_sockaddr_str_is_set L a
     then [\<lparr>mr_type = OSMO_MDNS_RFC_RECORD_TYPE_AAAA, mr_length = 16, mr_data = bs\<rparr>, port_record (sa_port a)] else [])"

lemma result_encode_records:
  assumes "lib_strings_ok L" and "lib_text_ok L" and "query_ok L q sfx"
    and "v4_ok L (host_v4 r) b4" and "v6_ok L (host_v6 r) b6"
  shows "osmo_mdns_result_encode L pid q r sfx =
    (case osmo_mdns_msg_answer_encode L [] (query_domain L q sfx)
       \<lparr>ans_id = pid, ans_domain = Some (query_domain L q sfx),
        ans_records = age_record (age r) # v4_records L (host_v4 r) b4 @ v6_records L (host_v6 r) b6\<rparr> of
     (msg, rc) \<Rightarrow> if length msg > MDNS_MSGB_SIZE then Fault else if rc \<noteq> 0 then Ret None else Ret (Some msg))"
  using assms(4,5) query_ok_domain(1) [OF assms(1,3)] age_record_facts [OF assms(2), of "age r"]
    port_record_facts [OF assms(2), of "sa_port (host_v4 r)"] port_record_facts [OF assms(2), of "sa_port (host_v6 r)"]
  by (simp add: osmo_mdns_result_encode_def v4_ok_def v6_ok_def v4_records_def v6_records_def Let_def)

lemma result_from_records_append:
  "result_from_records L (a @ b) st =
     (case result_from_records L a st of
        Fault \<Rightarrow> Fault | Ret None \<Rightarrow> Ret None | Ret (Some st) \<Rightarrow> result_from_records L b st)"
  by (induction a arbitrary: st) (auto split: exec.splits option.splits)

lemma from_age:
  assumes "lib_text_ok L" and "\<not> found_age st"
  shows "result_from_record L (age_record a) st =
    Ret (Some (st\<lparr>found_age := True, st_result := (st_result st)\<lparr>age := a\<rparr>\<rparr>))"
  using assms(2) age_record_facts [OF assms(1), of a]
  by (simp add: result_from_record_def decode_show_uint32)

lemma from_v4:
  assumes "lib_text_ok L" and "v4_ok L a bs" and "expect_port_for st = ExpectNone" and "\<not> found_ip_v4 st"
    and "host_v4 (st_result st) = sockaddr_zero"
  shows "result_from_records L (v4_records L a bs) st =
    Ret (Some (st\<lparr>found_ip_v4 := osmo_sockaddr_str_is_set L a, st_result := (st_result st)\<lparr>host_v4 := a\<rparr>\<rparr>))"
  using assms(2-5) port_record_facts [OF assms(1), of "sa_port a"]
  by (auto simp: v4_records_def v4_ok_def result_from_record_def sockaddr_str_from_mdns_record_def
      decode_show_port)

lemma from_v6:
  assumes "lib_text_ok L" and "v6_ok L a bs" and "expect_port_for st = ExpectNone" and "\<not> found_ip_v6 st"
    and "host_v6 (st_result st) = sockaddr_zero"
  shows "result_from_records L (v6_records L a bs) st =
    Ret (Some (st\<lparr>found_ip_v6 := osmo_sockaddr_str_is_set L a, st_result := (st_result st)\<lparr>host_v6 := a\<rparr>\<rparr>))"
  using assms(2-5) port_record_facts [OF assms(1), of "sa_port a"]
  by (auto simp: v6_records_def v6_ok_def result_from_record_def sockaddr_str_from_mdns_record_def
      decode_show_port)

lemma records_bytes_length:
  assumes "lib_strbuf_ok L" and "lib_endian_ok L" and "name_ok d"
  shows "list_all record_ok rs \<Longrightarrow>
    length (records_bytes L d rs) = sum_list (map (\<lambda>r. length d + 12 + unat (mr_length r)) rs)"
  by (induction rs) (simp_all add: records_bytes_def record_bytes_length [OF assms])

lemma result_records_ok:
  fixes a :: "32 word"
  assumes "lib_text_ok L" and "v4_ok L a4 b4" and "v6_ok L a6 b6"
  defines "rs \<equiv> age_record a # v4_records L a4 b4 @ v6_records L a6 b6"
  shows "list_all record_ok rs" and "length rs \<le> 5"
    and "sum_list (map (\<lambda>r. n + 12 + unat (mr_length r)) rs) \<le> 5 * n + 117"
  using assms(2,3) age_record_facts [OF assms(1), of a] port_record_facts [OF assms(1), of "sa_port a4"]
    port_record_facts [OF assms(1), of "sa_port a6"]
  by (auto simp: rs_def v4_records_def v6_records_def v4_ok_def v6_ok_def record_ok_def)

lemma result_answer_roundtrip:
  assumes "lib_text_ok L" and "v4_ok L (host_v4 r) b4" and "v6_ok L (host_v6 r) b6"
    and "osmo_sockaddr_str_is_set L (host_v4 r) \<or> osmo_sockaddr_str_is_set L (host_v6 r)"
    and "ms_rc r = OSMO_MSLOOKUP_RC_RESULT" and "\<not> ms_last r"
  shows "osmo_mdns_result_from_answer L \<lparr>ans_id = i, ans_domain = d,
      ans_records = age_record (age r) # v4_records L (host_v4 r) b4 @ v6_records L (host_v6 r) b6\<rparr> = Ret (Some r)"
  using assms(4-6) from_age [OF assms(1)] from_v4 [OF assms(1,2)] from_v6 [OF assms(1,3)]
  by (simp add: osmo_mdns_result_from_answer_def result_from_records_append result_zero_def)

lemma query_packet:
  assumes "lib_strings_ok L" and "lib_strbuf_ok L" and "lib_endian_ok L" and "query_ok L q sfx"
  shows "\<exists>bs. osmo_mdns_query_encode L pid q sfx = Ret (Some bs) \<and>
    osmo_mdns_query_decode L bs sfx = Ret (Some (q, pid))"
proof -
  note d = query_ok_domain [OF assms(1,4)]
  let ?req = "\<lparr>mreq_id = pid, mreq_domain = query_domain L q sfx, mreq_type = OSMO_MDNS_RFC_RECORD_TYPE_ALL\<rparr>"
  obtain bs where bs: "osmo_mdns_msg_request_encode L [] ?req = (bs, 0)"
      "length bs = HEADER_LEN + length (query_domain L q sfx) + 6"
      "osmo_mdns_msg_request_decode L bs = Ret (Some ?req)"
    using request_roundtrip [OF assms(2,3), of ?req] d(3) by auto
  have "length (query_domain L q sfx) \<le> OSMO_MDNS_RFC_MAX_NAME_LEN" using d(3) by (simp add: name_ok_def)
  then show ?thesis
    using bs d by (intro exI [of _ bs]) (simp add: osmo_mdns_query_encode_def osmo_mdns_query_decode_def)
qed

lemma result_packet:
  assumes "lib_strings_ok L" and "lib_strbuf_ok L" and "lib_endian_ok L" and "lib_text_ok L"
    and "query_ok L q sfx" and "length (query_domain L q sfx) \<le> 179"
    and "v4_ok L (host_v4 r) b4" and "v6_ok L (host_v6 r) b6"
    and "osmo_sockaddr_str_is_set L (host_v4 r) \<or> osmo_sockaddr_str_is_set L (host_v6 r)"
    and "ms_rc r = OSMO_MSLOOKUP_RC_RESULT" and "\<not> ms_last r"
  shows "\<exists>bs. osmo_mdns_result_encode L pid q r sfx = Ret (Some bs) \<and>
    osmo_mdns_result_decode L bs sfx = Ret (Some (pid, q, r))"
proof -
  note d = query_ok_domain [OF assms(1,5)]
  let ?d = "query_domain L q sfx"
  let ?rs = "age_record (age r) # v4_records L (host_v4 r) b4 @ v6_records L (host_v6 r) b6"
  note rs = result_records_ok [OF assms(4,7,8), where a = "age r"]
  have len: "length (records_bytes L ?d ?rs) \<le> 1012"
    using records_bytes_length [OF assms(2,3) d(3) rs(1)] rs(3) [where n = "length ?d"] assms(6) by linarith
  then have small: "length (records_bytes L ?d ?rs) < 2 ^ 62" by (rule order.strict_trans1) simp
  have "length ?rs < 2 ^ 16" using rs(2) by (rule order.strict_trans1) simp
  then obtain bs where bs:
      "osmo_mdns_msg_answer_encode L [] ?d \<lparr>ans_id = pid, ans_domain = Some ?d, ans_records = ?rs\<rparr> = (bs, 0)"
      "length bs = HEADER_LEN + length (records_bytes L ?d ?rs)"
      "osmo_mdns_msg_answer_decode L bs = Ret (Some \<lparr>ans_id = pid, ans_domain = Some ?d, ans_records = ?rs\<rparr>)"
    using answer_roundtrip [OF assms(2,3) d(3) rs(1) small] by blast
  have "osmo_mdns_result_encode L pid q r sfx = Ret (Some bs)"
    using result_encode_records [OF assms(1,4,5,7,8), of pid] bs(1,2) len by simp
  moreover have "osmo_mdns_result_decode L bs sfx = Ret (Some (pid, q, r))"
    using bs(3) d(2) result_answer_roundtrip [OF assms(4,7-11), of pid "Some ?d"]
    by (simp add: osmo_mdns_result_decode_def)
  ultimately show ?thesis by blast
qed

section \<open>Properties\<close>

text \<open>
  A query survives the network: encoding it into a multicast DNS request succeeds within the
  message buffer, and decoding the packet with the same domain suffix yields the same query and
  packet id.
\<close>
theorem mdns_query_roundtrip:
  assumes "lib_strings_ok L" and "lib_strbuf_ok L" and "lib_endian_ok L" and "query_ok L q sfx"
  shows "\<exists>bs. osmo_mdns_query_encode L pid q sfx = Ret (Some bs) \<and>
    osmo_mdns_query_decode L bs sfx = Ret (Some (q, pid))"
  by (rule query_packet [OF assms])

lemma query_example_ok: "query_ok ref_core query_example ''mdns.osmocom.org''"
proof -
  have t: "osmo_mslookup_id_type_name ref_core OSMO_MSLOOKUP_ID_MSISDN = ''msisdn''"
    by (simp add: osmo_mslookup_id_type_name_def osmo_mslookup_id_type_names_def lib_value_tables [OF ref_strings_ok])
  show ?thesis
    using query_example_valid t
    by (simp add: query_ok_def osmo_mslookup_service_valid_def query_domain_def id_name_def name_ok_def
        query_example_def)
qed

theorem mdns_query_roundtrip_witness:
  "\<exists>bs. osmo_mdns_query_encode ref_core 42 query_example ''mdns.osmocom.org'' = Ret (Some bs) \<and>
    osmo_mdns_query_decode ref_core bs ''mdns.osmocom.org'' = Ret (Some (query_example, 42))"
  by (rule mdns_query_roundtrip [OF ref_strings_ok ref_strbuf_ok ref_endian_ok query_example_ok])

text \<open>
  C29. A result survives the network: for an IPv4 address, an IPv6 address or both, in canonical
  form, with their ports and any age, encoding the result fits the message buffer as long as the
  domain has at most 179 characters, and decoding the packet yields the packet id, the query
  and the result as they were. The limit is needed: the records repeat the domain up to five
  times and the message buffer has 1024 octets.
\<close>
theorem mdns_result_roundtrip:
  assumes "lib_strings_ok L" and "lib_strbuf_ok L" and "lib_endian_ok L" and "lib_text_ok L"
    and "query_ok L q sfx" and "length (query_domain L q sfx) \<le> 179"
    and "v4_ok L (host_v4 r) b4" and "v6_ok L (host_v6 r) b6"
    and "osmo_sockaddr_str_is_set L (host_v4 r) \<or> osmo_sockaddr_str_is_set L (host_v6 r)"
    and "ms_rc r = OSMO_MSLOOKUP_RC_RESULT" and "\<not> ms_last r"
  shows "\<exists>bs. osmo_mdns_result_encode L pid q r sfx = Ret (Some bs) \<and>
    osmo_mdns_result_decode L bs sfx = Ret (Some (pid, q, r))"
  by (rule result_packet [OF assms])

definition result_example :: osmo_mslookup_result where
  "result_example = \<lparr>ms_rc = OSMO_MSLOOKUP_RC_RESULT,
     host_v4 = \<lparr>sa_af = AF_INET, sa_ip = ''abcd'', sa_port = 4222\<rparr>, host_v6 = sockaddr_zero,
     age = 7, ms_last = False\<rparr>"

theorem mdns_result_roundtrip_witness:
  "\<exists>bs. osmo_mdns_result_encode ref_core 42 query_example result_example ''mdns.osmocom.org'' = Ret (Some bs) \<and>
    osmo_mdns_result_decode ref_core bs ''mdns.osmocom.org'' = Ret (Some (42, query_example, result_example))"
proof (rule mdns_result_roundtrip [OF ref_strings_ok ref_strbuf_ok ref_endian_ok ref_text_ok query_example_ok])
  have t: "osmo_mslookup_id_type_name ref_core OSMO_MSLOOKUP_ID_MSISDN = ''msisdn''"
    by (simp add: osmo_mslookup_id_type_name_def osmo_mslookup_id_type_names_def lib_value_tables [OF ref_strings_ok])
  then show "length (query_domain ref_core query_example ''mdns.osmocom.org'') \<le> 179"
    by (simp add: query_domain_def id_name_def query_example_def)
  show "v4_ok ref_core (host_v4 result_example) ''abcd''"
    by (simp add: v4_ok_def ref_core_def result_example_def)
  show "v6_ok ref_core (host_v6 result_example) []"
    by (simp add: v6_ok_def ref_core_def result_example_def sockaddr_zero_def)
qed (simp_all add: result_example_def ref_core_def)

text \<open>
  An answer that consists of the header only is not rejected: it has as many records as its
  header says, namely none, and the decoder then takes the length of its missing domain. A
  packet of 12 octets makes every lookup client that receives it read through a null pointer.
\<close>
theorem mdns_empty_answer_faults:
  assumes "lib_endian_ok L"
  shows "osmo_mdns_result_decode L
    (osmo_mdns_rfc_header_encode L [] (header_zero\<lparr>hdr_id := pid, hdr_qr := True\<rparr>)) sfx = Fault"
proof -
  let ?h = "header_zero\<lparr>hdr_id := pid, hdr_qr := True\<rparr>"
  have len: "length (osmo_mdns_rfc_header_encode L [] ?h) = HEADER_LEN"
    using length_header [OF assms] by simp
  have "osmo_mdns_msg_answer_decode L (osmo_mdns_rfc_header_encode L [] ?h) =
      Ret (Some \<lparr>ans_id = pid, ans_domain = None, ans_records = []\<rparr>)"
    using len header_roundtrip [OF assms, of ?h header_zero]
    by (simp add: osmo_mdns_msg_answer_decode_def answer_decode_records.simps header_zero_def)
  then show ?thesis by (simp add: osmo_mdns_result_decode_def query_from_domain_def)
qed

theorem mdns_empty_answer_faults_witness:
  "osmo_mdns_result_decode ref_core
    (osmo_mdns_rfc_header_encode ref_core [] (header_zero\<lparr>hdr_id := 1, hdr_qr := True\<rparr>)) ''mdns.osmocom.org'' = Fault"
  by (rule mdns_empty_answer_faults [OF ref_endian_ok])

end
