(* ===== verification/Mslookup_Server.thy ===== *)
theory Mslookup_Server
  imports Dgsm Mdns
begin

text \<open>
  Answering lookups of other HLRs: \<open>src/mslookup_server.c\<close>, and receiving them over multicast DNS:
  \<open>src/mslookup_server_mdns.c\<close>. The configuration under \<open>g_hlr->mslookup.server\<close> is a record; a pointer to an
  entry of one of its lists is an index. What the program reads of the database, the proxy and the clock is in the
  state of the HLR. The function-local static \<open>gsup_bind\<close> is a field of the configuration.
\<close>

section \<open>Data\<close>

record mslookup_service_host =
  sh_service :: string
  sh_host_v4 :: osmo_sockaddr_str
  sh_host_v6 :: osmo_sockaddr_str

record mslookup_server_msc_cfg =
  cfg_msc_name :: osmo_ipa_name
  service_hosts :: "mslookup_service_host list"

record mslookup_server =
  local_site_services :: "mslookup_server_msc_cfg list"
  local_attach_max_age :: "32 word"
  gsup_bind_addr :: string
  gsup_bind :: mslookup_service_host

definition service_host_zero :: mslookup_service_host where
  "service_host_zero = \<lparr>sh_service = [], sh_host_v4 = sockaddr_zero, sh_host_v6 = sockaddr_zero\<rparr>"

definition mslookup_server_msc_wildcard :: osmo_ipa_name where
  "mslookup_server_msc_wildcard = ipa_name_empty"

definition not_found :: osmo_mslookup_result where
  "not_found = result_zero\<lparr>ms_rc := OSMO_MSLOOKUP_RC_NOT_FOUND\<rparr>"

abbreviation (input) OSMO_GSUP_PORT :: "16 word" where "OSMO_GSUP_PORT \<equiv> 4222"

section \<open>Configured services\<close>

definition set_result ::
  "osmo_core \<Rightarrow> mslookup_service_host \<Rightarrow> 32 word \<Rightarrow> osmo_mslookup_result \<Rightarrow> osmo_mslookup_result" where
  "set_result L h lu_age result =
     (if \<not> osmo_sockaddr_str_is_nonzero L (sh_host_v4 h) \<and> \<not> osmo_sockaddr_str_is_nonzero L (sh_host_v6 h) then not_found
      else result\<lparr>ms_rc := OSMO_MSLOOKUP_RC_RESULT, host_v4 := sh_host_v4 h, host_v6 := sh_host_v6 h, age := lu_age\<rparr>)"

definition index_of :: "('x \<Rightarrow> bool) \<Rightarrow> 'x list \<Rightarrow> nat option" where
  \<comment> \<open>the pointer to the first entry that the loop returns\<close>
  "index_of P xs = List.find (\<lambda>i. P (xs ! i)) [0..<length xs]"

definition mslookup_server_msc_get ::
  "osmo_ipa_name option \<Rightarrow> bool \<Rightarrow> mslookup_server \<Rightarrow> mslookup_server \<times> nat option" where
  "mslookup_server_msc_get name create c =
     (case name of
        None \<Rightarrow> (c, None)
      | Some n \<Rightarrow>
          (case index_of (\<lambda>msc. osmo_ipa_name_cmp False (Some (cfg_msc_name msc)) (Some n) = 0) (local_site_services c) of
             Some i \<Rightarrow> (c, Some i)
           | None \<Rightarrow>
               if \<not> create then (c, None)
               else (c\<lparr>local_site_services := local_site_services c @ [\<lparr>cfg_msc_name = n, service_hosts = []\<rparr>]\<rparr>,
                     Some (length (local_site_services c)))))"

definition mslookup_server_msc_service_get ::
  "string \<Rightarrow> bool \<Rightarrow> mslookup_server_msc_cfg \<Rightarrow> mslookup_server_msc_cfg \<times> nat option" where
  "mslookup_server_msc_service_get serv create msc =
     (case index_of (\<lambda>e. strcmp (sh_service e) serv = 0) (service_hosts msc) of
        Some i \<Rightarrow> (msc, Some i)
      | None \<Rightarrow>
          if \<not> create then (msc, None)
          else (msc\<lparr>service_hosts := service_hosts msc @
                  [service_host_zero\<lparr>sh_service := strlcpy (OSMO_MSLOOKUP_SERVICE_MAXLEN + 1) serv\<rparr>]\<rparr>,
                Some (length (service_hosts msc))))"

definition mslookup_server_service_get :: "osmo_ipa_name \<Rightarrow> string \<Rightarrow> mslookup_server \<Rightarrow> mslookup_service_host option" where
  "mslookup_server_service_get name serv c =
     (case mslookup_server_msc_get (Some name) False c of
        (_, None) \<Rightarrow> None
      | (_, Some i) \<Rightarrow>
          let msc = local_site_services c ! i
          in map_option (\<lambda>j. service_hosts msc ! j) (snd (mslookup_server_msc_service_get serv False msc)))"

definition mslookup_server_msc_service_set ::
  "osmo_core \<Rightarrow> mslookup_server_msc_cfg option \<Rightarrow> string option \<Rightarrow> osmo_sockaddr_str option
     \<Rightarrow> mslookup_server_msc_cfg option \<times> int" where
  "mslookup_server_msc_service_set L msc serv addr =
     (case serv of
        None \<Rightarrow> (msc, - EINVAL)
      | Some serv \<Rightarrow>
          if serv = [] \<or> length serv > OSMO_MSLOOKUP_SERVICE_MAXLEN then (msc, - EINVAL)
          else (case addr of
                  None \<Rightarrow> (msc, - EINVAL)
                | Some a \<Rightarrow>
                    if \<not> osmo_sockaddr_str_is_nonzero L a then (msc, - EINVAL)
                    else (case msc of
                            None \<Rightarrow> (None, - EINVAL)
                          | Some m \<Rightarrow>
                              (case mslookup_server_msc_service_get serv True m of
                                 (m, None) \<Rightarrow> (Some m, - EINVAL)
                               | (m, Some i) \<Rightarrow>
                                   let e = service_hosts m ! i
                                   in if sa_af a = AF_INET then
                                        (Some (m\<lparr>service_hosts := (service_hosts m)[i := e\<lparr>sh_host_v4 := a\<rparr>]\<rparr>), 0)
                                      else if sa_af a = AF_INET6 then
                                        (Some (m\<lparr>service_hosts := (service_hosts m)[i := e\<lparr>sh_host_v6 := a\<rparr>]\<rparr>), 0)
                                      else (Some m, - EINVAL)))))"

definition service_del_entry ::
  "osmo_core \<Rightarrow> string option \<Rightarrow> osmo_sockaddr_str option \<Rightarrow> mslookup_service_host \<Rightarrow> mslookup_service_host option" where
  \<comment> \<open>the body of the loop: what remains of an entry, None when it is deleted\<close>
  "service_del_entry L serv addr e =
     (if (case serv of None \<Rightarrow> False | Some s \<Rightarrow> strcmp s (sh_service e) \<noteq> 0) then Some e
      else (case addr of
              None \<Rightarrow> None
            | Some a \<Rightarrow>
                if osmo_sockaddr_str_cmp L a (sh_host_v4 e) = 0 then
                  let e = e\<lparr>sh_host_v4 := sockaddr_zero\<rparr>
                  in if osmo_sockaddr_str_is_nonzero L (sh_host_v6 e) then Some e else None
                else if osmo_sockaddr_str_cmp L a (sh_host_v6 e) = 0 then
                  let e = e\<lparr>sh_host_v6 := sockaddr_zero\<rparr>
                  in if osmo_sockaddr_str_is_nonzero L (sh_host_v4 e) then Some e else None
                else Some e))"

definition mslookup_server_msc_service_del ::
  "osmo_core \<Rightarrow> mslookup_server_msc_cfg option \<Rightarrow> string option \<Rightarrow> osmo_sockaddr_str option
     \<Rightarrow> mslookup_server_msc_cfg option \<times> int" where
  "mslookup_server_msc_service_del L msc serv addr =
     (case msc of
        None \<Rightarrow> (None, - ENOENT)
      | Some m \<Rightarrow>
          let rest = map (service_del_entry L serv addr) (service_hosts m)
          in (Some (m\<lparr>service_hosts := List.map_filter id rest\<rparr>), int (length (filter (\<lambda>e. e = None) rest))))"

definition mslookup_server_get_local_gsup_addr :: "osmo_core \<Rightarrow> mslookup_server \<Rightarrow> mslookup_server \<times> mslookup_service_host" where
  "mslookup_server_get_local_gsup_addr L c =
     (case mslookup_server_service_get mslookup_server_msc_wildcard OSMO_MSLOOKUP_SERVICE_HLR_GSUP c of
        Some host \<Rightarrow> (c, host)
      | None \<Rightarrow>
          let b = (gsup_bind c)\<lparr>sh_host_v4 := fst (osmo_sockaddr_str_from_str L (gsup_bind_addr c) OSMO_GSUP_PORT)\<rparr>;
              b = (if sa_af (sh_host_v4 b) = AF_INET6 then b\<lparr>sh_host_v6 := sh_host_v4 b, sh_host_v4 := sockaddr_zero\<rparr> else b)
          in (c\<lparr>gsup_bind := b\<rparr>, b))"

section \<open>Lookups\<close>

definition mslookup_server_rx_hlr_gsup ::
  "osmo_core \<Rightarrow> sqlite_env \<Rightarrow> osmo_mslookup_query \<Rightarrow> osmo_mslookup_result \<Rightarrow> 'a dgsm_world_scheme \<Rightarrow> mslookup_server
     \<Rightarrow> mslookup_server \<times> osmo_mslookup_result" where
  "mslookup_server_rx_hlr_gsup L E query result s c =
     (let digits = id_digits (ms_id query);
          answer = (\<lambda>rc. if rc \<noteq> 0 then (c, not_found)
             else (case mslookup_server_get_local_gsup_addr L c of (c, host) \<Rightarrow> (c, set_result L host 0 result)))
      in if id_type (ms_id query) = OSMO_MSLOOKUP_ID_IMSI then answer (db_subscr_exists_by_imsi E digits (dbc s))
         else if id_type (ms_id query) = OSMO_MSLOOKUP_ID_MSISDN then answer (db_subscr_exists_by_msisdn E digits (dbc s))
         else (c, not_found))"

definition subscriber_has_done_lu_here_hlr ::
  "sqlite_env \<Rightarrow> osmo_mslookup_query \<Rightarrow> 'a dgsm_world_scheme \<Rightarrow> mslookup_server \<Rightarrow> (32 word \<times> osmo_ipa_name \<times> hlr_subscriber) option" where
  "subscriber_has_done_lu_here_hlr E query s c =
     (let digits = id_digits (ms_id query);
          found = (\<lambda>r. case r of
             Inl _ \<Rightarrow> None
           | Inr subscr \<Rightarrow>
               if sub_vlr_number subscr = [] then None
               else if ipa_len (sub_vlr_via_proxy subscr) \<noteq> 0 then None
               else (case timestamp_age (sub_last_lu_seen subscr) s of
                       (ok, lu_age) \<Rightarrow>
                         if \<not> ok then None
                         else if lu_age > local_attach_max_age c then None
                         else Some (lu_age, fst (osmo_ipa_name_set_str ipa_name_empty (Some (sub_vlr_number subscr))), subscr)))
      in if id_type (ms_id query) = OSMO_MSLOOKUP_ID_IMSI then found (db_subscr_get_by_imsi E digits (dbc s))
         else if id_type (ms_id query) = OSMO_MSLOOKUP_ID_MSISDN then found (db_subscr_get_by_msisdn E digits (dbc s))
         else None)"

definition subscriber_has_done_lu_here_proxy ::
  "osmo_mslookup_query \<Rightarrow> 'a dgsm_world_scheme \<Rightarrow> mslookup_server \<Rightarrow> (32 word \<times> osmo_ipa_name \<times> proxy_subscr) option" where
  "subscriber_has_done_lu_here_proxy query s c =
     (let digits = id_digits (ms_id query);
          found = (\<lambda>r. case r of
             Inl _ \<Rightarrow> None
           | Inr p \<Rightarrow>
               (case timestamp_age (last_lu (pr_cs p)) s of
                  (ok, lu_age) \<Rightarrow>
                    if \<not> ok \<or> lu_age > local_attach_max_age c then None
                    else if ipa_len (vlr_via_proxy (pr_cs p)) \<noteq> 0 then None
                    else Some (lu_age, ds_vlr_name (pr_cs p), p)))
      in if id_type (ms_id query) = OSMO_MSLOOKUP_ID_IMSI then found (proxy_subscr_get_by_imsi digits s)
         else if id_type (ms_id query) = OSMO_MSLOOKUP_ID_MSISDN then found (proxy_subscr_get_by_msisdn digits s)
         else None)"

definition subscriber_has_done_lu_here ::
  "sqlite_env \<Rightarrow> osmo_mslookup_query \<Rightarrow> 'a dgsm_world_scheme \<Rightarrow> mslookup_server \<Rightarrow> (32 word \<times> osmo_ipa_name \<times> string) option" where
  \<comment> \<open>the third component is what is copied to \<open>ret_imsi\<close>\<close>
  "subscriber_has_done_lu_here E query s c =
     (let here = map_option (\<lambda>(lu_age, name, subscr). (lu_age, name, sub_imsi subscr)) (subscriber_has_done_lu_here_hlr E query s c);
          proxied = map_option (\<lambda>(lu_age, name, p). (lu_age, name, pr_imsi p)) (subscriber_has_done_lu_here_proxy query s c);
          r = (case (here, proxied) of
                 (None, p) \<Rightarrow> p
               | (h, None) \<Rightarrow> h
               | (Some h, Some p) \<Rightarrow> if fst p < fst h then Some p else Some h)
      in (case r of
            None \<Rightarrow> None
          | Some (lu_age, name, imsi) \<Rightarrow> if ipa_len name = 0 then None else Some (lu_age, name, imsi)))"

definition mslookup_server_rx ::
  "osmo_core \<Rightarrow> sqlite_env \<Rightarrow> osmo_mslookup_query \<Rightarrow> osmo_mslookup_result \<Rightarrow> 'a dgsm_world_scheme \<Rightarrow> mslookup_server
     \<Rightarrow> mslookup_server \<times> osmo_mslookup_result" where
  "mslookup_server_rx L E query result s c =
     (if strcmp (service query) OSMO_MSLOOKUP_SERVICE_HLR_GSUP = 0 then mslookup_server_rx_hlr_gsup L E query result s c
      else (case subscriber_has_done_lu_here E query s c of
              None \<Rightarrow> (c, not_found)
            | Some (lu_age, name, _) \<Rightarrow>
                (case (case mslookup_server_service_get name (service query) c of
                         None \<Rightarrow> mslookup_server_service_get mslookup_server_msc_wildcard (service query) c
                       | Some h \<Rightarrow> Some h) of
                   None \<Rightarrow> (c, not_found)
                 | Some h \<Rightarrow> (c, set_result L h lu_age result))))"

section \<open>The multicast DNS server\<close>

record osmo_mslookup_server_mdns =
  srv_bind_addr :: osmo_sockaddr_str
  srv_domain_suffix :: string

definition osmo_mslookup_server_mdns_tx ::
  "osmo_core \<Rightarrow> osmo_mslookup_server_mdns \<Rightarrow> 16 word \<Rightarrow> osmo_mslookup_query \<Rightarrow> osmo_mslookup_result \<Rightarrow> octets option exec" where
  \<comment> \<open>the packet that is sent\<close>
  "osmo_mslookup_server_mdns_tx L server packet_id query result =
     osmo_mdns_result_encode L packet_id query result (srv_domain_suffix server)"

definition osmo_mslookup_server_mdns_handle_request ::
  "osmo_core \<Rightarrow> sqlite_env \<Rightarrow> 16 word \<Rightarrow> osmo_mslookup_server_mdns \<Rightarrow> osmo_mslookup_query \<Rightarrow> osmo_mslookup_result
     \<Rightarrow> 'a dgsm_world_scheme \<Rightarrow> mslookup_server \<Rightarrow> (mslookup_server \<times> octets option) exec" where
  \<comment> \<open>\<open>undef\<close>: the result before it is set\<close>
  "osmo_mslookup_server_mdns_handle_request L E packet_id server query undef s c =
     (case mslookup_server_rx L E query undef s c of
        (c, result) \<Rightarrow>
          if ms_rc result \<noteq> OSMO_MSLOOKUP_RC_RESULT then Ret (c, None)
          else (case osmo_mslookup_server_mdns_tx L server packet_id query result of
                  Fault \<Rightarrow> Fault
                | Ret pkt \<Rightarrow> Ret (c, pkt)))"

definition osmo_mslookup_server_mdns_rx ::
  "osmo_core \<Rightarrow> sqlite_env \<Rightarrow> osmo_mslookup_server_mdns \<Rightarrow> int + octets \<Rightarrow> osmo_mslookup_result \<Rightarrow> 'a dgsm_world_scheme
     \<Rightarrow> mslookup_server \<Rightarrow> (mslookup_server \<times> octets option \<times> int) exec" where
  \<comment> \<open>\<open>rd\<close>: an error of \<open>read\<close>, or the datagram, of which 1024 octets are read; the state, the
    packet sent and the return code\<close>
  "osmo_mslookup_server_mdns_rx L E server rd undef s c =
     (case rd of
        Inl n \<Rightarrow> Ret (c, None, n)
      | Inr d \<Rightarrow>
          let buffer = take 1024 d
          in if buffer = [] then Ret (c, None, 0)
             else (case osmo_mdns_query_decode L buffer (srv_domain_suffix server) of
                     Fault \<Rightarrow> Fault
                   | Ret None \<Rightarrow> Ret (c, None, - 1)
                   | Ret (Some (query, packet_id)) \<Rightarrow>
                       (case osmo_mslookup_server_mdns_handle_request L E packet_id server query undef s c of
                          Fault \<Rightarrow> Fault
                        | Ret (c, pkt) \<Rightarrow> Ret (c, pkt, int (length buffer)))))"

definition osmo_mslookup_server_mdns_start :: "bool \<Rightarrow> osmo_sockaddr_str \<Rightarrow> string \<Rightarrow> osmo_mslookup_server_mdns option" where
  \<comment> \<open>\<open>sock_ok\<close>: \<open>osmo_mdns_sock_init\<close> returns a socket\<close>
  "osmo_mslookup_server_mdns_start sock_ok addr sfx =
     (if sock_ok then Some \<lparr>srv_bind_addr = addr, srv_domain_suffix = sfx\<rparr> else None)"

record mdns_server_cfg =
  srv_allow_startup :: bool
  srv_enable :: bool
  srv_mdns_enable :: bool
  srv_cfg_bind_addr :: osmo_sockaddr_str
  srv_cfg_domain_suffix :: string
  srv_running :: "osmo_mslookup_server_mdns option"

definition mslookup_server_mdns_config_apply :: "osmo_core \<Rightarrow> bool \<Rightarrow> mdns_server_cfg \<Rightarrow> mdns_server_cfg" where
  "mslookup_server_mdns_config_apply L sock_ok c =
     (let should_run = srv_allow_startup c \<and> srv_enable c \<and> srv_mdns_enable c;
          should_stop = (case srv_running c of
             None \<Rightarrow> False
           | Some r \<Rightarrow> \<not> should_run \<or> osmo_sockaddr_str_cmp L (srv_cfg_bind_addr c) (srv_bind_addr r) \<noteq> 0 \<or>
               strcmp (srv_cfg_domain_suffix c) (srv_domain_suffix r) \<noteq> 0);
          c = (if should_stop then c\<lparr>srv_running := None\<rparr> else c)
      in if should_run \<and> srv_running c = None
         then c\<lparr>srv_running := osmo_mslookup_server_mdns_start sock_ok (srv_cfg_bind_addr c) (srv_cfg_domain_suffix c)\<rparr>
         else c)"

end
