(* ===== verification/Auc.thy ===== *)
theory Auc
  imports Gsup_Types
begin

text \<open>
  Computing authentication vectors: \<open>src/auc.c\<close>. The cryptographic functions of libosmocore
  (\<open>osmo_auth_gen_vec\<close>, \<open>osmo_auth_gen_vec_auts\<close>) and the random numbers are the parameters in
  \<open>auth_lib\<close>; a function that updates the sequence number of the key material returns the updated
  material. The random number of the i-th vector is \<open>rand_get i\<close>, None when it cannot be read.
  What the code relies on for the freshness of sequence numbers is \<open>auth_lib_ok\<close>.
\<close>

unbundle bit_operations_syntax

section \<open>Data\<close>

abbreviation (input) OSMO_AUTH_TYPE_NONE :: nat where "OSMO_AUTH_TYPE_NONE \<equiv> 0"
abbreviation (input) OSMO_AUTH_TYPE_GSM :: nat where "OSMO_AUTH_TYPE_GSM \<equiv> 1"
abbreviation (input) OSMO_AUTH_TYPE_UMTS :: nat where "OSMO_AUTH_TYPE_UMTS \<equiv> 2"
abbreviation (input) OSMO_AUTH_ALG_NONE :: nat where "OSMO_AUTH_ALG_NONE \<equiv> 0"
abbreviation (input) OSMO_AUTH_ALG_COMP128v1 :: nat where "OSMO_AUTH_ALG_COMP128v1 \<equiv> 1"
abbreviation (input) OSMO_AUTH_ALG_COMP128v2 :: nat where "OSMO_AUTH_ALG_COMP128v2 \<equiv> 2"
abbreviation (input) OSMO_AUTH_ALG_COMP128v3 :: nat where "OSMO_AUTH_ALG_COMP128v3 \<equiv> 3"
abbreviation (input) OSMO_AUTH_ALG_XOR :: nat where "OSMO_AUTH_ALG_XOR \<equiv> 4"
abbreviation (input) OSMO_AUTH_ALG_MILENAGE :: nat where "OSMO_AUTH_ALG_MILENAGE \<equiv> 5"

record osmo_sub_auth_data =
  aud_type :: nat
  aud_algo :: nat
  aud_ki :: octets
  aud_k :: octets
  aud_opc :: octets
  aud_opc_is_op :: bool
  aud_amf :: octets
  aud_sqn :: "64 word"
  aud_ind :: "32 word"
  aud_ind_bitlen :: nat

definition aud_zero :: osmo_sub_auth_data where
  "aud_zero = \<lparr>aud_type = OSMO_AUTH_TYPE_NONE, aud_algo = OSMO_AUTH_ALG_NONE, aud_ki = replicate 16 NUL,
     aud_k = replicate 16 NUL, aud_opc = replicate 16 NUL, aud_opc_is_op = False, aud_amf = [NUL, NUL],
     aud_sqn = 0, aud_ind = 0, aud_ind_bitlen = 0\<rparr>"

record auth_lib =
  rand_get :: "nat \<Rightarrow> octets option"
  osmo_auth_gen_vec :: "osmo_sub_auth_data \<Rightarrow> octets \<Rightarrow> int \<times> osmo_auth_vector \<times> osmo_sub_auth_data"
  osmo_auth_gen_vec_auts ::
    "osmo_sub_auth_data \<Rightarrow> octets \<Rightarrow> octets \<Rightarrow> octets \<Rightarrow> int \<times> osmo_auth_vector \<times> osmo_sub_auth_data"

section \<open>Operations\<close>

definition gen_vec_3g ::
  "auth_lib \<Rightarrow> (octets \<times> octets) option \<Rightarrow> nat \<Rightarrow> osmo_sub_auth_data \<Rightarrow> octets
     \<Rightarrow> int \<times> osmo_auth_vector \<times> osmo_sub_auth_data" where
  \<comment> \<open>AUTS only for the first vector\<close>
  "gen_vec_3g A resync i aud3g rand =
     (case resync of
        Some (rand_auts, auts) \<Rightarrow>
          if i = 0 then osmo_auth_gen_vec_auts A aud3g auts rand_auts rand else osmo_auth_gen_vec A aud3g rand
      | None \<Rightarrow> osmo_auth_gen_vec A aud3g rand)"

fun auc_vector_loop ::
  "auth_lib \<Rightarrow> (octets \<times> octets) option \<Rightarrow> nat \<Rightarrow> nat \<Rightarrow> osmo_sub_auth_data option \<Rightarrow> osmo_sub_auth_data option
     \<Rightarrow> osmo_auth_vector list \<Rightarrow> osmo_auth_vector list \<times> osmo_sub_auth_data option \<times> osmo_sub_auth_data option" where
  \<comment> \<open>the loop over \<open>i\<close> with \<open>n\<close> iterations left; \<open>vec\<close> holds the vectors computed so far;
    \<open>resync\<close> is the pair of \<open>rand_auts\<close> and \<open>auts\<close>\<close>
  "auc_vector_loop A resync i 0 aud2g aud3g vec = (vec, aud2g, aud3g)"
| "auc_vector_loop A resync i (Suc n) aud2g aud3g vec =
     (case rand_get A i of
        None \<Rightarrow> (vec, aud2g, aud3g)
      | Some rand \<Rightarrow>
        (case aud3g of
           Some a3 \<Rightarrow>
             (case gen_vec_3g A resync i a3 rand of
                (rc, v, a3) \<Rightarrow>
                  if rc < 0 then (vec, aud2g, Some a3)
                  else (case aud2g of
                          None \<Rightarrow> auc_vector_loop A resync (i + 1) n aud2g (Some a3) (vec @ [v])
                        | Some a2 \<Rightarrow>
                            (case osmo_auth_gen_vec A a2 rand of
                               (rc, vtmp, a2) \<Rightarrow>
                                 if rc < 0 then (vec, Some a2, Some a3)
                                 else auc_vector_loop A resync (i + 1) n (Some a2) (Some a3)
                                        (vec @ [v\<lparr>av_kc := av_kc vtmp, av_sres := av_sres vtmp,
                                                  av_auth_types := av_auth_types v OR 1\<rparr>]))))
         | None \<Rightarrow>
             (case aud2g of
                None \<Rightarrow> (vec, aud2g, aud3g)
              | Some a2 \<Rightarrow>
                  (case osmo_auth_gen_vec A a2 rand of
                     (rc, v, a2) \<Rightarrow>
                       if rc < 0 then (vec, Some a2, aud3g)
                       else auc_vector_loop A resync (i + 1) n (Some a2) aud3g (vec @ [v])))))"

definition usable :: "osmo_sub_auth_data \<Rightarrow> osmo_sub_auth_data option" where
  \<comment> \<open>key material without an algorithm or type counts as absent\<close>
  "usable a = (if aud_algo a = OSMO_AUTH_ALG_NONE \<or> aud_type a = OSMO_AUTH_TYPE_NONE then None else Some a)"

definition auc_compute_vectors ::
  "auth_lib \<Rightarrow> nat \<Rightarrow> osmo_sub_auth_data \<Rightarrow> osmo_sub_auth_data \<Rightarrow> octets option \<Rightarrow> octets option
     \<Rightarrow> int \<times> osmo_auth_vector list \<times> osmo_sub_auth_data \<times> osmo_sub_auth_data" where
  \<comment> \<open>the return value, the vectors, and the key material afterwards\<close>
  "auc_compute_vectors A num_vec aud2g aud3g rand_auts auts =
     (let a2 = usable aud2g; a3 = usable aud3g
      in if a2 = None \<and> a3 = None then (-1, [], aud2g, aud3g)
         else if a2 \<noteq> None \<and> aud_type aud2g \<noteq> OSMO_AUTH_TYPE_GSM then (-1, [], aud2g, aud3g)
         else if a3 \<noteq> None \<and> aud_type aud3g \<noteq> OSMO_AUTH_TYPE_UMTS then (-1, [], aud2g, aud3g)
         else if (rand_auts \<noteq> None) \<noteq> (auts \<noteq> None) then (-1, [], aud2g, aud3g)
         else if auts \<noteq> None \<and> a3 = None then (-1, [], aud2g, aud3g)
         else
           let resync = (case (rand_auts, auts) of (Some r, Some s) \<Rightarrow> Some (r, s) | _ \<Rightarrow> None)
           in case auc_vector_loop A resync 0 num_vec a2 a3 [] of
                (vec, a2', a3') \<Rightarrow>
                  (int (length vec), vec,
                   (case a2' of Some a \<Rightarrow> a | None \<Rightarrow> aud2g),
                   (case a3' of Some a \<Rightarrow> a | None \<Rightarrow> aud3g)))"

section \<open>Sequence numbers\<close>

definition auth_lib_ok :: "auth_lib \<Rightarrow> (osmo_auth_vector \<Rightarrow> nat) \<Rightarrow> bool" where
  \<comment> \<open>generating a UMTS vector uses a sequence number above the stored one and stores it; \<open>sqn_of\<close> reads it
    from the vector (it is in the AUTN); with AUTS the sequence number restarts from the SIM's;
    nothing else of the key material changes\<close>
  "auth_lib_ok A sqn_of \<longleftrightarrow>
     (\<forall>a r rc v b. osmo_auth_gen_vec A a r = (rc, v, b) \<and> rc \<ge> 0 \<and> aud_type a = OSMO_AUTH_TYPE_UMTS \<longrightarrow>
        unat (aud_sqn a) < sqn_of v \<and> sqn_of v = unat (aud_sqn b) \<and>
        b = a\<lparr>aud_sqn := aud_sqn b\<rparr>) \<and>
     (\<forall>a r rc v b. osmo_auth_gen_vec A a r = (rc, v, b) \<and> rc < 0 \<longrightarrow> b = a) \<and>
     (\<forall>a s q r rc v b. osmo_auth_gen_vec_auts A a s q r = (rc, v, b) \<longrightarrow>
        (rc \<ge> 0 \<longrightarrow> sqn_of v = unat (aud_sqn b)) \<and> b = a\<lparr>aud_sqn := aud_sqn b\<rparr>) \<and>
     (\<forall>v k s t. sqn_of (v\<lparr>av_kc := k, av_sres := s, av_auth_types := t\<rparr>) = sqn_of v)"

lemma auc_vector_loop_length:
  "auc_vector_loop A rs i n a2 a3 vec = (vec', a2', a3') \<Longrightarrow>
     length vec \<le> length vec' \<and> length vec' \<le> length vec + n"
  by (induction A rs i n a2 a3 vec arbitrary: vec' a2' a3' rule: auc_vector_loop.induct)
    (fastforce split: option.splits prod.splits if_splits nat.splits)+

lemma auth_lib_okD:
  assumes "auth_lib_ok A sqn_of"
  shows "osmo_auth_gen_vec A a r = (rc, v, b) \<Longrightarrow> \<not> rc < 0 \<Longrightarrow> aud_type a = OSMO_AUTH_TYPE_UMTS \<Longrightarrow>
      unat (aud_sqn a) < sqn_of v \<and> sqn_of v = unat (aud_sqn b) \<and> b = a\<lparr>aud_sqn := aud_sqn b\<rparr>"
    and "osmo_auth_gen_vec A a r = (rc, v, b) \<Longrightarrow> rc < 0 \<Longrightarrow> b = a"
    and "osmo_auth_gen_vec_auts A a s q r = (rc, v, b) \<Longrightarrow> b = a\<lparr>aud_sqn := aud_sqn b\<rparr>"
    and "sqn_of (v\<lparr>av_kc := k, av_sres := u, av_auth_types := t\<rparr>) = sqn_of v"
    and "osmo_auth_gen_vec_auts A a s q r = (rc, v, b) \<Longrightarrow> \<not> rc < 0 \<Longrightarrow> sqn_of v = unat (aud_sqn b)"
  using assms unfolding auth_lib_ok_def not_less by metis+

lemma same_keys: "b = a\<lparr>aud_sqn := s\<rparr> \<Longrightarrow> aud_type b = aud_type a \<and> aud_algo b = aud_algo a"
  by simp

definition fresh_sqns :: "(osmo_auth_vector \<Rightarrow> nat) \<Rightarrow> nat \<Rightarrow> osmo_auth_vector list \<Rightarrow> nat \<Rightarrow> bool" where
  \<comment> \<open>sequence numbers strictly increase from above \<open>lo\<close> and stay at or below \<open>hi\<close>\<close>
  "fresh_sqns sqn_of lo vs hi \<longleftrightarrow>
     sorted_wrt (<) (lo # map sqn_of vs) \<and> lo \<le> hi \<and> (\<forall>v\<in>set vs. sqn_of v \<le> hi)"

lemma fresh_sqns_Nil [simp]: "fresh_sqns f lo [] hi \<longleftrightarrow> lo \<le> hi"
  by (simp add: fresh_sqns_def)

lemma fresh_sqns_Cons: "lo < f v \<Longrightarrow> fresh_sqns f (f v) vs hi \<Longrightarrow> fresh_sqns f lo (v # vs) hi"
  by (auto simp: fresh_sqns_def)

definition loop_fresh ::
  "(osmo_auth_vector \<Rightarrow> nat) \<Rightarrow> nat \<Rightarrow> osmo_auth_vector list
     \<Rightarrow> osmo_auth_vector list \<times> osmo_sub_auth_data option \<times> osmo_sub_auth_data option \<Rightarrow> bool" where
  "loop_fresh sqn_of lo vec r \<longleftrightarrow> (\<exists>new a2' b. r = (vec @ new, a2', Some b) \<and>
     fresh_sqns sqn_of lo new (unat (aud_sqn b)))"

lemma loop_fresh_stop: "lo \<le> unat (aud_sqn b) \<Longrightarrow> loop_fresh f lo vec (vec, a2, Some b)"
  unfolding loop_fresh_def by (intro exI [of _ "[]"]) simp

lemma loop_fresh_step:
  assumes "lo < f v" and "loop_fresh f (f v) (vec @ [v]) r"
  shows "loop_fresh f lo vec r"
proof -
  from assms(2) obtain new a2' b where r: "r = ((vec @ [v]) @ new, a2', Some b)"
    "fresh_sqns f (f v) new (unat (aud_sqn b))" by (auto simp: loop_fresh_def)
  then show ?thesis
    unfolding loop_fresh_def using fresh_sqns_Cons [of lo f v, OF assms(1)] by (intro exI [of _ "v # new"]) auto
qed

lemma auc_vector_loop_fresh:
  assumes ok: "auth_lib_ok A sqn_of"
  shows "resync = None \<or> 0 < i \<Longrightarrow> aud_type a3 = OSMO_AUTH_TYPE_UMTS \<Longrightarrow>
    loop_fresh sqn_of (unat (aud_sqn a3)) vec (auc_vector_loop A resync i n a2 (Some a3) vec)"
proof (induction n arbitrary: i a2 a3 vec)
  case (Suc n)
  show ?case
  proof (cases "rand_get A i")
    case None
    then show ?thesis by (simp add: loop_fresh_stop)
  next
    case (Some rand)
    obtain rc v b where gen: "osmo_auth_gen_vec A a3 rand = (rc, v, b)" by (metis prod_cases3)
    have sel: "gen_vec_3g A resync i a3 rand = (rc, v, b)"
      using Suc.prems(1) gen by (auto simp: gen_vec_3g_def split: option.splits)
    note d = auth_lib_okD [OF ok]
    show ?thesis
    proof (cases "rc < 0")
      case True
      then show ?thesis using Some sel d(2) [OF gen] by (simp add: loop_fresh_stop)
    next
      case False
      note u = d(1) [OF gen False Suc.prems(2)]
      have "aud_type b = aud_type a3" using u same_keys by blast
      then have ty: "aud_type b = OSMO_AUTH_TYPE_UMTS" using Suc.prems(2) by (rule trans)
      have up: "unat (aud_sqn a3) < sqn_of v" "sqn_of v = unat (aud_sqn b)" using u by blast+
      have ih: "loop_fresh sqn_of (unat (aud_sqn b)) w (auc_vector_loop A resync (i + 1) n a (Some b) w)" for a w
        using ty by (intro Suc.IH) simp_all
      show ?thesis
      proof (cases a2)
        case None
        then show ?thesis using Some sel False up ih [of "vec @ [v]" None] by (auto intro: loop_fresh_step [of _ _ v])
      next
        case (Some c)
        obtain rc2 t c2 where g2: "osmo_auth_gen_vec A c rand = (rc2, t, c2)" by (metis prod_cases3)
        let ?v = "v\<lparr>av_kc := av_kc t, av_sres := av_sres t, av_auth_types := av_auth_types v OR 1\<rparr>"
        have "sqn_of ?v = sqn_of v" by (rule d(4))
        with Some g2 sel False up \<open>rand_get A i = Some rand\<close> ih [of "vec @ [?v]" "Some c2"] show ?thesis
          by (auto intro: loop_fresh_step [of _ _ ?v] loop_fresh_stop)
      qed
    qed
  qed
qed (simp add: loop_fresh_stop)

lemma auc_compute_count:
  assumes "auc_compute_vectors A n aud2g aud3g rand_auts auts = (rc, vec, a2, a3)"
  shows "length vec \<le> n \<and> (rc = int (length vec) \<or> rc = -1 \<and> vec = [])"
  using assms auc_vector_loop_length [of A _ 0 n "usable aud2g" "usable aud3g" "[]"]
  by (auto simp: auc_compute_vectors_def Let_def split: if_splits prod.splits)

lemma auc_compute_fresh:
  assumes "auth_lib_ok A sqn_of" and "usable aud3g = Some aud3g" and "auts = None"
    and "auc_compute_vectors A n aud2g aud3g rand_auts auts = (rc, vec, a2, a3)"
  shows "fresh_sqns sqn_of (unat (aud_sqn aud3g)) vec (unat (aud_sqn a3))"
proof (cases "rc = -1")
  case True
  with auc_compute_count [OF assms(4)] have "vec = []" by auto
  moreover have "rc = -1 \<Longrightarrow> a3 = aud3g"
    using assms(4) by (auto simp: auc_compute_vectors_def Let_def split: if_splits prod.splits)
  ultimately show ?thesis using True by simp
next
  case False
  then have u: "aud_type aud3g = OSMO_AUTH_TYPE_UMTS" "rand_auts = None"
    using assms(2-4) by (auto simp: auc_compute_vectors_def Let_def split: if_splits)
  from auc_vector_loop_fresh [OF assms(1) disjI1 [OF refl] u(1), of "[]" 0 n "usable aud2g"]
  obtain new a2' b where l: "auc_vector_loop A None 0 n (usable aud2g) (Some aud3g) [] = (new, a2', Some b)"
    "fresh_sqns sqn_of (unat (aud_sqn aud3g)) new (unat (aud_sqn b))"
    by (auto simp: loop_fresh_def)
  with assms(2-4) u False show ?thesis
    by (auto simp: auc_compute_vectors_def Let_def split: if_splits)
qed

definition rising_sqns :: "(osmo_auth_vector \<Rightarrow> nat) \<Rightarrow> osmo_auth_vector list \<Rightarrow> nat \<Rightarrow> bool" where
  \<comment> \<open>sequence numbers strictly increase, from wherever, up to \<open>hi\<close>\<close>
  "rising_sqns sqn_of vs hi \<longleftrightarrow> sorted_wrt (<) (map sqn_of vs) \<and> (\<forall>v\<in>set vs. sqn_of v \<le> hi)"

lemma fresh_rising: "fresh_sqns f lo vs hi \<Longrightarrow> rising_sqns f vs hi"
  by (simp add: fresh_sqns_def rising_sqns_def)

lemma resync_loop_rising:
  assumes ok: "auth_lib_ok A sqn_of" and ty: "aud_type a3 = OSMO_AUTH_TYPE_UMTS"
  shows "\<exists>vec a2' b. auc_vector_loop A (Some r) 0 n a2 (Some a3) [] = (vec, a2', Some b) \<and> rising_sqns sqn_of vec (unat (aud_sqn b))"
proof (cases n)
  case (Suc m)
  show ?thesis
  proof (cases "rand_get A 0")
    case (Some rand)
    note d = auth_lib_okD [OF ok]
    obtain rc v b where g: "osmo_auth_gen_vec_auts A a3 (snd r) (fst r) rand = (rc, v, b)" by (metis prod_cases3)
    then have sel: "gen_vec_3g A (Some r) 0 a3 rand = (rc, v, b)" by (cases r) (simp add: gen_vec_3g_def)
    show ?thesis
    proof (cases "rc < 0")
      case False
      have b: "aud_type b = OSMO_AUTH_TYPE_UMTS" using same_keys [OF d(3) [OF g]] ty by simp
      have cont: "\<exists>new x c. auc_vector_loop A (Some r) 1 m a (Some b) [w] = (w # new, x, Some c) \<and>
          rising_sqns sqn_of (w # new) (unat (aud_sqn c))" if "sqn_of w = unat (aud_sqn b)" for a w
      proof -
        have "loop_fresh sqn_of (unat (aud_sqn b)) [w] (auc_vector_loop A (Some r) 1 m a (Some b) [w])"
          by (rule auc_vector_loop_fresh [OF ok _ b]) simp
        then show ?thesis using that by (auto simp: loop_fresh_def fresh_sqns_def rising_sqns_def)
      qed
      show ?thesis
      proof (cases a2)
        case None
        then show ?thesis using Suc Some sel False cont [of v None] d(5) [OF g False] by auto
      next
        case (Some c)
        obtain rc2 t c2 where g2: "osmo_auth_gen_vec A c rand = (rc2, t, c2)" by (metis prod_cases3)
        let ?v = "v\<lparr>av_kc := av_kc t, av_sres := av_sres t, av_auth_types := av_auth_types v OR 1\<rparr>"
        have "sqn_of ?v = unat (aud_sqn b)" using d(4) d(5) [OF g False] by simp
        with Suc Some g2 sel False \<open>rand_get A 0 = Some rand\<close> cont [of ?v "Some c2"] show ?thesis
          by (auto simp: rising_sqns_def)
      qed
    qed (use Suc Some sel in \<open>simp add: rising_sqns_def\<close>)
  qed (simp add: Suc rising_sqns_def)
qed (simp add: rising_sqns_def)

lemma auc_compute_rising:
  assumes "auth_lib_ok A sqn_of" and "usable aud3g = Some aud3g"
    and "auc_compute_vectors A n aud2g aud3g rand_auts auts = (rc, vec, a2, a3)"
  shows "rising_sqns sqn_of vec (unat (aud_sqn a3))"
proof (cases "auts = None \<or> rc = -1")
  case True
  then show ?thesis
    using fresh_rising [OF auc_compute_fresh [OF assms(1,2) _ assms(3)]] auc_compute_count [OF assms(3)]
    by (auto simp: rising_sqns_def)
next
  case False
  then obtain r q where "rand_auts = Some r" "auts = Some q" "aud_type aud3g = OSMO_AUTH_TYPE_UMTS"
    using assms(2,3) by (auto simp: auc_compute_vectors_def Let_def split: if_splits)
  with False assms(2,3) resync_loop_rising [OF assms(1), of aud3g "(r, q)" n "usable aud2g"] show ?thesis
    by (auto simp: auc_compute_vectors_def Let_def split: if_splits)
qed

lemma auc_compute_unused:
  assumes "usable aud3g = None" and "auc_compute_vectors A n aud2g aud3g rand_auts auts = (rc, vec, a2, a3)"
  shows "a3 = aud3g"
proof -
  have "auc_vector_loop A rs i k b2 None w = (w', b2', b3) \<Longrightarrow> b3 = None" for rs i k b2 w w' b2' b3
    by (induction A rs i k b2 "None :: osmo_sub_auth_data option" w arbitrary: w' b2' b3
        rule: auc_vector_loop.induct) (auto split: option.splits prod.splits if_splits)
  with assms show ?thesis
    by (fastforce simp: auc_compute_vectors_def Let_def split: if_splits prod.splits option.splits)
qed

lemma auc_vector_loop_algo:
  assumes ok: "auth_lib_ok A sqn_of"
  shows "aud_type a3 = OSMO_AUTH_TYPE_UMTS \<Longrightarrow>
    \<exists>vec' a2' b. auc_vector_loop A resync i n a2 (Some a3) vec = (vec', a2', Some b) \<and> aud_algo b = aud_algo a3"
proof (induction n arbitrary: i a2 a3 vec)
  case (Suc n)
  show ?case
  proof (cases "rand_get A i")
    case (Some rand)
    note d = auth_lib_okD [OF ok]
    obtain rc v b where g: "gen_vec_3g A resync i a3 rand = (rc, v, b)" by (metis prod_cases3)
    have "aud_type b = aud_type a3 \<and> aud_algo b = aud_algo a3"
    proof (cases "\<exists>ra s. osmo_auth_gen_vec_auts A a3 s ra rand = (rc, v, b)")
      case True
      then show ?thesis using d(3) same_keys by blast
    next
      case False
      then have "osmo_auth_gen_vec A a3 rand = (rc, v, b)"
        using g by (auto simp: gen_vec_3g_def split: option.splits if_splits)
      then show ?thesis using d(1) [OF _ _ Suc.prems] d(2) same_keys by blast
    qed
    then have b: "aud_type b = OSMO_AUTH_TYPE_UMTS" "aud_algo b = aud_algo a3" using Suc.prems by simp_all
    from Suc.IH [OF b(1)] b(2) Some g show ?thesis
      by (cases a2) (simp_all split: prod.splits)
  qed simp
qed simp

lemma auc_compute_algo:
  assumes "auth_lib_ok A sqn_of" and "auc_compute_vectors A n aud2g aud3g rand_auts auts = (rc, vec, a2, a3)"
  shows "aud_algo a3 = aud_algo aud3g"
proof (cases "usable aud3g = None \<or> rc = -1")
  case True
  then show ?thesis
    using assms(2) auc_compute_unused [OF _ assms(2)]
    by (auto simp: auc_compute_vectors_def Let_def split: if_splits prod.splits)
next
  case False
  then have u: "usable aud3g = Some aud3g" "aud_type aud3g = OSMO_AUTH_TYPE_UMTS"
    using assms(2) by (auto simp: usable_def auc_compute_vectors_def Let_def split: if_splits)
  define R where "R = (case (rand_auts, auts) of (Some r, Some s) \<Rightarrow> Some (r, s) | _ \<Rightarrow> None)"
  obtain vec' a2' b where "auc_vector_loop A R 0 n (usable aud2g) (Some aud3g) [] = (vec', a2', Some b)"
      "aud_algo b = aud_algo aud3g"
    using auc_vector_loop_algo [OF assms(1) u(2)] by blast
  then show ?thesis
    using u False assms(2) unfolding auc_compute_vectors_def Let_def R_def [symmetric] by (auto split: if_splits)
qed

section \<open>An instance\<close>

definition ref_vector :: "nat \<Rightarrow> osmo_auth_vector" where
  "ref_vector n = \<lparr>av_rand = [], av_autn = show_dec n, av_ck = [], av_ik = [], av_res = [], av_kc = [],
     av_sres = [], av_auth_types = 2\<rparr>"

definition ref_auth :: auth_lib where
  \<comment> \<open>every generation adds 32 to the sequence number, until it would wrap; every AUTS says 1000\<close>
  "ref_auth = \<lparr>rand_get = (\<lambda>_. Some (replicate 16 NUL)),
     osmo_auth_gen_vec = (\<lambda>a r. if unat (aud_sqn a) + 32 < 2 ^ 64
        then (0, ref_vector (unat (aud_sqn a) + 32), a\<lparr>aud_sqn := of_nat (unat (aud_sqn a) + 32)\<rparr>)
        else (-1, ref_vector 0, a)),
     osmo_auth_gen_vec_auts = (\<lambda>a s q r. (0, ref_vector 1032, a\<lparr>aud_sqn := 1032\<rparr>))\<rparr>"

definition ref_sqn :: "osmo_auth_vector \<Rightarrow> nat" where
  "ref_sqn v = dec_val (av_autn v) 0"

lemma ref_auth_ok: "auth_lib_ok ref_auth ref_sqn"
  by (auto simp: auth_lib_ok_def ref_auth_def ref_sqn_def ref_vector_def show_dec_val unat_word_ariths split: if_splits)

end
