(* ===== verification/Db_Auc.thy ===== *)
theory Db_Auc
  imports Db_Hlr Auc
begin

text \<open>
  Authentication data in the database: \<open>src/db_auc.c\<close>. \<open>db_get_auc\<close> reads the keys of a
  subscriber, generates vectors and writes the advanced sequence number back.
\<close>

section \<open>Operations\<close>

definition db_update_sqn :: "sqlite_env \<Rightarrow> int \<Rightarrow> 64 word \<Rightarrow> hlr_db \<Rightarrow> hlr_db \<times> int" where
  "db_update_sqn E sid new_sqn db =
     (if \<not> db_bind E DB_STMT_AUC_UPD_SQN ''$sqn'' then (db, - EIO)
      else if \<not> db_bind E DB_STMT_AUC_UPD_SQN ''$subscriber_id'' then (db, - EIO)
      else (case step_change E DB_STMT_AUC_UPD_SQN (sql_auc_upd_sqn new_sqn sid) (tbl_auc_3g db) of
              Inl _ \<Rightarrow> (db, - EIO)
            | Inr (t, n) \<Rightarrow> (db\<lparr>tbl_auc_3g := t\<rparr>, changes_rc n)))"

definition hexparse_stmt :: "osmo_core \<Rightarrow> nat \<Rightarrow> string option \<Rightarrow> octets option" where
  \<comment> \<open>None is \<open>-EIO\<close>; a NULL column has no bytes\<close>
  "hexparse_stmt L dst_len col =
     (let col_len = (case col of None \<Rightarrow> 0 | Some s \<Rightarrow> length s) div 2
      in if col_len \<noteq> dst_len then None
         else (case col of None \<Rightarrow> None | Some text \<Rightarrow> Some (osmo_hexparse L text)))"

definition db_get_auth_data ::
  "osmo_core \<Rightarrow> sqlite_env \<Rightarrow> string \<Rightarrow> hlr_db
     \<Rightarrow> int \<times> osmo_sub_auth_data \<times> osmo_sub_auth_data \<times> int" where
  \<comment> \<open>return code, 2G data, 3G data, subscriber id (0 where it is not set)\<close>
  "db_get_auth_data L E imsi db =
     (if \<not> db_bind E DB_STMT_AUC_BY_IMSI ''$imsi'' then (- EIO, aud_zero, aud_zero, 0)
      else (case step_error E DB_STMT_AUC_BY_IMSI of
        Some _ \<Rightarrow> (- EIO, aud_zero, aud_zero, 0)
      | None \<Rightarrow>
        (case sql_auc_by_imsi imsi db of
           None \<Rightarrow> (- ENOENT, aud_zero, aud_zero, 0)
         | Some (sid, row2, row3) \<Rightarrow>
             let aud2g = (case row2 of
                   None \<Rightarrow> aud_zero
                 | Some a \<Rightarrow>
                     (case hexparse_stmt L 16 (Some (a2_ki a)) of
                        None \<Rightarrow> aud_zero
                      | Some ki \<Rightarrow> aud_zero\<lparr>aud_ki := ki, aud_algo := a2_algo_id a, aud_type := OSMO_AUTH_TYPE_GSM\<rparr>))
             in (case row3 of
                  None \<Rightarrow> (if aud_type aud2g = 0 then - ENOKEY else 0, aud2g, aud_zero, sid)
                | Some a \<Rightarrow>
                    (case hexparse_stmt L 16 (Some (a3_k a)) of
                       None \<Rightarrow> (- EIO, aud2g, aud_zero, sid)
                     | Some k \<Rightarrow>
                         let aud3g = aud_zero\<lparr>aud_k := k, aud_algo := a3_algo_id a\<rparr>;
                             is_op = (a3_op a \<noteq> None)
                         in (case hexparse_stmt L 16 (if is_op then a3_op a else a3_opc a) of
                               None \<Rightarrow> (- EIO, aud2g, aud3g, sid)
                             | Some opc \<Rightarrow>
                                 (0, aud2g, aud3g\<lparr>aud_opc := opc, aud_opc_is_op := is_op, aud_sqn := a3_sqn a,
                                    aud_ind_bitlen := a3_ind_bitlen a, aud_type := OSMO_AUTH_TYPE_UMTS\<rparr>, sid)))))))"

definition db_get_auc ::
  "osmo_core \<Rightarrow> auth_lib \<Rightarrow> sqlite_env \<Rightarrow> string \<Rightarrow> 32 word \<Rightarrow> nat \<Rightarrow> octets option \<Rightarrow> octets option \<Rightarrow> bool
     \<Rightarrow> hlr_db \<Rightarrow> hlr_db \<times> int \<times> osmo_auth_vector list" where
  "db_get_auc L A E imsi ind3g num_vec rand_auts auts separation_bit db =
     (case db_get_auth_data L E imsi db of
        (rc, aud2g, aud3g, sid) \<Rightarrow>
          if rc \<noteq> 0 then (db, rc, [])
          else
            let ind = ind3g AND (push_bit (aud_ind_bitlen aud3g) 1 - 1);
                aud3g = aud3g\<lparr>aud_ind := ind,
                  aud_amf := (aud_amf aud3g)[0 := char_of (octet_val (aud_amf aud3g ! 0) mod 128 +
                                (if separation_bit then 128 else 0))]\<rparr>
            in (case auc_compute_vectors A num_vec aud2g aud3g rand_auts auts of
                  (rc, vec, _, aud3g) \<Rightarrow>
                    let ret = (if rc < 0 then -1 else rc)
                    in if aud_algo aud3g \<noteq> 0 then
                         (case db_update_sqn E sid (aud_sqn aud3g) db of
                            (db, rc) \<Rightarrow> if rc < 0 then (db, -1, vec) else (db, ret, vec))
                       else (db, ret, vec)))"

section \<open>Lemmas\<close>

definition keys_3g :: "hlr_db \<Rightarrow> string \<Rightarrow> auc_3g_row option" where
  \<comment> \<open>the 3G row of the subscriber with this IMSI\<close>
  "keys_3g db imsi = (case sql_auc_by_imsi imsi db of None \<Rightarrow> None | Some (_, _, a) \<Rightarrow> a)"

lemma auth_data_3g:
  assumes "db_get_auth_data L E imsi db = (0, aud2g, aud3g, sid)"
  shows "case keys_3g db imsi of
      None \<Rightarrow> aud3g = aud_zero
    | Some a \<Rightarrow> aud_type aud3g = OSMO_AUTH_TYPE_UMTS \<and> aud_algo aud3g = a3_algo_id a \<and> aud_sqn aud3g = a3_sqn a \<and>
        aud_ind_bitlen aud3g = a3_ind_bitlen a \<and> a3_subscriber_id a = sid \<and> a \<in> set (tbl_auc_3g db)"
  using assms
  by (auto simp: db_get_auth_data_def keys_3g_def sql_auc_by_imsi_def Let_def dest: find_SomeD
      split: if_splits option.splits)

lemma update_sqn_cases:
  assumes "db_wf db" and "a \<in> set (tbl_auc_3g db)" and "a3_subscriber_id a = sid"
    and "db_update_sqn E sid sqn db = (db', rc)"
  shows "rc = 0 \<and> db' = db\<lparr>tbl_auc_3g := map (\<lambda>r. if a3_subscriber_id r = sid then r\<lparr>a3_sqn := sqn\<rparr> else r) (tbl_auc_3g db)\<rparr>
    \<or> rc = - EIO \<and> db' = db"
proof -
  have "length (filter (\<lambda>r. a3_subscriber_id r = sid) (tbl_auc_3g db)) = 1"
    using update_count [of a3_subscriber_id "tbl_auc_3g db" "\<lambda>r. a3_subscriber_id r = sid" sid] assms(1-3)
    by (auto simp: db_wf_def)
  then show ?thesis
    using assms(4)
    by (auto simp: db_update_sqn_def sql_auc_upd_sqn_def sql_update_def step_change_def changes_rc_def
        split: if_splits option.splits)
qed

lemma keys_3g_set_sqn:
  assumes "keys_3g db imsi = Some a"
  shows "keys_3g (db\<lparr>tbl_auc_3g := map (\<lambda>r. if a3_subscriber_id r = a3_subscriber_id a then r\<lparr>a3_sqn := sqn\<rparr> else r)
    (tbl_auc_3g db)\<rparr>) imsi = Some (a\<lparr>a3_sqn := sqn\<rparr>)"
proof -
  have upd: "List.find (\<lambda>r. a3_subscriber_id r = i) (map (\<lambda>r. if a3_subscriber_id r = j then r\<lparr>a3_sqn := sqn\<rparr> else r) t) =
      map_option (\<lambda>r. if a3_subscriber_id r = j then r\<lparr>a3_sqn := sqn\<rparr> else r)
        (List.find (\<lambda>r. a3_subscriber_id r = i) t)" for i j t
    by (rule find_map_same) simp
  show ?thesis
    using assms by (auto simp: keys_3g_def sql_auc_by_imsi_def upd dest: find_SomeD split: option.splits)
qed

lemma wf_update_sqn: "db_wf db \<Longrightarrow> db_wf (fst (db_update_sqn E sid sqn db))"
  using map_update_key [of a3_subscriber_id "\<lambda>r. r\<lparr>a3_sqn := sqn\<rparr>" "\<lambda>r. a3_subscriber_id r = sid" "tbl_auc_3g db"]
  by (simp add: db_update_sqn_def sql_auc_upd_sqn_def sql_update_def step_change_def db_wf_def del: map_map
      split: option.splits)

section \<open>Sequence numbers are persisted before vectors leave\<close>

lemma get_auc_keys:
  assumes "db_wf db" and "auth_lib_ok A sqn_of" and "keys_3g db imsi = Some a" and "a3_algo_id a \<noteq> 0"
    and "db_get_auc L A E imsi ind n rand auts sep db = (db', ret, vec)"
  shows "db_wf db' \<and> (\<exists>sqn. keys_3g db' imsi = Some (a\<lparr>a3_sqn := sqn\<rparr>) \<and>
    (if ret < 0 then db' = db \<or> vec = [] \<and> sqn = a3_sqn a
     else ret = int (length vec) \<and> length vec \<le> n \<and> rising_sqns sqn_of vec (unat sqn) \<and>
       (auts = None \<longrightarrow> fresh_sqns sqn_of (unat (a3_sqn a)) vec (unat sqn))))"
proof (cases "fst (db_get_auth_data L E imsi db) = 0")
  case False
  then have "db' = db \<and> ret = fst (db_get_auth_data L E imsi db)"
    using assms(5) by (auto simp: db_get_auc_def split: prod.splits)
  moreover have "fst (db_get_auth_data L E imsi db) \<le> 0"
    by (auto simp: db_get_auth_data_def Let_def split: option.splits prod.splits)
  ultimately show ?thesis using False assms(1,3) by (auto intro!: exI [of _ "a3_sqn a"])
next
  case True
  then obtain aud2g aud3g sid where d: "db_get_auth_data L E imsi db = (0, aud2g, aud3g, sid)"
    by (metis prod_cases4 fst_conv)
  from auth_data_3g [OF d] assms(3) have f: "aud_type aud3g = OSMO_AUTH_TYPE_UMTS" "aud_algo aud3g = a3_algo_id a"
    "aud_sqn aud3g = a3_sqn a" "a3_subscriber_id a = sid" "a \<in> set (tbl_auc_3g db)" by simp_all
  define in3 where "in3 = aud3g\<lparr>aud_ind := ind AND (push_bit (aud_ind_bitlen aud3g) 1 - 1),
    aud_amf := (aud_amf aud3g)[0 := char_of (octet_val (aud_amf aud3g ! 0) mod 128 + (if sep then 128 else 0))]\<rparr>"
  obtain rc w a2 a3 where c: "auc_compute_vectors A n aud2g in3 rand auts = (rc, w, a2, a3)" by (metis prod_cases4)
  have algo: "aud_algo a3 \<noteq> 0" using auc_compute_algo [OF assms(2) c] f(2) assms(4) by (simp add: in3_def)
  have in3: "usable in3 = Some in3" using f assms(4) by (simp add: usable_def in3_def)
  have fresh: "auts = None \<longrightarrow> fresh_sqns sqn_of (unat (a3_sqn a)) w (unat (aud_sqn a3))"
    using auc_compute_fresh [OF assms(2) in3 _ c] f(3) by (simp add: in3_def)
  note rising = auc_compute_rising [OF assms(2) in3 c]
  note cnt = auc_compute_count [OF c]
  obtain db1 urc where u: "db_update_sqn E sid (aud_sqn a3) db = (db1, urc)" by (metis surj_pair)
  from assms(5) have res: "db' = db1 \<and> vec = w \<and> ret = (if urc < 0 then -1 else if rc < 0 then -1 else rc)"
    unfolding db_get_auc_def d using algo c u by (simp add: in3_def Let_def split: if_splits)
  have wf: "db_wf db1" using wf_update_sqn [OF assms(1), of E sid "aud_sqn a3"] u by simp
  have unch: "rc < 0 \<Longrightarrow> w = [] \<and> aud_sqn a3 = a3_sqn a"
    using c cnt f(3) by (auto simp: auc_compute_vectors_def Let_def in3_def split: if_splits prod.splits)
  from update_sqn_cases [OF assms(1) f(5,4) u] show ?thesis
  proof
    assume "urc = 0 \<and> db1 = db\<lparr>tbl_auc_3g :=
      map (\<lambda>r. if a3_subscriber_id r = sid then r\<lparr>a3_sqn := aud_sqn a3\<rparr> else r) (tbl_auc_3g db)\<rparr>"
    then show ?thesis
      using keys_3g_set_sqn [OF assms(3), of "aud_sqn a3"] f(4) res wf unch cnt fresh rising
      by (intro conjI exI [of _ "aud_sqn a3"]) (auto split: if_splits)
  next
    assume "urc = - EIO \<and> db1 = db"
    then show ?thesis using res assms(1,3) by (intro conjI exI [of _ "a3_sqn a"]) simp_all
  qed
qed

type_synonym auc_request = "sqlite_env \<times> 32 word \<times> nat \<times> bool \<times> octets option \<times> octets option"

fun auc_requests ::
  "osmo_core \<Rightarrow> auth_lib \<Rightarrow> string \<Rightarrow> auc_request list \<Rightarrow> hlr_db \<Rightarrow> hlr_db \<times> osmo_auth_vector list" where
  \<comment> \<open>the vectors handed out by a series of requests for one IMSI, each with its own faults of SQLite and its own RAND and AUTS\<close>
  "auc_requests L A imsi [] db = (db, [])"
| "auc_requests L A imsi ((E, ind, n, sep, rand_auts, auts) # rs) db =
     (case db_get_auc L A E imsi ind n rand_auts auts sep db of
        (db', ret, vec) \<Rightarrow>
          (case auc_requests L A imsi rs db' of (db'', vs) \<Rightarrow> (db'', (if ret < 0 then [] else vec) @ vs)))"

definition no_auts :: "auc_request \<Rightarrow> bool" where
  "no_auts q \<longleftrightarrow> (case q of (_, _, _, _, _, auts) \<Rightarrow> auts = None)"

abbreviation vectors_of where
  "vectors_of L A imsi rs db \<equiv> snd (auc_requests L A imsi rs db)"

lemma auc_request_step:
  assumes "auth_lib_ok A sqn_of" and "db_wf db" and "keys_3g db imsi = Some a" and "a3_algo_id a \<noteq> 0"
  obtains db' vs sqn where "db_wf db'" and "keys_3g db' imsi = Some (a\<lparr>a3_sqn := sqn\<rparr>)"
    and "auc_requests L A imsi (q # rs) db = (fst (auc_requests L A imsi rs db'), vs @ vectors_of L A imsi rs db')"
    and "rising_sqns sqn_of vs (unat sqn)" and "no_auts q \<Longrightarrow> fresh_sqns sqn_of (unat (a3_sqn a)) vs (unat sqn)"
proof -
  obtain E ind n sep rand auts where q: "q = (E, ind, n, sep, rand, auts)" by (metis prod_cases6)
  obtain db' ret vec where g: "db_get_auc L A E imsi ind n rand auts sep db = (db', ret, vec)" by (metis prod_cases3)
  from get_auc_keys [OF assms(2,1,3,4) g] obtain sqn where
    k: "db_wf db'" "keys_3g db' imsi = Some (a\<lparr>a3_sqn := sqn\<rparr>)" and
    r: "if ret < 0 then db' = db \<or> vec = [] \<and> sqn = a3_sqn a
        else ret = int (length vec) \<and> length vec \<le> n \<and> rising_sqns sqn_of vec (unat sqn) \<and>
          (auts = None \<longrightarrow> fresh_sqns sqn_of (unat (a3_sqn a)) vec (unat sqn))" by blast
  have same: "sqn = a3_sqn a" if "ret < 0" using r k(2) assms(3) that by (cases a) auto
  show ?thesis
    by (rule that [OF k, of "if ret < 0 then [] else vec"])
      (use q g r same in \<open>auto simp: rising_sqns_def no_auts_def split: prod.splits\<close>)
qed

lemma auc_requests_keys:
  assumes "auth_lib_ok A sqn_of"
  shows "db_wf db \<Longrightarrow> keys_3g db imsi = Some a \<Longrightarrow> a3_algo_id a \<noteq> 0 \<Longrightarrow> auc_requests L A imsi rs db = (db', vs) \<Longrightarrow>
    db_wf db' \<and> (\<exists>sqn. keys_3g db' imsi = Some (a\<lparr>a3_sqn := sqn\<rparr>))"
proof (induction rs arbitrary: db a vs)
  case Nil
  then show ?case by (auto intro!: exI [of _ "a3_sqn a"])
next
  case (Cons q rs)
  obtain d ws sqn where s: "db_wf d" "keys_3g d imsi = Some (a\<lparr>a3_sqn := sqn\<rparr>)"
    "auc_requests L A imsi (q # rs) db = (fst (auc_requests L A imsi rs d), ws @ vectors_of L A imsi rs d)"
    using auc_request_step [OF assms Cons.prems(1-3)] by metis
  have "auc_requests L A imsi rs d = (db', vectors_of L A imsi rs d)" using s(3) Cons.prems(4) by (simp add: prod_eq_iff)
  with Cons.IH [OF s(1,2)] Cons.prems(3) show ?case by auto
qed

lemma auc_requests_above:
  assumes "auth_lib_ok A sqn_of"
  shows "db_wf db \<Longrightarrow> keys_3g db imsi = Some a \<Longrightarrow> a3_algo_id a \<noteq> 0 \<Longrightarrow> list_all no_auts rs \<Longrightarrow>
    sorted_wrt (<) (unat (a3_sqn a) # map sqn_of (vectors_of L A imsi rs db))"
proof (induction rs arbitrary: db a)
  case (Cons q rs)
  obtain d ws sqn where s: "db_wf d" "keys_3g d imsi = Some (a\<lparr>a3_sqn := sqn\<rparr>)"
    "auc_requests L A imsi (q # rs) db = (fst (auc_requests L A imsi rs d), ws @ vectors_of L A imsi rs d)"
    "fresh_sqns sqn_of (unat (a3_sqn a)) ws (unat sqn)"
    using auc_request_step [OF assms Cons.prems(1-3)] Cons.prems(4) by (metis list.pred_inject(2))
  have "sorted_wrt (<) (unat sqn # map sqn_of (vectors_of L A imsi rs d))"
    using Cons.IH [OF s(1,2)] Cons.prems(3,4) by simp
  with s(3,4) show ?case by (fastforce simp: fresh_sqns_def sorted_wrt_append dest: bspec)
qed simp

lemma auc_requests_rising:
  assumes "auth_lib_ok A sqn_of" and "db_wf db" and "keys_3g db imsi = Some a" and "a3_algo_id a \<noteq> 0" and "list_all no_auts (tl rs)"
  shows "sorted_wrt (<) (map sqn_of (vectors_of L A imsi rs db))"
proof (cases rs)
  case (Cons q qs)
  obtain d ws sqn where s: "db_wf d" "keys_3g d imsi = Some (a\<lparr>a3_sqn := sqn\<rparr>)"
    "auc_requests L A imsi (q # qs) db = (fst (auc_requests L A imsi qs d), ws @ vectors_of L A imsi qs d)"
    "rising_sqns sqn_of ws (unat sqn)"
    using auc_request_step [OF assms(1-4)] by metis
  have "sorted_wrt (<) (unat sqn # map sqn_of (vectors_of L A imsi qs d))"
    using auc_requests_above [OF assms(1) s(1,2)] assms(4,5) Cons by simp
  with s(3,4) Cons show ?thesis by (fastforce simp: rising_sqns_def sorted_wrt_append dest: bspec)
qed simp

text \<open>
  C3. Between two resynchronisations no sequence number is used twice. Take any series of requests for authentication vectors of
  a subscriber with 3G keys and an algorithm, with or without AUTS, whatever faults SQLite shows on the way, and
  after it a run of requests of which at most the first has an AUTS. The sequence numbers of all vectors handed out by
  the run strictly increase; when the first has none either, they also lie above the number stored when the run begins. An
  AUTS restarts the numbers from the one of the SIM, wherever that is. Of the authentication library it is assumed that
  generating a vector takes a number above the stored one and stores it.
\<close>
theorem auc_sequence_numbers_never_reused:
  assumes "auth_lib_ok A sqn_of" and "db_wf db" and "keys_3g db imsi = Some a" and "a3_algo_id a \<noteq> 0"
    and "auc_requests L A imsi before db = (db1, vs)" and "list_all no_auts (tl rs)"
  shows "sorted_wrt (<) (map sqn_of (snd (auc_requests L A imsi rs db1))) \<and>
    (list_all no_auts rs \<longrightarrow> (\<exists>a1. keys_3g db1 imsi = Some a1 \<and>
       (\<forall>v \<in> set (snd (auc_requests L A imsi rs db1)). unat (a3_sqn a1) < sqn_of v)))"
proof -
  obtain sqn where k: "db_wf db1" "keys_3g db1 imsi = Some (a\<lparr>a3_sqn := sqn\<rparr>)" "a3_algo_id (a\<lparr>a3_sqn := sqn\<rparr>) \<noteq> 0"
    using auc_requests_keys [OF assms(1-5)] assms(4) by auto
  then show ?thesis
    using auc_requests_rising [OF assms(1) k assms(6), of L] auc_requests_above [OF assms(1) k, of rs L] by auto
qed

lemma db_one_keys:
  "keys_3g db_one ''262420000000001'' = Some \<lparr>a3_subscriber_id = 1, a3_algo_id = 5, a3_k = replicate 32 CHR ''2'',
     a3_op = None, a3_opc = Some (replicate 32 CHR ''3''), a3_sqn = 64, a3_ind_bitlen = 5\<rparr>"
  by (simp add: keys_3g_def sql_auc_by_imsi_def db_one_def new_subscriber_def)

theorem auc_sequence_numbers_never_reused_witness:
  "sorted_wrt (<) (map ref_sqn (snd (auc_requests ref_core ref_auth ''262420000000001''
     [(ref_env, 0, 2, False, Some (replicate 16 NUL), Some (replicate 14 NUL)),
      (ref_env\<lparr>step_error := (\<lambda>_. Some 10)\<rparr>, 0, 2, False, None, None), (ref_env, 3, 3, True, None, None)]
     (fst (auc_requests ref_core ref_auth ''262420000000001'' [(ref_env, 0, 2, False, None, None)] db_one)))))"
  using auc_sequence_numbers_never_reused [OF ref_auth_ok db_one_facts(1) db_one_keys, of ref_core
      "[(ref_env, 0, 2, False, None, None)]" _ _
      "[(ref_env, 0, 2, False, Some (replicate 16 NUL), Some (replicate 14 NUL)),
        (ref_env\<lparr>step_error := (\<lambda>_. Some 10)\<rparr>, 0, 2, False, None, None), (ref_env, 3, 3, True, None, None)]", OF _ surjective_pairing]
  by (simp add: no_auts_def)

section \<open>Storing and reading keys\<close>

lemma find_unless: "List.find P (filter (\<lambda>x. \<not> P x) xs @ ys) = List.find P ys"
  by (induction xs) auto

lemma hexparse_stmt_ok: "lib_hex_ok L \<Longrightarrow> osmo_is_hexstr L s 32 32 True \<Longrightarrow>
    hexparse_stmt L 16 (Some s) = Some (osmo_hexparse L s)"
  unfolding lib_hex_ok_def hexparse_stmt_def by fastforce

lemma update_aud_3g:
  assumes "db_wf db" and "env_ok E" and "aud_valid L aud" and "s_type aud = 2" and "s_algo aud \<noteq> 0"
  shows "db_subscr_update_aud_by_id L E sid aud db = (db\<lparr>tbl_auc_3g :=
    filter (\<lambda>a. a3_subscriber_id a \<noteq> sid) (tbl_auc_3g db) @
      [\<lparr>a3_subscriber_id = sid, a3_algo_id = s_algo aud, a3_k = s_k aud,
        a3_op = (if s_opc_is_op aud then Some (s_opc aud) else None),
        a3_opc = (if s_opc_is_op aud then None else Some (s_opc aud)),
        a3_sqn = 0, a3_ind_bitlen = s_ind_bitlen aud\<rparr>]\<rparr>, 0)"
proof -
  have "length (filter (\<lambda>a. a3_subscriber_id a = sid) (tbl_auc_3g db)) =
      (if sid \<in> a3_subscriber_id ` set (tbl_auc_3g db) then 1 else 0)"
    using assms(1) by (intro update_count [of a3_subscriber_id]) (simp_all add: db_wf_def)
  with assms(2-5) show ?thesis
    by (auto simp: db_subscr_update_aud_by_id_def auc_delete_def auc_insert_def sql_auc_3g_delete_def
        sql_delete_def sql_auc_3g_insert_def step_change_def changes_rc_def Let_def)
qed

text \<open>
  Keys survive storing and reading: after setting 3G authentication data that passes the checks of
  \<open>db_subscr_update_aud_by_id\<close>, reading the authentication data of the subscriber succeeds and gives
  the bytes of exactly these keys, marked as OP or OPC as given, with the sequence number
  restarted at zero; the 2G keys are not touched, and the type is what makes the keys usable.
\<close>
theorem auth_data_3g_roundtrip:
  assumes "db_wf db" and "env_ok E" and "lib_hex_ok L" and "subscribers db imsi = Some r"
    and "aud_valid L aud" and "s_type aud = OSMO_AUTH_TYPE_UMTS" and "s_algo aud \<noteq> 0"
  shows "snd (db_subscr_update_aud_by_id L E (row_id r) aud db) = 0 \<and>
    db_get_auth_data L E imsi (fst (db_subscr_update_aud_by_id L E (row_id r) aud db)) =
      (0, fst (snd (db_get_auth_data L E imsi db)),
       aud_zero\<lparr>aud_type := OSMO_AUTH_TYPE_UMTS, aud_algo := s_algo aud, aud_k := osmo_hexparse L (s_k aud),
         aud_opc := osmo_hexparse L (s_opc aud), aud_opc_is_op := s_opc_is_op aud,
         aud_ind_bitlen := s_ind_bitlen aud\<rparr>, row_id r)"
proof -
  from assms(4) have f: "List.find (\<lambda>r. row_imsi r = imsi) (tbl_subscriber db) = Some r"
    by (simp add: subscribers_def)
  have h: "osmo_is_hexstr L (s_k aud) 32 32 True" "osmo_is_hexstr L (s_opc aud) 32 32 True"
    using assms(5-7) by (simp_all add: aud_valid_def)
  note upd = update_aud_3g [OF assms(1,2,5) assms(6) assms(7)]
  have 1: "snd (db_subscr_update_aud_by_id L E (row_id r) aud db) = 0" by (simp add: upd)
  have 2: "db_get_auth_data L E imsi (fst (db_subscr_update_aud_by_id L E (row_id r) aud db)) =
      (0, fst (snd (db_get_auth_data L E imsi db)),
       aud_zero\<lparr>aud_type := OSMO_AUTH_TYPE_UMTS, aud_algo := s_algo aud, aud_k := osmo_hexparse L (s_k aud),
         aud_opc := osmo_hexparse L (s_opc aud), aud_opc_is_op := s_opc_is_op aud,
         aud_ind_bitlen := s_ind_bitlen aud\<rparr>, row_id r)"
    using assms(2) f find_unless [of "\<lambda>a. a3_subscriber_id a = row_id r" "tbl_auc_3g db"]
      hexparse_stmt_ok [OF assms(3) h(1)] hexparse_stmt_ok [OF assms(3) h(2)]
    by (simp add: upd db_get_auth_data_def sql_auc_by_imsi_def Let_def aud_zero_def split: option.splits)
  from 1 2 show ?thesis by blast
qed

definition aud_milenage :: sub_auth_data_str where
  "aud_milenage = (aud_str_none 2)\<lparr>s_algo := 5, s_k := replicate 32 CHR ''7'', s_opc := replicate 32 CHR ''8'',
     s_opc_is_op := True, s_ind_bitlen := 5\<rparr>"

lemma aud_milenage_valid: "aud_valid ref_core aud_milenage"
  by (simp add: aud_valid_def aud_milenage_def aud_str_none_def ref_core_def)

theorem auth_data_3g_roundtrip_witness:
  "snd (db_subscr_update_aud_by_id ref_core ref_env 1 aud_milenage db_one) = 0"
  using auth_data_3g_roundtrip [OF db_one_facts(1) ref_env_ok ref_hex_ok db_one_facts(2) aud_milenage_valid]
  by (simp add: aud_milenage_def aud_str_none_def new_subscriber_def)

end
