(* ===== verification/Hlr.thy ===== *)
theory Hlr
  imports Dgsm Db_Auc
begin

text \<open>
  The message handlers of the HLR: \<open>src/hlr.c\<close>. The record of the state is complete here; the libraries the handlers
  use are collected in \<open>hlr_lib\<close>, and what the outside decides while one message is handled (the
  database engine, the network, the random numbers) in \<open>hlr_env\<close>. The function \<open>read_cb\<close> is written in
  three parts: receiving the request, deciding where it is handled, and the switch on the
  message type. A \<open>Fault\<close> of a component is one of the handler.
\<close>

section \<open>Data\<close>

record hlr_world = dgsm_world +
  h_subscr_create_on_demand :: bool
  h_create_nam_cs :: bool
  h_create_nam_ps :: bool
  h_rand_msisdn_len :: nat
  store_imei :: bool
  gsup_unit_serno :: string

record hlr_lib =
  l_core :: osmo_core
  l_gsup :: gsup_lib
  l_oap :: oap_lib
  l_fsm :: fsm_lib
  l_ss :: ss_lib
  l_auth :: auth_lib

record hlr_env =
  e_db :: sqlite_env
  e_net :: net
  e_rand :: "nat \<Rightarrow> int \<times> octets"

abbreviation (input) GSM23003_MSISDN_MAX_DIGITS :: nat where "GSM23003_MSISDN_MAX_DIGITS \<equiv> 15"
abbreviation (input) GSM23003_IMEI_NUM_DIGITS_NO_CHK :: nat where "GSM23003_IMEI_NUM_DIGITS_NO_CHK \<equiv> 14"
abbreviation (input) OSMO_GSUP_MAX_NUM_AUTH_INFO :: nat where "OSMO_GSUP_MAX_NUM_AUTH_INFO \<equiv> 5"

section \<open>Changes of subscriber data\<close>

definition notify_peer ::
  "gsup_lib \<Rightarrow> octets \<Rightarrow> hlr_subscriber \<Rightarrow> osmo_gsup_conn \<Rightarrow> osmo_gsup_server \<Rightarrow> osmo_gsup_server exec" where
  \<comment> \<open>the body of the loop; \<open>partial\<close>: what a failing \<open>osmo_gsup_encode\<close> has left in the buffer\<close>
  "notify_peer G partial subscr co g =
     (if \<not> supports_ps co \<and> \<not> supports_cs co then Ret g
      else
        let cn_domain = (if supports_ps co then OSMO_GSUP_CN_DOMAIN_PS else OSMO_GSUP_CN_DOMAIN_CS);
            peer_compare = (if supports_ps co then sub_sgsn_number subscr else sub_vlr_number subscr)
        in (case osmo_gsup_conn_ccm_get co IPAC_IDTAG_SERNR of
              (None, _) \<Rightarrow> Ret g
            | (Some peer, _) \<Rightarrow>
                if length peer_compare \<noteq> length (cstr peer) \<or> strncmp peer_compare (cstr peer) (length peer) \<noteq> 0 then Ret g
                else (case osmo_gsup_create_insert_subscriber_data_msg G (sub_imsi subscr) (sub_msisdn subscr)
                        OSMO_GSUP_MAX_CALLED_PARTY_BCD_LEN (apn_maxlen G) cn_domain of
                        None \<Rightarrow> Fault
                      | Some (gsup, rc) \<Rightarrow>
                          if rc \<noteq> 0 then Ret g
                          else Ret (fst (osmo_gsup_addr_send peer
                                 (case osmo_gsup_encode G gsup of None \<Rightarrow> partial | Some msg \<Rightarrow> msg) g)))))"

definition osmo_hlr_subscriber_update_notify ::
  "gsup_lib \<Rightarrow> octets \<Rightarrow> hlr_subscriber \<Rightarrow> 'a hlr_core_scheme \<Rightarrow> 'a hlr_core_scheme exec" where
  "osmo_hlr_subscriber_update_notify G partial subscr s =
     (case fold (\<lambda>co r. case r of Fault \<Rightarrow> Fault | Ret g \<Rightarrow> notify_peer G partial subscr co g) (clients (gs s)) (Ret (gs s)) of
        Fault \<Rightarrow> Fault
      | Ret g \<Rightarrow> Ret (s\<lparr>gs := g\<rparr>))"

fun rand_retry :: "(nat \<Rightarrow> int \<times> octets) \<Rightarrow> nat \<Rightarrow> nat \<Rightarrow> int \<Rightarrow> (int \<times> octets) \<times> nat" where
  \<comment> \<open>at most \<open>n\<close> calls of \<open>osmo_get_rand_id\<close>, beginning with call number \<open>k\<close>\<close>
  "rand_retry rnd 0 k rc = ((rc, []), k)"
| "rand_retry rnd (Suc n) k rc =
     (if fst (rnd k) = 0 then (rnd k, k + 1) else rand_retry rnd n (k + 1) (fst (rnd k)))"

fun generate_loop :: "sqlite_env \<Rightarrow> (nat \<Rightarrow> int \<times> octets) \<Rightarrow> nat \<Rightarrow> nat \<Rightarrow> nat \<Rightarrow> hlr_db \<Rightarrow> int + string" where
  "generate_loop E rnd len 0 k db = Inl (- 1)"
| "generate_loop E rnd len (Suc i) k db =
     (case rand_retry rnd 10 k 0 of
        ((rc, rand_buf), k) \<Rightarrow>
          if rc \<noteq> 0 then Inl rc
          else
            let msisdn = map (\<lambda>c. char_of (48 + octet_val c mod 10)) (take len rand_buf)
            in if db_subscr_exists_by_msisdn E msisdn db = - ENOENT then Inr msisdn
               else generate_loop E rnd len i k db)"

definition generate_new_msisdn :: "sqlite_env \<Rightarrow> (nat \<Rightarrow> int \<times> octets) \<Rightarrow> nat \<Rightarrow> hlr_db \<Rightarrow> (int + string) exec" where
  "generate_new_msisdn E rnd len db =
     (if \<not> len \<le> GSM23003_MSISDN_MAX_DIGITS then Fault else Ret (generate_loop E rnd len 10 0 db))"

definition subscr_create_on_demand ::
  "hlr_lib \<Rightarrow> hlr_env \<Rightarrow> string \<Rightarrow> 'a hlr_world_scheme \<Rightarrow> ('a hlr_world_scheme \<times> int) exec" where
  "subscr_create_on_demand X V imsi s =
     (let L = l_core X; E = e_db V; len = h_rand_msisdn_len s;
          create = (\<lambda>msisdn.
            (case db_subscr_create L E imsi (h_create_nam_cs s) (h_create_nam_ps s) (dbc s) of
               (db, rc) \<Rightarrow>
                 let s = s\<lparr>dbc := db\<rparr>
                 in if rc \<noteq> 0 then (s, rc)
                    else if len = 0 then (s, 0)
                    else (case db_subscr_update_msisdn_by_imsi L E imsi (Some msisdn) (dbc s) of
                            (db, rc) \<Rightarrow> (s\<lparr>dbc := db\<rparr>, rc))))
      in if \<not> h_subscr_create_on_demand s then Ret (s, - 1)
         else if db_subscr_exists_by_imsi E imsi (dbc s) = 0 then Ret (s, - 1)
         else if len = 0 then Ret (create [])
         else (case generate_new_msisdn E (e_rand V) len (dbc s) of
                 Fault \<Rightarrow> Fault
               | Ret (Inl _) \<Rightarrow> Ret (s, - 1)
               | Ret (Inr msisdn) \<Rightarrow> Ret (create msisdn)))"

definition send_delete_data ::
  "gsup_lib \<Rightarrow> osmo_gsup_message \<Rightarrow> string \<Rightarrow> osmo_gsup_server \<Rightarrow> osmo_gsup_server option" where
  "send_delete_data G gsup_del_data number g =
     (if number = [] then Some g
      else (case osmo_ipa_name_set_str ipa_name_empty (Some number) of
              (vlr_name, rc) \<Rightarrow>
                if rc \<noteq> 0 then Some g
                else map_option fst (osmo_gsup_enc_send_to_ipa_name G vlr_name gsup_del_data g)))"

definition hlr_subscr_nam ::
  "gsup_lib \<Rightarrow> sqlite_env \<Rightarrow> hlr_subscriber \<Rightarrow> bool \<Rightarrow> bool \<Rightarrow> 'a hlr_core_scheme \<Rightarrow> ('a hlr_core_scheme \<times> int) exec" where
  "hlr_subscr_nam G E subscr nam_val is_ps s =
     (let is_val = (if is_ps then sub_nam_ps subscr else sub_nam_cs subscr);
          gsup_del_data = gsup_zero\<lparr>message_type := OSMO_GSUP_MSGT_DELETE_DATA_REQUEST,
            g_imsi := strlcpy IMSI_BUF_SIZE (sub_imsi subscr)\<rparr>
      in if is_val = nam_val then Ret (s, ENOEXEC)
         else (case db_subscr_nam E (sub_imsi subscr) nam_val is_ps (dbc s) of
                 (db, rc) \<Rightarrow>
                   let s = s\<lparr>dbc := db\<rparr>
                   in if rc \<noteq> 0 then Ret (s, if rc > 0 then - rc else rc)
                      else if nam_val then Ret (s, 0)
                      else (case Option.bind (send_delete_data G gsup_del_data (sub_vlr_number subscr) (gs s))
                                   (send_delete_data G gsup_del_data (sub_sgsn_number subscr)) of
                              None \<Rightarrow> Fault
                            | Some g \<Rightarrow> Ret (s\<lparr>gs := g\<rparr>, 0))))"

section \<open>Requests\<close>

definition rx_send_auth_info ::
  "hlr_lib \<Rightarrow> hlr_env \<Rightarrow> nat \<Rightarrow> osmo_gsup_req \<Rightarrow> 'a hlr_world_scheme \<Rightarrow> 'a hlr_world_scheme exec" where
  "rx_send_auth_info X V ind req s =
     (let G = l_gsup X; m = req_gsup req
      in (case subscr_create_on_demand X V (g_imsi m) s of
            Fault \<Rightarrow> Fault
          | Ret (s, _) \<Rightarrow>
              let separation_bit = current_rat_eutran_sgs m;
                  n = (if num_auth_vectors m > 0 \<and> num_auth_vectors m \<le> OSMO_GSUP_MAX_NUM_AUTH_INFO
                       then num_auth_vectors m else OSMO_GSUP_MAX_NUM_AUTH_INFO)
              in (case db_get_auc (l_core X) (l_auth X) (e_db V) (g_imsi m) (of_nat ind) n (g_rand m) (g_auts m)
                         separation_bit (dbc s) of
                    (db, rc, vec) \<Rightarrow>
                      let s = s\<lparr>dbc := db\<rparr>
                      in if rc \<le> 0 then
                           Ret (respond_err G req (if rc = 0 \<or> rc = - ENOKEY \<or> rc = - ENOENT then GMM_CAUSE_IMSI_UNKNOWN
                                                   else GMM_CAUSE_NET_FAIL) s)
                         else Ret (fst (respond G req (gsup_zero\<lparr>message_type := OSMO_GSUP_MSGT_SEND_AUTH_INFO_RESULT,
                                auth_vectors := vec, num_auth_vectors := nat rc\<rparr>) False True s)))))"

definition lu_exec :: "'s option \<Rightarrow> 's exec" where
  "lu_exec r = (case r of None \<Rightarrow> Fault | Some s \<Rightarrow> Ret s)"

definition rx_upd_loc_req ::
  "hlr_lib \<Rightarrow> hlr_env \<Rightarrow> nat \<Rightarrow> osmo_gsup_req \<Rightarrow> 'a hlr_world_scheme \<Rightarrow> 'a hlr_world_scheme exec" where
  \<comment> \<open>\<open>cid\<close>: the connection\<close>
  "rx_upd_loc_req X V cid req s =
     (let s = s\<lparr>gs := update_conn cid (\<lambda>c. case g_cn_domain (req_gsup req) of
            OSMO_GSUP_CN_DOMAIN_CS \<Rightarrow> c\<lparr>supports_cs := True\<rparr> | _ \<Rightarrow> c\<lparr>supports_ps := True\<rparr>) (gs s)\<rparr>
      in (case subscr_create_on_demand X V (g_imsi (req_gsup req)) s of
            Fault \<Rightarrow> Fault
          | Ret (s, _) \<Rightarrow> lu_exec (lu_rx_gsup (l_fsm X) (l_gsup X) (e_db V) req s)))"

definition rx_purge_ms_req :: "gsup_lib \<Rightarrow> sqlite_env \<Rightarrow> osmo_gsup_req \<Rightarrow> 'a hlr_core_scheme \<Rightarrow> 'a hlr_core_scheme" where
  "rx_purge_ms_req G E req s =
     (let is_ps = (g_cn_domain (req_gsup req) \<noteq> OSMO_GSUP_CN_DOMAIN_CS)
      in (case db_subscr_purge E (g_imsi (req_gsup req)) True is_ps (dbc s) of
            (db, rc) \<Rightarrow>
              let s = s\<lparr>dbc := db\<rparr>
              in if rc = 0 then respond_msgt G req OSMO_GSUP_MSGT_PURGE_MS_RESULT True s
                 else if rc = - ENOENT then respond_err G req GMM_CAUSE_IMSI_UNKNOWN s
                 else respond_err G req GMM_CAUSE_NET_FAIL s))"

definition rx_check_imei_req ::
  "hlr_lib \<Rightarrow> hlr_env \<Rightarrow> osmo_gsup_req \<Rightarrow> 'a hlr_world_scheme \<Rightarrow> 'a hlr_world_scheme exec" where
  "rx_check_imei_req X V req s =
     (let G = l_gsup X; L = l_core X; E = e_db V; gsup = req_gsup req;
          reject = (\<lambda>s. Ret (respond_err G req GMM_CAUSE_INV_MAND_INFO s));
          accept = (\<lambda>s. Ret (fst (respond G req (gsup_zero\<lparr>message_type := OSMO_GSUP_MSGT_CHECK_IMEI_RESULT,
                       imei_result_ack := True\<rparr>) False True s)))
      in (case imei_enc gsup of
            None \<Rightarrow> reject s
          | Some enc \<Rightarrow>
              (case gsm48_decode_bcd_number2 G (GSM23003_IMEI_NUM_DIGITS_NO_CHK + 1) enc of
                 (rc, imei) \<Rightarrow>
                   if rc < 0 then reject s
                   else if \<not> osmo_imei_str_valid L imei False then reject s
                   else (case subscr_create_on_demand X V (g_imsi gsup) s of
                           Fault \<Rightarrow> Fault
                         | Ret (s, _) \<Rightarrow>
                             if store_imei s then
                               (case db_subscr_update_imei_by_imsi L E (g_imsi gsup) (Some imei) (dbc s) of
                                  (db, rc) \<Rightarrow>
                                    let s = s\<lparr>dbc := db\<rparr> in if rc < 0 then reject s else accept s)
                             else (case db_subscr_get_by_imsi E (g_imsi gsup) (dbc s) of
                                     Inl _ \<Rightarrow> reject s
                                   | Inr _ \<Rightarrow> accept s)))))"

definition read_cb_forward :: "gsup_lib \<Rightarrow> osmo_gsup_req \<Rightarrow> 'a hlr_core_scheme \<Rightarrow> ('a hlr_core_scheme \<times> int) exec" where
  "read_cb_forward G req s =
     (let m = req_gsup req;
          routing_error = (\<lambda>s. Ret (fst (respond G req (gsup_zero\<lparr>message_type := OSMO_GSUP_MSGT_ROUTING_ERROR,
             g_source_name := g_destination_name m\<rparr>) True True s), - 1))
      in if name_len (g_source_name m) = 0 \<or> name_len (g_destination_name m) = 0 then routing_error s
         else (case osmo_ipa_name_set ipa_name_empty (g_destination_name m) of
                 (destination_name, rc) \<Rightarrow>
                   if rc \<noteq> 0 then routing_error s
                   else (case osmo_gsup_send_to_ipa_name destination_name (req_msg req) (gs s) of
                           None \<Rightarrow> Fault
                         | Some (g, ret) \<Rightarrow>
                             let s = s\<lparr>gs := g\<rparr>
                             in if ret \<noteq> 0 then routing_error s else Ret (req_free req s, 0))))"

definition read_cb_local ::
  "hlr_lib \<Rightarrow> hlr_env \<Rightarrow> osmo_gsup_conn \<Rightarrow> osmo_gsup_req \<Rightarrow> 'a hlr_world_scheme \<Rightarrow> 'a hlr_world_scheme exec" where
  \<comment> \<open>the switch on the message type\<close>
  "read_cb_local X V conn req s =
     (let lu = lu_exec (lu_rx_gsup (l_fsm X) (l_gsup X) (e_db V) req s)
      in (case message_type (req_gsup req) of
            OSMO_GSUP_MSGT_SEND_AUTH_INFO_REQUEST \<Rightarrow> rx_send_auth_info X V (auc_3g_ind conn) req s
          | OSMO_GSUP_MSGT_UPDATE_LOCATION_REQUEST \<Rightarrow> rx_upd_loc_req X V (conn_id conn) req s
          | OSMO_GSUP_MSGT_PURGE_MS_REQUEST \<Rightarrow> Ret (rx_purge_ms_req (l_gsup X) (e_db V) req s)
          | OSMO_GSUP_MSGT_DELETE_DATA_ERROR \<Rightarrow> Ret (req_free req s)
          | OSMO_GSUP_MSGT_DELETE_DATA_RESULT \<Rightarrow> Ret (req_free req s)
          | OSMO_GSUP_MSGT_PROC_SS_REQUEST \<Rightarrow> rx_proc_ss_req (l_ss X) (l_gsup X) (e_db V) req s
          | OSMO_GSUP_MSGT_PROC_SS_RESULT \<Rightarrow> rx_proc_ss_req (l_ss X) (l_gsup X) (e_db V) req s
          | OSMO_GSUP_MSGT_PROC_SS_ERROR \<Rightarrow> Ret (rx_proc_ss_error req s)
          | OSMO_GSUP_MSGT_INSERT_DATA_ERROR \<Rightarrow> lu
          | OSMO_GSUP_MSGT_INSERT_DATA_RESULT \<Rightarrow> lu
          | OSMO_GSUP_MSGT_LOCATION_CANCEL_ERROR \<Rightarrow> lu
          | OSMO_GSUP_MSGT_LOCATION_CANCEL_RESULT \<Rightarrow> lu
          | OSMO_GSUP_MSGT_CHECK_IMEI_REQUEST \<Rightarrow> rx_check_imei_req X V req s
          | _ \<Rightarrow> Ret (req_free req s)))"

definition not_for_us :: "osmo_gsup_message \<Rightarrow> 'a hlr_world_scheme \<Rightarrow> bool" where
  \<comment> \<open>the message names another recipient\<close>
  "not_for_us m s \<longleftrightarrow> name_len (g_destination_name m) \<noteq> 0 \<and>
     (case osmo_ipa_name_set ipa_name_empty (g_destination_name m) of
        (destination_name, rc) \<Rightarrow>
          rc = 0 \<and> osmo_ipa_name_cmp False (Some destination_name)
            (Some (fst (osmo_ipa_name_set_str ipa_name_empty (Some (gsup_unit_serno s))))) \<noteq> 0)"

definition read_cb_req ::
  "hlr_lib \<Rightarrow> hlr_env \<Rightarrow> osmo_gsup_conn \<Rightarrow> osmo_gsup_req \<Rightarrow> 'a hlr_world_scheme lookup_state
     \<Rightarrow> 'a hlr_world_scheme lookup_state exec" where
  \<comment> \<open>what follows the reception of a valid request\<close>
  "read_cb_req X V conn req s =
     (if not_for_us (req_gsup req) (fst s) then
        (case read_cb_forward (l_gsup X) req (fst s) of Fault \<Rightarrow> Fault | Ret (w, _) \<Rightarrow> Ret (w, snd s))
      else
        (case (if osmo_mslookup_client_active (Some (snd s)) \<or>
                  osmo_sockaddr_str_is_nonzero (l_core X) (gsup_gateway_proxy (fst s))
               then dgsm_check_forward_gsup_msg (l_core X) (l_gsup X) (l_oap X) (e_db V) (e_net V) req s
               else Ret (s, False)) of
           Fault \<Rightarrow> Fault
         | Ret (s, True) \<Rightarrow> Ret s
         | Ret (s, False) \<Rightarrow>
             (case read_cb_local X V conn req (fst s) of Fault \<Rightarrow> Fault | Ret w \<Rightarrow> Ret (w, snd s))))"

definition read_cb ::
  "hlr_lib \<Rightarrow> hlr_env \<Rightarrow> osmo_gsup_conn \<Rightarrow> octets \<Rightarrow> 'a hlr_world_scheme lookup_state
     \<Rightarrow> 'a hlr_world_scheme lookup_state exec" where
  "read_cb X V conn msg s =
     (case osmo_gsup_conn_rx (l_core X) (l_gsup X) conn msg (gs (fst s)) of
        (g, None) \<Rightarrow> Ret ((fst s)\<lparr>gs := g\<rparr>, snd s)
      | (g, Some req) \<Rightarrow> read_cb_req X V conn req ((fst s)\<lparr>gs := g\<rparr>, snd s))"

section \<open>Subscribers created on demand\<close>

lemma create_on_demand_result:
  "(case subscr_create_on_demand X V imsi s of
      Fault \<Rightarrow> \<not> h_rand_msisdn_len s \<le> GSM23003_MSISDN_MAX_DIGITS
    | Ret (s', rc) \<Rightarrow> \<exists>db. s' = s\<lparr>dbc := db\<rparr>)"
proof -
  have "\<exists>db. s = s\<lparr>dbc := db\<rparr>" by (rule exI [of _ "dbc s"]) simp
  then show ?thesis
    by (auto simp: subscr_create_on_demand_def generate_new_msisdn_def Let_def prod.case_eq_if
        split: sum.splits exec.splits)
qed

abbreviation rand_digits :: "nat \<Rightarrow> octets \<Rightarrow> string" where
  "rand_digits len buf \<equiv> map (\<lambda>c. char_of (48 + octet_val c mod 10)) (take len buf)"

lemma rand_digits_ok: "length buf = len \<Longrightarrow> length (rand_digits len buf) = len \<and> list_all is_digit (rand_digits len buf)"
  using digit_char by (simp add: list_all_iff)

lemma rand_retry_ok:
  "rand_retry rnd n k rc = ((0, buf), k') \<Longrightarrow> n \<noteq> 0 \<or> rc \<noteq> 0 \<Longrightarrow> \<exists>j. rnd j = (0, buf)"
  by (induction rnd n k rc rule: rand_retry.induct) (auto split: if_splits intro: prod_eqI)

lemma rand_retry_first: "fst (rnd k) = 0 \<Longrightarrow> rand_retry rnd 10 k rc = (rnd k, k + 1)"
  by (simp add: numeral_eq_Suc)

lemma generate_loop_found:
  "generate_loop E rnd len i k db = Inr m \<Longrightarrow>
     \<exists>j buf. rnd j = (0, buf) \<and> m = rand_digits len buf \<and> db_subscr_exists_by_msisdn E m db = - ENOENT"
proof (induction i arbitrary: k)
  case (Suc i)
  obtain rc buf k' where r: "rand_retry rnd 10 k 0 = ((rc, buf), k')" by (metis surj_pair)
  show ?case using Suc rand_retry_ok [of rnd 10 k 0 buf k'] r
    by (auto simp: Let_def split: if_splits)
qed simp

lemma generate_loop_finds:
  assumes "\<And>j. fst (rnd j) = 0" and "db_subscr_exists_by_msisdn E (rand_digits len (snd (rnd (k + j)))) db = - ENOENT" and "j < i"
  shows "\<exists>m. generate_loop E rnd len i k db = Inr m"
  using assms(2,3)
proof (induction i arbitrary: k j)
  case (Suc i)
  let ?m = "rand_digits len (snd (rnd k))"
  have u: "generate_loop E rnd len (Suc i) k db =
      (if db_subscr_exists_by_msisdn E ?m db = - ENOENT then Inr ?m else generate_loop E rnd len i (k + 1) db)"
    using assms(1) rand_retry_first [of rnd k] by (simp add: prod.case_eq_if Let_def)
  show ?case
  proof (cases "db_subscr_exists_by_msisdn E ?m db = - ENOENT")
    case False
    then obtain j' where "j = Suc j'" using Suc.prems(1) by (cases j) auto
    then show ?thesis using Suc.IH [of "k + 1" j'] Suc.prems False unfolding u by simp
  qed (simp only: u, simp)
qed simp

lemma exists_by_msisdn_ok:
  "env_ok E \<Longrightarrow> db_subscr_exists_by_msisdn E m db = - ENOENT \<longleftrightarrow> (\<forall>r \<in> set (tbl_subscriber db). row_msisdn r \<noteq> Some m)"
  by (auto simp: db_subscr_exists_by_msisdn_def db_exists_def)

lemma generate_fails:
  assumes "env_ok E" and "generate_loop E rnd len 10 0 db = Inl rc"
  shows "\<not> ((\<forall>k. fst (rnd k) = 0) \<and>
    (\<exists>j < 10. \<forall>r \<in> set (tbl_subscriber db). row_msisdn r \<noteq> Some (rand_digits len (snd (rnd j)))))"
proof (rule notI, elim conjE exE)
  fix j
  assume "\<forall>k. fst (rnd k) = 0" "j < 10" "\<forall>r \<in> set (tbl_subscriber db). row_msisdn r \<noteq> Some (rand_digits len (snd (rnd j)))"
  then show False
    using generate_loop_finds [of rnd E len 0 j db 10] exists_by_msisdn_ok [OF assms(1)] assms(2) by simp
qed

lemma set_msisdn_spec:
  assumes "db_wf db" and "env_ok E" and "osmo_msisdn_str_valid L m" and "subscribers db imsi = Some r"
    and "\<forall>r \<in> set (tbl_subscriber db). row_msisdn r \<noteq> Some m"
  shows "snd (db_subscr_update_msisdn_by_imsi L E imsi (Some m) db) = 0"
    and "subscribers (fst (db_subscr_update_msisdn_by_imsi L E imsi (Some m) db)) =
      (subscribers db)(imsi \<mapsto> r\<lparr>row_msisdn := Some m\<rparr>)"
proof -
  let ?u = "sql_update (\<lambda>r. row_imsi r = imsi) (\<lambda>r. r\<lparr>row_msisdn := Some m\<rparr>)"
  note u = update_by_imsi [OF assms(1,2), of "\<lambda>r. r\<lparr>row_msisdn := Some m\<rparr>" DB_STMT_SET_MSISDN_BY_IMSI imsi]
  have "sql_set_msisdn_by_imsi m imsi (tbl_subscriber db) = ?u (tbl_subscriber db)"
    using assms(5) by (auto simp: sql_set_msisdn_by_imsi_def)
  then have "db_subscr_update_msisdn_by_imsi L E imsi (Some m) db =
      subscriber_step (step_change E DB_STMT_SET_MSISDN_BY_IMSI ?u (tbl_subscriber db)) db"
    using assms(2,3) by (simp add: db_subscr_update_msisdn_by_imsi_def)
  with u assms(4) show "snd (db_subscr_update_msisdn_by_imsi L E imsi (Some m) db) = 0"
    and "subscribers (fst (db_subscr_update_msisdn_by_imsi L E imsi (Some m) db)) =
      (subscribers db)(imsi \<mapsto> r\<lparr>row_msisdn := Some m\<rparr>)"
    by (auto simp: amend_def fun_eq_iff)
qed

lemma faults_or_ok:
  "db_subscr_update_msisdn_by_imsi L E imsi m db = (db, - EIO) \<and> \<not> env_ok E \<or>
   db_subscr_update_msisdn_by_imsi L E imsi m db = db_subscr_update_msisdn_by_imsi L ref_env imsi m db"
  "db_subscr_create L E imsi cs ps db = (db, - EIO) \<and> \<not> env_ok E \<or>
   db_subscr_create L E imsi cs ps db = db_subscr_create L ref_env imsi cs ps db"
  by (auto simp: db_subscr_update_msisdn_by_imsi_def db_subscr_create_def step_change_def subscriber_step_def ref_env_def
      split: option.splits)

lemma exists_by_msisdn_new:
  assumes "\<forall>st rc. step_error E st = Some rc \<longrightarrow> 0 < rc" and "db_subscr_exists_by_msisdn E m db = - ENOENT"
  shows "\<forall>r \<in> set (tbl_subscriber db). row_msisdn r \<noteq> Some m"
  using assms by (fastforce simp: db_subscr_exists_by_msisdn_def db_exists_def split: if_splits option.splits)

definition demanded :: "string \<Rightarrow> string option \<Rightarrow> 'a hlr_world_scheme \<Rightarrow> 'a hlr_world_scheme \<Rightarrow> bool" where
  \<comment> \<open>the subscriber has been added, with this MSISDN\<close>
  "demanded imsi num s s' \<longleftrightarrow> (\<exists>r. subscribers (dbc s') = (subscribers (dbc s))(imsi \<mapsto> r) \<and> row_imsi r = imsi \<and>
     row_nam_cs r = h_create_nam_cs s \<and> row_nam_ps r = h_create_nam_ps s \<and> row_msisdn r = num)"

text \<open>
  C13. A subscriber created on demand is well-formed and its telephone number is new. For a valid IMSI that the
  database does not know, with a random source that fills the buffer when it succeeds and any failures of SQLite, the
  operation returns without an abort and keeps the constraints of the schema. On success exactly
  this subscriber is added, with the configured access modes and, when a length is configured, an MSISDN
  of exactly this many digits that no subscriber had before. On an error nothing is changed, or the subscriber is
  left behind without the number, which could not be stored. When SQLite does not fail, an error changes nothing, and the
  operation succeeds if no number is to be generated, or the random source works and one of the first ten numbers is free.
\<close>
theorem create_on_demand_sound:
  assumes "db_wf (dbc s)" and "\<forall>st rc. step_error (e_db V) st = Some rc \<longrightarrow> 0 < rc"
    and "h_subscr_create_on_demand s" and "len = h_rand_msisdn_len s" and "len \<le> 15"
    and "osmo_imsi_str_valid (l_core X) imsi" and "subscribers (dbc s) imsi = None"
    and "\<forall>m. list_all is_digit m \<and> 1 \<le> length m \<and> length m \<le> 15 \<longrightarrow> osmo_msisdn_str_valid (l_core X) m"
    and "\<forall>k buf. e_rand V k = (0, buf) \<longrightarrow> length buf = len"
  shows "\<exists>s' rc. subscr_create_on_demand X V imsi s = Ret (s', rc) \<and> db_wf (dbc s') \<and>
    (if rc = 0 then
       (if len = 0 then demanded imsi None s s'
        else \<exists>m. demanded imsi (Some m) s s' \<and> length m = len \<and> list_all is_digit m \<and>
          (\<forall>r \<in> set (tbl_subscriber (dbc s)). row_msisdn r \<noteq> Some m))
     else s' = s \<or> len \<noteq> 0 \<and> demanded imsi None s s') \<and>
    (env_ok (e_db V) \<longrightarrow> (rc \<noteq> 0 \<longrightarrow> s' = s) \<and>
      (len = 0 \<or> (\<forall>k. fst (e_rand V k) = 0) \<and>
        (\<exists>j < 10. \<forall>r \<in> set (tbl_subscriber (dbc s)). row_msisdn r \<noteq> Some (rand_digits len (snd (e_rand V j)))) \<longrightarrow> rc = 0))"
proof -
  let ?L = "l_core X" and ?E = "e_db V" and ?db = "dbc s"
  define r where "r = new_subscriber (new_rowid (tbl_subscriber ?db)) imsi (h_create_nam_cs s) (h_create_nam_ps s)"
  define db1 where "db1 = ?db\<lparr>tbl_subscriber := tbl_subscriber ?db @ [r]\<rparr>"
  have c0: "db_subscr_create ?L ref_env imsi (h_create_nam_cs s) (h_create_nam_ps s) ?db = (db1, 0)"
    using create_spec(1) [OF ref_env_ok assms(6)] assms(7) by (simp add: db1_def r_def)
  have db1: "subscribers db1 = (subscribers ?db)(imsi \<mapsto> r)" "db_wf db1"
    using create_spec(2) [OF ref_env_ok assms(6,7)] wf_create [OF assms(1)] c0 by (metis r_def fst_conv)+
  have r: "row_imsi r = imsi" "row_nam_cs r = h_create_nam_cs s" "row_nam_ps r = h_create_nam_ps s" "row_msisdn r = None"
    by (simp_all add: r_def new_subscriber_def)
  have bare: "demanded imsi None s (s\<lparr>dbc := db1\<rparr>)" using db1 r by (auto simp: demanded_def)
  have e: "db_subscr_exists_by_imsi ?E imsi ?db \<noteq> 0"
    using assms(2) [rule_format, of DB_STMT_EXISTS_BY_IMSI 0] assms(7)
    by (auto simp: db_subscr_exists_by_imsi_def db_exists_def subscribers_None split: option.splits)
  have g: "generate_new_msisdn ?E (e_rand V) len ?db = Ret (generate_loop ?E (e_rand V) len 10 0 ?db)"
    using assms(5) by (simp add: generate_new_msisdn_def)
  note cod = subscr_create_on_demand_def [of X V imsi s] and hyps = assms(3,4) e g
  note create = faults_or_ok(2) [of ?L ?E imsi "h_create_nam_cs s" "h_create_nam_ps s" ?db, unfolded c0]
  show ?thesis
  proof (cases "len \<noteq> 0 \<and> (\<exists>rc. generate_loop ?E (e_rand V) len 10 0 ?db = Inl rc)")
    case True
    then obtain rc where i: "generate_loop ?E (e_rand V) len 10 0 ?db = Inl rc" by blast
    then have "subscr_create_on_demand X V imsi s = Ret (s, - 1)" using hyps True by (simp add: cod Let_def)
    then show ?thesis using generate_fails [OF _ i] assms(1) True by simp
  next
    case ok: False
    from create show ?thesis
    proof
      assume f: "db_subscr_create ?L ?E imsi (h_create_nam_cs s) (h_create_nam_ps s) ?db = (?db, - EIO) \<and> \<not> env_ok ?E"
      then have "subscr_create_on_demand X V imsi s = Ret (s, - EIO)"
        using hyps ok by (auto simp: cod Let_def split: sum.splits)
      then show ?thesis using f assms(1) by simp
    next
      assume c: "db_subscr_create ?L ?E imsi (h_create_nam_cs s) (h_create_nam_ps s) ?db = (db1, 0)"
      show ?thesis
      proof (cases "len = 0")
        case True
        then have "subscr_create_on_demand X V imsi s = Ret (s\<lparr>dbc := db1\<rparr>, 0)" using hyps c by (simp add: cod Let_def)
        then show ?thesis using bare db1(2) True by auto
      next
        case False
        with ok obtain m where l: "generate_loop ?E (e_rand V) len 10 0 ?db = Inr m" by (cases "generate_loop ?E (e_rand V) len 10 0 ?db") auto
        from generate_loop_found [OF l] obtain j buf where m: "e_rand V j = (0, buf)" "m = rand_digits len buf"
          "\<forall>r \<in> set (tbl_subscriber ?db). row_msisdn r \<noteq> Some m" using exists_by_msisdn_new [OF assms(2)] by blast
        have d: "length m = len" "list_all is_digit m" using rand_digits_ok [OF assms(9) [rule_format, OF m(1)]] by (simp_all add: m(2))
        have v: "osmo_msisdn_str_valid ?L m" using assms(5,8) d False by simp
        have u: "\<forall>r \<in> set (tbl_subscriber db1). row_msisdn r \<noteq> Some m" using m(3) r(4) by (simp add: db1_def)
        obtain db2 rc where db2: "db_subscr_update_msisdn_by_imsi ?L ?E imsi (Some m) db1 = (db2, rc)" by fastforce
        have run: "subscr_create_on_demand X V imsi s = Ret (s\<lparr>dbc := db2\<rparr>, rc)"
          using hyps l False c db2 by (simp add: cod Let_def)
        from faults_or_ok(1) [of ?L ?E imsi "Some m" db1, unfolded db2] show ?thesis
        proof
          assume "(db2, rc) = (db1, - EIO) \<and> \<not> env_ok ?E"
          then show ?thesis using run bare db1(2) False by auto
        next
          assume db2': "(db2, rc) = db_subscr_update_msisdn_by_imsi ?L ref_env imsi (Some m) db1"
          have i: "subscribers db1 imsi = Some r" by (simp add: db1)
          note w = set_msisdn_spec [OF db1(2) ref_env_ok v i u, folded db2']
          have "db_wf db2" using wf_msisdn [OF db1(2)] db2 by (metis fst_conv)
          moreover have "demanded imsi (Some m) s (s\<lparr>dbc := db2\<rparr>)" using w(2) db1(1) r by (auto simp: demanded_def)
          ultimately show ?thesis using run w(1) d m(3) False by auto
        qed
      qed
    qed
  qed
qed

definition demand_env :: hlr_env where
  \<comment> \<open>the random source fails at first\<close>
  "demand_env = \<lparr>e_db = ref_env, e_net = (\<lambda>_. (True, 0)), e_rand = (\<lambda>k. if k = 0 then (1, []) else (0, [CHR 0x10, CHR 0x00, CHR 0xff]))\<rparr>"

definition ref_lib :: hlr_lib where
  "ref_lib = \<lparr>l_core = ref_core, l_gsup = ref_gsup, l_oap = ref_oap, l_fsm = ref_fsm, l_ss = ref_ss, l_auth = ref_auth\<rparr>"

definition hlr_first :: hlr_world where
  "hlr_first = dgsm_world.extend (dgsm_one\<lparr>gs := gs_example\<rparr>)
     \<lparr>h_subscr_create_on_demand = True, h_create_nam_cs = True, h_create_nam_ps = True, h_rand_msisdn_len = 3,
      store_imei = True, gsup_unit_serno = ''HLR''\<rparr>"

lemma hlr_first_sel [simp]:
  "dbc hlr_first = db_one" "gs hlr_first = gs_example" "h_subscr_create_on_demand hlr_first" "h_rand_msisdn_len hlr_first = 3"
  by (simp_all add: hlr_first_def dgsm_one_def dgsm_world.defs)

theorem create_on_demand_sound_witness:
  "\<exists>s' rc. subscr_create_on_demand ref_lib demand_env ''262420000000009'' hlr_first = Ret (s', rc) \<and> db_wf (dbc s')"
proof -
  have v: "osmo_imsi_str_valid (l_core ref_lib) ''262420000000009''"
    by (simp add: ref_lib_def ref_core_def is_digit_def octet_val_def)
  have n: "subscribers (dbc hlr_first) ''262420000000009'' = None"
    by (simp add: subscribers_def) (simp add: db_one_def new_subscriber_def)
  have m: "\<forall>m. list_all is_digit m \<and> 1 \<le> length m \<and> length m \<le> 15 \<longrightarrow> osmo_msisdn_str_valid (l_core ref_lib) m"
    by (simp add: ref_lib_def ref_core_def)
  have r: "\<forall>k buf. e_rand demand_env k = (0, buf) \<longrightarrow> length buf = 3"
    by (auto simp: demand_env_def)
  have e: "\<forall>st rc. step_error (e_db demand_env) st = Some rc \<longrightarrow> 0 < rc" by (simp add: demand_env_def ref_env_def)
  have w: "db_wf (dbc hlr_first)" using db_one_facts by simp
  show ?thesis
    using create_on_demand_sound [OF w e hlr_first_sel(3) hlr_first_sel(4) [symmetric] _ v n m r] by auto
qed

end
