(* ===== verification/Hlr_Requests.thy ===== *)
theory Hlr_Requests
  imports Hlr
begin

text \<open>
  The requests of the whole HLR. A received request is held by a location update, by a session of
  supplementary services or by the proxy, or it has been deallocated. The components were shown to
  keep track of their own requests; here their steps are put together over the one state they
  share: \<open>hlr_change R M\<close> says what the handling of the requests in \<open>R\<close> does to all requests, with those
  in \<open>M\<close> concluded or held. The step relation \<open>hlr_step\<close> has every event of the program:
  messages on the GSUP server, timers, links to remote HLRs, results of lookups, connections and
  changes of the database by the user.
\<close>

section \<open>Who holds a request\<close>

definition hlr_held :: "'a dgsm_world_scheme \<Rightarrow> nat set" where
  "hlr_held s = lu_held s \<union> ss_held s \<union> proxy_held s"

definition components_ok :: "'a dgsm_world_scheme \<Rightarrow> bool" where
  "components_ok s \<longleftrightarrow> lu_inv s \<and> ussd_inv s \<and> proxy_inv s \<and>
     lu_held s \<inter> ss_held s = {} \<and> lu_held s \<inter> proxy_held s = {} \<and> ss_held s \<inter> proxy_held s = {}"

definition hlr_change :: "nat set \<Rightarrow> nat set \<Rightarrow> 'a dgsm_world_scheme \<Rightarrow> 'a dgsm_world_scheme \<Rightarrow> bool" where
  "hlr_change R M s t \<longleftrightarrow> components_ok t \<and>
     (\<exists>A B. A \<subseteq> R \<union> hlr_held s \<and> B \<subseteq> R \<and> M \<subseteq> A \<union> B \<and> effect hlr_held A B s t)"

lemma lift_effect:
  assumes "effect h A B s t" and "hlr_held s = h s \<union> k" and "hlr_held t = h t \<union> k" and "A \<inter> k = {}"
  shows "effect hlr_held A B s t"
  using assms by (auto simp: effect_def)

lemma disjoint_parts: "A \<subseteq> R \<union> h \<Longrightarrow> R \<inter> (h \<union> k) = {} \<Longrightarrow> h \<inter> k = {} \<Longrightarrow> A \<inter> k = {}"
  by blast

lemma change_lu:
  assumes ok: "components_ok s" and R: "R \<inter> hlr_held s = {}" and t: "lu_inv t" "effect lu_held A B s t"
    and A: "A \<subseteq> R \<union> lu_held s" and B: "B \<subseteq> R" and M: "M \<subseteq> A \<union> B" and f: "ss_sessions t = ss_sessions s" "ussd_routes t = ussd_routes s" "proxy t = proxy s"
  shows "hlr_change R M s t"
proof -
  let ?k = "ss_held s \<union> proxy_held s"
  have k: "ss_held t = ss_held s" "proxy_held t = proxy_held s" using f by simp_all
  have h: "hlr_held s = lu_held s \<union> ?k" "hlr_held t = lu_held t \<union> ?k" unfolding hlr_held_def k by (simp_all add: ac_simps)
  have d: "lu_held s \<inter> ?k = {}" "R \<inter> (lu_held s \<union> ?k) = {}" using ok R h(1) by (simp_all add: components_ok_def Int_Un_distrib Int_commute)
  have "lu_held t \<subseteq> R \<union> lu_held s" using t(2) B unfolding effect_def by blast
  from disjoint_parts [OF this d(2,1)] have "components_ok t"
    using ok t(1) f k by (simp add: components_ok_def ussd_inv_def proxy_inv_def Int_Un_distrib Int_commute)
  moreover have "A \<subseteq> R \<union> hlr_held s" using A h(1) by blast
  ultimately show ?thesis using lift_effect [OF t(2) h disjoint_parts [OF A d(2,1)]] B M unfolding hlr_change_def by blast
qed

lemma change_ss:
  assumes ok: "components_ok s" and R: "R \<inter> hlr_held s = {}" and t: "ussd_inv t" "effect ss_held A B s t"
    and A: "A \<subseteq> R \<union> ss_held s" and B: "B \<subseteq> R" and M: "M \<subseteq> A \<union> B" and f: "g_all_lu t = g_all_lu s" "proxy t = proxy s"
  shows "hlr_change R M s t"
proof -
  let ?k = "lu_held s \<union> proxy_held s"
  have k: "lu_held t = lu_held s" "proxy_held t = proxy_held s" using f by simp_all
  have h: "hlr_held s = ss_held s \<union> ?k" "hlr_held t = ss_held t \<union> ?k" unfolding hlr_held_def k by (simp_all add: ac_simps)
  have d: "ss_held s \<inter> ?k = {}" "R \<inter> (ss_held s \<union> ?k) = {}" using ok R h(1) by (simp_all add: components_ok_def Int_Un_distrib Int_commute)
  have "ss_held t \<subseteq> R \<union> ss_held s" using t(2) B unfolding effect_def by blast
  from disjoint_parts [OF this d(2,1)] have "components_ok t"
    using ok t(1) f k by (simp add: components_ok_def lu_inv_def proxy_inv_def Int_Un_distrib Int_commute)
  moreover have "A \<subseteq> R \<union> hlr_held s" using A h(1) by blast
  ultimately show ?thesis using lift_effect [OF t(2) h disjoint_parts [OF A d(2,1)]] B M unfolding hlr_change_def by blast
qed

lemma change_proxy:
  assumes ok: "components_ok s" and R: "R \<inter> hlr_held s = {}" and t: "proxy_inv t" "effect proxy_held A B s t"
    and A: "A \<subseteq> R \<union> proxy_held s" and B: "B \<subseteq> R" and M: "M \<subseteq> A \<union> B" and f: "proxy_frame s t"
  shows "hlr_change R M s t"
proof -
  let ?k = "lu_held s \<union> ss_held s"
  have k: "lu_held t = lu_held s" "ss_held t = ss_held s" using f by (simp_all add: proxy_frame_def)
  have h: "hlr_held s = proxy_held s \<union> ?k" "hlr_held t = proxy_held t \<union> ?k" unfolding hlr_held_def k by (simp_all add: ac_simps)
  have d: "proxy_held s \<inter> ?k = {}" "R \<inter> (proxy_held s \<union> ?k) = {}" using ok R h(1) by (simp_all add: components_ok_def Int_Un_distrib Int_commute)
  have "proxy_held t \<subseteq> R \<union> proxy_held s" using t(2) B unfolding effect_def by blast
  from disjoint_parts [OF this d(2,1)] have "components_ok t"
    using ok t(1) f k by (simp add: components_ok_def proxy_frame_def lu_inv_def ussd_inv_def Int_Un_distrib Int_commute)
  moreover have "A \<subseteq> R \<union> hlr_held s" using A h(1) by blast
  ultimately show ?thesis using lift_effect [OF t(2) h disjoint_parts [OF A d(2,1)]] B M unfolding hlr_change_def by blast
qed

section \<open>Steps of the components\<close>

definition same_requests :: "'a dgsm_world_scheme \<Rightarrow> 'a dgsm_world_scheme \<Rightarrow> bool" where
  \<comment> \<open>nothing a component knows of requests has changed\<close>
  "same_requests s t \<longleftrightarrow> g_all_lu t = g_all_lu s \<and> ss_sessions t = ss_sessions s \<and> ussd_routes t = ussd_routes s \<and>
     proxy t = proxy s \<and> next_req_nr (gs t) = next_req_nr (gs s) \<and> (\<forall>nr. freed nr (gs t) = freed nr (gs s))"

lemma same_held: "same_requests s t \<Longrightarrow> hlr_held t = hlr_held s" and same_ok: "same_requests s t \<Longrightarrow> components_ok t = components_ok s"
  by (simp_all add: same_requests_def hlr_held_def components_ok_def lu_inv_def ussd_inv_def proxy_inv_def)

lemma change_same: "components_ok s \<Longrightarrow> same_requests s t \<Longrightarrow> hlr_change R {} s t"
  using same_held [of s t] same_ok [of s t]
  by (auto simp: hlr_change_def effect_def same_requests_def intro!: exI [of _ "{}"])

lemma same_change: "same_requests s t \<Longrightarrow> hlr_change R M t u \<Longrightarrow> hlr_change R M s u"
  using same_held [of s t] by (simp add: hlr_change_def effect_def same_requests_def)

lemma change_answered:
  assumes "components_ok s" and "r \<notin> hlr_held s" and "same_requests s (t\<lparr>gs := g\<rparr>)"
    and "next_req_nr (gs t) = next_req_nr g" and "\<And>nr. freed nr (gs t) = freed nr g + (if nr = r then 1 else 0)"
  shows "hlr_change {r} {r} s t"
proof -
  have "hlr_held t = hlr_held s" "components_ok t"
    using assms(1,3) by (simp_all add: same_requests_def hlr_held_def components_ok_def lu_inv_def ussd_inv_def proxy_inv_def)
  then show ?thesis using assms unfolding hlr_change_def
    by (intro conjI exI [of _ "{r}"] exI [of _ "{}"]) (auto simp: effect_def same_requests_def)
qed

lemma same_refl [simp]: "same_requests s s"
  by (simp add: same_requests_def)

lemma same_dbc [simp]: "same_requests s (t\<lparr>dbc := db\<rparr>) = same_requests s t"
  by (simp add: same_requests_def)

lemma same_gs:
  "same_requests s t \<Longrightarrow> next_req_nr g = next_req_nr (gs t) \<Longrightarrow> (\<And>nr. freed nr g = freed nr (gs t)) \<Longrightarrow> same_requests s (t\<lparr>gs := g\<rparr>)"
  by (simp add: same_requests_def)

lemma answered:
  assumes "components_ok s" and "req_nr req \<notin> hlr_held s" and "same_requests s t"
  shows "hlr_change {req_nr req} {req_nr req} s (respond_err G req c t)"
    and "hlr_change {req_nr req} {req_nr req} s (respond_msgt G req ty True t)"
    and "hlr_change {req_nr req} {req_nr req} s (fst (respond G req m e True t))"
    and "hlr_change {req_nr req} {req_nr req} s (req_free req t)"
  using assms(3)
  by (auto intro!: change_answered [OF assms(1,2), where g = "gs t"] simp: freed_simps)
    (simp_all add: respond_defs prod.case_eq_if)

text \<open>
  How the handling of a request can go: the bad conditions under which a handler fails, and the
  conditions under which the request is forgotten without being deallocated.
\<close>

definition msisdn_len_bad :: "'a hlr_world_scheme \<Rightarrow> bool" where
  \<comment> \<open>a configured length the VTY does not accept\<close>
  "msisdn_len_bad s \<longleftrightarrow> \<not> h_rand_msisdn_len s \<le> GSM23003_MSISDN_MAX_DIGITS"

definition is_proc_ss :: "osmo_gsup_req \<Rightarrow> bool" where
  "is_proc_ss req \<longleftrightarrow> message_type (req_gsup req) \<in> {OSMO_GSUP_MSGT_PROC_SS_REQUEST, OSMO_GSUP_MSGT_PROC_SS_RESULT}"

definition forgotten :: "osmo_gsup_req \<Rightarrow> 'a dgsm_world_scheme \<Rightarrow> bool" where
  "forgotten req s \<longleftrightarrow>
     message_type (req_gsup req) \<in> {OSMO_GSUP_MSGT_INSERT_DATA_ERROR, OSMO_GSUP_MSGT_PROC_SS_ERROR} \<or>
     is_proc_ss req \<and> ss_end_unknown req s"

definition handled :: "bool \<Rightarrow> nat set \<Rightarrow> nat set \<Rightarrow> 'a dgsm_world_scheme \<Rightarrow> 'a dgsm_world_scheme exec \<Rightarrow> bool" where
  \<comment> \<open>the handler fails only if \<open>bad\<close>\<close>
  "handled bad R M s res \<longleftrightarrow> (case res of Fault \<Rightarrow> bad | Ret s' \<Rightarrow> hlr_change R M s s')"

lemma handled_simps [simp]: "handled bad R M s (Ret s') = hlr_change R M s s'" "handled bad R M s Fault = bad"
  by (simp_all add: handled_def)

lemma handled_weaken: "handled bad R M s res \<Longrightarrow> (bad \<Longrightarrow> bad') \<Longrightarrow> M' \<subseteq> M \<Longrightarrow> handled bad' R M' s res"
  unfolding handled_def hlr_change_def by (cases res) (simp, simp, blast)

lemma change_weaken: "hlr_change R M s t \<Longrightarrow> M' \<subseteq> M \<Longrightarrow> hlr_change R M' s t"
  unfolding hlr_change_def by blast

lemma more_sel:
  fixes s t :: "'a dgsm_world_scheme"
  shows "lu_world.more t = lu_world.more s \<Longrightarrow> ss_sessions t = ss_sessions s \<and> ussd_routes t = ussd_routes s \<and> proxy t = proxy s"
    and "ussd_world.more t = ussd_world.more s \<Longrightarrow> proxy t = proxy s"
  by (cases s, cases t, simp)+

lemma sai_handled:
  assumes "components_ok s" and "req_nr req \<notin> hlr_held s"
  shows "handled (msisdn_len_bad s) {req_nr req} {req_nr req} s (rx_send_auth_info X V ind req s)"
  using create_on_demand_result [where s = s and X = X and V = V and imsi = "g_imsi (req_gsup req)"]
  by (auto simp: rx_send_auth_info_def Let_def prod.case_eq_if msisdn_len_bad_def
      intro!: answered [OF assms] split: exec.splits)

lemma purge_handled:
  assumes "components_ok s" and "req_nr req \<notin> hlr_held s"
  shows "hlr_change {req_nr req} {req_nr req} s (rx_purge_ms_req G E req s)"
  by (auto simp: rx_purge_ms_req_def Let_def prod.case_eq_if intro!: answered [OF assms])

lemma check_imei_handled:
  assumes "components_ok s" and "req_nr req \<notin> hlr_held s"
  shows "handled (msisdn_len_bad s) {req_nr req} {req_nr req} s (rx_check_imei_req X V req s)"
  using create_on_demand_result [where s = s and X = X and V = V and imsi = "g_imsi (req_gsup req)"]
  by (auto simp: rx_check_imei_req_def Let_def prod.case_eq_if msisdn_len_bad_def
      intro!: answered [OF assms] split: exec.splits option.splits sum.splits)

lemma lu_handled:
  fixes s t :: "'a hlr_world_scheme"
  assumes "components_ok s" and "req_nr req \<notin> hlr_held s" and "fsm_ok F" and st: "same_requests s t"
  shows "handled False {req_nr req} (if message_type (req_gsup req) = OSMO_GSUP_MSGT_INSERT_DATA_ERROR then {} else {req_nr req})
    s (lu_exec (lu_rx_gsup F G E req t))"
proof -
  have t: "components_ok t" "{req_nr req} \<inter> hlr_held t = {}"
    using assms(1,2) same_ok [OF st] same_held [OF st] by simp_all
  then have "lu_inv t" "req_nr req \<notin> lu_held t" by (simp_all add: components_ok_def hlr_held_def)
  from rx_effect [OF assms(3) this]
  obtain t' A B where r: "lu_rx_gsup F G E req t = Some t'" "lu_inv t'" "lu_world.more t' = lu_world.more t"
    "effect lu_held A B t t'" "A \<subseteq> insert (req_nr req) (lu_held t)" "B \<subseteq> {req_nr req}"
    "message_type (req_gsup req) \<noteq> OSMO_GSUP_MSGT_INSERT_DATA_ERROR \<longrightarrow> req_nr req \<in> A \<union> B"
    by blast
  note f = more_sel(1) [OF r(3)]
  show ?thesis unfolding r(1) lu_exec_def option.case handled_simps
    by (rule same_change [OF st], rule change_lu [OF t r(2,4)]) (use r(5-7) f in auto)
qed

lemma upd_loc_handled:
  fixes s :: "'a hlr_world_scheme"
  assumes "components_ok s" and "req_nr req \<notin> hlr_held s" and "fsm_ok (l_fsm X)"
    and "message_type (req_gsup req) = OSMO_GSUP_MSGT_UPDATE_LOCATION_REQUEST"
  shows "handled (msisdn_len_bad s) {req_nr req} {req_nr req} s (rx_upd_loc_req X V cid req s)"
proof -
  define t where "t = s\<lparr>gs := update_conn cid (\<lambda>c. case g_cn_domain (req_gsup req) of
     OSMO_GSUP_CN_DOMAIN_CS \<Rightarrow> c\<lparr>supports_cs := True\<rparr> | _ \<Rightarrow> c\<lparr>supports_ps := True\<rparr>) (gs s)\<rparr>"
  have t: "same_requests s (t\<lparr>dbc := db\<rparr>)" "h_rand_msisdn_len t = h_rand_msisdn_len s" for db
    by (auto simp: t_def update_conn_def freed_def intro!: same_gs)
  note l = lu_handled [OF assms(1,2,3) t(1), of "l_gsup X" "e_db V"]
  show ?thesis
    using create_on_demand_result [where s = t and X = X and V = V and imsi = "g_imsi (req_gsup req)"] l assms(4) t(2)
    by (auto simp: rx_upd_loc_req_def Let_def t_def [symmetric] msisdn_len_bad_def split: exec.splits
        intro: handled_weaken)
qed

lemma ss_handled:
  fixes s :: "'a hlr_world_scheme"
  assumes "components_ok s" and "req_nr req \<notin> hlr_held s" and "ss_lib_ok U" and "gsup_wf (req_gsup req)"
  shows "handled (ss_fails U req s) {req_nr req} (if ss_end_unknown req s then {} else {req_nr req}) s
    (rx_proc_ss_req U G E req s)"
proof (cases "ss_fails U req s")
  case True
  then show ?thesis using ss_fails_faults [of s req U G E] assms(1,2) by (simp add: components_ok_def hlr_held_def)
next
  case False
  have s: "ussd_inv s" "req_nr req \<notin> ss_held s" using assms(1,2) by (simp_all add: components_ok_def hlr_held_def)
  have out: "hlr_change {req_nr req} {req_nr req} s s'" if o: "ss_outcome req s s'" for s'
  proof -
    obtain A B where e: "effect ss_held A B s s'" "A \<subseteq> insert (req_nr req) (ss_held s)" "B \<subseteq> {req_nr req}" "req_nr req \<in> A \<union> B"
      using outcome_keeps(2) [OF s o] by blast
    have "g_all_lu s' = g_all_lu s" "ussd_world.more s' = ussd_world.more s"
      using o by (auto simp: ss_outcome_def ss_result_def)
    then show ?thesis
      using change_ss [OF assms(1) _ outcome_keeps(1) [OF s o] e(1), of "{req_nr req}" "{req_nr req}"] e(2-4) assms(2)
        more_sel(2) [of s' s] by simp
  qed
  show ?thesis
  proof (cases "ss_end_unknown req s")
    case True
    show ?thesis using end_unknown_result [OF True, of U G E] answered(1) [OF assms(1,2) same_refl, of G, THEN change_weaken, of "{}"]
        change_same [OF assms(1) same_refl] True by auto
  next
    case ne: False
    from rx_outcome [OF s(1) assms(3) s(2) assms(4) False ne, of G E] out show ?thesis using ne by auto
  qed
qed

lemma local_handled:
  fixes s :: "'a hlr_world_scheme"
  assumes "components_ok s" and "req_nr req \<notin> hlr_held s" and "gsup_wf (req_gsup req)"
    and "fsm_ok (l_fsm X)" and "ss_lib_ok (l_ss X)"
  shows "handled (msisdn_len_bad s \<or> is_proc_ss req \<and> ss_fails (l_ss X) req s) {req_nr req}
    (if forgotten req s then {} else {req_nr req}) s (read_cb_local X V conn req s)"
proof -
  note lu = lu_handled [OF assms(1,2,4) same_refl] and ss = ss_handled [OF assms(1,2,5,3)]
  show ?thesis
    using sai_handled [OF assms(1,2), of X V "auc_3g_ind conn", THEN handled_weaken]
      check_imei_handled [OF assms(1,2), of X V, THEN handled_weaken]
      upd_loc_handled [OF assms(1,2,4), of V "conn_id conn", THEN handled_weaken]
      purge_handled [OF assms(1,2)] answered(4) [OF assms(1,2) same_refl] change_same [OF assms(1) same_refl]
      lu [of "l_gsup X" "e_db V", THEN handled_weaken] ss [of "l_gsup X" "e_db V", THEN handled_weaken]
    by (cases "message_type (req_gsup req)") (auto simp: read_cb_local_def is_proc_ss_def forgotten_def rx_proc_ss_error_def)
qed

lemma forward_handled:
  fixes s :: "'a hlr_world_scheme"
  assumes "components_ok s" and "req_nr req \<notin> hlr_held s"
  shows "\<exists>t rc. read_cb_forward G req s = Ret (t, rc) \<and> hlr_change {req_nr req} {req_nr req} s t"
proof -
  note a = answered [OF assms]
  obtain d rc where d: "osmo_ipa_name_set ipa_name_empty (g_destination_name (req_gsup req)) = (d, rc)" by fastforce
  show ?thesis
  proof (cases "name_len (g_source_name (req_gsup req)) = 0 \<or> name_len (g_destination_name (req_gsup req)) = 0 \<or> rc \<noteq> 0")
    case True
    then show ?thesis using d a(3) [OF same_refl] by (auto simp: read_cb_forward_def Let_def)
  next
    case False
    have n: "ipa_len d \<noteq> 0" using d False by (auto simp: osmo_ipa_name_set_def name_len_def split: option.splits if_splits)
    then obtain g ret where g: "osmo_gsup_send_to_ipa_name d (req_msg req) (gs s) = Some (g, ret)"
      using send_to_name_ok by fast
    have "same_requests s (s\<lparr>gs := g\<rparr>)" using send_to_name_freed [OF g] by (intro same_gs) simp_all
    then show ?thesis using d False g a(3) a(4) by (auto simp: read_cb_forward_def Let_def)
  qed
qed

lemma change_trans:
  assumes "hlr_change {} {} s t" and "hlr_change R M t u" and "R \<inter> hlr_held s = {}"
  shows "hlr_change R M s u"
proof -
  obtain A where A: "A \<subseteq> hlr_held s" "effect hlr_held A {} s t" using assms(1) by (auto simp: hlr_change_def)
  obtain A' B where A': "A' \<subseteq> R \<union> hlr_held t" "B \<subseteq> R" "M \<subseteq> A' \<union> B" "effect hlr_held A' B t u"
    using assms(2) by (auto simp: hlr_change_def)
  have t: "hlr_held t = hlr_held s - A" using A(2) by (simp add: effect_def)
  have "A \<inter> A' = {}" "A \<inter> B = {}" using A(1) A'(1,2) assms(3) t by blast+
  from effect_trans [OF A(2) A'(4) this] have "effect hlr_held (A \<union> A') B s u" by simp
  moreover have "A \<union> A' \<subseteq> R \<union> hlr_held s" "M \<subseteq> (A \<union> A') \<union> B" using A(1) A'(1,3) t by blast+
  ultimately show ?thesis using assms(2) A'(2) unfolding hlr_change_def by blast
qed

lemma quiet_change: "components_ok s \<Longrightarrow> proxy_quiet s t \<Longrightarrow> hlr_change {} {} s t"
  using change_proxy [of s "{}" t] by (auto simp: proxy_quiet_def)

lemma took_change: "components_ok s \<Longrightarrow> r \<notin> hlr_held s \<Longrightarrow> proxy_took r s t \<Longrightarrow> hlr_change {r} {r} s t"
  using change_proxy [of s "{r}" t] unfolding proxy_took_def by auto

lemma untouched_quiet: "untouched s t \<Longrightarrow> proxy_quiet s t"
  by (auto simp: untouched_def proxy_quiet_def effect_def proxy_frame_def)

lemma untouched_sel:
  fixes s t :: "'a hlr_world_scheme"
  assumes "untouched s t"
  shows "msisdn_len_bad t = msisdn_len_bad s" and "forgotten req t = forgotten req s" and "ss_fails U req t = ss_fails U req s"
    and "hlr_held t = hlr_held s"
proof -
  have m: "dgsm_world.more t = dgsm_world.more s" using assms by (simp add: untouched_def)
  then have "h_rand_msisdn_len t = h_rand_msisdn_len s" by (cases s, cases t) simp
  then show "msisdn_len_bad t = msisdn_len_bad s" by (simp add: msisdn_len_bad_def)
  show "forgotten req t = forgotten req s" "ss_fails U req t = ss_fails U req s" "hlr_held t = hlr_held s"
    using assms by (simp_all add: untouched_def proxy_frame_def forgotten_def ss_end_unknown_def ss_fails_iff begin_fails_def
        ussd_route_lookup_7bit_def ss_session_find_def hlr_held_def)
qed

definition hlr_lib_ok :: "hlr_lib \<Rightarrow> bool" where
  "hlr_lib_ok X \<longleftrightarrow> lib_strings_ok (l_core X) \<and> fsm_ok (l_fsm X) \<and> ss_lib_ok (l_ss X)"

lemma req_handled:
  fixes s :: "'a hlr_world_scheme lookup_state"
  assumes ok: "components_ok (fst s)" and fresh: "req_nr req \<notin> hlr_held (fst s)" and X: "hlr_lib_ok X"
    and imsi: "osmo_imsi_str_valid (l_core X) (g_imsi (req_gsup req))" and m: "methods_quiet (snd s)"
  shows "handled (msisdn_len_bad (fst s) \<or> is_proc_ss req \<and> ss_fails (l_ss X) req (fst s)) {req_nr req}
    (if forgotten req (fst s) then {} else {req_nr req}) (fst s)
    (case read_cb_req X V conn req s of Fault \<Rightarrow> Fault | Ret s' \<Rightarrow> Ret (fst s'))"
proof -
  let ?r = "req_nr req" and ?M = "if forgotten req (fst s) then {} else {req_nr req}"
  have wf: "gsup_wf (req_gsup req)" using imsi_valid_wf [of "l_core X"] X imsi by (simp add: hlr_lib_ok_def)
  have L: "lib_strings_ok (l_core X)" "fsm_ok (l_fsm X)" "ss_lib_ok (l_ss X)" using X by (simp_all add: hlr_lib_ok_def)
  have pi: "proxy_inv (fst s)" "?r \<notin> proxy_held (fst s)" using ok fresh by (simp_all add: components_ok_def hlr_held_def)
  obtain t rc where fwd: "read_cb_forward (l_gsup X) req (fst s) = Ret (t, rc)" "hlr_change {?r} {?r} (fst s) t"
    using forward_handled [OF ok fresh] by blast
  obtain s1 b where d: "dgsm_check_forward_gsup_msg (l_core X) (l_gsup X) (l_oap X) (e_db V) (e_net V) req s = Ret (s1, b)"
    and b: "if b then proxy_took ?r (fst s) (fst s1) else untouched (fst s) (fst s1)"
    using dgsm_check_outcome [OF L(1) pi(1) m pi(2) imsi] by blast
  have took: "hlr_change {?r} ?M (fst s) (fst s1)" if b
    using took_change [OF ok fresh, of "fst s1"] that b by (auto intro: change_weaken)
  have here: "handled (msisdn_len_bad (fst s) \<or> is_proc_ss req \<and> ss_fails (l_ss X) req (fst s)) {?r} ?M (fst s)
    (read_cb_local X V conn req w)" if u: "untouched (fst s) w" for w
  proof -
    have q: "hlr_change {} {} (fst s) w" using quiet_change [OF ok untouched_quiet [OF u]] .
    then have "components_ok w" by (simp add: hlr_change_def)
    then have "handled (msisdn_len_bad w \<or> is_proc_ss req \<and> ss_fails (l_ss X) req w) {?r} (if forgotten req w then {} else {?r}) w
      (read_cb_local X V conn req w)"
      using local_handled [of w req X V conn] wf L(2,3) fresh untouched_sel(4) [OF u] by simp
    then show ?thesis using change_trans [OF q] fresh unfolding handled_def untouched_sel [OF u] by (auto split: exec.splits)
  qed
  define P where "P = (\<lambda>res. handled (msisdn_len_bad (fst s) \<or> is_proc_ss req \<and> ss_fails (l_ss X) req (fst s)) {?r} ?M (fst s)
    (case res of Fault \<Rightarrow> Fault | Ret s' \<Rightarrow> Ret (fst (s' :: 'a hlr_world_scheme lookup_state))))"
  have Ret: "P (Ret s') = hlr_change {?r} ?M (fst s) (fst s')" for s' by (simp add: P_def)
  have local: "P (case read_cb_local X V conn req w of Fault \<Rightarrow> Fault | Ret w \<Rightarrow> Ret (w, c))" if "untouched (fst s) w" for w c
    using here [OF that] by (cases "read_cb_local X V conn req w") (simp_all add: P_def)
  have u: "untouched (fst s) (fst s)" using pi(1) by (simp add: untouched_def)
  have "P (read_cb_req X V conn req s)"
  proof (cases "not_for_us (req_gsup req) (fst s)")
    case True
    then show ?thesis using fwd by (auto simp: read_cb_req_def Ret intro: change_weaken)
  next
    case False
    then show ?thesis using d b took local [OF u] local [of "fst s1" "snd s1"]
      by (cases b) (simp_all add: read_cb_req_def Ret)
  qed
  then show ?thesis unfolding P_def .
qed

section \<open>The invariant of all requests\<close>

definition hlr_inv :: "'a dgsm_world_scheme \<Rightarrow> bool" where
  \<comment> \<open>a request is held by at most one component, once, and only while it is not deallocated; no request
    is deallocated twice, and none before it was received\<close>
  "hlr_inv s \<longleftrightarrow> components_ok s \<and> (\<forall>nr \<in> hlr_held s. nr < next_req_nr (gs s) \<and> freed nr (gs s) = 0) \<and>
     (\<forall>nr. freed nr (gs s) \<le> 1) \<and> (\<forall>nr \<ge> next_req_nr (gs s). freed nr (gs s) = 0)"

lemma change_inv:
  assumes inv: "hlr_inv s" and c: "hlr_change R M s t" and R: "\<And>r. r \<in> R \<Longrightarrow> r < next_req_nr (gs s) \<and> freed r (gs s) = 0"
  shows "hlr_inv t" and "owned hlr_held nr s \<Longrightarrow> owned hlr_held nr t" and "r \<in> R \<Longrightarrow> r \<in> M \<Longrightarrow> owned hlr_held r t"
proof -
  obtain A B where e: "A \<subseteq> R \<union> hlr_held s" "B \<subseteq> R" "M \<subseteq> A \<union> B" "effect hlr_held A B s t" and ok: "components_ok t"
    using c by (auto simp: hlr_change_def)
  have f: "freed nr (gs t) = freed nr (gs s) + (if nr \<in> A then 1 else 0)" and h: "hlr_held t = (hlr_held s \<union> B) - A"
    and n: "next_req_nr (gs t) = next_req_nr (gs s)" for nr using e(4) by (simp_all add: effect_def)
  have AB: "nr < next_req_nr (gs s) \<and> freed nr (gs s) = 0" if "nr \<in> A \<union> B \<union> hlr_held s" for nr
    using that e(1,2) R [of nr] inv unfolding hlr_inv_def by blast
  have "freed nr (gs t) \<le> 1" for nr using f [of nr] AB [of nr] inv by (auto simp: hlr_inv_def)
  moreover have "freed nr (gs t) = 0" if "nr \<ge> next_req_nr (gs t)" for nr
    using f [of nr] AB [of nr] inv that n by (auto simp: hlr_inv_def)
  moreover have "nr < next_req_nr (gs t) \<and> freed nr (gs t) = 0" if "nr \<in> hlr_held t" for nr
    using f [of nr] AB [of nr] that h n by auto
  ultimately show "hlr_inv t" using ok unfolding hlr_inv_def by blast
  show "owned hlr_held nr s \<Longrightarrow> owned hlr_held nr t"
    using f [of nr] h AB [of nr] by (auto simp: owned_def split: if_splits)
  show "r \<in> R \<Longrightarrow> r \<in> M \<Longrightarrow> owned hlr_held r t"
    using f [of r] h R [of r] e(3) by (auto simp: owned_def)
qed

lemma req_new_nr:
  "next_req_nr (fst (osmo_gsup_req_new L G (gsup_server_send_req_response G) (Some p) msg g)) =
     next_req_nr g + (if msg = [] then 0 else 1)"
  by (auto simp: osmo_gsup_req_new_def Let_def gsup_cb.respond_msgt_fields gsup_cb.respond_err_fields osmo_gsup_req_free_def
      prod.case_eq_if split: option.splits)

lemma route_add_nr: "next_req_nr (fst (gsup_route_add_ipa_name c n g)) = next_req_nr g"
  by (auto simp: gsup_route_add_ipa_name_def gsup_route_add_def Let_def split: option.splits)

lemma conn_rx_nr: "next_req_nr (fst (osmo_gsup_conn_rx L G conn msg g)) = next_req_nr g + (if msg = [] then 0 else 1)"
  using req_new_nr [of L G "ipa_peer (peer_name conn)" msg g] route_add_nr
  by (auto simp: conn_rx_cases prod.case_eq_if gsup_cb.respond_msgt_fields split: option.splits)

lemma rq_store_fst [simp]: "fst (rq_store r s) = fst s" "lookup_methods (snd (rq_store r s)) = lookup_methods (snd s)"
  by (simp_all add: rq_store_def)

lemma lookup_step_quiet:
  assumes m: "methods_quiet (snd s)" and inv: "proxy_inv (fst s)"
    and "lookup_step L (resolve_hlr_result_cb L G P net) e s = Ret s'"
  shows "proxy_quiet (fst s) (fst s')"
proof -
  let ?cb = "resolve_hlr_result_cb L G P net"
  note sr = send_result_quiet [OF m inv, of L G P net]
  have st: "proxy_quiet (fst s) (fst (osmo_mslookup_request_send_result ?cb r fin (rq_store r' s)))" for r r' fin
    using send_result_quiet [of "rq_store r' s" L G P net r fin] m inv by (simp add: methods_quiet_def)
  show ?thesis
  proof (cases e)
    case (Expire h)
    show ?thesis
    proof (cases "get_request (snd s) h")
      case (Some r)
      with assms(3) Expire have "timeout_cb ?cb r s = Ret s'" by (simp add: lookup_step_def)
      then show ?thesis using sr st inv by (auto simp: timeout_cb_def Let_def split: if_splits option.splits)
    qed (use assms(3) Expire inv in \<open>simp add: lookup_step_def\<close>)
  next
    case (Rx_Result h r)
    with assms(3) show ?thesis using sr inv
      by (auto simp: lookup_step_def osmo_mslookup_client_rx_result_def Let_def split: option.splits)
  qed (use assms(3) cancel_quiet [OF m inv] lookup_request_quiet [OF m inv] in \<open>auto simp: lookup_step_def\<close>)
qed

section \<open>All events\<close>

inductive hlr_step :: "hlr_lib \<Rightarrow> 'a hlr_world_scheme \<Rightarrow> 'a hlr_world_scheme \<Rightarrow> bool" for X where
  read: "methods_quiet c \<Longrightarrow> read_cb X V conn msg (s, c) = Ret (s', c') \<Longrightarrow> hlr_step X s s'"
| lu_timer: "lu \<in> set (g_all_lu s) \<Longrightarrow> hlr_step X s (lu_fsm_timer_cb (l_gsup X) lu s)"
| ss_timer: "ss \<in> set (ss_sessions s) \<Longrightarrow> ss_session_timeout ss s = Ret s' \<Longrightarrow> hlr_step X s s'"
| lookup: "methods_quiet c \<Longrightarrow> lookup_step (l_core X) (resolve_hlr_result_cb (l_core X) (l_gsup X) (l_oap X) nt) e (s, c) =
    Ret (s', c') \<Longrightarrow> hlr_step X s s'"
| cleanup: "hlr_step X s (proxy_cleanup s)"
| remote_link: "hlr_step X s (remote_hlr_link (l_core X) (l_gsup X) (l_oap X) i up s)"
| remote_rx: "hlr_step X s (fst (remote_hlr_rx (l_core X) (l_gsup X) i msg s))"
| time: "hlr_step X s (s\<lparr>clock := n\<rparr>)"
| accept: "hlr_step X s (s\<lparr>gs := fst (osmo_gsup_server_accept_cb osmo_gsup_conn_free cid rc (gs s))\<rparr>)"
| ccm: "hlr_step X s (s\<lparr>gs := fst (osmo_gsup_server_ccm_cb conn tlvp (gs s))\<rparr>)"
| closed: "hlr_step X s (s\<lparr>gs := fst (osmo_gsup_server_closed_cb cid (gs s))\<rparr>)"
| user_db: "hlr_step X s (s\<lparr>dbc := db\<rparr>)"
| user_notify: "osmo_hlr_subscriber_update_notify (l_gsup X) partial subscr s = Ret s' \<Longrightarrow> hlr_step X s s'"
| user_euse_del: "hlr_step X s (euse_del e s)"
| user_nam: "hlr_subscr_nam (l_gsup X) E subscr val is_ps s = Ret (s', rc) \<Longrightarrow> hlr_step X s s'"

lemma received:
  assumes inv: "hlr_inv s" and g: "osmo_gsup_conn_rx L G conn msg (gs s) = (g, r)"
  shows "hlr_inv (s\<lparr>gs := g\<rparr>)" and "owned hlr_held nr s \<Longrightarrow> owned hlr_held nr (s\<lparr>gs := g\<rparr>)"
    and "r = Some req \<Longrightarrow> req_nr req < next_req_nr g \<and> freed (req_nr req) g = 0 \<and> req_nr req \<notin> hlr_held s \<and>
      osmo_imsi_str_valid L (g_imsi (req_gsup req))"
proof -
  have h: "hlr_held (s\<lparr>gs := g\<rparr>) = hlr_held s" "components_ok (s\<lparr>gs := g\<rparr>) = components_ok s"
    by (simp_all add: hlr_held_def components_ok_def lu_inv_def ussd_inv_def proxy_inv_def)
  have n: "next_req_nr g = next_req_nr (gs s) + (if msg = [] then 0 else 1)" using conn_rx_nr [of L G conn msg "gs s"] g by simp
  have e: "g = gs s \<and> r = None" if "msg = []" using g that by (simp add: conn_rx_cases osmo_gsup_req_new_def)
  have f: "freed nr g = freed nr (gs s) + (if r = None \<and> msg \<noteq> [] \<and> nr = next_req_nr (gs s) then 1 else 0)" for nr
    using conn_rx_freed [OF g, of nr] e by (cases "msg = []") auto
  show i: "hlr_inv (s\<lparr>gs := g\<rparr>)" using inv n f unfolding hlr_inv_def h by auto
  show "owned hlr_held nr s \<Longrightarrow> owned hlr_held nr (s\<lparr>gs := g\<rparr>)"
    using inv f [of nr] by (auto simp: owned_def h hlr_inv_def split: if_splits)
  assume r: "r = Some req"
  then have m: "msg \<noteq> []" using e by auto
  note c = conn_rx_SomeD(1) [OF g [unfolded r]]
  show "req_nr req < next_req_nr g \<and> freed (req_nr req) g = 0 \<and> req_nr req \<notin> hlr_held s \<and>
      osmo_imsi_str_valid L (g_imsi (req_gsup req))"
    using req_new_SomeD(2,5) [OF c] n m f [of "req_nr req"] r inv by (auto simp: hlr_inv_def)
qed

lemma gs_sel [simp]:
  "msisdn_len_bad (s\<lparr>gs := g\<rparr>) = msisdn_len_bad s" "forgotten req (s\<lparr>gs := g\<rparr>) = forgotten req s"
  "ss_fails U req (s\<lparr>gs := g\<rparr>) = ss_fails U req s" "hlr_held (s\<lparr>gs := g\<rparr>) = hlr_held s"
  by (simp_all add: msisdn_len_bad_def forgotten_def ss_end_unknown_def ss_fails_iff begin_fails_def ussd_route_lookup_7bit_def
      ss_session_find_def hlr_held_def)

lemma read_received:
  fixes s :: "'a hlr_world_scheme"
  assumes inv: "hlr_inv s" and c: "methods_quiet c" and X: "hlr_lib_ok X"
    and g: "osmo_gsup_conn_rx (l_core X) (l_gsup X) conn msg (gs s) = (g, Some req)"
  shows "case read_cb X V conn msg (s, c) of
      Fault \<Rightarrow> msisdn_len_bad s \<or> is_proc_ss req \<and> ss_fails (l_ss X) req s
    | Ret (s', c') \<Rightarrow> hlr_inv s' \<and> (owned hlr_held nr s \<longrightarrow> owned hlr_held nr s') \<and>
        (\<not> forgotten req s \<longrightarrow> owned hlr_held (req_nr req) s')"
proof -
  let ?r = "req_nr req" and ?s = "s\<lparr>gs := g\<rparr>"
  note rx = received [OF inv g]
  have r: "?r < next_req_nr (gs ?s) \<and> freed ?r (gs ?s) = 0" "?r \<notin> hlr_held ?s" "osmo_imsi_str_valid (l_core X) (g_imsi (req_gsup req))"
    using rx(3) [OF refl] by simp_all
  have ok: "components_ok ?s" using rx(1) by (simp add: hlr_inv_def)
  have "handled (msisdn_len_bad s \<or> is_proc_ss req \<and> ss_fails (l_ss X) req s) {?r} (if forgotten req s then {} else {?r}) ?s
      (case read_cb X V conn msg (s, c) of Fault \<Rightarrow> Fault | Ret s' \<Rightarrow> Ret (fst s'))"
    using req_handled [of "(?s, c)" req X V conn] ok r X c g by (simp add: read_cb_def)
  moreover have "hlr_inv t \<and> (owned hlr_held nr s \<longrightarrow> owned hlr_held nr t) \<and> (\<not> forgotten req s \<longrightarrow> owned hlr_held ?r t)"
    if ch: "hlr_change {?r} (if forgotten req s then {} else {?r}) ?s t" for t
    using change_inv(1) [OF rx(1) ch] change_inv(2) [OF rx(1) ch, of nr] change_inv(3) [OF rx(1) ch, of ?r] rx(2) [of nr] r(1) by auto
  ultimately show ?thesis by (cases "read_cb X V conn msg (s, c)") auto
qed

lemma read_keeps:
  assumes inv: "hlr_inv s" and c: "methods_quiet c" and X: "hlr_lib_ok X" and r: "read_cb X V conn msg (s, c) = Ret (s', c')"
  shows "hlr_inv s' \<and> (owned hlr_held nr s \<longrightarrow> owned hlr_held nr s')"
proof (cases "osmo_gsup_conn_rx (l_core X) (l_gsup X) conn msg (gs s)")
  case (Pair g q)
  show ?thesis
  proof (cases q)
    case None
    then show ?thesis using received(1,2) [OF inv Pair] r Pair by (auto simp: read_cb_def)
  next
    case (Some req)
    then show ?thesis using read_received [OF inv c X Pair [unfolded Some], where V = V and nr = nr] r by simp
  qed
qed

lemma quiet_step:
  assumes "hlr_inv s" and "hlr_change {} {} s t"
  shows "hlr_inv t \<and> (owned hlr_held nr s \<longrightarrow> owned hlr_held nr t)"
  using change_inv(1,2) [OF assms] by simp

lemma notify_same: "osmo_hlr_subscriber_update_notify G partial subscr s = Ret s' \<Longrightarrow> same_requests s s'"
proof -
  have p: "next_req_nr g' = next_req_nr g \<and> (\<forall>nr. freed nr g' = freed nr g)" if "notify_peer G partial subscr co g = Ret g'" for co g g'
    using that by (auto simp: notify_peer_def Let_def addr_send_freed prod.case_eq_if split: if_splits option.splits)
  have "next_req_nr g' = next_req_nr g \<and> (\<forall>nr. freed nr g' = freed nr g)"
    if "fold (\<lambda>co r. case r of Fault \<Rightarrow> Fault | Ret g \<Rightarrow> notify_peer G partial subscr co g) cs (Ret g) = Ret g'" for cs g g'
    using that
  proof (induction cs arbitrary: g)
    case (Cons co cs)
    have F: "fold (\<lambda>co r. case r of Fault \<Rightarrow> Fault | Ret g \<Rightarrow> notify_peer G partial subscr co g) cs Fault = Fault"
      by (induction cs) auto
    show ?case using Cons p by (cases "notify_peer G partial subscr co g") (auto simp: F)
  qed simp
  then show "osmo_hlr_subscriber_update_notify G partial subscr s = Ret s' \<Longrightarrow> same_requests s s'"
    by (auto simp: osmo_hlr_subscriber_update_notify_def intro!: same_gs split: exec.splits)
qed

lemma delete_data_same:
  assumes "send_delete_data G m n g = Some g'"
  shows "next_req_nr g' = next_req_nr g" and "freed nr g' = freed nr g"
  using assms send_to_name_freed
  by (auto simp: send_delete_data_def osmo_gsup_enc_send_to_ipa_name_def prod.case_eq_if split: if_splits option.splits)

lemma nam_same: "hlr_subscr_nam G E subscr val is_ps s = Ret (s', rc) \<Longrightarrow> same_requests s s'"
  by (auto simp: hlr_subscr_nam_def Let_def prod.case_eq_if bind_eq_Some_conv delete_data_same
      intro!: same_gs split: if_splits option.splits)

lemma conn_event_same:
  "same_requests s (s\<lparr>gs := fst (osmo_gsup_server_accept_cb osmo_gsup_conn_free cid rc (gs s))\<rparr>)"
  "same_requests s (s\<lparr>gs := fst (osmo_gsup_server_ccm_cb conn tlvp (gs s))\<rparr>)"
  "same_requests s (s\<lparr>gs := fst (osmo_gsup_server_closed_cb cid (gs s))\<rparr>)"
  by (auto intro!: same_gs simp: osmo_gsup_server_accept_cb_def osmo_gsup_server_ccm_cb_def osmo_gsup_server_closed_cb_def
      osmo_gsup_conn_free_def gsup_route_del_conn_def gsup_route_add_ipa_name_def gsup_route_add_def update_conn_def Let_def
      prod.case_eq_if freed_def split: option.splits)

lemma hlr_step_keeps:
  assumes st: "hlr_step X s s'" and inv: "hlr_inv s" and X: "hlr_lib_ok X"
  shows "hlr_inv s' \<and> (owned hlr_held nr s \<longrightarrow> owned hlr_held nr s')"
proof -
  have ok: "components_ok s" "proxy_inv s" "lu_inv s" "ussd_inv s" using inv by (simp_all add: hlr_inv_def components_ok_def)
  note quiet = quiet_step [OF inv quiet_change [OF ok(1)]] and same = quiet_step [OF inv change_same [OF ok(1)]]
  from st show ?thesis
  proof cases
    case (read c V conn msg c')
    then show ?thesis using read_keeps [OF inv _ X] by blast
  next
    case (lu_timer lu)
    have "lu_ok lu" using ok(3) lu_timer(2) by (simp add: lu_inv_def)
    from lu_ended(3) [OF this lu_timer(2), of "l_gsup X"]
    have e: "ended lu (\<lambda>_. False) s s'" unfolding lu_timer(1) .
    have "lu_id lu \<in> lu_held s" using lu_timer(2) by blast
    then have "effect lu_held {lu_id lu} {} s s'" "lu_world.more s' = lu_world.more s" "lu_inv s'"
      using e ok(3) by (auto simp: ended_def effect_def lu_inv_def distinct_map_filter)
    then have "hlr_change {} {} s s'"
      using change_lu [OF ok(1), of "{}" s' "{lu_id lu}" "{}"] more_sel(1) [of s' s] lu_timer(2) by auto
    then show ?thesis by (rule quiet_step [OF inv])
  next
    case (ss_timer ss)
    from timeout_keeps [OF ok(4) ss_timer(1)] ss_timer(2) have t: "ussd_inv s'" "effect ss_held {ss_id ss} {} s s'" by auto
    have "g_all_lu s' = g_all_lu s" "proxy s' = proxy s"
      using ss_timer(2) by (auto simp: ss_session_timeout_def ss_session_free_def free_opt_def Let_def split: if_splits option.splits)
    then have "hlr_change {} {} s s'" using change_ss [OF ok(1) _ t, of "{}" "{}"] ss_timer(1) by auto
    then show ?thesis by (rule quiet_step [OF inv])
  next
    case (lookup c nt e c')
    have "proxy_quiet s s'" using lookup_step_quiet [OF _ _ lookup(2)] lookup(1) ok(2) by simp
    then show ?thesis by (rule quiet)
  next
    case cleanup
    then show ?thesis using quiet [OF cleanup_quiet [OF ok(2)]] by simp
  next
    case (remote_link i up)
    then show ?thesis using quiet [OF link_quiet [OF ok(2)]] by simp
  next
    case (remote_rx i msg)
    then show ?thesis using quiet [OF rx_quiet [OF ok(2)]] by simp
  next
    case (time n)
    then show ?thesis using same [of s'] by (simp add: same_requests_def)
  next
    case (user_db db)
    then show ?thesis using same [of s'] by simp
  next
    case (user_euse_del e)
    have "proxy s' = proxy s" unfolding user_euse_del by (simp add: euse_del_def)
    then have "hlr_change {} {} s s'" unfolding user_euse_del
      using change_ss [OF ok(1) _ euse_del_keeps(6) [OF ok(4)] euse_del_keeps(7), of "{}" "{}"] by (simp add: euse_del_keeps(4))
    then show ?thesis by (rule quiet_step [OF inv])
  next
    case (user_notify partial subscr)
    then show ?thesis by (intro same notify_same)
  next
    case (user_nam E subscr val is_ps rc)
    then show ?thesis by (intro same nam_same)
  qed (hypsubst, rule same, rule conn_event_same)+
qed

interpretation hlr_own: request_owner hlr_inv hlr_held "\<lambda>s s'. hlr_lib_ok X \<and> hlr_step X s s'" for X
  by unfold_locales (use hlr_step_keeps in blast)+

section \<open>Properties\<close>

lemma hlr_first_facts:
  "hlr_inv hlr_first" "freed nr (gs hlr_first) = 0" "hlr_held hlr_first = {}"
  "\<not> msisdn_len_bad hlr_first" "hlr_lib_ok ref_lib" "methods_quiet osmo_mslookup_client_new"
proof -
  show f: "freed nr (gs hlr_first) = 0" "hlr_held hlr_first = {}" for nr
    by (simp_all add: hlr_first_def dgsm_one_def dgsm_world.defs freed_def gs_example_def hlr_held_def)
  show "hlr_inv hlr_first" unfolding hlr_inv_def f(1,2)
    by (simp add: components_ok_def lu_inv_def ussd_inv_def proxy_inv_def hlr_first_def dgsm_one_def dgsm_world.defs)
  show "\<not> msisdn_len_bad hlr_first" by (simp add: msisdn_len_bad_def hlr_first_def dgsm_one_def dgsm_world.defs)
  show "hlr_lib_ok ref_lib" by (simp add: hlr_lib_ok_def ref_lib_def ref_strings_ok ref_fsm_ok ref_ss_ok)
  show "methods_quiet osmo_mslookup_client_new" by (simp add: methods_quiet_def osmo_mslookup_client_new_def)
qed

text \<open>
  C2. In the whole HLR no request is ever deallocated twice and no component holds a request that is
  gone: from a consistent state, after any sequence of messages, timers, lookup results, events of
  links and connections and user commands, every request has been deallocated at most
  once; a request that a location update, a session or the proxy holds has not been deallocated, and
  it is held by only one of them, once.
\<close>
theorem hlr_never_frees_twice:
  assumes "hlr_lib_ok X" and "hlr_inv s" and "(hlr_step X)\<^sup>*\<^sup>* s s'"
  shows "freed nr (gs s') \<le> 1 \<and>
    (nr \<in> lu_held s' \<union> ss_held s' \<union> proxy_held s' \<longrightarrow> freed nr (gs s') = 0) \<and>
    distinct (map lu_id (g_all_lu s') @ map ss_id (ss_sessions s') @ map p_nr (pend s'))"
proof -
  have i: "hlr_inv s'" using hlr_own.steps_inv [of X s s'] assms by simp
  then have "distinct (map lu_id (g_all_lu s') @ map ss_id (ss_sessions s') @ map p_nr (pend s'))"
    unfolding hlr_inv_def components_ok_def lu_inv_def ussd_inv_def proxy_inv_def by (simp add: Int_Un_distrib)
  then show ?thesis using i by (simp add: hlr_inv_def hlr_held_def)
qed

theorem hlr_never_frees_twice_witness:
  "(hlr_step ref_lib)\<^sup>*\<^sup>* hlr_first (proxy_cleanup hlr_first) \<and> freed 0 (gs (proxy_cleanup hlr_first)) \<le> 1"
proof -
  have "(hlr_step ref_lib)\<^sup>*\<^sup>* hlr_first (proxy_cleanup hlr_first)" using hlr_step.cleanup by (rule r_into_rtranclp)
  then show ?thesis using hlr_never_frees_twice [OF hlr_first_facts(5,1)] by blast
qed



end
