(* ===== verification/Mslookup_Client_Mdns.thy ===== *)
theory Mslookup_Client_Mdns
  imports Mslookup_Server Hlr_Requests
begin

text \<open>
  The lookup method over multicast DNS: \<open>src/mslookup/mslookup_client_mdns.c\<close>. Its state is a
  part of the state of the HLR; packets given to the socket are recorded in order, whether or not the socket
  reports an error, which is only logged. The theory ends with the composition of client and server: a
  lookup sent by one HLR, received by another and answered to the first.
\<close>

section \<open>Data\<close>

record osmo_mdns_method_request =
  mq_request_handle :: "32 word"
  mq_query :: osmo_mslookup_query
  mq_packet_id :: "16 word"

record osmo_mdns_method_state =
  mm_bind_addr :: osmo_sockaddr_str
  mm_domain_suffix :: string
  mm_requests :: "osmo_mdns_method_request list"
  mm_next_packet_id :: "16 word"
  mm_sent :: "octets list"

record mdns_world = hlr_world +
  mdns_method :: osmo_mdns_method_state

section \<open>Operations\<close>

definition request_handle_by_query ::
  "osmo_core \<Rightarrow> osmo_mslookup_query \<Rightarrow> osmo_mdns_method_state \<Rightarrow> (32 word) option" where
  \<comment> \<open>the packet id is not used\<close>
  "request_handle_by_query L query state =
     map_option mq_request_handle
       (List.find (\<lambda>request. \<not> strcmp (service (mq_query request)) (service query) \<noteq> 0 \<and>
          \<not> osmo_mslookup_id_cmp L False (Some (ms_id (mq_query request))) (Some (ms_id query)) \<noteq> 0) (mm_requests state))"

definition mdns_method_recv ::
  "osmo_core \<Rightarrow> 'a mdns_world_scheme result_cb \<Rightarrow> int + octets \<Rightarrow> 'a mdns_world_scheme lookup_state
     \<Rightarrow> ('a mdns_world_scheme lookup_state \<times> int) exec" where
  "mdns_method_recv L cb rd s =
     (case rd of
        Inl n \<Rightarrow> Ret (s, n)
      | Inr d \<Rightarrow>
          let buffer = take 1024 d; state = mdns_method (fst s)
          in (case osmo_mdns_result_decode L buffer (mm_domain_suffix state) of
                Fault \<Rightarrow> Fault
              | Ret None \<Rightarrow> Ret (s, - EINVAL)
              | Ret (Some (packet_id, query, result)) \<Rightarrow>
                  (case request_handle_by_query L query state of
                     None \<Rightarrow> Ret (s, - EINVAL)
                   | Some request_handle \<Rightarrow>
                       Ret (osmo_mslookup_client_rx_result cb request_handle result s, int (length buffer)))))"

definition mdns_method_request ::
  "osmo_core \<Rightarrow> osmo_mslookup_query \<Rightarrow> 32 word \<Rightarrow> 'a mdns_world_scheme \<Rightarrow> 'a mdns_world_scheme" where
  \<comment> \<open>the encoder does not overrun its buffer, see \<open>query_encode_fits\<close>\<close>
  "mdns_method_request L query h w =
     (let state = mdns_method w;
          r = \<lparr>mq_request_handle = h, mq_query = query, mq_packet_id = mm_next_packet_id state\<rparr>;
          state = state\<lparr>mm_requests := r # mm_requests state, mm_next_packet_id := mm_next_packet_id state + 1\<rparr>
      in (case osmo_mdns_query_encode L (mq_packet_id r) query (mm_domain_suffix state) of
            Ret (Some msg) \<Rightarrow> w\<lparr>mdns_method := state\<lparr>mm_sent := mm_sent state @ [msg]\<rparr>\<rparr>
          | _ \<Rightarrow> w\<lparr>mdns_method := state\<rparr>))"

fun remove_first :: "('x \<Rightarrow> bool) \<Rightarrow> 'x list \<Rightarrow> 'x list" where
  \<comment> \<open>the loop that deletes the entry it finds and returns\<close>
  "remove_first P [] = []"
| "remove_first P (x # xs) = (if P x then xs else x # remove_first P xs)"

definition mdns_method_request_cleanup :: "32 word \<Rightarrow> 'a mdns_world_scheme \<Rightarrow> 'a mdns_world_scheme" where
  "mdns_method_request_cleanup h w =
     w\<lparr>mdns_method := (mdns_method w)\<lparr>mm_requests := remove_first (\<lambda>r. mq_request_handle r = h) (mm_requests (mdns_method w))\<rparr>\<rparr>"

definition mdns_method_destruct :: "'a mdns_world_scheme \<Rightarrow> 'a mdns_world_scheme" where
  "mdns_method_destruct w = w\<lparr>mdns_method := (mdns_method w)\<lparr>mm_requests := []\<rparr>\<rparr>"

definition osmo_mslookup_client_add_mdns ::
  "osmo_core \<Rightarrow> bool \<Rightarrow> int \<times> 16 word \<Rightarrow> nat \<Rightarrow> string \<Rightarrow> 16 word \<Rightarrow> int \<Rightarrow> string \<Rightarrow> 'a mdns_world_scheme lookup_state
     \<Rightarrow> 'a mdns_world_scheme lookup_state \<times> nat option" where
  \<comment> \<open>\<open>sock_ok\<close>: \<open>osmo_mdns_sock_init\<close> returns a socket; \<open>rnd\<close>: the result of \<open>osmo_get_rand_id\<close>; \<open>i\<close>: the
    identity of the new method\<close>
  "osmo_mslookup_client_add_mdns L sock_ok rnd i ip port initial_packet_id sfx s =
     (case osmo_sockaddr_str_from_str L ip port of
        (bind_addr, rc) \<Rightarrow>
          if rc \<noteq> 0 then (s, None)
          else if initial_packet_id = - 1 \<and> fst rnd < 0 then (s, None)
          else
            let packet_id = (if initial_packet_id = - 1 then snd rnd else of_int initial_packet_id);
                state = \<lparr>mm_bind_addr = bind_addr, mm_domain_suffix = sfx, mm_requests = [], mm_next_packet_id = packet_id, mm_sent = []\<rparr>;
                m = \<lparr>m_id = i, m_request = mdns_method_request L, m_request_cleanup = Some mdns_method_request_cleanup,
                     m_destruct = Some mdns_method_destruct\<rparr>
            in if \<not> sock_ok then (s, None)
               else (((fst s)\<lparr>mdns_method := state\<rparr>, osmo_mslookup_client_method_add m (snd s)), Some i))"

definition osmo_mslookup_client_method_mdns_get_bind_addr :: "'a mdns_world_scheme \<Rightarrow> osmo_sockaddr_str" where
  "osmo_mslookup_client_method_mdns_get_bind_addr w = mm_bind_addr (mdns_method w)"

definition osmo_mslookup_client_method_mdns_get_domain_suffix :: "'a mdns_world_scheme \<Rightarrow> string" where
  "osmo_mslookup_client_method_mdns_get_domain_suffix w = mm_domain_suffix (mdns_method w)"

section \<open>The method leaves requests and proxy alone\<close>

lemma mdns_same: "proxy_inv w \<Longrightarrow> proxy_quiet w (w\<lparr>mdns_method := st\<rparr>)"
  by (auto simp: proxy_quiet_def proxy_frame_def proxy_inv_def effect_def intro!: exI [of _ "{}"])

lemma add_mdns_quiet:
  assumes "methods_quiet (snd s)"
  shows "methods_quiet (snd (fst (osmo_mslookup_client_add_mdns L sock_ok rnd i ip port pid sfx s)))"
  using assms mdns_same
  by (auto simp: osmo_mslookup_client_add_mdns_def osmo_mslookup_client_method_add_def methods_quiet_def Let_def prod.case_eq_if
      mdns_method_request_def mdns_method_request_cleanup_def split: exec.split option.split)

section \<open>From client to server and back\<close>

lemma query_encode_length: "osmo_mdns_query_encode L pid q sfx = Ret (Some bs) \<Longrightarrow> length bs \<le> 1024"
  by (auto simp: osmo_mdns_query_encode_def split: option.splits prod.splits if_splits)

lemma result_encode_length: "osmo_mdns_result_encode L pid q r sfx = Ret (Some bs) \<Longrightarrow> length bs \<le> 1024"
  by (auto simp: osmo_mdns_result_encode_def Let_def split: option.splits prod.splits if_splits exec.splits)

lemma query_decode_nonempty: "osmo_mdns_query_decode L bs sfx = Ret (Some x) \<Longrightarrow> bs \<noteq> []"
  by (auto simp: osmo_mdns_query_decode_def osmo_mdns_msg_request_decode_def)

lemma result_encode_last: "osmo_mdns_result_encode L pid q (r\<lparr>ms_last := b\<rparr>) sfx = osmo_mdns_result_encode L pid q r sfx"
  by (cases r) (simp only: osmo_mdns_result_encode_def osmo_mslookup_result.simps)

lemma id_cmp_refl: "lib_cmp_ok L \<Longrightarrow> osmo_mslookup_id_cmp L False (Some i) (Some i) = 0"
  by (simp add: osmo_mslookup_id_cmp_def lib_cmp_ok_def Let_def strncmp_def)

lemma request_handle_first:
  "lib_cmp_ok L \<Longrightarrow> mm_requests st = \<lparr>mq_request_handle = h, mq_query = q, mq_packet_id = i\<rparr> # rs \<Longrightarrow>
     request_handle_by_query L q st = Some h"
  by (simp add: request_handle_by_query_def id_cmp_refl)

lemma query_encode_fits:
  \<comment> \<open>the buffer of a query packet is never exceeded\<close>
  assumes "lib_strbuf_ok L" and "lib_endian_ok L"
  shows "osmo_mdns_query_encode L pid q sfx \<noteq> Fault"
proof -
  have n: "length n \<le> 256" if "osmo_mdns_rfc_qname_encode L d = Some n" for d n
    using that qname_encode_ok [OF assms(1), of d] qname_encode_None [of d L] length_wire_strsep [of d]
    by (cases "length d > OSMO_MDNS_RFC_MAX_NAME_LEN \<or> [] \<in> set (strsep_dots d)") auto
  have "length (fst (osmo_mdns_msg_request_encode L [] r)) \<le> 1024" for r
    using n [of "mreq_domain r"] length_header [OF assms(2), of "[]"] assms(2)
    by (auto simp: osmo_mdns_msg_request_encode_def osmo_mdns_rfc_question_encode_def Let_def prod.case_eq_if endian_rules
        split: option.split)
  then show ?thesis by (auto simp: osmo_mdns_query_encode_def prod.case_eq_if not_less [symmetric] split: option.split)
qed

text \<open>
  C6. A lookup over the network finds what the other HLR knows. Let a lookup of an IMSI or MSISDN be handed to the
  multicast DNS method of one HLR, with any other lookups in progress, for a query that can be written as a domain (\<open>query_ok\<close>: digits and
  labels within their bounds) of at most 179 characters with the suffix. Exactly one packet is sent. When another HLR
  with the same domain suffix receives this packet, it decodes the same query. If its lookup of this subscriber gives no result, it sends
  no answer. If it gives a result, with at least one address set and every address that is set in its canonical notation, it sends an answer packet; when the first
  HLR receives the answer, its lookup client gets exactly that result (addresses, ports and age), for this lookup and no
  other. The bound on the domain is that of the answer packet: for a longer domain an answer can exceed its buffer, which aborts the server.
\<close>
theorem mslookup_over_mdns:
  assumes "lib_strings_ok L" and "lib_strbuf_ok L" and "lib_endian_ok L" and "lib_text_ok L" and "lib_cmp_ok L"
    and "sfx = mm_domain_suffix (mdns_method w)" and "srv_domain_suffix srv = sfx"
    and "query_ok L q sfx" and "length (query_domain L q sfx) \<le> 179"
    and "mslookup_server_rx L E q undef s c = (c', r)"
    and "ms_rc r = OSMO_MSLOOKUP_RC_RESULT \<longrightarrow> v4_ok L (host_v4 r) b4 \<and> v6_ok L (host_v6 r) b6 \<and>
      (osmo_sockaddr_str_is_set L (host_v4 r) \<or> osmo_sockaddr_str_is_set L (host_v6 r))"
  shows "\<exists>pkt ans. mm_sent (mdns_method (mdns_method_request L q h w)) = mm_sent (mdns_method w) @ [pkt] \<and>
    osmo_mslookup_server_mdns_rx L E srv (Inr pkt) undef s c = Ret (c', ans, int (length pkt)) \<and>
    (if ms_rc r \<noteq> OSMO_MSLOOKUP_RC_RESULT then ans = None
     else \<exists>a. ans = Some a \<and>
       mdns_method_recv L cb (Inr a) (mdns_method_request L q h w, client) =
         Ret (osmo_mslookup_client_rx_result cb h (r\<lparr>ms_last := False\<rparr>) (mdns_method_request L q h w, client), int (length a)))"
proof -
  let ?i = "mm_next_packet_id (mdns_method w)" and ?w = "mdns_method_request L q h w"
  obtain pkt where p: "osmo_mdns_query_encode L ?i q sfx = Ret (Some pkt)" "osmo_mdns_query_decode L pkt sfx = Ret (Some (q, ?i))"
    using query_packet [OF assms(1-3,8)] by blast
  have w: "mdns_method ?w = (mdns_method w)\<lparr>mm_requests := \<lparr>mq_request_handle = h, mq_query = q, mq_packet_id = ?i\<rparr> # mm_requests (mdns_method w),
      mm_next_packet_id := ?i + 1, mm_sent := mm_sent (mdns_method w) @ [pkt]\<rparr>"
    using p(1) assms(6) by (simp add: mdns_method_request_def Let_def)
  have len: "length pkt \<le> 1024" "pkt \<noteq> []" using query_encode_length [OF p(1)] query_decode_nonempty [OF p(2)] .
  have rx: "osmo_mslookup_server_mdns_rx L E srv (Inr pkt) undef s c =
      (if ms_rc r \<noteq> OSMO_MSLOOKUP_RC_RESULT then Ret (c', None, int (length pkt))
       else (case osmo_mdns_result_encode L ?i q r sfx of Fault \<Rightarrow> Fault | Ret a \<Rightarrow> Ret (c', a, int (length pkt))))"
    using len p(2) assms(7,10)
    by (simp add: osmo_mslookup_server_mdns_rx_def osmo_mslookup_server_mdns_handle_request_def osmo_mslookup_server_mdns_tx_def
        split: exec.split)
  show ?thesis
  proof (cases "ms_rc r = OSMO_MSLOOKUP_RC_RESULT")
    case False
    then show ?thesis using w rx by simp
  next
    case True
    let ?r = "r\<lparr>ms_last := False\<rparr>"
    obtain a where a: "osmo_mdns_result_encode L ?i q r sfx = Ret (Some a)" "osmo_mdns_result_decode L a sfx = Ret (Some (?i, q, ?r))"
      using result_packet [OF assms(1-4,8,9), of ?r b4 b6 ?i] assms(11) True by (auto simp: result_encode_last)
    have "request_handle_by_query L q (mdns_method ?w) = Some h"
      by (rule request_handle_first [OF assms(5)]) (simp add: w)
    then have "mdns_method_recv L cb (Inr a) (?w, client) = Ret (osmo_mslookup_client_rx_result cb h ?r (?w, client), int (length a))"
      using a result_encode_length [OF a(1)] assms(6) by (simp add: mdns_method_recv_def w)
    then show ?thesis using w rx a(1) True by simp
  qed
qed

definition home_query :: osmo_mslookup_query where
  "home_query = \<lparr>service = ''gsup.hlr'', ms_id = \<lparr>id_type = OSMO_MSLOOKUP_ID_IMSI, id_digits = ''262420000000001''\<rparr>\<rparr>"

definition home_server :: mslookup_server where
  "home_server = \<lparr>local_site_services = [\<lparr>cfg_msc_name = ipa_name_empty, service_hosts =
       [\<lparr>sh_service = ''gsup.hlr'', sh_host_v4 = \<lparr>sa_af = AF_INET, sa_ip = ''abcd'', sa_port = 4222\<rparr>, sh_host_v6 = sockaddr_zero\<rparr>]\<rparr>],
     local_attach_max_age = 3600, gsup_bind_addr = ''0.0.0.0'', gsup_bind = service_host_zero\<rparr>"

definition mdns_first :: mdns_world where
  "mdns_first = hlr_world.extend hlr_first \<lparr>mdns_method = \<lparr>mm_bind_addr = sockaddr_zero, mm_domain_suffix = ''mdns.osmocom.org'',
     mm_requests = [], mm_next_packet_id = 65535, mm_sent = []\<rparr>\<rparr>"

lemma home_query_ok: "query_ok ref_core home_query ''mdns.osmocom.org''" "length (query_domain ref_core home_query ''mdns.osmocom.org'') \<le> 179"
proof -
  have t: "osmo_mslookup_id_type_name ref_core OSMO_MSLOOKUP_ID_IMSI = ''imsi''"
    by (simp add: osmo_mslookup_id_type_name_def osmo_mslookup_id_type_names_def lib_value_tables [OF ref_strings_ok])
  have v: "osmo_mslookup_id_valid ref_core (ms_id home_query)"
    by (simp add: home_query_def osmo_mslookup_id_valid_def ref_core_def is_digit_def octet_val_def)
  show "query_ok ref_core home_query ''mdns.osmocom.org''"
    using v t by (simp add: query_ok_def osmo_mslookup_service_valid_def query_domain_def id_name_def name_ok_def home_query_def)
  show "length (query_domain ref_core home_query ''mdns.osmocom.org'') \<le> 179"
    using t by (simp add: query_domain_def id_name_def home_query_def)
qed

lemma home_server_answers:
  "mslookup_server_rx ref_core ref_env home_query undef hlr_first home_server =
     (home_server, undef\<lparr>ms_rc := OSMO_MSLOOKUP_RC_RESULT, host_v4 := \<lparr>sa_af = AF_INET, sa_ip = ''abcd'', sa_port = 4222\<rparr>,
        host_v6 := sockaddr_zero, age := 0\<rparr>)"
proof -
  have e: "db_subscr_exists_by_imsi ref_env ''262420000000001'' db_one = 0"
    by (simp add: db_subscr_exists_by_imsi_def db_exists_def ref_env_ok db_one_def new_subscriber_def)
  have h: "mslookup_server_get_local_gsup_addr ref_core home_server =
      (home_server, \<lparr>sh_service = ''gsup.hlr'', sh_host_v4 = \<lparr>sa_af = AF_INET, sa_ip = ''abcd'', sa_port = 4222\<rparr>, sh_host_v6 = sockaddr_zero\<rparr>)"
    by (simp add: mslookup_server_get_local_gsup_addr_def mslookup_server_service_get_def mslookup_server_msc_get_def
        mslookup_server_msc_service_get_def index_of_def home_server_def mslookup_server_msc_wildcard_def osmo_ipa_name_cmp_def
        OSMO_MSLOOKUP_SERVICE_HLR_GSUP_def)
  show ?thesis using e h
    by (simp add: mslookup_server_rx_def mslookup_server_rx_hlr_gsup_def home_query_def OSMO_MSLOOKUP_SERVICE_HLR_GSUP_def set_result_def)
      (simp add: ref_core_def)
qed

theorem mslookup_over_mdns_witness:
  "\<exists>pkt a. mm_sent (mdns_method (mdns_method_request ref_core home_query 7 mdns_first)) = [pkt] \<and>
     osmo_mslookup_server_mdns_rx ref_core ref_env \<lparr>srv_bind_addr = sockaddr_zero, srv_domain_suffix = ''mdns.osmocom.org''\<rparr>
       (Inr pkt) result_zero hlr_first home_server = Ret (home_server, Some a, int (length pkt))"
proof -
  let ?r = "result_zero\<lparr>ms_rc := OSMO_MSLOOKUP_RC_RESULT, host_v4 := \<lparr>sa_af = AF_INET, sa_ip = ''abcd'', sa_port = 4222\<rparr>,
        host_v6 := sockaddr_zero, age := 0\<rparr>"
  have v: "v4_ok ref_core (host_v4 ?r) ''abcd'' \<and> v6_ok ref_core (host_v6 ?r) [] \<and>
      (osmo_sockaddr_str_is_set ref_core (host_v4 ?r) \<or> osmo_sockaddr_str_is_set ref_core (host_v6 ?r))"
    by (simp add: v4_ok_def v6_ok_def ref_core_def sockaddr_zero_def)
  have m: "''mdns.osmocom.org'' = mm_domain_suffix (mdns_method mdns_first)" "mm_sent (mdns_method mdns_first) = []"
    by (simp_all add: mdns_first_def hlr_world.defs hlr_first_def dgsm_world.defs)
  have c: "lib_cmp_ok ref_core" by (simp add: lib_cmp_ok_def ref_core_def)
  show ?thesis
    using mslookup_over_mdns [OF ref_strings_ok ref_strbuf_ok ref_endian_ok ref_text_ok c m(1) _ home_query_ok home_server_answers, of
        "\<lparr>srv_bind_addr = sockaddr_zero, srv_domain_suffix = ''mdns.osmocom.org''\<rparr>" result_zero "''abcd''" "[]" 7 "\<lambda>_ _ _ s. s" osmo_mslookup_client_new] v m(2)
    by auto
qed

end
