(* ===== verification/Mslookup_Client_Tool.thy ===== *)
theory Mslookup_Client_Tool
  imports Mslookup_Client_Mdns "HOL-Library.Multiset"
begin

text \<open>
  The command line client for lookups: \<open>src/mslookup/osmo-mslookup-client.c\<close>. The static variables of the
  program (options, counters, lists) and what it writes to its standard output, its error output and its sockets are the
  record \<open>tool_state\<close>, a part of the world on which the lookup client and its multicast DNS method act; the parts of
  that world that belong to an HLR are not used. A connection is identified by its file descriptor.
  The options are given as \<open>getopt_long\<close> yields them. The main loop handles what one call of
  \<open>osmo_select_main_ctx\<close> finds as a batch of events.
\<close>

section \<open>Data\<close>

abbreviation (input) TAB :: char where "TAB \<equiv> CHR 0x09"
abbreviation (input) LF :: char where "LF \<equiv> CHR 0x0A"
abbreviation (input) UINT32_MAX :: int where "UINT32_MAX \<equiv> 4294967295"
abbreviation (input) EAGAIN :: int where "EAGAIN \<equiv> 11"

datatype result_format = FORMAT_CSV | FORMAT_JSON

record lookup_opts =
  o_daemon :: bool
  o_mdns_addr :: osmo_sockaddr_str
  o_min_delay :: nat
  o_timeout :: nat
  o_socket_path :: "string option"
  o_format_str :: "string option"
  o_mdns_domain_suffix :: string
  o_csv_headers :: bool
  o_send :: bool
  o_quiet :: bool

record socket_client =
  sc_fd :: int
  sc_query_str :: string

record tool_query =
  tq_query_str :: string
  tq_query :: osmo_mslookup_query
  tq_handle :: "32 word"

datatype tool_output = Out_Text string | Out_Help | Out_Version

record tool_state =
  lookup_opts :: lookup_opts
  requests_handled :: "32 word"
  tool_queries :: "tool_query list"
  socket_clients :: "socket_client list"
  tool_format :: result_format
  socket_ofd :: "int option"
  tool_stdout :: "tool_output list"
  tool_stderr :: "string list"
  fd_written :: "(int \<times> string) list"
  fd_closed :: "int list"
  packets_sent :: "octets list"

record tool_world = mdns_world +
  tool :: tool_state

record tool_lib =
  tl_core :: osmo_core
  osmo_print_n_rc :: "nat \<Rightarrow> string \<Rightarrow> nat"
  osmo_str_startswith :: "string \<Rightarrow> string \<Rightarrow> bool"

definition tool_lib_ok :: "tool_lib \<Rightarrow> bool" where
  \<comment> \<open>\<open>osmo_print_n\<close> returns the length of what it was given to copy\<close>
  "tool_lib_ok T \<longleftrightarrow> lib_text_ok (tl_core T) \<and> (\<forall>n s. cstring_ok s \<longrightarrow> osmo_print_n_rc T n s = length s)"

definition default_opts :: lookup_opts where
  "default_opts = \<lparr>o_daemon = False, o_mdns_addr = \<lparr>sa_af = AF_INET, sa_ip = ''239.192.23.42'', sa_port = 4266\<rparr>,
     o_min_delay = 1000, o_timeout = 1000, o_socket_path = None, o_format_str = None,
     o_mdns_domain_suffix = ''mdns.osmocom.org'', o_csv_headers = True, o_send = False, o_quiet = False\<rparr>"

definition tool_start :: tool_state where
  \<comment> \<open>the static variables when the program starts\<close>
  "tool_start = \<lparr>lookup_opts = default_opts, requests_handled = 0, tool_queries = [], socket_clients = [], tool_format = FORMAT_CSV,
     socket_ofd = None, tool_stdout = [], tool_stderr = [], fd_written = [], fd_closed = [], packets_sent = []\<rparr>"

definition CSV_HEADERS :: string where
  "CSV_HEADERS = ''query'' @ TAB # ''result'' @ TAB # ''last'' @ TAB # ''age'' @ TAB # ''v4_ip'' @ TAB # ''v4_port'' @ TAB # ''v6_ip'' @ TAB # ''v6_port''"

section \<open>Numbers, strings and output\<close>

definition print_error :: "string \<Rightarrow> tool_state \<Rightarrow> tool_state" where
  "print_error txt g = (if \<not> o_quiet (lookup_opts g) then g\<lparr>tool_stderr := tool_stderr g @ [txt]\<rparr> else g)"

definition parse_int :: "int \<Rightarrow> int \<Rightarrow> string option \<Rightarrow> int \<times> int" where
  \<comment> \<open>the value and what is stored through \<open>rc\<close>\<close>
  "parse_int minval maxval arg =
     (case arg of
        None \<Rightarrow> (- 1, - 1)
      | Some a \<Rightarrow>
          (case strtoll a of
             (val, endptr, erange) \<Rightarrow>
               if erange \<or> val < minval \<or> val > maxval \<or> endptr \<noteq> [] then (- 1, - 1) else (val, 0)))"

fun strchr :: "string \<Rightarrow> char \<Rightarrow> nat option" where
  \<comment> \<open>of the C library: the index of the first occurrence\<close>
  "strchr [] c = None"
| "strchr (x # xs) c = (if x = c then Some 0 else map_option Suc (strchr xs c))"

definition strtok :: "string \<Rightarrow> char list \<Rightarrow> string option" where
  \<comment> \<open>of the C library, the first call for a string\<close>
  "strtok s delim =
     (let t = dropWhile (\<lambda>c. c \<in> set delim) s
      in if t = [] then None else Some (takeWhile (\<lambda>c. c \<notin> set delim) t))"

definition respond_str_stdout :: "string \<Rightarrow> tool_state \<Rightarrow> tool_state" where
  "respond_str_stdout str g = g\<lparr>tool_stdout := tool_stdout g @ [Out_Text (str @ [LF])]\<rparr>"

definition formatter_csv :: "osmo_core \<Rightarrow> nat \<Rightarrow> string \<Rightarrow> osmo_mslookup_result option \<Rightarrow> string" where
  "formatter_csv L buflen query_str r =
     (let sb = strbuf_printf L (strbuf_new buflen) query_str
      in sb_out (case r of
           None \<Rightarrow> strbuf_printf L sb (TAB # ''ERROR'' @ replicate 6 TAB)
         | Some r \<Rightarrow>
             let sb = strbuf_printf L sb (TAB # osmo_mslookup_result_code_name L (ms_rc r));
                 sb = strbuf_printf L sb (TAB # (if ms_last r then ''last'' else ''not-last''));
                 sb = strbuf_printf L sb (TAB # show_dec (unat (age r)))
             in if ms_rc r = OSMO_MSLOOKUP_RC_RESULT then
                  let sb = (if osmo_sockaddr_str_is_nonzero L (host_v4 r)
                            then strbuf_printf L sb (TAB # sa_ip (host_v4 r) @ TAB # show_dec (unat (sa_port (host_v4 r))))
                            else strbuf_printf L sb [TAB, TAB])
                  in (if osmo_sockaddr_str_is_nonzero L (host_v6 r)
                      then strbuf_printf L sb (TAB # sa_ip (host_v6 r) @ TAB # show_dec (unat (sa_port (host_v6 r))))
                      else strbuf_printf L sb [TAB, TAB])
                else strbuf_printf L sb (replicate 5 TAB)))"

definition json_quoted :: "string \<Rightarrow> string" where
  "json_quoted s = CHR 0x22 # s @ [CHR 0x22]"

definition formatter_json :: "osmo_core \<Rightarrow> nat \<Rightarrow> string \<Rightarrow> osmo_mslookup_result option \<Rightarrow> string" where
  "formatter_json L buflen query_str r =
     (let addr = (\<lambda>a. '': ['' @ json_quoted (sa_ip a) @ '', '' @ json_quoted (show_dec (unat (sa_port a))) @ '']'');
          sb = strbuf_printf L (strbuf_new buflen) (''{'' @ json_quoted ''query'' @ '': '' @ json_quoted query_str);
          sb = (case r of
                  None \<Rightarrow> strbuf_printf L sb ('', '' @ json_quoted ''result'' @ '': '' @ json_quoted ''ERROR'')
                | Some r \<Rightarrow>
                    let sb = strbuf_printf L sb ('', '' @ json_quoted ''result'' @ '': '' @ json_quoted (osmo_mslookup_result_code_name L (ms_rc r)));
                        sb = strbuf_printf L sb ('', '' @ json_quoted ''last'' @ '': '' @ (if ms_last r then ''true'' else ''false''));
                        sb = strbuf_printf L sb ('', '' @ json_quoted ''age'' @ '': '' @ show_dec (unat (age r)))
                    in if ms_rc r = OSMO_MSLOOKUP_RC_RESULT then
                         let sb = (if osmo_sockaddr_str_is_nonzero L (host_v4 r)
                                   then strbuf_printf L sb ('', '' @ json_quoted ''v4'' @ addr (host_v4 r)) else sb)
                         in (if osmo_sockaddr_str_is_nonzero L (host_v6 r)
                             then strbuf_printf L sb ('', '' @ json_quoted ''v6'' @ addr (host_v6 r)) else sb)
                       else sb)
      in sb_out (strbuf_printf L sb ''}''))"

definition formatters :: "osmo_core \<Rightarrow> result_format \<Rightarrow> string \<Rightarrow> osmo_mslookup_result option \<Rightarrow> string" where
  \<comment> \<open>into \<open>g_buf\<close>\<close>
  "formatters L f = (case f of FORMAT_CSV \<Rightarrow> formatter_csv L 1024 | FORMAT_JSON \<Rightarrow> formatter_json L 1024)"

section \<open>Connections\<close>

definition socket_client_close :: "socket_client \<Rightarrow> tool_state \<Rightarrow> tool_state" where
  "socket_client_close c g =
     g\<lparr>fd_closed := fd_closed g @ [sc_fd c], socket_clients := filter (\<lambda>x. sc_fd x \<noteq> sc_fd c) (socket_clients g)\<rparr>"

definition socket_client_respond_result :: "socket_client \<Rightarrow> string \<Rightarrow> tool_state \<Rightarrow> tool_state" where
  "socket_client_respond_result c response g = g\<lparr>fd_written := fd_written g @ [(sc_fd c, response)]\<rparr>"

definition respond_client :: "string \<Rightarrow> bool \<Rightarrow> string \<Rightarrow> socket_client \<Rightarrow> tool_state \<Rightarrow> tool_state" where
  \<comment> \<open>the body of the loop over the connections\<close>
  "respond_client query_str fin buf c g =
     (if strcmp query_str (sc_query_str c) = 0 then
        let g = socket_client_respond_result c buf g
        in if fin then socket_client_close c g else g
      else g)"

definition respond_result :: "osmo_core \<Rightarrow> string \<Rightarrow> osmo_mslookup_result option \<Rightarrow> tool_state \<Rightarrow> tool_state" where
  "respond_result L query_str r g =
     (let buf = formatters L (tool_format g) query_str r;
          fin = (case r of None \<Rightarrow> True | Some r \<Rightarrow> ms_last r);
          g = respond_str_stdout buf g;
          g = fold (respond_client query_str fin buf) (socket_clients g) g
      in if fin then g\<lparr>requests_handled := requests_handled g + 1\<rparr> else g)"

definition tool_respond_err :: "osmo_core \<Rightarrow> string \<Rightarrow> tool_state \<Rightarrow> tool_state" where
  "tool_respond_err L query_str g = respond_result L query_str None g"

section \<open>Queries\<close>

definition query_by_handle :: "32 word \<Rightarrow> tool_state \<Rightarrow> tool_query option" where
  "query_by_handle request_handle g = List.find (\<lambda>q. request_handle = tq_handle q) (tool_queries g)"

definition mslookup_result_cb :: "osmo_core \<Rightarrow> tool_world result_cb" where
  "mslookup_result_cb L request_handle query result s =
     (let g = tool (fst s)
      in case query_by_handle request_handle g of
           None \<Rightarrow> s
         | Some q \<Rightarrow>
             let g = respond_result L (tq_query_str q) (Some result) g;
                 g = (if ms_last result
                      then g\<lparr>tool_queries := remove_first (\<lambda>x. tq_handle x = request_handle) (tool_queries g)\<rparr> else g)
             in ((fst s)\<lparr>tool := g\<rparr>, snd s))"

definition query_min_delay :: "tool_lib \<Rightarrow> string \<Rightarrow> string + nat \<times> string" where
  \<comment> \<open>the number in front of a dash and the rest, or the text of the error\<close>
  "query_min_delay T timeouts =
     (case strchr timeouts CHR ''-'' of
        None \<Rightarrow> Inr (0, timeouts)
      | Some dash \<Rightarrow>
          let min_delay = osmo_print_n (tl_core T) 16 (take dash timeouts)
          in (case parse_int 0 UINT32_MAX (Some min_delay) of
                (val, rc) \<Rightarrow>
                  if rc \<noteq> 0 then Inl (''ERROR: invalid min-delay number: '' @ min_delay @ [LF])
                  else Inr (nat val, drop (Suc dash) timeouts)))"

definition query_handling :: "tool_lib \<Rightarrow> lookup_opts \<Rightarrow> string \<Rightarrow> string + osmo_mslookup_query_handling" where
  \<comment> \<open>the timeouts of a query string, or the text of the error\<close>
  "query_handling T opts query_str =
     (case strchr query_str CHR ''@'' of
        None \<Rightarrow> Inr \<lparr>min_wait_milliseconds = o_min_delay opts, result_timeout_milliseconds = o_timeout opts\<rparr>
      | Some at \<Rightarrow>
          let timeouts = osmo_print_n (tl_core T) 16 (take at query_str)
          in if osmo_print_n_rc T 16 (take at query_str) \<ge> 16 then Inl (''ERROR: timeouts part too long in query string'' @ [LF])
             else
               (case query_min_delay T timeouts of
                  Inl err \<Rightarrow> Inl err
                | Inr (min_wait, timeout) \<Rightarrow>
                    if timeout = [] then Inr \<lparr>min_wait_milliseconds = min_wait, result_timeout_milliseconds = 0\<rparr>
                    else
                      (case parse_int 0 UINT32_MAX (Some timeout) of
                         (val, rc) \<Rightarrow>
                           if rc \<noteq> 0 then Inl (''ERROR: invalid timeout number: '' @ timeout @ [LF])
                           else Inr \<lparr>min_wait_milliseconds = min_wait, result_timeout_milliseconds = nat val\<rparr>)))"

definition query_domain_str :: "string \<Rightarrow> string" where
  \<comment> \<open>what follows the first at sign, if any\<close>
  "query_domain_str query_str = (case strchr query_str CHR ''@'' of None \<Rightarrow> query_str | Some at \<Rightarrow> drop (Suc at) query_str)"

definition query_failed :: "osmo_core \<Rightarrow> string \<Rightarrow> string \<Rightarrow> tool_world lookup_state \<Rightarrow> tool_world lookup_state" where
  "query_failed L txt domain_str s =
     ((fst s)\<lparr>tool := tool_respond_err L domain_str (print_error txt (tool (fst s)))\<rparr>, snd s)"

definition start_query_str :: "tool_lib \<Rightarrow> string \<Rightarrow> tool_world lookup_state \<Rightarrow> tool_world lookup_state" where
  "start_query_str T query_str s =
     (let L = tl_core T;
          domain_str = query_domain_str query_str;
          complain = (\<lambda>txt s. query_failed L (''ERROR: '' @ txt @ '': '' @ CHR 0x27 # domain_str @ [CHR 0x27, LF]) domain_str s)
      in case query_handling T (lookup_opts (tool (fst s))) query_str of
           Inl err \<Rightarrow> query_failed L err domain_str s
         | Inr h \<Rightarrow>
             if length domain_str \<ge> 128 then complain ''query string is too long'' s
             else
               (case osmo_mslookup_query_init_from_domain_str L (Some (strlcpy 128 domain_str)) of
                  (query, rc) \<Rightarrow>
                    if rc \<noteq> 0 then complain ''cannot parse query string'' s
                    else
                      (case osmo_mslookup_client_request L (mslookup_result_cb L) query h s of
                         (s, handle) \<Rightarrow>
                           if handle = 0 then complain ''cannot send query'' s
                           else
                             let g = tool (fst s);
                                 q = \<lparr>tq_query_str = strlcpy 128 domain_str, tq_query = query, tq_handle = handle\<rparr>
                             in ((fst s)\<lparr>tool := g\<lparr>tool_queries := q # tool_queries g\<rparr>\<rparr>, snd s))))"

definition start_query_strs :: "tool_lib \<Rightarrow> string list \<Rightarrow> tool_world lookup_state \<Rightarrow> tool_world lookup_state" where
  "start_query_strs T query_strs s = fold (start_query_str T) query_strs s"

definition on_tool :: "(tool_state \<Rightarrow> tool_state) \<Rightarrow> tool_world lookup_state \<Rightarrow> tool_world lookup_state" where
  "on_tool f s = ((fst s)\<lparr>tool := f (tool (fst s))\<rparr>, snd s)"

definition socket_read_cb :: "tool_lib \<Rightarrow> socket_client \<Rightarrow> int + octets \<Rightarrow> tool_world lookup_state \<Rightarrow> tool_world lookup_state \<times> int" where
  \<comment> \<open>the result of \<open>recv\<close>: the error number or what was received\<close>
  "socket_read_cb T c rd s =
     (let close = (\<lambda>s. (on_tool (socket_client_close c) s, - 1))
      in case rd of
           Inl errno \<Rightarrow> if errno = EAGAIN then (s, 0) else close s
         | Inr d \<Rightarrow>
             let rxbuf = take 1024 d
             in if rxbuf = [] then close s
                else if length rxbuf \<ge> 1024 then close s
                else
                  (case strtok (cstr rxbuf) [CHR 0x0D, LF] of
                     None \<Rightarrow> close (on_tool (print_error (''ERROR: failed to read line from socket'' @ [LF])) s)
                   | Some query_with_timeout \<Rightarrow>
                       let query_str = query_domain_str query_with_timeout
                       in if sc_query_str c \<noteq> [] then
                            (on_tool (\<lambda>g. socket_client_respond_result c (formatters (tl_core T) (tool_format g) query_str None)
                               (print_error (''ERROR: Only one query per client connect is allowed; received '' @
                                  CHR 0x27 # sc_query_str c @ CHR 0x27 # '' and '' @ CHR 0x27 # query_str @ CHR 0x27 #
                                  '' on the same connection'' @ [LF]) g)) s, 0)
                          else
                            let c = c\<lparr>sc_query_str := strlcpy 1024 query_str\<rparr>;
                                s = on_tool (\<lambda>g. g\<lparr>socket_clients :=
                                      map (\<lambda>x. if sc_fd x = sc_fd c then c else x) (socket_clients g)\<rparr>) s;
                                s = start_query_str T query_with_timeout s;
                                s = on_tool (\<lambda>g. g\<lparr>tool_stdout := tool_stdout g @ [Out_Text (''query: '' @ query_with_timeout @ [LF])]\<rparr>) s
                            in (s, int (length rxbuf))))"

definition socket_accept :: "int \<Rightarrow> bool \<Rightarrow> tool_state \<Rightarrow> tool_state \<times> int" where
  \<comment> \<open>the result of \<open>accept\<close>, and whether \<open>osmo_fd_register\<close> succeeds\<close>
  "socket_accept rc registered g =
     (if rc < 0 then (print_error (''Failed to accept a new connection'' @ [LF]) g, - 1)
      else
        let c = \<lparr>sc_fd = rc, sc_query_str = []\<rparr>
        in if \<not> registered then
             let g = print_error (''Failed to register new connection fd'' @ [LF]) g
             in (g\<lparr>fd_closed := fd_closed g @ [rc]\<rparr>, - 1)
           else
             let g = g\<lparr>socket_clients := c # socket_clients g\<rparr>
             in (if tool_format g = FORMAT_CSV \<and> o_csv_headers (lookup_opts g)
                 then socket_client_respond_result c CSV_HEADERS g else g, 0))"

definition socket_init :: "int \<Rightarrow> int \<Rightarrow> string \<Rightarrow> string \<Rightarrow> tool_state \<Rightarrow> tool_state \<times> int" where
  \<comment> \<open>the results of \<open>osmo_sock_unix_init\<close> and of \<open>osmo_fd_register\<close>, the text of the error number\<close>
  "socket_init fd registered err sock_path g =
     (if fd < 0 then (print_error (''Could not create unix socket: '' @ sock_path @ '': '' @ err @ [LF]) g, - 1)
      else if registered < 0 then
        let g = print_error (''Could not register listen fd: -'' @ show_dec (nat (- registered)) @ [LF]) g
        in (g\<lparr>fd_closed := fd_closed g @ [fd]\<rparr>, registered)
      else (g\<lparr>socket_ofd := Some fd\<rparr>, 0))"

definition socket_close :: "tool_state \<Rightarrow> tool_state" where
  "socket_close g =
     (let g = fold socket_client_close (socket_clients g) g
      in case socket_ofd g of
           None \<Rightarrow> g
         | Some fd \<Rightarrow> g\<lparr>fd_closed := fd_closed g @ [fd], socket_ofd := None\<rparr>)"

section \<open>Sending a result\<close>

record tool_env =
  te_sock_ok :: bool
  te_rnd :: "int \<times> 16 word"
  te_send_rc :: int
  te_unix_fd :: int
  te_register_rc :: int
  te_strerror :: string

definition arg_at :: "string list \<Rightarrow> nat \<Rightarrow> string option" where
  "arg_at argv nr = (if length argv > nr then Some (argv ! nr) else None)"

definition result_name_c :: "osmo_core \<Rightarrow> osmo_mslookup_query \<Rightarrow> osmo_mslookup_result \<Rightarrow> string" where
  \<comment> \<open>\<open>osmo_mslookup_result_name_c\<close>: printed again into a larger buffer when 64 octets are not enough\<close>
  "result_name_c L q r =
     (case osmo_mslookup_result_to_str_buf L 64 (Some q) (Some r) of
        (str, n) \<Rightarrow> if n < 64 then str else fst (osmo_mslookup_result_to_str_buf L (n + 1) (Some q) (Some r)))"

definition send_addr :: "osmo_core \<Rightarrow> string option \<times> string option \<Rightarrow> osmo_mslookup_result \<Rightarrow> string + osmo_mslookup_result" where
  \<comment> \<open>one turn of the loop over the addresses: the text of the error, or the result with the address\<close>
  "send_addr L ip_str r =
     (case fst ip_str of
        None \<Rightarrow> Inr r
      | Some ip \<Rightarrow>
          (case parse_int 1 65535 (Some (case snd ip_str of None \<Rightarrow> ''2342'' | Some p \<Rightarrow> p)) of
             (port, rc) \<Rightarrow>
               if rc \<noteq> 0 then Inl (''invalid port: '' @ (case snd ip_str of None \<Rightarrow> ''NULL'' | Some p \<Rightarrow> p) @ [LF])
               else
                 (case osmo_sockaddr_str_from_str L ip (of_int port) of
                    (addr, rc) \<Rightarrow>
                      if rc \<noteq> 0 then Inl (''invalid IP addr: '' @ ip @ [LF])
                      else if sa_af addr = AF_INET then Inr (r\<lparr>host_v4 := addr\<rparr>)
                      else Inr (r\<lparr>host_v6 := addr\<rparr>))))"

definition send_args :: "osmo_core \<Rightarrow> string list \<Rightarrow> string + osmo_mslookup_query \<times> osmo_mslookup_result" where
  \<comment> \<open>the arguments of \<open>--send\<close>\<close>
  "send_args L argv =
     (case arg_at argv 0 of
        None \<Rightarrow> Inl (''--send needs a query string like foo.123456.imsi'' @ [LF])
      | Some query_str \<Rightarrow>
          (case osmo_mslookup_query_init_from_domain_str L (Some query_str) of
             (q, rc) \<Rightarrow>
               if rc \<noteq> 0 then
                 Inl (''Invalid query string '' @ CHR 0x27 # query_str @ CHR 0x27 # '', need a query string like foo.123456.imsi'' @ [LF])
               else
                 (case arg_at argv 1 of
                    None \<Rightarrow> Inl (''--send needs an age'' @ [LF])
                  | Some age_str \<Rightarrow>
                      (case parse_int 0 UINT32_MAX (Some age_str) of
                         (val, rc) \<Rightarrow>
                           if rc \<noteq> 0 then Inl (''invalid age'' @ [LF])
                           else
                             let r = result_zero\<lparr>ms_rc := OSMO_MSLOOKUP_RC_RESULT, age := of_int val\<rparr>
                             in (case send_addr L (arg_at argv 2, arg_at argv 3) r of
                                   Inl e \<Rightarrow> Inl e
                                 | Inr r \<Rightarrow>
                                     (case send_addr L (arg_at argv 4, arg_at argv 5) r of
                                        Inl e \<Rightarrow> Inl e
                                      | Inr r \<Rightarrow> Inr (q, r)))))))"

definition do_send :: "osmo_core \<Rightarrow> tool_env \<Rightarrow> string list \<Rightarrow> tool_state \<Rightarrow> (tool_state \<times> int) exec" where
  "do_send L E argv g =
     (case send_args L argv of
        Inl e \<Rightarrow> Ret (print_error e g, 1)
      | Inr (q, r) \<Rightarrow>
          let g = g\<lparr>tool_stdout := tool_stdout g @ [Out_Text (''Sending mDNS to '' @
                osmo_sockaddr_str_fmt L (o_mdns_addr (lookup_opts g)) @ '': '' @ result_name_c L q r @ [LF])]\<rparr>
          in if \<not> te_sock_ok E then Ret (print_error (''unable to open mDNS socket'' @ [LF]) g, 1)
             else
               (case osmo_mdns_result_encode L 0 q r (o_mdns_domain_suffix (lookup_opts g)) of
                  Fault \<Rightarrow> Fault
                | Ret None \<Rightarrow> Ret (print_error (''unable to encode mDNS response'' @ [LF]) g, 1)
                | Ret (Some msg) \<Rightarrow>
                    let g = g\<lparr>packets_sent := packets_sent g @ [msg]\<rparr>
                    in if te_send_rc E \<noteq> 0 then Ret (print_error (''unable to send mDNS message'' @ [LF]) g, 1)
                       else Ret (g, 0)))"

section \<open>The program\<close>

definition EXIT_FAILURE :: int where "EXIT_FAILURE = 1"

definition parse_option_int ::
  "string \<Rightarrow> int \<Rightarrow> int \<Rightarrow> string \<Rightarrow> (int \<Rightarrow> lookup_opts \<Rightarrow> lookup_opts) \<Rightarrow> tool_state \<Rightarrow> tool_state \<times> int option" where
  \<comment> \<open>the macro \<open>PARSE_INT\<close>; a value that is refused is not used any more\<close>
  "parse_option_int name minval maxval optarg upd g =
     (case parse_int minval maxval (Some optarg) of
        (val, rc) \<Rightarrow>
          if rc \<noteq> 0 then (print_error (''Invalid cmdline_opts.'' @ name @ '': '' @ optarg @ [LF]) g, Some EXIT_FAILURE)
          else (g\<lparr>lookup_opts := upd val (lookup_opts g)\<rparr>, None))"

definition handle_option :: "osmo_core \<Rightarrow> char \<times> string \<Rightarrow> tool_state \<Rightarrow> tool_state \<times> int option" where
  \<comment> \<open>the switch over the options; a number is the exit code when the program ends there\<close>
  "handle_option L opt g =
     (let c = fst opt; optarg = snd opt;
          set = (\<lambda>f. (g\<lparr>lookup_opts := f (lookup_opts g)\<rparr>, None))
      in if c = CHR ''f'' then set (\<lambda>o'. o'\<lparr>o_format_str := Some optarg\<rparr>)
         else if c = CHR ''H'' then set (\<lambda>o'. o'\<lparr>o_csv_headers := False\<rparr>)
         else if c = CHR ''d'' then set (\<lambda>o'. o'\<lparr>o_daemon := True\<rparr>)
         else if c = CHR ''m'' then
           (case osmo_sockaddr_str_from_str L optarg (sa_port (o_mdns_addr (lookup_opts g))) of
              (addr, rc) \<Rightarrow>
                if rc \<noteq> 0 \<or> \<not> osmo_sockaddr_str_is_nonzero L addr then
                  (print_error (''Invalid mDNS IP address: '' @ optarg @ [LF]) g, Some EXIT_FAILURE)
                else set (\<lambda>o'. o'\<lparr>o_mdns_addr := addr\<rparr>))
         else if c = CHR ''M'' then
           parse_option_int ''mdns_addr.port'' 1 65535 optarg (\<lambda>v o'. o'\<lparr>o_mdns_addr := (o_mdns_addr o')\<lparr>sa_port := of_int v\<rparr>\<rparr>) g
         else if c = CHR ''D'' then set (\<lambda>o'. o'\<lparr>o_mdns_domain_suffix := optarg\<rparr>)
         else if c = CHR ''t'' then parse_option_int ''min_delay'' 0 UINT32_MAX optarg (\<lambda>v o'. o'\<lparr>o_min_delay := nat v\<rparr>) g
         else if c = CHR ''T'' then parse_option_int ''timeout'' 0 UINT32_MAX optarg (\<lambda>v o'. o'\<lparr>o_timeout := nat v\<rparr>) g
         else if c = CHR ''s'' then set (\<lambda>o'. o'\<lparr>o_socket_path := Some optarg\<rparr>)
         else if c = CHR ''S'' then set (\<lambda>o'. o'\<lparr>o_send := True\<rparr>)
         else if c = CHR ''q'' then set (\<lambda>o'. o'\<lparr>o_quiet := True\<rparr>)
         else if c = CHR ''h'' then (g\<lparr>tool_stdout := tool_stdout g @ [Out_Version, Out_Help]\<rparr>, Some 0)
         else if c = CHR ''V'' then (g\<lparr>tool_stdout := tool_stdout g @ [Out_Version]\<rparr>, Some 0)
         else (print_error (''Error in command line options. Exiting.'' @ [LF]) g, Some EXIT_FAILURE))"

fun handle_options :: "osmo_core \<Rightarrow> (char \<times> string) list \<Rightarrow> tool_state \<Rightarrow> tool_state \<times> int option" where
  "handle_options L [] g = (g, None)"
| "handle_options L (opt # opts) g =
     (case handle_option L opt g of
        (g, Some rc) \<Rightarrow> (g, Some rc)
      | (g, None) \<Rightarrow> handle_options L opts g)"

definition choose_format :: "tool_lib \<Rightarrow> tool_state \<Rightarrow> tool_state \<times> bool" where
  "choose_format T g =
     (case o_format_str (lookup_opts g) of
        None \<Rightarrow> (g, True)
      | Some f \<Rightarrow>
          if osmo_str_startswith T ''json'' f then (g\<lparr>tool_format := FORMAT_JSON\<rparr>, True)
          else if osmo_str_startswith T ''csv'' f then (g\<lparr>tool_format := FORMAT_CSV\<rparr>, True)
          else (print_error (''Invalid format: '' @ f @ [LF]) g, False))"

datatype lookup_main = Exited int tool_state | Looping "tool_world lookup_state"

definition program_exit :: "int \<Rightarrow> tool_world lookup_state \<Rightarrow> lookup_main" where
  "program_exit rc s = Exited rc (socket_close (tool (osmo_mslookup_client_free s)))"

definition start_lookups :: "tool_lib \<Rightarrow> tool_env \<Rightarrow> string list \<Rightarrow> tool_world lookup_state \<Rightarrow> lookup_main" where
  \<comment> \<open>from the creation of the lookup client to the main loop\<close>
  "start_lookups T E args s =
     (let L = tl_core T; opts = lookup_opts (tool (fst s))
      in case osmo_mslookup_client_add_mdns L (te_sock_ok E) (te_rnd E) 0 (sa_ip (o_mdns_addr opts)) (sa_port (o_mdns_addr opts))
                (- 1) (o_mdns_domain_suffix opts) (fst s, osmo_mslookup_client_new) of
           (s, None) \<Rightarrow> program_exit EXIT_FAILURE (on_tool (print_error (''Failed to start mDNS client'' @ [LF])) s)
         | (s, Some _) \<Rightarrow>
             (case o_socket_path opts of
                None \<Rightarrow> Looping (start_query_strs T args s)
              | Some path \<Rightarrow>
                  (case socket_init (te_unix_fd E) (te_register_rc E) (te_strerror E) path (tool (fst s)) of
                     (g, rc) \<Rightarrow>
                       if rc \<noteq> 0 then program_exit EXIT_FAILURE ((fst s)\<lparr>tool := g\<rparr>, snd s)
                       else Looping (start_query_strs T args ((fst s)\<lparr>tool := g\<rparr>, snd s)))))"

definition main_start :: "tool_lib \<Rightarrow> tool_env \<Rightarrow> (char \<times> string) list \<Rightarrow> string list \<Rightarrow> tool_world \<Rightarrow> lookup_main exec" where
  \<comment> \<open>\<open>main\<close> up to its loop\<close>
  "main_start T E opts args w =
     (let leave = (\<lambda>rc g. Exited rc (socket_close g))
      in case handle_options (tl_core T) opts (tool w) of
           (g, Some rc) \<Rightarrow> Ret (leave rc g)
         | (g, None) \<Rightarrow>
             let o' = lookup_opts g
             in if o_send o' then
                  let g = (if o_daemon o' \<or> o_format_str o' \<noteq> None \<or> o_socket_path o' \<noteq> None
                           then print_error ''--send option cannot have any listening related args.'' g else g)
                  in (case do_send (tl_core T) E args g of Fault \<Rightarrow> Fault | Ret (g, rc) \<Rightarrow> Ret (leave rc g))
                else if \<not> o_daemon o' \<and> args = [] then
                  Ret (leave EXIT_FAILURE (g\<lparr>tool_stdout := tool_stdout g @ [Out_Version, Out_Help]\<rparr>))
                else if o_daemon o' \<and> o_timeout o' = 0 then
                  Ret (leave EXIT_FAILURE (print_error (''In daemon mode, --timeout must not be zero.'' @ [LF]) g))
                else
                  (case choose_format T g of
                     (g, ok) \<Rightarrow>
                       if \<not> ok then Ret (leave EXIT_FAILURE g)
                       else
                         let g = (if tool_format g = FORMAT_CSV \<and> o_csv_headers (lookup_opts g)
                                  then respond_str_stdout CSV_HEADERS g else g)
                         in Ret (start_lookups T E args (w\<lparr>tool := g\<rparr>, osmo_mslookup_client_new))))"

text \<open>What one call of \<open>osmo_select_main_ctx\<close> may find: something to read from the multicast socket, the timer of
  a request that expires, a new connection, something to read from a connection.\<close>

datatype tool_event =
    Packet "int + octets"
  | Timer "32 word"
  | Accept int bool
  | Read int "int + octets"

definition tool_step :: "tool_lib \<Rightarrow> tool_event \<Rightarrow> tool_world lookup_state \<Rightarrow> tool_world lookup_state exec" where
  "tool_step T e s =
     (let cb = mslookup_result_cb (tl_core T)
      in case e of
           Packet rd \<Rightarrow> (case mdns_method_recv (tl_core T) cb rd s of Fault \<Rightarrow> Fault | Ret (s, _) \<Rightarrow> Ret s)
         | Timer h \<Rightarrow> (case get_request (snd s) h of None \<Rightarrow> Ret s | Some r \<Rightarrow> timeout_cb cb r s)
         | Accept rc registered \<Rightarrow> Ret (on_tool (\<lambda>g. fst (socket_accept rc registered g)) s)
         | Read fd rd \<Rightarrow>
             (case List.find (\<lambda>c. sc_fd c = fd) (socket_clients (tool (fst s))) of
                None \<Rightarrow> Ret s
              | Some c \<Rightarrow> Ret (fst (socket_read_cb T c rd s))))"

fun tool_run :: "tool_lib \<Rightarrow> tool_event list \<Rightarrow> tool_world lookup_state \<Rightarrow> tool_world lookup_state exec" where
  "tool_run T [] s = Ret s"
| "tool_run T (e # es) s = (case tool_step T e s of Fault \<Rightarrow> Fault | Ret s \<Rightarrow> tool_run T es s)"

definition all_done :: "tool_state \<Rightarrow> bool" where
  \<comment> \<open>the condition under which the main loop ends\<close>
  "all_done g \<longleftrightarrow> \<not> o_daemon (lookup_opts g) \<and> requests_handled g \<noteq> 0 \<and> tool_queries g = []"

fun main_loop :: "tool_lib \<Rightarrow> tool_event list list \<Rightarrow> tool_world lookup_state \<Rightarrow> lookup_main exec" where
  \<comment> \<open>over the batches of events that are found; \<open>Looping\<close>: it waits for more\<close>
  "main_loop T [] s = Ret (Looping s)"
| "main_loop T (b # bs) s =
     (case tool_run T b s of
        Fault \<Rightarrow> Fault
      | Ret s \<Rightarrow> if all_done (tool (fst s)) then Ret (program_exit 0 s) else main_loop T bs s)"

section \<open>The callback of the program\<close>

lemma respond_client_frame [simp]:
  "tool_queries (fold (respond_client q fin buf) cs g) = tool_queries g"
  "requests_handled (fold (respond_client q fin buf) cs g) = requests_handled g"
  "lookup_opts (fold (respond_client q fin buf) cs g) = lookup_opts g"
  "tool_stdout (fold (respond_client q fin buf) cs g) = tool_stdout g"
  "tool_format (fold (respond_client q fin buf) cs g) = tool_format g"
  by (induction cs arbitrary: g)
    (simp_all add: respond_client_def socket_client_close_def socket_client_respond_result_def Let_def)

lemma respond_result_frame [simp]:
  "tool_queries (respond_result L q r g) = tool_queries g"
  "lookup_opts (respond_result L q r g) = lookup_opts g"
  "requests_handled (respond_result L q r g) =
     requests_handled g + (if (case r of None \<Rightarrow> True | Some r \<Rightarrow> ms_last r) then 1 else 0)"
  "tool_stdout (respond_result L q r g) = tool_stdout g @ [Out_Text (formatters L (tool_format g) q r @ [LF])]"
  "tool_format (respond_result L q r g) = tool_format g"
  by (simp_all add: respond_result_def respond_str_stdout_def Let_def)

lemma print_error_frame [simp]:
  "tool_queries (print_error t g) = tool_queries g" "requests_handled (print_error t g) = requests_handled g"
  "lookup_opts (print_error t g) = lookup_opts g" "socket_clients (print_error t g) = socket_clients g"
  "tool_format (print_error t g) = tool_format g" "fd_closed (print_error t g) = fd_closed g"
  "tool_stdout (print_error t g) = tool_stdout g" "fd_written (print_error t g) = fd_written g"
  by (simp_all add: print_error_def)

interpretation tool_cb: passive_callback "mslookup_result_cb L" for L
  by unfold_locales (simp add: mslookup_result_cb_def Let_def split: option.split)

text \<open>Every query that was started either has been answered for good or is still in the list.\<close>

definition queries_started :: "tool_state \<Rightarrow> 32 word" where
  "queries_started g = requests_handled g + of_nat (length (tool_queries g))"

definition open_handles :: "tool_world lookup_state \<Rightarrow> 32 word set" where
  "open_handles s = rq_handle ` set (requests (snd s))"

definition keeps_tool :: "tool_world osmo_mslookup_client \<Rightarrow> bool" where
  \<comment> \<open>the lookup methods do not touch the variables of the program\<close>
  "keeps_tool c \<longleftrightarrow> (\<forall>m \<in> set (lookup_methods c).
     (\<forall>q h w. tool (m_request m q h w) = tool w) \<and> (\<forall>f h w. m_request_cleanup m = Some f \<longrightarrow> tool (f h w) = tool w))"

definition in_step :: "tool_world lookup_state \<Rightarrow> bool" where
  \<comment> \<open>the queries of the program and the requests of its lookup client are the same\<close>
  "in_step s \<longleftrightarrow> keeps_tool (snd s) \<and> client_inv (snd s) \<and>
     distinct (map tq_handle (tool_queries (tool (fst s)))) \<and> tq_handle ` set (tool_queries (tool (fst s))) = open_handles s"

text \<open>What the program writes to its standard output while it works: a line for every answer, where an answer is a query
  string with a result or an error. The query strings of the final answers and those that are still open together are those that
  were open and those that were started.\<close>

type_synonym answer = "string \<times> osmo_mslookup_result option"

definition answer_line :: "osmo_core \<Rightarrow> result_format \<Rightarrow> answer \<Rightarrow> tool_output" where
  "answer_line L fmt a = Out_Text (formatters L fmt (fst a) (snd a) @ [LF])"

definition final_answers :: "answer list \<Rightarrow> string list" where
  \<comment> \<open>the query strings that are answered with an error or with a last result\<close>
  "final_answers as = map fst (filter (\<lambda>a. case snd a of None \<Rightarrow> True | Some r \<Rightarrow> ms_last r) as)"

definition open_strings :: "tool_state \<Rightarrow> string multiset" where
  "open_strings g = mset (map tq_query_str (tool_queries g))"

definition told :: "osmo_core \<Rightarrow> string multiset \<Rightarrow> tool_state \<Rightarrow> tool_state \<Rightarrow> bool" where
  "told L new g g' \<longleftrightarrow> tool_format g' = tool_format g \<and>
     (\<exists>as. tool_stdout g' = tool_stdout g @ map (answer_line L (tool_format g)) as \<and>
        mset (final_answers as) + open_strings g' = open_strings g + new \<and> fst ` set as \<subseteq> set_mset (open_strings g + new))"

lemma told_same:
  "tool_format g' = tool_format g \<Longrightarrow> tool_stdout g' = tool_stdout g \<Longrightarrow> tool_queries g' = tool_queries g \<Longrightarrow> told L {#} g g'"
  by (simp add: told_def open_strings_def final_answers_def exI [of _ "[]"])

lemma told_trans:
  assumes "told L X g1 g2" and "told L Y g2 g3"
  shows "told L (X + Y) g1 g3"
proof -
  obtain as where as: "tool_stdout g2 = tool_stdout g1 @ map (answer_line L (tool_format g1)) as"
      "mset (final_answers as) + open_strings g2 = open_strings g1 + X" "fst ` set as \<subseteq> set_mset (open_strings g1 + X)"
    using assms(1) by (auto simp: told_def)
  obtain bs where bs: "tool_stdout g3 = tool_stdout g2 @ map (answer_line L (tool_format g1)) bs"
      "mset (final_answers bs) + open_strings g3 = open_strings g2 + Y" "fst ` set bs \<subseteq> set_mset (open_strings g2 + Y)"
    using assms by (auto simp: told_def)
  have "set_mset (open_strings g2) \<subseteq> set_mset (open_strings g1 + X)" using arg_cong [OF as(2), of set_mset] by auto
  then have "fst ` set (as @ bs) \<subseteq> set_mset (open_strings g1 + (X + Y))" using as(3) bs(3) by auto
  moreover have "mset (final_answers (as @ bs)) + open_strings g3 = open_strings g1 + (X + Y)"
  proof -
    have "mset (final_answers (as @ bs)) + open_strings g3 = mset (final_answers as) + (mset (final_answers bs) + open_strings g3)"
      by (simp add: final_answers_def)
    also have "\<dots> = (mset (final_answers as) + open_strings g2) + Y" unfolding bs(2) by simp
    finally show ?thesis unfolding as(2) by simp
  qed
  ultimately show ?thesis
    using assms as(1) bs(1) unfolding told_def by (intro conjI exI [of _ "as @ bs"]) simp_all
qed

lemma filter_other_keys: "distinct (map f (x # xs)) \<Longrightarrow> filter (\<lambda>y. f y \<noteq> f x) xs = xs"
  by (rule filter_True) (auto simp: image_iff)

lemma remove_first_key:
  assumes "distinct (map f xs)"
  shows "remove_first (\<lambda>x. f x = k) xs = filter (\<lambda>x. f x \<noteq> k) xs"
  using assms
proof (induction xs)
  case (Cons x xs)
  then show ?case using filter_other_keys [of f x xs] by auto
qed simp

lemma length_filter_key:
  assumes "distinct (map f xs)" and "k \<in> f ` set xs"
  shows "Suc (length (filter (\<lambda>x. f x \<noteq> k) xs)) = length xs"
  using assms
proof (induction xs)
  case (Cons x xs)
  show ?case
  proof (cases "f x = k")
    case True
    then show ?thesis using filter_other_keys [OF Cons.prems(1)] by simp
  qed (use Cons in auto)
qed simp

lemma mset_filter_key:
  assumes "distinct (map f xs)" and "x \<in> set xs"
  shows "mset xs = add_mset x (mset (filter (\<lambda>y. f y \<noteq> f x) xs))"
  using assms
proof (induction xs)
  case (Cons y ys)
  then show ?case using filter_other_keys [OF Cons.prems(1)] by (cases "x = y") (auto simp: image_iff)
qed simp

lemma result_cb_effect:
  assumes "distinct (map tq_handle (tool_queries (tool (fst s))))" and "h \<in> tq_handle ` set (tool_queries (tool (fst s)))"
  shows "tool_queries (tool (fst (mslookup_result_cb L h q r s))) =
      (if ms_last r then filter (\<lambda>x. tq_handle x \<noteq> h) (tool_queries (tool (fst s))) else tool_queries (tool (fst s)))"
    and "queries_started (tool (fst (mslookup_result_cb L h q r s))) = queries_started (tool (fst s))"
    and "lookup_opts (tool (fst (mslookup_result_cb L h q r s))) = lookup_opts (tool (fst s))"
    and "told L {#} (tool (fst s)) (tool (fst (mslookup_result_cb L h q r s)))"
proof -
  obtain x where x: "query_by_handle h (tool (fst s)) = Some x"
    using assms(2) by (cases "query_by_handle h (tool (fst s))") (auto simp: query_by_handle_def find_None_iff)
  then have x_in: "x \<in> set (tool_queries (tool (fst s)))" "tq_handle x = h" by (auto simp: query_by_handle_def dest: find_SomeD)
  show 1: "tool_queries (tool (fst (mslookup_result_cb L h q r s))) =
      (if ms_last r then filter (\<lambda>x. tq_handle x \<noteq> h) (tool_queries (tool (fst s))) else tool_queries (tool (fst s)))"
    using remove_first_key [OF assms(1), of h] by (simp add: mslookup_result_cb_def Let_def x)
  have "requests_handled (tool (fst (mslookup_result_cb L h q r s))) = requests_handled (tool (fst s)) + (if ms_last r then 1 else 0)"
    by (simp add: mslookup_result_cb_def Let_def x)
  then show "queries_started (tool (fst (mslookup_result_cb L h q r s))) = queries_started (tool (fst s))"
    unfolding queries_started_def 1 using arg_cong [OF length_filter_key [OF assms], of of_nat] by (auto simp: algebra_simps)
  show "lookup_opts (tool (fst (mslookup_result_cb L h q r s))) = lookup_opts (tool (fst s))"
    by (simp add: mslookup_result_cb_def Let_def x)
  have "tool_stdout (tool (fst (mslookup_result_cb L h q r s))) =
      tool_stdout (tool (fst s)) @ map (answer_line L (tool_format (tool (fst s)))) [(tq_query_str x, Some r)]"
    "tool_format (tool (fst (mslookup_result_cb L h q r s))) = tool_format (tool (fst s))"
    by (simp_all add: mslookup_result_cb_def Let_def x answer_line_def)
  moreover have "mset (final_answers [(tq_query_str x, Some r)]) + open_strings (tool (fst (mslookup_result_cb L h q r s))) =
      open_strings (tool (fst s))"
    using arg_cong [OF mset_filter_key [OF assms(1) x_in(1)], of "image_mset tq_query_str"] x_in(2)
    by (simp add: open_strings_def final_answers_def 1)
  moreover have "tq_query_str x \<in># open_strings (tool (fst s))" using x_in(1) by (auto simp: open_strings_def)
  ultimately show "told L {#} (tool (fst s)) (tool (fst (mslookup_result_cb L h q r s)))"
    unfolding told_def by (intro conjI exI [of _ "[(tq_query_str x, Some r)]"]) simp_all
qed

lemma cancel_tool: "keeps_tool (snd s) \<Longrightarrow> tool (fst (osmo_mslookup_client_request_cancel h s)) = tool (fst s)"
  by (auto simp: osmo_mslookup_client_request_cancel_def osmo_mslookup_client_request_cleanup_def keeps_tool_def prod.case_eq_if
      intro!: fold_keeps split: option.splits)

lemma keeps_tool_methods: "lookup_methods c = lookup_methods c' \<Longrightarrow> keeps_tool c = keeps_tool c'"
  by (simp add: keeps_tool_def)

lemma store_open [simp]: "open_handles (rq_store r s) = open_handles s"
  using rq_store_handles [of r s] unfolding open_handles_def by (metis image_set)

lemma cancel_open: "h \<noteq> 0 \<Longrightarrow> open_handles (osmo_mslookup_client_request_cancel h s) = open_handles s - {h}"
  by (auto simp: open_handles_def cancel_requests)

text \<open>What an operation of the lookup client does to the program: nothing is lost, nothing is counted twice.\<close>

definition same_run :: "osmo_core \<Rightarrow> string list \<Rightarrow> tool_world lookup_state \<Rightarrow> tool_world lookup_state \<Rightarrow> bool" where
  \<comment> \<open>with the query strings that are started\<close>
  "same_run L new s s' \<longleftrightarrow> in_step s' \<and> queries_started (tool (fst s')) = queries_started (tool (fst s)) + of_nat (length new) \<and>
     lookup_opts (tool (fst s')) = lookup_opts (tool (fst s)) \<and> lookup_methods (snd s') = lookup_methods (snd s) \<and>
     told L (mset new) (tool (fst s)) (tool (fst s'))"

lemma same_run_refl: "in_step s \<Longrightarrow> same_run L [] s s"
  by (simp add: same_run_def told_same)

lemma same_run_trans: "same_run L xs s t \<Longrightarrow> same_run L ys t u \<Longrightarrow> same_run L (xs @ ys) s u"
  using told_trans by (auto simp: same_run_def)

lemmas same_run_trans_nil = same_run_trans [where xs = "[]" and ys = "[]", unfolded append_Nil]

lemma store_same_run: "in_step s \<Longrightarrow> rq_ok r \<Longrightarrow> same_run L [] s (rq_store r s)"
  using keeps_tool_methods [OF store_log(2), of r s] by (simp add: same_run_def in_step_def rq_store_inv told_same)

lemma send_result_same_run:
  assumes s: "in_step s" and r: "rq_ok r" "rq_handle r \<in> open_handles s"
  shows "same_run L [] s (osmo_mslookup_request_send_result (mslookup_result_cb L) r fin s)"
proof -
  let ?h = "rq_handle r" and ?s' = "osmo_mslookup_request_send_result (mslookup_result_cb L) r fin s"
  define r' where "r' = r\<lparr>rq_result := (rq_result r)\<lparr>ms_last := fin\<rparr>\<rparr>"
  define s1 where "s1 = mslookup_result_cb L ?h (rq_query r) (rq_result r') (rq_store r' s)"
  have s1: "snd s1 = snd (rq_store r' s)" by (simp add: s1_def tool_cb.cb_passive)
  have keep: "keeps_tool (snd s1)" using s keeps_tool_methods [OF store_log(2), of r' s] by (simp add: s1 in_step_def)
  have q: "distinct (map tq_handle (tool_queries (tool (fst (rq_store r' s)))))"
      "?h \<in> tq_handle ` set (tool_queries (tool (fst (rq_store r' s))))"
    using s r by (simp_all add: in_step_def)
  have e: "?s' = (if fin then osmo_mslookup_client_request_cancel ?h s1 else s1)"
    by (simp add: osmo_mslookup_request_send_result_def Let_def r'_def s1_def)
  have t: "tool (fst ?s') = tool (fst s1)" using cancel_tool [OF keep] by (simp add: e)
  have m: "lookup_methods (snd ?s') = lookup_methods (snd s)" by (simp add: e cancel_methods s1)
  have h: "?h \<noteq> 0" using r by (simp add: rq_ok_def)
  have o: "open_handles ?s' = (if fin then open_handles s - {?h} else open_handles s)"
  proof -
    have "open_handles s1 = open_handles s" using store_open [of r' s] s1 by (simp add: open_handles_def)
    then show ?thesis using e cancel_open [OF h, of s1] by simp
  qed
  have inv: "client_inv (snd ?s')" using s r by (intro tool_cb.send_result_inv) (simp_all add: in_step_def)
  note eff = result_cb_effect [OF q, of L "rq_query r" "rq_result r'", folded s1_def]
  have "ms_last (rq_result r') = fin" by (simp add: r'_def)
  then have "distinct (map tq_handle (tool_queries (tool (fst ?s')))) \<and> tq_handle ` set (tool_queries (tool (fst ?s'))) = open_handles ?s'"
    using s unfolding t eff(1) o by (auto simp: in_step_def distinct_map_filter)
  then show ?thesis
    using inv eff(2-4) m s keeps_tool_methods [OF m] t by (simp add: same_run_def in_step_def)
qed

lemma get_request_open: "get_request (snd s) h = Some r \<Longrightarrow> rq_handle r = h \<and> h \<in> open_handles s"
  by (auto simp: open_handles_def dest: get_requestD)

lemma rx_result_same_run:
  assumes "in_step s"
  shows "same_run L [] s (osmo_mslookup_client_rx_result (mslookup_result_cb L) h result s)"
proof (cases "get_request (snd s) h")
  case (Some r)
  then have "rq_ok r" "rq_handle r \<in> open_handles s"
    using assms get_request_open [OF Some] by (auto simp: in_step_def dest: get_request_ok)
  then show ?thesis using assms Some
    by (auto simp: osmo_mslookup_client_rx_result_def Let_def intro!: send_result_same_run store_same_run same_run_refl)
qed (use assms in \<open>simp add: osmo_mslookup_client_rx_result_def same_run_refl\<close>)

lemma timeout_same_run:
  assumes s: "in_step s" and r: "get_request (snd s) h = Some r" and ret: "timeout_cb (mslookup_result_cb L) r s = Ret s'"
  shows "same_run L [] s s'"
proof -
  have ok: "rq_ok r" "rq_handle r \<in> open_handles s"
    using s get_request_open [OF r] r by (auto simp: in_step_def dest: get_request_ok)
  show ?thesis
  proof (cases "waiting_min_delay r \<and> \<not> result_timeout_milliseconds (rq_handling r) \<le> min_wait_milliseconds (rq_handling r)")
    case True
    let ?r = "r\<lparr>waiting_min_delay := False\<rparr>"
    define s1 where "s1 = (if ms_rc (rq_result r) = OSMO_MSLOOKUP_RC_RESULT
      then osmo_mslookup_request_send_result (mslookup_result_cb L) ?r False (rq_store ?r s) else rq_store ?r s)"
    have st: "same_run L [] s (rq_store ?r s)" using ok by (intro store_same_run [OF s]) simp
    then have i1: "same_run L [] s s1"
      using ok send_result_same_run [of "rq_store ?r s" ?r L False]
      by (auto simp: s1_def same_run_def [of L "[]" s "rq_store ?r s"] intro: same_run_trans_nil [OF st])
    obtain r1 where r1: "get_request (snd s1) (rq_handle r) = Some r1"
      and s': "s' = rq_store (set_timer r1 (result_timeout_milliseconds (rq_handling r) - min_wait_milliseconds (rq_handling r))) s1"
      using ret True by (auto simp: timeout_cb_def Let_def s1_def split: option.splits if_splits)
    have "in_step s1" using i1 by (simp add: same_run_def)
    moreover from this have "rq_ok r1" using r1 by (auto simp: in_step_def dest: get_request_ok)
    ultimately show ?thesis unfolding s' by (intro same_run_trans_nil [OF i1] store_same_run) auto
  next
    case False
    then show ?thesis using ret s ok
      by (auto simp: timeout_cb_def Let_def split: if_splits intro!: send_result_same_run)
  qed
qed

lemma request_effect:
  assumes s: "in_step s" and req: "osmo_mslookup_client_request L (mslookup_result_cb L) q handling s = (s', h)"
  shows "if h = 0 then s' = s
    else keeps_tool (snd s') \<and> client_inv (snd s') \<and> lookup_methods (snd s') = lookup_methods (snd s) \<and>
      distinct (map tq_handle (tool_queries (tool (fst s')))) \<and>
      h \<notin> tq_handle ` set (tool_queries (tool (fst s'))) \<and> open_handles s' = insert h (tq_handle ` set (tool_queries (tool (fst s')))) \<and>
      queries_started (tool (fst s')) = queries_started (tool (fst s)) \<and> lookup_opts (tool (fst s')) = lookup_opts (tool (fst s)) \<and>
      told L {#} (tool (fst s)) (tool (fst s'))"
proof (cases "osmo_mslookup_service_valid (service q) \<and> osmo_mslookup_id_valid L (ms_id q)")
  case False
  then show ?thesis using req by (auto simp: osmo_mslookup_client_request_def)
next
  case True
  define k where "k = (if next_request_handle (snd s) = 0 then next_request_handle (snd s) + 1 else next_request_handle (snd s))"
  define c0 where "c0 = (snd s)\<lparr>next_request_handle := k + 1\<rparr>"
  define s1 where "s1 = (case List.find (\<lambda>x. rq_handle x = k) (requests c0) of
     None \<Rightarrow> (fst s, c0) | Some other \<Rightarrow> osmo_mslookup_request_send_result (mslookup_result_cb L) other True (fst s, c0))"
  have k: "k \<noteq> 0" by (simp add: k_def)
  have i0: "in_step (fst s, c0)" "same_run L [] s (fst s, c0)"
    using s by (simp_all add: in_step_def c0_def keeps_tool_def client_inv_def open_handles_def same_run_def told_same)
  have i1: "same_run L [] s s1 \<and> k \<notin> open_handles s1"
  proof (cases "List.find (\<lambda>x. rq_handle x = k) (requests c0)")
    case None
    then have "s1 = (fst s, c0)" by (simp add: s1_def)
    moreover have "k \<notin> rq_handle ` set (requests c0)" using None by (auto simp: find_None_iff)
    ultimately show ?thesis using i0 by (simp add: open_handles_def)
  next
    case (Some r)
    then have r: "r \<in> set (requests c0)" "rq_handle r = k" by (auto dest: find_SomeD)
    then have "same_run L [] (fst s, c0) s1"
      using i0(1) Some by (auto simp: s1_def in_step_def client_inv_def list_all_iff open_handles_def intro!: send_result_same_run)
    moreover have "k \<notin> open_handles s1"
      using k r by (simp add: s1_def Some osmo_mslookup_request_send_result_def Let_def cancel_open)
    ultimately show ?thesis using same_run_trans_nil [OF i0(2)] by blast
  qed
  obtain r where r: "rq_handle r = k" "rq_ok r" "h = k"
      "s' = (fold (\<lambda>m w. m_request m q k w) (lookup_methods (snd s1)) (fst s1), (snd s1)\<lparr>requests := requests (snd s1) @ [r]\<rparr>)"
  proof -
    show thesis
      using req True k unfolding osmo_mslookup_client_request_def Let_def k_def [symmetric] c0_def [symmetric] s1_def [symmetric]
      by (cases "min_wait_milliseconds handling = 0") (auto intro!: that simp: set_timer_def rq_ok_def)
  qed
  have i: "in_step s1" using i1 by (simp add: same_run_def)
  then have t: "tool (fst s') = tool (fst s1)" unfolding r by (auto simp: in_step_def keeps_tool_def intro!: fold_keeps)
  have o: "open_handles s' = insert k (open_handles s1)" by (simp add: open_handles_def r)
  have c: "client_inv (snd s')" "keeps_tool (snd s')" "lookup_methods (snd s') = lookup_methods (snd s1)"
    using i i1 r(1,2) by (auto simp: r(4) in_step_def client_inv_def open_handles_def keeps_tool_def)
  show ?thesis using k i i1 r(3) t o c by (simp add: in_step_def same_run_def)
qed

section \<open>Every query is accounted for\<close>

lemma query_failed_same_run: "in_step s \<Longrightarrow> same_run L [d] s (query_failed L txt d s)"
proof -
  assume "in_step s"
  moreover have "told L {#d#} (tool (fst s)) (tool (fst (query_failed L txt d s)))"
    unfolding told_def by (intro conjI exI [of _ "[(d, None)]"])
      (simp_all add: query_failed_def tool_respond_err_def answer_line_def final_answers_def open_strings_def)
  ultimately show ?thesis
    by (simp add: same_run_def query_failed_def tool_respond_err_def in_step_def open_handles_def queries_started_def)
qed

lemma told_start:
  assumes "told L {#} g g1" and "g2 = g1\<lparr>tool_queries := q # tool_queries g1\<rparr>"
  shows "told L {#tq_query_str q#} g g2"
proof -
  have "told L {#tq_query_str q#} g1 g2"
    unfolding told_def by (intro conjI exI [of _ "[]"]) (simp_all add: assms(2) open_strings_def final_answers_def)
  then show ?thesis using told_trans [OF assms(1)] by fastforce
qed

lemma start_query_same_run:
  assumes "in_step s"
  shows "same_run (tl_core T) [query_domain_str query_str] s (start_query_str T query_str s)"
proof -
  let ?d = "query_domain_str query_str"
  obtain query rc where q: "osmo_mslookup_query_init_from_domain_str (tl_core T) (Some (strlcpy 128 ?d)) = (query, rc)"
    by fastforce
  show ?thesis
  proof (cases "query_handling T (lookup_opts (tool (fst s))) query_str")
    case (Inr h)
    obtain s1 handle where req: "osmo_mslookup_client_request (tl_core T) (mslookup_result_cb (tl_core T)) query h s = (s1, handle)" by fastforce
    note eff = request_effect [OF assms req]
    show ?thesis
    proof (cases "length ?d \<ge> 128 \<or> rc \<noteq> 0 \<or> handle = 0")
      case True
      then show ?thesis using assms Inr q req eff by (auto simp: start_query_str_def Let_def intro: query_failed_same_run)
    next
      case False
      then have d: "strlcpy 128 ?d = ?d" by (simp add: strlcpy_def)
      let ?q = "\<lparr>tq_query_str = ?d, tq_query = query, tq_handle = handle\<rparr>" and ?g = "tool (fst s1)"
      have "start_query_str T query_str s = ((fst s1)\<lparr>tool := ?g\<lparr>tool_queries := ?q # tool_queries ?g\<rparr>\<rparr>, snd s1)"
        using Inr q req False d by (simp add: start_query_str_def Let_def)
      moreover have "told (tl_core T) {#?d#} (tool (fst s)) (?g\<lparr>tool_queries := ?q # tool_queries ?g\<rparr>)"
        using told_start [of "tl_core T" "tool (fst s)" ?g _ ?q] eff False by simp
      ultimately show ?thesis using eff False
        by (simp add: same_run_def in_step_def open_handles_def queries_started_def)
    qed
  qed (use assms in \<open>simp add: start_query_str_def Let_def query_failed_same_run\<close>)
qed

lemma start_queries_same_run:
  assumes "in_step s"
  shows "same_run (tl_core T) (map query_domain_str qs) s (start_query_strs T qs s)"
  using assms
proof (induction qs arbitrary: s)
  case (Cons q qs)
  note q = start_query_same_run [OF Cons.prems, of T q]
  then have "in_step (start_query_str T q s)" by (simp add: same_run_def)
  then show ?case using same_run_trans [OF q Cons.IH] by (simp add: start_query_strs_def)
qed (simp add: start_query_strs_def same_run_refl)

lemma on_tool_in_step:
  assumes "in_step s" and "tool_queries (f (tool (fst s))) = tool_queries (tool (fst s))"
    and "requests_handled (f (tool (fst s))) = requests_handled (tool (fst s))"
    and "lookup_opts (f (tool (fst s))) = lookup_opts (tool (fst s))"
    and "tool_stdout (f (tool (fst s))) = tool_stdout (tool (fst s))" and "tool_format (f (tool (fst s))) = tool_format (tool (fst s))"
  shows "same_run L [] s (on_tool f s)"
  using assms by (simp add: on_tool_def same_run_def in_step_def open_handles_def queries_started_def told_same)

lemma accept_frame [simp]:
  "tool_queries (fst (socket_accept rc reg g)) = tool_queries g"
  "requests_handled (fst (socket_accept rc reg g)) = requests_handled g"
  "lookup_opts (fst (socket_accept rc reg g)) = lookup_opts g"
  "tool_stdout (fst (socket_accept rc reg g)) = tool_stdout g"
  "tool_format (fst (socket_accept rc reg g)) = tool_format g"
  by (simp_all add: socket_accept_def socket_client_respond_result_def Let_def)

lemma recv_same_run:
  assumes "in_step s" and "mdns_method_recv L (mslookup_result_cb L) rd s = Ret (s', n)"
  shows "same_run L [] s s'"
  using assms by (auto simp: mdns_method_recv_def Let_def rx_result_same_run same_run_refl
      split: sum.splits exec.splits option.splits prod.splits)

section \<open>The program ends\<close>

context passive_callback
begin

lemma send_get:
  "get_request (snd (osmo_mslookup_request_send_result cb r fin s)) h =
     (if h \<noteq> rq_handle r then get_request (snd s) h
      else if fin \<or> get_request (snd s) h = None then None
      else Some (r\<lparr>rq_result := (rq_result r)\<lparr>ms_last := fin\<rparr>\<rparr>))"
  by (simp add: osmo_mslookup_request_send_result_def Let_def get_request_cancel cb_passive get_request_store)

lemma rx_result_expiries:
  "expiries_left h (snd (osmo_mslookup_client_rx_result cb k result s)) \<le> expiries_left h (snd s)"
proof (rule expiries_left_less)
  fix r' assume r': "get_request (snd (osmo_mslookup_client_rx_result cb k result s)) h = Some r'"
  show "\<exists>r. get_request (snd s) h = Some r \<and> waiting_min_delay r' = waiting_min_delay r"
  proof (cases "get_request (snd s) k")
    case (Some r)
    then show ?thesis using r' get_requestD [OF Some]
      by (cases rule: rx_result_cases [OF Some, where cb = cb and result = result])
        (auto simp: send_get get_request_store split: if_splits)
  qed (use r' in \<open>simp add: osmo_mslookup_client_rx_result_def\<close>)
qed

lemma timeout_get:
  assumes r: "get_request (snd s) k = Some r" and ret: "timeout_cb cb r s = Ret s'"
  shows "h \<noteq> k \<Longrightarrow> get_request (snd s') h = get_request (snd s) h"
    and "get_request (snd s') k = None \<or> waiting_min_delay r \<and> (\<exists>r'. get_request (snd s') k = Some r' \<and> \<not> waiting_min_delay r')"
proof -
  have k: "rq_handle r = k" using get_requestD [OF r] by simp
  have "(h \<noteq> k \<longrightarrow> get_request (snd s') h = get_request (snd s) h) \<and>
    (get_request (snd s') k = None \<or> waiting_min_delay r \<and> (\<exists>r'. get_request (snd s') k = Some r' \<and> \<not> waiting_min_delay r'))"
  proof (cases "waiting_min_delay r \<and> \<not> result_timeout_milliseconds (rq_handling r) \<le> min_wait_milliseconds (rq_handling r)")
    case True
    let ?r = "r\<lparr>waiting_min_delay := False\<rparr>"
    define s1 where "s1 = (if ms_rc (rq_result r) = OSMO_MSLOOKUP_RC_RESULT
      then osmo_mslookup_request_send_result cb ?r False (rq_store ?r s) else rq_store ?r s)"
    obtain r1 n where r1: "get_request (snd s1) k = Some r1" and s': "s' = rq_store (set_timer r1 n) s1"
      using ret True k by (auto simp: timeout_cb_def Let_def s1_def split: option.splits if_splits)
    have g: "h \<noteq> k \<Longrightarrow> get_request (snd s1) h = get_request (snd s) h" for h
      using k by (simp add: s1_def send_get get_request_store)
    have "\<not> waiting_min_delay r1"
      using r1 k r by (auto simp: s1_def send_get get_request_store split: if_splits)
    moreover have "rq_handle r1 = k" using get_requestD [OF r1] by simp
    ultimately show ?thesis using True r1 g by (simp add: s' get_request_store set_timer_def)
  next
    case False
    then obtain r2 where "s' = osmo_mslookup_request_send_result cb r2 True s" "rq_handle r2 = k"
      using ret k by (auto simp: timeout_cb_def Let_def split: if_splits)
    then show ?thesis by (simp add: send_get)
  qed
  then show "h \<noteq> k \<Longrightarrow> get_request (snd s') h = get_request (snd s) h"
    and "get_request (snd s') k = None \<or> waiting_min_delay r \<and> (\<exists>r'. get_request (snd s') k = Some r' \<and> \<not> waiting_min_delay r')"
    by auto
qed

lemma timeout_expiries:
  assumes r: "get_request (snd s) k = Some r" and ret: "timeout_cb cb r s = Ret s'"
  shows "expiries_left h (snd s') \<le> expiries_left h (snd s) - (if k = h then 1 else 0)"
  using timeout_get(1) [OF r ret, of h] timeout_get(2) [OF r ret] r by (cases "k = h") (auto simp: expiries_left_def)

end

definition no_query_event :: "tool_lib \<Rightarrow> string \<Rightarrow> tool_event \<Rightarrow> bool" where
  \<comment> \<open>no new query comes in, and what is received can be decoded within the bounds of its buffers\<close>
  "no_query_event T sfx e \<longleftrightarrow> (case e of
      Packet rd \<Rightarrow> (case rd of Inl _ \<Rightarrow> True | Inr d \<Rightarrow> osmo_mdns_result_decode (tl_core T) (take 1024 d) sfx \<noteq> Fault)
    | Read _ _ \<Rightarrow> False
    | _ \<Rightarrow> True)"

definition suffix_kept :: "string \<Rightarrow> tool_world lookup_state \<Rightarrow> bool" where
  "suffix_kept sfx s \<longleftrightarrow> mm_domain_suffix (mdns_method (fst s)) = sfx \<and> (\<forall>m \<in> set (lookup_methods (snd s)).
     (\<forall>f h w. m_request_cleanup m = Some f \<longrightarrow> mm_domain_suffix (mdns_method (f h w)) = mm_domain_suffix (mdns_method w)) \<and>
     (\<forall>q h w. mm_domain_suffix (mdns_method (m_request m q h w)) = mm_domain_suffix (mdns_method w)))"

lemma cancel_suffix: "suffix_kept sfx s \<Longrightarrow> suffix_kept sfx (osmo_mslookup_client_request_cancel h s)"
proof -
  assume k: "suffix_kept sfx s"
  let ?f = "\<lambda>m w. case m_request_cleanup m of None \<Rightarrow> w | Some f \<Rightarrow> f h w"
  have "mm_domain_suffix (mdns_method (fold ?f (lookup_methods (snd s)) (fst s))) = mm_domain_suffix (mdns_method (fst s))"
    using k by (intro fold_keeps [where f = "\<lambda>w. mm_domain_suffix (mdns_method w)"]) (auto simp: suffix_kept_def split: option.split)
  then show ?thesis using k
    by (auto simp: osmo_mslookup_client_request_cancel_def osmo_mslookup_client_request_cleanup_def suffix_kept_def prod.case_eq_if
        split: option.splits dest!: get_requestD)
qed

lemma cb_suffix: "mdns_method (fst (mslookup_result_cb L h q r s)) = mdns_method (fst s)"
  by (simp add: mslookup_result_cb_def Let_def split: option.split)

lemma store_suffix [simp]: "suffix_kept sfx (rq_store r s) = suffix_kept sfx s"
  by (simp add: suffix_kept_def)

lemma send_suffix: "suffix_kept sfx s \<Longrightarrow> suffix_kept sfx (osmo_mslookup_request_send_result (mslookup_result_cb L) r fin s)"
proof -
  assume s: "suffix_kept sfx s"
  have "suffix_kept sfx (mslookup_result_cb L h q r (rq_store r' s))" for h q r r'
    using s by (simp add: suffix_kept_def cb_suffix tool_cb.cb_passive)
  then show ?thesis by (simp add: osmo_mslookup_request_send_result_def Let_def cancel_suffix)
qed

lemma rx_result_suffix: "suffix_kept sfx s \<Longrightarrow> suffix_kept sfx (osmo_mslookup_client_rx_result (mslookup_result_cb L) h r s)"
  by (auto simp: osmo_mslookup_client_rx_result_def Let_def send_suffix split: option.split)

lemma timeout_suffix:
  "suffix_kept sfx s \<Longrightarrow> timeout_cb (mslookup_result_cb L) r s = Ret s' \<Longrightarrow> suffix_kept sfx s'"
  by (auto simp: timeout_cb_def Let_def send_suffix split: if_splits option.splits)

lemma no_query_step:
  assumes e: "no_query_event T sfx e" and sfx: "suffix_kept sfx s" and s: "in_step s"
  obtains s' where "tool_step T e s = Ret s'" "same_run (tl_core T) [] s s'" "suffix_kept sfx s'"
    "\<forall>h. expiries_left h (snd s') \<le> expiries_left h (snd s) - (if e = Timer h then 1 else 0)"
proof (cases e)
  case (Packet rd)
  have "mm_domain_suffix (mdns_method (fst s)) = sfx" using sfx by (simp add: suffix_kept_def)
  then have "\<exists>s'. tool_step T e s = Ret s' \<and> suffix_kept sfx s' \<and> (\<forall>h. expiries_left h (snd s') \<le> expiries_left h (snd s))"
    using e sfx by (auto simp: Packet no_query_event_def tool_step_def mdns_method_recv_def Let_def
        simp del: split_paired_Ex split: sum.splits exec.splits option.splits)
      (metis rx_result_suffix, metis tool_cb.rx_result_expiries snd_conv)
  then show thesis using that recv_same_run [OF s] Packet by (fastforce simp: tool_step_def split: exec.splits prod.splits)
next
  case (Timer k)
  show thesis
  proof (cases "get_request (snd s) k")
    case None
    then show thesis using that [of s] same_run_refl [OF s] sfx Timer
      by (auto simp: tool_step_def expiries_left_def)
  next
    case (Some r)
    then obtain s' where s': "timeout_cb (mslookup_result_cb (tl_core T)) r s = Ret s'"
      using tool_cb.timeout_no_fault [OF Some] by (cases "timeout_cb (mslookup_result_cb (tl_core T)) r s") auto
    then show thesis
      using that [of s'] Some Timer timeout_same_run [OF s Some s'] timeout_suffix [OF sfx s'] tool_cb.timeout_expiries [OF Some s']
      by (simp add: tool_step_def)
  qed
next
  case (Accept rc reg)
  then show thesis using that on_tool_in_step [OF s, of "\<lambda>g. fst (socket_accept rc reg g)"] sfx
    by (simp add: tool_step_def on_tool_def suffix_kept_def)
next
  case (Read fd rd)
  then show thesis using e by (simp add: no_query_event_def)
qed

lemma no_query_run:
  assumes "list_all (no_query_event T sfx) es" "suffix_kept sfx s" "in_step s"
  shows "\<exists>s'. tool_run T es s = Ret s' \<and> same_run (tl_core T) [] s s' \<and> suffix_kept sfx s' \<and>
    (\<forall>h. expiries_left h (snd s') \<le> expiries_left h (snd s) - count_list es (Timer h))"
  using assms
proof (induction es arbitrary: s)
  case (Cons e es)
  obtain s1 where s1: "tool_step T e s = Ret s1" "same_run (tl_core T) [] s s1" "suffix_kept sfx s1"
    "\<forall>h. expiries_left h (snd s1) \<le> expiries_left h (snd s) - (if e = Timer h then 1 else 0)"
    using no_query_step [of T sfx e s] Cons.prems by auto
  obtain s2 where s2: "tool_run T es s1 = Ret s2" "same_run (tl_core T) [] s1 s2" "suffix_kept sfx s2"
    "\<forall>h. expiries_left h (snd s2) \<le> expiries_left h (snd s1) - count_list es (Timer h)"
    using Cons.IH [of s1] Cons.prems(1) s1 by (auto simp: same_run_def)
  have "expiries_left h (snd s2) \<le> expiries_left h (snd s) - count_list (e # es) (Timer h)" for h
    using spec [OF s1(4), of h] spec [OF s2(4), of h] by auto
  then show ?case using s1 s2 same_run_trans_nil [OF s1(2) s2(2)] by simp
qed (simp add: same_run_refl)

lemma main_loop_ends:
  assumes "\<not> o_daemon (lookup_opts (tool (fst s)))" and "queries_started (tool (fst s)) \<noteq> 0"
    and "list_all (no_query_event T sfx) (concat bs)" and "suffix_kept sfx s" and "in_step s" and "bs \<noteq> []"
    and "\<forall>h. expiries_left h (snd s) \<le> count_list (concat bs) (Timer h)"
  shows "\<exists>s'. main_loop T bs s = Ret (program_exit 0 s') \<and> same_run (tl_core T) [] s s' \<and> tool_queries (tool (fst s')) = []"
  using assms
proof (induction bs arbitrary: s)
  case (Cons b bs)
  obtain s1 where s1: "tool_run T b s = Ret s1" "same_run (tl_core T) [] s s1" "suffix_kept sfx s1"
    and left: "\<forall>h. expiries_left h (snd s1) \<le> expiries_left h (snd s) - count_list b (Timer h)"
    using no_query_run [of T sfx b s] Cons.prems by auto
  have left1: "expiries_left h (snd s1) \<le> count_list (concat bs) (Timer h)" for h
    using spec [OF left, of h] spec [OF Cons.prems(7), of h] by simp
  show ?case
  proof (cases "tool_queries (tool (fst s1)) = []")
    case True
    then have "requests_handled (tool (fst s1)) \<noteq> 0" using s1(2) Cons.prems(2) by (simp add: same_run_def queries_started_def)
    then show ?thesis using s1 True Cons.prems(1) by (auto simp: all_done_def same_run_def simp del: split_paired_Ex)
  next
    case False
    moreover have "tq_handle ` set (tool_queries (tool (fst s1))) = open_handles s1" using s1(2) by (simp add: same_run_def in_step_def)
    ultimately obtain h where h: "h \<in> open_handles s1" by (metis ex_in_conv image_is_empty set_empty)
    moreover have "h \<noteq> 0" using h s1(2) by (auto simp: same_run_def in_step_def open_handles_def client_inv_def list_all_iff rq_ok_def)
    ultimately have "get_request (snd s1) h \<noteq> None" by (auto simp: open_handles_def get_request_None)
    then have "0 < expiries_left h (snd s1)" by (auto simp: expiries_left_def)
    then have "bs \<noteq> []" using left1 [of h] by auto
    then obtain s' where "main_loop T bs s1 = Ret (program_exit 0 s') \<and> same_run (tl_core T) [] s1 s' \<and> tool_queries (tool (fst s')) = []"
      using Cons.IH [of s1] Cons.prems(1-3) s1 left1 by (auto simp: same_run_def)
    then show ?thesis
      using s1 False by (intro exI [of _ s']) (auto simp: all_done_def intro: same_run_trans_nil [OF s1(2)])
  qed
qed simp

definition mdns_lookup_method :: "osmo_core \<Rightarrow> tool_world osmo_mslookup_client_method" where
  "mdns_lookup_method L = \<lparr>m_id = 0, m_request = mdns_method_request L, m_request_cleanup = Some mdns_method_request_cleanup,
     m_destruct = Some mdns_method_destruct\<rparr>"

lemma mdns_request_frame [simp]:
  "tool (mdns_method_request L q h w) = tool w"
  "mm_domain_suffix (mdns_method (mdns_method_request L q h w)) = mm_domain_suffix (mdns_method w)"
  by (simp_all add: mdns_method_request_def Let_def split: exec.split option.split)

lemma mdns_lookup_method_ok:
  assumes "lookup_methods (snd s) = [mdns_lookup_method L]"
  shows "keeps_tool (snd s)" and "suffix_kept sfx s \<longleftrightarrow> mm_domain_suffix (mdns_method (fst s)) = sfx"
    and "tool (osmo_mslookup_client_free s) = tool (fst s)"
  using assms by (auto simp: keeps_tool_def suffix_kept_def mdns_lookup_method_def mdns_method_request_cleanup_def
      osmo_mslookup_client_free_def osmo_mslookup_client_method_del0_def mdns_method_destruct_def prod.case_eq_if)

lemma handle_option_frame:
  "handle_option L opt g = (g', r) \<Longrightarrow> tool_queries g' = tool_queries g \<and> requests_handled g' = requests_handled g \<and>
     (r = None \<longrightarrow> tool_stdout g' = tool_stdout g)"
  by (auto simp: handle_option_def parse_option_int_def Let_def split: if_splits prod.splits)

lemma handle_options_frame:
  "handle_options L opts g = (g', r) \<Longrightarrow> tool_queries g' = tool_queries g \<and> requests_handled g' = requests_handled g \<and>
     (r = None \<longrightarrow> tool_stdout g' = tool_stdout g)"
  by (induction opts arbitrary: g) (auto split: prod.splits option.splits dest!: handle_option_frame)

definition header_lines :: "tool_state \<Rightarrow> tool_output list" where
  "header_lines g = (if tool_format g = FORMAT_CSV \<and> o_csv_headers (lookup_opts g) then [Out_Text (CSV_HEADERS @ [LF])] else [])"

lemma start_lookups_looping:
  assumes "start_lookups T E args (w\<lparr>tool := g\<rparr>, c) = Looping s"
  obtains s0 where "s = start_query_strs T args s0" "lookup_methods (snd s0) = [mdns_lookup_method (tl_core T)]" "requests (snd s0) = []"
    "mm_domain_suffix (mdns_method (fst s0)) = o_mdns_domain_suffix (lookup_opts g)"
    "\<exists>fd. tool (fst s0) = g\<lparr>socket_ofd := fd\<rparr>"
proof -
  have same: "g = g\<lparr>socket_ofd := socket_ofd g\<rparr>" by simp
  show thesis
    using assms that
    by (fastforce simp: start_lookups_def osmo_mslookup_client_add_mdns_def osmo_mslookup_client_method_add_def osmo_mslookup_client_new_def
        mdns_lookup_method_def program_exit_def socket_init_def Let_def intro: same split: prod.splits option.splits if_splits)
qed

lemma main_start_looping:
  assumes "main_start T E opts args w = Ret (Looping s)"
  obtains s0 where "s = start_query_strs T args s0" "lookup_methods (snd s0) = [mdns_lookup_method (tl_core T)]" "requests (snd s0) = []"
    "tool_queries (tool (fst s0)) = tool_queries (tool w)" "requests_handled (tool (fst s0)) = requests_handled (tool w)"
    "mm_domain_suffix (mdns_method (fst s0)) = o_mdns_domain_suffix (lookup_opts (tool (fst s0)))"
    "o_daemon (lookup_opts (tool (fst s0))) \<or> args \<noteq> []"
    "tool_stdout (tool (fst s0)) = tool_stdout (tool w) @ header_lines (tool (fst s0))"
proof -
  obtain g h where g: "handle_options (tl_core T) opts (tool w) = (g, None)" "o_daemon (lookup_opts g) \<or> args \<noteq> []"
    and h: "choose_format T g = (h, True)" and l: "start_lookups T E args (w\<lparr>tool := if tool_format h = FORMAT_CSV \<and> o_csv_headers (lookup_opts h)
        then respond_str_stdout CSV_HEADERS h else h\<rparr>, osmo_mslookup_client_new) = Looping s"
    using assms by (auto simp: main_start_def Let_def split: prod.splits option.splits if_splits exec.splits)
  define g1 where "g1 = (if tool_format h = FORMAT_CSV \<and> o_csv_headers (lookup_opts h) then respond_str_stdout CSV_HEADERS h else h)"
  have g1: "lookup_opts g1 = lookup_opts g" "tool_queries g1 = tool_queries g" "requests_handled g1 = requests_handled g"
      "tool_stdout g1 = tool_stdout g @ header_lines g1"
    using h by (auto simp: g1_def choose_format_def respond_str_stdout_def header_lines_def split: option.splits if_splits)
  note l = l [folded g1_def]
  obtain s0 where s0: "s = start_query_strs T args s0" "lookup_methods (snd s0) = [mdns_lookup_method (tl_core T)]" "requests (snd s0) = []"
      "mm_domain_suffix (mdns_method (fst s0)) = o_mdns_domain_suffix (lookup_opts g1)" "\<exists>fd. tool (fst s0) = g1\<lparr>socket_ofd := fd\<rparr>"
    by (rule start_lookups_looping [OF l])
  show thesis
    using that [OF s0(1-3)] s0(4,5) g1 g(2) handle_options_frame [OF g(1)] by (auto simp: header_lines_def)
qed

lemma request_suffix:
  assumes "suffix_kept sfx s"
  shows "suffix_kept sfx (fst (osmo_mslookup_client_request L (mslookup_result_cb L) q handling s))"
proof (cases "osmo_mslookup_service_valid (service q) \<and> osmo_mslookup_id_valid L (ms_id q)")
  case True
  define k where "k = (if next_request_handle (snd s) = 0 then next_request_handle (snd s) + 1 else next_request_handle (snd s))"
  define c0 where "c0 = (snd s)\<lparr>next_request_handle := k + 1\<rparr>"
  define s1 where "s1 = (case List.find (\<lambda>x. rq_handle x = k) (requests c0) of
     None \<Rightarrow> (fst s, c0) | Some other \<Rightarrow> osmo_mslookup_request_send_result (mslookup_result_cb L) other True (fst s, c0))"
  have "suffix_kept sfx (fst s, c0)" using assms by (simp add: suffix_kept_def c0_def)
  then have s1: "suffix_kept sfx s1" by (auto simp: s1_def send_suffix split: option.split)
  then have "mm_domain_suffix (mdns_method (fold (\<lambda>m w. m_request m q k w) (lookup_methods (snd s1)) (fst s1))) = sfx"
    using fold_keeps [of "lookup_methods (snd s1)" "\<lambda>w. mm_domain_suffix (mdns_method w)" "\<lambda>m w. m_request m q k w"]
    by (simp add: suffix_kept_def)
  then show ?thesis using True s1
    unfolding osmo_mslookup_client_request_def Let_def k_def [symmetric] c0_def [symmetric] s1_def [symmetric]
    by (simp add: suffix_kept_def)
qed (use assms in \<open>auto simp: osmo_mslookup_client_request_def\<close>)

lemma start_query_suffix:
  assumes "suffix_kept sfx s"
  shows "suffix_kept sfx (start_query_str T q s)"
proof -
  have failed: "suffix_kept sfx s \<Longrightarrow> suffix_kept sfx (query_failed L t d s)" for L t d s
    by (simp add: query_failed_def suffix_kept_def)
  have added: "suffix_kept sfx s \<Longrightarrow> suffix_kept sfx ((fst s)\<lparr>tool := g\<rparr>, snd s)" for s g
    by (simp add: suffix_kept_def)
  show ?thesis
    using assms request_suffix [OF assms]
    by (simp add: start_query_str_def Let_def failed added prod.case_eq_if split: sum.split)
qed

lemma start_queries_suffix: "suffix_kept sfx s \<Longrightarrow> suffix_kept sfx (start_query_strs T qs s)"
  by (induction qs arbitrary: s) (simp_all add: start_query_strs_def start_query_suffix)

lemma socket_close_frame [simp]:
  "requests_handled (socket_close g) = requests_handled g" "tool_queries (socket_close g) = tool_queries g"
  "tool_stdout (socket_close g) = tool_stdout g"
proof -
  have "requests_handled (fold socket_client_close cs g) = requests_handled g \<and> tool_queries (fold socket_client_close cs g) = tool_queries g \<and>
      tool_stdout (fold socket_client_close cs g) = tool_stdout g" for cs
    by (induction cs arbitrary: g) (simp_all add: socket_client_close_def)
  then show "requests_handled (socket_close g) = requests_handled g" "tool_queries (socket_close g) = tool_queries g"
    "tool_stdout (socket_close g) = tool_stdout g"
    by (simp_all add: socket_close_def Let_def split: option.split)
qed

lemma main_start_ready:
  assumes "main_start T E opts args w = Ret (Looping s)" and "tool w = tool_start"
  shows "in_step s" and "queries_started (tool (fst s)) = of_nat (length args)"
    and "suffix_kept (o_mdns_domain_suffix (lookup_opts (tool (fst s)))) s"
    and "lookup_methods (snd s) = [mdns_lookup_method (tl_core T)]"
    and "o_daemon (lookup_opts (tool (fst s))) \<or> args \<noteq> []"
    and "\<exists>as. tool_stdout (tool (fst s)) = header_lines (tool (fst s)) @ map (answer_line (tl_core T) (tool_format (tool (fst s)))) as \<and>
      mset (final_answers as) + open_strings (tool (fst s)) = mset (map query_domain_str args) \<and>
      fst ` set as \<subseteq> set (map query_domain_str args)"
proof -
  obtain s0 where s0: "s = start_query_strs T args s0" "lookup_methods (snd s0) = [mdns_lookup_method (tl_core T)]" "requests (snd s0) = []"
    "tool_queries (tool (fst s0)) = tool_queries (tool w)" "requests_handled (tool (fst s0)) = requests_handled (tool w)"
    "mm_domain_suffix (mdns_method (fst s0)) = o_mdns_domain_suffix (lookup_opts (tool (fst s0)))"
    "o_daemon (lookup_opts (tool (fst s0))) \<or> args \<noteq> []"
    "tool_stdout (tool (fst s0)) = tool_stdout (tool w) @ header_lines (tool (fst s0))"
    by (rule main_start_looping [OF assms(1)])
  have "in_step s0" using s0(3,4) mdns_lookup_method_ok(1) [OF s0(2)] assms(2)
    by (simp add: in_step_def client_inv_def open_handles_def tool_start_def)
  note c = start_queries_same_run [OF this, of T args, folded s0(1)]
  have "queries_started (tool (fst s0)) = 0" using s0(4,5) assms(2) by (simp add: queries_started_def tool_start_def)
  then show "in_step s" "queries_started (tool (fst s)) = of_nat (length args)"
    "lookup_methods (snd s) = [mdns_lookup_method (tl_core T)]" "o_daemon (lookup_opts (tool (fst s))) \<or> args \<noteq> []"
    using c s0 by (auto simp: same_run_def)
  show "\<exists>as. tool_stdout (tool (fst s)) = header_lines (tool (fst s)) @ map (answer_line (tl_core T) (tool_format (tool (fst s)))) as \<and>
      mset (final_answers as) + open_strings (tool (fst s)) = mset (map query_domain_str args) \<and>
      fst ` set as \<subseteq> set (map query_domain_str args)"
    using c s0(4,8) assms(2) by (auto simp: same_run_def told_def header_lines_def open_strings_def tool_start_def)
  have "suffix_kept (o_mdns_domain_suffix (lookup_opts (tool (fst s0)))) s"
    unfolding s0(1) by (rule start_queries_suffix) (simp add: mdns_lookup_method_ok(2) [OF s0(2)] s0(6))
  then show "suffix_kept (o_mdns_domain_suffix (lookup_opts (tool (fst s)))) s" using c by (simp add: same_run_def)
qed

lemma told_from_start:
  assumes "\<exists>as. tool_stdout g = pre @ map (answer_line L (tool_format g)) as \<and> mset (final_answers as) + open_strings g = mset xs \<and>
      fst ` set as \<subseteq> set xs"
    and "told L {#} g g'" and "tool_queries g' = []"
  shows "\<exists>as. tool_stdout g' = pre @ map (answer_line L (tool_format g)) as \<and> fst ` set as \<subseteq> set xs \<and> mset (final_answers as) = mset xs"
proof -
  obtain as bs where as: "tool_stdout g = pre @ map (answer_line L (tool_format g)) as" "mset (final_answers as) + open_strings g = mset xs"
      "fst ` set as \<subseteq> set xs"
    and bs: "tool_stdout g' = tool_stdout g @ map (answer_line L (tool_format g)) bs" "mset (final_answers bs) = open_strings g"
      "fst ` set bs \<subseteq> set_mset (open_strings g)"
    using assms by (auto simp: told_def open_strings_def)
  have "set_mset (open_strings g) \<subseteq> set xs" using arg_cong [OF as(2), of set_mset] by auto
  moreover have "mset (final_answers (as @ bs)) = mset xs" using as(2) bs(2) by (simp add: final_answers_def)
  ultimately show ?thesis using as bs by (intro exI [of _ "as @ bs"]) auto
qed

lemma expiries_left_open: "h \<notin> open_handles s \<Longrightarrow> expiries_left h (snd s) = 0"
proof -
  assume "h \<notin> open_handles s"
  then have "get_request (snd s) h = None" by (metis get_request_open not_None_eq)
  then show "expiries_left h (snd s) = 0" by (simp add: expiries_left_def)
qed

lemma expiries_left_two: "expiries_left h c \<le> 2"
  by (simp add: expiries_left_def split: option.split)

text \<open>
  C27. A one-shot run of the lookup program ends and has answered everything. Start the program without the daemon option
  and with fewer than \<open>2\<^sup>3\<^sup>2\<close> query strings, valid or not, such that it reaches its main loop. Let any packets that can be decoded within
  bounds, timers and new connections occur, in any batches of at least one event loop turn, while nothing is read from a
  connection, among them the timer of each lookup that is open when the loop begins twice. Then the program leaves its loop and exits with code 0, and no query is left.
  Its standard output is the header line, if it is wanted, and then one formatted line for each answer. Every line answers one of the
  query strings (the part behind the first at sign), and the final lines, with an error or a last result, are
  one for each argument: a string that is given \<open>n\<close> times has \<open>n\<close> final lines.
\<close>
theorem one_shot_terminates:
  assumes "main_start T E opts args w = Ret (Looping s)" and "tool w = tool_start"
    and "\<not> o_daemon (lookup_opts (tool (fst s)))" and "length args < 2 ^ 32" and "bs \<noteq> []"
    and "list_all (no_query_event T (o_mdns_domain_suffix (lookup_opts (tool (fst s))))) (concat bs)"
    and "\<forall>h \<in> open_handles s. 2 \<le> count_list (concat bs) (Timer h)"
  shows "\<exists>g as. main_loop T bs s = Ret (Exited 0 g) \<and> requests_handled g = of_nat (length args) \<and> tool_queries g = [] \<and>
    tool_stdout g = header_lines (tool (fst s)) @
      map (\<lambda>a. Out_Text (formatters (tl_core T) (tool_format (tool (fst s))) (fst a) (snd a) @ [LF])) as \<and>
    fst ` set as \<subseteq> query_domain_str ` set args \<and> mset (final_answers as) = mset (map query_domain_str args)"
proof -
  note r = main_start_ready [OF assms(1,2)]
  have "args \<noteq> []" using r(5) assms(3) by simp
  then have n: "queries_started (tool (fst s)) \<noteq> 0"
    using assms(4) by (simp add: r(2) of_nat_eq_0_iff word_of_nat_eq_0_iff nat_dvd_not_less)
  have "expiries_left h (snd s) \<le> count_list (concat bs) (Timer h)" for h
    using assms(7) expiries_left_open [of h s] expiries_left_two [of h "snd s"] by (cases "h \<in> open_handles s") force+
  then obtain s' where s': "main_loop T bs s = Ret (program_exit 0 s')" "same_run (tl_core T) [] s s'" "tool_queries (tool (fst s')) = []"
    using main_loop_ends [OF assms(3) n assms(6) r(3,1) assms(5)] by blast
  have free: "tool (osmo_mslookup_client_free s') = tool (fst s')"
    using mdns_lookup_method_ok(3) [of s'] r(4) s'(2) by (simp add: same_run_def)
  have "requests_handled (tool (fst s')) = of_nat (length args)"
    using s'(2,3) r(2) by (simp add: same_run_def queries_started_def)
  moreover obtain as where "tool_stdout (tool (fst s')) =
        header_lines (tool (fst s)) @ map (answer_line (tl_core T) (tool_format (tool (fst s)))) as"
      "fst ` set as \<subseteq> query_domain_str ` set args" "mset (final_answers as) = mset (map query_domain_str args)"
    using told_from_start [OF r(6) _ s'(3)] s'(2) by (auto simp: same_run_def)
  ultimately show ?thesis
    using s' free unfolding answer_line_def
    by (intro exI [of _ "socket_close (tool (fst s'))"] exI [of _ as]) (simp add: program_exit_def)
qed

section \<open>Query strings\<close>

lemma strchr_first: "c \<notin> set a \<Longrightarrow> strchr (a @ c # b) c = Some (length a)"
  by (induction a) auto

lemma strchr_None: "strchr s c = None \<longleftrightarrow> c \<notin> set s"
  by (induction s) auto

lemma parse_int_show: "n \<le> 4294967295 \<Longrightarrow> parse_int 0 UINT32_MAX (Some (show_dec n)) = (int n, 0)"
  using strtoll_digits [OF show_dec_digits show_dec_nonempty, of n] by (simp add: parse_int_def show_dec_val)

lemma show_dec_plain: "CHR ''-'' \<notin> set (show_dec n)" "CHR ''@'' \<notin> set (show_dec n)" "cstring_ok (show_dec n)"
  using show_dec_digits [of n] by (auto simp: list_all_iff is_digit_def octet_val_def intro: digits_cstring_ok [OF show_dec_digits])

lemma print_n_rules:
  assumes "tool_lib_ok T" and "cstring_ok s" and "length s < 16"
  shows "osmo_print_n (tl_core T) 16 s = s" and "osmo_print_n_rc T 16 s = length s"
  using assms by (simp_all add: tool_lib_ok_def lib_text_ok_def)

lemma query_handling_forms:
  assumes T: "tool_lib_ok T" and n: "a \<le> 4294967295" "b \<le> 4294967295" "length (show_dec a) + length (show_dec b) < 15"
  shows "query_handling T opts (show_dec a @ ''-'' @ show_dec b @ ''@'' @ d) =
      Inr \<lparr>min_wait_milliseconds = a, result_timeout_milliseconds = b\<rparr>"
    and "query_handling T opts (show_dec a @ ''-@'' @ d) = Inr \<lparr>min_wait_milliseconds = a, result_timeout_milliseconds = 0\<rparr>"
    and "query_handling T opts (show_dec b @ ''@'' @ d) = Inr \<lparr>min_wait_milliseconds = 0, result_timeout_milliseconds = b\<rparr>"
    and "CHR ''@'' \<notin> set d \<Longrightarrow> query_handling T opts d =
      Inr \<lparr>min_wait_milliseconds = o_min_delay opts, result_timeout_milliseconds = o_timeout opts\<rparr>"
proof -
  note rules = query_handling_def query_min_delay_def Let_def show_dec_plain parse_int_show print_n_rules [OF T] show_dec_nonempty
  have no_dash: "strchr (show_dec b) CHR ''-'' = None" by (simp add: strchr_None show_dec_plain)
  have "strchr ((show_dec a @ ''-'' @ show_dec b) @ CHR ''@'' # d) CHR ''@'' = Some (length (show_dec a @ ''-'' @ show_dec b))"
    by (rule strchr_first) (simp add: show_dec_plain)
  moreover have "strchr (show_dec a @ CHR ''-'' # show_dec b) CHR ''-'' = Some (length (show_dec a))"
    by (rule strchr_first) (simp add: show_dec_plain)
  ultimately show "query_handling T opts (show_dec a @ ''-'' @ show_dec b @ ''@'' @ d) =
      Inr \<lparr>min_wait_milliseconds = a, result_timeout_milliseconds = b\<rparr>"
    using n by (simp add: rules)
  have "strchr ((show_dec a @ ''-'') @ CHR ''@'' # d) CHR ''@'' = Some (length (show_dec a @ ''-''))"
    by (rule strchr_first) (simp add: show_dec_plain)
  moreover have "strchr (show_dec a @ CHR ''-'' # []) CHR ''-'' = Some (length (show_dec a))"
    by (rule strchr_first) (simp add: show_dec_plain)
  ultimately show "query_handling T opts (show_dec a @ ''-@'' @ d) = Inr \<lparr>min_wait_milliseconds = a, result_timeout_milliseconds = 0\<rparr>"
    using n by (simp add: rules)
  have "strchr (show_dec b @ CHR ''@'' # d) CHR ''@'' = Some (length (show_dec b))"
    by (rule strchr_first) (simp add: show_dec_plain)
  then show "query_handling T opts (show_dec b @ ''@'' @ d) = Inr \<lparr>min_wait_milliseconds = 0, result_timeout_milliseconds = b\<rparr>"
    using n no_dash by (simp add: rules)
  show "CHR ''@'' \<notin> set d \<Longrightarrow> query_handling T opts d =
      Inr \<lparr>min_wait_milliseconds = o_min_delay opts, result_timeout_milliseconds = o_timeout opts\<rparr>"
    using strchr_None [of d "CHR ''@''"] by (simp add: query_handling_def)
qed

lemma query_domain_str_at: "CHR ''@'' \<notin> set t \<Longrightarrow> query_domain_str (t @ CHR ''@'' # d) = d"
  by (simp add: query_domain_str_def strchr_first)

lemma query_domain_str_plain: "CHR ''@'' \<notin> set d \<Longrightarrow> query_domain_str d = d"
  using strchr_None [of d "CHR ''@''"] by (simp add: query_domain_str_def)

lemma query_text_length:
  assumes "lib_strings_ok L" and "osmo_mslookup_id_valid L (ms_id q)" and "length (service q) \<le> OSMO_MSLOOKUP_SERVICE_MAXLEN"
  shows "length (service q @ ''.'' @ id_name L (ms_id q)) < 128"
  using id_valid_digits [OF assms(1,2)] id_valid_type [OF assms(2)] assms(3)
  by (auto simp: id_name_def osmo_mslookup_id_type_name_def osmo_mslookup_id_type_names_def lib_value_tables [OF assms(1)])

text \<open>
  C28. A query string means what the help text says. For a valid query whose service name has no at sign, and numbers of
  milliseconds of together at most 14 digits, each of the forms \<open>delay-timeout@query\<close>, \<open>delay-@query\<close>,
  \<open>timeout@query\<close> and \<open>query\<close> starts exactly one lookup, of this query, with the given numbers (0 for one that is left out
  beside another, the values of the options when both are), and the program remembers the lookup under its handle.
\<close>
theorem query_string_started:
  assumes "tool_lib_ok T" and "L = tl_core T" and "lib_strings_ok L"
    and "osmo_mslookup_id_valid L (ms_id q)" and "osmo_mslookup_service_valid (service q)"
    and "length (service q) \<le> OSMO_MSLOOKUP_SERVICE_MAXLEN" and "CHR ''@'' \<notin> set (service q)"
    and "a \<le> 4294967295" and "b \<le> 4294967295" and "length (show_dec a) + length (show_dec b) < 15"
    and "d = service q @ ''.'' @ id_name L (ms_id q)" and "opts = lookup_opts (tool (fst s))"
    and "(text, h) \<in> {(show_dec a @ ''-'' @ show_dec b @ ''@'' @ d, \<lparr>min_wait_milliseconds = a, result_timeout_milliseconds = b\<rparr>),
      (show_dec a @ ''-@'' @ d, \<lparr>min_wait_milliseconds = a, result_timeout_milliseconds = 0\<rparr>),
      (show_dec b @ ''@'' @ d, \<lparr>min_wait_milliseconds = 0, result_timeout_milliseconds = b\<rparr>),
      (d, \<lparr>min_wait_milliseconds = o_min_delay opts, result_timeout_milliseconds = o_timeout opts\<rparr>)}"
    and "osmo_mslookup_client_request L (mslookup_result_cb L) q h s = (s', k)"
  shows "k \<noteq> 0 \<and> start_query_str T text s =
    ((fst s')\<lparr>tool := (tool (fst s'))\<lparr>tool_queries := \<lparr>tq_query_str = d, tq_query = q, tq_handle = k\<rparr> # tool_queries (tool (fst s'))\<rparr>\<rparr>, snd s')"
proof -
  have plain: "CHR ''@'' \<notin> set d"
    using assms(7) id_valid_digits [OF assms(3,4)] id_valid_type [OF assms(4)]
    by (auto simp: assms(11) id_name_def list_all_iff is_digit_def octet_val_def osmo_mslookup_id_type_name_def
        osmo_mslookup_id_type_names_def lib_value_tables [OF assms(3)])
  have len: "length d < 128" using query_text_length [OF assms(3,4,6)] by (simp add: assms(11))
  have parse: "osmo_mslookup_query_init_from_domain_str L (Some (strlcpy 128 d)) = (q, 0)"
    using parse_printed [OF assms(3-6)] len by (simp add: strlcpy_def assms(11))
  have "query_handling T opts text = Inr h \<and> query_domain_str text = d"
    using assms(13) query_handling_forms [OF assms(1,8-10), where opts = opts and d = d] plain query_domain_str_plain [OF plain]
      query_domain_str_at [of "show_dec a @ ''-'' @ show_dec b" d] query_domain_str_at [of "show_dec a @ ''-''" d]
      query_domain_str_at [of "show_dec b" d]
    by (auto simp: show_dec_plain)
  moreover have "k \<noteq> 0"
    using assms(4,5,14) by (auto simp: osmo_mslookup_client_request_def Let_def split: if_splits)
  ultimately show ?thesis
    using len parse assms(2,12,14) by (simp add: start_query_str_def strlcpy_def Let_def)
qed

definition tool_world_start :: tool_world where
  "tool_world_start = mdns_world.extend mdns_first \<lparr>tool = tool_start\<rparr>"

definition ref_tool :: tool_lib where
  "ref_tool = \<lparr>tl_core = ref_core, osmo_print_n_rc = (\<lambda>n s. length s), osmo_str_startswith = (\<lambda>s t. take (length t) s = t)\<rparr>"

definition ref_tool_env :: tool_env where
  "ref_tool_env = \<lparr>te_sock_ok = True, te_rnd = (0, 7), te_send_rc = 0, te_unix_fd = 5, te_register_rc = 0, te_strerror = []\<rparr>"

definition tool_ready :: "tool_world lookup_state" where
  \<comment> \<open>the program without options in front of its first query\<close>
  "tool_ready = (tool_world_start\<lparr>mdns_method := \<lparr>mm_bind_addr = o_mdns_addr default_opts, mm_domain_suffix = ''mdns.osmocom.org'',
       mm_requests = [], mm_next_packet_id = 7, mm_sent = []\<rparr>, tool := respond_str_stdout CSV_HEADERS tool_start\<rparr>,
     osmo_mslookup_client_method_add (mdns_lookup_method ref_core) osmo_mslookup_client_new)"

lemma ref_tool_ok: "tool_lib_ok ref_tool" "tl_core ref_tool = ref_core"
  using ref_text_ok by (simp_all add: tool_lib_ok_def ref_tool_def)

lemma demo_query_ok:
  "osmo_mslookup_id_valid ref_core (ms_id demo_query)" "osmo_mslookup_service_valid (service demo_query)"
  "length (service demo_query) \<le> OSMO_MSLOOKUP_SERVICE_MAXLEN" "CHR ''@'' \<notin> set (service demo_query)"
  "service demo_query @ ''.'' @ id_name ref_core (ms_id demo_query) = ''gsup.hlr.123456.imsi''"
  by (simp_all add: demo_query_def osmo_mslookup_service_valid_def osmo_mslookup_id_valid_def id_name_def
      osmo_mslookup_id_type_name_def osmo_mslookup_id_type_names_def)
    (simp_all add: ref_core_def is_digit_def octet_val_def)

lemma show_dec_100: "show_dec 100 = ''100''" "show_dec 200 = ''200''"
  by (simp_all add: show_dec.simps char_of_def bit_iff_odd)

lemma demo_request:
  obtains s where "osmo_mslookup_client_request ref_core (mslookup_result_cb ref_core) demo_query h tool_ready = (s, 1)"
    "map rq_handle (requests (snd s)) = [1]"
  by (rule that [of "fst (osmo_mslookup_client_request ref_core (mslookup_result_cb ref_core) demo_query h tool_ready)"])
    (simp_all add: prod_eq_iff osmo_mslookup_client_request_def Let_def demo_query_ok tool_ready_def osmo_mslookup_client_method_add_def
      osmo_mslookup_client_new_def set_timer_def)

theorem query_string_started_witness:
  "\<exists>s. osmo_mslookup_client_request ref_core (mslookup_result_cb ref_core) demo_query
       \<lparr>min_wait_milliseconds = 100, result_timeout_milliseconds = 200\<rparr> tool_ready = (s, 1) \<and>
     start_query_str ref_tool ''100-200@gsup.hlr.123456.imsi'' tool_ready =
       ((fst s)\<lparr>tool := (tool (fst s))\<lparr>tool_queries :=
           \<lparr>tq_query_str = ''gsup.hlr.123456.imsi'', tq_query = demo_query, tq_handle = 1\<rparr> # tool_queries (tool (fst s))\<rparr>\<rparr>, snd s)"
proof -
  let ?h = "\<lparr>min_wait_milliseconds = 100, result_timeout_milliseconds = 200\<rparr>"
  obtain s where s: "osmo_mslookup_client_request ref_core (mslookup_result_cb ref_core) demo_query ?h tool_ready = (s, 1)"
    by (rule demo_request)
  show ?thesis
    using query_string_started [OF ref_tool_ok(1) ref_tool_ok(2) [symmetric] ref_strings_ok demo_query_ok(1-4), of 100 200
        "''gsup.hlr.123456.imsi''" "lookup_opts (tool (fst tool_ready))" tool_ready "''100-200@gsup.hlr.123456.imsi''" ?h s 1]
      demo_query_ok(5) s by (simp add: show_dec_100)
qed

lemma demo_start:
  "main_start ref_tool ref_tool_env [] [''100-200@gsup.hlr.123456.imsi'', ''nonsense''] tool_world_start =
     Ret (Looping (start_query_strs ref_tool [''100-200@gsup.hlr.123456.imsi'', ''nonsense''] tool_ready))"
  by (simp add: main_start_def start_lookups_def tool_world_start_def mdns_world.defs tool_start_def default_opts_def choose_format_def
      ref_tool_env_def osmo_mslookup_client_add_mdns_def ref_tool_ok tool_ready_def mdns_lookup_method_def respond_str_stdout_def Let_def)
    (simp add: ref_core_def)

lemma no_dot_fails:
  assumes "CHR ''.'' \<notin> set query_str"
  shows "\<exists>txt. start_query_str T query_str s = query_failed (tl_core T) txt (query_domain_str query_str) s"
proof -
  have "set (query_domain_str query_str) \<subseteq> set query_str"
    by (auto simp: query_domain_str_def split: option.split dest: in_set_dropD)
  then have "strrchr (strlcpy 128 (query_domain_str query_str)) CHR ''.'' = None"
    using assms by (auto simp: strrchr_None strlcpy_def dest!: in_set_takeD)
  then have "snd (osmo_mslookup_query_init_from_domain_str (tl_core T) (Some (strlcpy 128 (query_domain_str query_str)))) \<noteq> 0"
    by (simp add: osmo_mslookup_query_init_from_domain_str_def)
  then show ?thesis by (auto simp: start_query_str_def Let_def prod.case_eq_if split: sum.split)
qed

theorem one_shot_terminates_witness:
  "\<exists>s g. main_start ref_tool ref_tool_env [] [''100-200@gsup.hlr.123456.imsi'', ''nonsense''] tool_world_start = Ret (Looping s) \<and>
     open_handles s = {1} \<and> main_loop ref_tool [[Timer 1], [Accept 5 True, Timer 1]] s = Ret (Exited 0 g) \<and> requests_handled g = 2 \<and>
     (\<exists>as. tool_stdout g = Out_Text (CSV_HEADERS @ [LF]) #
         map (\<lambda>a. Out_Text (formatters ref_core FORMAT_CSV (fst a) (snd a) @ [LF])) as \<and>
       mset (final_answers as) = {#''gsup.hlr.123456.imsi'', ''nonsense''#})"
proof -
  let ?q = "''100-200@gsup.hlr.123456.imsi''" and ?h = "\<lparr>min_wait_milliseconds = 100, result_timeout_milliseconds = 200\<rparr>"
  define s where "s = start_query_strs ref_tool [?q, ''nonsense''] tool_ready"
  obtain s1 where s1: "osmo_mslookup_client_request ref_core (mslookup_result_cb ref_core) demo_query ?h tool_ready = (s1, 1)"
      "map rq_handle (requests (snd s1)) = [1]" by (rule demo_request)
  have "snd (start_query_str ref_tool ?q tool_ready) = snd s1"
    using query_handling_forms(1) [OF ref_tool_ok(1), of 100 200 _ "''gsup.hlr.123456.imsi''"] s1(1) demo_query_ok
      query_domain_str_at [of "''100-200''" "''gsup.hlr.123456.imsi''"] parse_printed [OF ref_strings_ok demo_query_ok(1-3)]
    by (simp add: start_query_str_def Let_def show_dec_100 ref_tool_ok strlcpy_def)
  then have "map rq_handle (requests (snd s)) = [1]"
    using s1(2) no_dot_fails [of "''nonsense''" ref_tool "start_query_str ref_tool ?q tool_ready"]
    by (auto simp: s_def start_query_strs_def query_failed_def)
  then have o: "open_handles s = {1}" by (metis image_set list.simps(15) list.set(1) open_handles_def)
  have start: "main_start ref_tool ref_tool_env [] [?q, ''nonsense''] tool_world_start = Ret (Looping s)"
    unfolding s_def by (rule demo_start)
  have t: "tool tool_world_start = tool_start" by (simp add: tool_world_start_def mdns_world.defs)
  have "in_step tool_ready"
    using mdns_lookup_method_ok(1) [of tool_ready ref_core]
    by (simp add: tool_ready_def in_step_def client_inv_def open_handles_def osmo_mslookup_client_method_add_def osmo_mslookup_client_new_def
        respond_str_stdout_def tool_start_def)
  then have "lookup_opts (tool (fst s)) = default_opts \<and> tool_format (tool (fst s)) = FORMAT_CSV"
    using start_queries_same_run [of tool_ready ref_tool "[?q, ''nonsense'']"]
    by (simp add: s_def same_run_def told_def) (simp add: tool_ready_def respond_str_stdout_def tool_start_def)
  then have d: "\<not> o_daemon (lookup_opts (tool (fst s)))" "header_lines (tool (fst s)) = [Out_Text (CSV_HEADERS @ [LF])]"
      "tool_format (tool (fst s)) = FORMAT_CSV"
    by (simp_all add: default_opts_def header_lines_def)
  have a: "map query_domain_str [?q, ''nonsense''] = [''gsup.hlr.123456.imsi'', ''nonsense'']"
    by (simp add: query_domain_str_def)
  show ?thesis
    using one_shot_terminates [OF start t d(1), of "[[Timer 1], [Accept 5 True, Timer 1]]"] start o
    unfolding a d(2,3) ref_tool_ok(2) by (fastforce simp: no_query_event_def)
qed

text \<open>
  When no query string of a one-shot run can be parsed, everything is done before the main loop begins; no
  timer is running. The loop waits for an event all the same.
\<close>
theorem one_shot_waits_for_nothing:
  assumes "main_start T E opts args w = Ret (Looping s)" and "tool w = tool_start"
    and "\<not> o_daemon (lookup_opts (tool (fst s)))" and "length args < 2 ^ 32" and "\<forall>a \<in> set args. CHR ''.'' \<notin> set a"
  shows "all_done (tool (fst s)) \<and> requests (snd s) = [] \<and> main_loop T [] s = Ret (Looping s)"
proof -
  note r = main_start_ready [OF assms(1,2)]
  obtain s0 where s0: "s = start_query_strs T args s0" "requests (snd s0) = []" by (rule main_start_looping [OF assms(1)])
  have "snd (start_query_strs T args s0) = snd s0" using assms(5)
  proof (induction args arbitrary: s0)
    case (Cons a as)
    then show ?case using no_dot_fails [of a T s0] by (auto simp: start_query_strs_def query_failed_def)
  qed (simp add: start_query_strs_def)
  then have req: "requests (snd s) = []" using s0 by simp
  then have q: "tool_queries (tool (fst s)) = []" using r(1) by (simp add: in_step_def open_handles_def)
  have "args \<noteq> []" using r(5) assms(3) by simp
  then have "requests_handled (tool (fst s)) \<noteq> 0"
    using assms(4) r(2) q by (simp add: queries_started_def word_of_nat_eq_0_iff nat_dvd_not_less)
  then show ?thesis using req q assms(3) by (simp add: all_done_def)
qed

section \<open>Who gets an answer\<close>

lemma respond_clients_effect:
  fixes g :: tool_state and cs :: "socket_client list" and qs buf :: string and fin :: bool
  assumes "distinct (map sc_fd cs)"
  defines "asked \<equiv> filter (\<lambda>c. sc_query_str c = qs) cs"
  defines "g' \<equiv> fold (respond_client qs fin buf) cs g"
  shows "fd_written g' = fd_written g @ map (\<lambda>c. (sc_fd c, buf)) asked"
    and "fd_closed g' = fd_closed g @ (if fin then map sc_fd asked else [])"
    and "socket_clients g' = (if fin then filter (\<lambda>c. sc_fd c \<notin> sc_fd ` set asked) (socket_clients g) else socket_clients g)"
  using assms(1) unfolding asked_def g'_def
  by (induction cs arbitrary: g)
    (auto simp: respond_client_def socket_client_close_def socket_client_respond_result_def Let_def strcmp_eq_0 cmp_simps
      intro!: filter_cong)

lemma fds_of_asked:
  assumes "distinct (map sc_fd cs)"
  shows "filter (\<lambda>c. sc_fd c \<notin> sc_fd ` set (filter (\<lambda>c. sc_query_str c = qs) cs)) cs = filter (\<lambda>c. sc_query_str c \<noteq> qs) cs"
  using assms by (intro filter_cong) (auto simp: distinct_map inj_on_def)

lemma respond_result_connections:
  fixes g :: tool_state and qs :: string and r :: "osmo_mslookup_result option"
  assumes "distinct (map sc_fd (socket_clients g))"
  defines "asked \<equiv> filter (\<lambda>c. sc_query_str c = qs) (socket_clients g)" and "fin \<equiv> (case r of None \<Rightarrow> True | Some r \<Rightarrow> ms_last r)"
  shows "fd_written (respond_result L qs r g) = fd_written g @ map (\<lambda>c. (sc_fd c, formatters L (tool_format g) qs r)) asked"
    and "fd_closed (respond_result L qs r g) = fd_closed g @ (if fin then map sc_fd asked else [])"
    and "socket_clients (respond_result L qs r g) = (if fin then filter (\<lambda>c. sc_query_str c \<noteq> qs) (socket_clients g) else socket_clients g)"
proof -
  let ?buf = "formatters L (tool_format g) qs r"
  define g1 where "g1 = fold (respond_client qs fin ?buf) (socket_clients g) (respond_str_stdout ?buf g)"
  have e: "respond_result L qs r g = (if fin then g1\<lparr>requests_handled := requests_handled g1 + 1\<rparr> else g1)"
    by (simp add: respond_result_def Let_def g1_def fin_def respond_str_stdout_def)
  note eff = respond_clients_effect [OF assms(1), of qs fin ?buf "respond_str_stdout ?buf g", folded g1_def]
  show "fd_written (respond_result L qs r g) = fd_written g @ map (\<lambda>c. (sc_fd c, ?buf)) asked"
    and "fd_closed (respond_result L qs r g) = fd_closed g @ (if fin then map sc_fd asked else [])"
    and "socket_clients (respond_result L qs r g) = (if fin then filter (\<lambda>c. sc_query_str c \<noteq> qs) (socket_clients g) else socket_clients g)"
    using eff fds_of_asked [OF assms(1), of qs] by (simp_all add: e asked_def respond_str_stdout_def)
qed

text \<open>
  C40. A query that ends in an at sign disconnects everybody who has not asked anything yet. Let a program on a connection that is still
  idle send a line whose only at sign is its last character, with or without numbers in front of it. The text behind it, under
  which errors are answered, is empty, and so is the query of every idle connection: all idle connections, not only the one
  that sent the line, are sent the formatted error for an empty query, once each, and closed in that order, the others stay and are sent nothing.
\<close>
theorem idle_connections_closed:
  assumes "distinct (map sc_fd (socket_clients (tool (fst s))))" and "c \<in> set (socket_clients (tool (fst s)))" and "sc_query_str c = []"
    and "CHR ''@'' \<notin> set t" and "cstring_ok t" and "set t \<inter> {CHR 0x0D, LF} = {}" and "length t < 1023"
    and "s' = fst (socket_read_cb T c (Inr (t @ ''@'')) s)"
    and "idle = filter (\<lambda>x. sc_query_str x = []) (socket_clients (tool (fst s)))"
  shows "socket_clients (tool (fst s')) = filter (\<lambda>x. sc_query_str x \<noteq> []) (socket_clients (tool (fst s))) \<and>
    fd_written (tool (fst s')) = fd_written (tool (fst s)) @
      map (\<lambda>x. (sc_fd x, formatters (tl_core T) (tool_format (tool (fst s))) [] None)) idle \<and>
    fd_closed (tool (fst s')) = fd_closed (tool (fst s)) @ map sc_fd idle"
proof -
  let ?t = "t @ ''@''" and ?g = "tool (fst s)"
  have tok: "strtok ?t [CHR 0x0D, LF] = Some ?t"
  proof -
    have "dropWhile (\<lambda>x. x \<in> set [CHR 0x0D, LF]) ?t = ?t" using assms(6) by (cases t) auto
    moreover have "takeWhile (\<lambda>x. x \<notin> set [CHR 0x0D, LF]) ?t = ?t" using assms(6) by (auto simp: takeWhile_eq_all_conv)
    ultimately show ?thesis by (simp add: strtok_def Let_def)
  qed
  have dom: "query_domain_str ?t = []" using query_domain_str_at [OF assms(4), of "[]"] by simp
  have fail: "\<exists>txt. start_query_str T ?t s1 = query_failed (tl_core T) txt [] s1" for s1
    using dom by (auto simp: start_query_str_def Let_def strlcpy_def osmo_mslookup_query_init_from_domain_str_def split: sum.split)
  have same: "map (\<lambda>x. if sc_fd x = sc_fd c then c\<lparr>sc_query_str := []\<rparr> else x) (socket_clients ?g) = socket_clients ?g"
    using assms(1-3) by (intro map_idI) (auto simp: distinct_map inj_on_def)
  define s1 where "s1 = on_tool (\<lambda>g. g\<lparr>socket_clients :=
      map (\<lambda>x. if sc_fd x = sc_fd c then c\<lparr>sc_query_str := []\<rparr> else x) (socket_clients g)\<rparr>) s"
  have s1: "socket_clients (tool (fst s1)) = socket_clients ?g" "fd_closed (tool (fst s1)) = fd_closed ?g"
      "fd_written (tool (fst s1)) = fd_written ?g" "tool_format (tool (fst s1)) = tool_format ?g"
    using same by (simp_all add: s1_def on_tool_def)
  obtain e where f: "start_query_str T ?t s1 = query_failed (tl_core T) e [] s1" using fail by blast
  have "fst (socket_read_cb T c (Inr ?t) s) =
      on_tool (\<lambda>g. g\<lparr>tool_stdout := tool_stdout g @ [Out_Text (''query: '' @ ?t @ [LF])]\<rparr>) (query_failed (tl_core T) e [] s1)"
    using assms(3,5,7) tok dom f by (simp add: socket_read_cb_def Let_def cstr_id s1_def strlcpy_def cong: if_cong)
  moreover have d: "distinct (map sc_fd (socket_clients (print_error e (tool (fst s1)))))" using assms(1) s1 by simp
  ultimately show ?thesis using s1 respond_result_connections [OF d, where qs = "[]" and r = None and L = "tl_core T"]
    by (simp add: assms(8,9) on_tool_def query_failed_def tool_respond_err_def)
qed

definition two_idle :: "tool_world lookup_state" where
  "two_idle = on_tool (\<lambda>g. g\<lparr>socket_clients := [\<lparr>sc_fd = 9, sc_query_str = []\<rparr>, \<lparr>sc_fd = 8, sc_query_str = ''gsup.hlr.123456.imsi''\<rparr>,
     \<lparr>sc_fd = 7, sc_query_str = []\<rparr>]\<rparr>) tool_ready"

theorem idle_connections_closed_witness:
  "\<exists>s'. s' = fst (socket_read_cb ref_tool \<lparr>sc_fd = 7, sc_query_str = []\<rparr> (Inr ''1@'') two_idle) \<and>
     map sc_fd (socket_clients (tool (fst s'))) = [8] \<and> fd_closed (tool (fst s')) = [9, 7] \<and>
     fd_written (tool (fst s')) = [(9, TAB # ''ERROR'' @ replicate 6 TAB), (7, TAB # ''ERROR'' @ replicate 6 TAB)]"
proof -
  have i: "socket_clients (tool (fst two_idle)) = [\<lparr>sc_fd = 9, sc_query_str = []\<rparr>,
      \<lparr>sc_fd = 8, sc_query_str = ''gsup.hlr.123456.imsi''\<rparr>, \<lparr>sc_fd = 7, sc_query_str = []\<rparr>]" "fd_closed (tool (fst two_idle)) = []"
      "fd_written (tool (fst two_idle)) = []" "tool_format (tool (fst two_idle)) = FORMAT_CSV"
    by (simp_all add: two_idle_def on_tool_def tool_ready_def respond_str_stdout_def tool_start_def)
  have "formatters (tl_core ref_tool) FORMAT_CSV [] None = TAB # ''ERROR'' @ replicate 6 TAB"
    using ref_strbuf_ok by (simp add: ref_tool_ok formatters_def formatter_csv_def Let_def strbuf_printf_ok)
  then show ?thesis
    using idle_connections_closed [of two_idle "\<lparr>sc_fd = 7, sc_query_str = []\<rparr>" "''1''" _ ref_tool _, OF _ _ _ _ _ _ _ _ refl] i
    by auto
qed

section \<open>Rows of the CSV output\<close>

fun columns :: "string \<Rightarrow> string list" where
  "columns [] = [[]]"
| "columns (c # cs) = (if c = TAB then [] # columns cs else (case columns cs of [] \<Rightarrow> [[c]] | x # xs \<Rightarrow> (c # x) # xs))"

lemma columns_tab: "TAB \<notin> set a \<Longrightarrow> columns (a @ TAB # b) = a # columns b"
  by (induction a) auto

lemma columns_plain: "TAB \<notin> set a \<Longrightarrow> columns a = [a]"
  by (induction a) auto

definition addr_columns :: "osmo_core \<Rightarrow> osmo_sockaddr_str \<Rightarrow> string list" where
  "addr_columns L a = (if osmo_sockaddr_str_is_nonzero L a then [sa_ip a, show_dec (unat (sa_port a))] else [[], []])"

lemma code_name_plain:
  "lib_strings_ok L \<Longrightarrow> TAB \<notin> set (osmo_mslookup_result_code_name L rc) \<and> length (osmo_mslookup_result_code_name L rc) \<le> 9"
  by (cases rc) (simp_all add: osmo_mslookup_result_code_name_def osmo_mslookup_result_code_names_def lib_value_tables)

lemma show_dec_no_tab: "TAB \<notin> set (show_dec n)"
  using show_dec_digits [of n] by (auto simp: list_all_iff is_digit_def octet_val_def)

lemma show_dec_word_length: "length (show_dec (unat (x :: 32 word))) \<le> 10" "length (show_dec (unat (p :: 16 word))) \<le> 10"
  using show_dec_length [of "unat x" 10] unat32_less [of x] show_dec_length [of "unat p" 10] unat16_less [of p] by simp_all

lemma columns_pair: "TAB \<notin> set a \<Longrightarrow> columns (a @ TAB # show_dec n @ TAB # b) = a # show_dec n # columns b"
  by (simp add: columns_tab show_dec_no_tab)

lemma addr_part:
  assumes "TAB \<notin> set (sa_ip a)"
  shows "\<exists>x. (if osmo_sockaddr_str_is_nonzero L a then TAB # sa_ip a @ TAB # show_dec (unat (sa_port a)) else [TAB, TAB]) = TAB # x \<and>
    (\<forall>b. columns (x @ TAB # b) = addr_columns L a @ columns b) \<and> columns x = addr_columns L a"
  using assms by (simp add: addr_columns_def columns_pair columns_tab columns_plain show_dec_no_tab)

lemma strbuf_parts:
  assumes "lib_strbuf_ok L" and "length (sb_out sb) + length (concat ss) < sb_size sb"
  shows "sb_out (foldl (strbuf_printf L) sb ss) = sb_out sb @ concat ss"
  using assms(2) by (induction ss arbitrary: sb) (simp_all add: strbuf_printf_ok [OF assms(1)])

text \<open>
  The rows of the CSV output: for query strings and addresses without tabs and of the lengths that occur, a
  row with a result has the eight columns of the header, and so has an error. A row without a result (not found, or no better
  result) has nine.
\<close>
theorem csv_row_columns:
  assumes L: "lib_strbuf_ok L" "lib_strings_ok L" and qs: "length qs \<le> 127" "TAB \<notin> set qs"
    and ip: "length (sa_ip (host_v4 r)) \<le> 45" "TAB \<notin> set (sa_ip (host_v4 r))" "length (sa_ip (host_v6 r)) \<le> 45" "TAB \<notin> set (sa_ip (host_v6 r))"
  shows "columns (formatter_csv L 1024 qs (Some r)) =
      [qs, osmo_mslookup_result_code_name L (ms_rc r), if ms_last r then ''last'' else ''not-last'', show_dec (unat (age r))] @
      (if ms_rc r = OSMO_MSLOOKUP_RC_RESULT then addr_columns L (host_v4 r) @ addr_columns L (host_v6 r) else replicate 5 [])"
    and "columns (formatter_csv L 1024 qs None) = [qs, ''ERROR''] @ replicate 6 []"
    and "length (columns CSV_HEADERS) = 8"
proof -
  note len = code_name_plain [OF L(2), of "ms_rc r"] show_dec_word_length(1) [of "age r"] show_dec_word_length(2) [of "sa_port (host_v4 r)"]
    show_dec_word_length(2) [of "sa_port (host_v6 r)"]
  let ?last = "if ms_last r then ''last'' else ''not-last''"
  let ?head = "qs @ TAB # osmo_mslookup_result_code_name L (ms_rc r) @ TAB # ?last @ TAB # show_dec (unat (age r))"
  let ?addr = "\<lambda>a. if osmo_sockaddr_str_is_nonzero L a then TAB # sa_ip a @ TAB # show_dec (unat (sa_port a)) else [TAB, TAB]"
  have head: "columns (?head @ TAB # b) = [qs, osmo_mslookup_result_code_name L (ms_rc r), ?last, show_dec (unat (age r))] @ columns b" for b
    using qs len by (simp add: columns_tab show_dec_no_tab)
  have row: "formatter_csv L 1024 qs (Some r) = ?head @
      (if ms_rc r = OSMO_MSLOOKUP_RC_RESULT then ?addr (host_v4 r) @ ?addr (host_v6 r) else replicate 5 TAB)"
  proof -
    let ?parts = "[qs, TAB # osmo_mslookup_result_code_name L (ms_rc r), TAB # ?last, TAB # show_dec (unat (age r))] @
      (if ms_rc r = OSMO_MSLOOKUP_RC_RESULT then [?addr (host_v4 r), ?addr (host_v6 r)] else [replicate 5 TAB])"
    have "formatter_csv L 1024 qs (Some r) = sb_out (foldl (strbuf_printf L) (strbuf_new 1024) ?parts)"
      by (simp add: formatter_csv_def Let_def)
    moreover have "length (concat ?parts) < 1024" using qs len ip code_name_plain [OF L(2), of OSMO_MSLOOKUP_RC_RESULT] by simp
    ultimately show ?thesis using strbuf_parts [OF L(1), of "strbuf_new 1024" ?parts] by simp
  qed
  show "columns (formatter_csv L 1024 qs (Some r)) =
      [qs, osmo_mslookup_result_code_name L (ms_rc r), ?last, show_dec (unat (age r))] @
      (if ms_rc r = OSMO_MSLOOKUP_RC_RESULT then addr_columns L (host_v4 r) @ addr_columns L (host_v6 r) else replicate 5 [])"
  proof (cases "ms_rc r = OSMO_MSLOOKUP_RC_RESULT")
    case True
    obtain x where x: "?addr (host_v4 r) = TAB # x" "\<And>b. columns (x @ TAB # b) = addr_columns L (host_v4 r) @ columns b"
      using addr_part [OF ip(2)] by metis
    obtain y where y: "?addr (host_v6 r) = TAB # y" "columns y = addr_columns L (host_v6 r)"
      using addr_part [OF ip(4)] by metis
    have "columns (?head @ ?addr (host_v4 r) @ ?addr (host_v6 r)) =
        [qs, osmo_mslookup_result_code_name L (ms_rc r), ?last, show_dec (unat (age r))] @ addr_columns L (host_v4 r) @ addr_columns L (host_v6 r)"
      unfolding x(1) y(1) append_Cons head x(2) y(2) ..
    then show ?thesis unfolding row if_P [OF True] .
  next
    case False
    have "replicate 5 TAB = TAB # [TAB, TAB, TAB, TAB]" "replicate 5 ([] :: string) = [[], [], [], [], []]" by (simp_all add: numeral_eq_Suc)
    then show ?thesis using False head [of "[TAB, TAB, TAB, TAB]"] by (simp add: row)
  qed
  show "columns (formatter_csv L 1024 qs None) = [qs, ''ERROR''] @ replicate 6 []"
    using qs columns_tab [OF qs(2)] by (simp add: formatter_csv_def Let_def strbuf_printf_ok [OF L(1)] numeral_eq_Suc)
  show "length (columns CSV_HEADERS) = 8" by (simp add: CSV_HEADERS_def)
qed

end
