(* ===== verification/Ctrl.thy ===== *)
theory Ctrl
  imports Db_Auc Mdns
begin

text \<open>
  The control interface: \<open>src/ctrl.c\<close>. A command names a subscriber by a selector (\<open>by-imsi-\<close>, \<open>by-msisdn-\<close> or \<open>by-id-\<close>) and reads its data or
  reads and sets its network access mode. The library that carries the commands (\<open>ctrl_cmd_reply_printf\<close>) and the
  texts of libosmocore for algorithms and octets are the parameter \<open>ctrl_lib\<close>; a reply that was never set is None.
\<close>

section \<open>Data\<close>

record ctrl_cmd =
  cmd_node :: string
  cmd_value :: string
  cmd_reply :: "string option"

datatype ctrl_result = CTRL_CMD_ERROR | CTRL_CMD_REPLY

record text_lib =
  osmo_auth_alg_name :: "nat \<Rightarrow> string"
  osmo_hexdump_nospc :: "octets \<Rightarrow> string"

record ctrl_lib = text_lib +
  reply_printf :: "string option \<Rightarrow> string \<Rightarrow> string option"

datatype ctrl_node = CTRL_NODE_ROOT | CTRL_NODE_SUBSCR | CTRL_NODE_SUBSCR_BY

definition SEL_BY_IMSI :: string where "SEL_BY_IMSI = ''by-imsi-''"
definition SEL_BY_MSISDN :: string where "SEL_BY_MSISDN = ''by-msisdn-''"
definition SEL_BY_ID :: string where "SEL_BY_ID = ''by-id-''"

definition hex_digit :: "nat \<Rightarrow> char" where
  "hex_digit n = char_of (if n < 10 then 48 + n else 87 + n)"

fun show_hex :: "nat \<Rightarrow> string" where
  \<comment> \<open>the hexadecimal conversion of printf\<close>
  "show_hex n = (if n < 16 then [hex_digit n] else show_hex (n div 16) @ [hex_digit (n mod 16)])"

declare show_hex.simps [simp del]

definition show_u32 :: "int \<Rightarrow> string" where "show_u32 i = show_dec (nat (i mod 2 ^ 32))"
definition show_u64 :: "int \<Rightarrow> string" where "show_u64 i = show_dec (nat (i mod 2 ^ 64))"

definition show_08x :: "int \<Rightarrow> string" where
  "show_08x i = (let s = show_hex (nat (i mod 2 ^ 32)) in replicate (8 - length s) CHR ''0'' @ s)"

section \<open>Finding the subscriber\<close>

definition startswith :: "string \<Rightarrow> string \<Rightarrow> bool" where
  "startswith str start \<longleftrightarrow> strncmp str start (length start) = 0"

definition get_subscriber0 :: "osmo_core \<Rightarrow> sqlite_env \<Rightarrow> string \<Rightarrow> hlr_db \<Rightarrow> int + hlr_subscriber" where
  \<comment> \<open>the function \<open>_get_subscriber\<close>\<close>
  "get_subscriber0 L E by_selector db =
     (if startswith by_selector SEL_BY_IMSI then
        let val = drop (length SEL_BY_IMSI) by_selector
        in if \<not> osmo_imsi_str_valid L val then Inl (- EINVAL) else db_subscr_get_by_imsi E val db
      else if startswith by_selector SEL_BY_MSISDN then
        let val = drop (length SEL_BY_MSISDN) by_selector
        in if \<not> osmo_msisdn_str_valid L val then Inl (- EINVAL) else db_subscr_get_by_msisdn E val db
      else if startswith by_selector SEL_BY_ID then
        let val = drop (length SEL_BY_ID) by_selector
        in if val \<noteq> [] \<and> hd val = CHR ''+'' then Inl (- EINVAL)
           else (case strtoll val of
                   (sid, endptr, erange) \<Rightarrow>
                     if erange \<or> endptr \<noteq> [] then Inl (- EINVAL) else db_subscr_get_by_id E sid db)
      else Inl (- ENOTSUP))"

definition get_subscriber :: "osmo_core \<Rightarrow> sqlite_env \<Rightarrow> string \<Rightarrow> ctrl_cmd \<Rightarrow> hlr_db \<Rightarrow> ctrl_cmd + hlr_subscriber" where
  \<comment> \<open>on failure the command with its reply\<close>
  "get_subscriber L E by_selector cmd db =
     (case get_subscriber0 L E by_selector db of
        Inr subscr \<Rightarrow> Inr subscr
      | Inl rc \<Rightarrow>
          Inl (cmd\<lparr>cmd_reply := Some
            (if rc = - ENOTSUP then ''Not a known subscriber 'by-xxx-' selector.''
             else if rc = - EINVAL then ''Invalid value part of 'by-xxx-value' selector.''
             else if rc = - ENOENT then ''No such subscriber.''
             else ''An unknown error has occurred during get_subscriber().'')\<rparr>))"

definition get_subscriber_imsi :: "osmo_core \<Rightarrow> sqlite_env \<Rightarrow> string \<Rightarrow> ctrl_cmd \<Rightarrow> hlr_db \<Rightarrow> ctrl_cmd + string" where
  "get_subscriber_imsi L E by_selector cmd db =
     (if startswith by_selector SEL_BY_IMSI then Inr (drop (length SEL_BY_IMSI) by_selector)
      else (case get_subscriber L E by_selector cmd db of Inl cmd \<Rightarrow> Inl cmd | Inr subscr \<Rightarrow> Inr (sub_imsi subscr)))"

section \<open>Replies\<close>

definition ctrl_cmd_reply_printf :: "ctrl_lib \<Rightarrow> ctrl_cmd \<Rightarrow> string \<Rightarrow> ctrl_cmd" where
  "ctrl_cmd_reply_printf C cmd s = cmd\<lparr>cmd_reply := reply_printf C (cmd_reply cmd) s\<rparr>"

definition ARG_S :: "string \<Rightarrow> string \<Rightarrow> string" where
  \<comment> \<open>\<open>FMT_S\<close> with its arguments\<close>
  "ARG_S name val = (if val \<noteq> [] then [CHR 0x0A] @ name @ [CHR 0x09] @ val else [])"

definition ARG_BOOL :: "string \<Rightarrow> bool \<Rightarrow> string" where
  "ARG_BOOL name val = [CHR 0x0A] @ name @ [CHR 0x09] @ (if val then ''1'' else ''0'')"

definition arg_line :: "string \<Rightarrow> string \<Rightarrow> string" where
  \<comment> \<open>a line of the format string that is always there\<close>
  "arg_line name val = [CHR 0x0A] @ name @ [CHR 0x09] @ val"

definition print_subscr_info :: "ctrl_lib \<Rightarrow> ctrl_cmd \<Rightarrow> hlr_subscriber \<Rightarrow> ctrl_cmd" where
  "print_subscr_info C cmd subscr =
     ctrl_cmd_reply_printf C cmd (
       arg_line ''id'' (show_u64 (sub_id subscr)) @
       ARG_S ''imsi'' (sub_imsi subscr) @
       ARG_S ''msisdn'' (sub_msisdn subscr) @
       ARG_BOOL ''nam_cs'' (sub_nam_cs subscr) @
       ARG_BOOL ''nam_ps'' (sub_nam_ps subscr) @
       ARG_S ''vlr_number'' (sub_vlr_number subscr) @
       ARG_S ''sgsn_number'' (sub_sgsn_number subscr) @
       ARG_S ''sgsn_address'' (sub_sgsn_address subscr) @
       ARG_BOOL ''ms_purged_cs'' (sub_ms_purged_cs subscr) @
       ARG_BOOL ''ms_purged_ps'' (sub_ms_purged_ps subscr) @
       arg_line ''periodic_lu_timer'' (show_u32 (sub_periodic_lu_timer subscr)) @
       arg_line ''periodic_rau_tau_timer'' (show_u32 (sub_periodic_rau_tau_timer subscr)) @
       arg_line ''lmsi'' (show_08x (sub_lmsi subscr)))"

definition print_subscr_info_aud2g :: "ctrl_lib \<Rightarrow> ctrl_cmd \<Rightarrow> osmo_sub_auth_data \<Rightarrow> ctrl_cmd" where
  "print_subscr_info_aud2g C cmd aud =
     (if aud_algo aud = OSMO_AUTH_ALG_NONE then cmd
      else ctrl_cmd_reply_printf C cmd (
        arg_line ''aud2g.algo'' (osmo_auth_alg_name C (aud_algo aud)) @
        arg_line ''aud2g.ki'' (osmo_hexdump_nospc C (aud_ki aud))))"

definition print_subscr_info_aud3g :: "ctrl_lib \<Rightarrow> ctrl_cmd \<Rightarrow> osmo_sub_auth_data \<Rightarrow> ctrl_cmd" where
  "print_subscr_info_aud3g C cmd aud =
     (if aud_algo aud = OSMO_AUTH_ALG_NONE then cmd
      else
        let cmd = ctrl_cmd_reply_printf C cmd (
              arg_line ''aud3g.algo'' (osmo_auth_alg_name C (aud_algo aud)) @
              arg_line ''aud3g.k'' (osmo_hexdump_nospc C (aud_k aud)))
        in ctrl_cmd_reply_printf C cmd (
             arg_line (''aud3g.'' @ (if aud_opc_is_op aud then ''op'' else ''opc'')) (osmo_hexdump_nospc C (aud_opc aud)) @
             arg_line ''aud3g.ind_bitlen'' (show_dec (aud_ind_bitlen aud)) @
             arg_line ''aud3g.sqn'' (show_dec (unat (aud_sqn aud)))))"

section \<open>Commands\<close>

definition get_subscr_info :: "osmo_core \<Rightarrow> ctrl_lib \<Rightarrow> sqlite_env \<Rightarrow> ctrl_cmd \<Rightarrow> hlr_db \<Rightarrow> ctrl_cmd \<times> ctrl_result" where
  "get_subscr_info L C E cmd db =
     (case get_subscriber L E (cmd_node cmd) cmd db of
        Inl cmd \<Rightarrow> (cmd, CTRL_CMD_ERROR)
      | Inr subscr \<Rightarrow> (print_subscr_info C cmd subscr, CTRL_CMD_REPLY))"

definition auth_data_or_none ::
  "osmo_core \<Rightarrow> sqlite_env \<Rightarrow> string \<Rightarrow> hlr_db \<Rightarrow> (osmo_sub_auth_data \<times> osmo_sub_auth_data) option" where
  \<comment> \<open>the switch on the return code of \<open>db_get_auth_data\<close>; None is an error\<close>
  "auth_data_or_none L E imsi db =
     (case db_get_auth_data L E imsi db of
        (rc, aud2g, aud3g, _) \<Rightarrow>
          if rc = 0 then Some (aud2g, aud3g)
          else if rc = - ENOENT \<or> rc = - ENOKEY then
            Some (aud2g\<lparr>aud_algo := OSMO_AUTH_ALG_NONE\<rparr>, aud3g\<lparr>aud_algo := OSMO_AUTH_ALG_NONE\<rparr>)
          else None)"

definition get_subscr_info_aud :: "osmo_core \<Rightarrow> ctrl_lib \<Rightarrow> sqlite_env \<Rightarrow> ctrl_cmd \<Rightarrow> hlr_db \<Rightarrow> ctrl_cmd \<times> ctrl_result" where
  "get_subscr_info_aud L C E cmd db =
     (case get_subscriber_imsi L E (cmd_node cmd) cmd db of
        Inl cmd \<Rightarrow> (cmd, CTRL_CMD_ERROR)
      | Inr imsi \<Rightarrow>
          (case auth_data_or_none L E imsi db of
             None \<Rightarrow> (cmd\<lparr>cmd_reply := Some ''Error retrieving authentication data.''\<rparr>, CTRL_CMD_ERROR)
           | Some (aud2g, aud3g) \<Rightarrow>
               (print_subscr_info_aud3g C (print_subscr_info_aud2g C cmd aud2g) aud3g, CTRL_CMD_REPLY)))"

definition get_subscr_info_all :: "osmo_core \<Rightarrow> ctrl_lib \<Rightarrow> sqlite_env \<Rightarrow> ctrl_cmd \<Rightarrow> hlr_db \<Rightarrow> ctrl_cmd \<times> ctrl_result" where
  "get_subscr_info_all L C E cmd db =
     (case get_subscriber L E (cmd_node cmd) cmd db of
        Inl cmd \<Rightarrow> (cmd, CTRL_CMD_ERROR)
      | Inr subscr \<Rightarrow>
          (case auth_data_or_none L E (sub_imsi subscr) db of
             None \<Rightarrow> (cmd\<lparr>cmd_reply := Some ''Error retrieving authentication data.''\<rparr>, CTRL_CMD_ERROR)
           | Some (aud2g, aud3g) \<Rightarrow>
               (print_subscr_info_aud3g C (print_subscr_info_aud2g C (print_subscr_info C cmd subscr) aud2g) aud3g,
                CTRL_CMD_REPLY)))"

definition verify_subscr_cs_ps_enabled :: "string \<Rightarrow> int" where
  "verify_subscr_cs_ps_enabled value =
     (if value = [] \<or> strcmp value ''0'' \<noteq> 0 \<and> strcmp value ''1'' \<noteq> 0 then 1 else 0)"

definition get_subscr_cs_ps_enabled ::
  "osmo_core \<Rightarrow> sqlite_env \<Rightarrow> bool \<Rightarrow> ctrl_cmd \<Rightarrow> hlr_db \<Rightarrow> ctrl_cmd \<times> ctrl_result" where
  "get_subscr_cs_ps_enabled L E is_ps cmd db =
     (case get_subscriber L E (cmd_node cmd) cmd db of
        Inl cmd \<Rightarrow> (cmd, CTRL_CMD_ERROR)
      | Inr subscr \<Rightarrow>
          (cmd\<lparr>cmd_reply := Some (if (if is_ps then sub_nam_ps subscr else sub_nam_cs subscr) then ''1'' else ''0'')\<rparr>,
           CTRL_CMD_REPLY))"

definition set_subscr_cs_ps_enabled ::
  "osmo_core \<Rightarrow> sqlite_env \<Rightarrow> bool \<Rightarrow> ctrl_cmd \<Rightarrow> hlr_db \<Rightarrow> hlr_db \<times> ctrl_cmd \<times> ctrl_result" where
  "set_subscr_cs_ps_enabled L E is_ps cmd db =
     (case get_subscriber_imsi L E (cmd_node cmd) cmd db of
        Inl cmd \<Rightarrow> (db, cmd, CTRL_CMD_ERROR)
      | Inr imsi \<Rightarrow>
          (case db_subscr_nam E imsi (strcmp (cmd_value cmd) ''1'' = 0) is_ps db of
             (db, rc) \<Rightarrow>
               if rc \<noteq> 0 then (db, cmd, CTRL_CMD_ERROR) else (db, cmd\<lparr>cmd_reply := Some ''OK''\<rparr>, CTRL_CMD_REPLY)))"

definition verify_subscr_ps_enabled :: "string \<Rightarrow> int" where
  "verify_subscr_ps_enabled = verify_subscr_cs_ps_enabled"

definition get_subscr_ps_enabled :: "osmo_core \<Rightarrow> sqlite_env \<Rightarrow> ctrl_cmd \<Rightarrow> hlr_db \<Rightarrow> ctrl_cmd \<times> ctrl_result" where
  "get_subscr_ps_enabled L E = get_subscr_cs_ps_enabled L E True"

definition set_subscr_ps_enabled :: "osmo_core \<Rightarrow> sqlite_env \<Rightarrow> ctrl_cmd \<Rightarrow> hlr_db \<Rightarrow> hlr_db \<times> ctrl_cmd \<times> ctrl_result" where
  "set_subscr_ps_enabled L E = set_subscr_cs_ps_enabled L E True"

definition verify_subscr_cs_enabled :: "string \<Rightarrow> int" where
  "verify_subscr_cs_enabled = verify_subscr_cs_ps_enabled"

definition get_subscr_cs_enabled :: "osmo_core \<Rightarrow> sqlite_env \<Rightarrow> ctrl_cmd \<Rightarrow> hlr_db \<Rightarrow> ctrl_cmd \<times> ctrl_result" where
  "get_subscr_cs_enabled L E = get_subscr_cs_ps_enabled L E False"

definition set_subscr_cs_enabled :: "osmo_core \<Rightarrow> sqlite_env \<Rightarrow> ctrl_cmd \<Rightarrow> hlr_db \<Rightarrow> hlr_db \<times> ctrl_cmd \<times> ctrl_result" where
  "set_subscr_cs_enabled L E = set_subscr_cs_ps_enabled L E False"

definition hlr_ctrl_node_lookup :: "string \<Rightarrow> ctrl_node \<Rightarrow> string option \<Rightarrow> ctrl_node \<times> string option \<times> nat" where
  \<comment> \<open>the type and data of the node afterwards, and whether the token was taken\<close>
  "hlr_ctrl_node_lookup tok node_type node_data =
     (case node_type of
        CTRL_NODE_ROOT \<Rightarrow>
          if strcmp tok ''subscriber'' \<noteq> 0 then (node_type, node_data, 0) else (CTRL_NODE_SUBSCR, None, 1)
      | CTRL_NODE_SUBSCR \<Rightarrow>
          if \<not> startswith tok ''by-'' then (node_type, node_data, 0) else (CTRL_NODE_SUBSCR_BY, Some tok, 1)
      | CTRL_NODE_SUBSCR_BY \<Rightarrow> (node_type, node_data, 0))"

section \<open>Lemmas\<close>

lemma startswith_iff: "startswith s p \<longleftrightarrow> prefix p s"
  by (simp add: startswith_def cmp_simps)

text \<open>How a row is selected: the three kinds of selectors, by the keys of the table.\<close>

definition selects :: "osmo_core \<Rightarrow> string \<Rightarrow> subscriber_row \<Rightarrow> bool" where
  "selects L sel r \<longleftrightarrow>
     (if startswith sel SEL_BY_IMSI then osmo_imsi_str_valid L (drop (length SEL_BY_IMSI) sel) \<and> row_imsi r = drop (length SEL_BY_IMSI) sel
      else if startswith sel SEL_BY_MSISDN then
        osmo_msisdn_str_valid L (drop (length SEL_BY_MSISDN) sel) \<and> row_msisdn r = Some (drop (length SEL_BY_MSISDN) sel)
      else if startswith sel SEL_BY_ID then row_id r = fst (strtoll (drop (length SEL_BY_ID) sel))
      else False)"

lemma get_subscriber0_find:
  assumes "env_ok E" and "get_subscriber0 L E sel db = Inr s"
  obtains r where "List.find (selects L sel) (tbl_subscriber db) = Some r" and "s = row_to_subscriber E r"
proof -
  have "\<exists>r. List.find (selects L sel) (tbl_subscriber db) = Some r \<and> s = row_to_subscriber E r"
    using assms unfolding selects_def [abs_def] get_subscriber0_def
    by (auto simp: Let_def db_subscr_get_by_imsi_def db_subscr_get_by_msisdn_def db_subscr_get_by_id_def db_sel_def prod.case_eq_if
        split: if_splits option.splits)
  then show ?thesis using that by blast
qed

lemma get_subscriber0_find_iff:
  assumes "env_ok E" and "get_subscriber0 L E sel db = Inr s"
  shows "get_subscriber0 L E sel db' = (case List.find (selects L sel) (tbl_subscriber db') of
    None \<Rightarrow> Inl (- ENOENT) | Some r \<Rightarrow> Inr (row_to_subscriber E r))"
  using assms unfolding selects_def [abs_def] get_subscriber0_def
  by (auto simp: Let_def db_subscr_get_by_imsi_def db_subscr_get_by_msisdn_def db_subscr_get_by_id_def db_sel_def prod.case_eq_if
      split: if_splits option.splits)

lemma find_update:
  assumes "\<And>r. P (f r) = P r"
  shows "List.find P (map (\<lambda>r. if Q r then f r else r) t) = map_option (\<lambda>r. if Q r then f r else r) (List.find P t)"
  by (induction t) (auto simp: assms)

definition set_nam :: "bool \<Rightarrow> bool \<Rightarrow> subscriber_row \<Rightarrow> subscriber_row" where
  "set_nam is_ps v r = (if is_ps then r\<lparr>row_nam_ps := v\<rparr> else r\<lparr>row_nam_cs := v\<rparr>)"

lemma set_nam_keys [simp]:
  "row_imsi (set_nam is_ps v r) = row_imsi r" "row_msisdn (set_nam is_ps v r) = row_msisdn r" "row_id (set_nam is_ps v r) = row_id r"
  "selects L sel (set_nam is_ps v r) = selects L sel r"
  by (simp_all add: set_nam_def selects_def)

lemma nam_exec:
  assumes "env_ok E" and "db_wf db" and "r \<in> set (tbl_subscriber db)"
  shows "db_subscr_nam E (row_imsi r) v is_ps db =
    (db\<lparr>tbl_subscriber := map (\<lambda>x. if row_imsi x = row_imsi r then set_nam is_ps v x else x) (tbl_subscriber db)\<rparr>, 0)"
proof -
  have "subscribers db (row_imsi r) \<noteq> None" using subscribers_unique [OF assms(2,3)] by simp
  then have "snd (db_subscr_nam E (row_imsi r) v is_ps db) = 0" using nam_spec [OF assms(2,1)] by simp
  moreover have "fst (db_subscr_nam E (row_imsi r) v is_ps db) =
      db\<lparr>tbl_subscriber := map (\<lambda>x. if row_imsi x = row_imsi r then set_nam is_ps v x else x) (tbl_subscriber db)\<rparr>"
    using assms(1) by (auto simp: db_subscr_nam_def Let_def subscriber_step_def sql_upd_nam_ps_by_imsi_def
        sql_upd_nam_cs_by_imsi_def sql_update_def set_nam_def)
  ultimately show ?thesis by (simp add: prod_eq_iff)
qed

lemma stored_imsi:
  assumes "lib_strings_ok L" and "imsis_ok L db" and "r \<in> set (tbl_subscriber db)"
  shows "sub_imsi (row_to_subscriber E r) = row_imsi r"
proof -
  have "osmo_imsi_str_valid L (row_imsi r)" using assms(2,3) by (simp add: imsis_ok_def list_all_iff)
  then have "length (row_imsi r) \<le> 15" using assms(1) unfolding lib_strings_ok_def by blast
  then show ?thesis by (simp add: row_to_subscriber_def)
qed

lemma get_imsi_ok:
  assumes "env_ok E" and "lib_strings_ok L" and "imsis_ok L db" and "get_subscriber0 L E sel db = Inr s"
    and "List.find (selects L sel) (tbl_subscriber db) = Some r" and "s = row_to_subscriber E r"
  shows "get_subscriber_imsi L E sel cmd db = Inr (row_imsi r)"
proof -
  have r: "r \<in> set (tbl_subscriber db)" "selects L sel r" using assms(5) by (auto dest: find_SomeD)
  show ?thesis
  proof (cases "startswith sel SEL_BY_IMSI")
    case True
    then show ?thesis using r(2) by (simp add: get_subscriber_imsi_def selects_def)
  next
    case False
    then show ?thesis using assms(4,6) stored_imsi [OF assms(2,3) r(1), of E]
      by (simp add: get_subscriber_imsi_def get_subscriber_def)
  qed
qed

text \<open>
  C18. What is set over the control interface is what is read. When a selector finds a subscriber, setting one of the two access
  modes to a value that passes the check is answered with OK, changes that mode of that subscriber and nothing else in the
  table of subscribers, and reading the mode with the same selector afterwards gives the value back; a value other than 0 and 1 does not pass.
\<close>

theorem ctrl_enabled_roundtrip:
  assumes "db_wf db" and "env_ok E" and "lib_strings_ok L" and "imsis_ok L db"
    and "get_subscriber0 L E (cmd_node cmd) db = Inr s"
  shows "if verify_subscr_cs_ps_enabled (cmd_value cmd) = 0
    then \<exists>db' r. set_subscr_cs_ps_enabled L E is_ps cmd db = (db', cmd\<lparr>cmd_reply := Some ''OK''\<rparr>, CTRL_CMD_REPLY) \<and>
      subscribers db (sub_imsi s) = Some r \<and>
      subscribers db' = (subscribers db)(sub_imsi s \<mapsto> set_nam is_ps (cmd_value cmd = ''1'') r) \<and>
      get_subscr_cs_ps_enabled L E is_ps cmd db' = (cmd\<lparr>cmd_reply := Some (cmd_value cmd)\<rparr>, CTRL_CMD_REPLY)
    else cmd_value cmd \<notin> {''0'', ''1''}"
proof (cases "verify_subscr_cs_ps_enabled (cmd_value cmd) = 0")
  case True
  then have v: "cmd_value cmd = ''0'' \<or> cmd_value cmd = ''1''"
    by (auto simp: verify_subscr_cs_ps_enabled_def strcmp_eq_0 split: if_splits)
  let ?sel = "cmd_node cmd" and ?v = "cmd_value cmd = ''1''"
  obtain r where r: "List.find (selects L ?sel) (tbl_subscriber db) = Some r" "s = row_to_subscriber E r"
    using get_subscriber0_find [OF assms(2,5)] by blast
  have mem: "r \<in> set (tbl_subscriber db)" using r(1) by (auto dest: find_SomeD)
  have imsi: "sub_imsi s = row_imsi r" unfolding r(2) by (rule stored_imsi [OF assms(3,4) mem])
  let ?db = "db\<lparr>tbl_subscriber := map (\<lambda>x. if row_imsi x = row_imsi r then set_nam is_ps ?v x else x) (tbl_subscriber db)\<rparr>"
  have exec: "db_subscr_nam E (row_imsi r) ?v is_ps db = (?db, 0)" by (rule nam_exec [OF assms(2,1) mem])
  have "set_subscr_cs_ps_enabled L E is_ps cmd db = (?db, cmd\<lparr>cmd_reply := Some ''OK''\<rparr>, CTRL_CMD_REPLY)"
    using get_imsi_ok [OF assms(2-5) r] exec by (simp add: set_subscr_cs_ps_enabled_def strcmp_eq_0)
  moreover have "subscribers db (sub_imsi s) = Some r" unfolding imsi by (rule subscribers_unique [OF assms(1) mem])
  moreover have "subscribers ?db = (subscribers db)(sub_imsi s \<mapsto> set_nam is_ps ?v r)"
    using nam_spec [OF assms(1,2), of "row_imsi r" ?v is_ps] exec subscribers_unique [OF assms(1) mem]
    by (auto simp: imsi amend_def fun_eq_iff set_nam_def)
  moreover have "get_subscriber0 L E ?sel ?db = Inr (row_to_subscriber E (set_nam is_ps ?v r))"
    using get_subscriber0_find_iff [OF assms(2,5), of ?db] r(1)
    by (simp add: find_update [of "selects L ?sel"])
  then have "get_subscr_cs_ps_enabled L E is_ps cmd ?db = (cmd\<lparr>cmd_reply := Some (cmd_value cmd)\<rparr>, CTRL_CMD_REPLY)"
    using v by (auto simp: get_subscr_cs_ps_enabled_def get_subscriber_def row_to_subscriber_def set_nam_def)
  ultimately show ?thesis using True by auto
qed (auto simp: verify_subscr_cs_ps_enabled_def)

lemma db_one_imsis: "imsis_ok ref_core db_one"
  by (simp add: imsis_ok_def db_one_def new_subscriber_def ref_core_def is_digit_def octet_val_def)

theorem ctrl_enabled_roundtrip_witness:
  "\<exists>db'. set_subscr_cs_ps_enabled ref_core ref_env True \<lparr>cmd_node = ''by-msisdn-1001'', cmd_value = ''0'', cmd_reply = None\<rparr> db_one =
     (db', \<lparr>cmd_node = ''by-msisdn-1001'', cmd_value = ''0'', cmd_reply = Some ''OK''\<rparr>, CTRL_CMD_REPLY) \<and>
   snd (get_subscr_cs_ps_enabled ref_core ref_env True \<lparr>cmd_node = ''by-msisdn-1001'', cmd_value = ''0'', cmd_reply = None\<rparr> db') = CTRL_CMD_REPLY"
proof -
  let ?cmd = "\<lparr>cmd_node = ''by-msisdn-1001'', cmd_value = ''0'', cmd_reply = None\<rparr>"
  have "\<exists>s. get_subscriber0 ref_core ref_env (cmd_node ?cmd) db_one = Inr s"
    by (simp add: get_subscriber0_def startswith_iff SEL_BY_IMSI_def SEL_BY_MSISDN_def Let_def ref_core_def is_digit_def octet_val_def
        db_subscr_get_by_msisdn_def db_sel_def ref_env_def db_one_def new_subscriber_def)
  then obtain s where "get_subscriber0 ref_core ref_env (cmd_node ?cmd) db_one = Inr s" by blast
  from ctrl_enabled_roundtrip [OF db_one_facts(1) ref_env_ok ref_strings_ok db_one_imsis this, of True]
  show ?thesis by (auto simp: verify_subscr_cs_ps_enabled_def)
qed

end
