(* ===== verification/Hlr_Vty_Subscr.thy ===== *)
theory Hlr_Vty_Subscr
  imports Hlr_Requests Ctrl
begin

text \<open>
  The commands of the operator for single subscribers: \<open>src/hlr_vty_subscr.c\<close>. The VTY library parses a command line and hands the
  arguments to a function; each function here takes these arguments and the state of the HLR and gives the new state, the text
  printed and the result. A command is a value of the type \<open>subscr_cmd\<close>. The line break of the terminal, the check digit of
  libosmocore and its texts are the parameter \<open>vty_lib\<close>. Dates are printed as \<open>gmtime_r\<close> and
  \<open>strftime\<close> of the C library do for years that fit an \<open>int\<close>.
\<close>

section \<open>Data\<close>

datatype cmd_result = CMD_SUCCESS | CMD_WARNING

record vty_lib = text_lib +
  VTY_NEWLINE :: string
  osmo_luhn :: "string \<Rightarrow> nat \<Rightarrow> int"

type_synonym 'a command = "'a hlr_world_scheme \<Rightarrow> ('a hlr_world_scheme \<times> string \<times> cmd_result) exec"

section \<open>Printing\<close>

definition two_digits :: "nat \<Rightarrow> string" where
  "two_digits n = [char_of (48 + n div 10 mod 10), char_of (48 + n mod 10)]"

definition gmtime_date :: "int \<Rightarrow> int \<times> int \<times> int" where
  \<comment> \<open>year, month and day of a number of seconds since 1970; years are counted from March\<close>
  "gmtime_date t =
     (let z = t div 86400 + 719468;
          era = z div 146097;
          doe = z mod 146097;
          yoe = (doe - doe div 1460 + doe div 36524 - doe div 146096) div 365;
          doy = doe - (365 * yoe + yoe div 4 - yoe div 100);
          mp = (5 * doy + 2) div 153;
          day = doy - (153 * mp + 2) div 5 + 1;
          month = (if mp < 10 then mp + 3 else mp - 9)
      in (yoe + era * 400 + (if month \<le> 2 then 1 else 0), month, day))"

definition get_datestr :: "int \<Rightarrow> string" where
  "get_datestr t =
     (case gmtime_date t of
        (year, month, day) \<Rightarrow>
          let secs = nat (t mod 86400)
          in show_dec (nat year) @ ''-'' @ two_digits (nat month) @ ''-'' @ two_digits (nat day) @ ''T'' @
             two_digits (secs div 3600) @ '':'' @ two_digits (secs div 60 mod 60) @ '':'' @ two_digits (secs mod 60) @ ''+00:00'')"

definition show_int :: "int \<Rightarrow> string" where
  "show_int i = (if i < 0 then ''-'' @ show_dec (nat (- i)) else show_dec (nat i))"

fun units_ago :: "(string \<times> nat) list \<Rightarrow> nat \<Rightarrow> string" where
  \<comment> \<open>the uses of the macro \<open>UNIT_AGO\<close>\<close>
  "units_ago [] n = []"
| "units_ago ((unitname, unitval) # us) n =
     (if n \<ge> unitval then show_dec (n div unitval) @ unitname @ units_ago us (n mod unitval)
      else units_ago us n)"

definition dump_last_lu_seen :: "vty_lib \<Rightarrow> string \<Rightarrow> int \<Rightarrow> 'a dgsm_world_scheme \<Rightarrow> string" where
  "dump_last_lu_seen T domain_label last_lu_seen s =
     (if last_lu_seen = 0 then []
      else ''    last LU seen on '' @ domain_label @ '': '' @ get_datestr last_lu_seen @
        (case timestamp_age last_lu_seen s of
           (False, _) \<Rightarrow> '' (invalid timestamp)'' @ VTY_NEWLINE T
         | (True, n) \<Rightarrow>
             '' ('' @ units_ago [(''d'', 60*60*24), (''h'', 60*60), (''m'', 60), (''s'', 1)] (unat n) @ '' ago)'' @ VTY_NEWLINE T))"

definition vty_line :: "vty_lib \<Rightarrow> string \<Rightarrow> string" where
  "vty_line T s = s @ VTY_NEWLINE T"

definition vty_line_if :: "vty_lib \<Rightarrow> bool \<Rightarrow> string \<Rightarrow> string" where
  "vty_line_if T b s = (if b then s @ VTY_NEWLINE T else [])"

definition dump_auth_data :: "vty_lib \<Rightarrow> osmo_sub_auth_data \<Rightarrow> osmo_sub_auth_data \<Rightarrow> string" where
  \<comment> \<open>the end of \<open>subscr_dump_full_vty\<close>\<close>
  "dump_auth_data T aud2g aud3g =
     (let wrong2 = aud_type aud2g \<noteq> OSMO_AUTH_TYPE_NONE \<and> aud_type aud2g \<noteq> OSMO_AUTH_TYPE_GSM;
          wrong3 = aud_type aud3g \<noteq> OSMO_AUTH_TYPE_NONE \<and> aud_type aud3g \<noteq> OSMO_AUTH_TYPE_UMTS;
          aud2g = (if wrong2 then aud_zero else aud2g);
          aud3g = (if wrong3 then aud_zero else aud3g)
      in vty_line_if T wrong2 (''% Error: 2G auth data is not of type 'GSM'' @ [CHR 0x27]) @
         vty_line_if T wrong3 (''% Error: 3G auth data is not of type 'UMTS'' @ [CHR 0x27]) @
         (if aud_algo aud2g \<noteq> OSMO_AUTH_ALG_NONE \<and> aud_type aud2g \<noteq> OSMO_AUTH_TYPE_NONE then
            vty_line T (''    2G auth: '' @ osmo_auth_alg_name T (aud_algo aud2g)) @
            vty_line T (''             KI='' @ osmo_hexdump_nospc T (aud_ki aud2g))
          else []) @
         (if aud_algo aud3g \<noteq> OSMO_AUTH_ALG_NONE \<and> aud_type aud3g \<noteq> OSMO_AUTH_TYPE_NONE then
            vty_line T (''    3G auth: '' @ osmo_auth_alg_name T (aud_algo aud3g)) @
            vty_line T (''             K='' @ osmo_hexdump_nospc T (aud_k aud3g)) @
            vty_line T (''             '' @ (if aud_opc_is_op aud3g then ''OP'' else ''OPC'') @ ''='' @
              osmo_hexdump_nospc T (aud_opc aud3g)) @
            ''             IND-bitlen='' @ show_dec (aud_ind_bitlen aud3g) @
            (if aud_sqn aud3g \<noteq> 0 then '' last-SQN='' @ show_dec (unat (aud_sqn aud3g)) else []) @
            VTY_NEWLINE T
          else []))"

definition subscr_dump_full_vty :: "osmo_core \<Rightarrow> vty_lib \<Rightarrow> sqlite_env \<Rightarrow> hlr_subscriber \<Rightarrow> 'a hlr_world_scheme \<Rightarrow> string" where
  "subscr_dump_full_vty L T E subscr s =
     vty_line T (''    ID: '' @ show_u64 (sub_id subscr)) @
     vty_line T (''    IMSI: '' @ (if sub_imsi subscr \<noteq> [] then sub_imsi subscr else ''none'')) @
     vty_line T (''    MSISDN: '' @ (if sub_msisdn subscr \<noteq> [] then sub_msisdn subscr else ''none'')) @
     (if sub_imei subscr \<noteq> [] then
        let checksum = osmo_luhn T (sub_imei subscr) 14
        in if checksum = - EINVAL then vty_line T (''    IMEI: '' @ sub_imei subscr @ '' (INVALID LENGTH!)'')
           else vty_line T (''    IMEI: '' @ sub_imei subscr @ [char_of (nat (checksum mod 256))])
      else []) @
     vty_line_if T (sub_vlr_number subscr \<noteq> []) (''    VLR number: '' @ sub_vlr_number subscr) @
     vty_line_if T (sub_sgsn_number subscr \<noteq> []) (''    SGSN number: '' @ sub_sgsn_number subscr) @
     vty_line_if T (sub_sgsn_address subscr \<noteq> []) (''    SGSN address: '' @ sub_sgsn_address subscr) @
     vty_line_if T (sub_periodic_lu_timer subscr \<noteq> 0) (''    Periodic LU timer: '' @ show_u32 (sub_periodic_lu_timer subscr)) @
     vty_line_if T (sub_periodic_rau_tau_timer subscr \<noteq> 0)
       (''    Periodic RAU/TAU timer: '' @ show_u32 (sub_periodic_rau_tau_timer subscr)) @
     vty_line_if T (sub_lmsi subscr \<noteq> 0) (''    LMSI: '' @ show_hex (nat (sub_lmsi subscr mod 2 ^ 32))) @
     vty_line_if T (\<not> sub_nam_cs subscr) ''    CS disabled'' @
     vty_line_if T (sub_ms_purged_cs subscr) ''    CS purged'' @
     vty_line_if T (\<not> sub_nam_ps subscr) ''    PS disabled'' @
     vty_line_if T (sub_ms_purged_ps subscr) ''    PS purged'' @
     dump_last_lu_seen T ''CS'' (sub_last_lu_seen subscr) s @
     dump_last_lu_seen T ''PS'' (sub_last_lu_seen_ps subscr) s @
     (if sub_imsi subscr = [] then []
      else (case db_get_auth_data L E (sub_imsi subscr) (dbc s) of
              (rc, aud2g, aud3g, _) \<Rightarrow>
                if rc = 0 then dump_auth_data T aud2g aud3g
                else if rc = - ENOENT \<or> rc = - ENOKEY then
                  dump_auth_data T (aud2g\<lparr>aud_algo := OSMO_AUTH_ALG_NONE\<rparr>) (aud3g\<lparr>aud_algo := OSMO_AUTH_ALG_NONE\<rparr>)
                else vty_line T (''% Error retrieving data from database ('' @ show_int rc @ '')'')))"

section \<open>Finding the subscriber\<close>

definition get_subscr_by_argv ::
  "osmo_core \<Rightarrow> vty_lib \<Rightarrow> sqlite_env \<Rightarrow> string \<Rightarrow> string \<Rightarrow> hlr_db \<Rightarrow> string \<times> (int + hlr_subscriber)" where
  \<comment> \<open>the text printed, and the subscriber\<close>
  "get_subscr_by_argv L T E ty ident db =
     (let imei = (strcmp ty ''imei'' = 0 \<and> osmo_imei_str_valid L ident True);
          out = vty_line_if T imei (''% Checksum validated and stripped for search: imei = '' @ [CHR 0x27] @
            strlcpy (GSM23003_IMEI_NUM_DIGITS_NO_CHK + 1) ident @ [CHR 0x27]);
          ident = (if imei then strlcpy (GSM23003_IMEI_NUM_DIGITS_NO_CHK + 1) ident else ident);
          r = (if strcmp ty ''imsi'' = 0 then db_subscr_get_by_imsi E ident db
               else if strcmp ty ''msisdn'' = 0 then db_subscr_get_by_msisdn E ident db
               else if strcmp ty ''id'' = 0 then db_subscr_get_by_id E (fst (strtoll ident)) db
               else if strcmp ty ''imei'' = 0 then db_subscr_get_by_imei E ident db
               else Inl (- 1))
      in (case r of
            Inr subscr \<Rightarrow> (out, Inr subscr)
          | Inl rc \<Rightarrow>
              (out @ vty_line T (''% No subscriber for '' @ ty @ '' = '' @ [CHR 0x27] @ ident @ [CHR 0x27]), Inl rc)))"

definition with_subscr ::
  "osmo_core \<Rightarrow> vty_lib \<Rightarrow> sqlite_env \<Rightarrow> string \<Rightarrow> string
     \<Rightarrow> (hlr_subscriber \<Rightarrow> 'a command) \<Rightarrow> 'a command" where
  \<comment> \<open>the part common to the commands: a warning when there is no such subscriber, else the rest of the command\<close>
  "with_subscr L T E ty ident k s =
     (case get_subscr_by_argv L T E ty ident (dbc s) of
        (out, Inl _) \<Rightarrow> Ret (s, out, CMD_WARNING)
      | (out, Inr subscr) \<Rightarrow>
          (case k subscr s of Fault \<Rightarrow> Fault | Ret (s, out', rc) \<Rightarrow> Ret (s, out @ out', rc)))"

definition imsi_text :: "hlr_subscriber \<Rightarrow> string" where
  "imsi_text subscr = ''IMSI='' @ [CHR 0x27] @ sub_imsi subscr @ [CHR 0x27]"

section \<open>Commands\<close>

definition subscriber_show :: "osmo_core \<Rightarrow> vty_lib \<Rightarrow> sqlite_env \<Rightarrow> string \<Rightarrow> string \<Rightarrow> 'a command" where
  "subscriber_show L T E ty ident =
     with_subscr L T E ty ident (\<lambda>subscr s. Ret (s, subscr_dump_full_vty L T E subscr s, CMD_SUCCESS))"

definition subscriber_create :: "osmo_core \<Rightarrow> vty_lib \<Rightarrow> sqlite_env \<Rightarrow> string \<Rightarrow> 'a command" where
  \<comment> \<open>the result of reading the new subscriber back is not checked: an uninitialised \<open>subscr\<close> is Fault\<close>
  "subscriber_create L T E imsi s =
     (if \<not> osmo_imsi_str_valid L imsi then Ret (s, vty_line T (''% Not a valid IMSI: '' @ imsi), CMD_WARNING)
      else (case db_subscr_create L E imsi True True (dbc s) of
              (db, rc) \<Rightarrow>
                let s = s\<lparr>dbc := db\<rparr>
                in if rc \<noteq> 0 then
                     Ret (s, if rc = - EEXIST then vty_line T (''% Subscriber already exists for IMSI = '' @ imsi)
                       else vty_line T (''% Error (rc='' @ show_int rc @ ''): cannot create subscriber for IMSI = '' @ imsi), CMD_WARNING)
                   else (case db_subscr_get_by_imsi E imsi (dbc s) of
                           Inl _ \<Rightarrow> Fault
                         | Inr subscr \<Rightarrow>
                             Ret (s, vty_line T (''% Created subscriber '' @ imsi) @ subscr_dump_full_vty L T E subscr s, CMD_SUCCESS))))"

definition subscriber_delete :: "osmo_core \<Rightarrow> vty_lib \<Rightarrow> sqlite_env \<Rightarrow> string \<Rightarrow> string \<Rightarrow> 'a command" where
  "subscriber_delete L T E ty ident =
     with_subscr L T E ty ident (\<lambda>subscr s.
       (case db_subscr_delete_by_id L E (sub_id subscr) (dbc s) of
          (db, rc) \<Rightarrow>
            let s = s\<lparr>dbc := db\<rparr>; imsi = [CHR 0x27] @ sub_imsi subscr @ [CHR 0x27]
            in if rc \<noteq> 0 then Ret (s, vty_line T (''% Error: Failed to remove subscriber for IMSI '' @ imsi), CMD_WARNING)
               else Ret (s, vty_line T (''% Deleted subscriber for IMSI '' @ imsi), CMD_SUCCESS)))"

definition notify_and_succeed ::
  "gsup_lib \<Rightarrow> octets \<Rightarrow> hlr_subscriber \<Rightarrow> string \<Rightarrow> 'a command" where
  "notify_and_succeed G partial subscr out s =
     (case osmo_hlr_subscriber_update_notify G partial subscr s of
        Fault \<Rightarrow> Fault | Ret s \<Rightarrow> Ret (s, out, CMD_SUCCESS))"

definition subscriber_msisdn ::
  "osmo_core \<Rightarrow> gsup_lib \<Rightarrow> vty_lib \<Rightarrow> sqlite_env \<Rightarrow> octets \<Rightarrow> string \<Rightarrow> string \<Rightarrow> string \<Rightarrow> 'a command" where
  "subscriber_msisdn L G T E partial ty ident arg s =
     (let msisdn = (if strcmp arg ''none'' = 0 then None else Some arg)
      in if msisdn \<noteq> None \<and> length arg > GSM23003_MSISDN_MAX_DIGITS then
           Ret (s, vty_line T (''% MSISDN is too long, max. '' @ show_dec GSM23003_MSISDN_MAX_DIGITS @ '' characters are allowed''), CMD_WARNING)
         else if msisdn \<noteq> None \<and> \<not> osmo_msisdn_str_valid L arg then
           Ret (s, vty_line T (''% MSISDN invalid: '' @ [CHR 0x27] @ arg @ [CHR 0x27]), CMD_WARNING)
         else with_subscr L T E ty ident (\<lambda>subscr s.
           (case db_subscr_update_msisdn_by_imsi L E (sub_imsi subscr) msisdn (dbc s) of
              (db, rc) \<Rightarrow>
                let s = s\<lparr>dbc := db\<rparr>
                in if rc \<noteq> 0 then
                     Ret (s, vty_line T (''% Error: cannot update MSISDN for subscriber '' @ imsi_text subscr), CMD_WARNING)
                   else (case msisdn of
                           Some m \<Rightarrow>
                             let out = vty_line T (''% Updated subscriber '' @ imsi_text subscr @ '' to MSISDN='' @ [CHR 0x27] @ m @ [CHR 0x27])
                             in (case db_subscr_get_by_msisdn E m (dbc s) of
                                   Inl _ \<Rightarrow> Ret (s, out, CMD_SUCCESS)
                                 | Inr subscr \<Rightarrow> notify_and_succeed G partial subscr out s)
                         | None \<Rightarrow>
                             notify_and_succeed G partial subscr
                               (vty_line T (''% Updated subscriber '' @ imsi_text subscr @ '': removed MSISDN'')) s))) s)"

definition is_hexkey_valid :: "osmo_core \<Rightarrow> vty_lib \<Rightarrow> string \<Rightarrow> string \<Rightarrow> nat \<Rightarrow> nat \<Rightarrow> bool \<times> string" where
  "is_hexkey_valid L T label hex_str minlen maxlen =
     (if osmo_is_hexstr L hex_str (minlen * 2) (maxlen * 2) True then (True, [])
      else (False, vty_line T (''% Invalid value for '' @ label @ '': '' @ [CHR 0x27] @ hex_str @ [CHR 0x27])))"

abbreviation (input) A38_XOR_MIN_KEY_LEN :: nat where "A38_XOR_MIN_KEY_LEN \<equiv> 12"
abbreviation (input) A38_XOR_MAX_KEY_LEN :: nat where "A38_XOR_MAX_KEY_LEN \<equiv> 16"
abbreviation (input) A38_COMP128_KEY_LEN :: nat where "A38_COMP128_KEY_LEN \<equiv> 16"
abbreviation (input) MILENAGE_KEY_LEN :: nat where "MILENAGE_KEY_LEN \<equiv> 16"

definition strcasecmp_eq :: "string \<Rightarrow> string \<Rightarrow> bool" where
  "strcasecmp_eq a b \<longleftrightarrow> map lower a = map lower b"

definition auth_algo_parse :: "string \<Rightarrow> (nat \<times> nat \<times> nat) option" where
  \<comment> \<open>the algorithm, and the least and greatest length of its key\<close>
  "auth_algo_parse alg_str =
     (if strcasecmp_eq alg_str ''none'' then Some (OSMO_AUTH_ALG_NONE, 0, 0)
      else if strcasecmp_eq alg_str ''comp128v1'' then Some (OSMO_AUTH_ALG_COMP128v1, A38_COMP128_KEY_LEN, A38_COMP128_KEY_LEN)
      else if strcasecmp_eq alg_str ''comp128v2'' then Some (OSMO_AUTH_ALG_COMP128v2, A38_COMP128_KEY_LEN, A38_COMP128_KEY_LEN)
      else if strcasecmp_eq alg_str ''comp128v3'' then Some (OSMO_AUTH_ALG_COMP128v3, A38_COMP128_KEY_LEN, A38_COMP128_KEY_LEN)
      else if strcasecmp_eq alg_str ''xor'' then Some (OSMO_AUTH_ALG_XOR, A38_XOR_MIN_KEY_LEN, A38_XOR_MAX_KEY_LEN)
      else if strcasecmp_eq alg_str ''milenage'' then Some (OSMO_AUTH_ALG_MILENAGE, MILENAGE_KEY_LEN, MILENAGE_KEY_LEN)
      else None)"

definition subscriber_no_aud2g :: "osmo_core \<Rightarrow> vty_lib \<Rightarrow> sqlite_env \<Rightarrow> string \<Rightarrow> string \<Rightarrow> 'a command" where
  "subscriber_no_aud2g L T E ty ident =
     with_subscr L T E ty ident (\<lambda>subscr s.
       (case db_subscr_update_aud_by_id L E (sub_id subscr) (aud_str_none OSMO_AUTH_TYPE_GSM) (dbc s) of
          (db, rc) \<Rightarrow>
            let s = s\<lparr>dbc := db\<rparr>
            in if rc \<noteq> 0 \<and> rc \<noteq> - ENOENT then
                 Ret (s, vty_line T (''% Error: cannot disable 2G auth data for '' @ imsi_text subscr), CMD_WARNING)
               else Ret (s, [], CMD_SUCCESS)))"

definition subscriber_aud2g ::
  "osmo_core \<Rightarrow> vty_lib \<Rightarrow> sqlite_env \<Rightarrow> string \<Rightarrow> string \<Rightarrow> string \<Rightarrow> string \<Rightarrow> 'a command" where
  "subscriber_aud2g L T E ty ident alg_type ki s =
     (case auth_algo_parse alg_type of
        None \<Rightarrow> Ret (s, vty_line T (''% Unknown auth algorithm: '' @ [CHR 0x27] @ alg_type @ [CHR 0x27]), CMD_WARNING)
      | Some (algo, minlen, maxlen) \<Rightarrow>
          (case is_hexkey_valid L T ''KI'' ki minlen maxlen of
             (False, out) \<Rightarrow> Ret (s, out, CMD_WARNING)
           | (True, _) \<Rightarrow>
               with_subscr L T E ty ident (\<lambda>subscr s.
                 (case db_subscr_update_aud_by_id L E (sub_id subscr)
                         ((aud_str_none OSMO_AUTH_TYPE_GSM)\<lparr>s_algo := algo, s_ki := ki\<rparr>) (dbc s) of
                    (db, rc) \<Rightarrow>
                      let s = s\<lparr>dbc := db\<rparr>
                      in if rc \<noteq> 0 then
                           Ret (s, vty_line T (''% Error: cannot set 2G auth data for '' @ imsi_text subscr), CMD_WARNING)
                         else Ret (s, [], CMD_SUCCESS))) s))"

definition subscriber_no_aud3g :: "osmo_core \<Rightarrow> vty_lib \<Rightarrow> sqlite_env \<Rightarrow> string \<Rightarrow> string \<Rightarrow> 'a command" where
  "subscriber_no_aud3g L T E ty ident =
     with_subscr L T E ty ident (\<lambda>subscr s.
       (case db_subscr_update_aud_by_id L E (sub_id subscr) (aud_str_none OSMO_AUTH_TYPE_UMTS) (dbc s) of
          (db, rc) \<Rightarrow>
            let s = s\<lparr>dbc := db\<rparr>
            in if rc \<noteq> 0 \<and> rc \<noteq> - ENOENT then
                 Ret (s, vty_line T (''% Error: cannot disable 3G auth data for '' @ imsi_text subscr), CMD_WARNING)
               else Ret (s, [], CMD_SUCCESS)))"

definition aud3g_arg :: "nat \<Rightarrow> string \<Rightarrow> bool \<Rightarrow> string \<Rightarrow> string option \<Rightarrow> sub_auth_data_str" where
  \<comment> \<open>the structure built from the arguments; the bit length is 5 when it is not given\<close>
  "aud3g_arg algo k opc_is_op op_opc ind_bitlen =
     (aud_str_none OSMO_AUTH_TYPE_UMTS)\<lparr>s_algo := algo, s_k := k, s_opc_is_op := opc_is_op, s_opc := op_opc,
       s_ind_bitlen := (case ind_bitlen of None \<Rightarrow> 5 | Some a \<Rightarrow> nat (fst (strtoll a) mod 2 ^ 32))\<rparr>"

definition subscriber_aud3g ::
  "osmo_core \<Rightarrow> vty_lib \<Rightarrow> sqlite_env \<Rightarrow> string \<Rightarrow> string \<Rightarrow> string \<Rightarrow> string \<Rightarrow> string \<Rightarrow> string option \<Rightarrow> 'a command" where
  "subscriber_aud3g L T E ty ident k op op_opc ind_bitlen s =
     (let alg_type = ''milenage''; opc_is_op = strcasecmp_eq ''op'' op
      in (case auth_algo_parse alg_type of
            None \<Rightarrow> Ret (s, vty_line T (''% Unknown auth algorithm: '' @ [CHR 0x27] @ alg_type @ [CHR 0x27]), CMD_WARNING)
          | Some (algo, minlen, maxlen) \<Rightarrow>
              (case is_hexkey_valid L T ''K'' k minlen maxlen of
                 (False, out) \<Rightarrow> Ret (s, out, CMD_WARNING)
               | (True, _) \<Rightarrow>
                   (case is_hexkey_valid L T (if opc_is_op then ''OP'' else ''OPC'') op_opc MILENAGE_KEY_LEN MILENAGE_KEY_LEN of
                      (False, out) \<Rightarrow> Ret (s, out, CMD_WARNING)
                    | (True, _) \<Rightarrow>
                        with_subscr L T E ty ident (\<lambda>subscr s.
                          (case db_subscr_update_aud_by_id L E (sub_id subscr) (aud3g_arg algo k opc_is_op op_opc ind_bitlen) (dbc s) of
                             (db, rc) \<Rightarrow>
                               let s = s\<lparr>dbc := db\<rparr>
                               in if rc \<noteq> 0 then
                                    Ret (s, vty_line T (''% Error: cannot set 3G auth data for '' @ imsi_text subscr), CMD_WARNING)
                                  else Ret (s, [], CMD_SUCCESS))) s))))"

definition subscriber_imei ::
  "osmo_core \<Rightarrow> vty_lib \<Rightarrow> sqlite_env \<Rightarrow> string \<Rightarrow> string \<Rightarrow> string \<Rightarrow> 'a command" where
  "subscriber_imei L T E ty ident arg s =
     (let imei = (if strcmp arg ''none'' = 0 then Inr None
                  else if osmo_imei_str_valid L arg True then Inr (Some (strlcpy (GSM23003_IMEI_NUM_DIGITS_NO_CHK + 1) arg))
                  else if \<not> osmo_imei_str_valid L arg False then Inl ()
                  else Inr (Some arg))
      in (case imei of
            Inl _ \<Rightarrow> Ret (s, vty_line T (''% IMEI invalid: '' @ [CHR 0x27] @ arg @ [CHR 0x27]), CMD_WARNING)
          | Inr imei \<Rightarrow>
              with_subscr L T E ty ident (\<lambda>subscr s.
                (case db_subscr_update_imei_by_imsi L E (sub_imsi subscr) imei (dbc s) of
                   (db, rc) \<Rightarrow>
                     let s = s\<lparr>dbc := db\<rparr>
                     in if rc \<noteq> 0 then
                          Ret (s, vty_line T (''% Error: cannot update IMEI for subscriber '' @ imsi_text subscr), CMD_WARNING)
                        else Ret (s, (case imei of
                            Some i \<Rightarrow> vty_line T (''% Updated subscriber '' @ imsi_text subscr @ '' to IMEI='' @ [CHR 0x27] @ i @ [CHR 0x27])
                          | None \<Rightarrow> vty_line T (''% Updated subscriber '' @ imsi_text subscr @ '': removed IMEI'')), CMD_SUCCESS))) s))"

fun strstr :: "string \<Rightarrow> string \<Rightarrow> bool" where
  \<comment> \<open>whether a pointer other than NULL is returned\<close>
  "strstr [] n \<longleftrightarrow> n = []"
| "strstr (c # cs) n \<longleftrightarrow> prefix n (c # cs) \<or> strstr cs n"

definition subscriber_nam ::
  "osmo_core \<Rightarrow> gsup_lib \<Rightarrow> vty_lib \<Rightarrow> sqlite_env \<Rightarrow> string \<Rightarrow> string \<Rightarrow> string \<Rightarrow> 'a command" where
  "subscriber_nam L G T E ty ident arg =
     (let nam_cs = strstr arg ''cs''; nam_ps = strstr arg ''ps''
      in with_subscr L T E ty ident (\<lambda>subscr s.
           (case (if nam_cs \<noteq> sub_nam_cs subscr then hlr_subscr_nam G E subscr nam_cs False s else Ret (s, 0)) of
              Fault \<Rightarrow> Fault
            | Ret (s, _) \<Rightarrow>
                (case (if nam_ps \<noteq> sub_nam_ps subscr then hlr_subscr_nam G E subscr nam_ps True s else Ret (s, 0)) of
                   Fault \<Rightarrow> Fault
                 | Ret (s, _) \<Rightarrow> Ret (s, [], CMD_SUCCESS)))))"

datatype subscr_cmd =
    Subscriber_Show string string
  | Subscriber_Create string
  | Subscriber_Delete string string
  | Subscriber_Msisdn string string string
  | Subscriber_No_Aud2g string string
  | Subscriber_Aud2g string string string string
  | Subscriber_No_Aud3g string string
  | Subscriber_Aud3g string string string string string "string option"
  | Subscriber_Imei string string string
  | Subscriber_Nam string string string

fun hlr_vty_subscriber :: "hlr_lib \<Rightarrow> vty_lib \<Rightarrow> sqlite_env \<Rightarrow> octets \<Rightarrow> subscr_cmd \<Rightarrow> 'a command" where
  \<comment> \<open>the installed commands\<close>
  "hlr_vty_subscriber X T E p (Subscriber_Show a b) = subscriber_show (l_core X) T E a b"
| "hlr_vty_subscriber X T E p (Subscriber_Create a) = subscriber_create (l_core X) T E a"
| "hlr_vty_subscriber X T E p (Subscriber_Delete a b) = subscriber_delete (l_core X) T E a b"
| "hlr_vty_subscriber X T E p (Subscriber_Msisdn a b m) = subscriber_msisdn (l_core X) (l_gsup X) T E p a b m"
| "hlr_vty_subscriber X T E p (Subscriber_No_Aud2g a b) = subscriber_no_aud2g (l_core X) T E a b"
| "hlr_vty_subscriber X T E p (Subscriber_Aud2g a b alg ki) = subscriber_aud2g (l_core X) T E a b alg ki"
| "hlr_vty_subscriber X T E p (Subscriber_No_Aud3g a b) = subscriber_no_aud3g (l_core X) T E a b"
| "hlr_vty_subscriber X T E p (Subscriber_Aud3g a b k op opc ind) = subscriber_aud3g (l_core X) T E a b k op opc ind"
| "hlr_vty_subscriber X T E p (Subscriber_Imei a b i) = subscriber_imei (l_core X) T E a b i"
| "hlr_vty_subscriber X T E p (Subscriber_Nam a b m) = subscriber_nam (l_core X) (l_gsup X) T E a b m"

section \<open>Commands are steps of the HLR\<close>

lemma with_subscr_Ret:
  assumes "with_subscr L T E ty ident k s = Ret (s', out, rc)"
  shows "s' = s \<and> rc = CMD_WARNING \<or>
    (\<exists>subscr out'. snd (get_subscr_by_argv L T E ty ident (dbc s)) = Inr subscr \<and> k subscr s = Ret (s', out', rc))"
  using assms by (auto simp: with_subscr_def split: prod.splits sum.splits exec.splits)

inductive operator_step :: "hlr_lib \<Rightarrow> 'a hlr_world_scheme \<Rightarrow> 'a hlr_world_scheme \<Rightarrow> bool" for X where
  \<comment> \<open>what a command is made of\<close>
  db: "operator_step X s (s\<lparr>dbc := db\<rparr>)"
| notify: "osmo_hlr_subscriber_update_notify (l_gsup X) partial subscr s = Ret s' \<Longrightarrow> operator_step X s s'"
| nam: "hlr_subscr_nam (l_gsup X) E subscr val is_ps s = Ret (s', rc) \<Longrightarrow> operator_step X s s'"

lemma operator_hlr: "operator_step X s s' \<Longrightarrow> hlr_step X s s'"
  by (induction rule: operator_step.induct) (auto intro: hlr_step.user_db hlr_step.user_notify hlr_step.user_nam)

lemma operator_same: "(operator_step X)\<^sup>*\<^sup>* s s' \<Longrightarrow> same_requests s s'"
proof (induction rule: rtranclp_induct)
  case (step t u)
  have "same_requests t u" using step.hyps(2) by cases (auto intro: notify_same nam_same)
  then show ?case using step.IH by (simp add: same_requests_def)
qed simp

lemma steps_db: "operator_step X (s\<lparr>dbc := db\<rparr>) s' \<Longrightarrow> (operator_step X)\<^sup>*\<^sup>* s s'"
  by (rule converse_rtranclp_into_rtranclp [of "operator_step X" s "s\<lparr>dbc := db\<rparr>"]) (auto intro: operator_step.db)

lemma nam_steps:
  "(if b then hlr_subscr_nam (l_gsup X) E subscr v is_ps s else Ret (s, 0)) = Ret (s', rc) \<Longrightarrow> (operator_step X)\<^sup>*\<^sup>* s s'"
  by (cases b) (auto intro: r_into_rtranclp operator_step.nam)

lemma notify_steps: "notify_and_succeed (l_gsup X) p subscr out (s\<lparr>dbc := db\<rparr>) = Ret (s', out', rc) \<Longrightarrow> (operator_step X)\<^sup>*\<^sup>* s s'"
  by (auto simp: notify_and_succeed_def intro: steps_db operator_step.notify split: exec.splits)

lemma command_steps:
  assumes "hlr_vty_subscriber X T E p cmd s = Ret (s', out, rc)"
  shows "(operator_step X)\<^sup>*\<^sup>* s s'"
proof -
  note db = r_into_rtranclp [of "operator_step X", OF operator_step.db]
  show ?thesis
  proof (cases cmd)
    case (Subscriber_Nam a b m)
    then show ?thesis using assms rtranclp_trans [of "operator_step X" s _ s']
      by (auto simp: subscriber_nam_def Let_def dest!: with_subscr_Ret nam_steps split: exec.splits)
  next
    case (Subscriber_Msisdn a b m)
    then show ?thesis using assms
      by (auto simp: subscriber_msisdn_def Let_def dest!: with_subscr_Ret split: prod.splits if_splits option.splits sum.splits
          intro: db notify_steps)
  qed (use assms in \<open>auto simp: subscriber_show_def subscriber_create_def subscriber_delete_def subscriber_no_aud2g_def
      subscriber_aud2g_def subscriber_no_aud3g_def subscriber_aud3g_def subscriber_imei_def Let_def intro: db dest!: with_subscr_Ret
      split: prod.splits if_splits option.splits sum.splits bool.splits\<close>)
qed

section \<open>The database after a command\<close>

definition db_good :: "osmo_core \<Rightarrow> hlr_db \<Rightarrow> bool" where
  "db_good L db \<longleftrightarrow> db_wf db \<and> imsis_ok L db"

lemma imsis_update:
  assumes "imsis_ok L db" and "\<And>r. row_imsi (f r) = row_imsi r"
  shows "imsis_ok L (fst (subscriber_step (step_change E st (sql_update P f) (tbl_subscriber db)) db))"
  using assms by (auto simp: subscriber_step_def sql_update_def imsis_ok_def list_all_iff dest!: step_change_InrD split: sum.splits)

lemma good_create: "db_good L db \<Longrightarrow> db_good L (fst (db_subscr_create L E imsi cs ps db))"
  using wf_create [of db L E imsi cs ps]
  by (auto simp: db_good_def db_subscr_create_def sql_subscr_create_def imsis_ok_def list_all_iff new_subscriber_def
      dest!: step_change_InrD split: sum.splits if_splits)

lemma good_aud:
  assumes "db_good L db"
  shows "db_good L (fst (db_subscr_update_aud_by_id L' E sid aud db))"
proof -
  have ins: "tbl_subscriber (fst (auc_insert E sid aud d)) = tbl_subscriber d" for d
    by (simp add: auc_insert_def prod.case_eq_if split: sum.split)
  have del: "auc_delete E sid ty db = Some (d, n) \<Longrightarrow> tbl_subscriber d = tbl_subscriber db" for ty d n
    by (auto simp: auc_delete_def split: if_splits sum.splits)
  have "tbl_subscriber (fst (db_subscr_update_aud_by_id L' E sid aud db)) = tbl_subscriber db"
    using ins del by (simp add: db_subscr_update_aud_by_id_def Let_def prod.case_eq_if split: option.split)
  then show ?thesis using assms wf_update_aud by (simp add: db_good_def imsis_ok_def)
qed

lemma good_delete: "db_good L db \<Longrightarrow> db_good L (fst (db_subscr_delete_by_id L' E sid db))"
proof -
  assume good: "db_good L db"
  have "db_good L (db\<lparr>tbl_subscriber := filter P (tbl_subscriber db)\<rparr>)" for P
    using good wf_delete_rows(1) by (auto simp: db_good_def imsis_ok_def list_all_iff)
  then have "db_good L (fst (db_subscr_update_aud_by_id L' E sid b (fst (db_subscr_update_aud_by_id L' E sid a
      (db\<lparr>tbl_subscriber := filter P (tbl_subscriber db)\<rparr>)))))" for P a b
    using good_aud by blast
  then show ?thesis using good
    by (auto simp: db_subscr_delete_by_id_def sql_del_by_id_def sql_delete_def Let_def prod.case_eq_if dest!: step_change_InrD split: sum.splits)
qed

lemma good_msisdn: "db_good L db \<Longrightarrow> db_good L (fst (db_subscr_update_msisdn_by_imsi L' E imsi m db))"
  using wf_msisdn [of db L' E imsi m]
  by (auto simp: db_good_def db_subscr_update_msisdn_by_imsi_def sql_delete_msisdn_by_imsi_def sql_set_msisdn_by_imsi_def
      subscriber_step_def imsis_ok_def list_all_iff sql_update_def dest!: step_change_InrD split: option.splits sum.splits if_splits)

lemma good_imei: "db_good L db \<Longrightarrow> db_good L (fst (db_subscr_update_imei_by_imsi L' E imsi m db))"
  using wf_imei [of db L' E imsi m]
  by (auto simp: db_good_def db_subscr_update_imei_by_imsi_def sql_upd_imei_by_imsi_def intro: imsis_update)

lemma good_nam: "db_good L db \<Longrightarrow> db_good L (fst (db_subscr_nam E imsi v ps db))"
  using wf_nam [of db E imsi v ps]
  by (auto simp: db_good_def db_subscr_nam_def Let_def sql_upd_nam_ps_by_imsi_def sql_upd_nam_cs_by_imsi_def intro: imsis_update)

lemma notify_dbc: "osmo_hlr_subscriber_update_notify G p subscr s = Ret s' \<Longrightarrow> dbc s' = dbc s"
  by (auto simp: osmo_hlr_subscriber_update_notify_def split: exec.splits)

lemma notify_and_succeed_Ret:
  "notify_and_succeed G p subscr out s = Ret (s', out', rc) \<Longrightarrow> dbc s' = dbc s \<and> rc = CMD_SUCCESS"
  by (auto simp: notify_and_succeed_def dest: notify_dbc split: exec.splits)

lemma hlr_nam_good:
  assumes "(if b then hlr_subscr_nam G E subscr v is_ps s else Ret (s, 0)) = Ret (s', rc)" and "db_good L (dbc s)"
  shows "db_good L (dbc s')"
  using assms good_nam [of L "dbc s" E "sub_imsi subscr" v is_ps]
  by (auto simp: hlr_subscr_nam_def Let_def prod.case_eq_if split: if_splits option.splits)

lemma goodD:
  assumes "db_good L db"
  shows "db_subscr_create L E imsi cs ps db = (db', rc) \<Longrightarrow> db_good L db'"
    and "db_subscr_update_aud_by_id L' E sid aud db = (db', rc) \<Longrightarrow> db_good L db'"
    and "db_subscr_delete_by_id L' E sid db = (db', rc) \<Longrightarrow> db_good L db'"
    and "db_subscr_update_msisdn_by_imsi L' E imsi m db = (db', rc) \<Longrightarrow> db_good L db'"
    and "db_subscr_update_imei_by_imsi L' E imsi m db = (db', rc) \<Longrightarrow> db_good L db'"
  using good_create [OF assms, of E imsi cs ps] good_aud [OF assms, of L' E sid aud] good_delete [OF assms, of L' E sid]
    good_msisdn [OF assms, of L' E imsi m] good_imei [OF assms, of L' E imsi m] by auto

lemma command_good:
  assumes "hlr_vty_subscriber X T E p cmd s = Ret (s', out, rc)" and "db_good (l_core X) (dbc s)"
  shows "db_good (l_core X) (dbc s')"
  using assms
proof (cases cmd)
  case (Subscriber_Nam a b m)
  then show ?thesis using assms
    by (auto simp: subscriber_nam_def Let_def dest!: with_subscr_Ret hlr_nam_good [where L = "l_core X"] split: exec.splits)
next
  case (Subscriber_Msisdn a b m)
  then show ?thesis using assms
    by (auto simp: subscriber_msisdn_def Let_def dest!: with_subscr_Ret notify_and_succeed_Ret
        split: prod.splits if_splits option.splits sum.splits) (erule (1) goodD)+
qed (auto simp: subscriber_show_def subscriber_create_def subscriber_delete_def subscriber_no_aud2g_def
      subscriber_aud2g_def subscriber_no_aud3g_def subscriber_aud3g_def subscriber_imei_def Let_def dest!: with_subscr_Ret
      split: prod.splits if_splits option.splits sum.splits bool.splits, (erule (1) goodD)+)

fun vty_session :: "hlr_lib \<Rightarrow> vty_lib \<Rightarrow> (sqlite_env \<times> octets \<times> subscr_cmd) list \<Rightarrow> 'a hlr_world_scheme \<Rightarrow> 'a hlr_world_scheme exec" where
  \<comment> \<open>commands one after another, each with its own faults of SQLite\<close>
  "vty_session X T [] s = Ret s"
| "vty_session X T ((E, p, cmd) # cmds) s =
     (case hlr_vty_subscriber X T E p cmd s of Fault \<Rightarrow> Fault | Ret (s, _, _) \<Rightarrow> vty_session X T cmds s)"

lemma session_steps:
  "vty_session X T cmds s = Ret s' \<Longrightarrow> (operator_step X)\<^sup>*\<^sup>* s s' \<and> (db_good (l_core X) (dbc s) \<longrightarrow> db_good (l_core X) (dbc s'))"
proof (induction X T cmds s rule: vty_session.induct)
  case (2 X T E p cmd cmds s)
  then obtain s1 out rc where c: "hlr_vty_subscriber X T E p cmd s = Ret (s1, out, rc)" "vty_session X T cmds s1 = Ret s'"
    by (auto split: exec.splits)
  then show ?case using 2(1) command_steps [OF c(1)] command_good [OF c(1)] rtranclp_trans [of "operator_step X" s s1 s'] by auto
qed simp

subsection \<open>Commands return\<close>

lemma notify_peer_grows: "\<exists>evs. notify_peer G p subscr co g = Ret (g\<lparr>trace := trace g @ evs\<rparr>)"
proof -
  have keep: "\<exists>evs. Ret g = Ret (g\<lparr>trace := trace g @ evs\<rparr>)" by (intro exI [of _ "[]"]) simp
  have send: "\<exists>evs. Ret (fst (osmo_gsup_addr_send a m g)) = Ret (g\<lparr>trace := trace g @ evs\<rparr>)" for a m
    using keep by (auto simp: osmo_gsup_addr_send_def osmo_gsup_conn_send_def emit_def split: option.split)
  obtain m1 m2 where
    "osmo_gsup_create_insert_subscriber_data_msg G (sub_imsi subscr) (sub_msisdn subscr) OSMO_GSUP_MAX_CALLED_PARTY_BCD_LEN (apn_maxlen G) OSMO_GSUP_CN_DOMAIN_PS = Some m1"
    "osmo_gsup_create_insert_subscriber_data_msg G (sub_imsi subscr) (sub_msisdn subscr) OSMO_GSUP_MAX_CALLED_PARTY_BCD_LEN (apn_maxlen G) OSMO_GSUP_CN_DOMAIN_CS = Some m2"
    using isd_never_aborts by (metis not_None_eq)
  then show ?thesis using keep send by (auto simp: notify_peer_def Let_def prod.case_eq_if split: option.split)
qed

abbreviation notify_all where
  "notify_all G p subscr cs r \<equiv> fold (\<lambda>co r. case r of Fault \<Rightarrow> Fault | Ret g \<Rightarrow> notify_peer G p subscr co g) cs r"

lemma notify_all_grows: "\<exists>evs. notify_all G p subscr cs (Ret g) = Ret (g\<lparr>trace := trace g @ evs\<rparr>)"
proof (induction cs arbitrary: g)
  case Nil
  show ?case by (intro exI [of _ "[]"]) simp
next
  case (Cons co cs)
  obtain evs where e: "notify_peer G p subscr co g = Ret (g\<lparr>trace := trace g @ evs\<rparr>)" using notify_peer_grows by blast
  obtain evs' where "notify_all G p subscr cs (Ret (g\<lparr>trace := trace g @ evs\<rparr>)) = Ret (g\<lparr>trace := trace g @ evs @ evs'\<rparr>)"
    using Cons [of "g\<lparr>trace := trace g @ evs\<rparr>"] by auto
  with e show ?case by auto
qed

lemma notify_returns: "osmo_hlr_subscriber_update_notify G p subscr s \<noteq> Fault"
  using notify_all_grows [of G p subscr "clients (gs s)" "gs s"] by (auto simp: osmo_hlr_subscriber_update_notify_def)

lemma delete_data_returns: "\<exists>g'. send_delete_data G m n g = Some g'"
proof -
  have "ipa_len (fst (osmo_ipa_name_set_str ipa_name_empty (Some n))) \<noteq> 0" if "snd (osmo_ipa_name_set_str ipa_name_empty (Some n)) = 0"
    using that by (auto simp: osmo_ipa_name_set_str_def osmo_ipa_name_set_def Let_def split: if_splits)
  with send_to_name_ok [of "fst (osmo_ipa_name_set_str ipa_name_empty (Some n))"] show ?thesis
    by (fastforce simp: send_delete_data_def osmo_gsup_enc_send_to_ipa_name_def prod.case_eq_if split: option.split)
qed

lemma nam_returns: "hlr_subscr_nam G E subscr v ps s \<noteq> Fault"
proof -
  obtain h where "\<And>m n g. send_delete_data G m n g = Some (h m n g)" using delete_data_returns by metis
  then show ?thesis by (simp add: hlr_subscr_nam_def Let_def prod.case_eq_if)
qed

lemma with_subscr_Fault: "with_subscr L T E ty ident k s = Fault \<Longrightarrow> \<exists>subscr. k subscr s = Fault"
  by (auto simp: with_subscr_def split: prod.splits sum.splits exec.splits)

lemma create_returns_ok:
  assumes "env_ok E"
  shows "subscriber_create L T E imsi s \<noteq> Fault"
proof (cases "osmo_imsi_str_valid L imsi")
  case True
  obtain db rc where c: "db_subscr_create L E imsi True True (dbc s) = (db, rc)" by fastforce
  show ?thesis
  proof (cases "rc = 0")
    case True': True
    then have n: "subscribers (dbc s) imsi = None" using c create_spec(1) [OF assms True, of True True "dbc s"]
      by (auto split: option.splits if_splits)
    have "subscribers db imsi \<noteq> None" using create_spec(2) [OF assms True n, of True True] c by simp
    then show ?thesis using True True' c get_by_imsi_ok [OF assms, of imsi db] by (auto simp: subscriber_create_def Let_def)
  qed (use True c in \<open>simp add: subscriber_create_def Let_def\<close>)
qed (simp add: subscriber_create_def)

lemma command_faults:
  assumes "hlr_vty_subscriber X T E p cmd s = Fault"
  shows "\<not> env_ok E \<and> (\<exists>imsi. cmd = Subscriber_Create imsi)"
proof (cases cmd)
  case (Subscriber_Create a)
  then show ?thesis using assms create_returns_ok [of E "l_core X" T a s] by auto
next
  case (Subscriber_Msisdn a b m)
  then show ?thesis using assms
    by (auto simp: subscriber_msisdn_def notify_and_succeed_def Let_def notify_returns dest!: with_subscr_Fault
        split: if_splits prod.splits option.splits sum.splits exec.splits)
next
  case (Subscriber_Nam a b m)
  then show ?thesis using assms
    by (auto simp: subscriber_nam_def Let_def nam_returns dest!: with_subscr_Fault split: if_splits exec.splits)
qed (use assms in \<open>auto simp: subscriber_show_def subscriber_delete_def subscriber_no_aud2g_def subscriber_aud2g_def subscriber_no_aud3g_def
    subscriber_aud3g_def subscriber_imei_def Let_def dest!: with_subscr_Fault split: prod.splits if_splits option.splits sum.splits bool.splits\<close>)

lemma session_faults:
  "vty_session X T cmds s = Fault \<Longrightarrow> \<exists>E p imsi. (E, p, Subscriber_Create imsi) \<in> set cmds \<and> \<not> env_ok E"
proof (induction X T cmds s rule: vty_session.induct)
  case (2 X T E p cmd cmds s)
  show ?case
  proof (cases "hlr_vty_subscriber X T E p cmd s")
    case Fault
    then show ?thesis using command_faults [OF Fault] by auto
  next
    case (Ret x)
    then have "vty_session X T cmds (fst x) = Fault" using 2(2) by (simp add: prod.case_eq_if)
    then have "\<exists>E p imsi. (E, p, Subscriber_Create imsi) \<in> set cmds \<and> \<not> env_ok E"
      using 2(1) [OF Ret, of "fst x" "snd x" "fst (snd x)" "snd (snd x)"] by simp
    then show ?thesis by auto
  qed
qed simp

text \<open>
  C15. The commands that the operator has for subscribers (show, create, delete, telephone number, keys, IMEI and access) are safe at any
  time. Take a consistent state with a database that satisfies the constraints of the schema and holds valid IMSIs
  only, and any session of these commands, with any failures of SQLite on the way. The session returns, unless SQLite fails during
  a command to create a subscriber (which uses what it failed to read back). When it returns, both still hold,
  no request has been deallocated by a command, and the components hold the same requests as before.
\<close>

theorem vty_commands_safe:
  assumes "hlr_lib_ok X" and "hlr_inv s" and "db_good (l_core X) (dbc s)"
  shows "case vty_session X T cmds s of
      Fault \<Rightarrow> \<exists>E p imsi. (E, p, Subscriber_Create imsi) \<in> set cmds \<and> \<not> env_ok E
    | Ret s' \<Rightarrow> hlr_inv s' \<and> db_good (l_core X) (dbc s') \<and> hlr_held s' = hlr_held s \<and> freed nr (gs s') = freed nr (gs s)"
proof (cases "vty_session X T cmds s")
  case Fault
  then show ?thesis using session_faults by simp
next
  case (Ret s')
  have op: "(operator_step X)\<^sup>*\<^sup>* s s'" and good: "db_good (l_core X) (dbc s')" using session_steps [OF Ret] assms(3) by simp_all
  have "(hlr_step X)\<^sup>*\<^sup>* s s'" using op by (rule rtranclp_mono [THEN predicate2D, rotated]) (auto intro: operator_hlr)
  then have "hlr_inv s'" using hlr_own.steps_inv [of X s s'] assms(1,2) by simp
  with Ret good operator_same [OF op] same_held [OF operator_same [OF op]] show ?thesis by (simp add: same_requests_def)
qed

section \<open>Warnings\<close>

lemma argv_row:
  assumes "snd (get_subscr_by_argv L T E ty ident db) = Inr subscr"
  obtains r where "r \<in> set (tbl_subscriber db)" and "subscr = row_to_subscriber E r"
proof -
  have "\<exists>st P. db_sel E st P db = Inr subscr"
    using assms by (auto simp: get_subscr_by_argv_def Let_def db_subscr_get_by_imsi_def db_subscr_get_by_msisdn_def
        db_subscr_get_by_id_def db_subscr_get_by_imei_def split: sum.splits if_splits)
  then show ?thesis using that by (metis sel_sound)
qed

lemma none_or_one:
  assumes "distinct (map k t)"
  shows "filter (\<lambda>x. k x = v) t = [] \<and> filter (\<lambda>x. k x \<noteq> v) t = t \<or> length (filter (\<lambda>x. k x = v) t) = Suc 0"
proof (cases "v \<in> k ` set t")
  case True
  then show ?thesis using update_count [OF assms, of "\<lambda>x. k x = v" v] by simp
next
  case False
  then have "\<forall>x\<in>set t. k x \<noteq> v" by auto
  then show ?thesis by simp
qed

lemma aud_fails:
  assumes "env_ok E" and "db_wf db" and "db_subscr_update_aud_by_id L E sid aud db = (db', rc)" and "rc \<noteq> 0"
  shows "db' = db"
proof (cases "s_type aud = 1")
  case True
  have "distinct (map a2_subscriber_id (tbl_auc_2g db))" using assms(2) by (simp add: db_wf_def)
  from none_or_one [OF this, of sid] show ?thesis using True assms(1,3,4)
    by (auto simp: db_subscr_update_aud_by_id_def auc_delete_def sql_auc_2g_delete_def sql_delete_def changes_rc_def Let_def
        auc_insert_def sql_auc_2g_insert_def split: if_splits)
next
  case False
  have "distinct (map a3_subscriber_id (tbl_auc_3g db))" using assms(2) by (simp add: db_wf_def)
  from none_or_one [OF this, of sid] show ?thesis using False assms(1,3,4)
    by (auto simp: db_subscr_update_aud_by_id_def auc_delete_def sql_auc_3g_delete_def sql_delete_def changes_rc_def Let_def
        auc_insert_def sql_auc_3g_insert_def split: if_splits)
qed

lemma known_count:
  assumes "db_good L db" and "lib_strings_ok L" and "r \<in> set (tbl_subscriber db)"
  shows "length (filter (\<lambda>x. row_imsi x = sub_imsi (row_to_subscriber E r)) (tbl_subscriber db)) = Suc 0"
  using assms(1,3) stored_imsi [OF assms(2) _ assms(3), of E] none_or_one [of row_imsi "tbl_subscriber db" "row_imsi r"]
  by (auto simp: db_good_def db_wf_def filter_empty_conv)

lemma msisdn_fails:
  assumes "env_ok E" and "db_good L (dbc s)" and "lib_strings_ok L" and "r \<in> set (tbl_subscriber (dbc s))"
    and "db_subscr_update_msisdn_by_imsi L E (sub_imsi (row_to_subscriber E r)) m (dbc s) = (db', rc)" and "rc \<noteq> 0"
  shows "s\<lparr>dbc := db'\<rparr> = s"
  using assms(1,5,6) known_count [OF assms(2-4), of E]
  by (auto simp: db_subscr_update_msisdn_by_imsi_def sql_delete_msisdn_by_imsi_def sql_set_msisdn_by_imsi_def subscriber_step_def
      sql_update_def changes_rc_def split: option.splits if_splits)

lemma imei_fails:
  assumes "env_ok E" and "db_good L (dbc s)" and "lib_strings_ok L" and "r \<in> set (tbl_subscriber (dbc s))"
    and "db_subscr_update_imei_by_imsi L E (sub_imsi (row_to_subscriber E r)) m (dbc s) = (db', rc)" and "rc \<noteq> 0"
  shows "s\<lparr>dbc := db'\<rparr> = s"
  using assms(1,5,6) known_count [OF assms(2-4), of E]
  by (auto simp: db_subscr_update_imei_by_imsi_def sql_upd_imei_by_imsi_def subscriber_step_def sql_update_def changes_rc_def
      split: if_splits)

lemma delete_known:
  assumes "env_ok E" and "db_wf db" and "r \<in> set (tbl_subscriber db)"
  shows "snd (db_subscr_delete_by_id L E (sub_id (row_to_subscriber E r)) db) = 0"
  using db_subscr_delete_complete [OF assms(2,1), of L "row_id r"] assms(3) by (simp add: row_to_subscriber_def)

lemma create_fails:
  "db_subscr_create L E imsi cs ps db = (db', rc) \<Longrightarrow> rc \<noteq> 0 \<Longrightarrow> db' = db"
  by (auto simp: db_subscr_create_def split: if_splits sum.splits)

lemma with_subscr_warns:
  assumes "with_subscr L T E ty ident k s = Ret (s', out, CMD_WARNING)"
    and "\<And>r out'. r \<in> set (tbl_subscriber (dbc s)) \<Longrightarrow> k (row_to_subscriber E r) s = Ret (s', out', CMD_WARNING) \<Longrightarrow> s' = s"
  shows "s' = s"
  using with_subscr_Ret [OF assms(1)] assms(2) by (metis argv_row)

lemma aud_warns:
  assumes "env_ok E" and "db_wf (dbc s)"
    and "(case db_subscr_update_aud_by_id L E sid aud (dbc s) of (db, rc) \<Rightarrow>
      let s = s\<lparr>dbc := db\<rparr> in if rc \<noteq> 0 \<and> P rc then Ret (s, out, CMD_WARNING) else Ret (s, [], CMD_SUCCESS)) = Ret (s', out', CMD_WARNING)"
  shows "s' = s"
  using assms(3) aud_fails [OF assms(1,2)] by (auto simp: Let_def split: prod.splits if_splits)

text \<open>
  C16. The commands that the operator has for subscribers (show, create, delete, telephone number, keys, IMEI and access) are all
  or nothing: as long as SQLite does not fail and the database is consistent, such a command that ends with a warning, whatever its
  arguments are, has changed nothing at all. (Commands of the configuration are not meant: some of them warn and still change it.)
\<close>

theorem vty_warning_changes_nothing:
  assumes "hlr_lib_ok X" and "env_ok E" and "db_good (l_core X) (dbc s)"
    and "hlr_vty_subscriber X T E p cmd s = Ret (s', out, CMD_WARNING)"
  shows "s' = s"
proof -
  have L: "lib_strings_ok (l_core X)" and wf: "db_wf (dbc s)" using assms(1,3) by (simp_all add: hlr_lib_ok_def db_good_def)
  note aud = aud_warns [OF assms(2) wf]
  show ?thesis
  proof (cases cmd)
    case (Subscriber_Create a)
    then show ?thesis using assms(4) by (auto simp: subscriber_create_def Let_def dest: create_fails split: if_splits prod.splits sum.splits)
  next
    case (Subscriber_Delete a b)
    then show ?thesis using assms(4) delete_known [OF assms(2) wf]
      by (auto simp: subscriber_delete_def Let_def prod.case_eq_if split: if_splits elim!: with_subscr_warns)
  next
    case (Subscriber_Msisdn a b m)
    then show ?thesis using assms(4)
      by (auto simp: subscriber_msisdn_def Let_def split: if_splits prod.splits option.splits sum.splits elim!: with_subscr_warns
          dest!: notify_and_succeed_Ret) (erule (2) msisdn_fails [OF assms(2,3) L])+
  next
    case (Subscriber_Imei a b m)
    then show ?thesis using assms(4)
      by (auto simp: subscriber_imei_def Let_def split: if_splits prod.splits option.splits sum.splits elim!: with_subscr_warns)
        (erule (2) imei_fails [OF assms(2,3) L])+
  next
    case (Subscriber_Aud2g a b alg ki)
    then show ?thesis using assms(4)
      by (auto simp: subscriber_aud2g_def split: option.splits prod.splits bool.splits elim!: with_subscr_warns dest: aud [where P = "\<lambda>_. True", simplified])
  next
    case (Subscriber_Aud3g a b k op opc ind)
    then show ?thesis using assms(4)
      by (auto simp: subscriber_aud3g_def Let_def [of "''milenage''"] Let_def [of "strcasecmp_eq ''op'' op"]
          split: option.splits prod.splits bool.splits elim!: with_subscr_warns dest: aud [where P = "\<lambda>_. True", simplified])
  qed (use assms(4) in \<open>auto simp: subscriber_show_def subscriber_no_aud2g_def subscriber_no_aud3g_def subscriber_nam_def
      Let_def [of "strstr _ _"] split: exec.splits elim!: with_subscr_warns dest: aud\<close>)
qed

section \<open>Keys\<close>

text \<open>
  C17. Keys entered by the operator are the keys the HLR authenticates with: setting Milenage keys of 32 hexadecimal digits for a
  subscriber that exists, however it is named, with a length of the IND part up to 28 bits or none given, succeeds without any other effect than on the 3G keys,
  and reading the authentication data of its IMSI afterwards gives the bytes of these keys, OP or OPC as given, with the sequence number at zero.
\<close>

theorem vty_aud3g_roundtrip:
  assumes "env_ok E" and "db_good L (dbc s)" and "lib_strings_ok L" and "lib_hex_ok L"
    and "snd (get_subscr_by_argv L T E ty ident (dbc s)) = Inr subscr"
    and "osmo_is_hexstr L k 32 32 True" and "osmo_is_hexstr L op_opc 32 32 True" and "op = ''op'' \<or> op = ''opc''"
    and "case ind of None \<Rightarrow> True | Some a \<Rightarrow> 0 \<le> fst (strtoll a) \<and> fst (strtoll a) \<le> 28"
  shows "\<exists>out db. subscriber_aud3g L T E ty ident k op op_opc ind s = Ret (s\<lparr>dbc := db\<rparr>, out, CMD_SUCCESS) \<and>
    tbl_subscriber db = tbl_subscriber (dbc s) \<and> tbl_auc_2g db = tbl_auc_2g (dbc s) \<and>
    db_get_auth_data L E (sub_imsi subscr) db =
      (0, fst (snd (db_get_auth_data L E (sub_imsi subscr) (dbc s))),
       aud_zero\<lparr>aud_type := OSMO_AUTH_TYPE_UMTS, aud_algo := OSMO_AUTH_ALG_MILENAGE, aud_k := osmo_hexparse L k,
         aud_opc := osmo_hexparse L op_opc, aud_opc_is_op := (op = ''op''),
         aud_ind_bitlen := (case ind of None \<Rightarrow> 5 | Some a \<Rightarrow> nat (fst (strtoll a)))\<rparr>, sub_id subscr)"
proof -
  have wf: "db_wf (dbc s)" and im: "imsis_ok L (dbc s)" using assms(2) by (simp_all add: db_good_def)
  obtain r where r: "r \<in> set (tbl_subscriber (dbc s))" "subscr = row_to_subscriber E r" using argv_row [OF assms(5)] .
  have imsi: "sub_imsi subscr = row_imsi r" unfolding r(2) by (rule stored_imsi [OF assms(3) im r(1)])
  have sid: "sub_id subscr = row_id r" by (simp add: r(2) row_to_subscriber_def)
  have opc: "strcasecmp_eq ''op'' op = (op = ''op'')" using assms(8) by (auto simp: strcasecmp_eq_def)
  let ?aud = "aud3g_arg 5 k (op = ''op'') op_opc ind"
  have aud: "s_type ?aud = 2" "s_algo ?aud = 5" "s_k ?aud = k" "s_opc ?aud = op_opc" "s_opc_is_op ?aud = (op = ''op'')"
    by (simp_all add: aud3g_arg_def aud_str_none_def)
  have ind: "s_ind_bitlen ?aud = (case ind of None \<Rightarrow> 5 | Some a \<Rightarrow> nat (fst (strtoll a)))" "s_ind_bitlen ?aud \<le> 28"
    using assms(9) by (auto simp: aud3g_arg_def split: option.splits)
  have valid: "aud_valid L ?aud" using assms(6,7) aud ind(2) by (simp add: aud_valid_def)
  note upd = update_aud_3g [OF wf assms(1) valid aud(1), unfolded aud, simplified, of "row_id r"]
  have parse: "auth_algo_parse ''milenage'' = Some (5, 16, 16)" by (simp add: auth_algo_parse_def strcasecmp_eq_def lower_def octet_val_def)
  obtain out where get: "get_subscr_by_argv L T E ty ident (dbc s) = (out, Inr subscr)" using assms(5) by (metis prod.collapse)
  have "subscriber_aud3g L T E ty ident k op op_opc ind s =
      Ret (s\<lparr>dbc := fst (db_subscr_update_aud_by_id L E (row_id r) ?aud (dbc s))\<rparr>, out, CMD_SUCCESS)"
    using assms(6,7) get upd by (simp add: subscriber_aud3g_def parse opc is_hexkey_valid_def with_subscr_def sid Let_def)
  moreover have "db_get_auth_data L E (row_imsi r) (fst (db_subscr_update_aud_by_id L E (row_id r) ?aud (dbc s))) =
      (0, fst (snd (db_get_auth_data L E (row_imsi r) (dbc s))),
       aud_zero\<lparr>aud_type := OSMO_AUTH_TYPE_UMTS, aud_algo := 5, aud_k := osmo_hexparse L k,
         aud_opc := osmo_hexparse L op_opc, aud_opc_is_op := (op = ''op''),
         aud_ind_bitlen := (case ind of None \<Rightarrow> 5 | Some a \<Rightarrow> nat (fst (strtoll a)))\<rparr>, row_id r)"
    using auth_data_3g_roundtrip [OF wf assms(1,4) subscribers_unique [OF wf r(1)] valid] aud ind(1) by simp
  ultimately show ?thesis unfolding imsi sid using upd by (intro exI conjI) simp_all
qed

text \<open>
  The keys of the XOR algorithm may have 12 to 16 octets for the command, but the database takes 16 only: a shorter key passes
  the check of the command, and setting it fails for every subscriber.
\<close>

lemma xor_key_refused:
  assumes "osmo_is_hexstr L ki 24 32 True" and "\<not> osmo_is_hexstr L ki 32 32 True"
    and "get_subscr_by_argv L T E ty ident (dbc s) = (out, Inr subscr)"
  shows "fst (is_hexkey_valid L T ''KI'' ki A38_XOR_MIN_KEY_LEN A38_XOR_MAX_KEY_LEN)"
    and "\<exists>out. subscriber_aud2g L T E ty ident ''xor'' ki s = Ret (s, out, CMD_WARNING)"
proof -
  have parse: "auth_algo_parse ''xor'' = Some (4, 12, 16)" by (simp add: auth_algo_parse_def strcasecmp_eq_def lower_def octet_val_def)
  have "db_subscr_update_aud_by_id L E sid ((aud_str_none OSMO_AUTH_TYPE_GSM)\<lparr>s_algo := 4, s_ki := ki\<rparr>) (dbc s) = (dbc s, - EINVAL)" for sid
    using assms(2) by (simp add: db_subscr_update_aud_by_id_def aud_valid_def aud_str_none_def)
  then show "\<exists>out. subscriber_aud2g L T E ty ident ''xor'' ki s = Ret (s, out, CMD_WARNING)"
    using assms(1,3) by (simp add: subscriber_aud2g_def parse is_hexkey_valid_def with_subscr_def Let_def)
  show "fst (is_hexkey_valid L T ''KI'' ki A38_XOR_MIN_KEY_LEN A38_XOR_MAX_KEY_LEN)" using assms(1) by (simp add: is_hexkey_valid_def)
qed

section \<open>Telephone numbers\<close>

lemma msisdn_none_exec:
  assumes "env_ok E" and "db_good L db" and "lib_strings_ok L" and "r \<in> set (tbl_subscriber db)"
  shows "db_subscr_update_msisdn_by_imsi L E (row_imsi r) None db =
    (db\<lparr>tbl_subscriber := map (\<lambda>x. if row_imsi x = row_imsi r then x\<lparr>row_msisdn := None\<rparr> else x) (tbl_subscriber db)\<rparr>, 0)"
proof -
  have im: "imsis_ok L db" using assms(2) by (simp add: db_good_def)
  show ?thesis using assms(1) known_count [OF assms(2-4), of E] stored_imsi [OF assms(3) im assms(4), of E]
    by (simp add: db_subscr_update_msisdn_by_imsi_def sql_delete_msisdn_by_imsi_def subscriber_step_def sql_update_def changes_rc_def)
qed

lemma notify_peer_hit:
  assumes "supports_cs co" and "\<not> supports_ps co" and "conn_ccm co IPAC_IDTAG_SERNR = Some (sub_vlr_number subscr @ [NUL])"
    and "NUL \<notin> set (sub_vlr_number subscr)" and "gsup_route_find g (sub_vlr_number subscr @ [NUL]) = Some cid"
    and "gsm48_encode_bcd_number G OSMO_GSUP_MAX_CALLED_PARTY_BCD_LEN (sub_msisdn subscr) = Some enc"
    and "osmo_gsup_encode G (gsup_zero\<lparr>message_type := OSMO_GSUP_MSGT_INSERT_DATA_REQUEST, g_imsi := strlcpy IMSI_BUF_SIZE (sub_imsi subscr),
      msisdn_enc := Some enc, g_cn_domain := OSMO_GSUP_CN_DOMAIN_CS\<rparr>) = Some msg"
  shows "notify_peer G p subscr co g = Ret (g\<lparr>trace := trace g @ [EvTx cid msg]\<rparr>)"
proof -
  have c: "cstr (sub_vlr_number subscr @ [NUL]) = sub_vlr_number subscr" using assms(4) by (simp add: cstr_append_NUL cstring_ok_def)
  show ?thesis
    using assms(1,2,5-7)
    by (simp add: notify_peer_def osmo_gsup_conn_ccm_get_def assms(3) c Let_def strncmp_def strcmp_eq_0
        osmo_gsup_create_insert_subscriber_data_msg_def osmo_gsup_addr_send_def osmo_gsup_conn_send_def emit_def)
qed

lemma notify_all_hit:
  assumes "\<And>g. routes g = routes g0 \<Longrightarrow> notify_peer G p subscr co g = Ret (g\<lparr>trace := trace g @ [e]\<rparr>)"
  shows "co \<in> set cs \<Longrightarrow> routes g = routes g0 \<Longrightarrow>
    \<exists>evs. notify_all G p subscr cs (Ret g) = Ret (g\<lparr>trace := trace g @ evs\<rparr>) \<and> e \<in> set evs"
proof (induction cs arbitrary: g)
  case (Cons x cs)
  obtain evs where x: "notify_peer G p subscr x g = Ret (g\<lparr>trace := trace g @ evs\<rparr>)" using notify_peer_grows by blast
  let ?g = "g\<lparr>trace := trace g @ evs\<rparr>"
  show ?case
  proof (cases "x = co")
    case True
    then have "?g = g\<lparr>trace := trace g @ [e]\<rparr>" using x assms [OF Cons.prems(2)] by simp
    then have "trace ?g = trace (g\<lparr>trace := trace g @ [e]\<rparr>)" by (rule arg_cong)
    then have "e \<in> set evs" by simp
    with x notify_all_grows [of G p subscr cs ?g] show ?thesis by fastforce
  next
    case False
    then obtain evs' where "notify_all G p subscr cs (Ret ?g) = Ret (?g\<lparr>trace := trace ?g @ evs'\<rparr>)" "e \<in> set evs'"
      using Cons.IH [of ?g] Cons.prems by auto
    with x show ?thesis by (intro exI [of _ "evs @ evs'"]) simp
  qed
qed simp

text \<open>
  C37. When the operator removes the telephone number of a subscriber, the VLR is told the old one. Let a subscriber that is found by the
  arguments of the command be registered at a VLR that is connected, and let the old number be encodable. Then, as long as
  SQLite does not fail, the command succeeds, the database has no number for the subscriber any more, and among the
  messages sent meanwhile is an Insert Subscriber Data message to this VLR that contains the encoding of the number the subscriber had before.
\<close>

theorem vty_removed_msisdn_announced:
  assumes "env_ok E" and "db_good L (dbc s)" and "lib_strings_ok L"
    and "get_subscr_by_argv L T E ty ident (dbc s) = (out, Inr subscr)"
    and "co \<in> set (clients (gs s))" and "supports_cs co" and "\<not> supports_ps co"
    and "conn_ccm co IPAC_IDTAG_SERNR = Some (sub_vlr_number subscr @ [NUL])" and "NUL \<notin> set (sub_vlr_number subscr)"
    and "gsup_route_find (gs s) (sub_vlr_number subscr @ [NUL]) = Some cid"
    and "gsm48_encode_bcd_number G OSMO_GSUP_MAX_CALLED_PARTY_BCD_LEN (sub_msisdn subscr) = Some enc"
    and "osmo_gsup_encode G (gsup_zero\<lparr>message_type := OSMO_GSUP_MSGT_INSERT_DATA_REQUEST, g_imsi := strlcpy IMSI_BUF_SIZE (sub_imsi subscr),
      msisdn_enc := Some enc, g_cn_domain := OSMO_GSUP_CN_DOMAIN_CS\<rparr>) = Some msg"
  shows "\<exists>s' old new evs.
    subscriber_msisdn L G T E partial ty ident ''none'' s =
      Ret (s', out @ vty_line T (''% Updated subscriber '' @ imsi_text subscr @ '': removed MSISDN''), CMD_SUCCESS) \<and>
    subscribers (dbc s) (sub_imsi subscr) = Some old \<and> sub_msisdn subscr = copy_text 16 (row_msisdn old) \<and>
    subscribers (dbc s') (sub_imsi subscr) = Some new \<and> row_msisdn new = None \<and>
    trace (gs s') = trace (gs s) @ evs \<and> EvTx cid msg \<in> set evs"
proof -
  have wf: "db_wf (dbc s)" and im: "imsis_ok L (dbc s)" using assms(2) by (simp_all add: db_good_def)
  have "snd (get_subscr_by_argv L T E ty ident (dbc s)) = Inr subscr" using assms(4) by simp
  then obtain r where r: "r \<in> set (tbl_subscriber (dbc s))" "subscr = row_to_subscriber E r" by (rule argv_row)
  have imsi: "sub_imsi subscr = row_imsi r" unfolding r(2) by (rule stored_imsi [OF assms(3) im r(1)])
  let ?db = "(dbc s)\<lparr>tbl_subscriber := map (\<lambda>x. if row_imsi x = row_imsi r then x\<lparr>row_msisdn := None\<rparr> else x) (tbl_subscriber (dbc s))\<rparr>"
  note upd = msisdn_none_exec [OF assms(1-3) r(1)]
  have new: "subscribers ?db (row_imsi r) = Some (r\<lparr>row_msisdn := None\<rparr>)"
    using subscribers_unique [OF wf r(1)]
      find_update [of "\<lambda>x. row_imsi x = row_imsi r" "\<lambda>x. x\<lparr>row_msisdn := None\<rparr>" "\<lambda>x. row_imsi x = row_imsi r" "tbl_subscriber (dbc s)"]
    by (simp add: subscribers_def)
  have old: "sub_msisdn subscr = copy_text 16 (row_msisdn r)" by (simp add: r(2) row_to_subscriber_def)
  have "notify_peer G partial subscr co g = Ret (g\<lparr>trace := trace g @ [EvTx cid msg]\<rparr>)" if "routes g = routes (gs s)" for g
    using notify_peer_hit [OF assms(6-9) _ assms(11,12)] assms(10) that by (simp add: gsup_route_find_def)
  then obtain evs where evs: "notify_all G partial subscr (clients (gs s)) (Ret (gs s)) = Ret ((gs s)\<lparr>trace := trace (gs s) @ evs\<rparr>)"
    "EvTx cid msg \<in> set evs" using notify_all_hit [OF _ assms(5) refl] by blast
  have "subscriber_msisdn L G T E partial ty ident ''none'' s = Ret (s\<lparr>gs := (gs s)\<lparr>trace := trace (gs s) @ evs\<rparr>, dbc := ?db\<rparr>,
      out @ vty_line T (''% Updated subscriber '' @ imsi_text subscr @ '': removed MSISDN''), CMD_SUCCESS)"
    using assms(4) upd evs(1)
    by (simp add: subscriber_msisdn_def with_subscr_def imsi notify_and_succeed_def osmo_hlr_subscriber_update_notify_def Let_def)
  then show ?thesis unfolding imsi
    using subscribers_unique [OF wf r(1)] new old evs(2)
    by (intro exI [of _ "s\<lparr>gs := (gs s)\<lparr>trace := trace (gs s) @ evs\<rparr>, dbc := ?db\<rparr>"] exI [of _ r] exI [of _ "r\<lparr>row_msisdn := None\<rparr>"] exI [of _ evs]) simp
qed

section \<open>Examples\<close>

definition ref_vty :: vty_lib where
  "ref_vty = \<lparr>osmo_auth_alg_name = show_dec, osmo_hexdump_nospc = id, VTY_NEWLINE = [CHR 0x0A], osmo_luhn = (\<lambda>_ _. 48)\<rparr>"

lemma hlr_first_good: "db_good ref_core (dbc hlr_first)" "db_good (l_core ref_lib) (dbc hlr_first)"
  using db_one_facts(1) db_one_imsis by (simp_all add: db_good_def ref_lib_def)

lemma argv_1001: "\<exists>out subscr. get_subscr_by_argv ref_core ref_vty ref_env ''msisdn'' ''1001'' (dbc hlr_first) = (out, Inr subscr)"
  by (simp add: get_subscr_by_argv_def Let_def db_subscr_get_by_msisdn_def db_sel_def ref_env_def db_one_def new_subscriber_def)

lemma leap_day: "gmtime_date 951827696 = (2000, 2, 29)" "gmtime_date (- 1) = (1969, 12, 31)" "gmtime_date 4107542400 = (2100, 3, 1)"
  by code_simp+

lemma create_returns:
  "\<exists>s' out. hlr_vty_subscriber ref_lib ref_vty ref_env [] (Subscriber_Create ''262420000000002'') hlr_first = Ret (s', out, CMD_SUCCESS)"
proof -
  let ?i = "''262420000000002''"
  have v: "osmo_imsi_str_valid ref_core ?i" by (simp add: ref_core_def is_digit_def octet_val_def)
  have n: "subscribers db_one ?i = None" by (simp add: subscribers_def db_one_def new_subscriber_def)
  obtain db where db: "db_subscr_create ref_core ref_env ?i True True db_one = (db, 0)" "subscribers db ?i \<noteq> None"
    using create_spec [OF ref_env_ok v, where cs = True and ps = True and db = db_one] n by (simp add: subscribers_None new_subscriber_def)
  obtain x where "db_subscr_get_by_imsi ref_env ?i db = Inr x" using get_by_imsi_ok [OF ref_env_ok, of ?i db] db(2) by auto
  then show ?thesis using v db(1) by (simp add: subscriber_create_def ref_lib_def Let_def)
qed

theorem vty_commands_safe_witness:
  "\<exists>s'. vty_session ref_lib ref_vty [(ref_env, [], Subscriber_Create ''262420000000002'')] hlr_first = Ret s' \<and>
    hlr_inv s' \<and> db_good (l_core ref_lib) (dbc s')"
  using vty_commands_safe [OF hlr_first_facts(5,1) hlr_first_good(2), where T = ref_vty and nr = 0 and cmds = "[(ref_env, [], Subscriber_Create ''262420000000002'')]"]
  by (auto simp: ref_env_ok split: exec.splits)

theorem vty_warning_changes_nothing_witness:
  "\<exists>out. hlr_vty_subscriber ref_lib ref_vty ref_env [] (Subscriber_Create ''262420000000001'') hlr_first = Ret (hlr_first, out, CMD_WARNING)"
proof -
  have "\<exists>s' out. hlr_vty_subscriber ref_lib ref_vty ref_env [] (Subscriber_Create ''262420000000001'') hlr_first = Ret (s', out, CMD_WARNING)"
    by (simp add: subscriber_create_def ref_lib_def ref_core_def is_digit_def octet_val_def db_subscr_create_def ref_env_def step_change_def
        sql_subscr_create_def db_one_def new_subscriber_def Let_def)
  then obtain s' out where r: "hlr_vty_subscriber ref_lib ref_vty ref_env [] (Subscriber_Create ''262420000000001'') hlr_first = Ret (s', out, CMD_WARNING)"
    by blast
  have "s' = hlr_first" by (rule vty_warning_changes_nothing [OF hlr_first_facts(5) ref_env_ok hlr_first_good(2) r])
  then show ?thesis using r by blast
qed

theorem vty_aud3g_roundtrip_witness:
  "\<exists>out db. subscriber_aud3g ref_core ref_vty ref_env ''msisdn'' ''1001'' (replicate 32 CHR ''7'') ''opc'' (replicate 32 CHR ''8'') None hlr_first =
     Ret (hlr_first\<lparr>dbc := db\<rparr>, out, CMD_SUCCESS)"
proof -
  obtain subscr where g: "snd (get_subscr_by_argv ref_core ref_vty ref_env ''msisdn'' ''1001'' (dbc hlr_first)) = Inr subscr"
    using argv_1001 by auto
  from vty_aud3g_roundtrip [OF ref_env_ok hlr_first_good(1) ref_strings_ok ref_hex_ok g,
      of "replicate 32 CHR ''7''" "replicate 32 CHR ''8''" "''opc''" None]
  show ?thesis by (auto simp: ref_core_def)
qed

definition msisdn_gsup :: gsup_lib where
  \<comment> \<open>an encoder that keeps the MSISDN\<close>
  "msisdn_gsup = ref_gsup\<lparr>osmo_gsup_encode := msisdn_enc\<rparr>"

definition vlr_conn :: osmo_gsup_conn where
  "vlr_conn = (conn_zero 1)\<lparr>supports_cs := True, conn_ccm := (\<lambda>t. if t = IPAC_IDTAG_SERNR then Some (''MSC'' @ [NUL]) else None)\<rparr>"

definition vlr_row :: subscriber_row where
  "vlr_row = (new_subscriber 1 ''262420000000001'' True True)\<lparr>row_msisdn := Some ''1001'', row_vlr_number := Some ''MSC''\<rparr>"

definition hlr_vlr :: hlr_world where
  \<comment> \<open>the subscriber is registered at a connected VLR\<close>
  "hlr_vlr = hlr_first\<lparr>gs := gs_example\<lparr>clients := [vlr_conn]\<rparr>, dbc := db_one\<lparr>tbl_subscriber := [vlr_row]\<rparr>\<rparr>"

lemma hlr_vlr_facts:
  "db_good ref_core (dbc hlr_vlr)" "vlr_conn \<in> set (clients (gs hlr_vlr))" "trace (gs hlr_vlr) = []"
  "gsup_route_find (gs hlr_vlr) (''MSC'' @ [NUL]) = Some 1"
  "get_subscr_by_argv ref_core ref_vty ref_env ''msisdn'' ''1001'' (dbc hlr_vlr) = ([], Inr (row_to_subscriber ref_env vlr_row))"
  "sub_vlr_number (row_to_subscriber ref_env vlr_row) = ''MSC''" "sub_msisdn (row_to_subscriber ref_env vlr_row) = ''1001''"
  "sub_imsi (row_to_subscriber ref_env vlr_row) = ''262420000000001''"
  by (simp_all add: hlr_vlr_def vlr_row_def vlr_conn_def gs_example_def db_good_def db_wf_def imsis_ok_def db_one_def msisdn_unique_def
      new_subscriber_def ref_core_def is_digit_def octet_val_def gsup_route_find_def memcmp_eq_0 get_subscr_by_argv_def Let_def vty_line_if_def
      db_subscr_get_by_msisdn_def db_sel_def ref_env_def row_to_subscriber_def copy_text_def)

theorem vty_removed_msisdn_announced_witness:
  "\<exists>s' out new. subscriber_msisdn ref_core msisdn_gsup ref_vty ref_env [] ''msisdn'' ''1001'' ''none'' hlr_vlr = Ret (s', out, CMD_SUCCESS) \<and>
     subscribers (dbc s') ''262420000000001'' = Some new \<and> row_msisdn new = None \<and>
     EvTx 1 (CHR 0x04 # ''1001'') \<in> set (trace (gs s'))"
proof -
  have four: "char_of (Suc (Suc (Suc (Suc 0)))) = CHR 0x04" by code_simp
  have "\<exists>s' old new evs. subscriber_msisdn ref_core msisdn_gsup ref_vty ref_env [] ''msisdn'' ''1001'' ''none'' hlr_vlr =
      Ret (s', [] @ vty_line ref_vty (''% Updated subscriber '' @ imsi_text (row_to_subscriber ref_env vlr_row) @ '': removed MSISDN''), CMD_SUCCESS) \<and>
    subscribers (dbc hlr_vlr) (sub_imsi (row_to_subscriber ref_env vlr_row)) = Some old \<and>
    sub_msisdn (row_to_subscriber ref_env vlr_row) = copy_text 16 (row_msisdn old) \<and>
    subscribers (dbc s') (sub_imsi (row_to_subscriber ref_env vlr_row)) = Some new \<and> row_msisdn new = None \<and>
    trace (gs s') = trace (gs hlr_vlr) @ evs \<and> EvTx 1 (CHR 0x04 # ''1001'') \<in> set evs"
    by (rule vty_removed_msisdn_announced [OF ref_env_ok hlr_vlr_facts(1) ref_strings_ok hlr_vlr_facts(5,2), where enc = "CHR 0x04 # ''1001''"])
      (simp_all add: hlr_vlr_facts hlr_vlr_facts(4) [simplified], simp_all add: vlr_conn_def msisdn_gsup_def ref_gsup_def gsup_zero_def
        conn_zero_def four)
  then show ?thesis by (auto simp: hlr_vlr_facts)
qed

end
