(* ===== verification/Db_Open.thy ===== *)
theory Db_Open
  imports Db
begin

text \<open>
  Opening, bootstrapping and upgrading a database file: \<open>db_open\<close> of \<open>src/db.c\<close> and \<open>sql/hlr.sql\<close>. A file is its tables and
  its version number; a connection has temporary tables besides, and remembers the file as it was when a transaction
  began. The SQL statements are values of the type \<open>sql_stmt\<close>, executed as SQLite does: a statement that names a
  missing table or column, or would violate a constraint, fails and changes nothing; closing a connection with an
  open transaction undoes it. SQLite may refuse any statement for other reasons, which is the
  parameter \<open>file_env\<close>. Settings for logging and journals do not change the contents and are left out.
\<close>

section \<open>Files and statements\<close>

type_synonym sql_row = "string \<Rightarrow> string option"

record sql_table =
  t_cols :: "string list"
  t_unique :: "string list"
  t_notnull :: "string list"
  t_rows :: "sql_row list"

record db_file =
  f_tables :: "string \<rightharpoonup> sql_table"
  f_version :: int

record db_conn =
  c_file :: db_file
  c_temp :: "string \<rightharpoonup> sql_table"
  c_saved :: "db_file option"

datatype sql_stmt =
    Sql_Begin
  | Sql_Commit
  | Sql_Create string sql_table
  | Sql_Create_Temp string sql_table
  | Sql_Create_Index string "string list"
  | Sql_Insert_Select string "string list" string
  | Sql_Drop string
  | Sql_Add_Column string string
  | Sql_User_Version int

abbreviation (input) SQLITE_OK :: int where "SQLITE_OK \<equiv> 0"
abbreviation (input) SQLITE_ERROR :: int where "SQLITE_ERROR \<equiv> 1"
abbreviation (input) SQLITE_DONE :: int where "SQLITE_DONE \<equiv> 101"

definition table_of :: "db_conn \<Rightarrow> string \<Rightarrow> sql_table option" where
  \<comment> \<open>a temporary table hides one of the file\<close>
  "table_of c n = (case c_temp c n of Some t \<Rightarrow> Some t | None \<Rightarrow> f_tables (c_file c) n)"

definition put_table :: "string \<Rightarrow> sql_table option \<Rightarrow> db_conn \<Rightarrow> db_conn" where
  "put_table n t c = (if c_temp c n \<noteq> None then c\<lparr>c_temp := (c_temp c)(n := t)\<rparr>
     else c\<lparr>c_file := (c_file c)\<lparr>f_tables := (f_tables (c_file c))(n := t)\<rparr>\<rparr>)"

definition constraints_ok :: "sql_table \<Rightarrow> bool" where
  "constraints_ok t \<longleftrightarrow>
     list_all (\<lambda>r. list_all (\<lambda>c. r c \<noteq> None) (t_notnull t)) (t_rows t) \<and>
     list_all (\<lambda>c. distinct (filter (\<lambda>v. v \<noteq> None) (map (\<lambda>r. r c) (t_rows t)))) (t_unique t)"

definition select_into :: "string list \<Rightarrow> string list \<Rightarrow> sql_row \<Rightarrow> sql_row" where
  \<comment> \<open>the selected values, by position in the columns of the target\<close>
  "select_into dst src r = (\<lambda>c. case map_of (zip dst src) c of None \<Rightarrow> None | Some k \<Rightarrow> r k)"

fun sql_exec :: "sql_stmt \<Rightarrow> db_conn \<Rightarrow> int + db_conn" where
  "sql_exec Sql_Begin c = (if c_saved c \<noteq> None then Inl SQLITE_ERROR else Inr (c\<lparr>c_saved := Some (c_file c)\<rparr>))"
| "sql_exec Sql_Commit c = (if c_saved c = None then Inl SQLITE_ERROR else Inr (c\<lparr>c_saved := None\<rparr>))"
| "sql_exec (Sql_Create n t) c =
     (if f_tables (c_file c) n \<noteq> None then Inl SQLITE_ERROR
      else Inr (c\<lparr>c_file := (c_file c)\<lparr>f_tables := (f_tables (c_file c))(n \<mapsto> t)\<rparr>\<rparr>))"
| "sql_exec (Sql_Create_Temp n t) c =
     (if c_temp c n \<noteq> None then Inl SQLITE_ERROR else Inr (c\<lparr>c_temp := (c_temp c)(n \<mapsto> t)\<rparr>))"
| "sql_exec (Sql_Create_Index n cols) c =
     (case table_of c n of
        None \<Rightarrow> Inl SQLITE_ERROR
      | Some t \<Rightarrow>
          let t' = t\<lparr>t_unique := t_unique t @ cols\<rparr>
          in if \<not> set cols \<subseteq> set (t_cols t) then Inl SQLITE_ERROR
             else if \<not> constraints_ok t' then Inl SQLITE_CONSTRAINT
             else Inr (put_table n (Some t') c))"
| "sql_exec (Sql_Insert_Select dst cols src) c =
     (case (table_of c dst, table_of c src) of
        (Some d, Some s) \<Rightarrow>
          if \<not> set cols \<subseteq> set (t_cols s) \<or> length cols \<noteq> length (t_cols d) then Inl SQLITE_ERROR
          else
            let d' = d\<lparr>t_rows := t_rows d @ map (select_into (t_cols d) cols) (t_rows s)\<rparr>
            in if \<not> constraints_ok d' then Inl SQLITE_CONSTRAINT else Inr (put_table dst (Some d') c)
      | _ \<Rightarrow> Inl SQLITE_ERROR)"
| "sql_exec (Sql_Drop n) c = (if table_of c n = None then Inl SQLITE_ERROR else Inr (put_table n None c))"
| "sql_exec (Sql_Add_Column n col) c =
     (case table_of c n of
        None \<Rightarrow> Inl SQLITE_ERROR
      | Some t \<Rightarrow>
          if col \<in> set (t_cols t) then Inl SQLITE_ERROR
          else Inr (put_table n (Some (t\<lparr>t_cols := t_cols t @ [col], t_rows := map (\<lambda>r. r(col := None)) (t_rows t)\<rparr>)) c))"
| "sql_exec (Sql_User_Version v) c = Inr (c\<lparr>c_file := (c_file c)\<lparr>f_version := v\<rparr>\<rparr>)"

record file_env =
  open_rc :: int
  sql_fault :: "sql_stmt \<Rightarrow> int option"
  version_fault :: bool
  exists_fault :: bool
  prepare_fault :: "stmt_idx \<Rightarrow> bool"

section \<open>The schema\<close>

definition SUBSCR_V3_COLUMN_NAMES :: "string list" where
  "SUBSCR_V3_COLUMN_NAMES = [''id'', ''imsi'', ''msisdn'', ''imeisv'', ''imei'', ''vlr_number'', ''msc_number'', ''sgsn_number'',
     ''sgsn_address'', ''ggsn_number'', ''gmlc_number'', ''smsc_number'', ''periodic_lu_tmr'', ''periodic_rau_tau_tmr'',
     ''nam_cs'', ''nam_ps'', ''lmsi'', ''ms_purged_cs'', ''ms_purged_ps'', ''last_lu_seen'']"

definition SUBSCR_V2_COLUMN_NAMES :: "string list" where
  "SUBSCR_V2_COLUMN_NAMES = [''id'', ''imsi'', ''msisdn'', ''imeisv'', ''imei'', ''vlr_number'', ''hlr_number'', ''sgsn_number'',
     ''sgsn_address'', ''ggsn_number'', ''gmlc_number'', ''smsc_number'', ''periodic_lu_tmr'', ''periodic_rau_tau_tmr'',
     ''nam_cs'', ''nam_ps'', ''lmsi'', ''ms_purged_cs'', ''ms_purged_ps'', ''last_lu_seen'']"

definition subscr_table :: "string list \<Rightarrow> sql_table" where
  \<comment> \<open>the constraints are the same in all versions; the primary key is never NULL\<close>
  "subscr_table cols = \<lparr>t_cols = cols, t_unique = [''id'', ''imsi'', ''msisdn''],
     t_notnull = [''id'', ''imsi'', ''nam_cs'', ''nam_ps'', ''ms_purged_cs'', ''ms_purged_ps''], t_rows = []\<rparr>"

definition SUBSCR_V3_CREATE :: sql_table where
  "SUBSCR_V3_CREATE = subscr_table [''id'', ''imsi'', ''msisdn'', ''imeisv'', ''imei'', ''vlr_number'', ''msc_number'', ''sgsn_number'',
     ''sgsn_address'', ''ggsn_number'', ''gmlc_number'', ''smsc_number'', ''periodic_lu_tmr'', ''periodic_rau_tau_tmr'',
     ''nam_cs'', ''nam_ps'', ''lmsi'', ''ms_purged_cs'', ''ms_purged_ps'', ''last_lu_seen'']"

definition stmt_bootstrap_sql :: "sql_stmt list" where
  "stmt_bootstrap_sql = [
     Sql_Create ''subscriber'' (subscr_table [''id'', ''imsi'', ''msisdn'', ''imeisv'', ''imei'', ''vlr_number'', ''msc_number'',
       ''sgsn_number'', ''sgsn_address'', ''ggsn_number'', ''gmlc_number'', ''smsc_number'', ''periodic_lu_tmr'',
       ''periodic_rau_tau_tmr'', ''nam_cs'', ''nam_ps'', ''lmsi'', ''ms_purged_cs'', ''ms_purged_ps'', ''last_lu_seen'',
       ''last_lu_seen_ps'', ''vlr_via_proxy'', ''sgsn_via_proxy'']),
     Sql_Create ''subscriber_apn'' \<lparr>t_cols = [''subscriber_id'', ''apn''], t_unique = [], t_notnull = [''apn''], t_rows = []\<rparr>,
     Sql_Create ''subscriber_multi_msisdn''
       \<lparr>t_cols = [''subscriber_id'', ''msisdn''], t_unique = [], t_notnull = [''msisdn''], t_rows = []\<rparr>,
     Sql_Create ''auc_2g'' \<lparr>t_cols = [''subscriber_id'', ''algo_id_2g'', ''ki''], t_unique = [''subscriber_id''],
       t_notnull = [''subscriber_id'', ''algo_id_2g'', ''ki''], t_rows = []\<rparr>,
     Sql_Create ''auc_3g'' \<lparr>t_cols = [''subscriber_id'', ''algo_id_3g'', ''k'', ''op'', ''opc'', ''sqn'', ''ind_bitlen''],
       t_unique = [''subscriber_id''], t_notnull = [''subscriber_id'', ''algo_id_3g'', ''k'', ''sqn'', ''ind_bitlen''], t_rows = []\<rparr>,
     Sql_Create_Index ''subscriber'' [''imsi''],
     Sql_User_Version 5]"

definition CURRENT_SCHEMA_VERSION :: nat where "CURRENT_SCHEMA_VERSION = 5"

section \<open>Operations\<close>

fun db_run_statements :: "file_env \<Rightarrow> sql_stmt list \<Rightarrow> int \<Rightarrow> db_conn \<Rightarrow> db_conn \<times> int" where
  "db_run_statements E [] rc c = (c, rc)"
| "db_run_statements E (st # sts) rc c =
     (case sql_fault E st of
        Some rc \<Rightarrow> (c, rc)
      | None \<Rightarrow> (case sql_exec st c of Inl rc \<Rightarrow> (c, rc) | Inr c \<Rightarrow> db_run_statements E sts SQLITE_DONE c))"

definition db_bootstrap :: "file_env \<Rightarrow> db_conn \<Rightarrow> db_conn \<times> int" where
  "db_bootstrap E c = (case db_run_statements E stmt_bootstrap_sql 0 c of
     (c, rc) \<Rightarrow> if rc \<noteq> SQLITE_DONE then (c, rc) else (c, SQLITE_OK))"

definition db_table_exists :: "file_env \<Rightarrow> string \<Rightarrow> db_conn \<Rightarrow> bool" where
  "db_table_exists E n c \<longleftrightarrow> \<not> exists_fault E \<and> f_tables (c_file c) n \<noteq> None"

definition db_is_bootstrapped_v0 :: "file_env \<Rightarrow> db_conn \<Rightarrow> bool" where
  "db_is_bootstrapped_v0 E c \<longleftrightarrow> db_table_exists E ''subscriber'' c"

definition db_upgrade_v1 :: "file_env \<Rightarrow> db_conn \<Rightarrow> db_conn \<times> int" where
  "db_upgrade_v1 E = db_run_statements E [Sql_Add_Column ''subscriber'' ''last_lu_seen'', Sql_User_Version 1] 0"

definition db_upgrade_v2 :: "file_env \<Rightarrow> db_conn \<Rightarrow> db_conn \<times> int" where
  "db_upgrade_v2 E = db_run_statements E [Sql_Add_Column ''subscriber'' ''imei'', Sql_User_Version 2] 0"

definition db_upgrade_v3 :: "file_env \<Rightarrow> db_conn \<Rightarrow> db_conn \<times> int" where
  "db_upgrade_v3 E = db_run_statements E [
     Sql_Begin,
     Sql_Create_Temp ''subscriber_backup'' SUBSCR_V3_CREATE,
     Sql_Insert_Select ''subscriber_backup'' SUBSCR_V2_COLUMN_NAMES ''subscriber'',
     Sql_Drop ''subscriber'',
     Sql_Create ''subscriber'' SUBSCR_V3_CREATE,
     Sql_Insert_Select ''subscriber'' SUBSCR_V3_COLUMN_NAMES ''subscriber_backup'',
     Sql_Drop ''subscriber_backup'',
     Sql_Commit,
     Sql_User_Version 3] 0"

definition db_upgrade_v4 :: "file_env \<Rightarrow> db_conn \<Rightarrow> db_conn \<times> int" where
  "db_upgrade_v4 E = db_run_statements E [Sql_Add_Column ''subscriber'' ''last_lu_seen_ps'', Sql_User_Version 4] 0"

definition db_upgrade_v5 :: "file_env \<Rightarrow> db_conn \<Rightarrow> db_conn \<times> int" where
  "db_upgrade_v5 E = db_run_statements E [Sql_Add_Column ''subscriber'' ''vlr_via_proxy'',
     Sql_Add_Column ''subscriber'' ''sgsn_via_proxy'', Sql_User_Version 5] 0"

definition db_upgrade_path :: "(file_env \<Rightarrow> db_conn \<Rightarrow> db_conn \<times> int) list" where
  "db_upgrade_path = [db_upgrade_v1, db_upgrade_v2, db_upgrade_v3, db_upgrade_v4, db_upgrade_v5]"

definition db_get_user_version :: "file_env \<Rightarrow> db_conn \<Rightarrow> int" where
  "db_get_user_version E c = (if version_fault E then - 1 else f_version (c_file c))"

definition db_close :: "db_conn \<Rightarrow> db_file" where
  \<comment> \<open>what is in the file afterwards\<close>
  "db_close c = (case c_saved c of None \<Rightarrow> c_file c | Some f \<Rightarrow> f)"

function upgrade_loop :: "file_env \<Rightarrow> bool \<Rightarrow> nat \<Rightarrow> db_conn \<Rightarrow> db_conn \<times> nat option" where
  \<comment> \<open>the version reached, or None when an upgrade failed\<close>
  "upgrade_loop E allow_upgrade version c =
     (if allow_upgrade \<and> version < length db_upgrade_path then
        (case (db_upgrade_path ! version) E c of
           (c, rc) \<Rightarrow> if rc \<noteq> SQLITE_DONE then (c, None) else upgrade_loop E allow_upgrade (version + 1) c)
      else (c, Some version))"
  by pat_completeness auto
termination by (relation "measure (\<lambda>(_, _, version, _). length db_upgrade_path - version)") auto

declare upgrade_loop.simps [simp del]

definition SEL_COLUMNS :: "string list" where
  "SEL_COLUMNS = [''id'', ''imsi'', ''msisdn'', ''imei'', ''vlr_number'', ''sgsn_number'', ''sgsn_address'', ''periodic_lu_tmr'',
     ''periodic_rau_tau_tmr'', ''nam_cs'', ''nam_ps'', ''lmsi'', ''ms_purged_cs'', ''ms_purged_ps'', ''last_lu_seen'',
     ''last_lu_seen_ps'', ''vlr_via_proxy'', ''sgsn_via_proxy'']"

fun stmt_sql :: "stmt_idx \<Rightarrow> (string \<times> string list) list" where
  \<comment> \<open>the tables and columns a statement names\<close>
  "stmt_sql DB_STMT_SEL_BY_IMSI = [(''subscriber'', SEL_COLUMNS @ [''imsi''])]"
| "stmt_sql DB_STMT_SEL_BY_MSISDN = [(''subscriber'', SEL_COLUMNS @ [''msisdn''])]"
| "stmt_sql DB_STMT_SEL_BY_ID = [(''subscriber'', SEL_COLUMNS @ [''id''])]"
| "stmt_sql DB_STMT_SEL_BY_IMEI = [(''subscriber'', SEL_COLUMNS @ [''imei''])]"
| "stmt_sql DB_STMT_UPD_VLR_BY_ID = [(''subscriber'', [''vlr_number'', ''vlr_via_proxy'', ''id''])]"
| "stmt_sql DB_STMT_UPD_SGSN_BY_ID = [(''subscriber'', [''sgsn_number'', ''sgsn_via_proxy'', ''id''])]"
| "stmt_sql DB_STMT_UPD_IMEI_BY_IMSI = [(''subscriber'', [''imei'', ''imsi''])]"
| "stmt_sql DB_STMT_AUC_BY_IMSI = [(''subscriber'', [''id'', ''imsi'']), (''auc_2g'', [''algo_id_2g'', ''ki'', ''subscriber_id'']),
     (''auc_3g'', [''algo_id_3g'', ''k'', ''op'', ''opc'', ''sqn'', ''ind_bitlen'', ''subscriber_id''])]"
| "stmt_sql DB_STMT_AUC_UPD_SQN = [(''auc_3g'', [''sqn'', ''subscriber_id''])]"
| "stmt_sql DB_STMT_UPD_PURGE_CS_BY_IMSI = [(''subscriber'', [''ms_purged_cs'', ''imsi''])]"
| "stmt_sql DB_STMT_UPD_PURGE_PS_BY_IMSI = [(''subscriber'', [''ms_purged_ps'', ''imsi''])]"
| "stmt_sql DB_STMT_UPD_NAM_CS_BY_IMSI = [(''subscriber'', [''nam_cs'', ''imsi''])]"
| "stmt_sql DB_STMT_UPD_NAM_PS_BY_IMSI = [(''subscriber'', [''nam_ps'', ''imsi''])]"
| "stmt_sql DB_STMT_SUBSCR_CREATE = [(''subscriber'', [''imsi'', ''nam_cs'', ''nam_ps''])]"
| "stmt_sql DB_STMT_DEL_BY_ID = [(''subscriber'', [''id''])]"
| "stmt_sql DB_STMT_SET_MSISDN_BY_IMSI = [(''subscriber'', [''msisdn'', ''imsi''])]"
| "stmt_sql DB_STMT_DELETE_MSISDN_BY_IMSI = [(''subscriber'', [''msisdn'', ''imsi''])]"
| "stmt_sql DB_STMT_AUC_2G_INSERT = [(''auc_2g'', [''subscriber_id'', ''algo_id_2g'', ''ki''])]"
| "stmt_sql DB_STMT_AUC_2G_DELETE = [(''auc_2g'', [''subscriber_id''])]"
| "stmt_sql DB_STMT_AUC_3G_INSERT = [(''auc_3g'', [''subscriber_id'', ''algo_id_3g'', ''k'', ''op'', ''opc'', ''ind_bitlen''])]"
| "stmt_sql DB_STMT_AUC_3G_DELETE = [(''auc_3g'', [''subscriber_id''])]"
| "stmt_sql DB_STMT_SET_LAST_LU_SEEN = [(''subscriber'', [''last_lu_seen'', ''id''])]"
| "stmt_sql DB_STMT_SET_LAST_LU_SEEN_PS = [(''subscriber'', [''last_lu_seen_ps'', ''id''])]"
| "stmt_sql DB_STMT_EXISTS_BY_IMSI = [(''subscriber'', [''imsi''])]"
| "stmt_sql DB_STMT_EXISTS_BY_MSISDN = [(''subscriber'', [''msisdn''])]"

definition all_stmts :: "stmt_idx list" where
  "all_stmts = [DB_STMT_SEL_BY_IMSI, DB_STMT_SEL_BY_MSISDN, DB_STMT_SEL_BY_ID, DB_STMT_SEL_BY_IMEI, DB_STMT_UPD_VLR_BY_ID,
     DB_STMT_UPD_SGSN_BY_ID, DB_STMT_UPD_IMEI_BY_IMSI, DB_STMT_AUC_BY_IMSI, DB_STMT_AUC_UPD_SQN, DB_STMT_UPD_PURGE_CS_BY_IMSI,
     DB_STMT_UPD_PURGE_PS_BY_IMSI, DB_STMT_UPD_NAM_PS_BY_IMSI, DB_STMT_UPD_NAM_CS_BY_IMSI, DB_STMT_SUBSCR_CREATE, DB_STMT_DEL_BY_ID,
     DB_STMT_SET_MSISDN_BY_IMSI, DB_STMT_DELETE_MSISDN_BY_IMSI, DB_STMT_AUC_2G_INSERT, DB_STMT_AUC_2G_DELETE, DB_STMT_AUC_3G_INSERT,
     DB_STMT_AUC_3G_DELETE, DB_STMT_SET_LAST_LU_SEEN, DB_STMT_SET_LAST_LU_SEEN_PS, DB_STMT_EXISTS_BY_IMSI, DB_STMT_EXISTS_BY_MSISDN]"

definition prepare_ok :: "file_env \<Rightarrow> db_conn \<Rightarrow> stmt_idx \<Rightarrow> bool" where
  "prepare_ok E c st \<longleftrightarrow> \<not> prepare_fault E st \<and>
     list_all (\<lambda>(n, cols). case table_of c n of None \<Rightarrow> False | Some t \<Rightarrow> list_all (\<lambda>col. col \<in> set (t_cols t)) cols) (stmt_sql st)"

definition open_at :: "file_env \<Rightarrow> bool \<Rightarrow> db_conn \<Rightarrow> nat \<Rightarrow> db_conn option \<times> db_file" where
  \<comment> \<open>the part of \<open>db_open\<close> once the version is known: the upgrades, and the preparation of the statements\<close>
  "open_at E allow_upgrade c version =
     (case upgrade_loop E allow_upgrade version c of
        (c, None) \<Rightarrow> (None, db_close c)
      | (c, Some version) \<Rightarrow>
          if version \<noteq> CURRENT_SCHEMA_VERSION then (None, db_close c)
          else if \<not> list_all (prepare_ok E c) all_stmts then (None, db_close c)
          else (Some c, c_file c))"

definition db_open :: "file_env \<Rightarrow> bool \<Rightarrow> db_file \<Rightarrow> db_conn option \<times> db_file" where
  \<comment> \<open>the connection, and the file\<close>
  "db_open E allow_upgrade f =
     (let c = \<lparr>c_file = f, c_temp = (\<lambda>_. None), c_saved = None\<rparr>
      in if open_rc E \<noteq> SQLITE_OK then (None, f)
         else if db_get_user_version E c < 0 then (None, db_close c)
         else if db_get_user_version E c = 0 \<and> \<not> db_is_bootstrapped_v0 E c then
           (case db_bootstrap E c of
              (c, rc) \<Rightarrow> if rc \<noteq> SQLITE_OK then (None, db_close c) else open_at E allow_upgrade c CURRENT_SCHEMA_VERSION)
         else open_at E allow_upgrade c (nat (db_get_user_version E c)))"

section \<open>Files of every version of the schema\<close>

definition common_cols :: "string list" where
  "common_cols = [''id'', ''imsi'', ''msisdn'', ''imeisv'', ''vlr_number'', ''sgsn_number'', ''sgsn_address'',
     ''ggsn_number'', ''gmlc_number'', ''smsc_number'', ''periodic_lu_tmr'', ''periodic_rau_tau_tmr'', ''nam_cs'', ''nam_ps'',
     ''lmsi'', ''ms_purged_cs'', ''ms_purged_ps'']"

definition subscriber_cols :: "nat \<Rightarrow> string list" where
  \<comment> \<open>the columns of version v, in some order\<close>
  "subscriber_cols v = common_cols @
     (if v < 3 then [''hlr_number''] else [''msc_number'']) @
     (if 1 \<le> v then [''last_lu_seen''] else []) @ (if 2 \<le> v then [''imei''] else []) @
     (if 4 \<le> v then [''last_lu_seen_ps''] else []) @ (if 5 \<le> v then [''vlr_via_proxy'', ''sgsn_via_proxy''] else [])"

lemmas schema_cols = subscriber_cols_def common_cols_def

definition auc_ok :: "db_file \<Rightarrow> bool" where
  "auc_ok f \<longleftrightarrow>
     (case f_tables f ''auc_2g'' of None \<Rightarrow> False | Some t \<Rightarrow> set [''subscriber_id'', ''algo_id_2g'', ''ki''] \<subseteq> set (t_cols t)) \<and>
     (case f_tables f ''auc_3g'' of None \<Rightarrow> False
      | Some t \<Rightarrow> set [''subscriber_id'', ''algo_id_3g'', ''k'', ''op'', ''opc'', ''sqn'', ''ind_bitlen''] \<subseteq> set (t_cols t))"

definition subscriber_ok :: "nat \<Rightarrow> sql_table \<Rightarrow> bool" where
  "subscriber_ok v t \<longleftrightarrow> set (t_cols t) = set (subscriber_cols v) \<and>
     set (t_unique t) = set (t_unique SUBSCR_V3_CREATE) \<and> set (t_notnull t) = set (t_notnull SUBSCR_V3_CREATE) \<and> constraints_ok t"

definition schema_ok :: "nat \<Rightarrow> db_file \<Rightarrow> bool" where
  \<comment> \<open>the file holds a database of schema version v\<close>
  "schema_ok v f \<longleftrightarrow> f_version f = int v \<and> auc_ok f \<and>
     (case f_tables f ''subscriber'' of None \<Rightarrow> False | Some t \<Rightarrow> subscriber_ok v t)"

definition no_fault :: "file_env \<Rightarrow> bool" where
  "no_fault E \<longleftrightarrow> open_rc E = SQLITE_OK \<and> sql_fault E = (\<lambda>_. None) \<and> \<not> version_fault E \<and> \<not> exists_fault E \<and>
     prepare_fault E = (\<lambda>_. False)"

definition fault_codes :: "file_env \<Rightarrow> bool" where
  \<comment> \<open>a statement that fails does not report success\<close>
  "fault_codes E \<longleftrightarrow> (\<forall>st. sql_fault E st \<noteq> Some SQLITE_DONE \<and> sql_fault E st \<noteq> Some SQLITE_OK)"

definition upgraded_row :: "nat \<Rightarrow> nat \<Rightarrow> sql_row \<Rightarrow> sql_row \<Rightarrow> bool" where
  \<comment> \<open>every column keeps its value, \<open>hlr_number\<close> under its new name; new columns are NULL\<close>
  "upgraded_row v w r r' \<longleftrightarrow> list_all (\<lambda>col. r' col =
     (if col = ''msc_number'' \<and> v < 3 then r ''hlr_number''
      else if col \<in> set (subscriber_cols v) then r col else None)) (subscriber_cols w)"

definition upgraded_file :: "nat \<Rightarrow> nat \<Rightarrow> db_file \<Rightarrow> db_file \<Rightarrow> bool" where
  "upgraded_file v w f f' \<longleftrightarrow> (\<forall>n. n \<noteq> ''subscriber'' \<longrightarrow> f_tables f' n = f_tables f n) \<and>
     (case (f_tables f ''subscriber'', f_tables f' ''subscriber'') of
        (Some t, Some t') \<Rightarrow> list_all2 (upgraded_row v w) (t_rows t) (t_rows t')
      | _ \<Rightarrow> False)"

section \<open>One upgrade\<close>

lemma stmt_no_fault [simp]: "no_fault E \<Longrightarrow> sql_fault E st = None"
  by (simp add: no_fault_def)

lemma constraints_iff:
  "constraints_ok t \<longleftrightarrow> (\<forall>c\<in>set (t_notnull t). None \<notin> set (map (\<lambda>r. r c) (t_rows t))) \<and>
     (\<forall>c\<in>set (t_unique t). distinct (filter (\<lambda>v. v \<noteq> None) (map (\<lambda>r. r c) (t_rows t))))"
  unfolding constraints_ok_def list_all_iff set_map image_iff by metis

lemma constraints_cong:
  assumes ok: "constraints_ok t" and u: "set (t_unique t') = set (t_unique t)" and n: "set (t_notnull t') = set (t_notnull t)"
    and rows: "\<And>c. c \<in> set (t_unique t) \<union> set (t_notnull t) \<Longrightarrow> map (\<lambda>r. r c) (t_rows t') = map (\<lambda>r. r c) (t_rows t)"
  shows "constraints_ok t'"
  unfolding constraints_iff u n
proof (intro conjI ballI)
  fix c assume c: "c \<in> set (t_notnull t)"
  show "None \<notin> set (map (\<lambda>r. r c) (t_rows t'))"
    unfolding rows [OF UnI2 [OF c]] using ok c unfolding constraints_iff by blast
next
  fix c assume c: "c \<in> set (t_unique t)"
  show "distinct (filter (\<lambda>v. v \<noteq> None) (map (\<lambda>r. r c) (t_rows t')))"
    unfolding rows [OF UnI1 [OF c]] using ok c unfolding constraints_iff by blast
qed

lemma upgraded_keys:
  assumes "list_all2 (upgraded_row v w) rs rs'" and "c \<in> set (subscriber_cols 0) - {''hlr_number''}"
  shows "map (\<lambda>r. r c) rs' = map (\<lambda>r. r c) rs"
proof -
  have "upgraded_row v w r r' \<Longrightarrow> r' c = r c" for r r'
    using assms(2) by (auto simp: upgraded_row_def list_all_iff schema_cols)
  from assms(1) this show ?thesis by (induction rule: list_all2_induct) auto
qed

lemma upgraded_constraints:
  assumes "subscriber_ok v t" and "list_all2 (upgraded_row v w) (t_rows t) (t_rows t')"
    and "set (t_unique t') = set (t_unique t)" and "set (t_notnull t') = set (t_notnull t)"
  shows "constraints_ok t'"
proof (rule constraints_cong [of t])
  show "constraints_ok t" using assms(1) by (simp add: subscriber_ok_def)
  fix c assume "c \<in> set (t_unique t) \<union> set (t_notnull t)"
  then have "c \<in> set (subscriber_cols 0) - {''hlr_number''}"
    using assms(1) by (auto simp: subscriber_ok_def SUBSCR_V3_CREATE_def subscr_table_def schema_cols)
  then show "map (\<lambda>r. r c) (t_rows t') = map (\<lambda>r. r c) (t_rows t)" by (rule upgraded_keys [OF assms(2)])
qed (use assms in auto)

lemma add_column_exec:
  assumes "c_temp c = Map.empty" and "f_tables (c_file c) n = Some t" and "col \<notin> set (t_cols t)"
  shows "sql_exec (Sql_Add_Column n col) c = Inr (c\<lparr>c_file := (c_file c)\<lparr>f_tables := (f_tables (c_file c))(n \<mapsto>
    t\<lparr>t_cols := t_cols t @ [col], t_rows := map (\<lambda>r. r(col := None)) (t_rows t)\<rparr>)\<rparr>\<rparr>)"
  using assms by (simp add: table_of_def put_table_def)

lemma msc_number_iff [simp]: "''msc_number'' \<in> set (subscriber_cols v) \<longleftrightarrow> 3 \<le> v"
  by (simp add: schema_cols)

lemma added_row:
  assumes "(v < 3) = (w < 3)"
    and "\<And>c. c \<in> set (subscriber_cols w) \<Longrightarrow> r' c = (if c \<in> set (subscriber_cols v) then r c else None)"
  shows "upgraded_row v w r r'"
  using assms msc_number_iff [of w] unfolding upgraded_row_def list_all_iff by (metis not_less)

text \<open>The file of a connection with nothing pending.\<close>

definition idle :: "db_file \<Rightarrow> db_conn" where
  "idle f = \<lparr>c_file = f, c_temp = Map.empty, c_saved = None\<rparr>"

definition with_subscriber :: "nat \<Rightarrow> sql_table \<Rightarrow> db_file \<Rightarrow> db_file" where
  "with_subscriber v t f = f\<lparr>f_tables := (f_tables f)(''subscriber'' \<mapsto> t), f_version := int v\<rparr>"

lemma upgraded_ok:
  assumes "schema_ok v f" and "f_tables f ''subscriber'' = Some t"
    and "set (t_cols t') = set (subscriber_cols w)" and "set (t_unique t') = set (t_unique t)" and "set (t_notnull t') = set (t_notnull t)"
    and "list_all2 (upgraded_row v w) (t_rows t) (t_rows t')"
  shows "schema_ok w (with_subscriber w t' f) \<and> upgraded_file v w f (with_subscriber w t' f)"
proof -
  have ok: "subscriber_ok v t" using assms(1,2) by (simp add: schema_ok_def)
  have "constraints_ok t'" by (rule upgraded_constraints [OF ok assms(6,4,5)])
  then have "subscriber_ok w t'" using ok assms(3-5) by (simp add: subscriber_ok_def)
  then show ?thesis using assms(1,2,6)
    by (simp add: schema_ok_def with_subscriber_def auc_ok_def upgraded_file_def)
qed

definition upgrades :: "nat \<Rightarrow> (db_conn \<Rightarrow> db_conn \<times> int) \<Rightarrow> db_file \<Rightarrow> bool" where
  "upgrades v g f \<longleftrightarrow> (\<exists>f'. g (idle f) = (idle f', SQLITE_DONE) \<and> schema_ok (Suc v) f' \<and> upgraded_file v (Suc v) f f')"

lemma schema_subscriber:
  assumes "schema_ok v f"
  obtains t where "f_tables f ''subscriber'' = Some t" and "set (t_cols t) = set (subscriber_cols v)" and "subscriber_ok v t"
  using assms by (auto simp: schema_ok_def subscriber_ok_def split: option.splits)

lemma upgrade_adds:
  assumes "no_fault E" and "schema_ok v f" and "set (subscriber_cols (Suc v)) = insert col (set (subscriber_cols v))"
    and "col \<notin> set (subscriber_cols v)" and "(v < 3) = (Suc v < 3)"
  shows "upgrades v (db_run_statements E [Sql_Add_Column ''subscriber'' col, Sql_User_Version (int (Suc v))] 0) f"
proof -
  obtain t where t: "f_tables f ''subscriber'' = Some t" and cols: "set (t_cols t) = set (subscriber_cols v)"
    using schema_subscriber [OF assms(2)] by metis
  let ?t = "t\<lparr>t_cols := t_cols t @ [col], t_rows := map (\<lambda>r. r(col := None)) (t_rows t)\<rparr>"
  have "list_all2 (upgraded_row v (Suc v)) (t_rows t) (t_rows ?t)"
    using assms(3-5) by (auto simp: list_all2_conv_all_nth intro!: added_row)
  then have "schema_ok (Suc v) (with_subscriber (Suc v) ?t f) \<and> upgraded_file v (Suc v) f (with_subscriber (Suc v) ?t f)"
    using cols assms(3) by (intro upgraded_ok [OF assms(2) t]) auto
  moreover have "db_run_statements E [Sql_Add_Column ''subscriber'' col, Sql_User_Version (int (Suc v))] 0 (idle f) =
      (idle (with_subscriber (Suc v) ?t f), SQLITE_DONE)"
    using assms(1,4) t cols
    by (simp add: idle_def with_subscriber_def table_of_def put_table_def del: of_nat_Suc)
  ultimately show ?thesis unfolding upgrades_def by blast
qed

lemma upgrade_v5_ok:
  assumes "no_fault E" and "schema_ok 4 f"
  shows "upgrades 4 (db_upgrade_v5 E) f"
proof -
  obtain t where t: "f_tables f ''subscriber'' = Some t" and cols: "set (t_cols t) = set (subscriber_cols 4)"
    using schema_subscriber [OF assms(2)] by metis
  let ?t = "t\<lparr>t_cols := t_cols t @ [''vlr_via_proxy'', ''sgsn_via_proxy''],
    t_rows := map (\<lambda>r. r(''vlr_via_proxy'' := None, ''sgsn_via_proxy'' := None)) (t_rows t)\<rparr>"
  have "upgraded_row 4 5 r (r(''vlr_via_proxy'' := None, ''sgsn_via_proxy'' := None))" for r
    by (rule added_row) (auto simp: schema_cols)
  then have "list_all2 (upgraded_row 4 5) (t_rows t) (t_rows ?t)" by (simp add: list_all2_conv_all_nth)
  then have "schema_ok 5 (with_subscriber 5 ?t f) \<and> upgraded_file 4 5 f (with_subscriber 5 ?t f)"
    using cols by (intro upgraded_ok [OF assms(2) t]) (auto simp: schema_cols)
  moreover have "db_upgrade_v5 E (idle f) = (idle (with_subscriber 5 ?t f), SQLITE_DONE)"
    using assms(1) t cols
    by (simp add: db_upgrade_v5_def idle_def with_subscriber_def table_of_def put_table_def schema_cols comp_def)
  ultimately show ?thesis unfolding upgrades_def by auto
qed

lemma v3_names: "t_cols SUBSCR_V3_CREATE = SUBSCR_V3_COLUMN_NAMES"
  by (simp add: SUBSCR_V3_CREATE_def subscr_table_def SUBSCR_V3_COLUMN_NAMES_def)

lemma v3_rows:
  "select_into SUBSCR_V3_COLUMN_NAMES SUBSCR_V3_COLUMN_NAMES (select_into SUBSCR_V3_COLUMN_NAMES SUBSCR_V2_COLUMN_NAMES r) =
   select_into SUBSCR_V3_COLUMN_NAMES SUBSCR_V2_COLUMN_NAMES r"
  by (auto simp: fun_eq_iff select_into_def SUBSCR_V3_COLUMN_NAMES_def SUBSCR_V2_COLUMN_NAMES_def)

lemma v3_row_ok: "upgraded_row 2 3 r (select_into SUBSCR_V3_COLUMN_NAMES SUBSCR_V2_COLUMN_NAMES r)"
  by (simp add: upgraded_row_def select_into_def SUBSCR_V3_COLUMN_NAMES_def SUBSCR_V2_COLUMN_NAMES_def schema_cols)

lemma v3_cols:
  "set (subscriber_cols 3) = set SUBSCR_V3_COLUMN_NAMES" "set SUBSCR_V2_COLUMN_NAMES = set (subscriber_cols 2)"
  "length SUBSCR_V2_COLUMN_NAMES = length SUBSCR_V3_COLUMN_NAMES" "t_rows SUBSCR_V3_CREATE = []"
  by (auto simp: SUBSCR_V3_COLUMN_NAMES_def SUBSCR_V2_COLUMN_NAMES_def schema_cols SUBSCR_V3_CREATE_def subscr_table_def)

lemma upgrade_v3_ok:
  assumes "no_fault E" and "schema_ok 2 f"
  shows "upgrades 2 (db_upgrade_v3 E) f"
proof -
  obtain t where t: "f_tables f ''subscriber'' = Some t" and cols: "set (t_cols t) = set (subscriber_cols 2)"
      and ok: "subscriber_ok 2 t"
    using schema_subscriber [OF assms(2)] by metis
  let ?t = "SUBSCR_V3_CREATE\<lparr>t_rows := map (select_into SUBSCR_V3_COLUMN_NAMES SUBSCR_V2_COLUMN_NAMES) (t_rows t)\<rparr>"
  have rows: "list_all2 (upgraded_row 2 3) (t_rows t) (t_rows ?t)" by (simp add: list_all2_conv_all_nth v3_row_ok)
  have keys: "set (t_unique ?t) = set (t_unique t)" "set (t_notnull ?t) = set (t_notnull t)"
    using ok by (simp_all add: subscriber_ok_def)
  have con: "constraints_ok ?t" by (rule upgraded_constraints [OF ok rows keys])
  have "schema_ok 3 (with_subscriber 3 ?t f) \<and> upgraded_file 2 3 f (with_subscriber 3 ?t f)"
    using rows keys by (intro upgraded_ok [OF assms(2) t]) (simp_all add: v3_cols v3_names)
  moreover have "db_upgrade_v3 E (idle f) = (idle (with_subscriber 3 ?t f), SQLITE_DONE)"
    using assms(1) t cols con
    by (simp add: db_upgrade_v3_def idle_def with_subscriber_def table_of_def put_table_def v3_cols v3_names v3_rows comp_def
        fun_upd_idem Let_def)
  ultimately show ?thesis unfolding upgrades_def by auto
qed

lemma grown_cols:
  "set (subscriber_cols 1) = insert ''last_lu_seen'' (set (subscriber_cols 0))" "''last_lu_seen'' \<notin> set (subscriber_cols 0)"
  "set (subscriber_cols 2) = insert ''imei'' (set (subscriber_cols 1))" "''imei'' \<notin> set (subscriber_cols 1)"
  "set (subscriber_cols 4) = insert ''last_lu_seen_ps'' (set (subscriber_cols 3))" "''last_lu_seen_ps'' \<notin> set (subscriber_cols 3)"
  by (auto simp: schema_cols)

lemma upgrade_step:
  assumes "no_fault E" and "schema_ok v f" and "v < 5"
  shows "upgrades v ((db_upgrade_path ! v) E) f"
proof -
  consider "v = 0" | "v = 1" | "v = 2" | "v = 3" | "v = 4" using assms(3) by linarith
  then show ?thesis
  proof cases
    case 1
    then show ?thesis using upgrade_adds [OF assms(1,2), of "''last_lu_seen''"] grown_cols
      by (simp add: db_upgrade_path_def db_upgrade_v1_def [abs_def] eval_nat_numeral)
  next
    case 2
    then show ?thesis using upgrade_adds [OF assms(1,2), of "''imei''"] grown_cols
      by (simp add: db_upgrade_path_def db_upgrade_v2_def [abs_def] eval_nat_numeral)
  next
    case 3
    then show ?thesis using upgrade_v3_ok assms(1,2) by (simp add: db_upgrade_path_def)
  next
    case 4
    then show ?thesis using upgrade_adds [OF assms(1,2), of "''last_lu_seen_ps''"] grown_cols
      by (simp add: db_upgrade_path_def db_upgrade_v4_def [abs_def] eval_nat_numeral)
  next
    case 5
    then show ?thesis using upgrade_v5_ok assms(1,2) by (simp add: db_upgrade_path_def)
  qed
qed

section \<open>Opening\<close>

lemma in_cols: "c \<in> set (subscriber_cols v) \<longleftrightarrow> c \<in> set common_cols \<or> v < 3 \<and> c = ''hlr_number'' \<or>
    \<not> v < 3 \<and> c = ''msc_number'' \<or> 1 \<le> v \<and> c = ''last_lu_seen'' \<or> 2 \<le> v \<and> c = ''imei'' \<or>
    4 \<le> v \<and> c = ''last_lu_seen_ps'' \<or> 5 \<le> v \<and> (c = ''vlr_via_proxy'' \<or> c = ''sgsn_via_proxy'')"
  unfolding subscriber_cols_def
  by (cases "v < 3"; cases "1 \<le> v"; cases "2 \<le> v"; cases "4 \<le> v"; cases "5 \<le> v") (simp_all add: disj_ac)

lemma later_cols:
  assumes "c \<in> set (subscriber_cols v)" and "v \<le> w" and "c = ''hlr_number'' \<Longrightarrow> w < 3"
  shows "c \<in> set (subscriber_cols w)"
  using assms unfolding in_cols by (meson le_trans le_less_trans)

lemma upgraded_row_trans:
  assumes "upgraded_row v w r r'" and "upgraded_row w x r' r''" and "v \<le> w" and "w \<le> x"
  shows "upgraded_row v x r r''"
  unfolding upgraded_row_def list_all_iff
proof (rule ballI)
  fix c assume c: "c \<in> set (subscriber_cols x)"
  have 1: "r' c = (if c = ''msc_number'' \<and> v < 3 then r ''hlr_number'' else if c \<in> set (subscriber_cols v) then r c else None)"
    if "c \<in> set (subscriber_cols w)" for c
    using assms(1) that by (simp add: upgraded_row_def list_all_iff)
  have 2: "r'' c = (if c = ''msc_number'' \<and> w < 3 then r' ''hlr_number'' else if c \<in> set (subscriber_cols w) then r' c else None)"
    using assms(2) c by (simp add: upgraded_row_def list_all_iff)
  have hlr: "''hlr_number'' \<in> set (subscriber_cols u) \<longleftrightarrow> u < 3" for u by (simp add: schema_cols)
  then have nhlr: "c = ''hlr_number'' \<Longrightarrow> w < 3" using c assms(4) by simp
  show "r'' c = (if c = ''msc_number'' \<and> v < 3 then r ''hlr_number'' else if c \<in> set (subscriber_cols v) then r c else None)"
  proof (cases "c = ''msc_number''")
    case True
    then show ?thesis using 1 [of c] 1 [of "''hlr_number''"] 2 assms(3) hlr by (auto simp: not_less)
  next
    case False
    then show ?thesis using 1 [of c] 2 later_cols [OF _ assms(3) nhlr] by auto
  qed
qed

lemma upgraded_file_trans:
  assumes "upgraded_file v w f f'" and "upgraded_file w x f' f''" and "v \<le> w" and "w \<le> x"
  shows "upgraded_file v x f f''"
proof -
  have "list_all2 (upgraded_row v w) a b \<Longrightarrow> list_all2 (upgraded_row w x) b d \<Longrightarrow> list_all2 (upgraded_row v x) a d" for a b d
    by (rule list_all2_trans [of "upgraded_row v w" "upgraded_row w x"]) (rule upgraded_row_trans [OF _ _ assms(3,4)])
  then show ?thesis using assms(1,2) by (auto simp: upgraded_file_def split: option.splits)
qed

lemma upgraded_file_refl: "schema_ok v f \<Longrightarrow> upgraded_file v v f f"
  by (auto simp: upgraded_file_def schema_ok_def upgraded_row_def list_all_iff schema_cols
      intro!: list_all2_refl split: option.splits)

lemma upgrade_loop_ok:
  assumes "no_fault E" and "schema_ok v f" and "v \<le> 5"
  shows "\<exists>f'. upgrade_loop E True v (idle f) = (idle f', Some 5) \<and> schema_ok 5 f' \<and> upgraded_file v 5 f f'"
  using assms(2,3)
proof (induction "5 - v" arbitrary: v f)
  case 0
  then have "v = 5" by simp
  then show ?case using 0 upgraded_file_refl by (auto simp: db_upgrade_path_def upgrade_loop.simps)
next
  case (Suc n)
  then have v: "v < 5" "n = 5 - Suc v" "Suc v \<le> 5" by simp_all
  obtain f1 where f1: "(db_upgrade_path ! v) E (idle f) = (idle f1, SQLITE_DONE)" "schema_ok (Suc v) f1" "upgraded_file v (Suc v) f f1"
    using upgrade_step [OF assms(1) Suc.prems(1) v(1)] unfolding upgrades_def by blast
  obtain f' where f': "upgrade_loop E True (Suc v) (idle f1) = (idle f', Some 5)" "schema_ok 5 f'" "upgraded_file (Suc v) 5 f1 f'"
    using Suc.hyps(1) [OF v(2) f1(2) v(3)] by blast
  have "length db_upgrade_path = 5" by (simp add: db_upgrade_path_def)
  then have "upgrade_loop E True v (idle f) = upgrade_loop E True (Suc v) (idle f1)"
    using f1(1) v(1) by (subst upgrade_loop.simps) simp
  then show ?case using f' upgraded_file_trans [OF f1(3) f'(3)] v(1) by auto
qed

lemma prepared:
  assumes "no_fault E" and "schema_ok 5 f"
  shows "list_all (prepare_ok E (idle f)) all_stmts"
proof -
  have "prepare_ok E (idle f) st" for st
    using assms by (cases st) (auto simp: prepare_ok_def no_fault_def schema_ok_def auc_ok_def subscriber_ok_def
      idle_def table_of_def schema_cols SEL_COLUMNS_def split: option.splits)
  then show ?thesis by (simp add: list_all_iff)
qed

lemma db_open_cases:
  "db_open E allow_upgrade f =
     (if open_rc E \<noteq> SQLITE_OK then (None, f)
      else if version_fault E \<or> f_version f < 0 then (None, f)
      else if f_version f = 0 \<and> (exists_fault E \<or> f_tables f ''subscriber'' = None) then
        (case db_bootstrap E (idle f) of (c, rc) \<Rightarrow> if rc \<noteq> SQLITE_OK then (None, db_close c) else open_at E allow_upgrade c 5)
      else open_at E allow_upgrade (idle f) (nat (f_version f)))"
proof -
  have "db_close (idle f) = f" by (simp add: db_close_def idle_def)
  then show ?thesis unfolding db_open_def Let_def idle_def [symmetric] CURRENT_SCHEMA_VERSION_def
    by (auto simp: db_get_user_version_def db_is_bootstrapped_v0_def db_table_exists_def idle_def)
qed

lemma run_fails:
  assumes "fault_codes E" and "sql_exec st c = Inl SQLITE_ERROR"
  shows "\<exists>rc. db_run_statements E (st # sts) r c = (c, rc) \<and> rc \<noteq> SQLITE_DONE \<and> rc \<noteq> SQLITE_OK"
  using assms by (cases "sql_fault E st") (auto simp: fault_codes_def)

lemma bootstrap_fails:
  assumes "fault_codes E" and "f_tables f ''subscriber'' \<noteq> None"
  shows "\<exists>rc. db_bootstrap E (idle f) = (idle f, rc) \<and> rc \<noteq> SQLITE_OK"
proof -
  have "sql_exec (Sql_Create ''subscriber'' t) (idle f) = Inl SQLITE_ERROR" for t
    using assms(2) by (simp add: idle_def)
  from run_fails [OF assms(1) this] obtain rc where
    "db_run_statements E stmt_bootstrap_sql 0 (idle f) = (idle f, rc)" "rc \<noteq> SQLITE_DONE" "rc \<noteq> SQLITE_OK"
    unfolding stmt_bootstrap_sql_def by metis
  then show ?thesis by (simp add: db_bootstrap_def)
qed

lemma db_open_at:
  assumes "fault_codes E" and "f_tables f ''subscriber'' \<noteq> None"
  shows "db_open E allow_upgrade f = (None, f) \<or>
    0 \<le> f_version f \<and> db_open E allow_upgrade f = open_at E allow_upgrade (idle f) (nat (f_version f))"
proof -
  have "db_close (idle f) = f" by (simp add: db_close_def idle_def)
  then show ?thesis using bootstrap_fails [OF assms] assms(2) unfolding db_open_cases by auto
qed

definition half_upgraded :: "nat \<Rightarrow> db_file \<Rightarrow> bool" where
  \<comment> \<open>the columns of the next version under the number of this one\<close>
  "half_upgraded v f \<longleftrightarrow> f_version f = int v \<and>
     (case f_tables f ''subscriber'' of None \<Rightarrow> False | Some t \<Rightarrow> set (t_cols t) = set (subscriber_cols (Suc v)))"

lemma half_upgraded_again:
  assumes "fault_codes E" and "half_upgraded v f" and "v < 5"
  shows "\<exists>c rc. (db_upgrade_path ! v) E (idle f) = (c, rc) \<and> rc \<noteq> SQLITE_DONE \<and> db_close c = f"
proof -
  obtain t where t: "f_tables f ''subscriber'' = Some t" and cols: "set (t_cols t) = set (subscriber_cols (Suc v))"
    using assms(2) by (auto simp: half_upgraded_def split: option.splits)
  have close: "db_close (idle f) = f" by (simp add: db_close_def idle_def)
  have fails: "\<exists>c rc. db_run_statements E (Sql_Add_Column ''subscriber'' col # sts) r (idle f) = (c, rc) \<and> rc \<noteq> SQLITE_DONE \<and> db_close c = f"
    if "col \<in> set (subscriber_cols (Suc v))" for col sts r
  proof -
    have "sql_exec (Sql_Add_Column ''subscriber'' col) (idle f) = Inl SQLITE_ERROR" using that t cols by (simp add: table_of_def idle_def)
    from run_fails [OF assms(1) this, of sts r] show ?thesis using close by blast
  qed
  consider "v = 0" | "v = 1" | "v = 2" | "v = 3" | "v = 4" using assms(3) by linarith
  then show ?thesis
  proof cases
    case 3
    have "''hlr_number'' \<in> set SUBSCR_V2_COLUMN_NAMES" "''hlr_number'' \<notin> set (t_cols t)"
      unfolding cols v3_cols using 3 by (simp_all add: in_cols common_cols_def)
    then show ?thesis using 3 t assms(1) unfolding db_upgrade_path_def db_upgrade_v3_def fault_codes_def
      by (auto simp: idle_def table_of_def db_close_def split: option.splits)
  next
    case 1
    have "(db_upgrade_path ! v) E = db_upgrade_v1 E" using 1 by (simp add: db_upgrade_path_def)
    moreover have "''last_lu_seen'' \<in> set (subscriber_cols (Suc v))" using 1 by (simp add: in_cols)
    ultimately show ?thesis using fails unfolding db_upgrade_v1_def by metis
  next
    case 2
    have "(db_upgrade_path ! v) E = db_upgrade_v2 E" using 2 by (simp add: db_upgrade_path_def)
    moreover have "''imei'' \<in> set (subscriber_cols (Suc v))" using 2 by (simp add: in_cols)
    ultimately show ?thesis using fails unfolding db_upgrade_v2_def by metis
  next
    case 4
    have "(db_upgrade_path ! v) E = db_upgrade_v4 E" using 4 by (simp add: db_upgrade_path_def)
    moreover have "''last_lu_seen_ps'' \<in> set (subscriber_cols (Suc v))" using 4 by (simp add: in_cols)
    ultimately show ?thesis using fails unfolding db_upgrade_v4_def by metis
  next
    case 5
    have "(db_upgrade_path ! v) E = db_upgrade_v5 E" using 5 by (simp add: db_upgrade_path_def)
    moreover have "''vlr_via_proxy'' \<in> set (subscriber_cols (Suc v))" using 5 by (simp add: in_cols)
    ultimately show ?thesis using fails unfolding db_upgrade_v5_def by metis
  qed
qed

lemma half_upgraded_stuck:
  assumes "fault_codes E" and "half_upgraded v f" and "v < 5"
  shows "db_open E allow_upgrade f = (None, f)"
proof -
  have sub: "f_tables f ''subscriber'' \<noteq> None" and version: "nat (f_version f) = v"
    using assms(2) by (auto simp: half_upgraded_def split: option.splits)
  have len: "length db_upgrade_path = 5" by (simp add: db_upgrade_path_def)
  obtain c rc where "(db_upgrade_path ! v) E (idle f) = (c, rc)" "rc \<noteq> SQLITE_DONE" "db_close c = f"
    using half_upgraded_again [OF assms] by blast
  then have "open_at E allow_upgrade (idle f) v = (None, f)"
    unfolding open_at_def using assms(3) len
    by (subst upgrade_loop.simps) (auto simp: CURRENT_SCHEMA_VERSION_def db_close_def idle_def)
  then show ?thesis using db_open_at [OF assms(1) sub, of allow_upgrade] version by auto
qed

fun open_again :: "(file_env \<times> bool) list \<Rightarrow> db_file \<Rightarrow> db_conn option list \<times> db_file" where
  \<comment> \<open>attempts to open the file, one after another, each with its own failures and its own setting for upgrades\<close>
  "open_again [] f = ([], f)"
| "open_again ((E, allow_upgrade) # rs) f =
     (case db_open E allow_upgrade f of
        (conn, f') \<Rightarrow> (case open_again rs f' of (conns, f'') \<Rightarrow> (conn # conns, f'')))"

lemma half_upgraded_for_ever:
  assumes "half_upgraded v f" and "v < 5"
  shows "list_all (\<lambda>(E, _). fault_codes E) rs \<Longrightarrow> open_again rs f = (replicate (length rs) None, f)"
  by (induction rs) (auto simp: half_upgraded_stuck [OF _ assms])

fun sets_version :: "sql_stmt \<Rightarrow> bool" where
  "sets_version (Sql_User_Version k) = True"
| "sets_version st = False"

lemma exec_version: "sql_exec st c = Inr c' \<Longrightarrow> \<not> sets_version st \<Longrightarrow> f_version (c_file c') = f_version (c_file c)"
  by (cases st) (auto simp: put_table_def Let_def split: if_splits option.splits)

lemma last_fails:
  assumes "db_run_statements E0 (sts @ [Sql_User_Version k]) r c = (c', SQLITE_DONE)" and "sql_fault E0 = (\<lambda>_. None)"
    and "sql_fault E = (\<lambda>st. if st = Sql_User_Version k then Some rc else None)" and "list_all (\<lambda>st. \<not> sets_version st) sts"
  shows "\<exists>c1. db_run_statements E (sts @ [Sql_User_Version k]) r c = (c1, rc) \<and>
    c' = c1\<lparr>c_file := (c_file c1)\<lparr>f_version := k\<rparr>\<rparr> \<and> f_version (c_file c1) = f_version (c_file c)"
  using assms(1,4)
proof (induction sts arbitrary: r c)
  case Nil
  then show ?case using assms(2,3) by auto
next
  case (Cons st sts)
  then have ne: "st \<noteq> Sql_User_Version k" by auto
  show ?case
  proof (cases "sql_exec st c")
    case (Inr c2)
    then have "db_run_statements E0 (sts @ [Sql_User_Version k]) SQLITE_DONE c2 = (c', SQLITE_DONE)"
      using Cons.prems(1) assms(2) by simp
    then show ?thesis using Cons.IH [of SQLITE_DONE c2] Cons.prems(2) Inr ne assms(3) exec_version [OF Inr] by auto
  next
    case (Inl e)
    then have "e = SQLITE_DONE" using Cons.prems(1) assms(2) by simp
    then show ?thesis using Inl by (cases st) (auto simp: Let_def split: if_splits option.splits)
  qed
qed

lemma path_statements:
  assumes "v < 5"
  obtains sts where "list_all (\<lambda>st. \<not> sets_version st) sts"
    and "\<And>E. (db_upgrade_path ! v) E = db_run_statements E (sts @ [Sql_User_Version (int (Suc v))]) 0"
proof -
  consider "v = 0" | "v = 1" | "v = 2" | "v = 3" | "v = 4" using assms by linarith
  then show ?thesis
  proof cases
    case 1
    then show ?thesis by (intro that [of "[Sql_Add_Column ''subscriber'' ''last_lu_seen'']"]) (simp_all add: db_upgrade_path_def db_upgrade_v1_def)
  next
    case 2
    then show ?thesis by (intro that [of "[Sql_Add_Column ''subscriber'' ''imei'']"]) (simp_all add: db_upgrade_path_def db_upgrade_v2_def)
  next
    case 3
    then show ?thesis by (intro that [of "[Sql_Begin, Sql_Create_Temp ''subscriber_backup'' SUBSCR_V3_CREATE,
      Sql_Insert_Select ''subscriber_backup'' SUBSCR_V2_COLUMN_NAMES ''subscriber'', Sql_Drop ''subscriber'',
      Sql_Create ''subscriber'' SUBSCR_V3_CREATE, Sql_Insert_Select ''subscriber'' SUBSCR_V3_COLUMN_NAMES ''subscriber_backup'',
      Sql_Drop ''subscriber_backup'', Sql_Commit]"]) (simp_all add: db_upgrade_path_def db_upgrade_v3_def)
  next
    case 4
    then show ?thesis by (intro that [of "[Sql_Add_Column ''subscriber'' ''last_lu_seen_ps'']"]) (simp_all add: db_upgrade_path_def db_upgrade_v4_def)
  next
    case 5
    then show ?thesis by (intro that [of "[Sql_Add_Column ''subscriber'' ''vlr_via_proxy'', Sql_Add_Column ''subscriber'' ''sgsn_via_proxy'']"]) (simp_all add: db_upgrade_path_def db_upgrade_v5_def)
  qed
qed

lemma half_upgrade:
  assumes "schema_ok v f" and "v < 5" and "sql_fault E = (\<lambda>st. if st = Sql_User_Version (int (Suc v)) then Some rc else None)"
  shows "\<exists>f'. (db_upgrade_path ! v) E (idle f) = (idle f', rc) \<and> half_upgraded v f'"
proof -
  define E0 where "E0 = E\<lparr>open_rc := 0, sql_fault := (\<lambda>_. None), version_fault := False, exists_fault := False, prepare_fault := (\<lambda>_. False)\<rparr>"
  have "no_fault E0" by (simp add: no_fault_def E0_def)
  then have "upgrades v ((db_upgrade_path ! v) E0) f" using upgrade_step assms(1,2) by blast
  then obtain f' where f': "(db_upgrade_path ! v) E0 (idle f) = (idle f', SQLITE_DONE)" "schema_ok (Suc v) f'"
    unfolding upgrades_def by blast
  obtain sts where sts: "list_all (\<lambda>st. \<not> sets_version st) sts"
      "\<And>E. (db_upgrade_path ! v) E = db_run_statements E (sts @ [Sql_User_Version (int (Suc v))]) 0"
    using path_statements [OF assms(2)] by blast
  have "f_version f = int v" using assms(1) by (simp add: schema_ok_def)
  moreover obtain c1 where "(db_upgrade_path ! v) E (idle f) = (c1, rc)"
      "idle f' = c1\<lparr>c_file := (c_file c1)\<lparr>f_version := int (Suc v)\<rparr>\<rparr>" "f_version (c_file c1) = f_version f"
    using last_fails [OF f'(1) [unfolded sts(2)] _ assms(3) sts(1)] unfolding sts(2) by (auto simp: E0_def idle_def)
  ultimately have "(db_upgrade_path ! v) E (idle f) = (idle (f'\<lparr>f_version := int v\<rparr>), rc)"
    by (cases c1) (auto simp: idle_def)
  moreover have "half_upgraded v (f'\<lparr>f_version := int v\<rparr>)"
    using f'(2) by (auto simp: half_upgraded_def schema_ok_def subscriber_ok_def split: option.splits)
  ultimately show ?thesis by blast
qed

lemma open_at_current:
  assumes "no_fault E" and "schema_ok 5 f"
  shows "open_at E allow_upgrade (idle f) 5 = (Some (idle f), f)"
proof -
  have "upgrade_loop E allow_upgrade 5 (idle f) = (idle f, Some 5)"
    by (subst upgrade_loop.simps) (simp add: db_upgrade_path_def)
  then show ?thesis using prepared [OF assms] by (simp add: open_at_def CURRENT_SCHEMA_VERSION_def idle_def)
qed

lemma db_open_no_fault:
  assumes "no_fault E" and "schema_ok v f"
  shows "db_open E allow_upgrade f = open_at E allow_upgrade (idle f) v"
  using assms unfolding db_open_cases
  by (auto simp: no_fault_def schema_ok_def split: option.splits)

lemma db_open_current:
  assumes "no_fault E" and "schema_ok 5 f"
  shows "db_open E allow_upgrade f = (Some (idle f), f)"
  using db_open_no_fault [OF assms] open_at_current [OF assms] by simp

text \<open>
  C14. A database of any earlier version of the schema is upgraded when that is allowed: the connection has every statement prepared,
  the file is one of the current version, every subscriber keeps the value of every column, the column \<open>hlr_number\<close> under its
  new name and the new columns NULL, no other table changes, and the upgraded file opens as it is from then on, whether or not
  upgrades are allowed.
\<close>

theorem db_open_upgrades:
  assumes "no_fault E" and "schema_ok v f" and "v \<le> 5"
  shows "\<exists>c. db_open E True f = (Some c, c_file c) \<and> list_all (prepare_ok E c) all_stmts \<and>
    schema_ok 5 (c_file c) \<and> upgraded_file v 5 f (c_file c) \<and>
    db_open E allow_upgrade (c_file c) = (Some c, c_file c)"
proof -
  obtain f' where f': "upgrade_loop E True v (idle f) = (idle f', Some 5)" "schema_ok 5 f'" "upgraded_file v 5 f f'"
    using upgrade_loop_ok [OF assms] by blast
  have cf: "c_file (idle f') = f'" by (simp add: idle_def)
  have "db_open E True f = (Some (idle f'), f')"
    unfolding db_open_no_fault [OF assms(1,2)] using f'(1) prepared [OF assms(1) f'(2)] cf
    by (simp add: open_at_def CURRENT_SCHEMA_VERSION_def)
  then show ?thesis
    using f' cf prepared [OF assms(1) f'(2)] db_open_current [OF assms(1) f'(2)] by (intro exI [of _ "idle f'"]) simp
qed

definition old_file :: db_file where
  \<comment> \<open>a file of version 0 with one subscriber\<close>
  "old_file = \<lparr>f_tables = [''subscriber'' \<mapsto> (subscr_table (subscriber_cols 0))\<lparr>t_rows := [
      [''id'' \<mapsto> ''1'', ''imsi'' \<mapsto> ''901700000014701'', ''hlr_number'' \<mapsto> ''4711'', ''nam_cs'' \<mapsto> ''1'', ''nam_ps'' \<mapsto> ''1'',
       ''ms_purged_cs'' \<mapsto> ''0'', ''ms_purged_ps'' \<mapsto> ''0'']]\<rparr>,
     ''auc_2g'' \<mapsto> \<lparr>t_cols = [''subscriber_id'', ''algo_id_2g'', ''ki''], t_unique = [''subscriber_id''],
       t_notnull = [''subscriber_id'', ''algo_id_2g'', ''ki''], t_rows = []\<rparr>,
     ''auc_3g'' \<mapsto> \<lparr>t_cols = [''subscriber_id'', ''algo_id_3g'', ''k'', ''op'', ''opc'', ''sqn'', ''ind_bitlen''],
       t_unique = [''subscriber_id''], t_notnull = [''subscriber_id'', ''algo_id_3g'', ''k'', ''sqn'', ''ind_bitlen''], t_rows = []\<rparr>],
     f_version = 0\<rparr>"

definition good_file_env :: file_env where
  "good_file_env = \<lparr>open_rc = 0, sql_fault = (\<lambda>_. None), version_fault = False, exists_fault = False, prepare_fault = (\<lambda>_. False)\<rparr>"

lemma old_file_ok: "schema_ok 0 old_file"
  by (simp add: schema_ok_def old_file_def auc_ok_def subscriber_ok_def subscr_table_def SUBSCR_V3_CREATE_def constraints_ok_def)

lemma good_file_env_ok: "no_fault good_file_env"
  by (simp add: no_fault_def good_file_env_def)

theorem db_open_upgrades_witness:
  "\<exists>c. db_open good_file_env True old_file = (Some c, c_file c) \<and> list_all (prepare_ok good_file_env c) all_stmts \<and>
    schema_ok 5 (c_file c) \<and> upgraded_file 0 5 old_file (c_file c) \<and>
    db_open good_file_env False (c_file c) = (Some c, c_file c)"
  using db_open_upgrades [OF good_file_env_ok old_file_ok, of False] by simp

lemma bootstrap_ok:
  assumes "no_fault E" and "f_tables f = Map.empty"
  shows "\<exists>f' t. db_bootstrap E (idle f) = (idle f', SQLITE_OK) \<and> schema_ok 5 f' \<and> f_tables f' ''subscriber'' = Some t \<and> t_rows t = []"
  using assms
  by (auto simp: db_bootstrap_def stmt_bootstrap_sql_def idle_def table_of_def put_table_def Let_def constraints_ok_def
      schema_ok_def auc_ok_def subscriber_ok_def schema_cols subscr_table_def SUBSCR_V3_CREATE_def)

text \<open>Opening an empty file creates the tables of the current version, without any subscriber.\<close>

lemma db_open_bootstraps:
  assumes "no_fault E" and "f_tables f = Map.empty" and "f_version f = 0"
  shows "\<exists>c t. db_open E allow_upgrade f = (Some c, c_file c) \<and> schema_ok 5 (c_file c) \<and>
    f_tables (c_file c) ''subscriber'' = Some t \<and> t_rows t = []"
proof -
  obtain f' t where f': "db_bootstrap E (idle f) = (idle f', SQLITE_OK)" "schema_ok 5 f'" "f_tables f' ''subscriber'' = Some t" "t_rows t = []"
    using bootstrap_ok [OF assms(1,2)] by blast
  have "db_open E allow_upgrade f = (Some (idle f'), f')"
    using assms f'(1) open_at_current [OF assms(1) f'(2)] unfolding db_open_cases by (simp add: no_fault_def)
  then show ?thesis using f'(2-4) by (intro exI [of _ "idle f'"]) (simp add: idle_def)
qed

text \<open>
  A file of a newer schema, and one of an older schema when upgrades are not allowed, is refused and left as it is,
  whatever faults occur.
\<close>

lemma db_open_refuses:
  assumes "fault_codes E" and "schema_ok v f" and "v \<noteq> 5" and "allow_upgrade \<Longrightarrow> 5 < v"
  shows "db_open E allow_upgrade f = (None, f)"
proof -
  obtain t where "f_tables f ''subscriber'' = Some t" by (rule schema_subscriber [OF assms(2)])
  moreover have "upgrade_loop E allow_upgrade v (idle f) = (idle f, Some v)"
    using assms(3,4) by (subst upgrade_loop.simps) (auto simp: db_upgrade_path_def)
  then have "open_at E allow_upgrade (idle f) v = (None, f)"
    using assms(3) by (simp add: open_at_def CURRENT_SCHEMA_VERSION_def db_close_def idle_def)
  ultimately show ?thesis using db_open_at [OF assms(1), of f allow_upgrade] assms(2) by (auto simp: schema_ok_def)
qed

text \<open>
  C38. An upgrade does not survive an interruption right before it stores the new version number: the number is stored by a statement
  of its own, outside any transaction. When that statement fails for a file of any version below the current one, the file is
  refused, and from then on it is refused for ever: every one of any number of later attempts to open it fails, with or
  without upgrades allowed and whatever further failures SQLite reports, and none of them changes the file. The upgrade would
  have to add columns that exist, or copy one that does not.
\<close>

theorem upgrade_interruption_is_final:
  assumes "schema_ok v f" and "v < 5" and "rc \<noteq> SQLITE_DONE" and "open_rc E = SQLITE_OK" and "\<not> version_fault E" and "\<not> exists_fault E"
    and "sql_fault E = (\<lambda>st. if st = Sql_User_Version (int (Suc v)) then Some rc else None)" and "list_all (\<lambda>(E', _). fault_codes E') attempts"
  shows "fst (db_open E True f) = None \<and>
    open_again attempts (snd (db_open E True f)) = (replicate (length attempts) None, snd (db_open E True f))"
proof -
  obtain f' where f': "(db_upgrade_path ! v) E (idle f) = (idle f', rc)" "half_upgraded v f'"
    using half_upgrade [OF assms(1,2,7)] by blast
  have "length db_upgrade_path = 5" by (simp add: db_upgrade_path_def)
  then have "upgrade_loop E True v (idle f) = (idle f', None)"
    using f'(1) assms(2,3) by (subst upgrade_loop.simps) simp
  then have "open_at E True (idle f) v = (None, f')" by (simp add: open_at_def db_close_def idle_def)
  moreover have "db_open E True f = open_at E True (idle f) v"
    using assms(1,4-6) unfolding db_open_cases by (auto simp: schema_ok_def split: option.splits)
  ultimately show ?thesis using half_upgraded_for_ever [OF f'(2) assms(2,8)] by simp
qed

theorem upgrade_interruption_is_final_witness:
  "fst (db_open (good_file_env\<lparr>sql_fault := (\<lambda>st. if st = Sql_User_Version 1 then Some 10 else None)\<rparr>) True old_file) = None \<and>
   fst (open_again [(good_file_env, True), (good_file_env, False)] (snd (db_open
     (good_file_env\<lparr>sql_fault := (\<lambda>st. if st = Sql_User_Version 1 then Some 10 else None)\<rparr>) True old_file))) = [None, None]"
  using upgrade_interruption_is_final [OF old_file_ok, of 10
      "good_file_env\<lparr>sql_fault := (\<lambda>st. if st = Sql_User_Version 1 then Some 10 else None)\<rparr>" "[(good_file_env, True), (good_file_env, False)]"]
  by (simp add: good_file_env_def fault_codes_def numeral_eq_Suc)

end
