(* ===== verification/Hlr_Db_Tool.thy ===== *)
theory Hlr_Db_Tool
  imports Hlr_Vty_Subscr Db_Open
begin

text \<open>
  The database tool: \<open>src/hlr_db_tool.c\<close>, with the decoder of keys in \<open>src/dbd_decode_binary.c\<close>. It creates a database or adds the subscribers of an
  OsmoNITB database to one. That database belongs to another program; what its two statements return is the parameter \<open>nitb_db\<close>: the rows, whether the file can be
  opened and the statements prepared and bound, and the last return code. The tables of the HLR are those of the theory \<open>Db\<close>;
  SQLite may fail differently for each subscriber. Reading an octet that is not there is a \<open>Fault\<close>, and so is a failed assertion.
\<close>

section \<open>Data\<close>

text \<open>
  The columns are as the code reads them: \<open>n_imsi\<close> and \<open>n_id\<close> as 64-bit integers, \<open>n_authorized\<close> and the algorithm of a key as
  \<open>sqlite3_column_int\<close> returns them.
\<close>

record nitb_subscr =
  n_imsi :: int
  n_id :: int
  n_extension :: "string option"
  n_authorized :: int

record nitb_db =
  n_open :: bool
  n_prepare :: bool
  n_subscrs :: "nitb_subscr list"
  n_subscrs_rc :: int
  n_bind :: bool
  n_keys :: "int \<Rightarrow> (int \<times> octets) list"

section \<open>Decoding of keys\<close>

definition octet_plus :: "octet \<Rightarrow> nat \<Rightarrow> octet" where
  \<comment> \<open>addition of unsigned char\<close>
  "octet_plus c n = char_of ((octet_val c + n) mod 256)"

fun dbd_decode_loop :: "nat \<Rightarrow> octets \<Rightarrow> octets exec" where
  "dbd_decode_loop e [] = Fault"
| "dbd_decode_loop e (c # cs) =
     (if octet_val c = 0 then Ret []
      else if octet_val c = 1 then
        (case cs of
           [] \<Rightarrow> Fault
         | d # ds \<Rightarrow> (case dbd_decode_loop e ds of Fault \<Rightarrow> Fault | Ret out \<Rightarrow> Ret (octet_plus (octet_plus d 255) e # out)))
      else (case dbd_decode_loop e cs of Fault \<Rightarrow> Fault | Ret out \<Rightarrow> Ret (octet_plus c e # out)))"

definition dbd_decode_binary :: "octets \<Rightarrow> octets exec" where
  \<comment> \<open>a blob without octets is a NULL pointer\<close>
  "dbd_decode_binary blob = (case blob of [] \<Rightarrow> Fault | e # cs \<Rightarrow> dbd_decode_loop (octet_val e) cs)"

section \<open>Import\<close>

fun aud_loop :: "osmo_core \<Rightarrow> 'a text_lib_scheme \<Rightarrow> sqlite_env \<Rightarrow> int \<Rightarrow> nat \<Rightarrow> (int \<times> octets) list \<Rightarrow> hlr_db \<Rightarrow> hlr_db exec" where
  \<comment> \<open>the loop over the keys of a subscriber; \<open>db_remove_reset\<close> clears the binding, so that the statement finds no more rows after a blob that is too large\<close>
  "aud_loop L T E hlr_id cnt [] db = Ret db"
| "aud_loop L T E hlr_id cnt ((algo, blob) # rows) db =
     (if cnt \<noteq> 0 then Ret db
      else if length blob > 4096 then Ret db
      else (case dbd_decode_binary blob of
              Fault \<Rightarrow> Fault
            | Ret buf \<Rightarrow>
                let aud2g = (aud_str_none OSMO_AUTH_TYPE_GSM)\<lparr>s_algo := nat (algo mod 2 ^ 32), s_ki := strlcpy 128 (osmo_hexdump_nospc T buf)\<rparr>
                in aud_loop L T E hlr_id (cnt + 1) rows (fst (db_subscr_update_aud_by_id L E hlr_id aud2g db))))"

definition c_int :: "int \<Rightarrow> int" where
  \<comment> \<open>the conversion to \<open>int\<close>\<close>
  "c_int x = sint (of_int x :: 32 word)"

lemma c_int_id: "- (2 ^ 31) \<le> x \<Longrightarrow> x < 2 ^ 31 \<Longrightarrow> c_int x = x"
  by (simp add: c_int_def sint_sbintrunc' signed_take_bit_int_eq_self)

definition import_nitb_subscr_aud ::
  "osmo_core \<Rightarrow> 'a text_lib_scheme \<Rightarrow> sqlite_env \<Rightarrow> nitb_db \<Rightarrow> int \<Rightarrow> int \<Rightarrow> hlr_db \<Rightarrow> hlr_db exec" where
  \<comment> \<open>\<open>db_bind_int\<close> takes the 64-bit id as an \<open>int\<close>\<close>
  "import_nitb_subscr_aud L T E N nitb_id hlr_id db =
     (if \<not> n_bind N then Ret db else aud_loop L T E hlr_id 0 (n_keys N (c_int nitb_id)) db)"

definition import_nitb_subscr ::
  "osmo_core \<Rightarrow> 'a text_lib_scheme \<Rightarrow> sqlite_env \<Rightarrow> nitb_db \<Rightarrow> nitb_subscr \<Rightarrow> hlr_db \<Rightarrow> hlr_db exec" where
  "import_nitb_subscr L T E N row db =
     (let imsi_str = strlcpy 32 (show_int (n_imsi row));
          db = fst (db_subscr_create L E imsi_str True True db);
          msisdn = copy_text 16 (n_extension row);
          authorized = (n_authorized row \<noteq> 0);
          db = fst (db_subscr_update_msisdn_by_imsi L E imsi_str (Some msisdn) db);
          db = fst (db_subscr_nam E imsi_str authorized True db);
          db = fst (db_subscr_nam E imsi_str authorized False db)
      in (case db_subscr_get_by_imsi E imsi_str db of
            Inl rc \<Rightarrow> Ret db
          | Inr subscr \<Rightarrow>
              if strcmp imsi_str (sub_imsi subscr) \<noteq> 0 then Fault
              else import_nitb_subscr_aud L T E N (n_id row) (sub_id subscr) db))"

fun import_rows ::
  "osmo_core \<Rightarrow> 'a text_lib_scheme \<Rightarrow> (nat \<Rightarrow> sqlite_env) \<Rightarrow> nitb_db \<Rightarrow> nat \<Rightarrow> nitb_subscr list \<Rightarrow> hlr_db \<Rightarrow> hlr_db exec" where
  "import_rows L T E N k [] db = Ret db"
| "import_rows L T E N k (row # rows) db =
     (case import_nitb_subscr L T (E k) N row db of
        Fault \<Rightarrow> Fault
      | Ret db \<Rightarrow> import_rows L T E N (Suc k) rows db)"

definition import_nitb_db :: "osmo_core \<Rightarrow> 'a text_lib_scheme \<Rightarrow> (nat \<Rightarrow> sqlite_env) \<Rightarrow> nitb_db \<Rightarrow> hlr_db \<Rightarrow> (hlr_db \<times> int) exec" where
  \<comment> \<open>the return code is 0 also when reading the rows ended with an error\<close>
  "import_nitb_db L T E N db =
     (if \<not> n_open N then Ret (db, - 1)
      else if \<not> n_prepare N then Ret (db, - 1)
      else (case import_rows L T E N 0 (n_subscrs N) db of
              Fault \<Rightarrow> Fault
            | Ret db \<Rightarrow> if n_subscrs_rc N \<noteq> SQLITE_DONE then Ret (db, 0) else Ret (db, 0)))"

section \<open>The command line\<close>

datatype tool_opt = Opt_help | Opt_database string | Opt_log | Opt_db_upgrade | Opt_version | Opt_error

record cmdline_opts =
  opt_db_file :: string
  opt_import_nitb_db :: "string option"
  opt_db_upgrade :: bool

datatype tool_exit = EXIT_SUCCESS | EXIT_FAILURE

fun tool_options :: "tool_opt list \<Rightarrow> cmdline_opts \<Rightarrow> tool_exit + cmdline_opts" where
  \<comment> \<open>the options that \<open>getopt_long\<close> finds, in their order\<close>
  "tool_options [] o1 = Inr o1"
| "tool_options (c # cs) o1 =
     (case c of
        Opt_help \<Rightarrow> Inl EXIT_SUCCESS
      | Opt_database f \<Rightarrow> tool_options cs (o1\<lparr>opt_db_file := f\<rparr>)
      | Opt_log \<Rightarrow> tool_options cs o1
      | Opt_db_upgrade \<Rightarrow> tool_options cs (o1\<lparr>opt_db_upgrade := True\<rparr>)
      | Opt_version \<Rightarrow> Inl EXIT_SUCCESS
      | Opt_error \<Rightarrow> Inl EXIT_FAILURE)"

definition tool_command :: "string list \<Rightarrow> cmdline_opts \<Rightarrow> tool_exit + cmdline_opts" where
  \<comment> \<open>the other arguments\<close>
  "tool_command argv o1 =
     (case argv of
        [] \<Rightarrow> Inl EXIT_FAILURE
      | cmd # args \<Rightarrow>
          if strcmp cmd ''create'' = 0 then (if args \<noteq> [] then Inl EXIT_FAILURE else Inr o1)
          else if strcmp cmd ''import-nitb-db'' = 0 then
            (case args of
               [] \<Rightarrow> Inl EXIT_FAILURE
             | f # extra \<Rightarrow> if extra \<noteq> [] then Inl EXIT_FAILURE else Inr (o1\<lparr>opt_import_nitb_db := Some f\<rparr>))
          else Inl EXIT_FAILURE)"

definition tool_handle_options :: "tool_opt list \<Rightarrow> string list \<Rightarrow> tool_exit + cmdline_opts" where
  "tool_handle_options opts argv =
     (case tool_options opts \<lparr>opt_db_file = ''hlr.db'', opt_import_nitb_db = None, opt_db_upgrade = False\<rparr> of
        Inl x \<Rightarrow> Inl x
      | Inr o1 \<Rightarrow> tool_command argv o1)"

definition tool_main ::
  "osmo_core \<Rightarrow> 'a text_lib_scheme \<Rightarrow> (nat \<Rightarrow> sqlite_env) \<Rightarrow> (string \<Rightarrow> nitb_db) \<Rightarrow> bool \<Rightarrow> (string \<Rightarrow> bool \<Rightarrow> hlr_db option) \<Rightarrow> tool_opt list \<Rightarrow> string list
     \<Rightarrow> (hlr_db option \<times> tool_exit) exec" where
  \<comment> \<open>\<open>rand_ok\<close>: the random source is there; \<open>opened\<close>: the tables of a file after \<open>db_open\<close>, None when it is refused. The result has the
    tables the file is left with, if it was opened.\<close>
  "tool_main L T E nitb rand_ok opened opts argv =
     (case tool_handle_options opts argv of
        Inl x \<Rightarrow> Ret (None, x)
      | Inr o1 \<Rightarrow>
          if \<not> rand_ok then Ret (None, EXIT_FAILURE)
          else (case opened (opt_db_file o1) (opt_db_upgrade o1) of
                  None \<Rightarrow> Ret (None, EXIT_FAILURE)
                | Some db \<Rightarrow>
                    (case opt_import_nitb_db o1 of
                       None \<Rightarrow> Ret (Some db, EXIT_SUCCESS)
                     | Some f \<Rightarrow>
                         (case import_nitb_db L T E (nitb f) db of
                            Fault \<Rightarrow> Fault
                          | Ret (db, rc) \<Rightarrow> Ret (Some db, if rc \<noteq> 0 then EXIT_FAILURE else EXIT_SUCCESS)))))"

section \<open>Keys are decoded as they were encoded\<close>

definition dbd_escape :: "nat \<Rightarrow> octet \<Rightarrow> octets" where
  "dbd_escape e x =
     (let c = (octet_val x + (256 - e)) mod 256 in if c \<in> {0, 1, 39} then [CHR 0x01, char_of (c + 1)] else [char_of c])"

definition dbd_encode :: "nat \<Rightarrow> octets \<Rightarrow> octets" where
  \<comment> \<open>the encoding the decoder is made for: every octet less an offset, with 0, 1 and the quote escaped, then a nul\<close>
  "dbd_encode e xs = char_of e # concat (map (dbd_escape e) xs) @ [NUL]"

lemma octet_val_char [simp]: "n < 256 \<Longrightarrow> octet_val (char_of n) = n"
  by (simp add: octet_val_def)

lemma char_octet [simp]: "char_of (octet_val x) = x"
  by (simp add: octet_val_def)

lemma shift_back: "e < 256 \<Longrightarrow> ((octet_val x + (256 - e)) mod 256 + e) mod 256 = octet_val x"
proof -
  assume "e < 256"
  then have "((octet_val x + (256 - e)) mod 256 + e) mod 256 = (octet_val x + 256) mod 256" by (simp add: mod_add_left_eq)
  then show ?thesis using octet_val_less [of x] by simp
qed

lemma octet_zero: "octet_val c = 0 \<longleftrightarrow> c = NUL"
proof -
  have "octet_val NUL = 0" by (simp add: octet_val_def)
  then show ?thesis using char_octet [of c] char_octet [of NUL] by metis
qed

lemma decode_escaped:
  assumes "e < 256"
  shows "dbd_decode_loop e (dbd_escape e x @ r) = (case dbd_decode_loop e r of Fault \<Rightarrow> Fault | Ret out \<Rightarrow> Ret (x # out))"
proof -
  define c where "c = (octet_val x + (256 - e)) mod 256"
  have b: "char_of ((c + e) mod 256) = x" and less: "c < 256" using shift_back [OF assms, of x] by (simp_all add: c_def)
  have esc: "dbd_escape e x = (if c \<in> {0, 1, 39} then [CHR 0x01, char_of (c + 1)] else [char_of c])"
    by (simp only: dbd_escape_def Let_def c_def)
  have one: "octet_val (CHR 0x01) = 1" by (simp add: octet_val_def)
  show ?thesis
  proof (cases "c \<in> {0, 1, 39}")
    case True
    then have "octet_plus (octet_plus (char_of (c + 1)) 255) e = x" using b by (auto simp: octet_plus_def)
    with True show ?thesis by (simp add: esc one split: exec.split)
  next
    case False
    then have "octet_plus (char_of c) e = x" using b less by (simp add: octet_plus_def)
    with False less show ?thesis by (simp add: esc split: exec.split)
  qed
qed

lemma decode_encode:
  assumes "e < 256"
  shows "dbd_decode_binary (dbd_encode e xs) = Ret xs"
proof -
  have "dbd_decode_loop e (concat (map (dbd_escape e) xs) @ [NUL]) = Ret xs"
    by (induction xs) (simp_all add: decode_escaped [OF assms] octet_val_def)
  then show ?thesis using assms by (simp add: dbd_encode_def dbd_decode_binary_def)
qed

lemma encode_length: "length (dbd_encode e xs) \<le> 2 * length xs + 2"
proof -
  have "length (concat (map (dbd_escape e) xs)) \<le> 2 * length xs"
    by (induction xs) (auto simp: dbd_escape_def Let_def)
  then show ?thesis by (simp add: dbd_encode_def)
qed

lemma decode_needs_nul: "NUL \<notin> set cs \<Longrightarrow> dbd_decode_loop e cs = Fault"
proof (induction e cs rule: dbd_decode_loop.induct)
  case (2 e c cs)
  then show ?case by (cases cs) (auto simp: octet_zero)
qed simp

section \<open>Imported subscribers\<close>

lemma good_aud_loop: "db_good L db \<Longrightarrow> aud_loop L T E sid n rows db = Ret db' \<Longrightarrow> db_good L db'"
proof (induction n rows db rule: aud_loop.induct [where ?a0.0 = L and ?a1.0 = T and ?a2.0 = E and ?a3.0 = sid])
qed (auto simp: Let_def good_aud split: if_splits exec.splits)

lemma good_import_subscr:
  assumes "db_good L db" and "import_nitb_subscr L T E N row db = Ret db'"
  shows "db_good L db'"
proof -
  let ?i = "strlcpy 32 (show_int (n_imsi row))"
  let ?d = "fst (db_subscr_nam E ?i (n_authorized row \<noteq> 0) False (fst (db_subscr_nam E ?i (n_authorized row \<noteq> 0) True
    (fst (db_subscr_update_msisdn_by_imsi L E ?i (Some (copy_text 16 (n_extension row))) (fst (db_subscr_create L E ?i True True db)))))))"
  have good: "db_good L ?d" using assms(1) by (intro good_nam good_msisdn good_create)
  show ?thesis
    using assms(2) good_aud_loop [OF good] good
    by (auto simp: import_nitb_subscr_def import_nitb_subscr_aud_def Let_def split: sum.splits if_splits)
qed

lemma good_import_rows: "db_good L db \<Longrightarrow> import_rows L T E N k rows db = Ret db' \<Longrightarrow> db_good L db'"
  by (induction rows arbitrary: k db) (auto dest: good_import_subscr split: exec.splits)

lemma update_aud_2g:
  assumes "db_wf db" and "env_ok E" and "aud_valid L aud" and "s_type aud = 1" and "s_algo aud \<noteq> 0"
  shows "db_subscr_update_aud_by_id L E sid aud db = (db\<lparr>tbl_auc_2g :=
    filter (\<lambda>a. a2_subscriber_id a \<noteq> sid) (tbl_auc_2g db) @ [\<lparr>a2_subscriber_id = sid, a2_algo_id = s_algo aud, a2_ki = s_ki aud\<rparr>]\<rparr>, 0)"
proof -
  have "length (filter (\<lambda>a. a2_subscriber_id a = sid) (tbl_auc_2g db)) = (if sid \<in> a2_subscriber_id ` set (tbl_auc_2g db) then 1 else 0)"
    using assms(1) by (intro update_count [of a2_subscriber_id]) (simp_all add: db_wf_def)
  with assms(2-5) show ?thesis
    by (auto simp: db_subscr_update_aud_by_id_def auc_delete_def auc_insert_def sql_auc_2g_delete_def
        sql_delete_def sql_auc_2g_insert_def step_change_def changes_rc_def Let_def)
qed

lemma auth_data_2g:
  assumes "env_ok E" and "lib_hex_ok L" and "osmo_is_hexstr L hex 32 32 True" and "subscribers db imsi = Some r"
    and "tbl_auc_2g db = filter (\<lambda>a. a2_subscriber_id a \<noteq> row_id r) xs @ [\<lparr>a2_subscriber_id = row_id r, a2_algo_id = algo, a2_ki = hex\<rparr>]"
  shows "fst (snd (db_get_auth_data L E imsi db)) = aud_zero\<lparr>aud_ki := osmo_hexparse L hex, aud_algo := algo, aud_type := OSMO_AUTH_TYPE_GSM\<rparr>"
  using assms(1,4,5) find_unless [of "\<lambda>a. a2_subscriber_id a = row_id r" xs] hexparse_stmt_ok [OF assms(2,3)]
  by (simp add: db_get_auth_data_def sql_auc_by_imsi_def subscribers_def Let_def split: option.split)

lemma import_msisdn_spec:
  assumes "db_wf db" and "env_ok E" and "osmo_msisdn_str_valid L m" and "\<forall>r \<in> set (tbl_subscriber db). row_msisdn r \<noteq> Some m"
  shows "subscribers (fst (db_subscr_update_msisdn_by_imsi L E imsi (Some m) db)) = amend imsi (row_msisdn_update (\<lambda>_. Some m)) (subscribers db)"
proof -
  have "sql_set_msisdn_by_imsi m imsi (tbl_subscriber db) = sql_update (\<lambda>r. row_imsi r = imsi) (row_msisdn_update (\<lambda>_. Some m)) (tbl_subscriber db)"
    using assms(4) by (auto simp: sql_set_msisdn_by_imsi_def)
  then show ?thesis
    using assms(2,3) update_by_imsi(2) [OF assms(1,2), of "row_msisdn_update (\<lambda>_. Some m)" DB_STMT_SET_MSISDN_BY_IMSI imsi]
    by (simp add: db_subscr_update_msisdn_by_imsi_def)
qed

definition hexdump_ok :: "osmo_core \<Rightarrow> 'a text_lib_scheme \<Rightarrow> bool" where
  \<comment> \<open>16 octets are printed as 32 hexadecimal digits, and these are parsed back\<close>
  "hexdump_ok L T \<longleftrightarrow> (\<forall>b. length b = 16 \<longrightarrow>
     osmo_is_hexstr L (osmo_hexdump_nospc T b) 32 32 True \<and> osmo_hexparse L (osmo_hexdump_nospc T b) = b)"

lemma aud_loop_done: "n \<noteq> 0 \<Longrightarrow> aud_loop L T E sid n rows db = Ret db"
  by (cases rows) auto

lemma aud_loop_first:
  assumes "db_wf db" and "env_ok E" and "lib_hex_ok L" and "hexdump_ok L T" and "e < 256" and "length ki = 16" and "1 \<le> algo" and "algo \<le> 4"
  shows "aud_loop L T E sid 0 ((algo, dbd_encode e ki) # rest) db = Ret (db\<lparr>tbl_auc_2g :=
    filter (\<lambda>a. a2_subscriber_id a \<noteq> sid) (tbl_auc_2g db) @
      [\<lparr>a2_subscriber_id = sid, a2_algo_id = nat algo, a2_ki = osmo_hexdump_nospc T ki\<rparr>]\<rparr>)"
proof -
  let ?hex = "osmo_hexdump_nospc T ki"
  let ?aud = "(aud_str_none OSMO_AUTH_TYPE_GSM)\<lparr>s_algo := nat algo, s_ki := ?hex\<rparr>"
  have hex: "osmo_is_hexstr L ?hex 32 32 True" using assms(4,6) by (simp add: hexdump_ok_def)
  with assms(3) have "length ?hex \<le> 32" unfolding lib_hex_ok_def by blast
  then have cpy: "strlcpy 128 ?hex = ?hex" by (simp add: strlcpy_def)
  have algo: "algo mod 4294967296 = algo" "nat algo \<in> {1, 2, 3, 4}" using assms(7,8) by auto
  have "aud_valid L ?aud" using hex algo(2) by (auto simp: aud_valid_def aud_str_none_def)
  from update_aud_2g [OF assms(1,2) this, of sid] have upd: "fst (db_subscr_update_aud_by_id L E sid ?aud db) = db\<lparr>tbl_auc_2g :=
      filter (\<lambda>a. a2_subscriber_id a \<noteq> sid) (tbl_auc_2g db) @ [\<lparr>a2_subscriber_id = sid, a2_algo_id = nat algo, a2_ki = ?hex\<rparr>]\<rparr>"
    using algo(2) by (auto simp: aud_str_none_def)
  have "length (dbd_encode e ki) \<le> 4096" using encode_length [of e ki] assms(6) by simp
  then show ?thesis
    using upd by (simp add: decode_encode [OF assms(5)] cpy algo(1) Let_def aud_loop_done)
qed

text \<open>
  Whatever SQLite does, an import keeps the constraints of the database and stores no malformed IMSI.
\<close>
theorem import_keeps_constraints:
  assumes "db_good L db" and "import_nitb_db L T E N db = Ret (db', rc)"
  shows "db_good L db'"
  using assms by (auto simp: import_nitb_db_def dest: good_import_rows split: if_splits exec.splits)

definition imported :: "osmo_core \<Rightarrow> sqlite_env \<Rightarrow> string \<Rightarrow> string \<Rightarrow> bool \<Rightarrow> hlr_db \<Rightarrow> hlr_db" where
  \<comment> \<open>the tables before the keys are imported\<close>
  "imported L E imsi ext a db = fst (db_subscr_nam E imsi a False (fst (db_subscr_nam E imsi a True
     (fst (db_subscr_update_msisdn_by_imsi L E imsi (Some ext) (fst (db_subscr_create L E imsi True True db)))))))"

lemma imported_spec:
  assumes E: "env_ok E" and good: "db_good L db" and imsi: "osmo_imsi_str_valid L imsi" "subscribers db imsi = None"
    and ext: "osmo_msisdn_str_valid L ext" "\<forall>r \<in> set (tbl_subscriber db). row_msisdn r \<noteq> Some ext"
  shows "db_good L (imported L E imsi ext a db)"
    and "subscribers (imported L E imsi ext a db) = (subscribers db)
      (imsi \<mapsto> (new_subscriber (new_rowid (tbl_subscriber db)) imsi True True)\<lparr>row_msisdn := Some ext, row_nam_ps := a, row_nam_cs := a\<rparr>)"
proof -
  let ?new = "new_subscriber (new_rowid (tbl_subscriber db)) imsi True True"
  define d1 where "d1 = fst (db_subscr_create L E imsi True True db)"
  define d2 where "d2 = fst (db_subscr_update_msisdn_by_imsi L E imsi (Some ext) d1)"
  define d3 where "d3 = fst (db_subscr_nam E imsi a True d2)"
  have i: "imported L E imsi ext a db = fst (db_subscr_nam E imsi a False d3)" by (simp add: imported_def d1_def d2_def d3_def)
  have g: "db_good L d1" "db_good L d2" "db_good L d3" using good by (simp_all add: d1_def d2_def d3_def good_nam good_msisdn good_create)
  then show "db_good L (imported L E imsi ext a db)" by (simp add: i good_nam)
  have wf: "db_wf d1" "db_wf d2" "db_wf d3" using g by (simp_all add: db_good_def)
  have s1: "subscribers d1 = (subscribers db)(imsi \<mapsto> ?new)" unfolding d1_def by (rule create_spec(2) [OF E imsi])
  have "\<forall>r \<in> set (tbl_subscriber d1). row_msisdn r \<noteq> Some ext"
    using ext(2) imsi(2) unfolding d1_def create_spec(1) [OF E imsi(1)] by (auto simp: new_subscriber_def)
  from import_msisdn_spec [OF wf(1) E ext(1) this] s1
  have "subscribers d2 = (subscribers db)(imsi \<mapsto> ?new\<lparr>row_msisdn := Some ext\<rparr>)" by (auto simp: d2_def amend_def)
  then show "subscribers (imported L E imsi ext a db) = (subscribers db)(imsi \<mapsto> ?new\<lparr>row_msisdn := Some ext, row_nam_ps := a, row_nam_cs := a\<rparr>)"
    unfolding i using conjunct1 [OF nam_spec [OF wf(2) E]] conjunct1 [OF nam_spec [OF wf(3) E]] by (auto simp: d3_def amend_def)
qed

text \<open>
  C21. An imported subscriber is complete: when SQLite does not fail, a subscriber of the other database with a new and valid IMSI, a free and valid extension, an id that fits in 32 bits and a key as libdbi
  encodes it (16 octets, one of the algorithms 1 to 4) is added with that IMSI, the extension as telephone number, access to both domains exactly when it was authorized, and
  the HLR authenticates it with the algorithm and the 16 octets of its first key. No other subscriber changes.
\<close>
theorem nitb_import_complete:
  assumes E: "env_ok E" and good: "db_good L db" and L: "lib_strings_ok L" and hex: "lib_hex_ok L" "hexdump_ok L T"
    and imsi: "imsi = show_int (n_imsi row)" "osmo_imsi_str_valid L imsi" "subscribers db imsi = None"
    and ext: "n_extension row = Some ext" "osmo_msisdn_str_valid L ext" "\<forall>r \<in> set (tbl_subscriber db). row_msisdn r \<noteq> Some ext"
    and id: "- (2 ^ 31) \<le> n_id row" "n_id row < 2 ^ 31"
    and keys: "n_bind N" "n_keys N (n_id row) = (algo, dbd_encode e ki) # rest" "e < 256" "length ki = 16" "1 \<le> algo" "algo \<le> 4"
  shows "\<exists>db' r. import_nitb_subscr L T E N row db = Ret db' \<and> subscribers db' = (subscribers db)(imsi \<mapsto> r) \<and> row_msisdn r = Some ext \<and>
    row_nam_cs r = (n_authorized row \<noteq> 0) \<and> row_nam_ps r = (n_authorized row \<noteq> 0) \<and>
    fst (snd (db_get_auth_data L E imsi db')) = aud_zero\<lparr>aud_ki := ki, aud_algo := nat algo, aud_type := OSMO_AUTH_TYPE_GSM\<rparr>"
proof -
  have len: "length imsi \<le> 15" "length ext \<le> 15" using L imsi(2) ext(2) unfolding lib_strings_ok_def by blast+
  let ?a = "n_authorized row \<noteq> 0"
  let ?r = "(new_subscriber (new_rowid (tbl_subscriber db)) imsi True True)\<lparr>row_msisdn := Some ext, row_nam_ps := ?a, row_nam_cs := ?a\<rparr>"
  define d4 where "d4 = imported L E imsi ext ?a db"
  have g: "db_good L d4" and s4: "subscribers d4 = (subscribers db)(imsi \<mapsto> ?r)"
    unfolding d4_def by (rule imported_spec [OF E good imsi(2,3) ext(2,3)])+
  have wf: "db_wf d4" using g by (simp add: db_good_def)
  from s4 have r: "subscribers d4 imsi = Some ?r" by simp
  have sub: "sub_imsi (row_to_subscriber E ?r) = imsi" "sub_id (row_to_subscriber E ?r) = row_id ?r"
    using len(1) by (simp_all add: row_to_subscriber_def new_subscriber_def)
  obtain db' where loop: "aud_loop L T E (row_id ?r) 0 (n_keys N (n_id row)) d4 = Ret db'"
    and db': "tbl_subscriber db' = tbl_subscriber d4" "tbl_auc_2g db' = filter (\<lambda>a. a2_subscriber_id a \<noteq> row_id ?r) (tbl_auc_2g d4) @
      [\<lparr>a2_subscriber_id = row_id ?r, a2_algo_id = nat algo, a2_ki = osmo_hexdump_nospc T ki\<rparr>]"
    unfolding keys(2) aud_loop_first [OF wf E hex keys(3-)] by simp
  have cpy: "strlcpy 32 (show_int (n_imsi row)) = imsi" "copy_text 16 (n_extension row) = ext"
    using len imsi(1) ext(1) by (simp_all add: copy_text_def)
  have eq: "import_nitb_subscr L T E N row db =
      (case db_subscr_get_by_imsi E imsi d4 of
         Inl rc \<Rightarrow> Ret d4
       | Inr subscr \<Rightarrow> if strcmp imsi (sub_imsi subscr) \<noteq> 0 then Fault else import_nitb_subscr_aud L T E N (n_id row) (sub_id subscr) d4)"
    by (simp only: import_nitb_subscr_def Let_def cpy d4_def imported_def)
  have "import_nitb_subscr L T E N row db = Ret db'"
    unfolding eq get_by_imsi_ok [OF E] r using sub loop keys(1) by (simp add: import_nitb_subscr_aud_def cmp_simps c_int_id [OF id])
  moreover have "subscribers db' = (subscribers db)(imsi \<mapsto> ?r)" using s4 db'(1) by (simp add: subscribers_def)
  moreover have "fst (snd (db_get_auth_data L E imsi db')) = aud_zero\<lparr>aud_ki := ki, aud_algo := nat algo, aud_type := OSMO_AUTH_TYPE_GSM\<rparr>"
    using auth_data_2g [OF E hex(1) _ _ db'(2)] r db'(1) hex(2) keys(4) by (simp add: hexdump_ok_def subscribers_def)
  ultimately show ?thesis by (intro exI [of _ db'] exI [of _ ?r]) simp
qed

section \<open>An import\<close>

definition nitb_row :: nitb_subscr where
  "nitb_row = \<lparr>n_imsi = 262420000000003, n_id = 7, n_extension = Some ''1003'', n_authorized = 1\<rparr>"

definition nitb_one :: nitb_db where
  "nitb_one = \<lparr>n_open = True, n_prepare = True, n_subscrs = [nitb_row], n_subscrs_rc = SQLITE_DONE, n_bind = True,
     n_keys = (\<lambda>_. [(1, dbd_encode 5 (replicate 16 CHR 0x07))])\<rparr>"

definition twice_text :: text_lib where
  "twice_text = \<lparr>osmo_auth_alg_name = show_dec, osmo_hexdump_nospc = (\<lambda>b. b @ b)\<rparr>"

lemma show_imsi: "show_int 262420000000003 = ''262420000000003''"
  by (simp add: show_int_def show_dec.simps char_of_def bit_0 bit_Suc)

theorem nitb_import_complete_witness:
  "\<exists>db' r. import_nitb_subscr ref_core twice_text ref_env nitb_one nitb_row db_one = Ret db' \<and>
    subscribers db' = (subscribers db_one)(''262420000000003'' \<mapsto> r) \<and> row_msisdn r = Some ''1003''"
proof -
  have hex: "hexdump_ok ref_core twice_text" by (simp add: hexdump_ok_def twice_text_def ref_core_def)
  have imsi: "''262420000000003'' = show_int (n_imsi nitb_row)" by (simp add: nitb_row_def show_imsi)
  have valid: "osmo_imsi_str_valid ref_core ''262420000000003''" "osmo_msisdn_str_valid ref_core ''1003''"
    by (simp_all add: ref_core_def is_digit_def octet_val_def)
  have new: "subscribers db_one ''262420000000003'' = None" "\<forall>r \<in> set (tbl_subscriber db_one). row_msisdn r \<noteq> Some ''1003''"
    by (simp_all add: subscribers_def db_one_def new_subscriber_def)
  from nitb_import_complete [OF ref_env_ok hlr_first_good(1) [simplified] ref_strings_ok ref_hex_ok hex imsi valid(1) new(1) _ valid(2) new(2) _ _,
      of nitb_one 1 5 "replicate 16 CHR 0x07" "[]"]
  show ?thesis by (auto simp: nitb_row_def nitb_one_def)
qed

end
