(* ===== verification/Vty.thy ===== *)
theory Vty
  imports Hlr_Vty_Subscr Mslookup_Server
begin

text \<open>
  What the configuration commands of \<open>src/hlr_vty.c\<close> and \<open>src/dgsm_vty.c\<close> share: the nodes of
  the VTY (\<open>include/osmocom/hlr/hlr_vty.h\<close>), the state of the HLR with all of its configuration, and the initial
  configuration that \<open>main\<close> and \<open>dgsm_init\<close> set up. The VTY library matches a command line with the template of a command and chooses the
  node for a line of a configuration file by its indentation: both are fields of the parameter \<open>vty_parser\<close>, and \<open>parser_ok\<close>
  says what is documented of them. A line of a configuration file is its indentation and its words.
\<close>

section \<open>Data\<close>

datatype vty_node =
    ENABLE_NODE | CONFIG_NODE
  | HLR_NODE | GSUP_NODE | EUSE_NODE
  | MSLOOKUP_NODE | MSLOOKUP_SERVER_NODE | MSLOOKUP_SERVER_MSC_NODE | MSLOOKUP_CLIENT_NODE

datatype vty_index = INDEX_NULL | INDEX_EUSE hlr_euse | INDEX_MSC nat

record vty =
  vt_node :: vty_node
  vt_index :: vty_index
  vt_file :: bool

datatype tok =
    KEYWORD string
  | VARIABLE
  | VARIABLE_IPV4
  | RANGE nat nat
  | CHOICE "tok list"
  | OPTION tok
  | VARARG

type_synonym cfg_line = "nat \<times> string list"

record vty_world = hlr_world +
  db_file_path :: string
  hlr_gsup_bind_addr :: "string option"
  ms_server :: mslookup_server
  ms_server_mdns :: mdns_server_cfg
  ms_client :: mdns_client_cfg

text \<open>
  A command function takes the arguments and the VTY and changes both the VTY and the HLR.
\<close>

type_synonym 'a cfg_cmd =
  "string list \<Rightarrow> vty \<Rightarrow> 'a vty_world_scheme \<Rightarrow> (vty \<times> 'a vty_world_scheme \<times> string \<times> cmd_result) exec"

type_synonym 'a cmd_table = "vty_node \<Rightarrow> (tok list \<times> 'a cfg_cmd) list"

section \<open>The VTY library\<close>

record vty_parser =
  cmd_match :: "tok list \<Rightarrow> string list \<Rightarrow> string list option"
  leave_nodes :: "nat \<Rightarrow> vty \<Rightarrow> (nat \<times> vty) list \<Rightarrow> vty \<times> (nat \<times> vty) list"
  cmd_ipv4_match :: "string \<Rightarrow> bool"

definition range_word :: "nat \<Rightarrow> nat \<Rightarrow> string \<Rightarrow> bool" where
  "range_word lo hi w \<longleftrightarrow>
     (case strtoll w of (v, endptr, erange) \<Rightarrow> w \<noteq> [] \<and> endptr = [] \<and> \<not> erange \<and> int lo \<le> v \<and> v \<le> int hi)"

definition atoi :: "string \<Rightarrow> int" where
  "atoi w = fst (strtoll w)"

fun word_ok :: "vty_parser \<Rightarrow> tok \<Rightarrow> string \<Rightarrow> bool" where
  \<comment> \<open>what a word at the place of an element of a template has to satisfy\<close>
  "word_ok P (KEYWORD k) w \<longleftrightarrow> w = k"
| "word_ok P VARIABLE w \<longleftrightarrow> w \<noteq> []"
| "word_ok P VARIABLE_IPV4 w \<longleftrightarrow> w \<noteq> [] \<and> cmd_ipv4_match P w"
| "word_ok P (RANGE lo hi) w \<longleftrightarrow> range_word lo hi w"
| "word_ok P (CHOICE ts) w \<longleftrightarrow> (\<exists>t \<in> set ts. word_ok P t w)"
| "word_ok P (OPTION t) w \<longleftrightarrow> word_ok P t w"
| "word_ok P VARARG w \<longleftrightarrow> w \<noteq> []"

definition value_tok :: "tok \<Rightarrow> bool" where
  "value_tok t \<longleftrightarrow> (case t of KEYWORD _ \<Rightarrow> False | OPTION _ \<Rightarrow> False | VARARG \<Rightarrow> False | _ \<Rightarrow> True)"

definition parser_ok :: "vty_parser \<Rightarrow> bool" where
  \<comment> \<open>a keyword of a configuration file is written out and is no argument, other words are arguments, an optional element may be
    missing at the end, a variadic one takes the rest; a line leaves all nodes that were entered by lines with at
    least its indentation\<close>
  "parser_ok P \<longleftrightarrow>
     (\<forall>ws. cmd_match P [] ws = (if ws = [] then Some [] else None)) \<and>
     (\<forall>k ts. cmd_match P (KEYWORD k # ts) [] = None) \<and>
     (\<forall>k ts w ws. cmd_match P (KEYWORD k # ts) (w # ws) = (if w = k then cmd_match P ts ws else None)) \<and>
     (\<forall>t ts. value_tok t \<longrightarrow> cmd_match P (t # ts) [] = None) \<and>
     (\<forall>t ts w ws. value_tok t \<longrightarrow>
        cmd_match P (t # ts) (w # ws) = (if word_ok P t w then map_option ((#) w) (cmd_match P ts ws) else None)) \<and>
     (\<forall>t ts. cmd_match P (OPTION t # ts) [] = cmd_match P ts []) \<and>
     (\<forall>t ts w ws.
        cmd_match P (OPTION t # ts) (w # ws) = (if word_ok P t w then map_option ((#) w) (cmd_match P ts ws) else None)) \<and>
     (\<forall>ts ws. cmd_match P (VARARG # ts) ws = (if ws = [] then None else Some ws)) \<and>
     (\<forall>i v. leave_nodes P i v [] = (v, [])) \<and>
     (\<forall>i v j p st. leave_nodes P i v ((j, p) # st) = (if i \<le> j then leave_nodes P i p st else (v, (j, p) # st)))"

fun find_cmd :: "vty_parser \<Rightarrow> (tok list \<times> 'a cfg_cmd) list \<Rightarrow> string list \<Rightarrow> ('a cfg_cmd \<times> string list) option" where
  "find_cmd P [] ws = None"
| "find_cmd P ((t, c) # tab) ws =
     (case cmd_match P t ws of Some argv \<Rightarrow> Some (c, argv) | None \<Rightarrow> find_cmd P tab ws)"

fun vty_read_config_file ::
  "vty_parser \<Rightarrow> 'a cmd_table \<Rightarrow> cfg_line list \<Rightarrow> vty \<Rightarrow> (nat \<times> vty) list \<Rightarrow> 'a vty_world_scheme
     \<Rightarrow> (vty \<times> (nat \<times> vty) list \<times> 'a vty_world_scheme) option exec" where
  \<comment> \<open>None: a line is refused and reading ends; a command that changes the node is remembered with the indentation of its line\<close>
  "vty_read_config_file P tab [] v st s = Ret (Some (v, st, s))"
| "vty_read_config_file P tab ((i, ws) # ls) v st s =
     (case leave_nodes P i v st of
        (v, st) \<Rightarrow>
          (case find_cmd P (tab (vt_node v)) ws of
             None \<Rightarrow> Ret None
           | Some (c, argv) \<Rightarrow>
               (case c argv v s of
                  Fault \<Rightarrow> Fault
                | Ret (v', s', out, rc) \<Rightarrow>
                    if rc \<noteq> CMD_SUCCESS then Ret None
                    else vty_read_config_file P tab ls v' (if vt_node v' = vt_node v then st else (i, v) # st) s')))"

definition file_vty :: vty where
  "file_vty = \<lparr>vt_node = CONFIG_NODE, vt_index = INDEX_NULL, vt_file = True\<rparr>"

section \<open>The initial configuration\<close>

definition HLR_DEFAULT_DB_FILE_PATH :: string where "HLR_DEFAULT_DB_FILE_PATH = ''hlr.db''"
definition NCSS_GUARD_TIMEOUT_DEFAULT :: int where "NCSS_GUARD_TIMEOUT_DEFAULT = 30"
definition OSMO_MDNS_DOMAIN_SUFFIX_DEFAULT :: string where "OSMO_MDNS_DOMAIN_SUFFIX_DEFAULT = ''mdns.osmocom.org''"
definition OSMO_MSLOOKUP_MDNS_IP4 :: string where "OSMO_MSLOOKUP_MDNS_IP4 = ''239.192.23.42''"
definition OSMO_MSLOOKUP_MDNS_PORT :: "16 word" where "OSMO_MSLOOKUP_MDNS_PORT = 4266"

definition hlr_init :: "'a vty_world_scheme \<Rightarrow> 'a vty_world_scheme" where
  \<comment> \<open>the start of \<open>main\<close>: a zeroed structure and its defaults\<close>
  "hlr_init s =
     s\<lparr>euse_list := [], euse_default := None, ss_sessions := [], ussd_routes := [],
       ncss_guard_timeout := NCSS_GUARD_TIMEOUT_DEFAULT,
       gsup_gateway_proxy := sockaddr_zero, client_result_timeout_milliseconds := 0,
       h_subscr_create_on_demand := False, h_create_nam_cs := False, h_create_nam_ps := False, h_rand_msisdn_len := 0,
       store_imei := False, gsup_unit_serno := [],
       db_file_path := HLR_DEFAULT_DB_FILE_PATH, hlr_gsup_bind_addr := None,
       ms_server := \<lparr>local_site_services = [], local_attach_max_age = 0, gsup_bind_addr = [], gsup_bind = service_host_zero\<rparr>,
       ms_server_mdns := \<lparr>srv_allow_startup = False, srv_enable = False, srv_mdns_enable = False,
         srv_cfg_bind_addr = sockaddr_zero, srv_cfg_domain_suffix = OSMO_MDNS_DOMAIN_SUFFIX_DEFAULT, srv_running = None\<rparr>,
       ms_client := \<lparr>allow_startup = False, client_enable = False, mdns_enable = False,
         query_addr = sockaddr_zero, domain_suffix = OSMO_MDNS_DOMAIN_SUFFIX_DEFAULT, mdns_running = None\<rparr>\<rparr>"

definition dgsm_init :: "osmo_core \<Rightarrow> 'a vty_world_scheme \<Rightarrow> 'a vty_world_scheme" where
  "dgsm_init L s =
     (let addr = fst (osmo_sockaddr_str_from_str L OSMO_MSLOOKUP_MDNS_IP4 OSMO_MSLOOKUP_MDNS_PORT)
      in s\<lparr>ms_server := (ms_server s)\<lparr>local_site_services := [], local_attach_max_age := 60 * 60\<rparr>,
           client_result_timeout_milliseconds := 2000, gsup_unit_serno := ''unnamed-HLR'',
           ms_server_mdns := (ms_server_mdns s)\<lparr>srv_cfg_bind_addr := addr\<rparr>,
           ms_client := (ms_client s)\<lparr>query_addr := addr\<rparr>\<rparr>)"

definition initial_config :: "osmo_core \<Rightarrow> 'a vty_world_scheme \<Rightarrow> 'a vty_world_scheme" where
  "initial_config L s = dgsm_init L (hlr_init s)"

section \<open>Configurations\<close>

text \<open>
  The states the operator can reach with the commands of a table from the initial configuration, while everything else the HLR does
  leaves the part \<open>view\<close> of the state alone.
\<close>

inductive configured :: "vty_parser \<Rightarrow> 'a cmd_table \<Rightarrow> osmo_core \<Rightarrow> ('a vty_world_scheme \<Rightarrow> 'v) \<Rightarrow> 'a vty_world_scheme \<Rightarrow> bool"
  for P tab L view where
  start: "configured P tab L view (initial_config L s)"
| command: "configured P tab L view s \<Longrightarrow> find_cmd P (tab (vt_node v)) ws = Some (c, argv) \<Longrightarrow>
    c argv v s = Ret (v', s', out, rc) \<Longrightarrow> configured P tab L view s'"
| other: "configured P tab L view s \<Longrightarrow> view s' = view s \<Longrightarrow> configured P tab L view s'"

definition keeps :: "('a vty_world_scheme \<Rightarrow> bool) \<Rightarrow> 'a cfg_cmd \<Rightarrow> string list \<Rightarrow> bool" where
  "keeps Q c argv \<longleftrightarrow> (\<forall>v s v' s' out rc. Q s \<longrightarrow> c argv v s = Ret (v', s', out, rc) \<longrightarrow> Q s')"

section \<open>Matching\<close>

lemma match_simps:
  assumes "parser_ok P"
  shows "cmd_match P [] ws = (if ws = [] then Some [] else None)"
    and "cmd_match P (KEYWORD k # ts) [] = None"
    and "cmd_match P (KEYWORD k # ts) (w # ws) = (if w = k then cmd_match P ts ws else None)"
    and "cmd_match P (VARARG # ts) ws = (if ws = [] then None else Some ws)"
    and "cmd_match P (OPTION t # ts) [] = cmd_match P ts []"
    and "cmd_match P (OPTION t # ts) (w # ws) = (if word_ok P t w then map_option ((#) w) (cmd_match P ts ws) else None)"
  using assms by (simp_all add: parser_ok_def)

lemma match_value:
  assumes "parser_ok P" and "value_tok t"
  shows "cmd_match P (t # ts) [] = None"
    and "cmd_match P (t # ts) (w # ws) = (if word_ok P t w then map_option ((#) w) (cmd_match P ts ws) else None)"
  using assms by (simp_all add: parser_ok_def)

lemma value_toks [simp]: "value_tok VARIABLE" "value_tok VARIABLE_IPV4" "value_tok (RANGE lo hi)" "value_tok (CHOICE ts)"
  by (simp_all add: value_tok_def)

lemma leave_simps:
  assumes "parser_ok P"
  shows "leave_nodes P i v [] = (v, [])"
    and "leave_nodes P i v ((j, p) # st) = (if i \<le> j then leave_nodes P i p st else (v, (j, p) # st))"
  using assms by (simp_all add: parser_ok_def)

lemma match_iff:
  assumes "parser_ok P"
  shows "cmd_match P [] ws = Some argv \<longleftrightarrow> ws = [] \<and> argv = []"
    and "cmd_match P (KEYWORD k # ts) ws = Some argv \<longleftrightarrow> (\<exists>ws'. ws = k # ws' \<and> cmd_match P ts ws' = Some argv)"
    and "value_tok t \<Longrightarrow> cmd_match P (t # ts) ws = Some argv \<longleftrightarrow>
      (\<exists>w ws' argv'. ws = w # ws' \<and> word_ok P t w \<and> cmd_match P ts ws' = Some argv' \<and> argv = w # argv')"
  using assms by (cases ws; auto simp: match_simps match_value)+

lemma find_cmd_installed:
  "find_cmd P tab ws = Some (c, argv) \<Longrightarrow> \<exists>t. (t, c) \<in> set tab \<and> cmd_match P t ws = Some argv"
  by (induction tab) (auto split: option.splits)

lemma configured_inv:
  assumes "configured P tab L view s" and "\<And>s. Q (initial_config L s)"
    and "\<And>n t c ws argv. (t, c) \<in> set (tab n) \<Longrightarrow> cmd_match P t ws = Some argv \<Longrightarrow> keeps Q c argv"
    and "\<And>s s'. Q s \<Longrightarrow> view s' = view s \<Longrightarrow> Q s'"
  shows "Q s"
  using assms(1)
proof (induction rule: configured.induct)
  case (command s v ws c argv v' s' out rc)
  with find_cmd_installed [OF command.hyps(2)] assms(3) show ?case unfolding keeps_def by metis
qed (use assms(2,4) in blast)+

lemma range_word_show: "lo \<le> n \<Longrightarrow> n \<le> hi \<Longrightarrow> n < 4294967296 \<Longrightarrow> range_word lo hi (show_dec n)"
  using strtoll_digits [OF show_dec_digits show_dec_nonempty, of n]
  by (simp add: range_word_def show_dec_val show_dec_nonempty)

lemma atoi_show: "n < 4294967296 \<Longrightarrow> atoi (show_dec n) = int n"
  using strtoll_digits [OF show_dec_digits show_dec_nonempty, of n] by (simp add: atoi_def show_dec_val)

lemma range_word_atoi: "range_word lo hi w \<Longrightarrow> int lo \<le> atoi w \<and> atoi w \<le> int hi"
  by (auto simp: range_word_def atoi_def split: prod.splits)

section \<open>Reading blocks of lines\<close>

definition in_block :: "vty_parser \<Rightarrow> nat \<Rightarrow> vty \<Rightarrow> (nat \<times> vty) list \<Rightarrow> vty \<Rightarrow> (nat \<times> vty) list \<Rightarrow> bool" where
  \<comment> \<open>a line of indentation \<open>i\<close> is read in the node of \<open>v0\<close>, below \<open>st0\<close>\<close>
  "in_block P i v0 st0 v st \<longleftrightarrow> leave_nodes P i v st = (v0, st0)"

definition reads ::
  "vty_parser \<Rightarrow> 'a cmd_table \<Rightarrow> nat \<Rightarrow> vty \<Rightarrow> (nat \<times> vty) list \<Rightarrow> cfg_line list \<Rightarrow> 'a vty_world_scheme \<Rightarrow> 'a vty_world_scheme \<Rightarrow> bool" where
  \<comment> \<open>the lines are accepted inside the block and change the state from \<open>s\<close> to \<open>s'\<close>\<close>
  "reads P tab i v0 st0 ls s s' \<longleftrightarrow>
     (\<forall>v st. in_block P i v0 st0 v st \<longrightarrow>
        (\<exists>v' st'. vty_read_config_file P tab ls v st s = Ret (Some (v', st', s')) \<and> in_block P i v0 st0 v' st'))"

lemma read_append:
  "vty_read_config_file P tab (a @ b) v st s =
     (case vty_read_config_file P tab a v st s of
        Fault \<Rightarrow> Fault
      | Ret None \<Rightarrow> Ret None
      | Ret (Some (v, st, s)) \<Rightarrow> vty_read_config_file P tab b v st s)"
  by (induction a arbitrary: v st s) (auto split: prod.split option.split exec.split)

lemma reads_nil [simp]: "reads P tab i v0 st0 [] s s"
  by (simp add: reads_def)

lemma reads_append: "reads P tab i v0 st0 a s s1 \<Longrightarrow> reads P tab i v0 st0 b s1 s2 \<Longrightarrow> reads P tab i v0 st0 (a @ b) s s2"
  unfolding reads_def read_append by fastforce

lemma reads_if: "(b \<Longrightarrow> reads P tab i v0 st0 ls s s') \<Longrightarrow> reads P tab i v0 st0 (if b then ls else []) s (if b then s' else s)"
  by simp

definition accepts :: "vty_parser \<Rightarrow> 'a cmd_table \<Rightarrow> vty \<Rightarrow> string list \<Rightarrow> 'a vty_world_scheme \<Rightarrow> 'a vty_world_scheme \<Rightarrow> bool" where
  \<comment> \<open>a command that changes the state to \<open>s'\<close>, and may enter a node of its own\<close>
  "accepts P tab v0 ws s s' \<longleftrightarrow>
     (case find_cmd P (tab (vt_node v0)) ws of
        None \<Rightarrow> False
      | Some (c, argv) \<Rightarrow>
          (case c argv v0 s of
             Fault \<Rightarrow> False
           | Ret (v', s2, out, rc) \<Rightarrow> rc = CMD_SUCCESS \<and> s2 = s' \<and> (vt_node v' = vt_node v0 \<longrightarrow> v' = v0)))"

lemma reads_line:
  assumes "parser_ok P" and "accepts P tab v0 ws s s'" and "leave_nodes P i v0 st0 = (v0, st0)"
  shows "reads P tab i v0 st0 [(i, ws)] s s'"
  using assms by (auto simp: reads_def in_block_def accepts_def leave_simps split: option.splits exec.splits)

lemma leave_less:
  assumes P: "parser_ok P" and "j \<le> i" and "leave_nodes P i v st = (v1, st1)"
  shows "leave_nodes P j v st = leave_nodes P j v1 st1"
  using assms(3)
proof (induction st arbitrary: v)
  case (Cons e st)
  then show ?case using assms(2) by (cases e) (auto simp: leave_simps [OF P] split: if_splits)
qed (simp add: leave_simps [OF P])

lemma reads_sub_block:
  \<comment> \<open>a command that enters a node, followed by the lines of that node\<close>
  assumes P: "parser_ok P" and "find_cmd P (tab (vt_node v0)) ws = Some (c, argv)"
    and "c argv v0 s = Ret (v1, s1, out, CMD_SUCCESS)" and "vt_node v1 \<noteq> vt_node v0" and "leave_nodes P i v0 st0 = (v0, st0)"
    and "reads P tab (Suc i) v1 ((i, v0) # st0) ls s1 s2"
  shows "reads P tab i v0 st0 ((i, ws) # ls) s s2"
proof -
  have "in_block P (Suc i) v1 ((i, v0) # st0) v1 ((i, v0) # st0)" by (simp add: in_block_def leave_simps [OF P])
  then obtain v st where r: "vty_read_config_file P tab ls v1 ((i, v0) # st0) s1 = Ret (Some (v, st, s2))"
    and "in_block P (Suc i) v1 ((i, v0) # st0) v st"
    using assms(6) unfolding reads_def by blast
  then have "in_block P i v0 st0 v st"
    using leave_less [OF P, of i "Suc i"] assms(5) by (simp add: in_block_def leave_simps [OF P])
  with r show ?thesis using assms(2-4) by (auto simp: reads_def in_block_def)
qed

section \<open>An instance of the parameter\<close>

definition ref_words :: vty_parser where
  "ref_words = \<lparr>cmd_match = (\<lambda>_ _. None), leave_nodes = (\<lambda>_ v st. (v, st)), cmd_ipv4_match = (\<lambda>_. True)\<rparr>"

fun ref_match :: "tok list \<Rightarrow> string list \<Rightarrow> string list option" where
  "ref_match [] ws = (if ws = [] then Some [] else None)"
| "ref_match (VARARG # ts) ws = (if ws = [] then None else Some ws)"
| "ref_match (KEYWORD k # ts) ws = (case ws of [] \<Rightarrow> None | w # ws' \<Rightarrow> if w = k then ref_match ts ws' else None)"
| "ref_match (OPTION t # ts) ws =
     (case ws of [] \<Rightarrow> ref_match ts [] | w # ws' \<Rightarrow> if word_ok ref_words t w then map_option ((#) w) (ref_match ts ws') else None)"
| "ref_match (t # ts) ws =
     (case ws of [] \<Rightarrow> None | w # ws' \<Rightarrow> if word_ok ref_words t w then map_option ((#) w) (ref_match ts ws') else None)"

fun ref_leave :: "nat \<Rightarrow> vty \<Rightarrow> (nat \<times> vty) list \<Rightarrow> vty \<times> (nat \<times> vty) list" where
  "ref_leave i v [] = (v, [])"
| "ref_leave i v ((j, p) # st) = (if i \<le> j then ref_leave i p st else (v, (j, p) # st))"

definition ref_parser :: vty_parser where
  "ref_parser = \<lparr>cmd_match = ref_match, leave_nodes = ref_leave, cmd_ipv4_match = (\<lambda>_. True)\<rparr>"

lemma word_ok_ref: "word_ok ref_parser t w = word_ok ref_words t w"
  by (induction t) (simp_all add: ref_parser_def ref_words_def)

lemma ref_parser_ok: "parser_ok ref_parser"
proof -
  have "ref_match (t # ts) ws =
      (case ws of [] \<Rightarrow> None | w # ws' \<Rightarrow> if word_ok ref_parser t w then map_option ((#) w) (ref_match ts ws') else None)"
    if "value_tok t" for t ts ws
    using that by (cases t; cases ws) (simp_all add: value_tok_def ref_parser_def ref_words_def word_ok_ref [unfolded ref_parser_def ref_words_def])
  then show ?thesis by (auto simp: parser_ok_def ref_parser_def word_ok_ref [unfolded ref_parser_def])
qed

end
