(* ===== verification/Hlr_Vty.thy ===== *)
theory Hlr_Vty
  imports Vty
begin

text \<open>
  The configuration commands of the HLR and the writing of its configuration: \<open>src/hlr_vty.c\<close>. Address and port of the peer of a
  connection are kept by the IPA library and given by the parameter \<open>isc\<close>. The commands for subscribers, which
  \<open>hlr_vty_init\<close> installs too, are in the theory \<open>Hlr_Vty_Subscr\<close>; those of the VTY library itself are not in the table.
\<close>

section \<open>Nodes\<close>

definition cmd_ok :: "vty \<Rightarrow> 'a vty_world_scheme \<Rightarrow> (vty \<times> 'a vty_world_scheme \<times> string \<times> cmd_result) exec" where
  "cmd_ok v s = Ret (v, s, [], CMD_SUCCESS)"

definition cmd_warn :: "string \<Rightarrow> vty \<Rightarrow> 'a vty_world_scheme \<Rightarrow> (vty \<times> 'a vty_world_scheme \<times> string \<times> cmd_result) exec" where
  "cmd_warn txt v s = Ret (v, s, txt, CMD_WARNING)"

definition cfg_hlr :: "'a cfg_cmd" where
  "cfg_hlr argv v s = cmd_ok (v\<lparr>vt_node := HLR_NODE\<rparr>) s"

definition cfg_gsup :: "'a cfg_cmd" where
  "cfg_gsup argv v s = cmd_ok (v\<lparr>vt_node := GSUP_NODE\<rparr>) s"

definition hlr_vty_go_parent :: "vty \<Rightarrow> vty" where
  "hlr_vty_go_parent v =
     (case vt_node v of
        GSUP_NODE \<Rightarrow> v\<lparr>vt_node := HLR_NODE, vt_index := INDEX_NULL\<rparr>
      | EUSE_NODE \<Rightarrow> v\<lparr>vt_node := HLR_NODE, vt_index := INDEX_NULL\<rparr>
      | CONFIG_NODE \<Rightarrow> v\<lparr>vt_node := ENABLE_NODE, vt_index := INDEX_NULL\<rparr>
      | _ \<Rightarrow> v\<lparr>vt_node := CONFIG_NODE, vt_index := INDEX_NULL\<rparr>)"

definition hlr_vty_is_config_node :: "vty_node \<Rightarrow> bool" where
  "hlr_vty_is_config_node node \<longleftrightarrow> node \<noteq> CONFIG_NODE"

section \<open>Connections\<close>

definition show_one_conn :: "vty_lib \<Rightarrow> (nat \<Rightarrow> string \<times> nat) \<Rightarrow> osmo_gsup_conn \<Rightarrow> string exec" where
  \<comment> \<open>the assertion is on a return code other than 0; a negative one leaves the name undefined, and the name is read up to a nul\<close>
  "show_one_conn T isc conn =
     (case osmo_gsup_conn_ccm_get conn IPAC_IDTAG_SERNR of
        (name, rc) \<Rightarrow>
          if rc = 0 then Fault
          else (case name of
                  None \<Rightarrow> Fault
                | Some n \<Rightarrow>
                    if NUL \<notin> set n then Fault
                    else (case isc (conn_id conn) of
                            (addr, port) \<Rightarrow>
                              let p = show_dec port
                              in Ret (vty_line T ('' '' @ [CHR 0x27] @ cstr n @ [CHR 0x27] @ '' from '' @ addr @ '':'' @
                                   replicate (5 - length p) CHR '' '' @ p @
                                   '', CS='' @ (if supports_cs conn then ''1'' else ''0'') @
                                   '', PS='' @ (if supports_ps conn then ''1'' else ''0'') @
                                   '', 3G_IND='' @ show_dec (auc_3g_ind conn))))))"

fun show_conns :: "vty_lib \<Rightarrow> (nat \<Rightarrow> string \<times> nat) \<Rightarrow> osmo_gsup_conn list \<Rightarrow> string exec" where
  "show_conns T isc [] = Ret []"
| "show_conns T isc (c # cs) =
     (case show_one_conn T isc c of
        Fault \<Rightarrow> Fault
      | Ret a \<Rightarrow> (case show_conns T isc cs of Fault \<Rightarrow> Fault | Ret b \<Rightarrow> Ret (a @ b)))"

definition show_gsup_conn :: "vty_lib \<Rightarrow> (nat \<Rightarrow> string \<times> nat) \<Rightarrow> 'a cfg_cmd" where
  "show_gsup_conn T isc argv v s =
     (case show_conns T isc (clients (gs s)) of
        Fault \<Rightarrow> Fault
      | Ret txt \<Rightarrow> Ret (v, s, txt, CMD_SUCCESS))"

section \<open>Commands of the GSUP node\<close>

definition cfg_hlr_gsup_bind_ip :: "'a cfg_cmd" where
  "cfg_hlr_gsup_bind_ip argv v s = cmd_ok v (s\<lparr>hlr_gsup_bind_addr := Some (argv ! 0)\<rparr>)"

definition cfg_hlr_gsup_ipa_name :: "vty_lib \<Rightarrow> 'a cfg_cmd" where
  "cfg_hlr_gsup_ipa_name T argv v s =
     (if \<not> vt_file v then
        cmd_warn (vty_line T (''gsup/ipa-name: The GSUP IPA name cannot be changed at run-time; '' @
          ''It can only be set in the configuraton file.'')) v s
      else cmd_ok v (s\<lparr>gsup_unit_serno := argv ! 0\<rparr>))"

section \<open>USSD entities and routes\<close>

definition quoted :: "string \<Rightarrow> string" where
  "quoted s = CHR 0x27 # s @ [CHR 0x27]"

definition cfg_ussd_route_pfx_int :: "vty_lib \<Rightarrow> 'a cfg_cmd" where
  \<comment> \<open>a name that is no internal entity would be stored as NULL\<close>
  "cfg_ussd_route_pfx_int T argv v s =
     (let iuse = iuse_find (argv ! 1)
      in if ussd_route_find_prefix (argv ! 0) s \<noteq> None then
           cmd_warn (vty_line T (''% Cannot add [another?] route for prefix '' @ argv ! 0)) v s
         else (case iuse of
                 Some i \<Rightarrow> cmd_ok v (fst (ussd_route_prefix_alloc_int (argv ! 0) i s))
               | None \<Rightarrow> cmd_ok v (s\<lparr>ussd_routes := ussd_routes s @ [\<lparr>rt_prefix = argv ! 0, rt_is_external = False, rt_u = USE_NULL\<rparr>]\<rparr>)))"

definition cfg_ussd_route_pfx_ext :: "vty_lib \<Rightarrow> 'a cfg_cmd" where
  "cfg_ussd_route_pfx_ext T argv v s =
     (if ussd_route_find_prefix (argv ! 0) s \<noteq> None then
        cmd_warn (vty_line T (''% Cannot add [another?] route for prefix '' @ argv ! 0)) v s
      else (case euse_find (argv ! 1) s of
              None \<Rightarrow> cmd_warn (vty_line T (''% Cannot find euse '' @ quoted (argv ! 1))) v s
            | Some euse \<Rightarrow> cmd_ok v (fst (ussd_route_prefix_alloc_ext (argv ! 0) euse s))))"

definition cfg_ussd_no_route_pfx :: "vty_lib \<Rightarrow> 'a cfg_cmd" where
  "cfg_ussd_no_route_pfx T argv v s =
     (case ussd_route_find_prefix (argv ! 0) s of
        None \<Rightarrow> cmd_warn (vty_line T (''% Cannot find route for prefix '' @ argv ! 0)) v s
      | Some rt \<Rightarrow> cmd_ok v (ussd_route_del rt s))"

definition cfg_ussd_defaultroute :: "vty_lib \<Rightarrow> 'a cfg_cmd" where
  "cfg_ussd_defaultroute T argv v s =
     (case euse_find (argv ! 0) s of
        None \<Rightarrow> cmd_warn (vty_line T (''% Cannot find EUSE '' @ argv ! 0)) v s
      | Some euse \<Rightarrow>
          if euse_default s \<noteq> Some euse then
            Ret (v, s\<lparr>euse_default := Some euse\<rparr>,
              vty_line T (''Switching default route from '' @
                (case euse_default s of Some e \<Rightarrow> euse_name e | None \<Rightarrow> ''<none>'') @ '' to '' @ euse_name euse), CMD_SUCCESS)
          else cmd_ok v s)"

definition cfg_ussd_no_defaultroute :: "'a cfg_cmd" where
  "cfg_ussd_no_defaultroute argv v s = cmd_ok v (s\<lparr>euse_default := None\<rparr>)"

definition cfg_euse :: "'a cfg_cmd" where
  "cfg_euse argv v s =
     (let found = (\<lambda>euse s. cmd_ok (v\<lparr>vt_index := INDEX_EUSE euse, vt_node := EUSE_NODE\<rparr>) s)
      in (case euse_find (argv ! 0) s of
            Some euse \<Rightarrow> found euse s
          | None \<Rightarrow>
              (case euse_alloc (argv ! 0) s of
                 (s, None) \<Rightarrow> cmd_warn [] v s
               | (s, Some euse) \<Rightarrow> found euse s)))"

definition cfg_no_euse :: "vty_lib \<Rightarrow> 'a cfg_cmd" where
  "cfg_no_euse T argv v s =
     (case euse_find (argv ! 0) s of
        None \<Rightarrow> cmd_warn (vty_line T (''% Cannot remove non-existant EUSE '' @ argv ! 0)) v s
      | Some euse \<Rightarrow>
          if euse_default s = Some euse then
            cmd_warn (vty_line T (''% Cannot remove EUSE '' @ argv ! 0 @ '', it is the default route'')) v s
          else cmd_ok v (euse_del euse s))"

section \<open>Other settings\<close>

definition cfg_database :: "'a cfg_cmd" where
  "cfg_database argv v s = cmd_ok v (s\<lparr>db_file_path := argv ! 0\<rparr>)"

definition cfg_ncss_guard_timeout :: "'a cfg_cmd" where
  "cfg_ncss_guard_timeout argv v s = cmd_ok v (s\<lparr>ncss_guard_timeout := atoi (argv ! 0)\<rparr>)"

definition cfg_store_imei :: "'a cfg_cmd" where
  "cfg_store_imei argv v s = cmd_ok v (s\<lparr>store_imei := True\<rparr>)"

definition cfg_no_store_imei :: "'a cfg_cmd" where
  "cfg_no_store_imei argv v s = cmd_ok v (s\<lparr>store_imei := False\<rparr>)"

definition cfg_subscr_create_on_demand :: "'a cfg_cmd" where
  "cfg_subscr_create_on_demand argv v s =
     (let rand_msisdn_len = (if strcmp (argv ! 0) ''no-msisdn'' \<noteq> 0 then nat (atoi (argv ! 0)) else 0)
      in cmd_ok v (s\<lparr>h_subscr_create_on_demand := True, h_rand_msisdn_len := rand_msisdn_len,
           h_create_nam_cs := strstr (argv ! 1) ''cs'', h_create_nam_ps := strstr (argv ! 1) ''ps''\<rparr>))"

definition cfg_no_subscr_create_on_demand :: "'a cfg_cmd" where
  "cfg_no_subscr_create_on_demand argv v s = cmd_ok v (s\<lparr>h_subscr_create_on_demand := False\<rparr>)"

definition hlr_vty_init :: "vty_lib \<Rightarrow> (nat \<Rightarrow> string \<times> nat) \<Rightarrow> 'a cmd_table" where
  "hlr_vty_init T isc node =
     (case node of
        ENABLE_NODE \<Rightarrow> [([KEYWORD ''show'', KEYWORD ''gsup-connections''], show_gsup_conn T isc)]
      | CONFIG_NODE \<Rightarrow> [([KEYWORD ''hlr''], cfg_hlr)]
      | HLR_NODE \<Rightarrow>
          [([KEYWORD ''gsup''], cfg_gsup),
           ([KEYWORD ''database'', VARIABLE], cfg_database),
           ([KEYWORD ''euse'', VARIABLE], cfg_euse),
           ([KEYWORD ''no'', KEYWORD ''euse'', VARIABLE], cfg_no_euse T),
           ([KEYWORD ''ussd'', KEYWORD ''route'', KEYWORD ''prefix'', VARIABLE, KEYWORD ''internal'',
             CHOICE [KEYWORD ''own-msisdn'', KEYWORD ''own-imsi'']], cfg_ussd_route_pfx_int T),
           ([KEYWORD ''ussd'', KEYWORD ''route'', KEYWORD ''prefix'', VARIABLE, KEYWORD ''external'', VARIABLE], cfg_ussd_route_pfx_ext T),
           ([KEYWORD ''no'', KEYWORD ''ussd'', KEYWORD ''route'', KEYWORD ''prefix'', VARIABLE], cfg_ussd_no_route_pfx T),
           ([KEYWORD ''ussd'', KEYWORD ''default-route'', KEYWORD ''external'', VARIABLE], cfg_ussd_defaultroute T),
           ([KEYWORD ''no'', KEYWORD ''ussd'', KEYWORD ''default-route''], cfg_ussd_no_defaultroute),
           ([KEYWORD ''ncss-guard-timeout'', RANGE 0 255], cfg_ncss_guard_timeout),
           ([KEYWORD ''store-imei''], cfg_store_imei),
           ([KEYWORD ''no'', KEYWORD ''store-imei''], cfg_no_store_imei),
           ([KEYWORD ''subscriber-create-on-demand'', CHOICE [KEYWORD ''no-msisdn'', RANGE 3 15],
             CHOICE [KEYWORD ''none'', KEYWORD ''cs'', KEYWORD ''ps'', KEYWORD ''cs+ps'']], cfg_subscr_create_on_demand),
           ([KEYWORD ''no'', KEYWORD ''subscriber-create-on-demand''], cfg_no_subscr_create_on_demand)]
      | GSUP_NODE \<Rightarrow>
          [([KEYWORD ''bind'', KEYWORD ''ip'', VARIABLE_IPV4], cfg_hlr_gsup_bind_ip),
           ([KEYWORD ''ipa-name'', VARIABLE], cfg_hlr_gsup_ipa_name T)]
      | _ \<Rightarrow> [])"

section \<open>Writing the configuration\<close>

definition flags_str :: "bool \<Rightarrow> bool \<Rightarrow> string" where
  "flags_str cs ps =
     (if cs \<and> ps then ''cs+ps'' else if cs then ''cs'' else if ps then ''ps'' else ''none'')"

definition config_write_hlr :: "'a vty_world_scheme \<Rightarrow> cfg_line list" where
  "config_write_hlr s =
     [(0, [''hlr''])] @
     (if store_imei s then [(1, [''store-imei''])] else []) @
     (if strcmp (db_file_path s) HLR_DEFAULT_DB_FILE_PATH \<noteq> 0 then [(1, [''database'', db_file_path s])] else []) @
     (if h_subscr_create_on_demand s then
        [(1, [''subscriber-create-on-demand'',
              if h_rand_msisdn_len s \<noteq> 0 then show_dec (h_rand_msisdn_len s) else ''no-msisdn'',
              flags_str (h_create_nam_cs s) (h_create_nam_ps s)])]
      else [])"

definition config_write_hlr_gsup :: "'a vty_world_scheme \<Rightarrow> cfg_line list" where
  "config_write_hlr_gsup s =
     [(1, [''gsup''])] @
     (case hlr_gsup_bind_addr s of None \<Rightarrow> [] | Some addr \<Rightarrow> [(2, [''bind'', ''ip'', addr])])"

definition dump_one_euse :: "hlr_euse \<Rightarrow> cfg_line" where
  "dump_one_euse euse = (1, [''euse'', euse_name euse])"

definition iuse_name :: "hlr_iuse \<Rightarrow> string" where
  "iuse_name i = (case i of IUSE_own_msisdn \<Rightarrow> ''own-msisdn'' | IUSE_own_imsi \<Rightarrow> ''own-imsi'')"

definition route_line :: "hlr_ussd_route \<Rightarrow> cfg_line exec" where
  \<comment> \<open>the body of the loop over the routes; reading the name of a deallocated entity is a \<open>Fault\<close>\<close>
  "route_line rt =
     (let line = (\<lambda>kind name. (1, [''ussd'', ''route'', ''prefix'', rt_prefix rt, kind, name]))
      in if rt_is_external rt then
           (case rt_u rt of USE_EUSE e \<Rightarrow> Ret (line ''external'' (euse_name e)) | _ \<Rightarrow> Fault)
         else (case rt_u rt of USE_IUSE i \<Rightarrow> Ret (line ''internal'' (iuse_name i)) | _ \<Rightarrow> Fault))"

fun route_lines :: "hlr_ussd_route list \<Rightarrow> cfg_line list exec" where
  "route_lines [] = Ret []"
| "route_lines (rt # rts) =
     (case route_line rt of
        Fault \<Rightarrow> Fault
      | Ret l \<Rightarrow> (case route_lines rts of Fault \<Rightarrow> Fault | Ret ls \<Rightarrow> Ret (l # ls)))"

definition config_write_euse :: "'a vty_world_scheme \<Rightarrow> cfg_line list exec" where
  "config_write_euse s =
     (case route_lines (ussd_routes s) of
        Fault \<Rightarrow> Fault
      | Ret ls \<Rightarrow>
          Ret (map dump_one_euse (euse_list s) @ ls @
            (case euse_default s of None \<Rightarrow> [] | Some e \<Rightarrow> [(1, [''ussd'', ''default-route'', ''external'', euse_name e])]) @
            (if ncss_guard_timeout s \<noteq> NCSS_GUARD_TIMEOUT_DEFAULT
             then [(1, [''ncss-guard-timeout'', show_int (ncss_guard_timeout s)])] else [])))"

definition hlr_config_write :: "'a vty_world_scheme \<Rightarrow> cfg_line list exec" where
  \<comment> \<open>the nodes in their order\<close>
  "hlr_config_write s =
     (case config_write_euse s of
        Fault \<Rightarrow> Fault
      | Ret ls \<Rightarrow> Ret (config_write_hlr s @ config_write_hlr_gsup s @ ls))"

section \<open>The configuration as the operator can leave it\<close>

definition hlr_settings :: "'a vty_world_scheme \<Rightarrow>
    (bool \<times> string \<times> (nat \<times> bool \<times> bool) option) \<times> string option \<times> hlr_euse list \<times> hlr_ussd_route list \<times> hlr_euse option \<times> int" where
  "hlr_settings s =
     ((store_imei s, db_file_path s,
       if h_subscr_create_on_demand s then Some (h_rand_msisdn_len s, h_create_nam_cs s, h_create_nam_ps s) else None),
      hlr_gsup_bind_addr s, euse_list s, ussd_routes s, euse_default s, ncss_guard_timeout s)"

definition dangling :: "'a ussd_world_scheme \<Rightarrow> string list" where
  \<comment> \<open>the prefixes of the routes whose pointer to an external entity outlived the entity\<close>
  "dangling s = map rt_prefix (filter (\<lambda>rt. rt_u rt = USE_FREED) (ussd_routes s))"

definition route_cfg_ok :: "hlr_euse list \<Rightarrow> hlr_ussd_route \<Rightarrow> bool" where
  "route_cfg_ok es rt \<longleftrightarrow> rt_prefix rt \<noteq> [] \<and>
     (if rt_is_external rt then (case rt_u rt of USE_EUSE e \<Rightarrow> e \<in> set es | USE_FREED \<Rightarrow> True | _ \<Rightarrow> False)
      else (case rt_u rt of USE_IUSE i \<Rightarrow> True | _ \<Rightarrow> False))"

definition settings_ok :: "vty_parser \<Rightarrow> 'a vty_world_scheme \<Rightarrow> bool" where
  "settings_ok P s \<longleftrightarrow>
     db_file_path s \<noteq> [] \<and> (case hlr_gsup_bind_addr s of None \<Rightarrow> True | Some a \<Rightarrow> word_ok P VARIABLE_IPV4 a) \<and>
     (h_subscr_create_on_demand s \<longrightarrow> h_rand_msisdn_len s = 0 \<or> 3 \<le> h_rand_msisdn_len s \<and> h_rand_msisdn_len s \<le> 15) \<and>
     0 \<le> ncss_guard_timeout s \<and> ncss_guard_timeout s \<le> 255"

definition ussd_cfg_ok :: "'a vty_world_scheme \<Rightarrow> bool" where
  "ussd_cfg_ok s \<longleftrightarrow>
     distinct (map euse_name (euse_list s)) \<and> list_all (\<lambda>e. euse_name e \<noteq> []) (euse_list s) \<and>
     distinct (map rt_prefix (ussd_routes s)) \<and> list_all (route_cfg_ok (euse_list s)) (ussd_routes s) \<and>
     set_option (euse_default s) \<subseteq> set (euse_list s)"

lemmas cmd_defs = cmd_ok_def cmd_warn_def cfg_hlr_def cfg_gsup_def show_gsup_conn_def cfg_hlr_gsup_bind_ip_def cfg_hlr_gsup_ipa_name_def
  cfg_database_def cfg_ncss_guard_timeout_def cfg_store_imei_def cfg_no_store_imei_def cfg_subscr_create_on_demand_def
  cfg_no_subscr_create_on_demand_def

lemmas ussd_cmd_defs = cmd_ok_def cmd_warn_def cfg_ussd_route_pfx_int_def cfg_ussd_route_pfx_ext_def cfg_ussd_no_route_pfx_def
  cfg_ussd_defaultroute_def cfg_ussd_no_defaultroute_def cfg_euse_def cfg_no_euse_def

lemma euse_find_none: "euse_find n s = None \<longleftrightarrow> n \<notin> euse_name ` set (euse_list s)"
  by (auto simp: euse_find_def find_None_iff)

lemma euse_find_some: "euse_find n s = Some e \<Longrightarrow> e \<in> set (euse_list s) \<and> euse_name e = n"
  by (auto simp: euse_find_def find_Some_iff)

lemma route_find_none: "ussd_route_find_prefix p s = None \<longleftrightarrow> p \<notin> rt_prefix ` set (ussd_routes s)"
  by (auto simp: ussd_route_find_prefix_def find_None_iff)

lemma euse_find_member:
  "distinct (map euse_name (euse_list s)) \<Longrightarrow> e \<in> set (euse_list s) \<Longrightarrow> euse_find (euse_name e) s = Some e"
  by (cases "euse_find (euse_name e) s") (auto simp: euse_find_none dest!: euse_find_some intro: inj_onD [of euse_name] simp: distinct_map)

subsection \<open>Every command keeps it\<close>

lemmas ussd_ops = euse_alloc_def euse_del_def ussd_route_prefix_alloc_int_def ussd_route_prefix_alloc_ext_def ussd_route_del_def

lemma settings_frame:
  "settings_ok P (s\<lparr>euse_list := a\<rparr>) = settings_ok P s" "settings_ok P (s\<lparr>euse_default := b\<rparr>) = settings_ok P s"
  "settings_ok P (s\<lparr>ussd_routes := c\<rparr>) = settings_ok P s" "settings_ok P (s\<lparr>ss_sessions := d\<rparr>) = settings_ok P s"
  by (simp_all add: settings_ok_def)

lemma ussd_settings:
  "keeps (settings_ok P) cfg_euse argv" "keeps (settings_ok P) (cfg_no_euse T) argv"
  "keeps (settings_ok P) (cfg_ussd_route_pfx_int T) argv" "keeps (settings_ok P) (cfg_ussd_route_pfx_ext T) argv"
  "keeps (settings_ok P) (cfg_ussd_no_route_pfx T) argv" "keeps (settings_ok P) (cfg_ussd_defaultroute T) argv"
  "keeps (settings_ok P) cfg_ussd_no_defaultroute argv"
  by (simp_all add: keeps_def ussd_cmd_defs ussd_ops Let_def settings_frame prod.case_eq_if split: if_split option.split)

lemma other_settings:
  "keeps (settings_ok P) cfg_hlr argv" "keeps (settings_ok P) cfg_gsup argv" "keeps (settings_ok P) (show_gsup_conn T isc) argv"
  "keeps (settings_ok P) (cfg_hlr_gsup_ipa_name T) argv"
  "keeps (settings_ok P) cfg_store_imei argv" "keeps (settings_ok P) cfg_no_store_imei argv"
  "keeps (settings_ok P) cfg_no_subscr_create_on_demand argv"
  by (simp_all add: keeps_def cmd_defs settings_ok_def split: exec.split)

lemma value_settings:
  "w \<noteq> [] \<Longrightarrow> keeps (settings_ok P) cfg_database [w]"
  "w \<noteq> [] \<Longrightarrow> cmd_ipv4_match P w \<Longrightarrow> keeps (settings_ok P) cfg_hlr_gsup_bind_ip [w]"
  "range_word 0 255 w \<Longrightarrow> keeps (settings_ok P) cfg_ncss_guard_timeout [w]"
  "keeps (settings_ok P) cfg_subscr_create_on_demand [''no-msisdn'', f]"
  "range_word 3 15 w \<Longrightarrow> keeps (settings_ok P) cfg_subscr_create_on_demand [w, f]"
  by (auto simp: keeps_def cmd_defs settings_ok_def cmp_simps dest: range_word_atoi)

lemma settings_table:
  assumes P: "parser_ok P" and "(t, c) \<in> set (hlr_vty_init T isc n)" and "cmd_match P t ws = Some argv"
  shows "keeps (settings_ok P) c argv"
  using assms(2,3)
  by (cases n) (auto simp: hlr_vty_init_def match_iff [OF P] intro: ussd_settings other_settings value_settings)

lemma other_ussd:
  "keeps ussd_cfg_ok cfg_hlr argv" "keeps ussd_cfg_ok cfg_gsup argv" "keeps ussd_cfg_ok (show_gsup_conn T isc) argv"
  "keeps ussd_cfg_ok (cfg_hlr_gsup_ipa_name T) argv" "keeps ussd_cfg_ok cfg_hlr_gsup_bind_ip argv"
  "keeps ussd_cfg_ok cfg_store_imei argv" "keeps ussd_cfg_ok cfg_no_store_imei argv"
  "keeps ussd_cfg_ok cfg_database argv" "keeps ussd_cfg_ok cfg_ncss_guard_timeout argv"
  "keeps ussd_cfg_ok cfg_subscr_create_on_demand argv" "keeps ussd_cfg_ok cfg_no_subscr_create_on_demand argv"
  by (simp_all add: keeps_def cmd_defs ussd_cfg_ok_def Let_def split: exec.split)

lemma route_cfg_mono:
  "list_all (route_cfg_ok es) rts \<Longrightarrow> set es \<subseteq> set es' \<Longrightarrow> list_all (route_cfg_ok es') rts"
  by (fastforce simp: list_all_iff route_cfg_ok_def split: use_ptr.splits if_splits)

lemma keeps_euse: "w \<noteq> [] \<Longrightarrow> keeps ussd_cfg_ok cfg_euse [w]"
  by (auto simp: keeps_def cfg_euse_def cmd_ok_def cmd_warn_def euse_alloc_def ussd_cfg_ok_def euse_find_none
      split: option.splits elim: route_cfg_mono)

lemma no_euse_routes:
  assumes "route_cfg_ok es rt" and "\<And>x. x \<in> set es \<Longrightarrow> euse_name x = euse_name e \<Longrightarrow> x = e"
  shows "route_cfg_ok (filter (\<lambda>x. euse_name x \<noteq> euse_name e) es) (rt\<lparr>rt_u := freed_ptr e (rt_u rt)\<rparr>)"
  using assms by (cases "rt_u rt") (auto simp: route_cfg_ok_def freed_ptr_def split: if_splits)

lemma euse_del_ok:
  assumes "ussd_cfg_ok s" and "e \<in> set (euse_list s)" and "euse_default s \<noteq> Some e"
  shows "ussd_cfg_ok (euse_del e s)"
proof -
  have inj: "x = e" if "x \<in> set (euse_list s)" "euse_name x = euse_name e" for x
    using assms(1,2) that by (auto simp: ussd_cfg_ok_def distinct_map inj_on_def)
  have "list_all (route_cfg_ok (filter (\<lambda>x. euse_name x \<noteq> euse_name e) (euse_list s)))
      (map (\<lambda>rt. rt\<lparr>rt_u := freed_ptr e (rt_u rt)\<rparr>) (ussd_routes s))"
    using assms(1) inj no_euse_routes [of "euse_list s" _ e] by (auto simp: ussd_cfg_ok_def list_all_iff)
  moreover have "list_all P (filter Q xs)" if "list_all P xs" for P Q and xs :: "hlr_euse list"
    using that by (simp add: list_all_iff)
  moreover have "set_option (euse_default s) \<subseteq> set (filter (\<lambda>x. euse_name x \<noteq> euse_name e) (euse_list s))"
    using assms inj by (auto simp: ussd_cfg_ok_def)
  ultimately show ?thesis using assms(1) by (simp add: ussd_cfg_ok_def euse_del_def distinct_map_filter o_def)
qed

lemma keeps_no_euse: "keeps ussd_cfg_ok (cfg_no_euse T) [w]"
  by (auto simp: keeps_def cfg_no_euse_def cmd_ok_def cmd_warn_def euse_del_ok dest!: euse_find_some split: option.splits if_splits)

lemma keeps_routes:
  "w \<noteq> [] \<Longrightarrow> keeps ussd_cfg_ok (cfg_ussd_route_pfx_int T) [w, ''own-msisdn'']"
  "w \<noteq> [] \<Longrightarrow> keeps ussd_cfg_ok (cfg_ussd_route_pfx_int T) [w, ''own-imsi'']"
  "w \<noteq> [] \<Longrightarrow> keeps ussd_cfg_ok (cfg_ussd_route_pfx_ext T) [w, n]"
  by (auto simp: keeps_def ussd_cmd_defs ussd_ops iuse_find_def Let_def ussd_cfg_ok_def route_find_none route_cfg_ok_def
      dest: euse_find_some split: option.splits)

lemma keeps_no_route: "keeps ussd_cfg_ok (cfg_ussd_no_route_pfx T) argv"
  by (auto simp: keeps_def ussd_cmd_defs ussd_ops ussd_cfg_ok_def distinct_map_filter list_all_iff route_cfg_ok_def split: option.splits use_ptr.splits)

lemma keeps_default: "keeps ussd_cfg_ok (cfg_ussd_defaultroute T) argv" "keeps ussd_cfg_ok cfg_ussd_no_defaultroute argv"
  by (auto simp: keeps_def ussd_cmd_defs ussd_cfg_ok_def dest: euse_find_some split: option.splits if_splits)

lemma ussd_table:
  assumes P: "parser_ok P" and "(t, c) \<in> set (hlr_vty_init T isc n)" and "cmd_match P t ws = Some argv"
  shows "keeps ussd_cfg_ok c argv"
  using assms(2,3)
  by (cases n) (auto simp: hlr_vty_init_def match_iff [OF P]
      intro: other_ussd keeps_euse keeps_no_euse keeps_routes keeps_no_route keeps_default)

lemma configured_ok:
  assumes P: "parser_ok P" and "configured P (hlr_vty_init T isc) L hlr_settings s"
  shows "settings_ok P s \<and> ussd_cfg_ok s"
proof -
  have "settings_ok P s"
    by (rule configured_inv [OF assms(2) _ settings_table [OF P]])
      (auto simp: settings_ok_def hlr_settings_def initial_config_def dgsm_init_def hlr_init_def Let_def
        HLR_DEFAULT_DB_FILE_PATH_def NCSS_GUARD_TIMEOUT_DEFAULT_def split: if_splits)
  moreover have "ussd_cfg_ok s"
    by (rule configured_inv [OF assms(2) _ ussd_table [OF P]])
      (auto simp: ussd_cfg_ok_def hlr_settings_def initial_config_def dgsm_init_def hlr_init_def Let_def)
  ultimately show ?thesis by blast
qed

section \<open>Reading the written configuration\<close>

definition hlr_vty :: vty where
  "hlr_vty = file_vty\<lparr>vt_node := HLR_NODE\<rparr>"

abbreviation hlr_reads where
  "hlr_reads P T isc \<equiv> reads P (hlr_vty_init T isc) 1 hlr_vty [(0, file_vty)]"

lemma hlr_reads_line:
  "parser_ok P \<Longrightarrow> accepts P (hlr_vty_init T isc) hlr_vty ws s s' \<Longrightarrow> hlr_reads P T isc [(1, ws)] s s'"
  by (intro reads_line) (simp_all add: hlr_vty_def leave_simps)

lemma hlr_node [simp]: "vt_node hlr_vty = HLR_NODE"
  by (simp add: hlr_vty_def)

lemmas find_simps = accepts_def hlr_vty_init_def match_simps match_value

lemma reads_store_imei: "parser_ok P \<Longrightarrow> hlr_reads P T isc [(1, [''store-imei''])] s (s\<lparr>store_imei := True\<rparr>)"
  by (rule hlr_reads_line) (simp_all add: find_simps cmd_defs)

lemma reads_database: "parser_ok P \<Longrightarrow> p \<noteq> [] \<Longrightarrow> hlr_reads P T isc [(1, [''database'', p])] s (s\<lparr>db_file_path := p\<rparr>)"
  by (rule hlr_reads_line) (simp_all add: find_simps cmd_defs)

lemma flags_facts:
  "strstr (flags_str cs ps) ''cs'' = cs" "strstr (flags_str cs ps) ''ps'' = ps"
  "flags_str cs ps = ''none'' \<or> flags_str cs ps = ''cs'' \<or> flags_str cs ps = ''ps'' \<or> flags_str cs ps = ''cs+ps''"
  by (cases cs; cases ps; simp add: flags_str_def)+

lemma digits_no_msisdn: "show_dec n \<noteq> ''no-msisdn''"
  using show_dec_digits [of n] by (auto simp: is_digit_def octet_val_def)

lemma reads_create:
  assumes P: "parser_ok P" and "n = 0 \<or> 3 \<le> n \<and> n \<le> 15"
  shows "hlr_reads P T isc [(1, [''subscriber-create-on-demand'', if n \<noteq> 0 then show_dec n else ''no-msisdn'', flags_str cs ps])] s
    (s\<lparr>h_subscr_create_on_demand := True, h_rand_msisdn_len := n, h_create_nam_cs := cs, h_create_nam_ps := ps\<rparr>)"
proof (rule hlr_reads_line [OF P], cases "n = 0")
  case True
  then show "accepts P (hlr_vty_init T isc) hlr_vty [''subscriber-create-on-demand'', if n \<noteq> 0 then show_dec n else ''no-msisdn'', flags_str cs ps] s
    (s\<lparr>h_subscr_create_on_demand := True, h_rand_msisdn_len := n, h_create_nam_cs := cs, h_create_nam_ps := ps\<rparr>)"
    using flags_facts (3) [of cs ps] by (simp add: find_simps P cmd_defs flags_facts (1,2) cmp_simps)
next
  case False
  then have "range_word 3 15 (show_dec n)" "atoi (show_dec n) = int n" using assms(2) by (simp_all add: range_word_show atoi_show)
  with False show "accepts P (hlr_vty_init T isc) hlr_vty [''subscriber-create-on-demand'', if n \<noteq> 0 then show_dec n else ''no-msisdn'', flags_str cs ps] s
    (s\<lparr>h_subscr_create_on_demand := True, h_rand_msisdn_len := n, h_create_nam_cs := cs, h_create_nam_ps := ps\<rparr>)"
    using flags_facts (3) [of cs ps] by (simp add: find_simps P cmd_defs flags_facts (1,2) cmp_simps digits_no_msisdn)
qed

lemma reads_gsup:
  assumes P: "parser_ok P" and "\<And>a. addr = Some a \<Longrightarrow> word_ok P VARIABLE_IPV4 a"
  shows "hlr_reads P T isc ([(1, [''gsup''])] @ (case addr of None \<Rightarrow> [] | Some a \<Rightarrow> [(2, [''bind'', ''ip'', a])])) s
    (case addr of None \<Rightarrow> s | Some a \<Rightarrow> s\<lparr>hlr_gsup_bind_addr := Some a\<rparr>)"
  using assms(2) by (auto simp: reads_def in_block_def hlr_vty_def leave_simps [OF P] hlr_vty_init_def match_simps [OF P] match_value [OF P]
      cmd_defs split: option.split)

lemma reads_euses:
  assumes P: "parser_ok P" and "distinct (map euse_name (euse_list s @ es))" and "list_all (\<lambda>e. euse_name e \<noteq> []) es"
  shows "hlr_reads P T isc (map dump_one_euse es) s (s\<lparr>euse_list := euse_list s @ es\<rparr>)"
  using assms(2,3)
proof (induction es arbitrary: s)
  case (Cons e es)
  have e: "\<lparr>euse_name = euse_name e\<rparr> = e" by (cases e) simp
  have "euse_find (euse_name e) s = None" using Cons.prems by (auto simp: euse_find_none)
  then have "hlr_reads P T isc [dump_one_euse e] s (s\<lparr>euse_list := euse_list s @ [e]\<rparr>)"
    using P Cons.prems unfolding dump_one_euse_def
    by (intro hlr_reads_line) (simp_all add: find_simps cfg_euse_def euse_alloc_def e cmd_ok_def)
  from reads_append [OF this, of "map dump_one_euse es"] Cons.IH [of "s\<lparr>euse_list := euse_list s @ [e]\<rparr>"] Cons.prems
  show ?case by simp
qed simp

lemma iuse_facts: "iuse_find (iuse_name i) = Some i" "iuse_name i = ''own-imsi'' \<or> iuse_name i = ''own-msisdn''"
  by (cases i; simp add: iuse_find_def iuse_name_def)+

lemma reads_route:
  assumes P: "parser_ok P" and "route_cfg_ok (euse_list s) rt" and "rt_u rt \<noteq> USE_FREED" and "rt_prefix rt \<notin> rt_prefix ` set (ussd_routes s)"
    and "distinct (map euse_name (euse_list s))" and "list_all (\<lambda>e. euse_name e \<noteq> []) (euse_list s)"
  shows "\<exists>l. route_line rt = Ret l \<and> hlr_reads P T isc [l] s (s\<lparr>ussd_routes := ussd_routes s @ [rt]\<rparr>)"
proof (cases "rt_is_external rt")
  case True
  then obtain e where e: "rt_u rt = USE_EUSE e" "e \<in> set (euse_list s)"
    using assms(2,3) by (auto simp: route_cfg_ok_def split: use_ptr.splits)
  have rt: "\<lparr>rt_prefix = rt_prefix rt, rt_is_external = True, rt_u = USE_EUSE e\<rparr> = rt" using True e by (cases rt) simp
  have "euse_find (euse_name e) s = Some e" using assms(5) e by (simp add: euse_find_member)
  moreover have "ussd_route_find_prefix (rt_prefix rt) s = None" using assms(4) by (simp add: route_find_none)
  ultimately show ?thesis
    using P assms(2,6) e True
    by (simp add: route_line_def Let_def, intro hlr_reads_line [unfolded One_nat_def])
      (auto simp: find_simps cfg_ussd_route_pfx_ext_def ussd_route_prefix_alloc_ext_def rt cmd_ok_def route_cfg_ok_def list_all_iff)
next
  case False
  then obtain i where i: "rt_u rt = USE_IUSE i"
    using assms(2,3) by (auto simp: route_cfg_ok_def split: use_ptr.splits)
  have rt: "\<lparr>rt_prefix = rt_prefix rt, rt_is_external = False, rt_u = USE_IUSE i\<rparr> = rt" using False i by (cases rt) simp
  have "ussd_route_find_prefix (rt_prefix rt) s = None" using assms(4) by (simp add: route_find_none)
  then show ?thesis
    using P assms(2) i False iuse_facts(2) [of i]
    by (simp add: route_line_def Let_def, intro hlr_reads_line [unfolded One_nat_def])
      (auto simp: find_simps cfg_ussd_route_pfx_int_def ussd_route_prefix_alloc_int_def rt cmd_ok_def route_cfg_ok_def iuse_facts(1) Let_def)
qed

lemma reads_routes:
  assumes P: "parser_ok P" and "list_all (route_cfg_ok (euse_list s)) rts" and "\<forall>rt \<in> set rts. rt_u rt \<noteq> USE_FREED" and "distinct (map rt_prefix (ussd_routes s @ rts))"
    and "distinct (map euse_name (euse_list s))" and "list_all (\<lambda>e. euse_name e \<noteq> []) (euse_list s)"
  shows "\<exists>ls. route_lines rts = Ret ls \<and> hlr_reads P T isc ls s (s\<lparr>ussd_routes := ussd_routes s @ rts\<rparr>)"
  using assms(2-)
proof (induction rts arbitrary: s)
  case (Cons rt rts)
  let ?s = "s\<lparr>ussd_routes := ussd_routes s @ [rt]\<rparr>"
  obtain l where l: "route_line rt = Ret l" "hlr_reads P T isc [l] s ?s"
    using reads_route [OF P, of s rt T isc] Cons.prems by auto
  obtain ls where ls: "route_lines rts = Ret ls" "hlr_reads P T isc ls ?s (s\<lparr>ussd_routes := ussd_routes s @ rt # rts\<rparr>)"
    using Cons.IH [of ?s] Cons.prems by auto
  from reads_append [OF l(2) ls(2)] l(1) ls(1) show ?case by simp
qed simp

lemma reads_default:
  assumes "parser_ok P" and "e \<in> set (euse_list s)" and "euse_name e \<noteq> []" and "distinct (map euse_name (euse_list s))" and "euse_default s = None"
  shows "hlr_reads P T isc [(1, [''ussd'', ''default-route'', ''external'', euse_name e])] s (s\<lparr>euse_default := Some e\<rparr>)"
  using assms euse_find_member [of s e]
  by (intro hlr_reads_line) (simp_all add: find_simps cfg_ussd_defaultroute_def)

lemma reads_timeout:
  assumes "parser_ok P" and "0 \<le> n" and "n \<le> 255"
  shows "hlr_reads P T isc [(1, [''ncss-guard-timeout'', show_int n])] s (s\<lparr>ncss_guard_timeout := n\<rparr>)"
proof -
  have "range_word 0 255 (show_dec (nat n))" "atoi (show_dec (nat n)) = n" using assms(2,3) by (simp_all add: range_word_show atoi_show)
  with assms show ?thesis by (intro hlr_reads_line) (simp_all add: find_simps cmd_defs show_int_def)
qed

lemma reads_euse_node:
  assumes P: "parser_ok P" and "settings_ok P s" and "ussd_cfg_ok s" and "dangling s = []"
    and "euse_list z = []" and "ussd_routes z = []" and "euse_default z = None" and "ncss_guard_timeout z = NCSS_GUARD_TIMEOUT_DEFAULT"
  shows "\<exists>ls z'. config_write_euse s = Ret ls \<and> hlr_reads P T isc ls z z' \<and>
    hlr_settings z' = (fst (hlr_settings z), hlr_gsup_bind_addr z, euse_list s, ussd_routes s, euse_default s, ncss_guard_timeout s) \<and>
    gsup_unit_serno z' = gsup_unit_serno z"
proof -
  let ?z1 = "z\<lparr>euse_list := euse_list s\<rparr>"
  let ?z2 = "?z1\<lparr>ussd_routes := ussd_routes s\<rparr>"
  let ?z3 = "case euse_default s of None \<Rightarrow> ?z2 | Some e \<Rightarrow> ?z2\<lparr>euse_default := Some e\<rparr>"
  let ?z4 = "if ncss_guard_timeout s \<noteq> NCSS_GUARD_TIMEOUT_DEFAULT then ?z3\<lparr>ncss_guard_timeout := ncss_guard_timeout s\<rparr> else ?z3"
  let ?d = "case euse_default s of None \<Rightarrow> [] | Some e \<Rightarrow> [(1, [''ussd'', ''default-route'', ''external'', euse_name e])]"
  let ?t = "if ncss_guard_timeout s \<noteq> NCSS_GUARD_TIMEOUT_DEFAULT
             then [(1, [''ncss-guard-timeout'', show_int (ncss_guard_timeout s)])] else []"
  have 1: "hlr_reads P T isc (map dump_one_euse (euse_list s)) z ?z1"
    using reads_euses [OF P, of z "euse_list s"] assms(3,5) by (simp add: ussd_cfg_ok_def)
  obtain ls where ls: "route_lines (ussd_routes s) = Ret ls" and 2: "hlr_reads P T isc ls ?z1 ?z2"
    using reads_routes [OF P, of ?z1 "ussd_routes s" T isc] assms(3,4,6) by (auto simp: ussd_cfg_ok_def dangling_def filter_empty_conv)
  have 3: "hlr_reads P T isc ?d ?z2 ?z3"
    using reads_default [OF P, of _ ?z2] assms(3,7) by (auto simp: ussd_cfg_ok_def list_all_iff split: option.split)
  have 4: "hlr_reads P T isc ?t ?z3 ?z4"
    using assms(2) by (intro reads_if reads_timeout [OF P]) (simp_all add: settings_ok_def)
  have "hlr_settings ?z4 = (fst (hlr_settings z), hlr_gsup_bind_addr z, euse_list s, ussd_routes s, euse_default s, ncss_guard_timeout s) \<and>
      gsup_unit_serno ?z4 = gsup_unit_serno z"
    using assms(5-) by (simp add: hlr_settings_def split: option.split)
  then show ?thesis
    using reads_append [OF 1 reads_append [OF 2 reads_append [OF 3 4]]] ls assms(4)
    by (auto simp: config_write_euse_def)
qed

lemma reads_hlr_node:
  assumes P: "parser_ok P" and ok: "settings_ok P s"
    and "\<not> store_imei z" and "db_file_path z = HLR_DEFAULT_DB_FILE_PATH" and "\<not> h_subscr_create_on_demand z" and "hlr_gsup_bind_addr z = None"
  shows "\<exists>z'. hlr_reads P T isc (tl (config_write_hlr s) @ config_write_hlr_gsup s) z z' \<and>
    hlr_settings z' = (fst (hlr_settings s), hlr_gsup_bind_addr s, euse_list z, ussd_routes z, euse_default z, ncss_guard_timeout z) \<and>
    gsup_unit_serno z' = gsup_unit_serno z"
proof -
  let ?z1 = "if store_imei s then z\<lparr>store_imei := True\<rparr> else z"
  let ?db = "strcmp (db_file_path s) HLR_DEFAULT_DB_FILE_PATH \<noteq> 0"
  let ?z2 = "if ?db then ?z1\<lparr>db_file_path := db_file_path s\<rparr> else ?z1"
  let ?z3 = "if h_subscr_create_on_demand s then ?z2\<lparr>h_subscr_create_on_demand := True, h_rand_msisdn_len := h_rand_msisdn_len s,
      h_create_nam_cs := h_create_nam_cs s, h_create_nam_ps := h_create_nam_ps s\<rparr> else ?z2"
  let ?z4 = "case hlr_gsup_bind_addr s of None \<Rightarrow> ?z3 | Some a \<Rightarrow> ?z3\<lparr>hlr_gsup_bind_addr := Some a\<rparr>"
  have 1: "hlr_reads P T isc (if store_imei s then [(1, [''store-imei''])] else []) z ?z1"
    by (intro reads_if reads_store_imei [OF P])
  have 2: "hlr_reads P T isc (if ?db then [(1, [''database'', db_file_path s])] else []) ?z1 ?z2"
    using ok by (intro reads_if reads_database [OF P]) (simp add: settings_ok_def)
  have 3: "hlr_reads P T isc (if h_subscr_create_on_demand s then
        [(1, [''subscriber-create-on-demand'', if h_rand_msisdn_len s \<noteq> 0 then show_dec (h_rand_msisdn_len s) else ''no-msisdn'',
          flags_str (h_create_nam_cs s) (h_create_nam_ps s)])] else []) ?z2 ?z3"
    using ok by (intro reads_if reads_create [OF P]) (simp_all add: settings_ok_def)
  have 4: "hlr_reads P T isc (config_write_hlr_gsup s) ?z3 ?z4"
    unfolding config_write_hlr_gsup_def using ok by (intro reads_gsup [OF P]) (simp add: settings_ok_def)
  have "hlr_reads P T isc (tl (config_write_hlr s) @ config_write_hlr_gsup s) z ?z4"
    using reads_append [OF reads_append [OF 1 reads_append [OF 2 3]] 4] by (simp add: config_write_hlr_def)
  moreover have "hlr_settings ?z4 = (fst (hlr_settings s), hlr_gsup_bind_addr s, euse_list z, ussd_routes z, euse_default z, ncss_guard_timeout z)"
    using assms(3-) by (simp add: hlr_settings_def cmp_simps split: option.split)
  moreover have "gsup_unit_serno ?z4 = gsup_unit_serno z" by (simp split: option.split)
  ultimately show ?thesis by blast
qed

text \<open>
  C19. The configuration of the HLR survives being written and read again. Take any state that the operator can configure from the
  initial one with the commands of the HLR, with any other activity of the HLR in between, and in which no USSD route points to
  an external entity that was removed. Then writing the configuration succeeds, the lines written are all accepted when
  they are read by a freshly started HLR, and every setting is as before: storing of IMEIs, database file,
  creation on demand, address, external entities, USSD routes in their order, default route and guard timeout. The IPA name is the exception:
  it is not written and comes back as the default.
\<close>
theorem hlr_config_roundtrip:
  assumes P: "parser_ok P" and "configured P (hlr_vty_init T isc) L hlr_settings s" and "dangling s = []"
  shows "\<exists>ls v st s'. hlr_config_write s = Ret ls \<and>
    vty_read_config_file P (hlr_vty_init T isc) ls file_vty [] (initial_config L z) = Ret (Some (v, st, s')) \<and>
    hlr_settings s' = hlr_settings s \<and> gsup_unit_serno s' = ''unnamed-HLR''"
proof -
  let ?z = "initial_config L z"
  note ok = configured_ok [OF assms(1,2)]
  have z: "\<not> store_imei ?z" "db_file_path ?z = HLR_DEFAULT_DB_FILE_PATH" "\<not> h_subscr_create_on_demand ?z" "hlr_gsup_bind_addr ?z = None"
    "euse_list ?z = []" "ussd_routes ?z = []" "euse_default ?z = None" "ncss_guard_timeout ?z = NCSS_GUARD_TIMEOUT_DEFAULT"
    "gsup_unit_serno ?z = ''unnamed-HLR''"
    by (simp_all add: initial_config_def dgsm_init_def hlr_init_def Let_def)
  obtain z' where 1: "hlr_reads P T isc (tl (config_write_hlr s) @ config_write_hlr_gsup s) ?z z'"
    and z': "hlr_settings z' = (fst (hlr_settings s), hlr_gsup_bind_addr s, [], [], None, NCSS_GUARD_TIMEOUT_DEFAULT)"
      "gsup_unit_serno z' = ''unnamed-HLR''"
    using reads_hlr_node [OF P conjunct1 [OF ok] z(1-4), of T isc] z(5-) by auto
  obtain ls s' where ls: "config_write_euse s = Ret ls" and 2: "hlr_reads P T isc ls z' s'"
    and s': "hlr_settings s' = hlr_settings s" "gsup_unit_serno s' = ''unnamed-HLR''"
    using reads_euse_node [OF P, of s z' T isc] ok assms(3) z' by (auto simp: hlr_settings_def)
  have hd: "config_write_hlr s = (0, [''hlr'']) # tl (config_write_hlr s)" by (simp add: config_write_hlr_def)
  have "in_block P 1 hlr_vty [(0, file_vty)] hlr_vty [(0, file_vty)]" by (simp add: in_block_def leave_simps [OF P])
  with reads_append [OF 1 2] obtain v st where
    "vty_read_config_file P (hlr_vty_init T isc) ((tl (config_write_hlr s) @ config_write_hlr_gsup s) @ ls) hlr_vty [(0, file_vty)] ?z = Ret (Some (v, st, s'))"
    unfolding reads_def by blast
  then have "vty_read_config_file P (hlr_vty_init T isc) (config_write_hlr s @ config_write_hlr_gsup s @ ls) file_vty [] ?z = Ret (Some (v, st, s'))"
    by (subst hd) (simp add: leave_simps [OF P] match_simps [OF P] file_vty_def hlr_vty_def hlr_vty_init_def [of T isc CONFIG_NODE] cfg_hlr_def cmd_ok_def)
  with ls s' show ?thesis by (auto simp: hlr_config_write_def)
qed

text \<open>
  C39. Removing an external USSD entity leaves routes behind. Whenever the operator removes an entity that is not the default and that
  some route points to, the command succeeds, and the next time the configuration is written the program reads
  the name of the entity through the pointer of that route, after its deallocation.
\<close>
theorem no_euse_leaves_dangling_route:
  assumes "configured P (hlr_vty_init T isc) L hlr_settings s" and "euse_find n s = Some e" and "euse_default s \<noteq> Some e"
    and "rt \<in> set (ussd_routes s)" and "rt_is_external rt" and "rt_u rt = USE_EUSE e"
  shows "\<exists>s'. cfg_no_euse T [n] v s = Ret (v, s', [], CMD_SUCCESS) \<and> hlr_config_write s' = Fault"
proof -
  let ?rt = "rt\<lparr>rt_u := USE_FREED\<rparr>"
  have "?rt \<in> set (ussd_routes (euse_del e s))" using assms(4,6) by (force simp: euse_del_def freed_ptr_def)
  moreover have "route_line ?rt = Fault" using assms(5) by (simp add: route_line_def Let_def)
  moreover have "route_lines rts = Fault" if "x \<in> set rts" "route_line x = Fault" for rts x
    using that by (induction rts) (auto split: exec.split)
  ultimately have "config_write_euse (euse_del e s) = Fault" by (simp add: config_write_euse_def)
  then show ?thesis using assms(2,3) by (simp add: cfg_no_euse_def cmd_ok_def hlr_config_write_def)
qed

section \<open>Showing connections\<close>

lemma show_one_fault:
  "show_one_conn T isc c = Fault \<longleftrightarrow> (case conn_ccm c IPAC_IDTAG_SERNR of None \<Rightarrow> True | Some n \<Rightarrow> NUL \<notin> set n)"
  by (auto simp: show_one_conn_def osmo_gsup_conn_ccm_get_def Let_def split: option.split prod.split)

lemma add_conn_member: "\<exists>k. conn\<lparr>auc_3g_ind := k\<rparr> \<in> set (osmo_gsup_server_add_conn cl conn)"
proof -
  have "\<exists>k. conn\<lparr>auc_3g_ind := k\<rparr> \<in> set (add_after c cs conn)" for c cs
    by (induction cs arbitrary: c) auto
  then show ?thesis by (auto simp: osmo_gsup_server_add_conn_def split: list.split)
qed

lemma show_conns_fault: "show_conns T isc cs = Fault \<longleftrightarrow> (\<exists>c \<in> set cs. show_one_conn T isc c = Fault)"
  by (induction cs) (auto split: exec.split)

text \<open>
  The list of connections can be shown exactly when every client has identified itself with a serial number that is
  terminated by a nul. In particular the command uses an undefined pointer for as long as a connection has been accepted and the identity requested, but not yet
  received: the assertion on the return code does not catch a negative one.
\<close>
theorem show_gsup_conn_faults_exactly:
  "(show_gsup_conn T isc argv v s = Fault \<longleftrightarrow>
      (\<exists>c \<in> set (clients (gs s)). case conn_ccm c IPAC_IDTAG_SERNR of None \<Rightarrow> True | Some n \<Rightarrow> NUL \<notin> set n)) \<and>
   show_gsup_conn T isc argv v (s\<lparr>gs := fst (osmo_gsup_server_accept_cb conn_destroy cid 0 (gs s))\<rparr>) = Fault"
proof -
  have iff: "show_gsup_conn T isc argv v s = Fault \<longleftrightarrow> show_conns T isc (clients (gs s)) = Fault" for s :: "'a vty_world_scheme"
    by (simp add: show_gsup_conn_def split: exec.split)
  obtain k where "(conn_zero cid)\<lparr>auc_3g_ind := k\<rparr> \<in> set (osmo_gsup_server_add_conn (clients (gs s)) (conn_zero cid))"
    using add_conn_member by blast
  moreover have "conn_ccm ((conn_zero cid)\<lparr>auc_3g_ind := k\<rparr>) IPAC_IDTAG_SERNR = None" by (simp add: conn_zero_def)
  ultimately have "\<exists>c \<in> set (osmo_gsup_server_add_conn (clients (gs s)) (conn_zero cid)). show_one_conn T isc c = Fault"
    using show_one_fault by fastforce
  then show ?thesis
    by (simp add: iff show_conns_fault osmo_gsup_server_accept_cb_def Let_def) (simp add: show_one_fault)
qed

section \<open>A configuration\<close>

definition vty_first :: vty_world where
  "vty_first = hlr_world.extend hlr_first
     \<lparr>db_file_path = [], hlr_gsup_bind_addr = None,
      ms_server = \<lparr>local_site_services = [], local_attach_max_age = 0, gsup_bind_addr = [], gsup_bind = service_host_zero\<rparr>,
      ms_server_mdns = \<lparr>srv_allow_startup = False, srv_enable = False, srv_mdns_enable = False,
        srv_cfg_bind_addr = sockaddr_zero, srv_cfg_domain_suffix = [], srv_running = None\<rparr>,
      ms_client = \<lparr>allow_startup = False, client_enable = False, mdns_enable = False,
        query_addr = sockaddr_zero, domain_suffix = [], mdns_running = None\<rparr>\<rparr>"

definition foo_euse :: hlr_euse where "foo_euse = \<lparr>euse_name = ''foo''\<rparr>"

definition foo_route :: hlr_ussd_route where
  "foo_route = \<lparr>rt_prefix = ''*1'', rt_is_external = True, rt_u = USE_EUSE foo_euse\<rparr>"

definition vty_routed :: vty_world where
  "vty_routed = (initial_config ref_core vty_first)\<lparr>euse_list := [foo_euse], ussd_routes := [foo_route]\<rparr>"

lemma initial_sel [simp]:
  "euse_list (initial_config L s) = []" "ussd_routes (initial_config L s) = []" "dangling (initial_config L s) = []"
  "euse_default (initial_config L s) = None"
  by (simp_all add: initial_config_def dgsm_init_def hlr_init_def Let_def dangling_def)

lemma routed_configured: "configured ref_parser (hlr_vty_init ref_vty isc) ref_core hlr_settings vty_routed"
proof -
  let ?z = "initial_config ref_core vty_first"
  let ?z1 = "?z\<lparr>euse_list := [foo_euse]\<rparr>"
  have z1: "configured ref_parser (hlr_vty_init ref_vty isc) ref_core hlr_settings ?z1"
    by (rule configured.command [OF configured.start, where v = hlr_vty and ws = "[''euse'', ''foo'']" and c = cfg_euse and argv = "[''foo'']"])
      (simp_all add: find_simps ref_parser_ok cfg_euse_def euse_find_def euse_alloc_def cmd_ok_def foo_euse_def)
  show ?thesis
    by (rule configured.command [OF z1, of hlr_vty "[''ussd'', ''route'', ''prefix'', ''*1'', ''external'', ''foo'']"
          "cfg_ussd_route_pfx_ext ref_vty" "[''*1'', ''foo'']"])
      (simp_all add: find_simps ref_parser_ok cfg_ussd_route_pfx_ext_def ussd_route_find_prefix_def euse_find_def
        ussd_route_prefix_alloc_ext_def Let_def cmd_ok_def foo_euse_def foo_route_def vty_routed_def)
qed

theorem hlr_config_roundtrip_witness:
  "\<exists>ls v st s'. hlr_config_write vty_routed = Ret ls \<and>
    vty_read_config_file ref_parser (hlr_vty_init ref_vty (\<lambda>_. ([], 0))) ls file_vty [] (initial_config ref_core vty_first) = Ret (Some (v, st, s')) \<and>
    hlr_settings s' = hlr_settings vty_routed"
  using hlr_config_roundtrip [OF ref_parser_ok routed_configured, of "\<lambda>_. ([], 0)" vty_first]
  by (auto simp: vty_routed_def dangling_def foo_route_def)

theorem no_euse_leaves_dangling_route_witness:
  "\<exists>s'. cfg_no_euse ref_vty [''foo''] hlr_vty vty_routed = Ret (hlr_vty, s', [], CMD_SUCCESS) \<and> hlr_config_write s' = Fault"
  by (rule no_euse_leaves_dangling_route [OF routed_configured, where e = foo_euse and rt = foo_route])
    (simp_all add: vty_routed_def euse_find_def foo_euse_def foo_route_def)

end
