(* ===== verification/Dgsm_Vty.thy ===== *)
theory Dgsm_Vty
  imports Hlr_Vty
begin

text \<open>
  The configuration commands of Distributed GSM and the writing of their configuration: \<open>src/dgsm_vty.c\<close>. Whether the mDNS server gets its socket and the
  mDNS client is added, and how the VTY library joins arguments, is given by the parameter \<open>dgsm_env\<close>. A text that is printed with
  spaces in it is several words of its line.
\<close>

section \<open>Data\<close>

record dgsm_env =
  mdns_sock_ok :: bool
  add_mdns_ok :: bool
  argv_concat :: "string list \<Rightarrow> string"

fun split_words :: "string \<Rightarrow> string \<Rightarrow> string list" where
  \<comment> \<open>the words of a text; the first argument is the word read so far\<close>
  "split_words w [] = (if w = [] then [] else [w])"
| "split_words w (c # cs) =
     (if c = CHR '' '' then (if w = [] then split_words [] cs else w # split_words [] cs) else split_words (w @ [c]) cs)"

definition line_text :: "vty_lib \<Rightarrow> cfg_line \<Rightarrow> string" where
  "line_text T l = vty_line T (replicate (fst l) CHR '' '' @ concat (map (\<lambda>(i, w). if i = 0 then w else CHR '' '' # w) (enumerate 0 (snd l))))"

section \<open>Addresses for mDNS\<close>

definition server_config_apply :: "osmo_core \<Rightarrow> dgsm_env \<Rightarrow> 'a vty_world_scheme \<Rightarrow> 'a vty_world_scheme" where
  "server_config_apply L N s = s\<lparr>ms_server_mdns := mslookup_server_mdns_config_apply L (mdns_sock_ok N) (ms_server_mdns s)\<rparr>"

definition client_config_apply :: "osmo_core \<Rightarrow> dgsm_env \<Rightarrow> 'a vty_world_scheme \<Rightarrow> 'a vty_world_scheme" where
  "client_config_apply L N s = s\<lparr>ms_client := dgsm_mdns_client_config_apply L (add_mdns_ok N) (ms_client s)\<rparr>"

definition mdns_arg :: "string list \<Rightarrow> osmo_sockaddr_str \<Rightarrow> string \<times> 16 word" where
  \<comment> \<open>address and port from the arguments, completed by the current ones\<close>
  "mdns_arg argv cur =
     (if length argv > 0 then argv ! 0 else sa_ip cur, if length argv > 1 then of_int (atoi (argv ! 1)) else sa_port cur)"

definition parse_addr :: "osmo_core \<Rightarrow> string \<Rightarrow> 16 word \<Rightarrow> osmo_sockaddr_str option" where
  \<comment> \<open>the check that every command with an address makes\<close>
  "parse_addr L ip_str port_nr =
     (case osmo_sockaddr_str_from_str L ip_str port_nr of
        (addr, rc) \<Rightarrow> if rc \<noteq> 0 \<or> \<not> osmo_sockaddr_str_is_nonzero L addr then None else Some addr)"

definition mslookup_server_mdns_bind :: "osmo_core \<Rightarrow> vty_lib \<Rightarrow> dgsm_env \<Rightarrow> 'a cfg_cmd" where
  "mslookup_server_mdns_bind L T N argv v s =
     (case mdns_arg argv (srv_cfg_bind_addr (ms_server_mdns s)) of
        (ip_str, port_nr) \<Rightarrow>
          (case parse_addr L ip_str port_nr of
             None \<Rightarrow> cmd_warn (vty_line T (''% mslookup server: Invalid mDNS bind address: '' @ ip_str @ '' '' @ show_dec (unat port_nr))) v s
           | Some addr \<Rightarrow>
               cmd_ok v (server_config_apply L N
                 (s\<lparr>ms_server_mdns := (ms_server_mdns s)\<lparr>srv_cfg_bind_addr := addr, srv_mdns_enable := True, srv_enable := True\<rparr>\<rparr>))))"

definition mslookup_client_mdns_to :: "osmo_core \<Rightarrow> vty_lib \<Rightarrow> dgsm_env \<Rightarrow> 'a cfg_cmd" where
  "mslookup_client_mdns_to L T N argv v s =
     (case mdns_arg argv (query_addr (ms_client s)) of
        (ip_str, port_nr) \<Rightarrow>
          (case parse_addr L ip_str port_nr of
             None \<Rightarrow> cmd_warn (vty_line T (''% mslookup client: Invalid mDNS target address: '' @ ip_str @ '' '' @ show_dec (unat port_nr))) v s
           | Some addr \<Rightarrow>
               cmd_ok v (client_config_apply L N
                 (s\<lparr>ms_client := (ms_client s)\<lparr>query_addr := addr, mdns_enable := True, client_enable := True\<rparr>\<rparr>))))"

section \<open>Commands for server and client together\<close>

definition cfg_mslookup :: "'a cfg_cmd" where
  "cfg_mslookup argv v s = cmd_ok (v\<lparr>vt_node := MSLOOKUP_NODE\<rparr>) s"

definition cfg_mslookup_mdns :: "osmo_core \<Rightarrow> vty_lib \<Rightarrow> dgsm_env \<Rightarrow> 'a cfg_cmd" where
  "cfg_mslookup_mdns L T N argv v s =
     (case mslookup_server_mdns_bind L T N argv v s of
        Fault \<Rightarrow> Fault
      | Ret (v, s, out1, rc1) \<Rightarrow>
          (case mslookup_client_mdns_to L T N argv v s of
             Fault \<Rightarrow> Fault
           | Ret (v, s, out2, rc2) \<Rightarrow> Ret (v, s, out1 @ out2, if rc1 \<noteq> CMD_SUCCESS then rc1 else rc2)))"

definition cfg_mslookup_mdns_domain_suffix :: "osmo_core \<Rightarrow> dgsm_env \<Rightarrow> 'a cfg_cmd" where
  "cfg_mslookup_mdns_domain_suffix L N argv v s =
     cmd_ok v (client_config_apply L N (server_config_apply L N
       (s\<lparr>ms_server_mdns := (ms_server_mdns s)\<lparr>srv_cfg_domain_suffix := argv ! 0\<rparr>,
          ms_client := (ms_client s)\<lparr>domain_suffix := argv ! 0\<rparr>\<rparr>)))"

definition cfg_mslookup_no_mdns :: "osmo_core \<Rightarrow> dgsm_env \<Rightarrow> 'a cfg_cmd" where
  "cfg_mslookup_no_mdns L N argv v s =
     cmd_ok v (client_config_apply L N (server_config_apply L N
       (s\<lparr>ms_server_mdns := (ms_server_mdns s)\<lparr>srv_mdns_enable := False\<rparr>,
          ms_client := (ms_client s)\<lparr>mdns_enable := False\<rparr>\<rparr>)))"

section \<open>Commands for the server\<close>

definition cfg_mslookup_server :: "osmo_core \<Rightarrow> dgsm_env \<Rightarrow> 'a cfg_cmd" where
  "cfg_mslookup_server L N argv v s =
     cmd_ok (v\<lparr>vt_node := MSLOOKUP_SERVER_NODE\<rparr>)
       (server_config_apply L N (s\<lparr>ms_server_mdns := (ms_server_mdns s)\<lparr>srv_enable := True\<rparr>\<rparr>))"

definition cfg_mslookup_no_server :: "osmo_core \<Rightarrow> dgsm_env \<Rightarrow> 'a cfg_cmd" where
  "cfg_mslookup_no_server L N argv v s =
     cmd_ok v (server_config_apply L N (s\<lparr>ms_server_mdns := (ms_server_mdns s)\<lparr>srv_enable := False\<rparr>\<rparr>))"

definition cfg_mslookup_server_mdns_bind :: "osmo_core \<Rightarrow> vty_lib \<Rightarrow> dgsm_env \<Rightarrow> 'a cfg_cmd" where
  "cfg_mslookup_server_mdns_bind L T N argv v s = mslookup_server_mdns_bind L T N argv v s"

definition cfg_mslookup_server_mdns_domain_suffix :: "osmo_core \<Rightarrow> dgsm_env \<Rightarrow> 'a cfg_cmd" where
  "cfg_mslookup_server_mdns_domain_suffix L N argv v s =
     cmd_ok v (server_config_apply L N (s\<lparr>ms_server_mdns := (ms_server_mdns s)\<lparr>srv_cfg_domain_suffix := argv ! 0\<rparr>\<rparr>))"

definition cfg_mslookup_server_no_mdns_bind :: "osmo_core \<Rightarrow> dgsm_env \<Rightarrow> 'a cfg_cmd" where
  "cfg_mslookup_server_no_mdns_bind L N argv v s =
     cmd_ok v (server_config_apply L N (s\<lparr>ms_server_mdns := (ms_server_mdns s)\<lparr>srv_mdns_enable := False\<rparr>\<rparr>))"

definition cfg_mslookup_server_msc :: "osmo_core \<Rightarrow> vty_lib \<Rightarrow> dgsm_env \<Rightarrow> 'a cfg_cmd" where
  "cfg_mslookup_server_msc L T N argv v s =
     (let msc_name = fst (osmo_ipa_name_set_str ipa_name_empty (Some (argv_concat N argv)))
      in (case mslookup_server_msc_get (Some msc_name) True (ms_server s) of
            (c, None) \<Rightarrow> cmd_warn (vty_line T (''% Error creating MSC '' @ osmo_ipa_name_to_str L msc_name)) v (s\<lparr>ms_server := c\<rparr>)
          | (c, Some i) \<Rightarrow> cmd_ok (v\<lparr>vt_node := MSLOOKUP_SERVER_MSC_NODE, vt_index := INDEX_MSC i\<rparr>) (s\<lparr>ms_server := c\<rparr>)))"

definition msc_from_node :: "vty \<Rightarrow> 'a vty_world_scheme \<Rightarrow> 'a vty_world_scheme \<times> nat option" where
  "msc_from_node v s =
     (case vt_node v of
        MSLOOKUP_SERVER_NODE \<Rightarrow>
          (case mslookup_server_msc_get (Some mslookup_server_msc_wildcard) True (ms_server s) of
             (c, i) \<Rightarrow> (s\<lparr>ms_server := c\<rparr>, i))
      | MSLOOKUP_SERVER_MSC_NODE \<Rightarrow> (s, case vt_index v of INDEX_MSC i \<Rightarrow> Some i | _ \<Rightarrow> None)
      | _ \<Rightarrow> (s, None))"

definition store_msc :: "nat \<Rightarrow> mslookup_server_msc_cfg option \<Rightarrow> 'a vty_world_scheme \<Rightarrow> 'a vty_world_scheme" where
  \<comment> \<open>a write through the pointer to the configuration of an MSC\<close>
  "store_msc i msc s =
     (case msc of
        None \<Rightarrow> s
      | Some m \<Rightarrow> s\<lparr>ms_server := (ms_server s)\<lparr>local_site_services := (local_site_services (ms_server s))[i := m]\<rparr>\<rparr>)"

definition no_msc :: "vty_lib \<Rightarrow> vty \<Rightarrow> 'a vty_world_scheme \<Rightarrow> (vty \<times> 'a vty_world_scheme \<times> string \<times> cmd_result) exec" where
  "no_msc T v s = cmd_warn (vty_line T ''% Error: no MSC object on this node'') v s"

definition cfg_mslookup_server_msc_service :: "osmo_core \<Rightarrow> vty_lib \<Rightarrow> 'a cfg_cmd" where
  "cfg_mslookup_server_msc_service L T argv v s =
     (case msc_from_node v s of
        (s, None) \<Rightarrow> no_msc T v s
      | (s, Some i) \<Rightarrow>
          (case parse_addr L (argv ! 1) (of_int (atoi (argv ! 2))) of
             None \<Rightarrow> cmd_warn (vty_line T (''% mslookup server: Invalid address for service '' @ argv ! 0 @ '': '' @ argv ! 1 @ '' '' @ argv ! 2)) v s
           | Some addr \<Rightarrow>
               (case mslookup_server_msc_service_set L (Some (local_site_services (ms_server s) ! i)) (Some (argv ! 0)) (Some addr) of
                  (msc, rc) \<Rightarrow>
                    if rc \<noteq> 0 then
                      cmd_warn (vty_line T (''% mslookup server: Error setting service '' @ argv ! 0 @ '' to '' @ argv ! 1 @ '' '' @ argv ! 2)) v (store_msc i msc s)
                    else cmd_ok v (store_msc i msc s))))"

definition cfg_mslookup_server_msc_no_service :: "osmo_core \<Rightarrow> vty_lib \<Rightarrow> 'a cfg_cmd" where
  "cfg_mslookup_server_msc_no_service L T argv v s =
     (case msc_from_node v s of
        (s, None) \<Rightarrow> no_msc T v s
      | (s, Some i) \<Rightarrow>
          (case mslookup_server_msc_service_del L (Some (local_site_services (ms_server s) ! i)) (Some (argv ! 0)) None of
             (msc, deleted) \<Rightarrow>
               if deleted < 1 then cmd_warn (vty_line T (''% mslookup server: cannot remove service '' @ quoted (argv ! 0))) v (store_msc i msc s)
               else cmd_ok v (store_msc i msc s)))"

definition cfg_mslookup_server_msc_no_service_addr :: "osmo_core \<Rightarrow> vty_lib \<Rightarrow> 'a cfg_cmd" where
  "cfg_mslookup_server_msc_no_service_addr L T argv v s =
     (case msc_from_node v s of
        (s, None) \<Rightarrow> no_msc T v s
      | (s, Some i) \<Rightarrow>
          (case parse_addr L (argv ! 1) (of_int (atoi (argv ! 2))) of
             None \<Rightarrow> cmd_warn (vty_line T (''% mslookup server: Invalid address for 'no service' '' @ argv ! 0 @ '': '' @ argv ! 1 @ '' '' @ argv ! 2)) v s
           | Some addr \<Rightarrow>
               (case mslookup_server_msc_service_del L (Some (local_site_services (ms_server s) ! i)) (Some (argv ! 0)) (Some addr) of
                  (msc, deleted) \<Rightarrow>
                    if deleted < 1 then
                      cmd_warn (vty_line T (''% mslookup server: cannot remove service '' @ quoted (argv ! 0) @ '' to '' @ argv ! 1 @ '' '' @ argv ! 2)) v
                        (store_msc i msc s)
                    else cmd_ok v (store_msc i msc s))))"

section \<open>Commands for the client\<close>

definition cfg_mslookup_client :: "osmo_core \<Rightarrow> dgsm_env \<Rightarrow> 'a cfg_cmd" where
  "cfg_mslookup_client L N argv v s =
     cmd_ok (v\<lparr>vt_node := MSLOOKUP_CLIENT_NODE\<rparr>) (client_config_apply L N (s\<lparr>ms_client := (ms_client s)\<lparr>client_enable := True\<rparr>\<rparr>))"

definition cfg_mslookup_no_client :: "osmo_core \<Rightarrow> dgsm_env \<Rightarrow> 'a cfg_cmd" where
  "cfg_mslookup_no_client L N argv v s =
     cmd_ok v (client_config_apply L N (s\<lparr>ms_client := (ms_client s)\<lparr>client_enable := False\<rparr>\<rparr>))"

definition cfg_mslookup_client_timeout :: "'a cfg_cmd" where
  "cfg_mslookup_client_timeout argv v s = cmd_ok v (s\<lparr>client_result_timeout_milliseconds := nat (atoi (argv ! 0))\<rparr>)"

definition cfg_mslookup_client_mdns_bind :: "osmo_core \<Rightarrow> vty_lib \<Rightarrow> dgsm_env \<Rightarrow> 'a cfg_cmd" where
  "cfg_mslookup_client_mdns_bind L T N argv v s = mslookup_client_mdns_to L T N argv v s"

definition cfg_mslookup_client_mdns_domain_suffix :: "osmo_core \<Rightarrow> dgsm_env \<Rightarrow> 'a cfg_cmd" where
  "cfg_mslookup_client_mdns_domain_suffix L N argv v s =
     cmd_ok v (client_config_apply L N (s\<lparr>ms_client := (ms_client s)\<lparr>domain_suffix := argv ! 0\<rparr>\<rparr>))"

definition cfg_mslookup_client_no_mdns_bind :: "osmo_core \<Rightarrow> dgsm_env \<Rightarrow> 'a cfg_cmd" where
  "cfg_mslookup_client_no_mdns_bind L N argv v s =
     cmd_ok v (client_config_apply L N (s\<lparr>ms_client := (ms_client s)\<lparr>mdns_enable := False\<rparr>\<rparr>))"

definition cfg_mslookup_client_gateway_proxy :: "osmo_core \<Rightarrow> vty_lib \<Rightarrow> 'a cfg_cmd" where
  "cfg_mslookup_client_gateway_proxy L T argv v s =
     (case parse_addr L (argv ! 0) (if length argv > 1 then of_int (atoi (argv ! 1)) else OSMO_GSUP_PORT) of
        None \<Rightarrow>
          cmd_warn (vty_line T (''% mslookup client: Invalid address for gateway-proxy: '' @ argv ! 0 @ '' '' @
            (if length argv > 1 then argv ! 1 else []))) v s
      | Some addr \<Rightarrow> cmd_ok v (s\<lparr>gsup_gateway_proxy := addr\<rparr>))"

definition cfg_mslookup_client_no_gateway_proxy :: "'a cfg_cmd" where
  "cfg_mslookup_client_no_gateway_proxy argv v s = cmd_ok v (s\<lparr>gsup_gateway_proxy := sockaddr_zero\<rparr>)"

section \<open>Writing the configuration\<close>

definition service_line :: "nat \<Rightarrow> string \<Rightarrow> osmo_sockaddr_str \<Rightarrow> cfg_line" where
  "service_line indent serv a = (indent, [''service'', serv, ''at'', sa_ip a, show_dec (unat (sa_port a))])"

definition config_write_msc_services :: "osmo_core \<Rightarrow> nat \<Rightarrow> mslookup_server_msc_cfg \<Rightarrow> cfg_line list" where
  "config_write_msc_services L indent msc =
     concat (map (\<lambda>e.
       (if osmo_sockaddr_str_is_nonzero L (sh_host_v4 e) then [service_line indent (sh_service e) (sh_host_v4 e)] else []) @
       (if osmo_sockaddr_str_is_nonzero L (sh_host_v6 e) then [service_line indent (sh_service e) (sh_host_v6 e)] else []))
       (service_hosts msc))"

definition is_wildcard :: "mslookup_server_msc_cfg \<Rightarrow> bool" where
  "is_wildcard msc \<longleftrightarrow> osmo_ipa_name_cmp False (Some mslookup_server_msc_wildcard) (Some (cfg_msc_name msc)) = 0"

definition write_services :: "osmo_core \<Rightarrow> nat \<Rightarrow> string list \<Rightarrow> mslookup_server \<Rightarrow> cfg_line list" where
  \<comment> \<open>the services of the wildcard, then of each MSC below a line that starts with \<open>msc\<close>\<close>
  "write_services L indent msc c =
     (case mslookup_server_msc_get (Some mslookup_server_msc_wildcard) False c of
        (_, None) \<Rightarrow> []
      | (_, Some i) \<Rightarrow> config_write_msc_services L indent (local_site_services c ! i)) @
     concat (map (\<lambda>m. (indent, msc @ split_words [] (osmo_ipa_name_to_str L (cfg_msc_name m))) # config_write_msc_services L (indent + 1) m)
       (filter (\<lambda>m. \<not> is_wildcard m) (local_site_services c)))"

definition write_server :: "osmo_core \<Rightarrow> 'a vty_world_scheme \<Rightarrow> cfg_line list" where
  "write_server L s =
     (let m = ms_server_mdns s
      in [(1, [''server''])] @
         (if srv_mdns_enable m then
            [(2, [''mdns'', ''bind''] @
              (if osmo_sockaddr_str_is_nonzero L (srv_cfg_bind_addr m)
               then [sa_ip (srv_cfg_bind_addr m), show_dec (unat (sa_port (srv_cfg_bind_addr m)))] else []))]
          else []) @
         (if strcmp (srv_cfg_domain_suffix m) OSMO_MDNS_DOMAIN_SUFFIX_DEFAULT \<noteq> 0
          then [(2, [''mdns'', ''domain-suffix'', srv_cfg_domain_suffix m])] else []) @
         write_services L 1 [''msc''] (ms_server s) @
         (if \<not> srv_enable m then [(1, [''no'', ''server''])] else []))"

definition write_client :: "osmo_core \<Rightarrow> 'a vty_world_scheme \<Rightarrow> cfg_line list" where
  "write_client L s =
     (let c = ms_client s; g = gsup_gateway_proxy s
      in [(1, [''client''])] @
         (if osmo_sockaddr_str_is_nonzero L g then [(2, [''gateway-proxy'', sa_ip g, show_dec (unat (sa_port g))])] else []) @
         (if mdns_enable c \<and> osmo_sockaddr_str_is_nonzero L (query_addr c)
          then [(2, [''mdns'', ''bind'', sa_ip (query_addr c), show_dec (unat (sa_port (query_addr c)))])] else []) @
         (if strcmp (domain_suffix c) OSMO_MDNS_DOMAIN_SUFFIX_DEFAULT \<noteq> 0
          then [(2, [''mdns'', ''domain-suffix'', domain_suffix c])] else []))"

definition config_write_mslookup :: "osmo_core \<Rightarrow> 'a vty_world_scheme \<Rightarrow> cfg_line list" where
  "config_write_mslookup L s =
     (if \<not> srv_enable (ms_server_mdns s) \<and> local_site_services (ms_server s) = [] \<and> \<not> client_enable (ms_client s) then []
      else [(0, [''mslookup''])] @
        (if srv_enable (ms_server_mdns s) \<or> local_site_services (ms_server s) \<noteq> [] then write_server L s else []) @
        (if client_enable (ms_client s) then write_client L s else []))"

definition do_mslookup_show_services :: "osmo_core \<Rightarrow> vty_lib \<Rightarrow> 'a cfg_cmd" where
  \<comment> \<open>an address that was never configured is passed on as an empty text\<close>
  "do_mslookup_show_services L T argv v s =
     (let addr = (case hlr_gsup_bind_addr s of None \<Rightarrow> [] | Some a \<Rightarrow> a)
      in (case mslookup_server_get_local_gsup_addr L ((ms_server s)\<lparr>gsup_bind_addr := addr\<rparr>) of
            (c, local_hlr) \<Rightarrow>
              Ret (v, s\<lparr>ms_server := c\<rparr>,
                vty_line T (''Local GSUP HLR address returned in mslookup responses for local IMSIs:'' @
                  (if osmo_sockaddr_str_is_nonzero L (sh_host_v4 local_hlr) then CHR '' '' # osmo_sockaddr_str_fmt L (sh_host_v4 local_hlr) else []) @
                  (if osmo_sockaddr_str_is_nonzero L (sh_host_v6 local_hlr) then CHR '' '' # osmo_sockaddr_str_fmt L (sh_host_v6 local_hlr) else [])) @
                concat (map (line_text T) (write_services L 0 [''msc'', ''ipa-name''] c)), CMD_SUCCESS)))"

definition dgsm_vty_init :: "osmo_core \<Rightarrow> vty_lib \<Rightarrow> dgsm_env \<Rightarrow> 'a cmd_table" where
  "dgsm_vty_init L T N node =
     (let mdns_bind = [KEYWORD ''mdns'', KEYWORD ''bind'', OPTION VARIABLE, OPTION (RANGE 1 65535)];
          mdns_suffix = [KEYWORD ''mdns'', KEYWORD ''domain-suffix'', VARIABLE];
          services =
            [([KEYWORD ''service'', VARIABLE, KEYWORD ''at'', VARIABLE, RANGE 1 65535], cfg_mslookup_server_msc_service L T),
             ([KEYWORD ''no'', KEYWORD ''service'', VARIABLE], cfg_mslookup_server_msc_no_service L T),
             ([KEYWORD ''no'', KEYWORD ''service'', VARIABLE, KEYWORD ''at'', VARIABLE, RANGE 1 65535], cfg_mslookup_server_msc_no_service_addr L T)]
      in (case node of
            ENABLE_NODE \<Rightarrow> [([KEYWORD ''show'', KEYWORD ''mslookup'', KEYWORD ''services''], do_mslookup_show_services L T)]
          | CONFIG_NODE \<Rightarrow> [([KEYWORD ''mslookup''], cfg_mslookup)]
          | MSLOOKUP_NODE \<Rightarrow>
              [(mdns_bind, cfg_mslookup_mdns L T N),
               (mdns_suffix, cfg_mslookup_mdns_domain_suffix L N),
               ([KEYWORD ''no'', KEYWORD ''mdns'', KEYWORD ''bind''], cfg_mslookup_no_mdns L N),
               ([KEYWORD ''server''], cfg_mslookup_server L N),
               ([KEYWORD ''no'', KEYWORD ''server''], cfg_mslookup_no_server L N),
               ([KEYWORD ''client''], cfg_mslookup_client L N),
               ([KEYWORD ''no'', KEYWORD ''client''], cfg_mslookup_no_client L N)]
          | MSLOOKUP_SERVER_NODE \<Rightarrow>
              [(mdns_bind, cfg_mslookup_server_mdns_bind L T N),
               (mdns_suffix, cfg_mslookup_server_mdns_domain_suffix L N),
               ([KEYWORD ''no'', KEYWORD ''mdns'', KEYWORD ''bind''], cfg_mslookup_server_no_mdns_bind L N)] @
              services @
              [([KEYWORD ''msc'', KEYWORD ''ipa-name'', VARARG], cfg_mslookup_server_msc L T N)]
          | MSLOOKUP_SERVER_MSC_NODE \<Rightarrow> services
          | MSLOOKUP_CLIENT_NODE \<Rightarrow>
              [([KEYWORD ''timeout'', RANGE 1 100000], cfg_mslookup_client_timeout),
               (mdns_bind, cfg_mslookup_client_mdns_bind L T N),
               (mdns_suffix, cfg_mslookup_client_mdns_domain_suffix L N),
               ([KEYWORD ''no'', KEYWORD ''mdns'', KEYWORD ''bind''], cfg_mslookup_client_no_mdns_bind L N),
               ([KEYWORD ''gateway-proxy'', VARIABLE, OPTION (RANGE 1 65535)], cfg_mslookup_client_gateway_proxy L T),
               ([KEYWORD ''no'', KEYWORD ''gateway-proxy''], cfg_mslookup_client_no_gateway_proxy)]
          | _ \<Rightarrow> []))"

section \<open>The configuration as the operator can leave it\<close>

definition sockaddr_ok :: "osmo_core \<Rightarrow> bool" where
  \<comment> \<open>an address that is accepted is stored as it was given; one that is not zero has both parts\<close>
  "sockaddr_ok L \<longleftrightarrow>
     (\<forall>ip p a. osmo_sockaddr_str_from_str L ip p = (a, 0) \<longrightarrow> sa_ip a = ip \<and> sa_port a = p) \<and>
     (\<forall>a. osmo_sockaddr_str_is_nonzero L a \<longrightarrow> sa_ip a \<noteq> [] \<and> sa_port a \<noteq> 0)"

definition addr_ok :: "osmo_core \<Rightarrow> osmo_sockaddr_str \<Rightarrow> bool" where
  "addr_ok L a \<longleftrightarrow> parse_addr L (sa_ip a) (sa_port a) = Some a"

definition ms_view where
  "ms_view s =
     ((srv_enable (ms_server_mdns s), srv_mdns_enable (ms_server_mdns s), srv_cfg_bind_addr (ms_server_mdns s), srv_cfg_domain_suffix (ms_server_mdns s)),
      (client_enable (ms_client s), mdns_enable (ms_client s), query_addr (ms_client s), domain_suffix (ms_client s)),
      gsup_gateway_proxy s, local_site_services (ms_server s))"

definition ms_ok :: "osmo_core \<Rightarrow> 'a vty_world_scheme \<Rightarrow> bool" where
  "ms_ok L s \<longleftrightarrow>
     (srv_mdns_enable (ms_server_mdns s) \<longrightarrow> addr_ok L (srv_cfg_bind_addr (ms_server_mdns s))) \<and> srv_cfg_domain_suffix (ms_server_mdns s) \<noteq> [] \<and>
     (mdns_enable (ms_client s) \<longrightarrow> addr_ok L (query_addr (ms_client s))) \<and> domain_suffix (ms_client s) \<noteq> [] \<and>
     (osmo_sockaddr_str_is_nonzero L (gsup_gateway_proxy s) \<longrightarrow> addr_ok L (gsup_gateway_proxy s))"

definition ms_settings where
  \<comment> \<open>the settings in force, of the server, the gateway proxy and the client. A server or client that is switched off has none, nor has
    an address that is not used; the gateway proxy is used whether the client is on or off\<close>
  "ms_settings L s =
     (if srv_enable (ms_server_mdns s)
      then Some (if srv_mdns_enable (ms_server_mdns s) then Some (srv_cfg_bind_addr (ms_server_mdns s)) else None, srv_cfg_domain_suffix (ms_server_mdns s))
      else None,
      if osmo_sockaddr_str_is_nonzero L (gsup_gateway_proxy s) then Some (gsup_gateway_proxy s) else None,
      if client_enable (ms_client s)
      then Some (if mdns_enable (ms_client s) then Some (query_addr (ms_client s)) else None, domain_suffix (ms_client s))
      else None)"

lemma apply_server_fields [simp]:
  "srv_enable (mslookup_server_mdns_config_apply L b c) = srv_enable c"
  "srv_mdns_enable (mslookup_server_mdns_config_apply L b c) = srv_mdns_enable c"
  "srv_cfg_bind_addr (mslookup_server_mdns_config_apply L b c) = srv_cfg_bind_addr c"
  "srv_cfg_domain_suffix (mslookup_server_mdns_config_apply L b c) = srv_cfg_domain_suffix c"
  by (simp_all add: mslookup_server_mdns_config_apply_def Let_def)

lemma apply_client_fields [simp]:
  "client_enable (dgsm_mdns_client_config_apply L b c) = client_enable c"
  "mdns_enable (dgsm_mdns_client_config_apply L b c) = mdns_enable c"
  "query_addr (dgsm_mdns_client_config_apply L b c) = query_addr c"
  "domain_suffix (dgsm_mdns_client_config_apply L b c) = domain_suffix c"
  by (simp_all add: dgsm_mdns_client_config_apply_def Let_def)

lemma parse_addr_some:
  "parse_addr L ip p = Some a \<longleftrightarrow> osmo_sockaddr_str_from_str L ip p = (a, 0) \<and> osmo_sockaddr_str_is_nonzero L a"
  by (auto simp: parse_addr_def split: prod.split)

lemma parse_addr_ok: "sockaddr_ok L \<Longrightarrow> parse_addr L ip p = Some a \<Longrightarrow> addr_ok L a"
  unfolding sockaddr_ok_def addr_ok_def parse_addr_some by metis

lemma addr_ok_facts: "sockaddr_ok L \<Longrightarrow> addr_ok L a \<Longrightarrow> osmo_sockaddr_str_is_nonzero L a \<and> sa_ip a \<noteq> [] \<and> sa_port a \<noteq> 0"
  unfolding sockaddr_ok_def addr_ok_def parse_addr_some by metis

lemmas ms_cmd_defs = cmd_ok_def cmd_warn_def server_config_apply_def client_config_apply_def cfg_mslookup_def cfg_mslookup_mdns_def
  cfg_mslookup_mdns_domain_suffix_def cfg_mslookup_no_mdns_def cfg_mslookup_server_def cfg_mslookup_no_server_def cfg_mslookup_server_mdns_bind_def
  cfg_mslookup_server_mdns_domain_suffix_def cfg_mslookup_server_no_mdns_bind_def cfg_mslookup_client_def cfg_mslookup_no_client_def
  cfg_mslookup_client_timeout_def cfg_mslookup_client_mdns_bind_def cfg_mslookup_client_mdns_domain_suffix_def cfg_mslookup_client_no_mdns_bind_def
  cfg_mslookup_client_gateway_proxy_def cfg_mslookup_client_no_gateway_proxy_def mslookup_server_mdns_bind_def mslookup_client_mdns_to_def

lemma ms_ok_services: "ms_ok L (s\<lparr>ms_server := c\<rparr>) = ms_ok L s" "ms_ok L (store_msc i m s) = ms_ok L s"
  by (simp_all add: ms_ok_def store_msc_def split: option.split)

lemma ms_ok_msc: "msc_from_node v s = (s', i) \<Longrightarrow> ms_ok L s' = ms_ok L s"
  by (auto simp: msc_from_node_def ms_ok_services split: vty_node.splits prod.splits)

lemma keeps_ms_services:
  "keeps (ms_ok L) (cfg_mslookup_server_msc L T N) argv" "keeps (ms_ok L) (cfg_mslookup_server_msc_service L T) argv"
  "keeps (ms_ok L) (cfg_mslookup_server_msc_no_service L T) argv" "keeps (ms_ok L) (cfg_mslookup_server_msc_no_service_addr L T) argv"
  "keeps (ms_ok L) (do_mslookup_show_services L T) argv"
  by (auto simp: keeps_def cfg_mslookup_server_msc_def do_mslookup_show_services_def cfg_mslookup_server_msc_service_def
      cfg_mslookup_server_msc_no_service_def cfg_mslookup_server_msc_no_service_addr_def no_msc_def cmd_ok_def cmd_warn_def Let_def ms_ok_services
      dest: ms_ok_msc split: prod.splits option.splits if_splits)

lemma keeps_ms_flags:
  "keeps (ms_ok L) cfg_mslookup argv" "keeps (ms_ok L) (cfg_mslookup_no_mdns L N) argv"
  "keeps (ms_ok L) (cfg_mslookup_server L N) argv" "keeps (ms_ok L) (cfg_mslookup_no_server L N) argv"
  "keeps (ms_ok L) (cfg_mslookup_server_no_mdns_bind L N) argv" "keeps (ms_ok L) (cfg_mslookup_client L N) argv"
  "keeps (ms_ok L) (cfg_mslookup_no_client L N) argv" "keeps (ms_ok L) cfg_mslookup_client_timeout argv"
  "keeps (ms_ok L) (cfg_mslookup_client_no_mdns_bind L N) argv"
  by (simp_all add: keeps_def ms_cmd_defs ms_ok_def)

lemma keeps_ms_suffix:
  "w \<noteq> [] \<Longrightarrow> keeps (ms_ok L) (cfg_mslookup_mdns_domain_suffix L N) [w]"
  "w \<noteq> [] \<Longrightarrow> keeps (ms_ok L) (cfg_mslookup_server_mdns_domain_suffix L N) [w]"
  "w \<noteq> [] \<Longrightarrow> keeps (ms_ok L) (cfg_mslookup_client_mdns_domain_suffix L N) [w]"
  by (simp_all add: keeps_def ms_cmd_defs ms_ok_def)

lemma keeps_ms_bind:
  assumes "sockaddr_ok L"
  shows "keeps (ms_ok L) (mslookup_server_mdns_bind L T N) argv" "keeps (ms_ok L) (mslookup_client_mdns_to L T N) argv"
    "keeps (ms_ok L) (cfg_mslookup_client_gateway_proxy L T) argv"
  using parse_addr_ok [OF assms]
  by (auto simp: keeps_def ms_cmd_defs ms_ok_def split: option.splits prod.splits)

lemma keeps_ms_addr:
  assumes L: "sockaddr_ok L"
  shows "keeps (ms_ok L) (cfg_mslookup_server_mdns_bind L T N) argv" "keeps (ms_ok L) (cfg_mslookup_client_mdns_bind L T N) argv"
    "keeps (ms_ok L) (cfg_mslookup_mdns L T N) argv" "keeps (ms_ok L) cfg_mslookup_client_no_gateway_proxy argv"
proof -
  show "keeps (ms_ok L) (cfg_mslookup_server_mdns_bind L T N) argv" "keeps (ms_ok L) (cfg_mslookup_client_mdns_bind L T N) argv"
    using keeps_ms_bind [OF L] by (simp_all add: keeps_def cfg_mslookup_server_mdns_bind_def cfg_mslookup_client_mdns_bind_def)
  show "keeps (ms_ok L) (cfg_mslookup_mdns L T N) argv"
    using keeps_ms_bind(1,2) [OF L, of T N argv]
    by (auto simp: keeps_def cfg_mslookup_mdns_def split: exec.splits) blast
  have "\<not> osmo_sockaddr_str_is_nonzero L sockaddr_zero" using L by (auto simp: sockaddr_ok_def sockaddr_zero_def)
  then show "keeps (ms_ok L) cfg_mslookup_client_no_gateway_proxy argv"
    by (simp add: keeps_def ms_cmd_defs ms_ok_def)
qed

lemma ms_table:
  assumes P: "parser_ok P" and L: "sockaddr_ok L" and "(t, c) \<in> set (dgsm_vty_init L T N n)" and "cmd_match P t ws = Some argv"
  shows "keeps (ms_ok L) c argv"
  using assms(3,4)
  by (cases n) (auto simp: dgsm_vty_init_def Let_def match_iff [OF P]
      intro: keeps_ms_services keeps_ms_flags keeps_ms_suffix keeps_ms_bind [OF L] keeps_ms_addr [OF L])

lemma ms_configured_ok:
  assumes "parser_ok P" and "sockaddr_ok L" and "configured P (dgsm_vty_init L T N) L ms_view s"
  shows "ms_ok L s"
proof (rule configured_inv [OF assms(3) _ ms_table [OF assms(1,2)]])
  have "\<not> osmo_sockaddr_str_is_nonzero L sockaddr_zero" using assms(2) by (auto simp: sockaddr_ok_def sockaddr_zero_def)
  then show "ms_ok L (initial_config L s)" for s :: "'a vty_world_scheme"
    by (simp add: ms_ok_def initial_config_def dgsm_init_def hlr_init_def Let_def OSMO_MDNS_DOMAIN_SUFFIX_DEFAULT_def)
qed (auto simp: ms_ok_def ms_view_def)

section \<open>Reading the written configuration\<close>

definition ms_vty :: vty where "ms_vty = file_vty\<lparr>vt_node := MSLOOKUP_NODE\<rparr>"
definition srv_vty :: vty where "srv_vty = ms_vty\<lparr>vt_node := MSLOOKUP_SERVER_NODE\<rparr>"
definition cli_vty :: vty where "cli_vty = ms_vty\<lparr>vt_node := MSLOOKUP_CLIENT_NODE\<rparr>"

lemma ms_nodes [simp]:
  "vt_node ms_vty = MSLOOKUP_NODE" "vt_node srv_vty = MSLOOKUP_SERVER_NODE" "vt_node cli_vty = MSLOOKUP_CLIENT_NODE"
  by (simp_all add: ms_vty_def srv_vty_def cli_vty_def)

abbreviation ms_stack :: "(nat \<times> vty) list" where "ms_stack \<equiv> [(0, file_vty)]"
abbreviation sub_stack :: "(nat \<times> vty) list" where "sub_stack \<equiv> [(1, ms_vty), (0, file_vty)]"

lemmas ms_find = accepts_def dgsm_vty_init_def Let_def match_simps match_value

lemma port_arg: "p \<noteq> 0 \<Longrightarrow> range_word 1 65535 (show_dec (unat p)) \<and> of_int (atoi (show_dec (unat p))) = (p :: 16 word)"
  using unat16_less [of p] by (simp add: range_word_show atoi_show Suc_le_eq unat_gt_0)

lemma sub_line:
  "parser_ok P \<Longrightarrow> accepts P tab v0 ws s s' \<Longrightarrow> reads P tab 2 v0 sub_stack [(2, ws)] s s'"
  by (intro reads_line) (simp_all add: leave_simps)

definition bind_server :: "osmo_core \<Rightarrow> dgsm_env \<Rightarrow> osmo_sockaddr_str \<Rightarrow> 'a vty_world_scheme \<Rightarrow> 'a vty_world_scheme" where
  "bind_server L N a s = server_config_apply L N
     (s\<lparr>ms_server_mdns := (ms_server_mdns s)\<lparr>srv_cfg_bind_addr := a, srv_mdns_enable := True, srv_enable := True\<rparr>\<rparr>)"

definition bind_client :: "osmo_core \<Rightarrow> dgsm_env \<Rightarrow> osmo_sockaddr_str \<Rightarrow> 'a vty_world_scheme \<Rightarrow> 'a vty_world_scheme" where
  "bind_client L N a s = client_config_apply L N
     (s\<lparr>ms_client := (ms_client s)\<lparr>query_addr := a, mdns_enable := True, client_enable := True\<rparr>\<rparr>)"

lemma accepts_server_bind:
  assumes "parser_ok P" and "sockaddr_ok L" and "addr_ok L a"
  shows "accepts P (dgsm_vty_init L T N) srv_vty [''mdns'', ''bind'', sa_ip a, show_dec (unat (sa_port a))] s (bind_server L N a s)"
  using assms addr_ok_facts [OF assms(2,3)] port_arg [of "sa_port a"]
  by (simp add: ms_find ms_cmd_defs mdns_arg_def addr_ok_def bind_server_def)

lemma accepts_client_bind:
  assumes "parser_ok P" and "sockaddr_ok L" and "addr_ok L a"
  shows "accepts P (dgsm_vty_init L T N) cli_vty [''mdns'', ''bind'', sa_ip a, show_dec (unat (sa_port a))] s (bind_client L N a s)"
  using assms addr_ok_facts [OF assms(2,3)] port_arg [of "sa_port a"]
  by (simp add: ms_find ms_cmd_defs mdns_arg_def addr_ok_def bind_client_def)

lemma accepts_suffix:
  assumes "parser_ok P" and "w \<noteq> []"
  shows "accepts P (dgsm_vty_init L T N) srv_vty [''mdns'', ''domain-suffix'', w] s
      (server_config_apply L N (s\<lparr>ms_server_mdns := (ms_server_mdns s)\<lparr>srv_cfg_domain_suffix := w\<rparr>\<rparr>))"
    and "accepts P (dgsm_vty_init L T N) cli_vty [''mdns'', ''domain-suffix'', w] s
      (client_config_apply L N (s\<lparr>ms_client := (ms_client s)\<lparr>domain_suffix := w\<rparr>\<rparr>))"
  using assms by (simp_all add: ms_find cmd_ok_def cfg_mslookup_server_mdns_domain_suffix_def cfg_mslookup_client_mdns_domain_suffix_def)

lemma accepts_gateway:
  assumes "parser_ok P" and "sockaddr_ok L" and "addr_ok L a"
  shows "accepts P (dgsm_vty_init L T N) cli_vty [''gateway-proxy'', sa_ip a, show_dec (unat (sa_port a))] s (s\<lparr>gsup_gateway_proxy := a\<rparr>)"
  using assms addr_ok_facts [OF assms(2,3)] port_arg [of "sa_port a"]
  by (simp add: ms_find cmd_ok_def cfg_mslookup_client_gateway_proxy_def addr_ok_def)

definition server_lines :: "osmo_core \<Rightarrow> 'a vty_world_scheme \<Rightarrow> cfg_line list" where
  \<comment> \<open>the lines of the server node before the services\<close>
  "server_lines L s =
     (let m = ms_server_mdns s
      in (if srv_mdns_enable m then
            [(2, [''mdns'', ''bind''] @
              (if osmo_sockaddr_str_is_nonzero L (srv_cfg_bind_addr m)
               then [sa_ip (srv_cfg_bind_addr m), show_dec (unat (sa_port (srv_cfg_bind_addr m)))] else []))]
          else []) @
         (if strcmp (srv_cfg_domain_suffix m) OSMO_MDNS_DOMAIN_SUFFIX_DEFAULT \<noteq> 0
          then [(2, [''mdns'', ''domain-suffix'', srv_cfg_domain_suffix m])] else []))"

lemma write_server_lines:
  "write_server L s = ((1, [''server'']) # server_lines L s) @ write_services L 1 [''msc''] (ms_server s) @
     (if \<not> srv_enable (ms_server_mdns s) then [(1, [''no'', ''server''])] else [])"
  by (simp add: write_server_def server_lines_def Let_def)

definition same_client :: "'a vty_world_scheme \<Rightarrow> 'a vty_world_scheme \<Rightarrow> bool" where
  "same_client s s' \<longleftrightarrow> ms_client s' = ms_client s \<and> gsup_gateway_proxy s' = gsup_gateway_proxy s \<and>
     client_result_timeout_milliseconds s' = client_result_timeout_milliseconds s"

lemma reads_server:
  assumes P: "parser_ok P" and L: "sockaddr_ok L" and ok: "ms_ok L s"
    and z: "\<not> srv_mdns_enable (ms_server_mdns z)" "srv_cfg_domain_suffix (ms_server_mdns z) = OSMO_MDNS_DOMAIN_SUFFIX_DEFAULT"
  shows "\<exists>z'. reads P (dgsm_vty_init L T N) 1 ms_vty ms_stack ((1, [''server'']) # server_lines L s) z z' \<and> same_client z z' \<and>
    srv_enable (ms_server_mdns z') \<and> srv_mdns_enable (ms_server_mdns z') = srv_mdns_enable (ms_server_mdns s) \<and>
    (srv_mdns_enable (ms_server_mdns s) \<longrightarrow> srv_cfg_bind_addr (ms_server_mdns z') = srv_cfg_bind_addr (ms_server_mdns s)) \<and>
    srv_cfg_domain_suffix (ms_server_mdns z') = srv_cfg_domain_suffix (ms_server_mdns s)"
proof -
  let ?m = "ms_server_mdns s"
  let ?tab = "dgsm_vty_init L T N"
  let ?a = "srv_cfg_bind_addr ?m"
  let ?d = "strcmp (srv_cfg_domain_suffix ?m) OSMO_MDNS_DOMAIN_SUFFIX_DEFAULT \<noteq> 0"
  let ?z1 = "server_config_apply L N (z\<lparr>ms_server_mdns := (ms_server_mdns z)\<lparr>srv_enable := True\<rparr>\<rparr>)"
  let ?z2 = "if srv_mdns_enable ?m then bind_server L N ?a ?z1 else ?z1"
  let ?z3 = "if ?d then server_config_apply L N (?z2\<lparr>ms_server_mdns := (ms_server_mdns ?z2)\<lparr>srv_cfg_domain_suffix := srv_cfg_domain_suffix ?m\<rparr>\<rparr>) else ?z2"
  have nz: "srv_mdns_enable ?m \<Longrightarrow> addr_ok L ?a \<and> osmo_sockaddr_str_is_nonzero L ?a"
    using ok addr_ok_facts [OF L] by (simp add: ms_ok_def)
  have "reads P ?tab 2 srv_vty sub_stack (if srv_mdns_enable ?m then [(2, [''mdns'', ''bind'', sa_ip ?a, show_dec (unat (sa_port ?a))])] else []) ?z1 ?z2"
    using nz by (intro reads_if sub_line accepts_server_bind P L) simp
  moreover have "reads P ?tab 2 srv_vty sub_stack (if ?d then [(2, [''mdns'', ''domain-suffix'', srv_cfg_domain_suffix ?m])] else []) ?z2 ?z3"
    using ok by (intro reads_if sub_line accepts_suffix P) (simp add: ms_ok_def)
  ultimately have "reads P ?tab 2 srv_vty sub_stack (server_lines L s) ?z1 ?z3"
    using reads_append nz by (fastforce simp: server_lines_def Let_def)
  then have "reads P ?tab 1 ms_vty ms_stack ((1, [''server'']) # server_lines L s) z ?z3"
    by (intro reads_sub_block [OF P, where c = "cfg_mslookup_server L N" and argv = "[]" and ?s1.0 = ?z1 and ?v1.0 = srv_vty and out = "[]"])
      (simp_all add: ms_find P leave_simps [OF P] cfg_mslookup_server_def cmd_ok_def srv_vty_def numeral_2_eq_2)
  moreover have "same_client z ?z3" by (simp add: same_client_def server_config_apply_def bind_server_def)
  moreover have "srv_enable (ms_server_mdns ?z3) \<and> srv_mdns_enable (ms_server_mdns ?z3) = srv_mdns_enable ?m \<and>
      (srv_mdns_enable ?m \<longrightarrow> srv_cfg_bind_addr (ms_server_mdns ?z3) = ?a) \<and> srv_cfg_domain_suffix (ms_server_mdns ?z3) = srv_cfg_domain_suffix ?m"
    using z by (simp add: server_config_apply_def bind_server_def cmp_simps)
  ultimately show ?thesis by blast
qed

lemma reads_client:
  assumes P: "parser_ok P" and L: "sockaddr_ok L" and ok: "ms_ok L s"
    and z: "\<not> mdns_enable (ms_client z)" "domain_suffix (ms_client z) = OSMO_MDNS_DOMAIN_SUFFIX_DEFAULT" "gsup_gateway_proxy z = sockaddr_zero"
  shows "\<exists>z'. reads P (dgsm_vty_init L T N) 1 ms_vty ms_stack (write_client L s) z z' \<and> ms_server_mdns z' = ms_server_mdns z \<and>
    client_enable (ms_client z') \<and> mdns_enable (ms_client z') = mdns_enable (ms_client s) \<and>
    (mdns_enable (ms_client s) \<longrightarrow> query_addr (ms_client z') = query_addr (ms_client s)) \<and>
    domain_suffix (ms_client z') = domain_suffix (ms_client s) \<and>
    gsup_gateway_proxy z' = (if osmo_sockaddr_str_is_nonzero L (gsup_gateway_proxy s) then gsup_gateway_proxy s else sockaddr_zero) \<and>
    client_result_timeout_milliseconds z' = client_result_timeout_milliseconds z"
proof -
  let ?c = "ms_client s"
  let ?tab = "dgsm_vty_init L T N"
  let ?a = "query_addr ?c"
  let ?g = "gsup_gateway_proxy s"
  let ?d = "strcmp (domain_suffix ?c) OSMO_MDNS_DOMAIN_SUFFIX_DEFAULT \<noteq> 0"
  let ?b = "mdns_enable ?c \<and> osmo_sockaddr_str_is_nonzero L ?a"
  let ?z1 = "client_config_apply L N (z\<lparr>ms_client := (ms_client z)\<lparr>client_enable := True\<rparr>\<rparr>)"
  let ?z2 = "if osmo_sockaddr_str_is_nonzero L ?g then ?z1\<lparr>gsup_gateway_proxy := ?g\<rparr> else ?z1"
  let ?z3 = "if ?b then bind_client L N ?a ?z2 else ?z2"
  let ?z4 = "if ?d then client_config_apply L N (?z3\<lparr>ms_client := (ms_client ?z3)\<lparr>domain_suffix := domain_suffix ?c\<rparr>\<rparr>) else ?z3"
  have nz: "mdns_enable ?c \<Longrightarrow> addr_ok L ?a \<and> osmo_sockaddr_str_is_nonzero L ?a"
    using ok addr_ok_facts [OF L] by (simp add: ms_ok_def)
  have 1: "reads P ?tab 2 cli_vty sub_stack
      (if osmo_sockaddr_str_is_nonzero L ?g then [(2, [''gateway-proxy'', sa_ip ?g, show_dec (unat (sa_port ?g))])] else []) ?z1 ?z2"
    using ok by (intro reads_if sub_line accepts_gateway P L) (simp add: ms_ok_def)
  have 2: "reads P ?tab 2 cli_vty sub_stack (if ?b then [(2, [''mdns'', ''bind'', sa_ip ?a, show_dec (unat (sa_port ?a))])] else []) ?z2 ?z3"
    using nz by (intro reads_if sub_line accepts_client_bind P L) simp
  have 3: "reads P ?tab 2 cli_vty sub_stack (if ?d then [(2, [''mdns'', ''domain-suffix'', domain_suffix ?c])] else []) ?z3 ?z4"
    using ok by (intro reads_if sub_line accepts_suffix P) (simp add: ms_ok_def)
  have "reads P ?tab 2 cli_vty sub_stack (tl (write_client L s)) ?z1 ?z4"
    using reads_append [OF 1 reads_append [OF 2 3]] by (simp add: write_client_def Let_def)
  then have "reads P ?tab 1 ms_vty ms_stack ((1, [''client'']) # tl (write_client L s)) z ?z4"
    by (intro reads_sub_block [OF P, where c = "cfg_mslookup_client L N" and argv = "[]" and ?s1.0 = ?z1 and ?v1.0 = cli_vty and out = "[]"])
      (simp_all add: ms_find P leave_simps [OF P] cfg_mslookup_client_def cmd_ok_def cli_vty_def numeral_2_eq_2)
  then have "reads P ?tab 1 ms_vty ms_stack (write_client L s) z ?z4" by (simp add: write_client_def Let_def)
  moreover have "ms_server_mdns ?z4 = ms_server_mdns z \<and> client_enable (ms_client ?z4) \<and> mdns_enable (ms_client ?z4) = mdns_enable ?c \<and>
      (mdns_enable ?c \<longrightarrow> query_addr (ms_client ?z4) = ?a) \<and> domain_suffix (ms_client ?z4) = domain_suffix ?c \<and>
      gsup_gateway_proxy ?z4 = (if osmo_sockaddr_str_is_nonzero L ?g then ?g else sockaddr_zero) \<and>
      client_result_timeout_milliseconds ?z4 = client_result_timeout_milliseconds z"
    using z nz by (auto simp: client_config_apply_def bind_client_def cmp_simps)
  ultimately show ?thesis by blast
qed

lemma reads_no_server:
  "parser_ok P \<Longrightarrow> reads P (dgsm_vty_init L T N) 1 ms_vty ms_stack [(1, [''no'', ''server''])] s
    (server_config_apply L N (s\<lparr>ms_server_mdns := (ms_server_mdns s)\<lparr>srv_enable := False\<rparr>\<rparr>))"
  by (intro reads_line) (simp_all add: ms_find leave_simps cfg_mslookup_no_server_def cmd_ok_def)

lemma service_refused:
  "parser_ok P \<Longrightarrow> w = ''service'' \<or> w = ''msc'' \<Longrightarrow> find_cmd P (dgsm_vty_init L T N MSLOOKUP_NODE) (w # ws) = None"
  by (auto simp: dgsm_vty_init_def Let_def match_simps)

lemma msc_services_lines: "\<forall>l \<in> set (config_write_msc_services L i m). \<exists>ws. l = (i, ''service'' # ws)"
  by (auto simp: config_write_msc_services_def service_line_def)

lemma write_services_first:
  assumes "write_services L i [''msc''] c = l # ls"
  shows "\<exists>w ws. l = (i, w # ws) \<and> (w = ''service'' \<or> w = ''msc'')"
proof -
  define a where "a = (case mslookup_server_msc_get (Some mslookup_server_msc_wildcard) False c of
        (_, None) \<Rightarrow> []
      | (_, Some j) \<Rightarrow> config_write_msc_services L i (local_site_services c ! j))"
  then have a: "write_services L i [''msc''] c = a @
      concat (map (\<lambda>m. (i, [''msc''] @ split_words [] (osmo_ipa_name_to_str L (cfg_msc_name m))) # config_write_msc_services L (i + 1) m)
        (filter (\<lambda>m. \<not> is_wildcard m) (local_site_services c)))"
    by (simp add: write_services_def)
  have or: "a = [] \<or> (\<exists>m. a = config_write_msc_services L i m)"
    unfolding a_def by (cases "mslookup_server_msc_get (Some mslookup_server_msc_wildcard) False c") (auto split: option.split)
  show ?thesis
  proof (cases a)
    case Nil
    then show ?thesis using assms a by (cases "filter (\<lambda>m. \<not> is_wildcard m) (local_site_services c)") auto
  next
    case (Cons x xs)
    then have "l = x" using assms a by simp
    then show ?thesis using Cons or msc_services_lines [of L i] by (metis list.distinct(1) list.set_intros(1))
  qed
qed

lemma read_services_refused:
  assumes P: "parser_ok P" and "in_block P 1 ms_vty ms_stack v st" and "write_services L 1 [''msc''] c \<noteq> []"
  shows "vty_read_config_file P (dgsm_vty_init L T N) (write_services L 1 [''msc''] c @ ls) v st s = Ret None"
proof -
  obtain l ls' where l: "write_services L 1 [''msc''] c = l # ls'" using assms(3) by (cases "write_services L 1 [''msc''] c") auto
  with write_services_first obtain w ws where w: "l = (1, w # ws)" "w = ''service'' \<or> w = ''msc''" by blast
  show ?thesis using l w(1) assms(2) by (simp add: in_block_def service_refused [OF P w(2)])
qed

lemma server_part:
  \<comment> \<open>the block of the server, when no service is written\<close>
  assumes P: "parser_ok P" and L: "sockaddr_ok L" and ok: "ms_ok L s" and none: "write_services L 1 [''msc''] (ms_server s) = []"
    and z: "\<not> srv_enable (ms_server_mdns z)" "\<not> srv_mdns_enable (ms_server_mdns z)"
      "srv_cfg_domain_suffix (ms_server_mdns z) = OSMO_MDNS_DOMAIN_SUFFIX_DEFAULT"
  shows "\<exists>z'. reads P (dgsm_vty_init L T N) 1 ms_vty ms_stack
      (if srv_enable (ms_server_mdns s) \<or> local_site_services (ms_server s) \<noteq> [] then write_server L s else []) z z' \<and>
    same_client z z' \<and> fst (ms_settings L z') = fst (ms_settings L s)"
proof (cases "srv_enable (ms_server_mdns s) \<or> local_site_services (ms_server s) \<noteq> []")
  case True
  obtain z1 where r: "reads P (dgsm_vty_init L T N) 1 ms_vty ms_stack ((1, [''server'']) # server_lines L s) z z1" and c: "same_client z z1"
    and f: "srv_enable (ms_server_mdns z1)" "srv_mdns_enable (ms_server_mdns z1) = srv_mdns_enable (ms_server_mdns s)"
      "srv_mdns_enable (ms_server_mdns s) \<longrightarrow> srv_cfg_bind_addr (ms_server_mdns z1) = srv_cfg_bind_addr (ms_server_mdns s)"
      "srv_cfg_domain_suffix (ms_server_mdns z1) = srv_cfg_domain_suffix (ms_server_mdns s)"
    using reads_server [OF P L ok z(2,3), of T N] by blast
  let ?z2 = "if \<not> srv_enable (ms_server_mdns s)
    then server_config_apply L N (z1\<lparr>ms_server_mdns := (ms_server_mdns z1)\<lparr>srv_enable := False\<rparr>\<rparr>) else z1"
  have "reads P (dgsm_vty_init L T N) 1 ms_vty ms_stack (if \<not> srv_enable (ms_server_mdns s) then [(1, [''no'', ''server''])] else []) z1 ?z2"
    by (intro reads_if reads_no_server P)
  from reads_append [OF r this] have "reads P (dgsm_vty_init L T N) 1 ms_vty ms_stack (write_server L s) z ?z2"
    using none by (simp add: write_server_lines)
  moreover have "same_client z ?z2" using c by (simp add: same_client_def server_config_apply_def)
  moreover have "fst (ms_settings L ?z2) = fst (ms_settings L s)" using f by (simp add: ms_settings_def server_config_apply_def)
  ultimately show ?thesis using True by (simp only: if_True) blast
next
  case False
  then show ?thesis using z by (intro exI [of _ z]) (simp add: same_client_def ms_settings_def)
qed

lemma client_part:
  assumes P: "parser_ok P" and L: "sockaddr_ok L" and ok: "ms_ok L s"
    and z: "\<not> client_enable (ms_client z)" "\<not> mdns_enable (ms_client z)" "domain_suffix (ms_client z) = OSMO_MDNS_DOMAIN_SUFFIX_DEFAULT"
      "gsup_gateway_proxy z = sockaddr_zero"
  shows "\<exists>z'. reads P (dgsm_vty_init L T N) 1 ms_vty ms_stack (if client_enable (ms_client s) then write_client L s else []) z z' \<and>
    ms_settings L z' = (fst (ms_settings L z), if client_enable (ms_client s) then fst (snd (ms_settings L s)) else None,
      snd (snd (ms_settings L s))) \<and>
    client_result_timeout_milliseconds z' = client_result_timeout_milliseconds z"
proof (cases "client_enable (ms_client s)")
  case True
  have "\<not> osmo_sockaddr_str_is_nonzero L sockaddr_zero" using L by (auto simp: sockaddr_ok_def sockaddr_zero_def)
  moreover obtain z' where "reads P (dgsm_vty_init L T N) 1 ms_vty ms_stack (write_client L s) z z'" "ms_server_mdns z' = ms_server_mdns z"
    "client_enable (ms_client z')" "mdns_enable (ms_client z') = mdns_enable (ms_client s)"
    "mdns_enable (ms_client s) \<longrightarrow> query_addr (ms_client z') = query_addr (ms_client s)" "domain_suffix (ms_client z') = domain_suffix (ms_client s)"
    "gsup_gateway_proxy z' = (if osmo_sockaddr_str_is_nonzero L (gsup_gateway_proxy s) then gsup_gateway_proxy s else sockaddr_zero)"
    "client_result_timeout_milliseconds z' = client_result_timeout_milliseconds z"
    using reads_client [OF P L ok z(2-), of T N] by blast
  ultimately show ?thesis using True by (intro exI [of _ z']) (simp add: ms_settings_def)
next
  case False
  have "\<not> osmo_sockaddr_str_is_nonzero L sockaddr_zero" using L by (auto simp: sockaddr_ok_def sockaddr_zero_def)
  then show ?thesis using False z by (intro exI [of _ z]) (simp add: ms_settings_def)
qed

text \<open>
  C20. What happens to the configuration of Distributed GSM when it is written and read again. If no service and no MSC is configured, the lines written are
  all accepted by a freshly started HLR and the settings in force are the same (server and client on or off, the addresses for multicast DNS and the domain
  suffixes), with two exceptions: the timeout of the client comes back as the default, and the gateway proxy, which is in force whether the client is
  on or off, is lost when the client is off, because it is only written with an enabled client. If any service or MSC is configured, a line of the written configuration is
  refused: services and MSCs are written with the indentation of the server line itself and so end its block, and the line of an MSC lacks its keyword.
\<close>
theorem mslookup_config_roundtrip_exactly:
  assumes P: "parser_ok P" and L: "sockaddr_ok L" and "configured P (dgsm_vty_init L T N) L ms_view s"
  shows "if write_services L 1 [''msc''] (ms_server s) = []
    then \<exists>v st s'. vty_read_config_file P (dgsm_vty_init L T N) (config_write_mslookup L s) file_vty [] (initial_config L z) = Ret (Some (v, st, s')) \<and>
      ms_settings L s' = (case ms_settings L s of (server, gateway, client) \<Rightarrow>
        (server, if client_enable (ms_client s) then gateway else None, client)) \<and> client_result_timeout_milliseconds s' = 2000
    else vty_read_config_file P (dgsm_vty_init L T N) (config_write_mslookup L s) file_vty [] (initial_config L z) = Ret None"
proof -
  let ?z = "initial_config L z"
  let ?tab = "dgsm_vty_init L T N"
  let ?srv = "if srv_enable (ms_server_mdns s) \<or> local_site_services (ms_server s) \<noteq> [] then write_server L s else []"
  let ?cli = "if client_enable (ms_client s) then write_client L s else []"
  note ok = ms_configured_ok [OF assms]
  have z: "\<not> srv_enable (ms_server_mdns ?z)" "\<not> srv_mdns_enable (ms_server_mdns ?z)"
    "srv_cfg_domain_suffix (ms_server_mdns ?z) = OSMO_MDNS_DOMAIN_SUFFIX_DEFAULT" "\<not> client_enable (ms_client ?z)" "\<not> mdns_enable (ms_client ?z)"
    "domain_suffix (ms_client ?z) = OSMO_MDNS_DOMAIN_SUFFIX_DEFAULT" "gsup_gateway_proxy ?z = sockaddr_zero"
    "client_result_timeout_milliseconds ?z = 2000"
    by (simp_all add: initial_config_def dgsm_init_def hlr_init_def Let_def)
  have enter: "vty_read_config_file P ?tab ((0, [''mslookup'']) # ls) file_vty [] ?z = vty_read_config_file P ?tab ls ms_vty ms_stack ?z" for ls
    by (simp add: leave_simps [OF P] match_simps [OF P] dgsm_vty_init_def [of L T N CONFIG_NODE] Let_def cfg_mslookup_def cmd_ok_def file_vty_def ms_vty_def)
  have blk: "in_block P 1 ms_vty ms_stack ms_vty ms_stack" by (simp add: in_block_def leave_simps [OF P])
  show ?thesis
  proof (cases "write_services L 1 [''msc''] (ms_server s) = []")
    case True
    obtain z1 where 1: "reads P ?tab 1 ms_vty ms_stack ?srv ?z z1" "same_client ?z z1" "fst (ms_settings L z1) = fst (ms_settings L s)"
      using server_part [OF P L ok True z(1-3), of T N] by blast
    obtain z2 where 2: "reads P ?tab 1 ms_vty ms_stack ?cli z1 z2" "ms_settings L z2 = (fst (ms_settings L s),
        if client_enable (ms_client s) then fst (snd (ms_settings L s)) else None, snd (snd (ms_settings L s)))" "client_result_timeout_milliseconds z2 = 2000"
      using client_part [OF P L ok, of z1 T N] 1(2,3) z(4-) by (auto simp: same_client_def)
    obtain v st where r: "vty_read_config_file P ?tab (?srv @ ?cli) ms_vty ms_stack ?z = Ret (Some (v, st, z2))"
      using reads_append [OF 1(1) 2(1)] blk unfolding reads_def by blast
    show ?thesis
    proof (cases "config_write_mslookup L s = []")
      case empty: True
      have "\<not> osmo_sockaddr_str_is_nonzero L sockaddr_zero" using L by (auto simp: sockaddr_ok_def sockaddr_zero_def)
      then have "ms_settings L ?z = (fst (ms_settings L s), if client_enable (ms_client s) then fst (snd (ms_settings L s)) else None,
          snd (snd (ms_settings L s)))"
        using z empty by (simp add: config_write_mslookup_def ms_settings_def split: if_splits)
      then show ?thesis using True empty z(8) by (simp add: prod.case_eq_if)
    next
      case False
      then have "config_write_mslookup L s = (0, [''mslookup'']) # ?srv @ ?cli" by (simp add: config_write_mslookup_def split: if_splits)
      then show ?thesis using True 2(2,3) r by (simp only: enter) (simp add: prod.case_eq_if)
    qed
  next
    case False
    then have "local_site_services (ms_server s) \<noteq> []"
      by (auto simp: write_services_def mslookup_server_msc_get_def index_of_def)
    then have c: "config_write_mslookup L s = (0, [''mslookup'']) # ((1, [''server'']) # server_lines L s) @ write_services L 1 [''msc''] (ms_server s) @
        (if \<not> srv_enable (ms_server_mdns s) then [(1, [''no'', ''server''])] else []) @ ?cli"
      by (simp add: config_write_mslookup_def write_server_lines)
    obtain z1 v st where r: "vty_read_config_file P ?tab ((1, [''server'']) # server_lines L s) ms_vty ms_stack ?z = Ret (Some (v, st, z1))"
      and b: "in_block P 1 ms_vty ms_stack v st"
      using reads_server [OF P L ok z(2,3), of T N] blk unfolding reads_def by blast
    have "vty_read_config_file P ?tab (config_write_mslookup L s) file_vty [] ?z = Ret None"
      unfolding c enter by (subst read_append) (simp only: r exec.case option.case prod.case read_services_refused [OF P b False])
    then show ?thesis using False by simp
  qed
qed

section \<open>Removing the address of a service\<close>

lemma del_others: "list_all (\<lambda>x. strcmp serv (sh_service x) \<noteq> 0) xs \<Longrightarrow> map (service_del_entry L (Some serv) addr) xs = map Some xs"
  by (induction xs) (simp_all add: service_del_entry_def)

lemma filter_Some [simp]: "List.map_filter id (map Some xs) = xs" "filter (\<lambda>e. e = None) (map Some xs) = []"
  by (induction xs) (simp_all add: List.map_filter_simps)

lemma map_filter_append: "List.map_filter f (xs @ ys) = List.map_filter f xs @ List.map_filter f ys"
  by (simp add: List.map_filter_def)

text \<open>
  Removing one of the two addresses of a service is reported as a failure although it is done: when a service of an MSC has an IPv4 and an IPv6 address and the operator
  removes the IPv4 address, the command warns that the service cannot be removed, and the address is gone.
\<close>
theorem service_addr_removed_with_warning:
  assumes "vt_node v = MSLOOKUP_SERVER_MSC_NODE" and "vt_index v = INDEX_MSC i" and "i < length (local_site_services (ms_server s))"
    and hosts: "service_hosts (local_site_services (ms_server s) ! i) = pre @ e # post"
    and "sh_service e = serv" and "list_all (\<lambda>x. strcmp serv (sh_service x) \<noteq> 0) (pre @ post)"
    and "parse_addr L ip (of_int (atoi port)) = Some addr" and "osmo_sockaddr_str_cmp L addr (sh_host_v4 e) = 0"
    and "osmo_sockaddr_str_is_nonzero L (sh_host_v6 e)"
  shows "\<exists>s' out. cfg_mslookup_server_msc_no_service_addr L T [serv, ip, port] v s = Ret (v, s', out, CMD_WARNING) \<and>
    service_hosts (local_site_services (ms_server s') ! i) = pre @ e\<lparr>sh_host_v4 := sockaddr_zero\<rparr> # post"
proof -
  have "service_del_entry L (Some serv) (Some addr) e = Some (e\<lparr>sh_host_v4 := sockaddr_zero\<rparr>)"
    using assms(5,8,9) by (simp add: service_del_entry_def Let_def cmp_simps)
  then have del: "mslookup_server_msc_service_del L (Some (local_site_services (ms_server s) ! i)) (Some serv) (Some addr) =
      (Some ((local_site_services (ms_server s) ! i)\<lparr>service_hosts := pre @ e\<lparr>sh_host_v4 := sockaddr_zero\<rparr> # post\<rparr>), 0)"
    using assms(6) hosts by (simp add: mslookup_server_msc_service_del_def Let_def del_others map_filter_append List.map_filter_simps)
  show ?thesis
    using assms(1-3,7) del by (simp add: cfg_mslookup_server_msc_no_service_addr_def msc_from_node_def cmd_warn_def store_msc_def)
qed

section \<open>A configuration of Distributed GSM\<close>

definition ref_dgsm :: dgsm_env where
  "ref_dgsm = \<lparr>mdns_sock_ok = True, add_mdns_ok = True, argv_concat = hd\<rparr>"

definition mdns_default :: osmo_sockaddr_str where
  "mdns_default = \<lparr>sa_af = AF_INET, sa_ip = OSMO_MSLOOKUP_MDNS_IP4, sa_port = OSMO_MSLOOKUP_MDNS_PORT\<rparr>"

definition ms_bound :: vty_world where
  "ms_bound = bind_client ref_core ref_dgsm mdns_default (bind_server ref_core ref_dgsm mdns_default (initial_config ref_core vty_first))"

lemma ref_sockaddr_ok: "sockaddr_ok ref_core"
  by (simp add: sockaddr_ok_def ref_core_def)

lemma default_parsed: "parse_addr ref_core OSMO_MSLOOKUP_MDNS_IP4 OSMO_MSLOOKUP_MDNS_PORT = Some mdns_default"
  by (simp add: parse_addr_def ref_core_def mdns_default_def OSMO_MSLOOKUP_MDNS_IP4_def OSMO_MSLOOKUP_MDNS_PORT_def)

lemma initial_addrs:
  "srv_cfg_bind_addr (ms_server_mdns (initial_config ref_core s)) = mdns_default" "query_addr (ms_client (initial_config ref_core s)) = mdns_default"
  "local_site_services (ms_server (initial_config ref_core s)) = []"
  by (simp_all add: initial_config_def dgsm_init_def hlr_init_def Let_def mdns_default_def ref_core_def)

lemma bound_configured: "configured ref_parser (dgsm_vty_init ref_core ref_vty ref_dgsm) ref_core ms_view ms_bound"
proof (rule configured.command [OF configured.start])
  show "find_cmd ref_parser (dgsm_vty_init ref_core ref_vty ref_dgsm (vt_node ms_vty)) [''mdns'', ''bind''] =
      Some (cfg_mslookup_mdns ref_core ref_vty ref_dgsm, [])"
    by (simp add: ms_find ref_parser_ok)
  have "mdns_arg [] mdns_default = (OSMO_MSLOOKUP_MDNS_IP4, OSMO_MSLOOKUP_MDNS_PORT)" by (simp add: mdns_arg_def mdns_default_def)
  then show "cfg_mslookup_mdns ref_core ref_vty ref_dgsm [] ms_vty (initial_config ref_core vty_first) = Ret (ms_vty, ms_bound, [], CMD_SUCCESS)"
    by (simp add: cfg_mslookup_mdns_def mslookup_server_mdns_bind_def mslookup_client_mdns_to_def server_config_apply_def client_config_apply_def
        initial_addrs default_parsed cmd_ok_def ms_bound_def bind_client_def bind_server_def)
qed

lemma bound_no_services: "write_services L i m (ms_server ms_bound) = []"
  by (simp add: ms_bound_def bind_client_def bind_server_def server_config_apply_def client_config_apply_def write_services_def
      mslookup_server_msc_get_def index_of_def initial_addrs)

theorem mslookup_config_roundtrip_exactly_witness:
  "\<exists>v st s'. vty_read_config_file ref_parser (dgsm_vty_init ref_core ref_vty ref_dgsm) (config_write_mslookup ref_core ms_bound) file_vty []
      (initial_config ref_core vty_first) = Ret (Some (v, st, s')) \<and> ms_settings ref_core s' = ms_settings ref_core ms_bound"
proof -
  have "client_enable (ms_client ms_bound)" by (simp add: ms_bound_def bind_client_def client_config_apply_def)
  then show ?thesis
    using mslookup_config_roundtrip_exactly [OF ref_parser_ok ref_sockaddr_ok bound_configured, of vty_first]
    by (simp only: bound_no_services simp_thms if_True case_prod_eta prod.case_eq_if prod.collapse) blast
qed

definition two_addrs :: mslookup_service_host where
  "two_addrs = \<lparr>sh_service = ''sip.voice'', sh_host_v4 = \<lparr>sa_af = AF_INET, sa_ip = ''1.2.3.4'', sa_port = 5060\<rparr>,
     sh_host_v6 = \<lparr>sa_af = AF_INET6, sa_ip = ''::1'', sa_port = 5060\<rparr>\<rparr>"

definition msc_vty :: vty where
  "msc_vty = \<lparr>vt_node = MSLOOKUP_SERVER_MSC_NODE, vt_index = INDEX_MSC 0, vt_file = False\<rparr>"

definition ms_two :: vty_world where
  "ms_two = vty_first\<lparr>ms_server := (ms_server vty_first)\<lparr>local_site_services := [\<lparr>cfg_msc_name = ipa_name_empty, service_hosts = [two_addrs]\<rparr>]\<rparr>\<rparr>"

theorem service_addr_removed_with_warning_witness:
  "\<exists>s' out. cfg_mslookup_server_msc_no_service_addr ref_core ref_vty [''sip.voice'', ''1.2.3.4'', ''5060''] msc_vty ms_two = Ret (msc_vty, s', out, CMD_WARNING) \<and>
    service_hosts (local_site_services (ms_server s') ! 0) = [two_addrs\<lparr>sh_host_v4 := sockaddr_zero\<rparr>]"
proof -
  have "atoi ''5060'' = 5060" by (simp add: atoi_def strtoll_def is_space_def is_digit_def octet_val_def Let_def)
  then have "parse_addr ref_core ''1.2.3.4'' (of_int (atoi ''5060'')) = Some (sh_host_v4 two_addrs)"
    by (simp add: parse_addr_def ref_core_def two_addrs_def)
  from service_addr_removed_with_warning [OF _ _ _ _ _ _ this, of msc_vty 0 ms_two "[]" two_addrs "[]" "''sip.voice''" ref_vty]
  show ?thesis by (simp add: msc_vty_def ms_two_def ref_core_def) (simp add: two_addrs_def)
qed

end
