(* ===== verification/Spec2Isabelle.thy ===== *)
theory Spec2Isabelle
  imports Mslookup_Client_Tool Hlr_Db_Tool Dgsm_Vty
begin

text \<open>
  Verification of osmo-hlr, the Home Location Register of the Osmocom cellular network, written in C.

  \<^bold>\<open>The program.\<close> MSCs, SGSNs and external USSD entities connect to the HLR over GSUP (\<open>src/gsup_server.c\<close>). Each
  message becomes a request (\<open>struct osmo_gsup_req\<close>) that has to be answered and deallocated exactly once. The handlers
  in \<open>src/hlr.c\<close> decide what happens to it: it is forwarded to another peer of the server, handed to the
  proxy for a remote HLR (\<open>src/dgsm.c\<close>, \<open>src/proxy.c\<close>, \<open>src/remote_hlr.c\<close>), answered from the database
  (\<open>src/db_hlr.c\<close>, \<open>src/db_auc.c\<close>, \<open>src/auc.c\<close>), or kept by a location update (\<open>src/lu_fsm.c\<close>) or by a session
  of supplementary services (\<open>src/hlr_ussd.c\<close>). To find the HLR of an unknown subscriber, HLRs ask each other by
  mslookup over multicast DNS (\<open>src/mslookup/\<close>, \<open>src/mslookup_server.c\<close>).

  \<^bold>\<open>The model.\<close> A definition has the name of the C function or struct it translates. The state of the program is
  one record that the components extend in the order of the theories (\<open>hlr_core\<close>, \<open>lu_world\<close>, \<open>ussd_world\<close>,
  \<open>dgsm_world\<close>, \<open>hlr_world\<close>, \<open>mdns_world\<close>, \<open>tool_world\<close>, \<open>vty_world\<close>), so that a handler of one component runs on every later
  extension. The intrusive lists of libosmocore are HOL lists in the same order; objects that are
  reached by pointers have numbers (\<open>req_nr\<close>, \<open>conn_id\<close>, \<open>rh_id\<close>) or are indices. Deallocation of a request is an
  event in the trace of the server, and \<open>freed nr\<close> counts it. Integers that can wrap are words (ages,
  handles, packet ids, sequence numbers, IPv4 ports), others are \<open>int\<close> or \<open>nat\<close>. NULL is None. A
  failed assertion, an access out of bounds or through a dead pointer is \<open>Fault\<close> (type \<open>exec\<close>) or
  None; error codes are the negative errno values of the source. Memory allocation succeeds.

  \<^bold>\<open>What is outside.\<close> Code of other libraries is a parameter: \<open>osmo_core\<close> (libosmocore: strings, addresses,
  integers in network order), \<open>gsup_lib\<close> (encoding of GSUP messages), \<open>auth_lib\<close> (authentication algorithms), \<open>fsm_lib\<close>,
  \<open>ss_lib\<close> (USSD encoding), \<open>oap_lib\<close>; SQLite is \<open>sqlite_env\<close>, with the statements of \<open>src/db.c\<close> translated
  to operations on tables and every call allowed to fail; links and random numbers are \<open>hlr_env\<close>. Theorems
  name what they need of them (\<open>lib_strings_ok\<close>, \<open>lib_strbuf_ok\<close>, \<open>lib_endian_ok\<close>, \<open>lib_text_ok\<close>, \<open>lib_cmp_ok\<close>, \<open>fsm_ok\<close>,
  \<open>ss_lib_ok\<close>, \<open>auth_lib_ok\<close>, \<open>env_ok\<close>); the records \<open>ref_core\<close>, \<open>ref_gsup\<close>, \<open>ref_auth\<close> and so on satisfy
  them and are used in the witnesses.

  \<^bold>\<open>Theories, from the bottom up.\<close>
  \<^item> \<open>Prelude\<close>, \<open>Osmo_Core\<close>: octets, C strings, comparison, lists; the parameter for libosmocore.
  \<^item> \<open>Cni_Peer_Id\<close> (\<open>cni_peer_id.c\<close>): names of peers; their comparison is the lexicographic order.
  \<^item> \<open>Gsup_Types\<close>, \<open>Gsup_Router\<close> (\<open>gsup_router.c\<close>, \<open>gsup_send.c\<close>): the routing table refines a map from addresses to
    connections (locale for routing tables, interpreted on the list); delivery by name.
  \<^item> \<open>Gsup_Req\<close> (\<open>gsup_req.c\<close>): requests and their responses; the locale \<open>response_sender\<close> states what a callback for
    responses may do, and is interpreted on the one of the server.
  \<^item> \<open>Gsup_Server\<close> (\<open>gsup_server.c\<close>): receiving, answering, connections with their IND slots, forwarding between
    peers; no route to a closed connection, answers go back where the request came from.
  \<^item> \<open>Mslookup\<close>, \<open>Mdns_Rfc\<close>, \<open>Mdns_Msg\<close>, \<open>Mdns\<close> (\<open>src/mslookup/\<close>): queries, names, packets; round trips for all
    of them, and exactly when the decoder of names runs out of bounds.
  \<^item> \<open>Db\<close>, \<open>Db_Hlr\<close>, \<open>Auc\<close>, \<open>Db_Auc\<close> (\<open>db.c\<close>, \<open>db_hlr.c\<close>, \<open>auc.c\<close>, \<open>db_auc.c\<close>): tables, subscribers as a map, the
    constraints of the schema, authentication data; the record of a location update; with resynchronisations before, no sequence number is used twice.
  \<^item> \<open>Hlr_State\<close>: responding to requests, and the locale \<open>request_owner\<close>: the contract of a component
    that keeps requests. It is interpreted on location updates, sessions, the proxy and the whole HLR.
  \<^item> \<open>Lu_Fsm\<close> (\<open>lu_fsm.c\<close>), \<open>Hlr_Ussd\<close> (\<open>hlr_ussd.c\<close>): state machines as functions and step relations; each
    request concluded once, a location update completes and is answered, and exactly which messages make the session handler fail. A pointer to
    an external entity that the operator has removed is \<open>USE_FREED\<close>, and reading it is \<open>Fault\<close>.
  \<^item> \<open>Gsup_Client\<close> (\<open>gsup_client.c\<close>), \<open>Mslookup_Client\<close> (\<open>mslookup_client.c\<close>): links that never get stuck; lookups that
    deliver their results and end (locales for callbacks, interpreted on the callback of the HLR), and what happens when a callback cancels its own
    lookup.
  \<^item> \<open>Proxy\<close> (\<open>proxy.c\<close>, \<open>remote_hlr.c\<close>, \<open>timestamp.c\<close>), \<open>Dgsm\<close> (\<open>dgsm.c\<close>): deferred requests, links to remote HLRs.
  \<^item> \<open>Hlr\<close> (\<open>hlr.c\<close>): the handlers of messages and \<open>read_cb\<close>; subscribers created on demand, with what is left behind on an error.
  \<^item> \<open>Hlr_Requests\<close>: all components together. The relation \<open>hlr_step\<close> has every event of the running
    program; whatever their order, no request is deallocated twice, and every request is held by one component or
    concluded once.
  \<^item> \<open>Mslookup_Server\<close> (\<open>mslookup_server.c\<close>, \<open>mslookup_server_mdns.c\<close>), \<open>Mslookup_Client_Mdns\<close>
    (\<open>mslookup_client_mdns.c\<close>): a lookup sent by one HLR, answered by another, and delivered to the first.
  \<^item> \<open>Mslookup_Client_Tool\<close> (\<open>osmo-mslookup-client.c\<close>): the command line client for lookups with its options, query strings, output
    formats and connections. A one-shot run ends, and its output has exactly one final line for every query; what a query string means; a malformed query
    that disconnects others; rows of the CSV output with one column too many.
  \<^item> \<open>Db_Open\<close> (\<open>db.c\<close>, \<open>sql/hlr.sql\<close>): database files of every schema version, their bootstrapping and upgrade; what is
    kept, what is refused, and the interruption an upgrade does not survive.
  \<^item> \<open>Ctrl\<close> (\<open>ctrl.c\<close>): the control interface; what is set is what is read.
  \<^item> \<open>Hlr_Vty_Subscr\<close> (\<open>hlr_vty_subscr.c\<close>): the operator's commands for subscribers. They are steps of
    \<open>hlr_step\<close>; they keep the constraints of the database and all requests, and a warning means that nothing has changed. They
    return unless SQLite fails while a subscriber is created.
  \<^item> \<open>Vty\<close>, \<open>Hlr_Vty\<close> (\<open>hlr_vty.c\<close>), \<open>Dgsm_Vty\<close> (\<open>dgsm_vty.c\<close>): the configuration commands, the writing of the configuration and its
    reading by a new HLR. Which settings survive, and the ones that do not: IPA name, timeout of the lookup client, services of MSCs,
    the gateway proxy when the lookup client is off.
    How the VTY library matches a line with the template of a command and leaves nodes by indentation is the parameter
    \<open>vty_parser\<close>, with the hypothesis \<open>parser_ok\<close>.
  \<^item> \<open>Hlr_Db_Tool\<close> (\<open>hlr_db_tool.c\<close>, \<open>dbd_decode_binary.c\<close>): the import of another database; an imported subscriber has its
    number, access modes and key, when its id fits the \<open>int\<close> it is narrowed to.

  \<^bold>\<open>Loops.\<close> All functions are total; the loops of the source are folds or recursion on a list, except the decoder
  of names, which recurses on the distance to the end of the buffer, the loop of upgrades, which recurses
  on the distance to the current version of the schema, and the two bounded retry
  loops of \<open>generate_new_msisdn\<close>, whose bounds of ten are those of the source. The main loop of the lookup program recurses on
  the batches of events it finds; that it is left is a theorem (\<open>one_shot_terminates\<close>).

  \<^bold>\<open>Not modelled.\<close> The VTY library itself, the sockets of
  multicast DNS, start-up and signals of \<open>hlr.c\<close>, logging, the lookup method for tests and the test programs: input and
  output around the operations modelled here.
\<close>

end
